(* ===== verification/TA_Prelude.thy ===== *)
theory TA_Prelude
  imports Main "HOL-Library.Word" "HOL-Library.Monad_Syntax"
begin

text \<open>
  Shared vocabulary of the development: bytes and NUL-terminated strings, bounded writes
  into a C object, the WebAssembly linear memory and its load/store laws, and the decimal
  reference functions that the chaincode's number routines are compared with.

  A C object (an array, a struct field, a shared buffer) is the list of its bytes. An
  operation that would touch a byte outside the object has no defined result in C; it is
  the value \<^term>\<open>None\<close> here, so that a theorem \<open>f x = Some y\<close> also says that \<open>f\<close> stays
  inside its objects.
\<close>

named_theorems cstr_simps \<open>rewrite rules for C strings in fixed-size fields\<close>
named_theorems mem_simps \<open>rewrite rules for loads from and stores to linear memory\<close>

section \<open>Bytes and C strings\<close>

type_synonym u32 = "32 word"

type_synonym cptr = "char list option"
  \<comment> \<open>a \<open>char *\<close>: \<^term>\<open>None\<close> is \<open>NULL\<close>, otherwise the bytes from the pointer to the end of its object\<close>

abbreviation NUL :: char where
  "NUL \<equiv> CHR 0x00"

definition cstr :: "char list \<Rightarrow> char list" where
  "cstr bs = takeWhile (\<lambda>c. c \<noteq> NUL) bs"

definition terminated :: "char list \<Rightarrow> bool" where
  "terminated bs \<longleftrightarrow> NUL \<in> set bs"

definition nul_free :: "char list \<Rightarrow> bool" where
  "nul_free s \<longleftrightarrow> NUL \<notin> set s"

text \<open>
  \<open>cfield n s\<close> is how a string ends up in a zeroed \<open>char[n]\<close> after a copy that keeps the
  last byte for the terminator.
\<close>

definition cfield :: "nat \<Rightarrow> char list \<Rightarrow> char list" where
  "cfield n s = take (n - 1) s @ replicate (n - length (take (n - 1) s)) NUL"

lemma length_cfield [simp]: "length (cfield n s) = n"
  by (simp add: cfield_def)

lemma terminated_Cons [simp]: "terminated (c # bs) \<longleftrightarrow> c = NUL \<or> terminated bs"
  by (auto simp: terminated_def)

lemma not_terminated_Nil [simp]: "\<not> terminated []"
  by (simp add: terminated_def)

lemma cstr_Nil [simp]: "cstr [] = []"
  by (simp add: cstr_def)

lemma cstr_Cons [simp]: "cstr (c # bs) = (if c = NUL then [] else c # cstr bs)"
  by (simp add: cstr_def)

lemma nul_free_Nil [simp]: "nul_free []"
  by (simp add: nul_free_def)

lemma nul_free_Cons [simp]: "nul_free (c # s) \<longleftrightarrow> c \<noteq> NUL \<and> nul_free s"
  by (auto simp: nul_free_def)

lemma nul_free_cstr [simp]: "nul_free (cstr bs)"
  by (auto simp: nul_free_def cstr_def dest: set_takeWhileD)

lemma nul_free_take [simp]: "nul_free s \<Longrightarrow> nul_free (take n s)"
  by (auto simp: nul_free_def dest: in_set_takeD)

lemma nul_free_append [simp]: "nul_free (s @ t) \<longleftrightarrow> nul_free s \<and> nul_free t"
  by (auto simp: nul_free_def)

lemma cstr_id [simp, cstr_simps]: "nul_free s \<Longrightarrow> cstr s = s"
  by (induction s) auto

lemma cstr_append [cstr_simps]: "nul_free s \<Longrightarrow> cstr (s @ t) = s @ cstr t"
  by (induction s) auto

lemma cstr_replicate [simp, cstr_simps]: "cstr (replicate n NUL) = []"
  by (cases n) auto

lemma cstr_replicate_append [cstr_simps]:
  "0 < n \<Longrightarrow> cstr (replicate n NUL @ t) = []"
  by (cases n) auto

lemma cstr_append_terminated [cstr_simps]: "terminated bs \<Longrightarrow> cstr (bs @ t) = cstr bs"
  by (induction bs) auto

lemma length_cstr_le: "length (cstr bs) \<le> length bs"
  by (simp add: cstr_def length_takeWhile_le)

lemma length_cstr_less: "terminated bs \<Longrightarrow> length (cstr bs) < length bs"
  by (induction bs) auto

lemma take_length_cstr [simp]: "take (length (cstr bs)) bs = cstr bs"
  by (induction bs) auto

lemma terminated_append [simp]: "terminated (s @ t) \<longleftrightarrow> terminated s \<or> terminated t"
  by (auto simp: terminated_def)

lemma terminated_replicate [simp]: "terminated (replicate n NUL) \<longleftrightarrow> 0 < n"
  by (auto simp: terminated_def)

lemma terminated_cfield [simp]: "0 < n \<Longrightarrow> terminated (cfield n s)"
  by (auto simp: cfield_def)

lemma cstr_cfield [cstr_simps]: "nul_free s \<Longrightarrow> 0 < n \<Longrightarrow> cstr (cfield n s) = take (n - 1) s"
  by (auto simp: cfield_def cstr_append)

lemma cstr_cfield_short: "nul_free s \<Longrightarrow> length s < n \<Longrightarrow> cstr (cfield n s) = s"
  by (simp add: cstr_cfield)

lemma cfield_Nil [simp]: "cfield n [] = replicate n NUL"
  by (simp add: cfield_def)

lemma cfield_short: "length s < n \<Longrightarrow> cfield n s = s @ replicate (n - length s) NUL"
  by (simp add: cfield_def)

lemma cfield_take [simp]: "cfield n (take (n - 1) s) = cfield n s"
  by (simp add: cfield_def)

lemma cfield_first: "nul_free s \<Longrightarrow> 1 < n \<Longrightarrow> cfield n s ! 0 = NUL \<longleftrightarrow> s = []"
  by (cases s) (auto simp: cfield_def nth_append take_Cons split: nat.splits)

lemma terminated_cstr_append: "terminated bs \<Longrightarrow> \<exists>t. bs = cstr bs @ NUL # t"
  by (induction bs) auto

section \<open>Bounded writes into a C object\<close>

text \<open>
  \<open>TEE_MemFill\<close> and \<open>TEE_MemMove\<close> are the TEE API's names for \<open>memset\<close> and \<open>memmove\<close>:
  \<open>TEE_MemFill (buf + off, x, n)\<close> and \<open>TEE_MemMove (buf + off, src, n)\<close>.
\<close>

definition buf_write :: "nat \<Rightarrow> char list \<Rightarrow> char list \<Rightarrow> char list option" where
  "buf_write off bs buf =
     (if off + length bs \<le> length buf
      then Some (take off buf @ bs @ drop (off + length bs) buf) else None)"

definition TEE_MemFill :: "nat \<Rightarrow> char \<Rightarrow> nat \<Rightarrow> char list \<Rightarrow> char list option" where
  "TEE_MemFill off x n buf = buf_write off (replicate n x) buf"

definition TEE_MemMove :: "nat \<Rightarrow> char list \<Rightarrow> nat \<Rightarrow> char list \<Rightarrow> char list option" where
  "TEE_MemMove off src n buf =
     (if n \<le> length src then buf_write off (take n src) buf else None)"

lemma length_buf_write: "buf_write off bs buf = Some buf' \<Longrightarrow> length buf' = length buf"
  by (auto simp: buf_write_def split: if_splits)

lemma TEE_MemFill_all [simp]: "length buf = n \<Longrightarrow> TEE_MemFill 0 x n buf = Some (replicate n x)"
  by (simp add: TEE_MemFill_def buf_write_def)

lemma TEE_MemMove_cfield:
  assumes "nul_free s" and "m < n"
  shows "TEE_MemMove 0 s (min (length s) m) (replicate n NUL)
         = Some (take m s @ replicate (n - min (length s) m) NUL)"
  using assms by (auto simp: TEE_MemMove_def buf_write_def min_def)

section \<open>Linear memory of a WebAssembly instance\<close>

type_synonym lmem = "nat \<Rightarrow> char"

definition load :: "lmem \<Rightarrow> nat \<Rightarrow> nat \<Rightarrow> char list" where
  "load m a n = map m [a..<a + n]"

definition store :: "nat \<Rightarrow> char list \<Rightarrow> lmem \<Rightarrow> lmem" where
  "store a bs m = (\<lambda>i. if a \<le> i \<and> i < a + length bs then bs ! (i - a) else m i)"

definition disjoint_regions :: "nat \<Rightarrow> nat \<Rightarrow> nat \<Rightarrow> nat \<Rightarrow> bool" where
  "disjoint_regions a n b k \<longleftrightarrow> a + n \<le> b \<or> b + k \<le> a"

lemma length_load [simp]: "length (load m a n) = n"
  by (simp add: load_def)

lemma load_0 [simp]: "load m a 0 = []"
  by (simp add: load_def)

lemma nth_load [simp]: "i < n \<Longrightarrow> load m a n ! i = m (a + i)"
  by (simp add: load_def)

lemma load_Suc: "load m a (Suc n) = m a # load m (Suc a) n"
  using upt_conv_Cons [of a "a + Suc n"] by (simp add: load_def del: upt_Suc)

lemma store_Nil [simp]: "store a [] m = m"
  by (rule ext) (auto simp: store_def)

lemma store_Cons: "store a (c # bs) m = store (Suc a) bs (m(a := c))"
  by (rule ext) (auto simp: store_def nth_Cons')

lemma store_replicate_Suc: "store a (replicate (Suc n) c) m = (store a (replicate n c) m)(a + n := c)"
  by (rule ext) (auto simp: store_def simp del: replicate_Suc)

lemma load_store_same [simp, mem_simps]: "length bs = n \<Longrightarrow> load (store a bs m) a n = bs"
  by (rule nth_equalityI) (auto simp: store_def)

lemma load_store_disjoint [mem_simps]:
  "disjoint_regions a (length bs) b n \<Longrightarrow> load (store a bs m) b n = load m b n"
  by (rule nth_equalityI) (auto simp: store_def disjoint_regions_def)

lemma load_append: "load m a (n + k) = load m a n @ load m (a + n) k"
proof (rule nth_equalityI)
  fix i assume "i < length (load m a (n + k))"
  then show "load m a (n + k) ! i = (load m a n @ load m (a + n) k) ! i"
    by (cases "i < n") (auto simp: nth_append)
qed simp

lemma load_store_prefix [mem_simps]:
  assumes "length bs \<le> n"
  shows "load (store a bs m) a n = bs @ load m (a + length bs) (n - length bs)"
proof -
  have "load (store a bs m) (a + length bs) (n - length bs) = load m (a + length bs) (n - length bs)"
    by (rule load_store_disjoint) (simp add: disjoint_regions_def)
  moreover have "load (store a bs m) a n
      = load (store a bs m) a (length bs) @ load (store a bs m) (a + length bs) (n - length bs)"
    using assms load_append [of "store a bs m" a "length bs" "n - length bs"] by simp
  ultimately show ?thesis by simp
qed

lemma load_store_replicate:
  "k + j \<le> n \<Longrightarrow> load (store a (replicate n c) m) (a + k) j = replicate j c"
  by (rule nth_equalityI) (auto simp: store_def)

text \<open>The pattern of every copy-out in the program: clear the buffer, then copy a prefix.\<close>

lemma load_clear_then_copy:
  assumes "length s \<le> n"
  shows "load (store a s (store a (replicate n NUL) m)) a n = s @ replicate (n - length s) NUL"
  using assms by (simp add: load_store_prefix load_store_replicate)

lemma store_clear_then_copy:
  assumes "length s \<le> n"
  shows "store a s (store a (replicate n c) m) = store a (s @ replicate (n - length s) c) m"
  using assms by (auto simp: store_def fun_eq_iff nth_append)

lemma store_cfield:
  "0 < n \<Longrightarrow> store a (take (n - 1) s) (store a (replicate n NUL) m) = store a (cfield n s) m"
  by (simp add: store_clear_then_copy cfield_def)

lemma take_load: "k \<le> n \<Longrightarrow> take k (load m a n) = load m a k"
  by (rule nth_equalityI) auto

section \<open>Decimal numerals\<close>

definition is_digit :: "char \<Rightarrow> bool" where
  "is_digit c \<longleftrightarrow> (48::nat) \<le> of_char c \<and> of_char c \<le> (57::nat)"

definition digit_val :: "char \<Rightarrow> nat" where
  "digit_val c = of_char c - 48"

definition digit_char :: "nat \<Rightarrow> char" where
  "digit_char d = char_of (48 + d)"

definition dec_val :: "char list \<Rightarrow> nat" where
  "dec_val s = foldl (\<lambda>n c. 10 * n + digit_val c) 0 s"

fun dec_str :: "nat \<Rightarrow> char list" where
  "dec_str n = (if n < 10 then [digit_char n] else dec_str (n div 10) @ [digit_char (n mod 10)])"

declare dec_str.simps [simp del]

lemma char_of_0 [simp]: "char_of (0 :: nat) = NUL"
  by code_simp

lemma digit_char_0: "digit_char 0 = CHR ''0''"
  by code_simp

lemma of_digit_char: "d < 10 \<Longrightarrow> (of_char (digit_char d) :: nat) = 48 + d"
  by (simp add: digit_char_def)

lemma is_digit_digit_char [simp]: "d < 10 \<Longrightarrow> is_digit (digit_char d)"
  by (simp add: is_digit_def of_digit_char)

lemma digit_val_digit_char [simp]: "d < 10 \<Longrightarrow> digit_val (digit_char d) = d"
  by (simp add: digit_val_def of_digit_char)

lemma not_is_digit_NUL [simp]: "\<not> is_digit NUL"
  by (simp add: is_digit_def)

lemma digit_not_NUL: "is_digit c \<Longrightarrow> c \<noteq> NUL"
  by auto

lemma digit_char_not_NUL [simp]: "d < 10 \<Longrightarrow> digit_char d \<noteq> NUL"
  by (metis is_digit_digit_char not_is_digit_NUL)

lemma dec_val_snoc [simp]: "dec_val (s @ [c]) = 10 * dec_val s + digit_val c"
  by (simp add: dec_val_def)

lemma dec_val_Nil [simp]: "dec_val [] = 0"
  by (simp add: dec_val_def)

lemma dec_str_digits: "\<forall>c \<in> set (dec_str n). is_digit c"
proof (induction n rule: dec_str.induct)
  case (1 n)
  then show ?case by (cases "n < 10") (auto simp: dec_str.simps [of n])
qed

lemma nul_free_dec_str [simp]: "nul_free (dec_str n)"
  using dec_str_digits [of n] by (auto simp: nul_free_def)

lemma dec_val_dec_str [simp]: "dec_val (dec_str n) = n"
proof (induction n rule: dec_str.induct)
  case (1 n)
  show ?case
  proof (cases "n < 10")
    case True
    then show ?thesis by (simp add: dec_str.simps [of n] dec_val_def)
  next
    case False
    with "1.IH" show ?thesis by (simp add: dec_str.simps [of n])
  qed
qed

lemma dec_str_nonempty [simp]: "dec_str n \<noteq> []"
  by (subst dec_str.simps) simp

lemma length_dec_str: "n < 10 ^ k \<Longrightarrow> 0 < k \<Longrightarrow> length (dec_str n) \<le> k"
proof (induction k arbitrary: n)
  case 0
  then show ?case by simp
next
  case (Suc k)
  show ?case
  proof (cases "n < 10")
    case True
    then show ?thesis by (simp add: dec_str.simps [of n])
  next
    case False
    with Suc.prems have "n div 10 < 10 ^ k" and "0 < k"
      by (auto simp: less_mult_imp_div_less mult.commute intro!: Nat.gr0I)
    then have "length (dec_str (n div 10)) \<le> k" by (rule Suc.IH)
    with False show ?thesis by (simp add: dec_str.simps [of n])
  qed
qed

end
