(* ===== verification/Coffee_Util.thy ===== *)
theory Coffee_Util
  imports TA_Prelude
begin

text \<open>
  The freestanding string and number routines at the top of
  \<open>src/wrapper_ta/chaincode/coffee_chaincode_wasm.c\<close> (the module is compiled with
  \<open>-nostdlib\<close>), each loop kept as a loop. Reads go through a pointer view
  (\<^typ>\<open>cptr\<close>), writes go to linear memory at an address. The module is built for
  \<open>wasm32\<close>, so \<open>unsigned long\<close> is a 32-bit word and its arithmetic wraps.
\<close>

section \<open>Definitions\<close>

primrec s_strlen_loop :: "char list \<Rightarrow> nat \<Rightarrow> nat option" where
  "s_strlen_loop [] n = None"
| "s_strlen_loop (c # s) n = (if c \<noteq> NUL then s_strlen_loop s (n + 1) else Some n)"

definition s_strlen :: "cptr \<Rightarrow> int option" where
  "s_strlen s = (case s of None \<Rightarrow> Some 0 | Some bs \<Rightarrow> map_option int (s_strlen_loop bs 0))"

definition s_memset :: "nat \<Rightarrow> int \<Rightarrow> int \<Rightarrow> lmem \<Rightarrow> lmem" where
  "s_memset dst v n m =
     fold (\<lambda>i m. m(dst + i := char_of (nat (v mod 256)))) [0..<nat n] m"

definition s_memcpy :: "nat \<Rightarrow> nat \<Rightarrow> int \<Rightarrow> lmem \<Rightarrow> lmem" where
  "s_memcpy dst src n m = fold (\<lambda>i m. m(dst + i := m (src + i))) [0..<nat n] m"

fun s_streq :: "char list \<Rightarrow> char list \<Rightarrow> bool option" where
  "s_streq (ca # a) (cb # b) =
     (if ca \<noteq> cb then Some False else if ca = NUL then Some True else s_streq a b)"
| "s_streq _ _ = None"

primrec s_atoul_loop :: "char list \<Rightarrow> u32 \<Rightarrow> u32 option" where
  "s_atoul_loop [] v = None"
| "s_atoul_loop (c # s) v =
     (if is_digit c then s_atoul_loop s (v * 10 + of_nat (digit_val c)) else Some v)"

definition s_atoul :: "cptr \<Rightarrow> u32 option" where
  "s_atoul s = (case s of None \<Rightarrow> Some 0 | Some bs \<Rightarrow> s_atoul_loop bs 0)"

text \<open>
  \<open>s_ultoa\<close>: the digits go to the local \<open>buf[32]\<close> least significant first (at most
  \<open>sizeof buf\<close> of them), then backwards into \<open>out\<close> while there is room for the
  terminator.
\<close>

function s_ultoa_digits :: "nat \<Rightarrow> u32 \<Rightarrow> char list" where
  "s_ultoa_digits i v =
     (if v \<noteq> 0 \<and> i < 32 then digit_char (unat (v mod 10)) # s_ultoa_digits (i + 1) (v div 10)
      else [])"
  by pat_completeness auto
termination
  by (relation "measure (\<lambda>(i, v). 32 - i)") auto

primrec s_ultoa_emit :: "char list \<Rightarrow> nat \<Rightarrow> nat \<Rightarrow> int \<Rightarrow> lmem \<Rightarrow> lmem" where
  "s_ultoa_emit [] k out out_len m = m(out + k := NUL)"
| "s_ultoa_emit (c # cs) k out out_len m =
     (if int k < out_len - 1 then s_ultoa_emit cs (k + 1) out out_len (m(out + k := c))
      else m(out + k := NUL))"

definition s_ultoa :: "u32 \<Rightarrow> nat option \<Rightarrow> int \<Rightarrow> lmem \<Rightarrow> lmem" where
  "s_ultoa v out out_len m =
     (case out of
        None \<Rightarrow> m
      | Some p \<Rightarrow>
          if out_len \<le> 0 then m
          else if v = 0 then
            (let m1 = (if out_len > 0 then m(p := CHR ''0'') else m)
             in if out_len > 1 then m1(p + 1 := NUL) else m1)
          else s_ultoa_emit (rev (s_ultoa_digits 0 v)) 0 p out_len m)"

declare s_ultoa_digits.simps [simp del]

section \<open>Lemmas\<close>

lemma s_strlen_loop_eq: "terminated s \<Longrightarrow> s_strlen_loop s n = Some (n + length (cstr s))"
  by (induction s arbitrary: n) auto

lemma s_strlen_loop_unterminated: "\<not> terminated s \<Longrightarrow> s_strlen_loop s n = None"
  by (induction s arbitrary: n) auto

lemma s_strlen_Some: "terminated s \<Longrightarrow> s_strlen (Some s) = Some (int (length (cstr s)))"
  by (simp add: s_strlen_def s_strlen_loop_eq)

lemma fold_upd_const:
  "fold (\<lambda>i m. m(d + i := c)) [0..<n] m = store d (replicate n c) m"
proof (induction n)
  case 0
  show ?case by simp
next
  case (Suc n)
  have "fold (\<lambda>i m. m(d + i := c)) [0..<Suc n] m =
      (fold (\<lambda>i m. m(d + i := c)) [0..<n] m)(d + n := c)"
    by simp
  also have "\<dots> = store d (replicate (Suc n) c) m"
    by (simp only: Suc.IH store_replicate_Suc)
  finally show ?case .
qed

lemma s_memset_store:
  "s_memset dst v n m = store dst (replicate (nat n) (char_of (nat (v mod 256)))) m"
  by (simp add: s_memset_def fold_upd_const)

lemma s_memset_zero: "s_memset dst 0 (int n) m = store dst (replicate n NUL) m"
  by (simp add: s_memset_store)

lemma s_streq_terminated:
  "terminated a \<Longrightarrow> terminated b \<Longrightarrow> s_streq a b = Some (cstr a = cstr b)"
  by (induction a b rule: s_streq.induct) auto

lemma s_atoul_loop_eq:
  assumes "terminated s"
  shows "s_atoul_loop s (of_nat (dec_val p)) = Some (of_nat (dec_val (p @ takeWhile is_digit s)))"
  using assms
proof (induction s arbitrary: p)
  case Nil
  then show ?case by simp
next
  case (Cons c s)
  have "s_atoul_loop s (of_nat (dec_val (p @ [c]))) =
      Some (of_nat (dec_val ((p @ [c]) @ takeWhile is_digit s)))" if "is_digit c"
    using that Cons.prems by (intro Cons.IH) auto
  then show ?case by (simp add: mult.commute)
qed

lemma s_atoul_Some:
  "terminated s \<Longrightarrow> s_atoul (Some s) = Some (of_nat (dec_val (takeWhile is_digit s)))"
  using s_atoul_loop_eq [of s "[]"] by (simp add: s_atoul_def)

lemma s_ultoa_digits_dec_str:
  assumes "v \<noteq> 0" and "unat v < 10 ^ (32 - i)" and "i < 32"
  shows "rev (s_ultoa_digits i v) = dec_str (unat v)"
  using assms
proof (induction i v rule: s_ultoa_digits.induct)
  case (1 i v)
  have v10: "unat (v div 10) = unat v div 10" "unat (v mod 10) = unat v mod 10"
    by (simp_all add: unat_div_distrib unat_mod_distrib)
  show ?case
  proof (cases "unat v < 10")
    case True
    then have "v div 10 = 0" by (simp add: v10 flip: unat_eq_0)
    with True 1 v10 show ?thesis
      by (simp add: s_ultoa_digits.simps [of i v] s_ultoa_digits.simps [of "Suc i" 0] dec_str.simps [of "unat v"])
  next
    case False
    then have "v div 10 \<noteq> 0" by (simp add: v10 flip: unat_eq_0)
    moreover have "i + 1 < 32"
    proof (rule ccontr)
      assume "\<not> i + 1 < 32"
      then have "32 - i = 1" using "1.prems" by simp
      with "1.prems"(2) have "unat v < 10" by simp
      with False show False by simp
    qed
    moreover have "unat v < 10 ^ (32 - (i + 1)) * 10"
    proof -
      have "32 - i = Suc (32 - (i + 1))" using \<open>i + 1 < 32\<close> by simp
      with "1.prems"(2) show ?thesis by (simp only: power_Suc2)
    qed
    then have "unat (v div 10) < 10 ^ (32 - (i + 1))"
      by (simp add: v10 less_mult_imp_div_less)
    ultimately have "rev (s_ultoa_digits (i + 1) (v div 10)) = dec_str (unat (v div 10))"
      using "1.IH" "1.prems" by blast
    with 1 False show ?thesis
      by (simp add: s_ultoa_digits.simps [of i v] dec_str.simps [of "unat v"] v10)
  qed
qed

lemma unat_u32_less: "unat (v :: u32) < 10 ^ 10"
proof -
  have "unat v < 2 ^ 32" using unsigned_less [of v] by simp
  then show ?thesis by simp
qed

lemma s_ultoa_emit_store:
  assumes "length cs + k < nat out_len"
  shows "s_ultoa_emit cs k out out_len m = store (out + k) (cs @ [NUL]) m"
  using assms
proof (induction cs arbitrary: k m)
  case Nil
  show ?case by (auto simp: store_def fun_eq_iff)
next
  case (Cons c cs)
  then have "int k < out_len - 1" by auto
  moreover have "s_ultoa_emit cs (k + 1) out out_len (m(out + k := c)) =
      store (out + (k + 1)) (cs @ [NUL]) (m(out + k := c))"
    using Cons.prems by (intro Cons.IH) auto
  moreover have "store (out + (k + 1)) (cs @ [NUL]) (m(out + k := c)) = store (out + k) ((c # cs) @ [NUL]) m"
    by (simp add: store_Cons)
  ultimately show ?case by simp
qed

lemma length_dec_str_u32: "length (dec_str (unat (v :: u32))) \<le> 10"
  using length_dec_str [OF unat_u32_less] by simp

lemma s_ultoa_fits:
  assumes "length (dec_str (unat v)) < nat out_len"
  shows "s_ultoa v (Some p) out_len m = store p (dec_str (unat v) @ [NUL]) m"
proof (cases "v = 0")
  case True
  with assms show ?thesis
    by (simp add: s_ultoa_def dec_str.simps [of 0] digit_char_0 store_Cons)
next
  case False
  have "unat v < 10 ^ (32 - 0)"
    using unat_u32_less [of v] by simp
  with False have digs: "rev (s_ultoa_digits 0 v) = dec_str (unat v)"
    by (intro s_ultoa_digits_dec_str) auto
  have "length (dec_str (unat v)) + 0 < nat out_len" "0 < out_len" using assms by simp_all
  from s_ultoa_emit_store [OF this(1)] this(2) False assms show ?thesis
    by (simp add: s_ultoa_def digs)
qed

lemma s_ultoa_store:
  assumes "11 \<le> out_len"
  shows "s_ultoa v (Some p) out_len m = store p (dec_str (unat v) @ [NUL]) m"
  by (rule s_ultoa_fits) (use length_dec_str_u32 [of v] assms in linarith)

lemma takeWhile_digit_dec_str [simp]: "takeWhile is_digit (dec_str n @ NUL # t) = dec_str n"
  using dec_str_digits [of n] by (simp add: takeWhile_append2)

lemma s_ultoa_emit_take:
  assumes "int k \<le> out_len - 1"
  shows "s_ultoa_emit cs k out out_len m = store (out + k) (take (nat out_len - 1 - k) cs @ [NUL]) m"
  using assms
proof (induction cs arbitrary: k m)
  case Nil
  show ?case by (auto simp: store_def fun_eq_iff)
next
  case (Cons c cs)
  show ?case
  proof (cases "int k < out_len - 1")
    case True
    then have j: "nat out_len - 1 - k = Suc (nat out_len - 1 - (k + 1))" by linarith
    have "s_ultoa_emit cs (k + 1) out out_len (m(out + k := c)) =
        store (out + (k + 1)) (take (nat out_len - 1 - (k + 1)) cs @ [NUL]) (m(out + k := c))"
      using True by (intro Cons.IH) simp
    with True j show ?thesis by (simp add: store_Cons)
  next
    case False
    with Cons.prems have "nat out_len - 1 - k = 0" by simp
    with False show ?thesis by (auto simp: store_def fun_eq_iff)
  qed
qed

lemma s_memcpy_steps:
  assumes "d \<le> s \<or> s + n \<le> d"
  shows "fold (\<lambda>i m. m(d + i := m (s + i))) [0..<n] m = store d (load m s n) m"
  using assms
proof (induction n)
  case 0
  show ?case by simp
next
  case (Suc n)
  have "store d (load m s n) m (s + n) = m (s + n)" using Suc.prems by (auto simp: store_def)
  moreover have "store d (load m s (Suc n)) m = (store d (load m s n) m)(d + n := m (s + n))"
  proof (rule ext)
    fix x
    show "store d (load m s (Suc n)) m x = ((store d (load m s n) m)(d + n := m (s + n))) x"
      by (cases "d \<le> x \<and> x < d + n") (auto simp: store_def less_Suc_eq nth_load less_diff_conv2)
  qed
  ultimately show ?case using Suc by auto
qed

section \<open>Properties\<close>

text \<open>
  C27: Printing and reading back is the identity on every 32-bit value and every output buffer that
  holds its decimal numeral and a terminator, whatever the memory held before.
\<close>

theorem ultoa_atoul_roundtrip:
  assumes "2 \<le> n" and "unat v < 10 ^ (n - 1)"
  shows "s_atoul (Some (load (s_ultoa v (Some p) (int n) m) p n)) = Some v"
proof -
  let ?s = "dec_str (unat v) @ [NUL]"
  have fits: "length (dec_str (unat v)) < n" using length_dec_str [OF assms(2)] assms(1) by simp
  then have "load (s_ultoa v (Some p) (int n) m) p n = ?s @ load m (p + length ?s) (n - length ?s)"
    using s_ultoa_fits [of v "int n" p m] load_store_prefix [of ?s n p m] by simp
  then show ?thesis by (simp add: s_atoul_Some)
qed

theorem ultoa_atoul_roundtrip_witness:
  "s_atoul (Some (load (s_ultoa 4294967295 (Some 100) 11 (\<lambda>_. CHR ''7'')) 100 11)) = Some 4294967295 \<and>
   s_atoul (Some (load (s_ultoa 42 (Some 100) 3 (\<lambda>_. CHR ''7'')) 100 3)) = Some 42"
  using ultoa_atoul_roundtrip [of 11 4294967295 100 "\<lambda>_. CHR ''7''"] ultoa_atoul_roundtrip [of 3 42 100 "\<lambda>_. CHR ''7''"] by simp

text \<open>
  Reading a decimal number gives the value of its leading digits modulo \<open>2 ^ 32\<close>: no
  digit string, however long, stops the reader or is rejected, and everything from the first
  non-digit on is ignored.
\<close>

theorem atoul_reads_decimal_modulo:
  assumes "terminated s"
  shows "s_atoul (Some s) = Some (word_of_nat (dec_val (takeWhile is_digit s) mod 2 ^ 32))"
  using s_atoul_Some [OF assms] by (simp add: word_of_nat_eq_iff take_bit_eq_mod)

theorem atoul_reads_decimal_modulo_witness:
  "s_atoul (Some (''4294967298cups'' @ [NUL])) = Some 2"
  using atoul_reads_decimal_modulo [of "''4294967298cups'' @ [NUL]"]
  by (simp add: is_digit_def dec_val_def digit_val_def)

text \<open>
  \<open>s_ultoa\<close> writes the canonical decimal numeral, cut to the first \<open>out_len - 1\<close> digits,
  then the terminator, and touches nothing else. The one exception is value 0 with a buffer
  of one byte, which is left without a terminator.
\<close>

theorem ultoa_writes_canonical_decimal:
  assumes "0 < n"
  shows "s_ultoa v (Some p) (int n) m =
     (if v = 0 \<and> n = 1 then m(p := CHR ''0'') else store p (take (n - 1) (dec_str (unat v)) @ [NUL]) m)"
proof (cases "v = 0")
  case True
  with assms show ?thesis
    by (auto simp: s_ultoa_def Let_def dec_str.simps [of 0] digit_char_0 store_Cons take_Cons split: nat.splits)
next
  case False
  have "unat v < 10 ^ (32 - 0)"
    using unat_u32_less [of v] by simp
  with False have digs: "rev (s_ultoa_digits 0 v) = dec_str (unat v)"
    by (intro s_ultoa_digits_dec_str) auto
  show ?thesis
    using False assms s_ultoa_emit_take [of 0 "int n" "dec_str (unat v)" p m] by (simp add: s_ultoa_def digs)
qed

theorem ultoa_writes_canonical_decimal_witness:
  "s_ultoa 12345 (Some 8) 4 (\<lambda>_. CHR ''x'') = store 8 (take 3 (dec_str 12345) @ [NUL]) (\<lambda>_. CHR ''x'')"
  using ultoa_writes_canonical_decimal [of 4 12345 8 "\<lambda>_. CHR ''x''"] by simp

text \<open>
  The byte-by-byte \<open>s_memcpy\<close> copies the original source bytes and changes only the
  destination whenever the destination starts at or before the source, or behind its end.
  Overlap is fine in that direction; nothing is promised for a destination inside the source.
\<close>

theorem memcpy_copies_source:
  assumes "dst \<le> src \<or> src + n \<le> dst"
  shows "s_memcpy dst src (int n) m = store dst (load m src n) m"
  using s_memcpy_steps [OF assms] by (simp add: s_memcpy_def)

theorem memcpy_copies_source_witness:
  "s_memcpy 10 12 4 (\<lambda>a. char_of a) = store 10 (load (\<lambda>a. char_of a) 12 4) (\<lambda>a. char_of a)"
  using memcpy_copies_source [of 10 12 4 "\<lambda>a. char_of a"] by simp

text \<open>
  \<open>s_streq\<close> stops inside both strings and decides equality of the C strings, which is
  how the chaincode tells its functions apart.
\<close>

theorem streq_decides_equality:
  assumes "terminated a" and "terminated b"
  shows "s_streq a b = Some (cstr a = cstr b)"
  using assms by (rule s_streq_terminated)

theorem streq_decides_equality_witness:
  "s_streq (''add'' @ [NUL] @ ''xyz'') (''add'' @ [NUL]) = Some True"
  using streq_decides_equality [of "''add'' @ [NUL] @ ''xyz''" "''add'' @ [NUL]"] by simp

end
