(* ===== verification/Comm_Structs.thy ===== *)
theory Comm_Structs
  imports TA_Prelude
begin

text \<open>
  The constants and structs the trusted application (TA) and the normal-world proxy share
  (\<open>src/wrapper_ta/ta/include/chaincode_tee_ree_communication.h\<close>), the command numbers
  (\<open>include/wamr_ta.h\<close>), the session context (\<open>include/session.h\<close>) and a fixed-size
  string field interface with its interpretations on the fields of these structs.

  The structs only hold \<open>char\<close> arrays, so their layout has no padding: \<open>struct key_value\<close>
  is 64 key bytes followed by 256 value bytes, \<open>struct arguments\<close> is ten rows of 64 bytes.
  They are read and written through casts of a byte buffer; the model does the same, with
  the offsets written out.
\<close>

section \<open>Constants and structs\<close>

definition KEY_SIZE :: nat where [simp]: "KEY_SIZE = 64"
definition VAL_SIZE :: nat where [simp]: "VAL_SIZE = 256"
definition ARG_SIZE :: nat where [simp]: "ARG_SIZE = 64"
definition ARGS_NUMBER :: nat where [simp]: "ARGS_NUMBER = 10"
definition RESPONSE_SIZE :: nat where [simp]: "RESPONSE_SIZE = 256"
definition ACK_SIZE :: nat where [simp]: "ACK_SIZE = 20"

definition INVOCATION_RESPONSE :: int where [simp]: "INVOCATION_RESPONSE = 0"
definition GET_STATE_REQUEST :: int where [simp]: "GET_STATE_REQUEST = 1"
definition PUT_STATE_REQUEST :: int where [simp]: "PUT_STATE_REQUEST = 2"
definition ERROR :: int where [simp]: "ERROR = 100"

definition COMMAND_RUN_WASM :: u32 where [simp]: "COMMAND_RUN_WASM = 0"
definition COMMAND_CONFIGURE_HEAP :: u32 where [simp]: "COMMAND_CONFIGURE_HEAP = 1"
definition COMMAND_RESUME_WASM :: u32 where [simp]: "COMMAND_RESUME_WASM = 2"

definition sizeof_key_value :: nat where [simp]: "sizeof_key_value = KEY_SIZE + VAL_SIZE"
definition sizeof_arguments :: nat where [simp]: "sizeof_arguments = ARGS_NUMBER * ARG_SIZE"
definition sizeof_invocation_response :: nat where
  [simp]: "sizeof_invocation_response = RESPONSE_SIZE"
definition sizeof_acknowledgement :: nat where [simp]: "sizeof_acknowledgement = ACK_SIZE"

definition offset_kv_value :: nat where [simp]: "offset_kv_value = KEY_SIZE"
  \<comment> \<open>\<open>offsetof (struct key_value, value)\<close>; the key is at offset 0\<close>

text \<open>
  \<open>chaincode_session_ctx\<close>. \<open>sc_args\<close> is the flat \<open>char[10][64]\<close>; \<open>sc_runtime\<close> says whether
  the \<open>runtime\<close> pointer is set (it only ever points to the one static context), the two
  owned buffers are allocation numbers, \<^term>\<open>None\<close> for \<open>NULL\<close>.
\<close>

record session =
  sc_args :: "char list"
  sc_pending_type :: int
  sc_key :: "char list"
  sc_value :: "char list"
  sc_wasm_out_offset :: u32
  sc_wasm_out_len :: int
  sc_response :: "char list"
  sc_has_response :: int
  sc_runtime :: bool
  sc_heap_buf_owned :: "nat option"
  sc_trusted_wasm_owned :: "nat option"

definition zero_session :: session where
  "zero_session = \<lparr>sc_args = replicate sizeof_arguments NUL, sc_pending_type = 0,
     sc_key = replicate KEY_SIZE NUL, sc_value = replicate VAL_SIZE NUL,
     sc_wasm_out_offset = 0, sc_wasm_out_len = 0,
     sc_response = replicate RESPONSE_SIZE NUL, sc_has_response = 0,
     sc_runtime = False, sc_heap_buf_owned = None, sc_trusted_wasm_owned = None\<rparr>"
  \<comment> \<open>a freshly allocated context after \<open>TEE_MemFill (sess, 0, sizeof *sess)\<close>\<close>

text \<open>\<open>&arguments[i][0]\<close>, as the bytes from there to the end of the \<open>arguments\<close> object.\<close>

definition arg_row :: "session \<Rightarrow> nat \<Rightarrow> char list" where
  "arg_row sc i = drop (i * ARG_SIZE) (sc_args sc)"

section \<open>Well-formed sessions\<close>

definition wf_session :: "session \<Rightarrow> bool" where
  "wf_session sc \<longleftrightarrow>
     length (sc_args sc) = sizeof_arguments \<and> length (sc_key sc) = KEY_SIZE \<and>
     length (sc_value sc) = VAL_SIZE \<and> length (sc_response sc) = RESPONSE_SIZE"

text \<open>
  What every host and chaincode operation keeps besides the sizes: the key, value and
  response fields are C strings, a pending \<open>GET_STATE\<close> has an output buffer of positive (32-bit \<open>int\<close>) length, and
  \<open>pending_type\<close> is one of the three documented values.
\<close>

definition session_inv :: "session \<Rightarrow> bool" where
  "session_inv sc \<longleftrightarrow>
     wf_session sc \<and> terminated (sc_key sc) \<and> terminated (sc_value sc) \<and>
     terminated (sc_response sc) \<and>
     sc_pending_type sc \<in> {0, GET_STATE_REQUEST, PUT_STATE_REQUEST} \<and>
     (sc_pending_type sc = GET_STATE_REQUEST \<longrightarrow> 0 < sc_wasm_out_len sc \<and> sc_wasm_out_len sc < 2 ^ 31)"

text \<open>The arguments end with a NUL byte, so that a scan of any row stays inside them.\<close>

definition args_terminated :: "session \<Rightarrow> bool" where
  "args_terminated sc \<longleftrightarrow> sc_args sc \<noteq> [] \<and> last (sc_args sc) = NUL"

lemma args_terminated_row:
  assumes "args_terminated sc" and "wf_session sc" and "i < ARGS_NUMBER"
  shows "terminated (arg_row sc i)"
proof -
  have "i * ARG_SIZE < length (sc_args sc)"
    using assms(2,3) by (simp add: wf_session_def)
  then have "last (arg_row sc i) = last (sc_args sc)" and "arg_row sc i \<noteq> []"
    by (simp_all add: arg_row_def last_drop)
  with assms(1) show ?thesis
    by (metis args_terminated_def last_in_set terminated_def)
qed

lemma zero_session_ok: "session_inv zero_session" "args_terminated zero_session"
  by (simp_all add: zero_session_def session_inv_def wf_session_def args_terminated_def)

lemma session_inv_wf [simp]: "session_inv sc \<Longrightarrow> wf_session sc"
  by (simp add: session_inv_def)

section \<open>Fixed-size string fields\<close>

text \<open>
  Every string that crosses the two worlds does so in a zero-filled \<open>char[size]\<close> field
  with its last byte kept for the terminator. \<open>enc\<close> is how the writer fills the field,
  \<open>dec\<close> what the reader takes out of it.
\<close>

locale string_field =
  fixes size_of :: nat
    and enc :: "char list \<Rightarrow> char list"
    and dec :: "char list \<Rightarrow> char list"
  assumes enc_size: "length (enc s) = size_of"
    and dec_enc: "nul_free s \<Longrightarrow> dec (enc s) = take (size_of - 1) s"
    and dec_bound: "length b = size_of \<Longrightarrow> terminated b \<Longrightarrow> length (dec b) < size_of"
    and enc_terminated: "terminated (enc s)"
begin

lemma roundtrip: "nul_free s \<Longrightarrow> length s < size_of \<Longrightarrow> dec (enc s) = s"
  by (simp add: dec_enc)

lemma enc_inj:
  assumes "nul_free s" and "nul_free t" and "length s < size_of" and "length t < size_of"
    and "enc s = enc t"
  shows "s = t"
  using assms by (metis roundtrip)

lemma dec_enc_length: "nul_free s \<Longrightarrow> length (dec (enc s)) < size_of"
  by (rule dec_bound [OF enc_size enc_terminated])

end

lemma string_field_cfield: "0 < n \<Longrightarrow> string_field n (cfield n) cstr"
  by unfold_locales (auto simp: cstr_cfield dest: length_cstr_less)

interpretation key_field: string_field KEY_SIZE "cfield KEY_SIZE" cstr
  by (rule string_field_cfield) simp

interpretation value_field: string_field VAL_SIZE "cfield VAL_SIZE" cstr
  by (rule string_field_cfield) simp

interpretation arg_field: string_field ARG_SIZE "cfield ARG_SIZE" cstr
  by (rule string_field_cfield) simp

interpretation response_field: string_field RESPONSE_SIZE "cfield RESPONSE_SIZE" cstr
  by (rule string_field_cfield) simp

interpretation ack_field: string_field ACK_SIZE "cfield ACK_SIZE" cstr
  by (rule string_field_cfield) simp

end
