(* ===== verification/Native_Functions.thy ===== *)
theory Native_Functions
  imports Comm_Structs
begin

text \<open>
  \<open>src/wrapper_ta/ta/chaincode_native_functions.c\<close>: the functions the TA registers as the
  imports (module \<open>env\<close>) of the WebAssembly chaincode.

  WAMR's address functions are not part of the repository. They are the fields of a
  parameter record \<open>wamr_mem\<close>; \<open>wamr_mem_laws\<close> states what \<open>wasm_export.h\<close> documents
  about them. A native pointer into linear memory is its offset, \<^term>\<open>None\<close> is \<open>NULL\<close>.
  C \<open>int\<close> values are \<^typ>\<open>int\<close>, casts to \<open>uint32_t\<close> and \<open>size_t\<close> are written out.
\<close>

section \<open>The instance, the runtime's address functions, the native state\<close>

record 'g wasm_inst =
  wi_mem :: lmem
  wi_size :: nat
  wi_exception :: "string option"
  wi_data :: 'g

record 'g wamr_mem =
  wasm_runtime_validate_app_addr :: "'g wasm_inst \<Rightarrow> u32 \<Rightarrow> u32 \<Rightarrow> bool \<times> 'g wasm_inst"
  wasm_runtime_addr_app_to_native :: "'g wasm_inst \<Rightarrow> u32 \<Rightarrow> nat option"

definition wamr_mem_laws :: "'g wamr_mem \<Rightarrow> bool" where
  "wamr_mem_laws W \<longleftrightarrow>
     (\<forall>i off n. unat n \<noteq> 0 \<longrightarrow> unat off + unat n \<le> wi_size i \<longrightarrow>
        wasm_runtime_validate_app_addr W i off n = (True, i)) \<and>
     (\<forall>i off n. \<not> unat off + unat n \<le> wi_size i \<longrightarrow>
        (\<exists>e. wasm_runtime_validate_app_addr W i off n = (False, i\<lparr>wi_exception := Some e\<rparr>))) \<and>
     (\<forall>i off. wasm_runtime_addr_app_to_native W i off =
        (if unat off < wi_size i then Some (unat off) else None))"

record 'g nstate =
  ns_sess :: "session option"
  ns_inst :: "'g wasm_inst option"

text \<open>Accesses through a native pointer: defined only inside the linear memory.\<close>

definition lm_get :: "nat \<Rightarrow> nat \<Rightarrow> 'g wasm_inst \<Rightarrow> char list option" where
  "lm_get p n i = (if p + n \<le> wi_size i then Some (load (wi_mem i) p n) else None)"

definition lm_put :: "nat \<Rightarrow> char list \<Rightarrow> 'g wasm_inst \<Rightarrow> 'g wasm_inst option" where
  "lm_put p bs i =
     (if p + length bs \<le> wi_size i then Some (i\<lparr>wi_mem := store p bs (wi_mem i)\<rparr>) else None)"

definition size_minus_1 :: "int \<Rightarrow> nat" where
  "size_minus_1 n = nat ((n - 1) mod 2 ^ 64)"
  \<comment> \<open>\<open>(size_t) n - 1\<close> with a 64-bit \<open>size_t\<close>\<close>

definition clamp_len :: "int \<Rightarrow> int \<Rightarrow> int" where
  "clamp_len n lim = (if n < lim then n else lim)"
  \<comment> \<open>the ternary \<open>n < lim ? n : lim\<close>\<close>

definition pos_len :: "int \<Rightarrow> int" where
  "pos_len n = (if n > 0 then n else 0)"
  \<comment> \<open>the ternary \<open>n > 0 ? n : 0\<close>\<close>

text \<open>
  The two copy sequences the functions share: \<open>TEE_MemFill (out, 0, n)\<close> then, when \<open>len > 0\<close>,
  \<open>TEE_MemMove (out, src, len)\<close> towards the module; and \<open>if (n > 0 && src) TEE_MemMove (dst, src, n)\<close>
  from the module into a buffer of the TA.
\<close>

definition clear_and_copy ::
  "nat \<Rightarrow> nat \<Rightarrow> char list \<Rightarrow> nat \<Rightarrow> 'g wasm_inst \<Rightarrow> 'g wasm_inst option" where
  "clear_and_copy out n src len inst = do {
     inst \<leftarrow> lm_put out (replicate n NUL) inst;
     (if 0 < len then lm_put out (take len src) inst else Some inst)
   }"

definition move_from_app ::
  "nat option \<Rightarrow> int \<Rightarrow> 'g wasm_inst \<Rightarrow> char list \<Rightarrow> char list option" where
  "move_from_app src n inst dst =
     (case src of
        None \<Rightarrow> Some dst
      | Some p \<Rightarrow>
          if n > 0 then do { bs \<leftarrow> lm_get p (nat n) inst; TEE_MemMove 0 bs (nat n) dst }
          else Some dst)"

section \<open>Definitions\<close>

primrec safe_strlen_loop :: "char list \<Rightarrow> nat \<Rightarrow> nat \<Rightarrow> nat option" where
  "safe_strlen_loop [] n max_len = (if n < max_len then None else Some n)"
| "safe_strlen_loop (c # s) n max_len =
     (if n < max_len \<and> c \<noteq> NUL then safe_strlen_loop s (n + 1) max_len else Some n)"

definition safe_strlen :: "cptr \<Rightarrow> nat \<Rightarrow> nat option" where
  "safe_strlen s max_len =
     (case s of None \<Rightarrow> Some 0 | Some bs \<Rightarrow> safe_strlen_loop bs 0 max_len)"

definition to_native ::
  "'g wamr_mem \<Rightarrow> 'g wasm_inst \<Rightarrow> u32 \<Rightarrow> u32 \<Rightarrow> nat option \<times> 'g wasm_inst" where
  "to_native W inst app_offset sz =
     (if sz \<noteq> 0 then
        (let (ok, inst) = wasm_runtime_validate_app_addr W inst app_offset sz
         in if \<not> ok then (None, inst)
            else (wasm_runtime_addr_app_to_native W inst app_offset, inst))
      else (wasm_runtime_addr_app_to_native W inst app_offset, inst))"

definition cc_get_function_native ::
  "'g wamr_mem \<Rightarrow> u32 \<Rightarrow> int \<Rightarrow> 'g nstate \<Rightarrow> (int \<times> 'g nstate) option" where
  "cc_get_function_native W out_ptr out_len st =
     (case ns_inst st of
        None \<Rightarrow> Some (0, st)
      | Some inst \<Rightarrow>
          if out_len \<le> 0 then Some (0, st)
          else
            let (ok, inst) = wasm_runtime_validate_app_addr W inst out_ptr (word_of_int out_len);
                st = st\<lparr>ns_inst := Some inst\<rparr>
            in if \<not> ok then Some (0, st)
               else case wasm_runtime_addr_app_to_native W inst out_ptr of
                 None \<Rightarrow> Some (0, st)
               | Some out \<Rightarrow>
                   (case ns_sess st of
                      None \<Rightarrow> Some (0, st)
                    | Some sc \<Rightarrow> do {
                        let function = arg_row sc 0;
                        len \<leftarrow> safe_strlen (Some function) (size_minus_1 out_len);
                        inst \<leftarrow> clear_and_copy out (nat out_len) function len inst;
                        Some (int len, st\<lparr>ns_inst := Some inst\<rparr>)
                      }))"

definition cc_get_arg_native ::
  "'g wamr_mem \<Rightarrow> int \<Rightarrow> u32 \<Rightarrow> int \<Rightarrow> 'g nstate \<Rightarrow> (int \<times> 'g nstate) option" where
  "cc_get_arg_native W idx out_ptr out_len st = do {
     inst \<leftarrow> ns_inst st;
     let (out, inst) = to_native W inst out_ptr (word_of_int out_len);
     let st = st\<lparr>ns_inst := Some inst\<rparr>;
     (case out of
        None \<Rightarrow> Some (0, st)
      | Some out \<Rightarrow>
          if out_len \<le> 0 then Some (0, st)
          else do {
            let arg = (case ns_sess st of
                         None \<Rightarrow> [NUL]
                       | Some sc \<Rightarrow>
                           if 0 \<le> idx \<and> idx < int ARGS_NUMBER then arg_row sc (nat idx + 1)
                           else [NUL]);
            len \<leftarrow> safe_strlen (Some arg) (size_minus_1 out_len);
            inst \<leftarrow> clear_and_copy out (nat out_len) arg len inst;
            Some (int len, st\<lparr>ns_inst := Some inst\<rparr>)
          })
   }"

definition cc_get_state_native ::
  "'g wamr_mem \<Rightarrow> u32 \<Rightarrow> int \<Rightarrow> u32 \<Rightarrow> int \<Rightarrow> 'g nstate \<Rightarrow> (int \<times> 'g nstate) option" where
  "cc_get_state_native W key_ptr key_len out_ptr out_len st = do {
     inst \<leftarrow> ns_inst st;
     let (out, inst) = to_native W inst out_ptr (word_of_int out_len);
     let (key, inst) = to_native W inst key_ptr (word_of_int (pos_len key_len));
     let st = st\<lparr>ns_inst := Some inst\<rparr>;
     key_buf \<leftarrow> move_from_app key (clamp_len key_len 127) inst (replicate 128 NUL);
     (if out = None \<or> out_len \<le> 0 then Some (0, st)
      else case ns_sess st of
        None \<Rightarrow> Some (0, st)
      | Some sc \<Rightarrow> do {
          new_key \<leftarrow> TEE_MemFill 0 NUL KEY_SIZE (sc_key sc);
          let klen = clamp_len key_len (int KEY_SIZE - 1);
          new_key \<leftarrow> move_from_app key klen inst new_key;
          Some (klen, st\<lparr>ns_sess := Some (sc\<lparr>sc_key := new_key,
                           sc_pending_type := GET_STATE_REQUEST,
                           sc_wasm_out_offset := out_ptr,
                           sc_wasm_out_len := out_len\<rparr>)\<rparr>)
        })
   }"

definition cc_put_state_native ::
  "'g wamr_mem \<Rightarrow> u32 \<Rightarrow> int \<Rightarrow> u32 \<Rightarrow> int \<Rightarrow> 'g nstate \<Rightarrow> (int \<times> 'g nstate) option" where
  "cc_put_state_native W key_ptr key_len val_ptr val_len st = do {
     inst \<leftarrow> ns_inst st;
     let (key, inst) = to_native W inst key_ptr (word_of_int (pos_len key_len));
     let (val, inst) = to_native W inst val_ptr (word_of_int (pos_len val_len));
     let st = st\<lparr>ns_inst := Some inst\<rparr>;
     (case ns_sess st of
        None \<Rightarrow> Some (-1, st)
      | Some sc \<Rightarrow> do {
          new_key \<leftarrow> TEE_MemFill 0 NUL KEY_SIZE (sc_key sc);
          new_val \<leftarrow> TEE_MemFill 0 NUL VAL_SIZE (sc_value sc);
          let klen = clamp_len key_len (int KEY_SIZE - 1);
          let vlen = clamp_len val_len (int VAL_SIZE - 1);
          new_key \<leftarrow> move_from_app key klen inst new_key;
          new_val \<leftarrow> move_from_app val vlen inst new_val;
          Some (-1, st\<lparr>ns_sess := Some (sc\<lparr>sc_key := new_key, sc_value := new_val,
                         sc_pending_type := PUT_STATE_REQUEST,
                         sc_wasm_out_offset := 0, sc_wasm_out_len := 0\<rparr>)\<rparr>)
        })
   }"

text \<open>
  \<open>response[n] = '\0'\<close> with a negative \<open>n\<close> is a write before the array: no defined result.
\<close>

definition cc_return_response_native ::
  "'g wamr_mem \<Rightarrow> u32 \<Rightarrow> int \<Rightarrow> 'g nstate \<Rightarrow> (int \<times> 'g nstate) option" where
  "cc_return_response_native W msg_ptr msg_len st =
     (case ns_inst st of
        None \<Rightarrow> Some (0, st)
      | Some inst \<Rightarrow>
          let (msg, inst) = to_native W inst msg_ptr (word_of_int (pos_len msg_len));
              st = st\<lparr>ns_inst := Some inst\<rparr>
          in case ns_sess st of
               None \<Rightarrow> Some (0, st)
             | Some sc \<Rightarrow> do {
                 let n = clamp_len msg_len (int RESPONSE_SIZE - 1);
                 resp \<leftarrow> TEE_MemFill 0 NUL RESPONSE_SIZE (sc_response sc);
                 resp \<leftarrow> move_from_app msg n inst resp;
                 resp \<leftarrow> (if n < 0 then None else buf_write (nat n) [NUL] resp);
                 Some (n, st\<lparr>ns_sess := Some (sc\<lparr>sc_response := resp, sc_has_response := 1\<rparr>)\<rparr>)
               })"

definition cc_log_native ::
  "'g wamr_mem \<Rightarrow> u32 \<Rightarrow> int \<Rightarrow> 'g nstate \<Rightarrow> (int \<times> 'g nstate) option" where
  "cc_log_native W msg_ptr msg_len st =
     (case ns_inst st of
        None \<Rightarrow> Some (0, st)
      | Some inst \<Rightarrow>
          let (msg, inst) = to_native W inst msg_ptr (word_of_int (pos_len msg_len));
              st = st\<lparr>ns_inst := Some inst\<rparr>
          in case msg of
               None \<Rightarrow> Some (0, st)
             | Some p \<Rightarrow>
                 if msg_len > 0 then do {
                   let n = clamp_len msg_len 127;
                   buf \<leftarrow> TEE_MemFill 0 NUL 128 (replicate 128 NUL);
                   buf \<leftarrow> move_from_app (Some p) n inst buf;
                   Some (n, st)
                 }
                 else Some (0, st))"

definition debug_log_native ::
  "'g wamr_mem \<Rightarrow> int \<Rightarrow> 'g nstate \<Rightarrow> (int \<times> 'g nstate) option" where
  "debug_log_native W step_num st = Some (0, st)"

definition env_memset_native ::
  "'g wamr_mem \<Rightarrow> u32 \<Rightarrow> int \<Rightarrow> u32 \<Rightarrow> 'g nstate \<Rightarrow> (u32 \<times> 'g nstate) option" where
  "env_memset_native W dst_ptr c n st = do {
     inst \<leftarrow> ns_inst st;
     let (dst, inst) = to_native W inst dst_ptr n;
     let st = st\<lparr>ns_inst := Some inst\<rparr>;
     (if dst = None \<and> n \<noteq> 0 then Some (0, st)
      else if n \<noteq> 0 then do {
        p \<leftarrow> dst;
        inst \<leftarrow> lm_put p (replicate (unat n) (char_of (nat (c mod 256)))) inst;
        Some (dst_ptr, st\<lparr>ns_inst := Some inst\<rparr>)
      }
      else Some (dst_ptr, st))
   }"

definition env_memcpy_native ::
  "'g wamr_mem \<Rightarrow> u32 \<Rightarrow> u32 \<Rightarrow> u32 \<Rightarrow> 'g nstate \<Rightarrow> (u32 \<times> 'g nstate) option" where
  "env_memcpy_native W dst_ptr src_ptr n st = do {
     inst \<leftarrow> ns_inst st;
     let (dst, inst) = to_native W inst dst_ptr n;
     let (src, inst) = to_native W inst src_ptr n;
     let st = st\<lparr>ns_inst := Some inst\<rparr>;
     (if (dst = None \<or> src = None) \<and> n \<noteq> 0 then Some (0, st)
      else if n \<noteq> 0 then do {
        d \<leftarrow> dst; s \<leftarrow> src;
        bs \<leftarrow> lm_get s (unat n) inst;
        inst \<leftarrow> lm_put d bs inst;
        Some (dst_ptr, st\<lparr>ns_inst := Some inst\<rparr>)
      }
      else Some (dst_ptr, st))
   }"

definition env_memmove_native ::
  "'g wamr_mem \<Rightarrow> u32 \<Rightarrow> u32 \<Rightarrow> u32 \<Rightarrow> 'g nstate \<Rightarrow> (u32 \<times> 'g nstate) option" where
  "env_memmove_native W dst_ptr src_ptr n st = do {
     inst \<leftarrow> ns_inst st;
     let (dst, inst) = to_native W inst dst_ptr n;
     let (src, inst) = to_native W inst src_ptr n;
     let st = st\<lparr>ns_inst := Some inst\<rparr>;
     (if (dst = None \<or> src = None) \<and> n \<noteq> 0 then Some (0, st)
      else if n \<noteq> 0 then do {
        d \<leftarrow> dst; s \<leftarrow> src;
        bs \<leftarrow> lm_get s (unat n) inst;
        inst \<leftarrow> lm_put d bs inst;
        Some (dst_ptr, st\<lparr>ns_inst := Some inst\<rparr>)
      }
      else Some (dst_ptr, st))
   }"

text \<open>
  The symbol table. A native is called with its 32-bit arguments; \<open>sym_sig\<close> is the
  signature string the table registers.
\<close>

record 'g native_symbol =
  sym_name :: string
  sym_call :: "'g wamr_mem \<Rightarrow> u32 list \<Rightarrow> 'g nstate \<Rightarrow> (u32 \<times> 'g nstate) option"
  sym_sig :: string

definition ret_i32 :: "(int \<times> 'g nstate) option \<Rightarrow> (u32 \<times> 'g nstate) option" where
  "ret_i32 r = map_option (\<lambda>(n, st). (word_of_int n, st)) r"

definition chaincode_native_symbols :: "'g native_symbol list" where
  "chaincode_native_symbols =
    [\<lparr>sym_name = ''cc_get_function'', sym_call = (\<lambda>W as st. case as of
        [p, n] \<Rightarrow> ret_i32 (cc_get_function_native W p (sint n) st) | _ \<Rightarrow> None),
      sym_sig = ''(ii)i''\<rparr>,
     \<lparr>sym_name = ''cc_get_arg'', sym_call = (\<lambda>W as st. case as of
        [i, p, n] \<Rightarrow> ret_i32 (cc_get_arg_native W (sint i) p (sint n) st) | _ \<Rightarrow> None),
      sym_sig = ''(iii)i''\<rparr>,
     \<lparr>sym_name = ''cc_get_state'', sym_call = (\<lambda>W as st. case as of
        [k, kn, p, n] \<Rightarrow> ret_i32 (cc_get_state_native W k (sint kn) p (sint n) st) | _ \<Rightarrow> None),
      sym_sig = ''(iiii)i''\<rparr>,
     \<lparr>sym_name = ''cc_put_state'', sym_call = (\<lambda>W as st. case as of
        [k, kn, v, vn] \<Rightarrow> ret_i32 (cc_put_state_native W k (sint kn) v (sint vn) st) | _ \<Rightarrow> None),
      sym_sig = ''(iiii)i''\<rparr>,
     \<lparr>sym_name = ''cc_return_response'', sym_call = (\<lambda>W as st. case as of
        [p, n] \<Rightarrow> ret_i32 (cc_return_response_native W p (sint n) st) | _ \<Rightarrow> None),
      sym_sig = ''(ii)i''\<rparr>,
     \<lparr>sym_name = ''cc_log'', sym_call = (\<lambda>W as st. case as of
        [p, n] \<Rightarrow> ret_i32 (cc_log_native W p (sint n) st) | _ \<Rightarrow> None),
      sym_sig = ''(ii)i''\<rparr>,
     \<lparr>sym_name = ''debug_log'', sym_call = (\<lambda>W as st. case as of
        [n] \<Rightarrow> ret_i32 (debug_log_native W (sint n) st) | _ \<Rightarrow> None),
      sym_sig = ''(i)i''\<rparr>,
     \<lparr>sym_name = ''memset'', sym_call = (\<lambda>W as st. case as of
        [d, c, n] \<Rightarrow> env_memset_native W d (sint c) n st | _ \<Rightarrow> None),
      sym_sig = ''(iii)i''\<rparr>,
     \<lparr>sym_name = ''memcpy'', sym_call = (\<lambda>W as st. case as of
        [d, s, n] \<Rightarrow> env_memcpy_native W d s n st | _ \<Rightarrow> None),
      sym_sig = ''(iii)i''\<rparr>,
     \<lparr>sym_name = ''memmove'', sym_call = (\<lambda>W as st. case as of
        [d, s, n] \<Rightarrow> env_memmove_native W d s n st | _ \<Rightarrow> None),
      sym_sig = ''(iii)i''\<rparr>]"


section \<open>Laws of the address functions and of the bounded string length\<close>

lemma validate_ok:
  "wamr_mem_laws W \<Longrightarrow> unat n \<noteq> 0 \<Longrightarrow> unat off + unat n \<le> wi_size i \<Longrightarrow>
   wasm_runtime_validate_app_addr W i off n = (True, i)"
  by (simp add: wamr_mem_laws_def)

lemma validate_bad:
  "wamr_mem_laws W \<Longrightarrow> \<not> unat off + unat n \<le> wi_size i \<Longrightarrow>
   \<exists>e. wasm_runtime_validate_app_addr W i off n = (False, i\<lparr>wi_exception := Some e\<rparr>)"
  by (simp add: wamr_mem_laws_def)

lemma app_to_native:
  "wamr_mem_laws W \<Longrightarrow> wasm_runtime_addr_app_to_native W i off =
     (if unat off < wi_size i then Some (unat off) else None)"
  by (simp add: wamr_mem_laws_def)

lemma to_native_ok:
  assumes "wamr_mem_laws W" and "unat off + unat n \<le> wi_size i" and "unat off < wi_size i"
  shows "to_native W i off n = (Some (unat off), i)"
  using assms by (cases "n = 0") (auto simp: to_native_def validate_ok app_to_native unat_eq_0)

lemma to_native_cases:
  assumes "wamr_mem_laws W"
  obtains (valid) "to_native W i off n = (Some (unat off), i)" "unat off + unat n \<le> wi_size i"
  | (null) "to_native W i off n = (None, i)"
  | (exc) e where "to_native W i off n = (None, i\<lparr>wi_exception := Some e\<rparr>)"
proof (cases "unat off + unat n \<le> wi_size i")
  case True
  then show ?thesis
    using assms that(1,2)
    by (cases "n = 0"; cases "unat off < wi_size i")
      (auto simp: to_native_def validate_ok app_to_native unat_eq_0)
next
  case False
  show ?thesis
  proof (cases "n = 0")
    case True
    with False have "to_native W i off n = (None, i)"
      using assms by (simp add: to_native_def app_to_native)
    then show ?thesis by (rule that(2))
  next
    case n: False
    from validate_bad [OF assms False] obtain e
      where "wasm_runtime_validate_app_addr W i off n = (False, i\<lparr>wi_exception := Some e\<rparr>)" ..
    with n show ?thesis by (intro that(3)) (simp add: to_native_def)
  qed
qed

definition is_i32 :: "int \<Rightarrow> bool" where
  "is_i32 n \<longleftrightarrow> - (2 ^ 31) \<le> n \<and> n < 2 ^ 31"

lemma is_i32_sint [simp]: "is_i32 (sint (w :: u32))"
  using sint_ge [of w] sint_lt [of w] by (simp add: is_i32_def)

lemma unat_word_of_int_pos:
  assumes "0 \<le> n" and "n < 2 ^ 31"
  shows "unat (word_of_int n :: u32) = nat n"
proof -
  have "n mod 2 ^ 32 = n" using assms by (intro mod_pos_pos_trivial) auto
  then show ?thesis by (simp add: unat_eq_nat_uint uint_word_of_int)
qed

lemma unat_u32_of_nat [simp]: "n < 2147483648 \<Longrightarrow> unat (word_of_nat n :: u32) = n"
  using unat_word_of_int_pos [of "int n"] by simp

lemma size_minus_1_pos: "0 < n \<Longrightarrow> n < 2 ^ 31 \<Longrightarrow> size_minus_1 n = nat n - 1"
  unfolding size_minus_1_def by (subst mod_pos_pos_trivial) (auto simp: nat_diff_distrib)

lemma safe_strlen_loop_terminated:
  "terminated s \<Longrightarrow> n \<le> m \<Longrightarrow> safe_strlen_loop s n m = Some (min (n + length (cstr s)) m)"
  by (induction s arbitrary: n) (auto simp: min_def)

lemma safe_strlen_terminated:
  "terminated s \<Longrightarrow> safe_strlen (Some s) m = Some (min (length (cstr s)) m)"
  by (simp add: safe_strlen_def safe_strlen_loop_terminated)

lemma safe_strlen_loop_long:
  "\<not> terminated s \<Longrightarrow> n \<le> m \<Longrightarrow> safe_strlen_loop s n m = (if m \<le> n + length s then Some m else None)"
  by (induction s arbitrary: n) auto

lemma take_safe_strlen: "take (min (length (cstr s)) m) s = take m (cstr s)"
  by (metis min.commute take_length_cstr take_take)

lemma lm_get_Some [simp]: "p + n \<le> wi_size i \<Longrightarrow> lm_get p n i = Some (load (wi_mem i) p n)"
  by (simp add: lm_get_def)

lemma lm_put_Some [simp]:
  "p + length bs \<le> wi_size i \<Longrightarrow> lm_put p bs i = Some (i\<lparr>wi_mem := store p bs (wi_mem i)\<rparr>)"
  by (simp add: lm_put_def)

text \<open>The two copy sequences store, or return, exactly one string field.\<close>

lemma clear_and_copy_ok:
  assumes "p + n \<le> wi_size i" and "0 < n"
  shows "clear_and_copy p n s (min (length (cstr s)) (n - 1)) i =
         Some (i\<lparr>wi_mem := store p (cfield n (cstr s)) (wi_mem i)\<rparr>)"
proof -
  let ?t = "take (n - 1) (cstr s)"
  have st: "store p ?t (store p (replicate n NUL) (wi_mem i)) = store p (cfield n (cstr s)) (wi_mem i)"
    using assms(2) by (rule store_cfield)
  have fill: "lm_put p (replicate n NUL) i = Some (i\<lparr>wi_mem := store p (replicate n NUL) (wi_mem i)\<rparr>)"
    using assms(1) by simp
  have "p + length ?t \<le> wi_size i"
    using assms by (auto simp: min_def)
  then have move: "lm_put p ?t (i\<lparr>wi_mem := m\<rparr>) = Some (i\<lparr>wi_mem := store p ?t m\<rparr>)" for m
    by (simp del: length_take)
  show ?thesis
  proof (cases "0 < min (length (cstr s)) (n - 1)")
    case True
    then show ?thesis
      by (simp only: clear_and_copy_def fill Option.bind_lunit take_safe_strlen move st if_True)
  next
    case False
    then have "?t = []" by (metis gr0I length_take list.size(3) length_0_conv min.commute)
    with st False show ?thesis
      by (simp only: clear_and_copy_def fill Option.bind_lunit store_Nil if_False)
  qed
qed

lemma clamp_len_int: "clamp_len (int k) (int m) = int (min k m)"
  by (simp add: clamp_len_def min_def)

lemma pos_len_int [simp]: "pos_len (int n) = int n"
  by (simp add: pos_len_def)

lemma take_load_min: "take j (load m p k) = load m p (min k j)"
  by (cases "k \<le> j") (simp_all add: take_load)

lemma move_from_app_ok:
  assumes "p + min k (n - 1) \<le> wi_size i" and "0 < n"
  shows "move_from_app (Some p) (int (min k (n - 1))) i (replicate n NUL) =
         Some (cfield n (load (wi_mem i) p k))"
proof -
  have "min k (n - 1) \<le> n" by auto
  with assms(1) show ?thesis
    unfolding move_from_app_def cfield_def take_load_min
    by (auto simp: TEE_MemMove_def buf_write_def simp del: of_nat_min)
qed

lemma move_key:
  assumes "p + k \<le> wi_size i"
  shows "clamp_len (int k) 63 = int (min k 63)"
    and "move_from_app (Some p) (int (min k 63)) i (replicate 64 NUL) = Some (cfield 64 (load (wi_mem i) p k))"
  using assms clamp_len_int [of k 63] move_from_app_ok [of p k 64 i] by auto

lemma move_key_debug:
  assumes "p + k \<le> wi_size i"
  shows "clamp_len (int k) 127 = int (min k 127)"
    and "move_from_app (Some p) (int (min k 127)) i (replicate 128 NUL) = Some (cfield 128 (load (wi_mem i) p k))"
  using assms clamp_len_int [of k 127] move_from_app_ok [of p k 128 i] by auto

lemma move_value:
  assumes "p + k \<le> wi_size i"
  shows "clamp_len (int k) 255 = int (min k 255)"
    and "move_from_app (Some p) (int (min k 255)) i (replicate 256 NUL) = Some (cfield 256 (load (wi_mem i) p k))"
  using assms clamp_len_int [of k 255] move_from_app_ok [of p k 256 i] by auto

lemma to_native_buffer:
  assumes "wamr_mem_laws W" and "n < 2 ^ 31" and "unat p + n \<le> wi_size i" and "unat p < wi_size i"
  shows "to_native W i p (word_of_nat n) = (Some (unat p), i)"
  using assms by (intro to_native_ok) auto

lemma nstate_inst_id [simp]: "ns_inst st = Some i \<Longrightarrow> st\<lparr>ns_inst := Some i\<rparr> = st"
  by (cases st) simp

section \<open>What each import does when its buffers are inside the memory\<close>

lemma cc_get_function_native_ok:
  assumes W: "wamr_mem_laws W" and i: "ns_inst st = Some i" and sc: "ns_sess st = Some sc"
    and n: "0 < n" "n < 2 ^ 31" "unat p + n \<le> wi_size i" and t: "terminated (arg_row sc 0)"
  shows "cc_get_function_native W p (int n) st =
     Some (int (min (length (cstr (arg_row sc 0))) (n - 1)),
           st\<lparr>ns_inst := Some (i\<lparr>wi_mem := store (unat p) (cfield n (cstr (arg_row sc 0))) (wi_mem i)\<rparr>)\<rparr>)"
proof -
  have "wasm_runtime_validate_app_addr W i p (word_of_int (int n)) = (True, i)"
    using n by (intro validate_ok [OF W]) auto
  moreover have "size_minus_1 (int n) = n - 1" using n size_minus_1_pos [of "int n"] by simp
  moreover have "wasm_runtime_addr_app_to_native W i p = Some (unat p)"
    using n by (simp add: app_to_native [OF W])
  ultimately show ?thesis
    using n clear_and_copy_ok [OF n(3,1), of "arg_row sc 0"]
    by (simp add: cc_get_function_native_def i sc t safe_strlen_terminated Let_def)
qed

lemma cc_get_arg_native_ok:
  assumes W: "wamr_mem_laws W" and i: "ns_inst st = Some i" and sc: "ns_sess st = Some sc"
    and n: "0 < n" "n < 2 ^ 31" "unat p + n \<le> wi_size i"
    and idx: "idx < 9" and t: "terminated (arg_row sc (idx + 1))"
  shows "cc_get_arg_native W (int idx) p (int n) st =
     Some (int (min (length (cstr (arg_row sc (idx + 1)))) (n - 1)),
           st\<lparr>ns_inst := Some (i\<lparr>wi_mem :=
             store (unat p) (cfield n (cstr (arg_row sc (idx + 1)))) (wi_mem i)\<rparr>)\<rparr>)"
proof -
  have "to_native W i p (word_of_nat n) = (Some (unat p), i)"
    using n by (intro to_native_buffer [OF W]) auto
  moreover have "size_minus_1 (int n) = n - 1" using n size_minus_1_pos [of "int n"] by simp
  ultimately show ?thesis
    using n idx t clear_and_copy_ok [OF n(3,1), of "arg_row sc (idx + 1)"]
    by (simp add: cc_get_arg_native_def i sc safe_strlen_terminated Let_def)
qed

lemma cc_get_state_native_ok:
  assumes W: "wamr_mem_laws W" and i: "ns_inst st = Some i" and sc: "ns_sess st = Some sc"
    and wf: "wf_session sc"
    and n: "0 < n" "n < 2 ^ 31" "unat p + n \<le> wi_size i"
    and k: "kn < 2 ^ 31" "unat kp + kn \<le> wi_size i" "unat kp < wi_size i"
  shows "cc_get_state_native W kp (int kn) p (int n) st =
     Some (int (min kn 63),
           st\<lparr>ns_sess := Some (sc\<lparr>sc_key := cfield 64 (load (wi_mem i) (unat kp) kn),
                 sc_pending_type := GET_STATE_REQUEST, sc_wasm_out_offset := p,
                 sc_wasm_out_len := int n\<rparr>)\<rparr>)"
proof -
  have tp: "to_native W i p (word_of_nat n) = (Some (unat p), i)"
    using n by (intro to_native_buffer [OF W]) auto
  have tk: "to_native W i kp (word_of_nat kn) = (Some (unat kp), i)"
    using k by (intro to_native_buffer [OF W]) auto
  show ?thesis
    using wf n
    by (simp add: cc_get_state_native_def i sc tp tk move_key [OF k(2)] move_key_debug [OF k(2)]
        wf_session_def Let_def)
qed

lemma cc_put_state_native_ok:
  assumes W: "wamr_mem_laws W" and i: "ns_inst st = Some i" and sc: "ns_sess st = Some sc"
    and wf: "wf_session sc"
    and v: "vn < 2 ^ 31" "unat vp + vn \<le> wi_size i" "unat vp < wi_size i"
    and k: "kn < 2 ^ 31" "unat kp + kn \<le> wi_size i" "unat kp < wi_size i"
  shows "cc_put_state_native W kp (int kn) vp (int vn) st =
     Some (-1, st\<lparr>ns_sess := Some (sc\<lparr>sc_key := cfield 64 (load (wi_mem i) (unat kp) kn),
                 sc_value := cfield 256 (load (wi_mem i) (unat vp) vn),
                 sc_pending_type := PUT_STATE_REQUEST, sc_wasm_out_offset := 0,
                 sc_wasm_out_len := 0\<rparr>)\<rparr>)"
proof -
  have tp: "to_native W i vp (word_of_nat vn) = (Some (unat vp), i)"
    using v by (intro to_native_buffer [OF W]) auto
  have tk: "to_native W i kp (word_of_nat kn) = (Some (unat kp), i)"
    using k by (intro to_native_buffer [OF W]) auto
  show ?thesis
    using wf
    by (simp add: cc_put_state_native_def i sc tp tk move_key [OF k(2)] move_value [OF v(2)]
        wf_session_def Let_def)
qed

lemma cfield_terminate:
  "buf_write (min k (n - 1)) [NUL] (cfield n (load m p k)) = Some (cfield n (load m p k))" if "0 < n"
proof -
  have "length (take (n - 1) (load m p k)) = min k (n - 1)" by (simp add: min.commute)
  moreover have "0 < n - min k (n - 1)" using that by linarith
  then obtain j where "n - min k (n - 1) = Suc j"
    using gr0_implies_Suc by blast
  ultimately show ?thesis
    by (simp add: buf_write_def cfield_def take_load_min)
qed

lemma cc_return_response_native_ok:
  assumes W: "wamr_mem_laws W" and i: "ns_inst st = Some i" and sc: "ns_sess st = Some sc"
    and wf: "wf_session sc"
    and p: "n < 2 ^ 31" "unat p + n \<le> wi_size i" "unat p < wi_size i"
  shows "cc_return_response_native W p (int n) st =
     Some (int (min n 255),
       st\<lparr>ns_sess := Some (sc\<lparr>sc_response := cfield 256 (load (wi_mem i) (unat p) n),
             sc_has_response := 1\<rparr>)\<rparr>)"
proof -
  have tp: "to_native W i p (word_of_nat n) = (Some (unat p), i)"
    using p by (intro to_native_buffer [OF W]) auto
  have "buf_write (min n 255) [NUL] (cfield 256 (load (wi_mem i) (unat p) n)) =
      Some (cfield 256 (load (wi_mem i) (unat p) n))"
    using cfield_terminate [of 256 n "wi_mem i" "unat p"] by simp
  with wf show ?thesis
    by (simp add: cc_return_response_native_def i sc tp move_value [OF p(2)] wf_session_def Let_def
        del: of_nat_min)
qed


section \<open>Calls with arbitrary arguments\<close>

text \<open>
  The module is untrusted: it may call an import with any 32-bit arguments. \<open>native_ok\<close> is
  what a call relies on and keeps, \<open>native_frame\<close> what no call changes.
\<close>

definition native_ok :: "'g nstate \<Rightarrow> bool" where
  "native_ok st \<longleftrightarrow>
     ns_inst st \<noteq> None \<and> (\<forall>sc. ns_sess st = Some sc \<longrightarrow> session_inv sc \<and> args_terminated sc)"

definition native_frame :: "'g nstate \<Rightarrow> 'g nstate \<Rightarrow> bool" where
  "native_frame st st' \<longleftrightarrow>
     map_option wi_size (ns_inst st') = map_option wi_size (ns_inst st) \<and>
     map_option wi_data (ns_inst st') = map_option wi_data (ns_inst st) \<and>
     map_option sc_args (ns_sess st') = map_option sc_args (ns_sess st) \<and>
     map_option sc_runtime (ns_sess st') = map_option sc_runtime (ns_sess st)"

definition safe_result :: "'g nstate \<Rightarrow> ('r \<times> 'g nstate) option \<Rightarrow> bool" where
  "safe_result st r \<longleftrightarrow> (\<exists>x st'. r = Some (x, st') \<and> native_ok st' \<and> native_frame st st')"

lemma native_frame_refl [simp]: "native_frame st st"
  by (simp add: native_frame_def)

lemma safe_result_Some [simp]: "safe_result st (Some (x, st')) \<longleftrightarrow> native_ok st' \<and> native_frame st st'"
  by (auto simp: safe_result_def)

lemma safe_inst_update:
  assumes "native_ok st" and "ns_inst st = Some i" and "wi_size i' = wi_size i" and "wi_data i' = wi_data i"
  shows "native_ok (st\<lparr>ns_inst := Some i'\<rparr>)" and "native_frame st (st\<lparr>ns_inst := Some i'\<rparr>)"
  using assms by (auto simp: native_ok_def native_frame_def)

lemma safe_sess_update:
  assumes "native_ok st" and "native_frame st0 st" and "ns_sess st = Some sc"
    and "session_inv sc'" and "sc_args sc' = sc_args sc" and "sc_runtime sc' = sc_runtime sc"
  shows "native_ok (st\<lparr>ns_sess := Some sc'\<rparr>)" and "native_frame st0 (st\<lparr>ns_sess := Some sc'\<rparr>)"
  using assms by (auto simp: native_ok_def native_frame_def args_terminated_def)

lemma clear_and_copy_safe:
  assumes "p + n \<le> wi_size i" and "len \<le> n"
  shows "\<exists>m. clear_and_copy p n src len i = Some (i\<lparr>wi_mem := m\<rparr>)"
  using assms by (auto simp: clear_and_copy_def min_def)

lemma move_from_app_safe:
  assumes "\<And>p. src = Some p \<Longrightarrow> 0 < n \<Longrightarrow> p + nat n \<le> wi_size i" and "nat n < N"
  shows "\<exists>bs. move_from_app src n i (replicate N NUL) = Some bs \<and> length bs = N \<and> terminated bs"
  using assms by (auto simp: move_from_app_def TEE_MemMove_def buf_write_def split: option.splits)

lemma unat_pos_len: "is_i32 n \<Longrightarrow> unat (word_of_int (pos_len n) :: u32) = nat n"
  by (auto simp: pos_len_def is_i32_def unat_word_of_int_pos)

lemma nat_clamp_len: "nat (clamp_len n lim) \<le> nat n" "0 \<le> lim \<Longrightarrow> nat (clamp_len n lim) \<le> nat lim"
  by (auto simp: clamp_len_def)

text \<open>A buffer argument of an import: either unusable (\<open>NULL\<close>) or inside the memory.\<close>

lemma to_native_arg:
  assumes "wamr_mem_laws W" and "to_native W i off w = (r, i')"
  shows "wi_size i' = wi_size i" and "wi_data i' = wi_data i"
    and "r = Some p \<Longrightarrow> p + unat w \<le> wi_size i'"
  by (rule to_native_cases [OF assms(1), of i off w]; use assms(2) in auto)+

lemma unat_len_arg: "is_i32 n \<Longrightarrow> 0 < n \<Longrightarrow> unat (word_of_int n :: u32) = nat n"
  by (simp add: is_i32_def unat_word_of_int_pos)

lemma arg_view_strlen:
  assumes "terminated s"
  shows "\<exists>len. safe_strlen (Some s) m = Some len \<and> len \<le> m"
  using safe_strlen_terminated [OF assms] by auto

lemma size_minus_1_le: "is_i32 n \<Longrightarrow> 0 < n \<Longrightarrow> size_minus_1 n \<le> nat n"
  by (simp add: is_i32_def size_minus_1_pos)

lemma validate_cases:
  assumes "wamr_mem_laws W" and "unat n \<noteq> 0"
  obtains (valid) "wasm_runtime_validate_app_addr W i off n = (True, i)" "unat off + unat n \<le> wi_size i"
    "wasm_runtime_addr_app_to_native W i off = Some (unat off)"
  | (exc) e where "wasm_runtime_validate_app_addr W i off n = (False, i\<lparr>wi_exception := Some e\<rparr>)"
proof (cases "unat off + unat n \<le> wi_size i")
  case True
  with assms show ?thesis by (intro that(1)) (auto simp: validate_ok app_to_native)
next
  case False
  with validate_bad [OF assms(1)] that(2) show ?thesis by blast
qed

lemma cc_get_function_native_safe:
  assumes W: "wamr_mem_laws W" and ok: "native_ok st" and n: "is_i32 n"
  shows "safe_result st (cc_get_function_native W p n st)"
proof -
  obtain i where i: "ns_inst st = Some i" using ok by (auto simp: native_ok_def)
  note upd = safe_inst_update [OF ok i]
  show ?thesis
  proof (cases "0 < n")
    case False
    with ok i show ?thesis by (simp add: cc_get_function_native_def)
  next
    case pos: True
    then have w: "unat (word_of_int n :: u32) \<noteq> 0" using unat_len_arg [OF n] by simp
    from W w show ?thesis
    proof (cases rule: validate_cases [of W "word_of_int n" i p])
      case (exc e)
      with pos i upd show ?thesis by (simp add: cc_get_function_native_def Let_def)
    next
      case valid
      show ?thesis
      proof (cases "ns_sess st")
        case None
        with valid pos i ok show ?thesis by (simp add: cc_get_function_native_def Let_def)
      next
        case (Some sc)
        then have t: "terminated (arg_row sc 0)"
          using ok by (auto simp: native_ok_def intro: args_terminated_row)
        have "cc_get_function_native W p (int (nat n)) st = Some (int (min (length (cstr (arg_row sc 0))) (nat n - 1)),
            st\<lparr>ns_inst := Some (i\<lparr>wi_mem := store (unat p) (cfield (nat n) (cstr (arg_row sc 0))) (wi_mem i)\<rparr>)\<rparr>)"
          using pos n t valid(2) unat_len_arg [OF n pos]
          by (intro cc_get_function_native_ok [OF W i Some]) (auto simp: is_i32_def)
        with pos upd show ?thesis by simp
      qed
    qed
  qed
qed

lemma cc_get_arg_native_safe:
  assumes W: "wamr_mem_laws W" and ok: "native_ok st" and n: "is_i32 n" and idx: "idx \<noteq> 9"
  shows "safe_result st (cc_get_arg_native W idx p n st)"
proof -
  obtain i where i: "ns_inst st = Some i" using ok by (auto simp: native_ok_def)
  obtain out i' where tn: "to_native W i p (word_of_int n) = (out, i')" by fastforce
  note sz = to_native_arg [OF W tn]
  note upd = safe_inst_update [OF ok i]
  define arg where "arg = (case ns_sess st of None \<Rightarrow> [NUL]
      | Some sc \<Rightarrow> if 0 \<le> idx \<and> idx < int ARGS_NUMBER then arg_row sc (nat idx + 1) else [NUL])"
  have "terminated arg"
    using ok idx by (auto simp: arg_def native_ok_def intro!: args_terminated_row split: option.splits)
  then obtain len where len: "safe_strlen (Some arg) (size_minus_1 n) = Some len" "len \<le> size_minus_1 n"
    using arg_view_strlen by blast
  show ?thesis
  proof (cases "out = None \<or> n \<le> 0")
    case True
    then show ?thesis
      using i tn upd sz(1,2) by (auto simp: cc_get_arg_native_def Let_def split: option.splits)
  next
    case False
    then obtain q where q: "out = Some q" and pos: "0 < n" by auto
    then have "q + nat n \<le> wi_size i'" using sz(3) unat_len_arg [OF n] by simp
    then obtain m where "clear_and_copy q (nat n) arg len i' = Some (i'\<lparr>wi_mem := m\<rparr>)"
      using clear_and_copy_safe len(2) size_minus_1_le [OF n pos] le_trans by blast
    with i tn q pos len upd sz(1,2) show ?thesis
      by (simp add: cc_get_arg_native_def Let_def flip: arg_def)
  qed
qed

lemma session_inv_get:
  assumes "session_inv sc" and "length k = KEY_SIZE" and "terminated k" and "0 < n" and "n < 2 ^ 31"
  shows "session_inv (sc\<lparr>sc_key := k, sc_pending_type := GET_STATE_REQUEST,
           sc_wasm_out_offset := p, sc_wasm_out_len := n\<rparr>)"
  using assms by (simp add: session_inv_def wf_session_def)

lemma session_inv_put:
  assumes "session_inv sc" and "length k = KEY_SIZE" and "terminated k"
    and "length v = VAL_SIZE" and "terminated v"
  shows "session_inv (sc\<lparr>sc_key := k, sc_value := v, sc_pending_type := PUT_STATE_REQUEST,
           sc_wasm_out_offset := 0, sc_wasm_out_len := 0\<rparr>)"
  using assms by (simp add: session_inv_def wf_session_def)

lemma session_inv_response:
  assumes "session_inv sc" and "length r = RESPONSE_SIZE" and "terminated r"
  shows "session_inv (sc\<lparr>sc_response := r, sc_has_response := 1\<rparr>)"
  using assms by (simp add: session_inv_def wf_session_def)

lemma move_arg_safe:
  assumes "\<And>p. src = Some p \<Longrightarrow> p + nat n \<le> wi_size i" and "0 \<le> lim" and "nat lim < N"
  shows "\<exists>bs. move_from_app src (clamp_len n lim) i (replicate N NUL) = Some bs \<and> length bs = N \<and> terminated bs"
proof (rule move_from_app_safe)
  fix p assume "src = Some p"
  then have "p + nat n \<le> wi_size i" by (rule assms(1))
  then show "p + nat (clamp_len n lim) \<le> wi_size i"
    using nat_clamp_len(1) [of n lim] by linarith
next
  show "nat (clamp_len n lim) < N" using nat_clamp_len(2) [OF assms(2), of n] assms(3) by simp
qed

lemma cc_get_state_native_safe:
  assumes W: "wamr_mem_laws W" and ok: "native_ok st" and n: "is_i32 n" and kn: "is_i32 kn"
  shows "safe_result st (cc_get_state_native W kp kn p n st)"
proof -
  obtain i where i: "ns_inst st = Some i" using ok by (auto simp: native_ok_def)
  obtain out i1 where tn: "to_native W i p (word_of_int n) = (out, i1)" by fastforce
  obtain key i2 where tk: "to_native W i1 kp (word_of_int (pos_len kn)) = (key, i2)" by fastforce
  note sz = to_native_arg [OF W tn] to_native_arg [OF W tk]
  have upd: "native_ok (st\<lparr>ns_inst := Some i2\<rparr>)" "native_frame st (st\<lparr>ns_inst := Some i2\<rparr>)"
    using safe_inst_update [OF ok i, of i2] sz by simp_all
  have k: "\<And>q. key = Some q \<Longrightarrow> q + nat kn \<le> wi_size i2"
    using sz(6) unat_pos_len [OF kn] by simp
  obtain dbg where dbg: "move_from_app key (clamp_len kn 127) i2 (replicate 128 NUL) = Some dbg"
    using move_arg_safe [of key kn i2 127 128] k by auto
  show ?thesis
  proof (cases "out = None \<or> n \<le> 0 \<or> ns_sess st = None")
    case True
    then show ?thesis
      using i tn tk dbg upd by (auto simp: cc_get_state_native_def Let_def split: option.splits)
  next
    case False
    then obtain q sc where q: "out = Some q" "0 < n" and sc: "ns_sess st = Some sc" by auto
    have inv: "session_inv sc" using ok sc by (simp add: native_ok_def)
    obtain k' where k': "move_from_app key (clamp_len kn 63) i2 (replicate 64 NUL) = Some k'"
      "length k' = 64" "terminated k'"
      using move_arg_safe [of key kn i2 63 64] k by auto
    have "session_inv (sc\<lparr>sc_key := k', sc_pending_type := GET_STATE_REQUEST,
           sc_wasm_out_offset := p, sc_wasm_out_len := n\<rparr>)"
      using inv k' q(2) n by (intro session_inv_get) (auto simp: is_i32_def)
    from safe_sess_update [OF upd _ this] i tn tk dbg q sc k' inv show ?thesis
      by (simp add: cc_get_state_native_def Let_def session_inv_def wf_session_def)
  qed
qed

lemma cc_put_state_native_safe:
  assumes W: "wamr_mem_laws W" and ok: "native_ok st" and vn: "is_i32 vn" and kn: "is_i32 kn"
  shows "safe_result st (cc_put_state_native W kp kn vp vn st)"
proof -
  obtain i where i: "ns_inst st = Some i" using ok by (auto simp: native_ok_def)
  obtain key i1 where tk: "to_native W i kp (word_of_int (pos_len kn)) = (key, i1)" by fastforce
  obtain val i2 where tv: "to_native W i1 vp (word_of_int (pos_len vn)) = (val, i2)" by fastforce
  note sz = to_native_arg [OF W tk] to_native_arg [OF W tv]
  have upd: "native_ok (st\<lparr>ns_inst := Some i2\<rparr>)" "native_frame st (st\<lparr>ns_inst := Some i2\<rparr>)"
    using safe_inst_update [OF ok i, of i2] sz by simp_all
  show ?thesis
  proof (cases "ns_sess st")
    case None
    then show ?thesis using i tk tv upd by (simp add: cc_put_state_native_def Let_def)
  next
    case (Some sc)
    have inv: "session_inv sc" using ok Some by (simp add: native_ok_def)
    obtain k' where k': "move_from_app key (clamp_len kn 63) i2 (replicate 64 NUL) = Some k'"
      "length k' = 64" "terminated k'"
      using move_arg_safe [of key kn i2 63 64] sz unat_pos_len [OF kn] by auto
    obtain v' where v': "move_from_app val (clamp_len vn 255) i2 (replicate 256 NUL) = Some v'"
      "length v' = 256" "terminated v'"
      using move_arg_safe [of val vn i2 255 256] sz unat_pos_len [OF vn] by auto
    have "session_inv (sc\<lparr>sc_key := k', sc_value := v', sc_pending_type := PUT_STATE_REQUEST,
           sc_wasm_out_offset := 0, sc_wasm_out_len := 0\<rparr>)"
      using inv k' v' by (intro session_inv_put) auto
    from safe_sess_update [OF upd _ this] i tk tv Some k' v' inv show ?thesis
      by (simp add: cc_put_state_native_def Let_def session_inv_def wf_session_def)
  qed
qed


lemma cc_return_response_native_safe:
  assumes W: "wamr_mem_laws W" and ok: "native_ok st" and n: "is_i32 n" "0 \<le> n"
  shows "safe_result st (cc_return_response_native W p n st)"
proof -
  obtain i where i: "ns_inst st = Some i" using ok by (auto simp: native_ok_def)
  obtain msg i1 where tm: "to_native W i p (word_of_int (pos_len n)) = (msg, i1)" by fastforce
  note sz = to_native_arg [OF W tm]
  have upd: "native_ok (st\<lparr>ns_inst := Some i1\<rparr>)" "native_frame st (st\<lparr>ns_inst := Some i1\<rparr>)"
    using safe_inst_update [OF ok i, of i1] sz by simp_all
  show ?thesis
  proof (cases "ns_sess st")
    case None
    then show ?thesis using i tm upd by (simp add: cc_return_response_native_def Let_def)
  next
    case (Some sc)
    have inv: "session_inv sc" using ok Some by (simp add: native_ok_def)
    obtain r where r: "move_from_app msg (clamp_len n 255) i1 (replicate 256 NUL) = Some r" "length r = 256"
      using move_arg_safe [of msg n i1 255 256] sz unat_pos_len [OF n(1)] by auto
    have b: "0 \<le> clamp_len n 255" "nat (clamp_len n 255) < 256"
      using n(2) by (auto simp: clamp_len_def)
    obtain r' where r': "buf_write (nat (clamp_len n 255)) [NUL] r = Some r'" "length r' = 256" "terminated r'"
      using b r(2) by (auto simp: buf_write_def)
    have "session_inv (sc\<lparr>sc_response := r', sc_has_response := 1\<rparr>)"
      using inv r' by (intro session_inv_response) auto
    from safe_sess_update [OF upd _ this] i tm Some r r' b inv show ?thesis
      by (simp add: cc_return_response_native_def Let_def session_inv_def wf_session_def)
  qed
qed

lemma cc_log_native_safe:
  assumes W: "wamr_mem_laws W" and ok: "native_ok st" and n: "is_i32 n"
  shows "safe_result st (cc_log_native W p n st)"
proof -
  obtain i where i: "ns_inst st = Some i" using ok by (auto simp: native_ok_def)
  obtain msg i1 where tm: "to_native W i p (word_of_int (pos_len n)) = (msg, i1)" by fastforce
  note sz = to_native_arg [OF W tm]
  have upd: "native_ok (st\<lparr>ns_inst := Some i1\<rparr>)" "native_frame st (st\<lparr>ns_inst := Some i1\<rparr>)"
    using safe_inst_update [OF ok i, of i1] sz by simp_all
  obtain b where "move_from_app msg (clamp_len n 127) i1 (replicate 128 NUL) = Some b"
    using move_arg_safe [of msg n i1 127 128] sz unat_pos_len [OF n] by auto
  with i tm upd show ?thesis
    by (auto simp: cc_log_native_def Let_def split: option.splits)
qed

lemma env_memset_native_safe:
  assumes W: "wamr_mem_laws W" and ok: "native_ok st"
  shows "safe_result st (env_memset_native W d c n st)"
proof -
  obtain i where i: "ns_inst st = Some i" using ok by (auto simp: native_ok_def)
  obtain dst i1 where td: "to_native W i d n = (dst, i1)" by fastforce
  note sz = to_native_arg [OF W td]
  note upd = safe_inst_update [OF ok i]
  have "lm_put q (replicate (unat n) x) i1 = Some (i1\<lparr>wi_mem := store q (replicate (unat n) x) (wi_mem i1)\<rparr>)"
    if "dst = Some q" for q x
    using sz(3) [OF that] by simp
  with i td sz(1,2) upd show ?thesis
    by (cases dst) (auto simp: env_memset_native_def Let_def)
qed

lemma env_memmove_native_safe:
  assumes W: "wamr_mem_laws W" and ok: "native_ok st"
  shows "safe_result st (env_memmove_native W d s n st)"
proof -
  obtain i where i: "ns_inst st = Some i" using ok by (auto simp: native_ok_def)
  obtain dst i1 where td: "to_native W i d n = (dst, i1)" by fastforce
  obtain src i2 where ts: "to_native W i1 s n = (src, i2)" by fastforce
  note sz = to_native_arg [OF W td] to_native_arg [OF W ts]
  note upd = safe_inst_update [OF ok i]
  have "lm_get q (unat n) i2 = Some (load (wi_mem i2) q (unat n))" if "src = Some q" for q
    using sz(6) [OF that] by simp
  moreover have "lm_put q (load m r (unat n)) i2 = Some (i2\<lparr>wi_mem := store q (load m r (unat n)) (wi_mem i2)\<rparr>)"
    if "dst = Some q" for q m r
    using sz(3) [OF that] sz(4) by simp
  ultimately show ?thesis
    using i td ts sz(1,2,4,5) upd
    by (cases dst; cases src) (auto simp: env_memmove_native_def Let_def)
qed

lemma env_memcpy_eq_memmove: "env_memcpy_native = env_memmove_native"
  by (simp add: env_memcpy_native_def env_memmove_native_def fun_eq_iff)

lemma safe_ret_i32 [simp]: "safe_result st (ret_i32 r) \<longleftrightarrow> safe_result st r"
  by (cases r) (auto simp: safe_result_def ret_i32_def)

section \<open>Properties\<close>

definition sig_arity :: "string \<Rightarrow> nat" where
  "sig_arity s = length (filter (\<lambda>c. c = CHR ''i'') (takeWhile (\<lambda>c. c \<noteq> CHR '')'') s))"
  \<comment> \<open>the number of \<open>i32\<close> parameters a signature string such as \<open>(iii)i\<close> declares\<close>

lemma native_call_safe:
  assumes "wamr_mem_laws W" and "native_ok st"
    and "sy \<in> set chaincode_native_symbols" and "length args = sig_arity (sym_sig sy)"
    and "sym_name sy = ''cc_get_arg'' \<longrightarrow> sint (args ! 0) \<noteq> 9"
    and "sym_name sy = ''cc_return_response'' \<longrightarrow> 0 \<le> sint (args ! 1)"
  shows "safe_result st (sym_call sy W args st)"
  using assms
  by (auto simp: chaincode_native_symbols_def sig_arity_def length_Suc_conv numeral_eq_Suc env_memcpy_eq_memmove
      debug_log_native_def
      intro!: cc_get_function_native_safe cc_get_arg_native_safe cc_get_state_native_safe
        cc_put_state_native_safe cc_return_response_native_safe cc_log_native_safe
        env_memset_native_safe env_memmove_native_safe)

text \<open>
  C8: Whatever 32-bit arguments the (untrusted) module passes to an import of the symbol
  table, with the number of arguments its signature declares, the call returns, every
  access stays inside the linear memory and the session context, the session invariant is
  kept, and neither the memory size nor the received arguments change. Two calls are
  excluded, because they do leave their objects: \<open>cc_get_arg\<close> with index 9 and
  \<open>cc_return_response\<close> with a negative length.
\<close>

theorem native_calls_memory_safe:
  assumes "wamr_mem_laws W" and "native_ok st"
    and "sy \<in> set chaincode_native_symbols" and "length args = sig_arity (sym_sig sy)"
    and "sym_name sy = ''cc_get_arg'' \<longrightarrow> sint (args ! 0) \<noteq> 9"
    and "sym_name sy = ''cc_return_response'' \<longrightarrow> 0 \<le> sint (args ! 1)"
  shows "safe_result st (sym_call sy W args st)"
  using assms by (rule native_call_safe)

text \<open>
  A runtime that satisfies the laws: a bounds check against the memory size, with the
  exception text WAMR uses. Only the witnesses use it.
\<close>

definition ref_wamr :: "'g wamr_mem" where
  "ref_wamr = \<lparr>wasm_runtime_validate_app_addr = (\<lambda>i off n.
        if unat off + unat n \<le> wi_size i then (True, i)
        else (False, i\<lparr>wi_exception := Some ''out of bounds memory access''\<rparr>)),
     wasm_runtime_addr_app_to_native = (\<lambda>i off. if unat off < wi_size i then Some (unat off) else None)\<rparr>"

lemma ref_wamr_laws: "wamr_mem_laws ref_wamr"
  by (auto simp: wamr_mem_laws_def ref_wamr_def)

definition demo_inst :: "unit wasm_inst" where
  "demo_inst = \<lparr>wi_mem = (\<lambda>_. NUL), wi_size = 1024, wi_exception = None, wi_data = ()\<rparr>"

definition demo_nstate :: "unit nstate" where
  "demo_nstate = \<lparr>ns_sess = Some zero_session, ns_inst = Some demo_inst\<rparr>"

lemma demo_native_ok: "native_ok demo_nstate"
  by (simp add: native_ok_def demo_nstate_def zero_session_ok)

theorem native_calls_memory_safe_witness:
  "safe_result demo_nstate (sym_call (chaincode_native_symbols ! 2) ref_wamr [16, - 1, 1000, 4096] demo_nstate)"
  by (rule native_calls_memory_safe [OF ref_wamr_laws demo_native_ok])
    (simp_all add: chaincode_native_symbols_def sig_arity_def)

text \<open>
  C32: \<open>cc_return_response\<close> with a negative message length writes its terminator before the
  response array (\<open>response[n] = 0\<close> with \<open>n < 0\<close>): a call of the sandboxed module leaves
  its object inside the TA for every negative length and every message pointer.
\<close>

theorem cc_return_response_negative_length:
  assumes "wamr_mem_laws W" and "ns_inst st = Some i" and "ns_sess st = Some sc"
    and "wf_session sc" and "is_i32 n" and "n < 0"
  shows "cc_return_response_native W p n st = None"
proof -
  obtain msg i1 where tm: "to_native W i p (word_of_int (pos_len n)) = (msg, i1)" by fastforce
  have "clamp_len n 255 = n" "\<not> 0 < n" using assms(6) by (simp_all add: clamp_len_def)
  with assms tm show ?thesis
    by (simp add: cc_return_response_native_def wf_session_def Let_def move_from_app_def split: option.splits)
qed

theorem cc_return_response_negative_length_witness:
  "cc_return_response_native ref_wamr 16 (- 5) demo_nstate = None"
  using cc_return_response_negative_length [OF ref_wamr_laws, of demo_nstate demo_inst zero_session "- 5" 16]
    zero_session_ok(1)
  by (simp add: demo_nstate_def is_i32_def)

text \<open>
  C33: \<open>cc_get_arg\<close> accepts index 9 (its guard is \<open>idx < ARGS_NUMBER\<close>, but argument \<open>idx\<close> is
  row \<open>idx + 1\<close> of the ten rows) and then reads past the end of the arguments, for every
  output buffer of at least two bytes inside the memory.
\<close>

theorem cc_get_arg_index_9:
  assumes "wamr_mem_laws W" and "ns_inst st = Some i" and "ns_sess st = Some sc"
    and "wf_session sc" and "1 < n" and "n < 2 ^ 31" and "unat p + n \<le> wi_size i"
  shows "cc_get_arg_native W 9 p (int n) st = None"
proof -
  have "to_native W i p (word_of_nat n) = (Some (unat p), i)"
    using assms by (intro to_native_buffer) auto
  moreover have "arg_row sc 10 = []" using assms(4) by (simp add: arg_row_def wf_session_def)
  moreover have "size_minus_1 (int n) = n - 1" using assms size_minus_1_pos [of "int n"] by simp
  ultimately show ?thesis
    using assms by (simp add: cc_get_arg_native_def safe_strlen_def Let_def)
qed

theorem cc_get_arg_index_9_witness: "cc_get_arg_native ref_wamr 9 16 64 demo_nstate = None"
  using cc_get_arg_index_9 [OF ref_wamr_laws, of demo_nstate demo_inst zero_session 64 16]
    zero_session_ok(1)
  by (simp add: demo_nstate_def demo_inst_def)

text \<open>
  The module reads its arguments through \<open>cc_get_arg\<close>: for index 0 to 8 and a buffer
  inside the memory, the buffer then holds the argument as a zero-padded C string cut to the
  buffer, the result is the number of characters copied, and nothing else changes. The next
  \<open>cc_put_state\<close> with that buffer as the value hands exactly this string to the host.
\<close>

theorem argument_transfer:
  assumes "wamr_mem_laws W" and "ns_inst st = Some i" and "ns_sess st = Some sc" and "wf_session sc"
    and "0 < n" and "n < 2 ^ 31" and "unat p + n \<le> wi_size i" and "idx < 9"
    and "terminated (arg_row sc (idx + 1))" and "length (cstr (arg_row sc (idx + 1))) < min n 256"
    and "kn < 2 ^ 31" and "unat kp + kn \<le> wi_size i" and "unat kp < wi_size i"
  shows "\<exists>len st1 st2 sc2. cc_get_arg_native W (int idx) p (int n) st = Some (int len, st1) \<and>
     len = length (cstr (arg_row sc (idx + 1))) \<and>
     ns_inst st1 = Some (i\<lparr>wi_mem := store (unat p) (cfield n (cstr (arg_row sc (idx + 1)))) (wi_mem i)\<rparr>) \<and>
     ns_sess st1 = Some sc \<and>
     cc_put_state_native W kp (int kn) p (int len) st1 = Some (-1, st2) \<and> ns_sess st2 = Some sc2 \<and>
     sc_pending_type sc2 = PUT_STATE_REQUEST \<and> cstr (sc_value sc2) = cstr (arg_row sc (idx + 1))"
proof -
  let ?a = "cstr (arg_row sc (idx + 1))"
  let ?i = "i\<lparr>wi_mem := store (unat p) (cfield n ?a) (wi_mem i)\<rparr>"
  have m: "min (length ?a) (n - 1) = length ?a" using assms(10) by linarith
  have g: "cc_get_arg_native W (int idx) p (int n) st = Some (int (length ?a), st\<lparr>ns_inst := Some ?i\<rparr>)"
    using cc_get_arg_native_ok [OF assms(1-3,5-9)] m by simp
  have "load (wi_mem ?i) (unat p) n = cfield n ?a" by simp
  then have "load (wi_mem ?i) (unat p) (length ?a) = take (length ?a) (cfield n ?a)"
    using assms(10) take_load [of "length ?a" n "wi_mem ?i" "unat p"] by simp
  then have l: "load (wi_mem ?i) (unat p) (length ?a) = ?a"
    using assms(10) by (simp add: cfield_short)
  have "cc_put_state_native W kp (int kn) p (int (length ?a)) (st\<lparr>ns_inst := Some ?i\<rparr>) =
     Some (-1, st\<lparr>ns_inst := Some ?i, ns_sess := Some (sc\<lparr>sc_key := cfield 64 (load (wi_mem ?i) (unat kp) kn),
        sc_value := cfield 256 ?a, sc_pending_type := PUT_STATE_REQUEST, sc_wasm_out_offset := 0, sc_wasm_out_len := 0\<rparr>)\<rparr>)"
    using cc_put_state_native_ok [OF assms(1), of "st\<lparr>ns_inst := Some ?i\<rparr>" ?i sc "length ?a" p kn kp] assms l by simp
  with g assms(3,10) show ?thesis by (auto simp: cstr_cfield_short)
qed

theorem argument_transfer_witness:
  "\<exists>st1. cc_get_arg_native ref_wamr 2 100 64 demo_nstate = Some (0, st1)"
proof -
  have s: "cstr (arg_row zero_session 3) = []" "terminated (arg_row zero_session 3)"
    by (simp_all add: arg_row_def zero_session_def)
  show ?thesis
    using argument_transfer [OF ref_wamr_laws, of demo_nstate demo_inst zero_session 64 100 2 4 16]
      zero_session_ok(1) s
    by (auto simp: demo_nstate_def demo_inst_def simp flip: numeral_3_eq_3)
qed

text \<open>
  \<open>memcpy\<close> and \<open>memmove\<close> for the module agree and copy the original source bytes, for
  ranges inside the memory and any overlap; a range that leaves the memory makes the call
  return 0 with the memory as it was.
\<close>

theorem memmove_any_overlap:
  assumes "wamr_mem_laws W" and "ns_inst st = Some i" and "0 < unat n"
  shows "env_memcpy_native W d s n st = env_memmove_native W d s n st \<and>
     (unat d + unat n \<le> wi_size i \<and> unat s + unat n \<le> wi_size i \<longrightarrow>
        env_memmove_native W d s n st =
          Some (d, st\<lparr>ns_inst := Some (i\<lparr>wi_mem := store (unat d) (load (wi_mem i) (unat s) (unat n)) (wi_mem i)\<rparr>)\<rparr>)) \<and>
     (\<not> (unat d + unat n \<le> wi_size i \<and> unat s + unat n \<le> wi_size i) \<longrightarrow>
        (\<exists>j. env_memmove_native W d s n st = Some (0, st\<lparr>ns_inst := Some j\<rparr>) \<and> wi_mem j = wi_mem i))"
proof -
  have n: "n \<noteq> 0" using assms(3) by auto
  have bad: "\<exists>e. to_native W j off n = (None, j\<lparr>wi_exception := Some e\<rparr>)" if "\<not> unat off + unat n \<le> wi_size j" for j off
    using validate_bad [OF assms(1) that] n by (auto simp: to_native_def)
  have good: "to_native W j off n = (Some (unat off), j)" if "unat off + unat n \<le> wi_size j" for j off
    using to_native_ok [OF assms(1) that] that assms(3) by simp
  show ?thesis
  proof (cases "unat d + unat n \<le> wi_size i")
    case True
    show ?thesis
    proof (cases "unat s + unat n \<le> wi_size i")
      case s: True
      with True n assms(2) show ?thesis
        by (simp add: env_memcpy_eq_memmove env_memmove_native_def Let_def good)
    next
      case False
      with True n assms(2) bad [OF False] show ?thesis
        by (auto simp: env_memcpy_eq_memmove env_memmove_native_def Let_def good)
    qed
  next
    case False
    obtain e where e: "to_native W i d n = (None, i\<lparr>wi_exception := Some e\<rparr>)" using bad [OF False] by blast
    obtain x where "to_native W (i\<lparr>wi_exception := Some e\<rparr>) s n =
        (x, i\<lparr>wi_exception := Some e\<rparr>) \<or> (\<exists>f. to_native W (i\<lparr>wi_exception := Some e\<rparr>) s n = (None, i\<lparr>wi_exception := Some f\<rparr>))"
      using good [of s "i\<lparr>wi_exception := Some e\<rparr>"] bad [of s "i\<lparr>wi_exception := Some e\<rparr>"]
      by (cases "unat s + unat n \<le> wi_size i") auto
    with False n assms(2) e show ?thesis
      by (auto simp: env_memcpy_eq_memmove env_memmove_native_def Let_def)
  qed
qed

theorem memmove_any_overlap_witness:
  "env_memmove_native ref_wamr 101 100 8 demo_nstate = Some (101, demo_nstate\<lparr>ns_inst :=
     Some (demo_inst\<lparr>wi_mem := store 101 (load (wi_mem demo_inst) 100 8) (wi_mem demo_inst)\<rparr>)\<rparr>)"
  using memmove_any_overlap [OF ref_wamr_laws, of demo_nstate demo_inst 8 101 100]
  by (simp add: demo_nstate_def demo_inst_def)

end
