(* ===== verification/Coffee_Chaincode.thy ===== *)
theory Coffee_Chaincode
  imports Coffee_Util Native_Functions
begin

text \<open>
  \<open>src/wrapper_ta/chaincode/coffee_chaincode_wasm.c\<close>: the coffee-tracking chaincode, a
  resumable state machine that the TA drives through \<open>step_resume\<close>.

  The module's imports are a record of operations (\<open>cc_imports\<close>); the linker's addresses of
  its static buffers and string literals are a parameter (\<open>cc_layout\<close>), because the natives
  reach the buffers by address. The three integer statics are the module's private data. A
  native that raises a runtime exception traps the running WebAssembly function
  (\<open>call_import\<close>).
\<close>

section \<open>State\<close>

definition KEY_MAX :: nat where [simp]: "KEY_MAX = 64"
definition CC_ARG_MAX :: nat where [simp]: "CC_ARG_MAX = 64"
definition VAL_MAX :: nat where [simp]: "VAL_MAX = 256"

datatype cc_op = OP_NONE | OP_CREATE | OP_ADD | OP_QUERY

record cc_globals =
  fsm_state :: int
  current_op :: cc_op
  g_should_exit :: int

type_synonym cc_state = "cc_globals nstate"

record cc_layout =
  at_g_function :: u32
  at_g_arg0 :: u32
  at_g_arg1 :: u32
  at_g_person :: u32
  at_g_cur_val :: u32
  at_g_tmp :: u32
  at_lit :: "string \<Rightarrow> u32"

record cc_imports =
  cc_get_function :: "u32 \<Rightarrow> int \<Rightarrow> cc_state \<Rightarrow> (int \<times> cc_state) option"
  cc_get_arg :: "int \<Rightarrow> u32 \<Rightarrow> int \<Rightarrow> cc_state \<Rightarrow> (int \<times> cc_state) option"
  cc_get_state :: "u32 \<Rightarrow> int \<Rightarrow> u32 \<Rightarrow> int \<Rightarrow> cc_state \<Rightarrow> (int \<times> cc_state) option"
  cc_put_state :: "u32 \<Rightarrow> int \<Rightarrow> u32 \<Rightarrow> int \<Rightarrow> cc_state \<Rightarrow> (int \<times> cc_state) option"
  cc_return_response :: "u32 \<Rightarrow> int \<Rightarrow> cc_state \<Rightarrow> (int \<times> cc_state) option"

text \<open>The running function sees its own instance.\<close>

definition object_at :: "u32 \<Rightarrow> nat \<Rightarrow> cc_state \<Rightarrow> char list option" where
  "object_at a n st = do { i \<leftarrow> ns_inst st; lm_get (unat a) n i }"

definition write_object :: "u32 \<Rightarrow> nat \<Rightarrow> (lmem \<Rightarrow> lmem) \<Rightarrow> cc_state \<Rightarrow> cc_state option" where
  "write_object a n f st = do {
     i \<leftarrow> ns_inst st;
     (if unat a + n \<le> wi_size i then Some (st\<lparr>ns_inst := Some (i\<lparr>wi_mem := f (wi_mem i)\<rparr>)\<rparr>)
      else None)
   }"

definition clear_object :: "u32 \<Rightarrow> nat \<Rightarrow> cc_state \<Rightarrow> cc_state option" where
  "clear_object a n st = write_object a n (s_memset (unat a) 0 (int n)) st"

definition strlen_at :: "u32 \<Rightarrow> nat \<Rightarrow> cc_state \<Rightarrow> int option" where
  "strlen_at a n st = do { s \<leftarrow> object_at a n st; s_strlen (Some s) }"

definition globals_of :: "cc_state \<Rightarrow> cc_globals option" where
  "globals_of st = map_option wi_data (ns_inst st)"

definition set_globals :: "(cc_globals \<Rightarrow> cc_globals) \<Rightarrow> cc_state \<Rightarrow> cc_state" where
  "set_globals f st = st\<lparr>ns_inst := map_option (\<lambda>i. i\<lparr>wi_data := f (wi_data i)\<rparr>) (ns_inst st)\<rparr>"

definition trapped :: "cc_state \<Rightarrow> bool" where
  "trapped st \<longleftrightarrow> (case ns_inst st of None \<Rightarrow> False | Some i \<Rightarrow> wi_exception i \<noteq> None)"

definition call_import ::
  "(cc_state \<Rightarrow> (int \<times> cc_state) option) \<Rightarrow> (int \<Rightarrow> cc_state \<Rightarrow> cc_state option) \<Rightarrow>
   cc_state \<Rightarrow> cc_state option" where
  "call_import f k st = do { (r, st) \<leftarrow> f st; (if trapped st then Some st else k r st) }"

section \<open>The operations\<close>

definition finish_op :: "cc_state \<Rightarrow> cc_state option" where
  "finish_op st = Some (set_globals (\<lambda>g. g\<lparr>fsm_state := 0, current_op := OP_NONE\<rparr>) st)"
  \<comment> \<open>\<open>fsm_state = 0; current_op = OP_NONE; return;\<close>\<close>

definition respond :: "cc_imports \<Rightarrow> cc_layout \<Rightarrow> string \<Rightarrow> (cc_state \<Rightarrow> cc_state option) \<Rightarrow> cc_state \<Rightarrow> cc_state option" where
  "respond h L lit k st =
     call_import (cc_return_response h (at_lit L lit) (int (length lit))) (\<lambda>_. k) st"
  \<comment> \<open>\<open>cc_return_response ("LIT", strlen "LIT")\<close>\<close>

definition cc_do_create_init :: "cc_imports \<Rightarrow> cc_layout \<Rightarrow> cc_state \<Rightarrow> cc_state option" where
  "cc_do_create_init h L st = do {
     st \<leftarrow> clear_object (at_g_person L) KEY_MAX st;
     st \<leftarrow> clear_object (at_g_arg1 L) CC_ARG_MAX st;
     st \<leftarrow> clear_object (at_g_cur_val L) VAL_MAX st;
     call_import (cc_get_arg h 0 (at_g_person L) (int KEY_MAX)) (\<lambda>arg0_len.
     call_import (cc_get_arg h 1 (at_g_arg1 L) (int CC_ARG_MAX)) (\<lambda>arg1_len st. do {
       n \<leftarrow> strlen_at (at_g_person L) KEY_MAX st;
       call_import (cc_get_state h (at_g_person L) n (at_g_cur_val L) (int VAL_MAX)) (\<lambda>get_state_result st.
         if get_state_result > 0
         then Some (set_globals (\<lambda>g. g\<lparr>fsm_state := 11, g_should_exit := 1\<rparr>) st)
         else Some st) st
     })) st
   }"

definition cc_do_create_resume :: "cc_imports \<Rightarrow> cc_layout \<Rightarrow> cc_state \<Rightarrow> cc_state option" where
  "cc_do_create_resume h L st = do {
     g \<leftarrow> globals_of st;
     (if fsm_state g = 11 then do {
        cur \<leftarrow> object_at (at_g_cur_val L) VAL_MAX st;
        (if cur ! 0 \<noteq> NUL then respond h L ''EXIST'' finish_op st
         else do {
           kn \<leftarrow> strlen_at (at_g_person L) KEY_MAX st;
           vn \<leftarrow> strlen_at (at_g_arg1 L) CC_ARG_MAX st;
           call_import (cc_put_state h (at_g_person L) kn (at_g_arg1 L) vn)
             (\<lambda>_ st. Some (set_globals (\<lambda>g. g\<lparr>fsm_state := 12\<rparr>) st)) st
         })
      }
      else if fsm_state g = 12 then respond h L ''OK'' finish_op st
      else Some st)
   }"

definition cc_do_add_init :: "cc_imports \<Rightarrow> cc_layout \<Rightarrow> cc_state \<Rightarrow> cc_state option" where
  "cc_do_add_init h L st = do {
     st \<leftarrow> clear_object (at_g_person L) KEY_MAX st;
     st \<leftarrow> clear_object (at_g_arg1 L) CC_ARG_MAX st;
     st \<leftarrow> clear_object (at_g_cur_val L) VAL_MAX st;
     call_import (cc_get_arg h 0 (at_g_person L) (int KEY_MAX)) (\<lambda>_.
     call_import (cc_get_arg h 1 (at_g_arg1 L) (int CC_ARG_MAX)) (\<lambda>_ st. do {
       n \<leftarrow> strlen_at (at_g_person L) KEY_MAX st;
       call_import (cc_get_state h (at_g_person L) n (at_g_cur_val L) (int VAL_MAX)) (\<lambda>_ st.
         Some (set_globals (\<lambda>g. g\<lparr>fsm_state := 21\<rparr>) st)) st
     })) st
   }"

definition cc_do_add_resume :: "cc_imports \<Rightarrow> cc_layout \<Rightarrow> cc_state \<Rightarrow> cc_state option" where
  "cc_do_add_resume h L st = do {
     g \<leftarrow> globals_of st;
     (if fsm_state g = 21 then do {
        cur_val \<leftarrow> object_at (at_g_cur_val L) VAL_MAX st;
        (if cur_val ! 0 = NUL then respond h L ''EMPTY'' finish_op st
         else do {
           arg1 \<leftarrow> object_at (at_g_arg1 L) CC_ARG_MAX st;
           cur \<leftarrow> s_atoul (Some cur_val);
           add \<leftarrow> s_atoul (Some arg1);
           let nv = cur + add;
           st \<leftarrow> clear_object (at_g_tmp L) VAL_MAX st;
           st \<leftarrow> write_object (at_g_tmp L) VAL_MAX (s_ultoa nv (Some (unat (at_g_tmp L))) (int VAL_MAX)) st;
           kn \<leftarrow> strlen_at (at_g_person L) KEY_MAX st;
           vn \<leftarrow> strlen_at (at_g_tmp L) VAL_MAX st;
           call_import (cc_put_state h (at_g_person L) kn (at_g_tmp L) vn)
             (\<lambda>_ st. Some (set_globals (\<lambda>g. g\<lparr>fsm_state := 22\<rparr>) st)) st
         })
      }
      else if fsm_state g = 22 then respond h L ''OK'' finish_op st
      else Some st)
   }"

definition cc_do_query_init :: "cc_imports \<Rightarrow> cc_layout \<Rightarrow> cc_state \<Rightarrow> cc_state option" where
  "cc_do_query_init h L st = do {
     st \<leftarrow> clear_object (at_g_person L) KEY_MAX st;
     st \<leftarrow> clear_object (at_g_cur_val L) VAL_MAX st;
     call_import (cc_get_arg h 0 (at_g_person L) (int KEY_MAX)) (\<lambda>_ st. do {
       n \<leftarrow> strlen_at (at_g_person L) KEY_MAX st;
       call_import (cc_get_state h (at_g_person L) n (at_g_cur_val L) (int VAL_MAX)) (\<lambda>_ st.
         Some (set_globals (\<lambda>g. g\<lparr>fsm_state := 31\<rparr>) st)) st
     }) st
   }"

definition cc_do_query_resume :: "cc_imports \<Rightarrow> cc_layout \<Rightarrow> cc_state \<Rightarrow> cc_state option" where
  "cc_do_query_resume h L st = do {
     g \<leftarrow> globals_of st;
     (if fsm_state g = 31 then do {
        cur \<leftarrow> object_at (at_g_cur_val L) VAL_MAX st;
        (if cur ! 0 = NUL then respond h L ''NOTFOUND'' finish_op st
         else do {
           n \<leftarrow> strlen_at (at_g_cur_val L) VAL_MAX st;
           call_import (cc_return_response h (at_g_cur_val L) n) (\<lambda>_. finish_op) st
         })
      }
      else Some st)
   }"

definition step_init :: "cc_state \<Rightarrow> cc_state option" where
  "step_init st = Some st"

definition cc_main :: "cc_state \<Rightarrow> (int \<times> cc_state) option" where
  "cc_main st = do { st \<leftarrow> step_init st; Some (0, st) }"

text \<open>The two halves of \<open>step_resume\<close>: the dispatch on a new function, then the resumption.\<close>

definition step_resume_op :: "cc_imports \<Rightarrow> cc_layout \<Rightarrow> cc_state \<Rightarrow> cc_state option" where
  "step_resume_op h L st = do {
     g \<leftarrow> globals_of st;
     (case current_op g of
        OP_CREATE \<Rightarrow> cc_do_create_resume h L st
      | OP_ADD \<Rightarrow> cc_do_add_resume h L st
      | OP_QUERY \<Rightarrow> cc_do_query_resume h L st
      | OP_NONE \<Rightarrow> respond h L ''ERROR'' Some st)
   }"

definition step_resume_dispatch :: "cc_imports \<Rightarrow> cc_layout \<Rightarrow> cc_state \<Rightarrow> cc_state option" where
  "step_resume_dispatch h L st = do {
     fn \<leftarrow> object_at (at_g_function L) KEY_MAX st;
     (if fn ! 0 \<noteq> NUL then do {
        is_create \<leftarrow> s_streq fn (''create'' @ [NUL]);
        (if is_create then
           cc_do_create_init h L (set_globals (\<lambda>g. g\<lparr>current_op := OP_CREATE\<rparr>) st)
         else do {
           is_add \<leftarrow> s_streq fn (''add'' @ [NUL]);
           (if is_add then
              cc_do_add_init h L (set_globals (\<lambda>g. g\<lparr>current_op := OP_ADD\<rparr>) st)
            else do {
              is_query \<leftarrow> s_streq fn (''query'' @ [NUL]);
              (if is_query then
                 cc_do_query_init h L (set_globals (\<lambda>g. g\<lparr>current_op := OP_QUERY\<rparr>) st)
               else respond h L ''ERROR'' Some st)
            })
         })
      }
      else step_resume_op h L st)
   }"

definition step_resume :: "cc_imports \<Rightarrow> cc_layout \<Rightarrow> cc_state \<Rightarrow> cc_state option" where
  "step_resume h L st = do {
     let st = set_globals (\<lambda>g. g\<lparr>g_should_exit := 0\<rparr>) st;
     g \<leftarrow> globals_of st;
     (if current_op g = OP_NONE then do {
        fn \<leftarrow> object_at (at_g_function L) KEY_MAX st;
        (if fn ! 0 = NUL
         then call_import (cc_get_function h (at_g_function L) (int KEY_MAX))
                (\<lambda>_. step_resume_dispatch h L) st
         else step_resume_dispatch h L st)
      }
      else step_resume_op h L st)
   }"

section \<open>The buffers of a loaded module\<close>

text \<open>
  The abstract view of the memory: the bytes of each static buffer. A layout is acceptable
  when the buffers and the string literals lie inside the memory and do not overlap, and
  \<open>g_cur_val\<close> is not at offset 0 (the TA takes that offset for "no output buffer").
\<close>

datatype cc_buf = Function | Arg0 | Arg1 | Person | Cur_val | Tmp

primrec buf_addr :: "cc_layout \<Rightarrow> cc_buf \<Rightarrow> u32" where
  "buf_addr L Function = at_g_function L"
| "buf_addr L Arg0 = at_g_arg0 L"
| "buf_addr L Arg1 = at_g_arg1 L"
| "buf_addr L Person = at_g_person L"
| "buf_addr L Cur_val = at_g_cur_val L"
| "buf_addr L Tmp = at_g_tmp L"

primrec buf_len :: "cc_buf \<Rightarrow> nat" where
  "buf_len Function = 64"
| "buf_len Arg0 = 64"
| "buf_len Arg1 = 64"
| "buf_len Person = 64"
| "buf_len Cur_val = 256"
| "buf_len Tmp = 256"

definition all_bufs :: "cc_buf list" where
  "all_bufs = [Function, Arg0, Arg1, Person, Cur_val, Tmp]"

definition cc_literals :: "string list" where
  "cc_literals = [''EXIST'', ''OK'', ''EMPTY'', ''NOTFOUND'', ''ERROR'']"

definition layout_ok :: "cc_layout \<Rightarrow> nat \<Rightarrow> bool" where
  "layout_ok L sz \<longleftrightarrow>
     (\<forall>b \<in> set all_bufs. unat (buf_addr L b) + buf_len b \<le> sz) \<and>
     (\<forall>b \<in> set all_bufs. \<forall>c \<in> set all_bufs. b \<noteq> c \<longrightarrow>
        disjoint_regions (unat (buf_addr L b)) (buf_len b) (unat (buf_addr L c)) (buf_len c)) \<and>
     (\<forall>lit \<in> set cc_literals. unat (at_lit L lit) + length lit \<le> sz \<and>
        (\<forall>b \<in> set all_bufs.
           disjoint_regions (unat (buf_addr L b)) (buf_len b) (unat (at_lit L lit)) (length lit))) \<and>
     at_g_cur_val L \<noteq> 0"

definition contents :: "cc_layout \<Rightarrow> 'g wasm_inst \<Rightarrow> cc_buf \<Rightarrow> char list" where
  "contents L i b = load (wi_mem i) (unat (buf_addr L b)) (buf_len b)"

definition literals_loaded :: "cc_layout \<Rightarrow> 'g wasm_inst \<Rightarrow> bool" where
  "literals_loaded L i \<longleftrightarrow>
     (\<forall>lit \<in> set cc_literals. load (wi_mem i) (unat (at_lit L lit)) (length lit) = lit)"

definition cc_loaded :: "cc_layout \<Rightarrow> 'g wasm_inst \<Rightarrow> bool" where
  "cc_loaded L i \<longleftrightarrow> layout_ok L (wi_size i) \<and> literals_loaded L i \<and> wi_exception i = None"

lemma in_all_bufs [simp]: "b \<in> set all_bufs"
  by (cases b) (simp_all add: all_bufs_def)

lemma cc_loaded_bounds:
  assumes "cc_loaded L i"
  shows "unat (buf_addr L b) + buf_len b \<le> wi_size i"
  using assms by (auto simp: cc_loaded_def layout_ok_def)

lemma buf_len_pos [simp]: "0 < buf_len b"
  by (cases b) simp_all

lemma cc_loaded_start: "cc_loaded L i \<Longrightarrow> unat (buf_addr L b) < wi_size i"
  using cc_loaded_bounds [of L i b] buf_len_pos [of b] by linarith

lemma cc_loaded_exception [simp]: "cc_loaded L i \<Longrightarrow> wi_exception i = None"
  by (simp add: cc_loaded_def)

lemma length_contents [simp]: "length (contents L i b) = buf_len b"
  by (simp add: contents_def)

lemma contents_data [simp]: "contents L (i\<lparr>wi_data := g\<rparr>) = contents L i"
  by (simp add: contents_def fun_eq_iff)

lemma cc_loaded_data [simp]: "cc_loaded L (i\<lparr>wi_data := g\<rparr>) = cc_loaded L i"
  by (simp add: cc_loaded_def literals_loaded_def)

definition put_buf :: "cc_layout \<Rightarrow> cc_buf \<Rightarrow> char list \<Rightarrow> 'g wasm_inst \<Rightarrow> 'g wasm_inst" where
  "put_buf L b bs i = i\<lparr>wi_mem := store (unat (buf_addr L b)) bs (wi_mem i)\<rparr>"

lemma put_buf_fields [simp]:
  "wi_size (put_buf L b bs i) = wi_size i" "wi_data (put_buf L b bs i) = wi_data i"
  "wi_exception (put_buf L b bs i) = wi_exception i"
  by (simp_all add: put_buf_def)

lemma contents_put_buf [simp]:
  assumes "cc_loaded L i" and "length bs = buf_len b"
  shows "contents L (put_buf L b bs i) = (contents L i)(b := bs)"
proof (rule ext)
  fix c
  show "contents L (put_buf L b bs i) c = ((contents L i)(b := bs)) c"
  proof (cases "c = b")
    case True
    with assms(2) show ?thesis by (simp add: contents_def put_buf_def)
  next
    case False
    with assms have "disjoint_regions (unat (buf_addr L b)) (length bs) (unat (buf_addr L c)) (buf_len c)"
      by (auto simp: cc_loaded_def layout_ok_def)
    with False show ?thesis by (simp add: contents_def put_buf_def load_store_disjoint)
  qed
qed

lemma cc_loaded_put_buf [simp]:
  assumes "cc_loaded L i" and "length bs = buf_len b"
  shows "cc_loaded L (put_buf L b bs i)"
proof -
  have "load (store (unat (buf_addr L b)) bs (wi_mem i)) (unat (at_lit L lit)) (length lit)
      = load (wi_mem i) (unat (at_lit L lit)) (length lit)" if "lit \<in> set cc_literals" for lit
    using assms that by (intro load_store_disjoint) (simp add: cc_loaded_def layout_ok_def)
  with assms show ?thesis by (simp add: cc_loaded_def literals_loaded_def put_buf_def)
qed

lemmas cc_bounds_buf =
  cc_loaded_bounds [where b = Function, simplified] cc_loaded_bounds [where b = Arg1, simplified]
  cc_loaded_bounds [where b = Person, simplified] cc_loaded_bounds [where b = Cur_val, simplified]
  cc_loaded_bounds [where b = Tmp, simplified]

lemmas cc_start_buf =
  cc_loaded_start [where b = Function, simplified] cc_loaded_start [where b = Arg1, simplified]
  cc_loaded_start [where b = Person, simplified] cc_loaded_start [where b = Cur_val, simplified]
  cc_loaded_start [where b = Tmp, simplified]

lemma cc_loaded_literal:
  assumes "cc_loaded L i" and "lit \<in> set cc_literals"
  shows "unat (at_lit L lit) + length lit \<le> wi_size i" and "unat (at_lit L lit) < wi_size i"
    and "load (wi_mem i) (unat (at_lit L lit)) (length lit) = lit"
proof -
  show *: "unat (at_lit L lit) + length lit \<le> wi_size i"
    using assms by (simp add: cc_loaded_def layout_ok_def)
  have "0 < length lit" using assms(2) by (auto simp: cc_literals_def)
  with * show "unat (at_lit L lit) < wi_size i" by linarith
  show "load (wi_mem i) (unat (at_lit L lit)) (length lit) = lit"
    using assms by (simp add: cc_loaded_def literals_loaded_def)
qed

section \<open>The small operations on a running instance\<close>

definition atoul :: "char list \<Rightarrow> u32" where
  "atoul s = word_of_nat (dec_val (takeWhile is_digit s))"
  \<comment> \<open>the value \<open>s_atoul\<close> reads from a string: its leading digits, modulo \<open>2 ^ 32\<close>\<close>

lemma takeWhile_digit_replicate_NUL [simp]: "takeWhile is_digit (replicate n NUL) = []"
  by (cases n) auto

lemma s_atoul_cfield:
  assumes "nul_free s" and "0 < n"
  shows "s_atoul (Some (cfield n s)) = Some (atoul (take (n - 1) s))"
proof -
  have "takeWhile is_digit (cfield n s) = takeWhile is_digit (take (n - 1) s)"
  proof (cases "\<forall>c \<in> set (take (n - 1) s). is_digit c")
    case True
    then have "takeWhile is_digit (take (n - 1) s) = take (n - 1) s"
      by (simp only: takeWhile_eq_all_conv)
    moreover have "takeWhile is_digit (cfield n s) = take (n - 1) s @ takeWhile is_digit
        (replicate (n - length (take (n - 1) s)) NUL)"
      unfolding cfield_def using True by (intro takeWhile_append2) auto
    ultimately show ?thesis by (simp only: takeWhile_digit_replicate_NUL append_Nil2)
  next
    case False
    then show ?thesis unfolding cfield_def by (auto simp: takeWhile_append)
  qed
  with assms show ?thesis by (simp add: s_atoul_Some atoul_def)
qed

lemma cstr_field:
  "nul_free s \<Longrightarrow> cstr (cfield 64 s) = take 63 s" "nul_free s \<Longrightarrow> cstr (cfield 256 s) = take 255 s"
  using cstr_cfield [of s 64] cstr_cfield [of s 256] by simp_all

abbreviation cc_st :: "session \<Rightarrow> cc_globals wasm_inst \<Rightarrow> cc_state" where
  "cc_st sc i \<equiv> \<lparr>ns_sess = Some sc, ns_inst = Some i\<rparr>"

lemma object_at_buf:
  assumes "cc_loaded L i"
  shows "object_at (buf_addr L b) (buf_len b) (cc_st sc i) = Some (contents L i b)"
  using cc_loaded_bounds [OF assms] by (simp add: object_at_def contents_def)

lemma clear_object_buf:
  assumes "cc_loaded L i"
  shows "clear_object (buf_addr L b) (buf_len b) (cc_st sc i) =
    Some (cc_st sc (put_buf L b (replicate (buf_len b) NUL) i))"
  using cc_loaded_bounds [OF assms]
  by (simp add: clear_object_def write_object_def s_memset_zero put_buf_def)

lemma strlen_at_buf:
  assumes "cc_loaded L i" and "terminated (contents L i b)"
  shows "strlen_at (buf_addr L b) (buf_len b) (cc_st sc i) = Some (int (length (cstr (contents L i b))))"
  using assms by (simp add: strlen_at_def object_at_buf s_strlen_Some)

lemma write_object_ultoa:
  assumes "cc_loaded L i" and "contents L i Tmp = replicate 256 NUL"
  shows "write_object (at_g_tmp L) 256 (s_ultoa v (Some (unat (at_g_tmp L))) 256) (cc_st sc i) =
    Some (cc_st sc (put_buf L Tmp (cfield 256 (dec_str (unat v))) i))"
proof -
  let ?s = "dec_str (unat v) @ [NUL]" and ?a = "unat (at_g_tmp L)"
  have le: "length ?s \<le> 256" using length_dec_str_u32 [of v] by simp
  have "store ?a ?s (wi_mem i) = store ?a (cfield 256 (dec_str (unat v))) (wi_mem i)"
  proof (rule ext)
    fix x
    have "wi_mem i x = NUL" if "?a \<le> x" "x < ?a + 256"
    proof -
      have "load (wi_mem i) ?a 256 ! (x - ?a) = NUL"
        using assms(2) that by (simp add: contents_def)
      with that show ?thesis by simp
    qed
    with le show "store ?a ?s (wi_mem i) x = store ?a (cfield 256 (dec_str (unat v))) (wi_mem i) x"
      by (auto simp: store_def cfield_def nth_append)
  qed
  then show ?thesis
    using cc_bounds_buf(5) [OF assms(1)] by (simp add: write_object_def s_ultoa_store put_buf_def)
qed

lemmas buf_ops =
  object_at_buf [where b = Function, simplified] object_at_buf [where b = Cur_val, simplified]
  object_at_buf [where b = Arg1, simplified]
  clear_object_buf [where b = Person, simplified] clear_object_buf [where b = Arg1, simplified]
  clear_object_buf [where b = Cur_val, simplified] clear_object_buf [where b = Tmp, simplified]
  strlen_at_buf [where b = Person, simplified] strlen_at_buf [where b = Arg1, simplified]
  strlen_at_buf [where b = Cur_val, simplified] strlen_at_buf [where b = Tmp, simplified]

lemma set_globals_cc [simp]: "set_globals f (cc_st sc i) = cc_st sc (i\<lparr>wi_data := f (wi_data i)\<rparr>)"
  by (simp add: set_globals_def)

lemma globals_of_cc [simp]: "globals_of (cc_st sc i) = Some (wi_data i)"
  by (simp add: globals_of_def)

lemma trapped_cc [simp]: "trapped (cc_st sc i) \<longleftrightarrow> wi_exception i \<noteq> None"
  by (simp add: trapped_def)

section \<open>The import interface\<close>

text \<open>
  What the chaincode relies on: each import, called with buffers inside the memory, does
  exactly this to the session and the memory. \<open>runtime_ok\<close> is the provider's own condition
  (for the natives: the runtime's address functions behave as documented).
\<close>

locale coffee_imports =
  fixes h :: cc_imports and runtime_ok :: bool
  assumes get_function: "\<lbrakk>runtime_ok; ns_inst st = Some i; ns_sess st = Some sc; 0 < n; n < 2 ^ 31;
        unat p + n \<le> wi_size i; terminated (arg_row sc 0)\<rbrakk> \<Longrightarrow>
      \<exists>r. cc_get_function h p (int n) st = Some (r, st\<lparr>ns_inst :=
        Some (i\<lparr>wi_mem := store (unat p) (cfield n (cstr (arg_row sc 0))) (wi_mem i)\<rparr>)\<rparr>)"
    and get_arg: "\<lbrakk>runtime_ok; ns_inst st = Some i; ns_sess st = Some sc; 0 < n; n < 2 ^ 31;
        unat p + n \<le> wi_size i; k < 9; terminated (arg_row sc (k + 1))\<rbrakk> \<Longrightarrow>
      \<exists>r. cc_get_arg h (int k) p (int n) st = Some (r, st\<lparr>ns_inst :=
        Some (i\<lparr>wi_mem := store (unat p) (cfield n (cstr (arg_row sc (k + 1)))) (wi_mem i)\<rparr>)\<rparr>)"
    and get_state: "\<lbrakk>runtime_ok; ns_inst st = Some i; ns_sess st = Some sc; wf_session sc; 0 < n; n < 2 ^ 31;
        unat p + n \<le> wi_size i; kn < 2 ^ 31; unat kp + kn \<le> wi_size i; unat kp < wi_size i\<rbrakk> \<Longrightarrow>
      cc_get_state h kp (int kn) p (int n) st = Some (int (min kn 63),
        st\<lparr>ns_sess := Some (sc\<lparr>sc_key := cfield 64 (load (wi_mem i) (unat kp) kn),
          sc_pending_type := GET_STATE_REQUEST, sc_wasm_out_offset := p, sc_wasm_out_len := int n\<rparr>)\<rparr>)"
    and put_state: "\<lbrakk>runtime_ok; ns_inst st = Some i; ns_sess st = Some sc; wf_session sc;
        vn < 2 ^ 31; unat vp + vn \<le> wi_size i; unat vp < wi_size i;
        kn < 2 ^ 31; unat kp + kn \<le> wi_size i; unat kp < wi_size i\<rbrakk> \<Longrightarrow>
      \<exists>r. cc_put_state h kp (int kn) vp (int vn) st = Some (r,
        st\<lparr>ns_sess := Some (sc\<lparr>sc_key := cfield 64 (load (wi_mem i) (unat kp) kn),
          sc_value := cfield 256 (load (wi_mem i) (unat vp) vn),
          sc_pending_type := PUT_STATE_REQUEST, sc_wasm_out_offset := 0, sc_wasm_out_len := 0\<rparr>)\<rparr>)"
    and return_response: "\<lbrakk>runtime_ok; ns_inst st = Some i; ns_sess st = Some sc; wf_session sc;
        n < 2 ^ 31; unat p + n \<le> wi_size i; unat p < wi_size i\<rbrakk> \<Longrightarrow>
      \<exists>r. cc_return_response h p (int n) st = Some (r,
        st\<lparr>ns_sess := Some (sc\<lparr>sc_response := cfield 256 (load (wi_mem i) (unat p) n),
          sc_has_response := 1\<rparr>)\<rparr>)"

text \<open>The import table the TA links: the functions of \<open>chaincode_native_functions.c\<close>.\<close>

definition native_imports :: "cc_globals wamr_mem \<Rightarrow> cc_imports" where
  "native_imports W =
     \<lparr>cc_get_function = cc_get_function_native W, cc_get_arg = cc_get_arg_native W,
      cc_get_state = cc_get_state_native W, cc_put_state = cc_put_state_native W,
      cc_return_response = cc_return_response_native W\<rparr>"

interpretation ni: coffee_imports "native_imports W" "wamr_mem_laws W" for W
proof (unfold_locales, goal_cases)
  case (1 st i sc n p)
  then show ?case by (simp add: native_imports_def cc_get_function_native_ok)
next
  case (2 st i sc n p k)
  then show ?case by (simp add: native_imports_def cc_get_arg_native_ok)
next
  case (3 st i sc n p kn kp)
  then show ?case by (simp add: native_imports_def cc_get_state_native_ok)
next
  case (4 st i sc vn vp kn kp)
  then show ?case by (simp add: native_imports_def cc_put_state_native_ok)
next
  case (5 st i sc n p)
  then show ?case by (simp add: native_imports_def cc_return_response_native_ok)
qed


section \<open>The state machine over the import interface\<close>

text \<open>
  The operations in terms of the buffers' contents. \<open>cc_moves\<close> packages the outcome of a
  step: the new session and an instance with the given contents and statics.
\<close>

definition cc_moves ::
  "cc_layout \<Rightarrow> cc_state option \<Rightarrow> nat \<Rightarrow> session \<Rightarrow> (cc_buf \<Rightarrow> char list) \<Rightarrow> cc_globals \<Rightarrow> bool" where
  "cc_moves L r sz sc c g \<longleftrightarrow>
     (\<exists>i. r = Some (cc_st sc i) \<and> cc_loaded L i \<and> contents L i = c \<and> wi_data i = g \<and> wi_size i = sz)"

lemma cc_movesI:
  "cc_loaded L i \<Longrightarrow> contents L i = c \<Longrightarrow> wi_data i = g \<Longrightarrow> wi_size i = sz \<Longrightarrow>
   cc_moves L (Some (cc_st sc i)) sz sc c g"
  by (auto simp: cc_moves_def)

context coffee_imports
begin

lemma call_get_function:
  assumes "runtime_ok" and "cc_loaded L i" and "terminated (arg_row sc 0)"
  shows "call_import (cc_get_function h (at_g_function L) 64) (\<lambda>_. k) (cc_st sc i) =
    k (cc_st sc (put_buf L Function (cfield 64 (cstr (arg_row sc 0))) i))"
  using get_function [of "cc_st sc i" i sc 64 "at_g_function L"] assms cc_bounds_buf(1) [OF assms(2)]
  by (auto simp: call_import_def put_buf_def)

lemma call_get_arg0:
  assumes "runtime_ok" and "cc_loaded L i" and "terminated (arg_row sc 1)"
  shows "call_import (cc_get_arg h 0 (at_g_person L) 64) (\<lambda>_. k) (cc_st sc i) =
    k (cc_st sc (put_buf L Person (cfield 64 (cstr (arg_row sc 1))) i))"
  using get_arg [of "cc_st sc i" i sc 64 "at_g_person L" 0] assms cc_bounds_buf(3) [OF assms(2)]
  by (auto simp: call_import_def put_buf_def)

lemma call_get_arg1:
  assumes "runtime_ok" and "cc_loaded L i" and "terminated (arg_row sc 2)"
  shows "call_import (cc_get_arg h 1 (at_g_arg1 L) 64) (\<lambda>_. k) (cc_st sc i) =
    k (cc_st sc (put_buf L Arg1 (cfield 64 (cstr (arg_row sc 2))) i))"
  using get_arg [of "cc_st sc i" i sc 64 "at_g_arg1 L" 1] assms cc_bounds_buf(2) [OF assms(2)]
  by (auto simp: call_import_def put_buf_def simp flip: numeral_2_eq_2)

lemma call_get_state:
  assumes "runtime_ok" and "cc_loaded L i" and "wf_session sc" and "contents L i Person = cfield 64 s"
    and "nul_free s"
  shows "call_import (cc_get_state h (at_g_person L) (int (length (take 63 s))) (at_g_cur_val L) 256) k (cc_st sc i) =
    k (int (length (take 63 s))) (cc_st (sc\<lparr>sc_key := cfield 64 s,
          sc_pending_type := GET_STATE_REQUEST, sc_wasm_out_offset := at_g_cur_val L, sc_wasm_out_len := 256\<rparr>) i)"
proof -
  let ?n = "length (take 63 s)"
  have "load (wi_mem i) (unat (at_g_person L)) ?n = take ?n (contents L i Person)"
    by (simp add: contents_def take_load min_def)
  also have "\<dots> = take 63 s"
    unfolding assms(4) cfield_def by (simp add: min_def)
  finally have "cfield 64 (load (wi_mem i) (unat (at_g_person L)) ?n) = cfield 64 s"
    using cfield_take [of 64 s] by simp
  then show ?thesis
    using get_state [of "cc_st sc i" i sc 256 "at_g_cur_val L" ?n "at_g_person L"] assms(1,2,3)
      cc_bounds_buf [OF assms(2)] cc_start_buf [OF assms(2)]
    by (simp add: call_import_def min_def)
qed

lemma call_put_state:
  assumes "runtime_ok" and "cc_loaded L i" and "wf_session sc"
    and k: "contents L i Person = cfield 64 s" "nul_free s"
    and v: "contents L i b = cfield (buf_len b) u" "nul_free u" "length u < buf_len b"
  shows "call_import (cc_put_state h (at_g_person L) (int (length (take 63 s))) (buf_addr L b) (int (length u)))
      (\<lambda>_. j) (cc_st sc i) =
    j (cc_st (sc\<lparr>sc_key := cfield 64 s, sc_value := cfield 256 u,
          sc_pending_type := PUT_STATE_REQUEST, sc_wasm_out_offset := 0, sc_wasm_out_len := 0\<rparr>) i)"
proof -
  let ?n = "length (take 63 s)"
  have "load (wi_mem i) (unat (at_g_person L)) ?n = take ?n (contents L i Person)"
    by (simp add: contents_def take_load min_def)
  also have "\<dots> = take 63 s"
    unfolding k(1) cfield_def by (simp add: min_def)
  finally have key: "cfield 64 (load (wi_mem i) (unat (at_g_person L)) ?n) = cfield 64 s"
    using cfield_take [of 64 s] by simp
  have "load (wi_mem i) (unat (buf_addr L b)) (length u) = take (length u) (contents L i b)"
    using v(3) by (simp add: contents_def take_load)
  also have "\<dots> = u"
    unfolding v(1) using v(3) by (simp add: cfield_short)
  finally have val: "load (wi_mem i) (unat (buf_addr L b)) (length u) = u" .
  have b: "length u < 256" "unat (buf_addr L b) + length u \<le> wi_size i"
    using v(3) cc_loaded_bounds [OF assms(2), of b] by (cases b; simp)+
  show ?thesis
    using put_state [of "cc_st sc i" i sc "length u" "buf_addr L b" ?n "at_g_person L"] assms(1,2,3) b key val
      cc_bounds_buf [OF assms(2)] cc_start_buf [OF assms(2)] cc_loaded_start [OF assms(2), of b]
    by (auto simp: call_import_def min_def)
qed

lemma respond_literal:
  assumes "runtime_ok" and "cc_loaded L i" and "wf_session sc" and "lit \<in> set cc_literals"
  shows "respond h L lit k (cc_st sc i) =
    k (cc_st (sc\<lparr>sc_response := cfield 256 lit, sc_has_response := 1\<rparr>) i)"
proof -
  have "length lit < 2 ^ 31" using assms(4) by (auto simp: cc_literals_def)
  then show ?thesis
    using return_response [of "cc_st sc i" i sc "length lit" "at_lit L lit"] assms
      cc_loaded_literal [OF assms(2,4)]
    by (auto simp: respond_def call_import_def)
qed

lemma call_return_cur_val:
  assumes "runtime_ok" and "cc_loaded L i" and "wf_session sc"
    and v: "contents L i Cur_val = cfield 256 u" "nul_free u" "length u < 256"
  shows "call_import (cc_return_response h (at_g_cur_val L) (int (length u))) (\<lambda>_. k) (cc_st sc i) =
    k (cc_st (sc\<lparr>sc_response := cfield 256 u, sc_has_response := 1\<rparr>) i)"
proof -
  have "load (wi_mem i) (unat (at_g_cur_val L)) (length u) = take (length u) (contents L i Cur_val)"
    using v(3) by (simp add: contents_def take_load)
  also have "\<dots> = u"
    unfolding v(1) using v(3) by (simp add: cfield_short)
  finally show ?thesis
    using return_response [of "cc_st sc i" i sc "length u" "at_g_cur_val L"] assms(1,2,3) v(3)
      cc_bounds_buf(4) [OF assms(2)] cc_start_buf(4) [OF assms(2)]
    by (auto simp: call_import_def)
qed

lemmas call_simps = call_get_function call_get_arg0 call_get_arg1 respond_literal

lemma create_init:
  assumes "runtime_ok" and "cc_loaded L i" and "wf_session sc"
    and "terminated (arg_row sc 1)" and "terminated (arg_row sc 2)"
  shows "cc_moves L (cc_do_create_init h L (cc_st sc i)) (wi_size i)
     (sc\<lparr>sc_key := cfield 64 (cstr (arg_row sc 1)), sc_pending_type := GET_STATE_REQUEST,
         sc_wasm_out_offset := at_g_cur_val L, sc_wasm_out_len := 256\<rparr>)
     ((contents L i)(Person := cfield 64 (cstr (arg_row sc 1)), Arg1 := cfield 64 (cstr (arg_row sc 2)),
         Cur_val := replicate 256 NUL))
     (if cstr (arg_row sc 1) = [] then wi_data i else (wi_data i)\<lparr>fsm_state := 11, g_should_exit := 1\<rparr>)"
  using assms
  by (auto simp: cc_do_create_init_def buf_ops call_simps cstr_field
      call_get_state [where s = "cstr (arg_row sc 1)"] fun_upd_twist
      simp del: length_take One_nat_def intro!: cc_movesI)

lemma add_init:
  assumes "runtime_ok" and "cc_loaded L i" and "wf_session sc"
    and "terminated (arg_row sc 1)" and "terminated (arg_row sc 2)"
  shows "cc_moves L (cc_do_add_init h L (cc_st sc i)) (wi_size i)
     (sc\<lparr>sc_key := cfield 64 (cstr (arg_row sc 1)), sc_pending_type := GET_STATE_REQUEST,
         sc_wasm_out_offset := at_g_cur_val L, sc_wasm_out_len := 256\<rparr>)
     ((contents L i)(Person := cfield 64 (cstr (arg_row sc 1)), Arg1 := cfield 64 (cstr (arg_row sc 2)),
         Cur_val := replicate 256 NUL))
     ((wi_data i)\<lparr>fsm_state := 21\<rparr>)"
  using assms
  by (auto simp: cc_do_add_init_def buf_ops call_simps cstr_field
      call_get_state [where s = "cstr (arg_row sc 1)"] fun_upd_twist
      simp del: length_take One_nat_def intro!: cc_movesI)

lemma query_init:
  assumes "runtime_ok" and "cc_loaded L i" and "wf_session sc" and "terminated (arg_row sc 1)"
  shows "cc_moves L (cc_do_query_init h L (cc_st sc i)) (wi_size i)
     (sc\<lparr>sc_key := cfield 64 (cstr (arg_row sc 1)), sc_pending_type := GET_STATE_REQUEST,
         sc_wasm_out_offset := at_g_cur_val L, sc_wasm_out_len := 256\<rparr>)
     ((contents L i)(Person := cfield 64 (cstr (arg_row sc 1)), Cur_val := replicate 256 NUL))
     ((wi_data i)\<lparr>fsm_state := 31\<rparr>)"
  using assms
  by (auto simp: cc_do_query_init_def buf_ops call_simps cstr_field
      call_get_state [where s = "cstr (arg_row sc 1)"] fun_upd_twist
      simp del: length_take One_nat_def intro!: cc_movesI)

lemma finish_with_response:
  assumes "runtime_ok" and "cc_loaded L i" and "wf_session sc" and "lit \<in> set cc_literals"
  shows "cc_moves L (respond h L lit finish_op (cc_st sc i)) (wi_size i)
     (sc\<lparr>sc_response := cfield 256 lit, sc_has_response := 1\<rparr>) (contents L i)
     ((wi_data i)\<lparr>fsm_state := 0, current_op := OP_NONE\<rparr>)"
  using assms by (auto simp: respond_literal finish_op_def intro!: cc_movesI)

lemma create_resume_exists:
  assumes "runtime_ok" and "cc_loaded L i" and "wf_session sc" and "fsm_state (wi_data i) = 11"
    and "contents L i Cur_val = cfield 256 u" and "nul_free u" and "u \<noteq> []"
  shows "cc_moves L (cc_do_create_resume h L (cc_st sc i)) (wi_size i)
     (sc\<lparr>sc_response := cfield 256 ''EXIST'', sc_has_response := 1\<rparr>) (contents L i)
     ((wi_data i)\<lparr>fsm_state := 0, current_op := OP_NONE\<rparr>)"
  using assms finish_with_response [of L i sc "''EXIST''"] cfield_first [of u 256]
  by (simp add: cc_do_create_resume_def buf_ops cc_literals_def)

lemma create_resume_put:
  assumes "runtime_ok" and "cc_loaded L i" and "wf_session sc" and "fsm_state (wi_data i) = 11"
    and "contents L i Cur_val = replicate 256 NUL"
    and p: "contents L i Person = cfield 64 s" "nul_free s"
    and v: "contents L i Arg1 = cfield 64 v" "nul_free v"
  shows "cc_moves L (cc_do_create_resume h L (cc_st sc i)) (wi_size i)
     (sc\<lparr>sc_key := cfield 64 s, sc_value := cfield 256 (take 63 v), sc_pending_type := PUT_STATE_REQUEST,
         sc_wasm_out_offset := 0, sc_wasm_out_len := 0\<rparr>) (contents L i)
     ((wi_data i)\<lparr>fsm_state := 12\<rparr>)"
proof -
  have "contents L i Arg1 = cfield (buf_len Arg1) (take 63 v)"
    using v(1) cfield_take [of 64 v] by simp
  then have "call_import (cc_put_state h (at_g_person L) (int (length (take 63 s))) (buf_addr L Arg1)
      (int (length (take 63 v)))) (\<lambda>_. j) (cc_st sc i) = j (cc_st (sc\<lparr>sc_key := cfield 64 s,
        sc_value := cfield 256 (take 63 v), sc_pending_type := PUT_STATE_REQUEST,
        sc_wasm_out_offset := 0, sc_wasm_out_len := 0\<rparr>) i)" for j
    using assms by (intro call_put_state) auto
  with assms show ?thesis
    by (auto simp: cc_do_create_resume_def buf_ops cstr_field simp del: length_take intro!: cc_movesI)
qed

lemma create_resume_done:
  assumes "runtime_ok" and "cc_loaded L i" and "wf_session sc" and "fsm_state (wi_data i) = 12"
  shows "cc_moves L (cc_do_create_resume h L (cc_st sc i)) (wi_size i)
     (sc\<lparr>sc_response := cfield 256 ''OK'', sc_has_response := 1\<rparr>) (contents L i)
     ((wi_data i)\<lparr>fsm_state := 0, current_op := OP_NONE\<rparr>)"
  using assms finish_with_response [of L i sc "''OK''"]
  by (simp add: cc_do_create_resume_def cc_literals_def)

lemma add_resume_empty:
  assumes "runtime_ok" and "cc_loaded L i" and "wf_session sc" and "fsm_state (wi_data i) = 21"
    and "contents L i Cur_val = replicate 256 NUL"
  shows "cc_moves L (cc_do_add_resume h L (cc_st sc i)) (wi_size i)
     (sc\<lparr>sc_response := cfield 256 ''EMPTY'', sc_has_response := 1\<rparr>) (contents L i)
     ((wi_data i)\<lparr>fsm_state := 0, current_op := OP_NONE\<rparr>)"
  using assms finish_with_response [of L i sc "''EMPTY''"]
  by (simp add: cc_do_add_resume_def buf_ops cc_literals_def)

lemma add_resume_put:
  assumes "runtime_ok" and "cc_loaded L i" and "wf_session sc" and "fsm_state (wi_data i) = 21"
    and u: "contents L i Cur_val = cfield 256 u" "nul_free u" "u \<noteq> []"
    and p: "contents L i Person = cfield 64 s" "nul_free s"
    and v: "contents L i Arg1 = cfield 64 v" "nul_free v"
  shows "cc_moves L (cc_do_add_resume h L (cc_st sc i)) (wi_size i)
     (sc\<lparr>sc_key := cfield 64 s, sc_value := cfield 256 (dec_str (unat (atoul (take 255 u) + atoul (take 63 v)))),
         sc_pending_type := PUT_STATE_REQUEST, sc_wasm_out_offset := 0, sc_wasm_out_len := 0\<rparr>)
     ((contents L i)(Tmp := cfield 256 (dec_str (unat (atoul (take 255 u) + atoul (take 63 v))))))
     ((wi_data i)\<lparr>fsm_state := 22\<rparr>)"
proof -
  define nv where "nv = atoul (take 255 u) + atoul (take 63 v)"
  let ?d = "dec_str (unat nv)"
  define i' where "i' = put_buf L Tmp (cfield 256 ?d) (put_buf L Tmp (replicate 256 NUL) i)"
  have len: "length ?d < 256" using length_dec_str_u32 [of nv] by simp
  have i': "cc_loaded L i'" "contents L i' = (contents L i)(Tmp := cfield 256 ?d)"
    "wi_data i' = wi_data i" "wi_size i' = wi_size i"
    using assms(2) by (simp_all add: i'_def)
  have "call_import (cc_put_state h (at_g_person L) (int (length (take 63 s))) (buf_addr L Tmp)
      (int (length ?d))) (\<lambda>_. j) (cc_st sc i') = j (cc_st (sc\<lparr>sc_key := cfield 64 s,
        sc_value := cfield 256 ?d, sc_pending_type := PUT_STATE_REQUEST,
        sc_wasm_out_offset := 0, sc_wasm_out_len := 0\<rparr>) i')" for j
    using assms i' len by (intro call_put_state) auto
  moreover have "s_atoul (Some (cfield 256 u)) = Some (atoul (take 255 u))"
    "s_atoul (Some (cfield 64 v)) = Some (atoul (take 63 v))"
    using s_atoul_cfield [OF u(2), of 256] s_atoul_cfield [OF v(2), of 64] by simp_all
  moreover have "write_object (at_g_tmp L) 256 (s_ultoa nv (Some (unat (at_g_tmp L))) 256)
      (cc_st sc (put_buf L Tmp (replicate 256 NUL) i)) = Some (cc_st sc i')"
    unfolding i'_def using assms(2) by (intro write_object_ultoa) auto
  ultimately show ?thesis
    using assms i' len cfield_first [of u 256]
    by (auto simp: cc_do_add_resume_def buf_ops cstr_field Let_def cstr_cfield_short
        simp del: length_take simp flip: nv_def intro!: cc_movesI)
qed

lemma add_resume_done:
  assumes "runtime_ok" and "cc_loaded L i" and "wf_session sc" and "fsm_state (wi_data i) = 22"
  shows "cc_moves L (cc_do_add_resume h L (cc_st sc i)) (wi_size i)
     (sc\<lparr>sc_response := cfield 256 ''OK'', sc_has_response := 1\<rparr>) (contents L i)
     ((wi_data i)\<lparr>fsm_state := 0, current_op := OP_NONE\<rparr>)"
  using assms finish_with_response [of L i sc "''OK''"]
  by (simp add: cc_do_add_resume_def cc_literals_def)

lemma query_resume_missing:
  assumes "runtime_ok" and "cc_loaded L i" and "wf_session sc" and "fsm_state (wi_data i) = 31"
    and "contents L i Cur_val = replicate 256 NUL"
  shows "cc_moves L (cc_do_query_resume h L (cc_st sc i)) (wi_size i)
     (sc\<lparr>sc_response := cfield 256 ''NOTFOUND'', sc_has_response := 1\<rparr>) (contents L i)
     ((wi_data i)\<lparr>fsm_state := 0, current_op := OP_NONE\<rparr>)"
  using assms finish_with_response [of L i sc "''NOTFOUND''"]
  by (simp add: cc_do_query_resume_def buf_ops cc_literals_def)

lemma query_resume_found:
  assumes "runtime_ok" and "cc_loaded L i" and "wf_session sc" and "fsm_state (wi_data i) = 31"
    and u: "contents L i Cur_val = cfield 256 u" "nul_free u" "u \<noteq> []" "length u < 256"
  shows "cc_moves L (cc_do_query_resume h L (cc_st sc i)) (wi_size i)
     (sc\<lparr>sc_response := cfield 256 u, sc_has_response := 1\<rparr>) (contents L i)
     ((wi_data i)\<lparr>fsm_state := 0, current_op := OP_NONE\<rparr>)"
  using assms cfield_first [of u 256]
  by (auto simp: cc_do_query_resume_def buf_ops cstr_cfield_short call_return_cur_val finish_op_def
      intro!: cc_movesI)

lemma resume_running:
  assumes "current_op (wi_data i) \<noteq> OP_NONE"
  shows "step_resume h L (cc_st sc i) =
     (case current_op (wi_data i) of
        OP_CREATE \<Rightarrow> cc_do_create_resume h L (cc_st sc (i\<lparr>wi_data := (wi_data i)\<lparr>g_should_exit := 0\<rparr>\<rparr>))
      | OP_ADD \<Rightarrow> cc_do_add_resume h L (cc_st sc (i\<lparr>wi_data := (wi_data i)\<lparr>g_should_exit := 0\<rparr>\<rparr>))
      | OP_QUERY \<Rightarrow> cc_do_query_resume h L (cc_st sc (i\<lparr>wi_data := (wi_data i)\<lparr>g_should_exit := 0\<rparr>\<rparr>)))"
  using assms by (auto simp: step_resume_def step_resume_op_def split: cc_op.splits)

lemma dispatch:
  assumes "cc_loaded L i" and "contents L i Function = cfield 64 f" and "nul_free f" and "f \<noteq> []"
  shows "step_resume_dispatch h L (cc_st sc i) =
     (if take 63 f = ''create'' then cc_do_create_init h L (cc_st sc (i\<lparr>wi_data := (wi_data i)\<lparr>current_op := OP_CREATE\<rparr>\<rparr>))
      else if take 63 f = ''add'' then cc_do_add_init h L (cc_st sc (i\<lparr>wi_data := (wi_data i)\<lparr>current_op := OP_ADD\<rparr>\<rparr>))
      else if take 63 f = ''query'' then cc_do_query_init h L (cc_st sc (i\<lparr>wi_data := (wi_data i)\<lparr>current_op := OP_QUERY\<rparr>\<rparr>))
      else respond h L ''ERROR'' Some (cc_st sc i))"
proof -
  have eq: "s_streq (cfield 64 f) (lit @ [NUL]) = Some (take 63 f = lit)" if "nul_free lit" for lit
    using that assms(3) by (simp add: s_streq_terminated cstr_field cstr_append)
  have lits: "s_streq (cfield 64 f) (''create'' @ [NUL]) = Some (take 63 f = ''create'')"
    "s_streq (cfield 64 f) (''add'' @ [NUL]) = Some (take 63 f = ''add'')"
    "s_streq (cfield 64 f) (''query'' @ [NUL]) = Some (take 63 f = ''query'')"
    by (rule eq, simp)+
  show ?thesis
    using assms cfield_first [of f 64]
    by (simp add: step_resume_dispatch_def buf_ops lits [simplified])
qed

lemma first_step:
  assumes "runtime_ok" and "cc_loaded L i" and "current_op (wi_data i) = OP_NONE"
    and "contents L i Function = replicate 64 NUL" and "terminated (arg_row sc 0)"
  shows "step_resume h L (cc_st sc i) =
     step_resume_dispatch h L (cc_st sc (put_buf L Function (cfield 64 (cstr (arg_row sc 0)))
        (i\<lparr>wi_data := (wi_data i)\<lparr>g_should_exit := 0\<rparr>\<rparr>)))"
  using assms by (simp add: step_resume_def buf_ops call_get_function)

lemma first_step_no_function:
  assumes "runtime_ok" and "cc_loaded L i" and "current_op (wi_data i) = OP_NONE" and "wf_session sc"
    and "contents L i Function = replicate 64 NUL" and "terminated (arg_row sc 0)"
    and "cstr (arg_row sc 0) = []"
  shows "cc_moves L (step_resume h L (cc_st sc i)) (wi_size i)
     (sc\<lparr>sc_response := cfield 256 ''ERROR'', sc_has_response := 1\<rparr>)
     (contents L i) ((wi_data i)\<lparr>g_should_exit := 0\<rparr>)"
  using assms
  by (auto simp: first_step step_resume_dispatch_def step_resume_op_def buf_ops respond_literal cc_literals_def
      fun_upd_idem intro!: cc_movesI)

end

end
