(* ===== verification/Wamr_Runtime.thy ===== *)
theory Wamr_Runtime
  imports Native_Functions
begin

text \<open>
  \<open>src/wrapper_ta/ta/wasm.c\<close> and \<open>include/wasm.h\<close>: the TA's wrapper around WAMR, the
  WebAssembly runtime. WAMR and the TEE crypto operations are not part of the repository;
  they are the fields of the parameter records \<open>wamr_api\<close> and \<open>tee_digest\<close>. Opaque handles
  (modules, functions, execution environments, operations) are numbers, \<^term>\<open>None\<close> is \<open>NULL\<close>.
  Log output is left out.
\<close>

datatype TEE_Result =
    TEE_SUCCESS
  | TEE_ERROR_GENERIC
  | TEE_ERROR_BAD_PARAMETERS
  | TEE_ERROR_OUT_OF_MEMORY
  | TEE_ERROR_OTHER u32

definition RA_HASH_SIZE :: nat where [simp]: "RA_HASH_SIZE = 256"

record 'g wamr_context =
  wc_wasm_bytecode :: "char list"
  wc_wasm_bytecode_size :: nat
  wc_wasm_bytecode_hash :: "char list"
  wc_heap_buf :: "nat option"
  wc_heap_size :: u32
  wc_module :: "nat option"
  wc_module_inst :: "'g wasm_inst option"
  wc_exec_env :: "nat option"
  wc_native_symbols :: "'g native_symbol list"

record 'g runtime_init_args =
  ia_heap_buf :: "nat option"
  ia_heap_size :: u32
  ia_n_native_symbols :: nat
  ia_native_module_name :: string
  ia_native_symbols :: "'g native_symbol list"

record 'g wamr_api =
  rt_mem :: "'g wamr_mem"
  wasm_runtime_full_init :: "'g runtime_init_args \<Rightarrow> bool"
  wasm_runtime_load :: "char list \<Rightarrow> nat \<Rightarrow> nat option"
  wasm_runtime_instantiate :: "nat \<Rightarrow> nat \<Rightarrow> nat \<Rightarrow> 'g wasm_inst option"
  wasm_runtime_lookup_function :: "'g wasm_inst \<Rightarrow> string \<Rightarrow> nat option"
  wasm_runtime_create_exec_env :: "'g wasm_inst \<Rightarrow> nat \<Rightarrow> nat option"
  wasm_runtime_call_wasm :: "nat \<Rightarrow> nat \<Rightarrow> 'g nstate \<Rightarrow> (bool \<times> 'g nstate) option"
  wasm_application_execute_main :: "'g nstate \<Rightarrow> (bool \<times> 'g nstate) option"

record tee_digest =
  TEE_AllocateOperation :: "TEE_Result \<times> nat"
  TEE_DigestDoFinal :: "nat \<Rightarrow> char list \<Rightarrow> nat \<Rightarrow> nat \<Rightarrow> TEE_Result \<times> char list"
    \<comment> \<open>handle, data, length, capacity of the output buffer; the digest has the returned length\<close>

section \<open>Definitions\<close>

text \<open>
  \<open>utils_print_byte_array\<close> (debug builds only). \<open>snprintf (buf + cur, len - cur, "%02x ", b)\<close>
  writes at most \<open>len - cur\<close> bytes and returns 3. The final \<open>buffer[buffer_cursor] = 0\<close> is
  the bounded write at the end; the result is the buffer before it is freed.
\<close>

definition hex_digit :: "nat \<Rightarrow> char" where
  "hex_digit d = (''0123456789abcdef'' ! d)"

definition snprintf_02x :: "nat \<Rightarrow> char \<Rightarrow> char list \<Rightarrow> char list option" where
  "snprintf_02x cur b buf =
     (let n = length buf - cur;
          out = [hex_digit (of_char b div 16), hex_digit (of_char b mod 16), CHR '' '']
      in if n = 0 then Some buf else buf_write cur (take (n - 1) out @ [NUL]) buf)"

primrec print_byte_loop :: "char list \<Rightarrow> nat \<Rightarrow> char list \<Rightarrow> (nat \<times> char list) option" where
  "print_byte_loop [] cur buf = Some (cur, buf)"
| "print_byte_loop (b # bs) cur buf = do { buf \<leftarrow> snprintf_02x cur b buf; print_byte_loop bs (cur + 3) buf }"

definition utils_print_byte_array :: "char list \<Rightarrow> char list option" where
  "utils_print_byte_array byte_array = do {
     let buffer_len = 2 * length byte_array + length byte_array;
     (buffer_cursor, buffer) \<leftarrow> print_byte_loop byte_array 0 (replicate buffer_len NUL);
     buf_write buffer_cursor [NUL] buffer
   }"

text \<open>
  \<open>TA_HashWasmBytecode\<close>. On a failed allocation the handle that \<open>out:\<close> frees was never
  written: no defined result. The digest is written into the 32-byte hash field.
\<close>

definition TA_HashWasmBytecode ::
  "tee_digest \<Rightarrow> 'g wamr_context \<Rightarrow> (TEE_Result \<times> 'g wamr_context) option" where
  "TA_HashWasmBytecode D ctx =
     (let expected_digest_len = RA_HASH_SIZE div 8; capacity = RA_HASH_SIZE;
          (res, operation_handle) = TEE_AllocateOperation D
      in if res \<noteq> TEE_SUCCESS then None
         else
           let (res, digest) = TEE_DigestDoFinal D operation_handle (wc_wasm_bytecode ctx)
                 (wc_wasm_bytecode_size ctx) capacity
           in if res \<noteq> TEE_SUCCESS then Some (res, ctx)
              else do {
                hash \<leftarrow> buf_write 0 digest (wc_wasm_bytecode_hash ctx);
                let ctx = ctx\<lparr>wc_wasm_bytecode_hash := hash\<rparr>;
                Some (if length digest \<noteq> expected_digest_len then TEE_ERROR_GENERIC else TEE_SUCCESS, ctx)
              })"

text \<open>The result, the context, and whether \<open>singleton_wamr_context\<close> was set to it.\<close>

definition TA_InitializeWamrRuntime ::
  "'g wamr_api \<Rightarrow> 'g wamr_context \<Rightarrow> TEE_Result \<times> 'g wamr_context \<times> bool" where
  "TA_InitializeWamrRuntime A context0 =
     (let init_args = \<lparr>ia_heap_buf = wc_heap_buf context0, ia_heap_size = wc_heap_size context0,
            ia_n_native_symbols = length (wc_native_symbols context0),
            ia_native_module_name = ''env'', ia_native_symbols = wc_native_symbols context0\<rparr>
      in if \<not> wasm_runtime_full_init A init_args then (TEE_ERROR_GENERIC, context0, False)
         else case wasm_runtime_load A (wc_wasm_bytecode context0) (wc_wasm_bytecode_size context0) of
           None \<Rightarrow> (TEE_ERROR_GENERIC, context0\<lparr>wc_module := None\<rparr>, False)
         | Some module_handle \<Rightarrow>
             let context1 = context0\<lparr>wc_module := Some module_handle\<rparr>
             in case wasm_runtime_instantiate A module_handle (256 * 1024) (64 * 1024) of
               None \<Rightarrow> (TEE_ERROR_GENERIC, context1\<lparr>wc_module_inst := None\<rparr>, False)
             | Some inst \<Rightarrow> (TEE_SUCCESS, context1\<lparr>wc_module_inst := Some inst\<rparr>, True))"

definition strstr :: "string \<Rightarrow> string \<Rightarrow> bool" where
  "strstr s t \<longleftrightarrow> (\<exists>k \<in> set [0..<Suc (length s)]. take (length t) (drop k s) = t)"

text \<open>
  \<open>TA_ExecuteWamrRuntime\<close>: the \<open>main\<close> export first, then the fallback names in order (a
  failed call goes on to the next name), then the runtime's own entry point, where an "out
  of bounds" exception counts as success. A call without an execution environment has no
  defined result.
\<close>

primrec execute_fallbacks ::
  "'g wamr_api \<Rightarrow> 'g wamr_context \<Rightarrow> string list \<Rightarrow> session option \<Rightarrow>
   (bool \<times> 'g wamr_context \<times> session option) option" where
  "execute_fallbacks A context [] sess = Some (False, context, sess)"
| "execute_fallbacks A context (name # names) sess = do {
     inst \<leftarrow> wc_module_inst context;
     (case wasm_runtime_lookup_function A inst name of
        None \<Rightarrow> execute_fallbacks A context names sess
      | Some start_func \<Rightarrow> do {
          env \<leftarrow> wc_exec_env context;
          (ok, st) \<leftarrow> wasm_runtime_call_wasm A env start_func \<lparr>ns_sess = sess, ns_inst = Some inst\<rparr>;
          let context = context\<lparr>wc_module_inst := ns_inst st\<rparr>;
          (if ok then Some (True, context, ns_sess st) else execute_fallbacks A context names (ns_sess st))
        })
   }"

definition TA_ExecuteWamrRuntime ::
  "'g wamr_api \<Rightarrow> 'g wamr_context \<Rightarrow> session option \<Rightarrow>
   (TEE_Result \<times> 'g wamr_context \<times> session option) option" where
  "TA_ExecuteWamrRuntime A context sess = do {
     inst \<leftarrow> wc_module_inst context;
     (case wasm_runtime_lookup_function A inst ''main'' of
        Some main_func \<Rightarrow> do {
          env \<leftarrow> wc_exec_env context;
          (ok, st) \<leftarrow> wasm_runtime_call_wasm A env main_func \<lparr>ns_sess = sess, ns_inst = Some inst\<rparr>;
          Some (if ok then TEE_SUCCESS else TEE_ERROR_GENERIC,
                context\<lparr>wc_module_inst := ns_inst st\<rparr>, ns_sess st)
        }
      | None \<Rightarrow> do {
          (done, context, sess) \<leftarrow> execute_fallbacks A context [''_start'', ''_main'', ''start''] sess;
          (if done then Some (TEE_SUCCESS, context, sess)
           else do {
             (ok, st) \<leftarrow> wasm_application_execute_main A \<lparr>ns_sess = sess, ns_inst = wc_module_inst context\<rparr>;
             let context = context\<lparr>wc_module_inst := ns_inst st\<rparr>;
             inst \<leftarrow> ns_inst st;
             Some (if ok then TEE_SUCCESS
                   else case wi_exception inst of
                     Some ex \<Rightarrow> if strstr ex ''out of bounds'' then TEE_SUCCESS else TEE_ERROR_GENERIC
                   | None \<Rightarrow> TEE_ERROR_GENERIC,
                   context, ns_sess st)
           })
        })
   }"

text \<open>\<open>TA_TearDownWamrRuntime\<close>: the runtime calls it makes, in order, and the new context.\<close>

datatype teardown_call = Destroy_exec_env nat | Deinstantiate | Unload nat | Runtime_destroy

definition TA_TearDownWamrRuntime ::
  "'g wamr_context \<Rightarrow> teardown_call list \<times> 'g wamr_context" where
  "TA_TearDownWamrRuntime context =
     ((case wc_exec_env context of None \<Rightarrow> [] | Some e \<Rightarrow> [Destroy_exec_env e]) @
      (case wc_module_inst context of None \<Rightarrow> [] | Some i \<Rightarrow> [Deinstantiate]) @
      (case wc_module context of None \<Rightarrow> [] | Some m \<Rightarrow> [Unload m]) @ [Runtime_destroy],
      context\<lparr>wc_exec_env := None\<rparr>)"

section \<open>Lemmas\<close>

lemma strstr_append: "strstr (p @ t @ s) t"
  unfolding strstr_def by (rule bexI [of _ "length p"]) auto

lemma snprintf_02x_length:
  assumes "cur \<le> length buf"
  shows "\<exists>buf'. snprintf_02x cur b buf = Some buf' \<and> length buf' = length buf"
proof -
  let ?out = "[hex_digit (of_char b div 16), hex_digit (of_char b mod 16), CHR '' '']"
  have "cur + length (take (length buf - cur - 1) ?out @ [NUL]) \<le> length buf" if "length buf - cur \<noteq> 0"
    using that by (simp add: min_def) linarith
  then show ?thesis
    using assms by (auto simp: snprintf_02x_def Let_def buf_write_def)
qed

lemma print_byte_loop_cursor:
  assumes "cur + 3 * length bs \<le> length buf"
  shows "\<exists>buf'. print_byte_loop bs cur buf = Some (cur + 3 * length bs, buf') \<and> length buf' = length buf"
  using assms
proof (induction bs arbitrary: cur buf)
  case Nil
  then show ?case by simp
next
  case (Cons b bs)
  then obtain buf1 where 1: "snprintf_02x cur b buf = Some buf1" "length buf1 = length buf"
    using snprintf_02x_length [of cur buf b] by auto
  then obtain buf2 where "print_byte_loop bs (cur + 3) buf1 = Some (cur + 3 + 3 * length bs, buf2)" "length buf2 = length buf1"
    using Cons.IH [of "cur + 3" buf1] Cons.prems by auto
  with 1 show ?case by simp
qed

section \<open>Properties\<close>

text \<open>
  The debug helper always writes one byte past its buffer: the buffer has three bytes
  per input byte, the cursor ends behind the last of them, and the terminator goes there.
\<close>

theorem print_byte_array_overflows: "utils_print_byte_array bs = None"
proof -
  obtain buf where "print_byte_loop bs 0 (replicate (3 * length bs) NUL) = Some (3 * length bs, buf)"
    "length buf = 3 * length bs"
    using print_byte_loop_cursor [of 0 bs "replicate (3 * length bs) NUL"] by auto
  then show ?thesis by (simp add: utils_print_byte_array_def Let_def buf_write_def)
qed

text \<open>
  Initialising the runtime succeeds exactly when the runtime starts, the module loads and
  the module is instantiated, in this order; then the context holds the module and the
  instance and becomes the global context. On any failure the result is
  \<open>TEE_ERROR_GENERIC\<close>, no instance is recorded and the global context is not set. The
  execution environment is never created here.
\<close>

theorem initialize_runtime_result:
  assumes "TA_InitializeWamrRuntime A ctx = (r, ctx', singleton)" and "wc_module_inst ctx = None"
  shows "(r = TEE_SUCCESS \<longleftrightarrow> singleton) \<and> (r = TEE_SUCCESS \<or> r = TEE_ERROR_GENERIC) \<and>
     wc_exec_env ctx' = wc_exec_env ctx \<and> (r \<noteq> TEE_SUCCESS \<longrightarrow> wc_module_inst ctx' = None) \<and>
     (r = TEE_SUCCESS \<longleftrightarrow> (\<exists>m i.
        wasm_runtime_full_init A \<lparr>ia_heap_buf = wc_heap_buf ctx, ia_heap_size = wc_heap_size ctx,
          ia_n_native_symbols = length (wc_native_symbols ctx), ia_native_module_name = ''env'',
          ia_native_symbols = wc_native_symbols ctx\<rparr> \<and>
        wasm_runtime_load A (wc_wasm_bytecode ctx) (wc_wasm_bytecode_size ctx) = Some m \<and>
        wasm_runtime_instantiate A m (256 * 1024) (64 * 1024) = Some i \<and>
        wc_module ctx' = Some m \<and> wc_module_inst ctx' = Some i))"
  using assms by (auto simp: TA_InitializeWamrRuntime_def Let_def split: if_splits option.splits)

definition empty_context :: "'g wamr_context" where
  "empty_context = \<lparr>wc_wasm_bytecode = [], wc_wasm_bytecode_size = 0, wc_wasm_bytecode_hash = replicate 32 NUL,
     wc_heap_buf = None, wc_heap_size = 0, wc_module = None, wc_module_inst = None, wc_exec_env = None,
     wc_native_symbols = []\<rparr>"

definition main_wamr :: "unit wamr_api" where
  "main_wamr = \<lparr>rt_mem = ref_wamr, wasm_runtime_full_init = (\<lambda>_. True), wasm_runtime_load = (\<lambda>_ _. Some 0),
     wasm_runtime_instantiate = (\<lambda>_ _ _. Some demo_inst),
     wasm_runtime_lookup_function = (\<lambda>_ name. if name = ''main'' then Some 0 else None),
     wasm_runtime_create_exec_env = (\<lambda>_ _. Some 0), wasm_runtime_call_wasm = (\<lambda>_ _ st. Some (True, st)),
     wasm_application_execute_main = (\<lambda>st. Some (True, st))\<rparr>"

theorem initialize_runtime_result_witness:
  "fst (TA_InitializeWamrRuntime main_wamr empty_context) = TEE_SUCCESS \<and>
   wc_module_inst (fst (snd (TA_InitializeWamrRuntime main_wamr empty_context))) = Some demo_inst"
proof -
  obtain r ctx' s where i: "TA_InitializeWamrRuntime main_wamr empty_context = (r, ctx', s)"
    by (cases "TA_InitializeWamrRuntime main_wamr empty_context")
  from initialize_runtime_result [OF i] i show ?thesis
    by (simp add: TA_InitializeWamrRuntime_def main_wamr_def empty_context_def Let_def)
qed

text \<open>
  \<open>TA_ExecuteWamrRuntime\<close> calls the module with the context's execution environment, which
  \<open>TA_InitializeWamrRuntime\<close> does not create: right after a successful initialisation of a
  cleared context, executing a module that exports \<open>main\<close> uses a missing environment.
\<close>

theorem execute_after_initialize_without_env:
  assumes "TA_InitializeWamrRuntime A ctx = (TEE_SUCCESS, ctx', singleton)" and "wc_exec_env ctx = None"
    and "\<And>i. wasm_runtime_lookup_function A i ''main'' \<noteq> None"
  shows "TA_ExecuteWamrRuntime A ctx' sess = None"
proof -
  have env: "wc_exec_env ctx' = None"
    using assms(1,2) by (auto simp: TA_InitializeWamrRuntime_def Let_def split: if_splits option.splits)
  show ?thesis
  proof (cases "wc_module_inst ctx'")
    case None
    then show ?thesis by (simp add: TA_ExecuteWamrRuntime_def)
  next
    case (Some i)
    then show ?thesis
      using assms(3) [of i] env by (auto simp: TA_ExecuteWamrRuntime_def)
  qed
qed

theorem execute_after_initialize_without_env_witness:
  "TA_ExecuteWamrRuntime main_wamr (empty_context\<lparr>wc_module := Some 0, wc_module_inst := Some demo_inst\<rparr>) None = None"
  by (rule execute_after_initialize_without_env [of main_wamr empty_context _ True])
    (simp_all add: TA_InitializeWamrRuntime_def main_wamr_def empty_context_def Let_def)

text \<open>
  Teardown releases in the order environment, instance, module, runtime, each of the
  first three only when present; but only the environment is forgotten. A second teardown
  deinstantiates and unloads again what the first one already released.
\<close>

theorem teardown_twice_releases_again:
  "TA_TearDownWamrRuntime (snd (TA_TearDownWamrRuntime ctx)) =
     (filter (\<lambda>c. \<forall>e. c \<noteq> Destroy_exec_env e) (fst (TA_TearDownWamrRuntime ctx)), snd (TA_TearDownWamrRuntime ctx)) \<and>
   (wc_module_inst ctx \<noteq> None \<longrightarrow> Deinstantiate \<in> set (fst (TA_TearDownWamrRuntime (snd (TA_TearDownWamrRuntime ctx)))))"
  by (auto simp: TA_TearDownWamrRuntime_def split: option.splits)

theorem teardown_twice_releases_again_witness:
  "Deinstantiate \<in> set (fst (TA_TearDownWamrRuntime (snd (TA_TearDownWamrRuntime
     (empty_context\<lparr>wc_module_inst := Some demo_inst\<rparr>)))))"
  using teardown_twice_releases_again [of "empty_context\<lparr>wc_module_inst := Some demo_inst\<rparr>"] by (auto simp del: set_filter)

text \<open>
  Hashing the module stores the digest: with a digest of the expected 32 bytes the result
  is success and the context's hash field is the digest. The capacity passed to the digest
  operation is 256, not the 32 bytes of the field: a longer digest is written past the field.
\<close>

theorem hash_stores_digest:
  assumes "TEE_AllocateOperation D = (TEE_SUCCESS, h)"
    and "TEE_DigestDoFinal D h (wc_wasm_bytecode ctx) (wc_wasm_bytecode_size ctx) 256 = (TEE_SUCCESS, digest)"
    and "length (wc_wasm_bytecode_hash ctx) = 32"
  shows "(length digest = 32 \<longrightarrow>
       TA_HashWasmBytecode D ctx = Some (TEE_SUCCESS, ctx\<lparr>wc_wasm_bytecode_hash := digest\<rparr>)) \<and>
     (32 < length digest \<longrightarrow> TA_HashWasmBytecode D ctx = None)"
  using assms by (auto simp: TA_HashWasmBytecode_def Let_def buf_write_def)

theorem hash_stores_digest_witness:
  "TA_HashWasmBytecode \<lparr>TEE_AllocateOperation = (TEE_SUCCESS, 1),
       TEE_DigestDoFinal = (\<lambda>_ _ _ _. (TEE_SUCCESS, replicate 32 (CHR ''h'')))\<rparr> (empty_context :: unit wamr_context) =
     Some (TEE_SUCCESS, empty_context\<lparr>wc_wasm_bytecode_hash := replicate 32 (CHR ''h'')\<rparr>)"
  using hash_stores_digest [of "\<lparr>TEE_AllocateOperation = (TEE_SUCCESS, 1),
      TEE_DigestDoFinal = (\<lambda>_ _ _ _. (TEE_SUCCESS, replicate 32 (CHR ''h'')))\<rparr>" 1 "empty_context :: unit wamr_context"
      "replicate 32 (CHR ''h'')"]
  by (simp add: empty_context_def)

end
