(* ===== verification/Ta_Main.thy ===== *)
theory Ta_Main
  imports Wamr_Runtime
begin

unbundle bit_operations_syntax

text \<open>
  \<open>src/wrapper_ta/ta/main.c\<close>: the entry points of the trusted application. A command
  either runs the chaincode to its next host request (\<open>RUN_WASM\<close>, \<open>RESUME_WASM\<close>) or
  configures the heap; the request or the final response goes out through parameter 1 (its
  kind) and the shared buffer of parameter 2.

  Parameters of the model: the runtime (\<open>wamr_api\<close>) and \<open>TEE_Malloc\<close>, a predicate on the
  sizes of the live blocks and the requested size. The TA state holds the file's globals,
  the static \<open>runtime_ctx\<close> of the \<open>RUN_WASM\<close> case, the sizes of the blocks it has allocated
  and the last registered output buffer size.
\<close>

section \<open>State and parameters\<close>

definition TEE_PARAM_TYPE_NONE :: u32 where [simp]: "TEE_PARAM_TYPE_NONE = 0"
definition TEE_PARAM_TYPE_VALUE_INPUT :: u32 where [simp]: "TEE_PARAM_TYPE_VALUE_INPUT = 1"
definition TEE_PARAM_TYPE_VALUE_INOUT :: u32 where [simp]: "TEE_PARAM_TYPE_VALUE_INOUT = 3"
definition TEE_PARAM_TYPE_MEMREF_INPUT :: u32 where [simp]: "TEE_PARAM_TYPE_MEMREF_INPUT = 5"
definition TEE_PARAM_TYPE_MEMREF_INOUT :: u32 where [simp]: "TEE_PARAM_TYPE_MEMREF_INOUT = 7"

definition TEE_PARAM_TYPES :: "u32 \<Rightarrow> u32 \<Rightarrow> u32 \<Rightarrow> u32 \<Rightarrow> u32" where
  "TEE_PARAM_TYPES t0 t1 t2 t3 = t0 OR push_bit 4 t1 OR push_bit 8 t2 OR push_bit 12 t3"

record tee_param =
  p_value_a :: u32
  p_buffer :: "char list"

record tee_params =
  par0 :: tee_param
  par1 :: tee_param
  par2 :: tee_param
  par3 :: tee_param

record 'g ta_state =
  ta_heap_size :: u32
  ta_sess :: "session option"
  ta_runtime_ctx :: "'g wamr_context"
  ta_singleton :: bool
  ta_allocs :: "nat list"
  ta_output_size :: "nat option"

definition ta_boot :: "'g ta_state" where
  "ta_boot = \<lparr>ta_heap_size = 0, ta_sess = None,
     ta_runtime_ctx = \<lparr>wc_wasm_bytecode = [], wc_wasm_bytecode_size = 0, wc_wasm_bytecode_hash = replicate 32 NUL,
       wc_heap_buf = None, wc_heap_size = 0, wc_module = None, wc_module_inst = None, wc_exec_env = None,
       wc_native_symbols = []\<rparr>, ta_singleton = False, ta_allocs = [], ta_output_size = None\<rparr>"
  \<comment> \<open>a new instance: the zeroed globals\<close>

type_synonym tee_malloc = "nat list \<Rightarrow> nat \<Rightarrow> bool"

definition TEE_Malloc :: "tee_malloc \<Rightarrow> nat \<Rightarrow> nat list \<Rightarrow> nat option \<times> nat list" where
  "TEE_Malloc M n allocs = (if M allocs n then (Some (length allocs), allocs @ [n]) else (None, allocs))"

definition sizeof_session :: nat where [simp]: "sizeof_session = 1256"

definition set_value :: "int \<Rightarrow> tee_params \<Rightarrow> tee_params" where
  "set_value v ps = ps\<lparr>par1 := (par1 ps)\<lparr>p_value_a := word_of_int v\<rparr>\<rparr>"
  \<comment> \<open>\<open>params[1].value.a = v\<close>\<close>

definition set_buffer :: "char list \<Rightarrow> tee_params \<Rightarrow> tee_params" where
  "set_buffer b ps = ps\<lparr>par2 := (par2 ps)\<lparr>p_buffer := b\<rparr>\<rparr>"
  \<comment> \<open>the bytes behind \<open>params[2].memref.buffer\<close>\<close>

section \<open>Sessions and the heap size\<close>

definition TA_CreateEntryPoint :: TEE_Result where
  "TA_CreateEntryPoint = TEE_SUCCESS"

definition TA_OpenSessionEntryPoint ::
  "tee_malloc \<Rightarrow> u32 \<Rightarrow> 'g ta_state \<Rightarrow> TEE_Result \<times> 'g ta_state" where
  "TA_OpenSessionEntryPoint M param_types ta =
     (let exp_param_types = TEE_PARAM_TYPES TEE_PARAM_TYPE_NONE TEE_PARAM_TYPE_NONE
            TEE_PARAM_TYPE_NONE TEE_PARAM_TYPE_NONE
      in if param_types \<noteq> exp_param_types then (TEE_ERROR_BAD_PARAMETERS, ta)
         else if ta_sess ta = None then
           (case TEE_Malloc M sizeof_session (ta_allocs ta) of
              (None, _) \<Rightarrow> (TEE_ERROR_OUT_OF_MEMORY, ta)
            | (Some p, allocs) \<Rightarrow> (TEE_SUCCESS, ta\<lparr>ta_sess := Some zero_session, ta_allocs := allocs\<rparr>))
         else (TEE_SUCCESS, ta))"

definition TA_CloseSessionEntryPoint :: "'g ta_state \<Rightarrow> 'g ta_state" where
  "TA_CloseSessionEntryPoint ta = ta"

definition TA_SetHeapSize :: "u32 \<Rightarrow> 'g ta_state \<Rightarrow> TEE_Result \<times> 'g ta_state" where
  "TA_SetHeapSize sz ta = (TEE_SUCCESS, ta\<lparr>ta_heap_size := sz\<rparr>)"

definition TA_DestroyEntryPoint :: "'g ta_state \<Rightarrow> 'g ta_state" where
  "TA_DestroyEntryPoint ta = ta"

definition TA_SetOutputBuffer :: "char list \<Rightarrow> 'g ta_state \<Rightarrow> 'g ta_state" where
  "TA_SetOutputBuffer output_buffer ta = ta\<lparr>ta_output_size := Some (length output_buffer)\<rparr>"
  \<comment> \<open>of \<open>wasm.c\<close>: registers the buffer with the runtime's output extension\<close>

section \<open>Running a step of the module\<close>

definition clear_exception :: "'g wasm_inst \<Rightarrow> 'g wasm_inst" where
  "clear_exception i = i\<lparr>wi_exception := None\<rparr>"
  \<comment> \<open>\<open>wasm_runtime_clear_exception\<close>\<close>

text \<open>
  \<open>call_step\<close>: looking a function up in a missing instance has no defined result; a missing
  function and a failed execution environment are the early returns; an exception whose text
  contains \<open>out of bounds\<close> or \<open>null pointer\<close> counts as success.
\<close>

definition intended_exception :: "string option \<Rightarrow> bool" where
  "intended_exception ex =
     (case ex of None \<Rightarrow> False | Some m \<Rightarrow> strstr m ''out of bounds'' \<or> strstr m ''null pointer'')"

definition call_step ::
  "'g wamr_api \<Rightarrow> string \<Rightarrow> 'g wamr_context \<Rightarrow> session option \<Rightarrow>
   (bool \<times> 'g wamr_context \<times> session option) option" where
  "call_step A name ctx sess = do {
     inst \<leftarrow> wc_module_inst ctx;
     (case wasm_runtime_lookup_function A inst name of
        None \<Rightarrow> Some (False, ctx, sess)
      | Some fn \<Rightarrow> do {
          let inst = clear_exception inst;
          let ctx = ctx\<lparr>wc_module_inst := Some inst\<rparr>;
          let env = (case wc_exec_env ctx of
                       Some e \<Rightarrow> Some e
                     | None \<Rightarrow> wasm_runtime_create_exec_env A inst (256 * 1024));
          (case env of
             None \<Rightarrow> Some (False, ctx\<lparr>wc_exec_env := None\<rparr>, sess)
           | Some e \<Rightarrow> do {
               (ok, st) \<leftarrow> wasm_runtime_call_wasm A e fn \<lparr>ns_sess = sess, ns_inst = Some inst\<rparr>;
               inst \<leftarrow> ns_inst st;
               let ok = (ok \<or> intended_exception (wi_exception inst));
               let ctx = ctx\<lparr>wc_module_inst := Some (clear_exception inst),
                             wc_exec_env := (if ok then None else Some e)\<rparr>;
               Some (ok, ctx, ns_sess st)
             })
        })
   }"

section \<open>Handing a request or the response to the host\<close>

definition write_response :: "string \<Rightarrow> nat \<Rightarrow> tee_params \<Rightarrow> tee_params option" where
  "write_response msg n ps = do {
     let ps = set_value INVOCATION_RESPONSE ps;
     b \<leftarrow> TEE_MemFill 0 NUL sizeof_invocation_response (p_buffer (par2 ps));
     b \<leftarrow> TEE_MemMove 0 msg n b;
     Some (set_buffer b ps)
   }"
  \<comment> \<open>kind, cleared \<open>struct invocation_response\<close>, then \<open>n\<close> bytes of the message\<close>

definition process_hostcall_flow ::
  "'g wamr_api \<Rightarrow> tee_params \<Rightarrow> 'g ta_state \<Rightarrow> (TEE_Result \<times> tee_params \<times> 'g ta_state) option" where
  "process_hostcall_flow A ps ta = do {
     sc0 \<leftarrow> ta_sess ta;
     (ok, ctx, sess) \<leftarrow> (if sc_runtime sc0
        then call_step A ''step_resume'' (ta_runtime_ctx ta) (Some sc0) else None);
     let ta = ta\<lparr>ta_runtime_ctx := ctx, ta_sess := sess\<rparr>;
     (if \<not> ok then do {
        ps \<leftarrow> write_response ''RUNTIME_ERROR'' 13 ps;
        Some (TEE_SUCCESS, ps, ta)
      }
      else do {
        sc \<leftarrow> sess;
        (if sc_pending_type sc = GET_STATE_REQUEST then do {
           let ps = set_value GET_STATE_REQUEST ps;
           b \<leftarrow> TEE_MemFill 0 NUL sizeof_key_value (p_buffer (par2 ps));
           kn \<leftarrow> safe_strlen (Some (sc_key sc)) (KEY_SIZE - 1);
           b \<leftarrow> TEE_MemMove 0 (sc_key sc) kn b;
           Some (TEE_SUCCESS, set_buffer b ps, ta)
         }
         else if sc_pending_type sc = PUT_STATE_REQUEST then do {
           let ps = set_value PUT_STATE_REQUEST ps;
           b \<leftarrow> TEE_MemFill 0 NUL sizeof_key_value (p_buffer (par2 ps));
           kn \<leftarrow> safe_strlen (Some (sc_key sc)) (KEY_SIZE - 1);
           b \<leftarrow> TEE_MemMove 0 (sc_key sc) kn b;
           vn \<leftarrow> safe_strlen (Some (sc_value sc)) (VAL_SIZE - 1);
           b \<leftarrow> TEE_MemMove offset_kv_value (sc_value sc) vn b;
           Some (TEE_SUCCESS, set_buffer b ps, ta)
         }
         else if sc_has_response sc \<noteq> 0 then do {
           resp_len \<leftarrow> safe_strlen (Some (sc_response sc)) (RESPONSE_SIZE - 1);
           ps \<leftarrow> (if resp_len > 0 then write_response (sc_response sc) resp_len ps
                 else write_response ''EMPTY_RESPONSE'' 14 ps);
           Some (TEE_SUCCESS, ps, ta)
         }
         else do {
           ps \<leftarrow> write_response ''NO_RESPONSE'' 11 ps;
           Some (TEE_SUCCESS, ps, ta)
         })
      })
   }"

section \<open>The commands\<close>

definition receive_arguments :: "char list \<Rightarrow> session \<Rightarrow> session option" where
  "receive_arguments buf sc = do {
     a \<leftarrow> (if sizeof_arguments \<le> length buf
          then TEE_MemMove 0 buf sizeof_arguments (sc_args sc)
          else TEE_MemFill 0 NUL sizeof_arguments (sc_args sc));
     Some (sc\<lparr>sc_args := a\<rparr>)
   }"

definition run_wasm ::
  "'g wamr_api \<Rightarrow> tee_malloc \<Rightarrow> tee_params \<Rightarrow> 'g ta_state \<Rightarrow>
   (TEE_Result \<times> tee_params \<times> 'g ta_state) option" where
  "run_wasm A M ps ta =
     (case ta_sess ta of
        None \<Rightarrow> Some (TEE_ERROR_GENERIC, ps, ta)
      | Some sc \<Rightarrow> do {
          let ta = TA_SetOutputBuffer (p_buffer (par3 ps)) ta;
          sc \<leftarrow> receive_arguments (p_buffer (par2 ps)) sc;
          let ps = set_value 0 ps;
          let (heap_buf, allocs) = TEE_Malloc M (unat (ta_heap_size ta)) (ta_allocs ta);
          let (wasm_buf, allocs) = TEE_Malloc M (length (p_buffer (par0 ps))) allocs;
          let sc = sc\<lparr>sc_heap_buf_owned := heap_buf, sc_trusted_wasm_owned := wasm_buf\<rparr>;
          let ta = ta\<lparr>ta_allocs := allocs, ta_sess := Some sc\<rparr>;
          (if heap_buf = None \<or> wasm_buf = None then Some (TEE_ERROR_OUT_OF_MEMORY, ps, ta)
           else do {
             let runtime_ctx = \<lparr>wc_wasm_bytecode = p_buffer (par0 ps),
                   wc_wasm_bytecode_size = length (p_buffer (par0 ps)) mod 2 ^ 32,
                   wc_wasm_bytecode_hash = replicate (RA_HASH_SIZE div 8) NUL,
                   wc_heap_buf = heap_buf, wc_heap_size = ta_heap_size ta,
                   wc_module = None, wc_module_inst = None, wc_exec_env = None,
                   wc_native_symbols = chaincode_native_symbols\<rparr>;
             let (r, runtime_ctx, singleton) = TA_InitializeWamrRuntime A runtime_ctx;
             let ta = ta\<lparr>ta_runtime_ctx := runtime_ctx, ta_singleton := ta_singleton ta \<or> singleton\<rparr>;
             (if r \<noteq> TEE_SUCCESS then Some (r, ps, ta)
              else do {
                let sc = sc\<lparr>sc_runtime := True\<rparr>;
                let ta = ta\<lparr>ta_sess := Some sc\<rparr>;
                (if wc_module_inst runtime_ctx = None then Some (TEE_ERROR_GENERIC, ps, ta)
                 else do {
                   (ok, ctx, sess) \<leftarrow> call_step A ''step_init'' runtime_ctx (Some sc);
                   let ta = ta\<lparr>ta_runtime_ctx := ctx, ta_sess := sess\<rparr>;
                   (if \<not> ok then do {
                      ps \<leftarrow> write_response (''STEP_INIT_FAILED'' @ [NUL]) 17 ps;
                      Some (TEE_ERROR_GENERIC, ps, ta)
                    }
                    else process_hostcall_flow A ps ta)
                 })
              })
           })
        })"

text \<open>
  The \<open>GET_STATE\<close> answer is copied into the buffer the module named. \<open>kv->value\<close> is the
  shared buffer from offset 64 on.
\<close>

definition deliver_get_response ::
  "'g wamr_mem \<Rightarrow> char list \<Rightarrow> session \<Rightarrow> 'g wasm_inst option \<Rightarrow>
   (session \<times> 'g wasm_inst option) option" where
  "deliver_get_response W buf sc mi = do {
     let kv_value = drop offset_kv_value buf;
     len \<leftarrow> safe_strlen (Some kv_value) (size_minus_1 (sc_wasm_out_len sc));
     (out_native, mi) \<leftarrow> (if sc_wasm_out_offset sc \<noteq> 0 \<and> sc_wasm_out_len sc > 0 then do {
         inst \<leftarrow> mi;
         let (addr_valid, inst) = wasm_runtime_validate_app_addr W inst (sc_wasm_out_offset sc)
               (word_of_int (sc_wasm_out_len sc));
         Some (if addr_valid then wasm_runtime_addr_app_to_native W inst (sc_wasm_out_offset sc) else None,
               Some inst)
       }
       else Some (None, mi));
     mi \<leftarrow> (case out_native of
        None \<Rightarrow> Some mi
      | Some out \<Rightarrow>
          if len > 0 then do {
            inst \<leftarrow> mi;
            inst \<leftarrow> lm_put out (replicate (nat (sc_wasm_out_len sc)) NUL) inst;
            inst \<leftarrow> lm_put out (take len kv_value) inst;
            Some (Some inst)
          }
          else Some mi);
     Some (sc\<lparr>sc_pending_type := 0, sc_wasm_out_offset := 0, sc_wasm_out_len := 0\<rparr>, mi)
   }"

definition resume_wasm ::
  "'g wamr_api \<Rightarrow> tee_params \<Rightarrow> 'g ta_state \<Rightarrow> (TEE_Result \<times> tee_params \<times> 'g ta_state) option" where
  "resume_wasm A ps ta =
     (case ta_sess ta of
        None \<Rightarrow> Some (TEE_ERROR_GENERIC, ps, ta)
      | Some sc \<Rightarrow>
          if \<not> sc_runtime sc then Some (TEE_ERROR_GENERIC, ps, ta)
          else do {
            (sc, mi) \<leftarrow> (if sc_pending_type sc = GET_STATE_REQUEST
               then deliver_get_response (rt_mem A) (p_buffer (par2 ps)) sc (wc_module_inst (ta_runtime_ctx ta))
               else if sc_pending_type sc = PUT_STATE_REQUEST
               then Some (sc\<lparr>sc_pending_type := 0\<rparr>, wc_module_inst (ta_runtime_ctx ta))
               else Some (sc, wc_module_inst (ta_runtime_ctx ta)));
            process_hostcall_flow A ps (ta\<lparr>ta_sess := Some sc,
              ta_runtime_ctx := (ta_runtime_ctx ta)\<lparr>wc_module_inst := mi\<rparr>\<rparr>)
          })"

definition run_param_types :: u32 where
  "run_param_types = TEE_PARAM_TYPES TEE_PARAM_TYPE_MEMREF_INPUT TEE_PARAM_TYPE_VALUE_INOUT
     TEE_PARAM_TYPE_MEMREF_INOUT TEE_PARAM_TYPE_MEMREF_INOUT"

definition resume_param_types :: u32 where
  "resume_param_types = TEE_PARAM_TYPES TEE_PARAM_TYPE_NONE TEE_PARAM_TYPE_VALUE_INOUT
     TEE_PARAM_TYPE_MEMREF_INOUT TEE_PARAM_TYPE_MEMREF_INOUT"

definition heap_param_types :: u32 where
  "heap_param_types = TEE_PARAM_TYPES TEE_PARAM_TYPE_VALUE_INPUT TEE_PARAM_TYPE_NONE
     TEE_PARAM_TYPE_NONE TEE_PARAM_TYPE_NONE"

definition TA_InvokeCommandEntryPoint ::
  "'g wamr_api \<Rightarrow> tee_malloc \<Rightarrow> u32 \<Rightarrow> u32 \<Rightarrow> tee_params \<Rightarrow> 'g ta_state \<Rightarrow>
   (TEE_Result \<times> tee_params \<times> 'g ta_state) option" where
  "TA_InvokeCommandEntryPoint A M cmd_id param_types ps ta =
     (if cmd_id = COMMAND_CONFIGURE_HEAP then
        (if heap_param_types \<noteq> param_types then Some (TEE_ERROR_BAD_PARAMETERS, ps, ta)
         else let (r, ta) = TA_SetHeapSize (p_value_a (par0 ps)) ta in Some (r, ps, ta))
      else if cmd_id = COMMAND_RUN_WASM then
        (if param_types = run_param_types then run_wasm A M ps ta
         else Some (TEE_ERROR_BAD_PARAMETERS, ps, ta))
      else if cmd_id = COMMAND_RESUME_WASM then
        (if param_types = resume_param_types then resume_wasm A ps ta
         else Some (TEE_ERROR_BAD_PARAMETERS, ps, ta))
      else Some (TEE_ERROR_BAD_PARAMETERS, ps, ta))"


section \<open>What the host finds in the shared buffer\<close>

lemma TA_SetOutputBuffer_fields [simp]:
  "ta_sess (TA_SetOutputBuffer b ta) = ta_sess ta" "ta_heap_size (TA_SetOutputBuffer b ta) = ta_heap_size ta"
  "ta_allocs (TA_SetOutputBuffer b ta) = ta_allocs ta" "ta_runtime_ctx (TA_SetOutputBuffer b ta) = ta_runtime_ctx ta"
  by (simp_all add: TA_SetOutputBuffer_def)

lemma set_value_fields [simp]:
  "par0 (set_value v ps) = par0 ps" "par2 (set_value v ps) = par2 ps" "par3 (set_value v ps) = par3 ps"
  "p_value_a (par1 (set_value v ps)) = word_of_int v"
  by (simp_all add: set_value_def)

lemma set_buffer_fields [simp]:
  "par0 (set_buffer b ps) = par0 ps" "par1 (set_buffer b ps) = par1 ps" "par3 (set_buffer b ps) = par3 ps"
  "p_buffer (par2 (set_buffer b ps)) = b"
  by (simp_all add: set_buffer_def)

lemma write_field:
  assumes "length pre = off" and "0 < n" and "length f = n" and "terminated f"
  shows "TEE_MemMove off f (min (length (cstr f)) (n - 1)) (pre @ replicate n NUL @ rest) =
     Some (pre @ cfield n (cstr f) @ rest)"
proof -
  let ?k = "length (cstr f)"
  have k: "?k < n" using length_cstr_less [OF assms(4)] assms(3) by simp
  then have "min ?k (n - 1) = ?k" by simp
  with assms k show ?thesis
    by (simp add: TEE_MemMove_def buf_write_def cfield_short)
qed

lemma write_response_ok:
  assumes "256 \<le> length (p_buffer (par2 ps))" and "n \<le> length msg" and "n < 256"
  shows "write_response msg n ps =
    Some (set_buffer (cfield 256 (take n msg) @ drop 256 (p_buffer (par2 ps))) (set_value INVOCATION_RESPONSE ps))"
proof -
  have "cfield 256 (take n msg) = take n msg @ replicate (256 - n) NUL"
    using cfield_short [of "take n msg" 256] assms by simp
  with assms show ?thesis
    by (simp add: write_response_def TEE_MemFill_def TEE_MemMove_def buf_write_def)
qed

lemma fill_kv:
  "320 \<le> length buf \<Longrightarrow> TEE_MemFill 0 NUL 320 buf = Some (replicate 320 NUL @ drop 320 buf)"
  by (simp add: TEE_MemFill_def buf_write_def)

lemma write_kv_key:
  assumes "length k = 64" and "terminated k"
  shows "safe_strlen (Some k) 63 \<bind> (\<lambda>kn. TEE_MemMove 0 k kn (replicate 320 NUL @ rest)) =
     Some (cfield 64 (cstr k) @ replicate 256 NUL @ rest)"
proof -
  have s: "replicate 320 NUL @ rest = replicate 64 NUL @ replicate 256 NUL @ rest"
    using replicate_add [of 64 256 NUL] by simp
  show ?thesis
    using assms write_field [of "[]" 0 64 k "replicate 256 NUL @ rest"] by (simp add: s safe_strlen_terminated)
qed

lemma write_kv_value:
  assumes "length kf = 64" and "length v = 256" and "terminated v"
  shows "safe_strlen (Some v) 255 \<bind> (\<lambda>vn. TEE_MemMove 64 v vn (kf @ replicate 256 NUL @ rest)) =
     Some (kf @ cfield 256 (cstr v) @ rest)"
  using assms write_field [of kf 64 256 v rest] by (simp add: safe_strlen_terminated)

text \<open>
  What \<open>process_hostcall_flow\<close> writes, given the session the step left behind: the
  specification of the TA's outgoing messages.
\<close>

definition outgoing :: "session \<Rightarrow> tee_params \<Rightarrow> tee_params" where
  "outgoing sc ps =
     (let buf = p_buffer (par2 ps) in
      if sc_pending_type sc = GET_STATE_REQUEST then
        set_buffer (cfield 64 (cstr (sc_key sc)) @ replicate 256 NUL @ drop 320 buf)
          (set_value GET_STATE_REQUEST ps)
      else if sc_pending_type sc = PUT_STATE_REQUEST then
        set_buffer (cfield 64 (cstr (sc_key sc)) @ cfield 256 (cstr (sc_value sc)) @ drop 320 buf)
          (set_value PUT_STATE_REQUEST ps)
      else
        set_buffer (cfield 256 (if sc_has_response sc = 0 then ''NO_RESPONSE''
            else if cstr (sc_response sc) = [] then ''EMPTY_RESPONSE'' else cstr (sc_response sc))
          @ drop 256 buf) (set_value INVOCATION_RESPONSE ps))"

lemma hostcall_ok:
  assumes sc0: "ta_sess ta = Some sc0" "sc_runtime sc0"
    and step: "call_step A ''step_resume'' (ta_runtime_ctx ta) (Some sc0) = Some (True, ctx, Some sc)"
    and inv: "session_inv sc" and buf: "320 \<le> length (p_buffer (par2 ps))"
  shows "process_hostcall_flow A ps ta =
     Some (TEE_SUCCESS, outgoing sc ps, ta\<lparr>ta_runtime_ctx := ctx, ta_sess := Some sc\<rparr>)"
proof -
  have k: "length (sc_key sc) = 64" "terminated (sc_key sc)" "length (sc_value sc) = 256"
    "terminated (sc_value sc)" "length (sc_response sc) = 256" "terminated (sc_response sc)"
    using inv by (simp_all add: session_inv_def wf_session_def)
  have r: "length (cstr (sc_response sc)) < 256" using length_cstr_less [OF k(6)] k(5) by simp
  consider "sc_pending_type sc = 1" | "sc_pending_type sc = 2" | "sc_pending_type sc = 0"
    using inv by (auto simp: session_inv_def)
  then show ?thesis
  proof cases
    case 1
    then show ?thesis
      using sc0 step fill_kv [OF buf] write_kv_key [OF k(1,2)]
      by (simp add: process_hostcall_flow_def outgoing_def Let_def flip: bind_assoc)
  next
    case 2
    then show ?thesis
      using sc0 step fill_kv [OF buf] write_kv_key [OF k(1,2)]
        write_kv_value [OF _ k(3,4), of "cfield 64 (cstr (sc_key sc))"]
      by (simp add: process_hostcall_flow_def outgoing_def Let_def flip: bind_assoc)
  next
    case 3
    then show ?thesis
      using sc0 step buf r k write_response_ok
      by (simp add: process_hostcall_flow_def outgoing_def Let_def safe_strlen_terminated)
  qed
qed

end
