(* ===== verification/Coffee_Refinement.thy ===== *)
theory Coffee_Refinement
  imports Coffee_Chaincode Ta_Main
begin

text \<open>
  The trusted application running the coffee chaincode, against an abstract resumable
  machine. The abstract machine knows the function, its two arguments, how far the
  operation has come and the last response; a \<open>RUN_WASM\<close> or \<open>RESUME_WASM\<close> command is one
  move of it, and the move's request is what the TA leaves in the shared buffer.

  The WebAssembly runtime is a parameter; \<open>wamr_runs_coffee\<close> says that it executes the
  module compiled from \<open>coffee_chaincode_wasm.c\<close>: the two exports behave like the
  definitions of \<open>Coffee_Chaincode\<close>, linked with the registered natives.
\<close>

section \<open>The abstract machine\<close>

datatype request = Get_state string | Put_state string string | Response string

datatype cc_phase = Ready | Get_wait | Put_wait | Dead

record cc_spec =
  sp_fn :: string
  sp_key :: string
  sp_arg :: string
  sp_phase :: cc_phase
  sp_last :: "string option"

definition spec_answer :: "string \<Rightarrow> cc_spec \<Rightarrow> request \<times> cc_spec" where
  "spec_answer m s = (Response m, s\<lparr>sp_phase := Ready, sp_last := Some m\<rparr>)"

definition spec_dispatch :: "cc_spec \<Rightarrow> request \<times> cc_spec" where
  "spec_dispatch s =
     (if sp_fn s \<in> {''create'', ''add'', ''query''}
      then (Get_state (sp_key s),
            s\<lparr>sp_phase := (if sp_fn s = ''create'' \<and> sp_key s = [] then Dead else Get_wait)\<rparr>)
      else spec_answer ''ERROR'' s)"

definition spec_resume :: "cc_spec \<Rightarrow> string \<Rightarrow> request \<times> cc_spec" where
  "spec_resume s u =
     (case sp_phase s of
        Ready \<Rightarrow> spec_dispatch s
      | Dead \<Rightarrow> (Response (case sp_last s of None \<Rightarrow> ''NO_RESPONSE'' | Some m \<Rightarrow> m), s)
      | Put_wait \<Rightarrow> spec_answer ''OK'' s
      | Get_wait \<Rightarrow>
          if sp_fn s = ''create'' then
            if u \<noteq> [] then spec_answer ''EXIST'' s
            else (Put_state (sp_key s) (sp_arg s), s\<lparr>sp_phase := Put_wait\<rparr>)
          else if sp_fn s = ''add'' then
            if u = [] then spec_answer ''EMPTY'' s
            else (Put_state (sp_key s) (dec_str (unat (atoul u + atoul (sp_arg s)))), s\<lparr>sp_phase := Put_wait\<rparr>)
          else if u = [] then spec_answer ''NOTFOUND'' s
          else spec_answer u s)"

text \<open>A request as the bytes of the shared buffer and the kind in parameter 1.\<close>

definition encode_request :: "request \<Rightarrow> tee_params \<Rightarrow> tee_params" where
  "encode_request r ps =
     (let buf = p_buffer (par2 ps) in
      case r of
        Get_state k \<Rightarrow> set_buffer (cfield 64 k @ replicate 256 NUL @ drop 320 buf) (set_value GET_STATE_REQUEST ps)
      | Put_state k v \<Rightarrow> set_buffer (cfield 64 k @ cfield 256 v @ drop 320 buf) (set_value PUT_STATE_REQUEST ps)
      | Response m \<Rightarrow> set_buffer (cfield 256 m @ drop 256 buf) (set_value INVOCATION_RESPONSE ps))"

section \<open>The runtime executes the chaincode\<close>

definition zero_globals :: cc_globals where
  "zero_globals = \<lparr>fsm_state = 0, current_op = OP_NONE, g_should_exit = 0\<rparr>"

definition fresh_coffee :: "cc_layout \<Rightarrow> cc_globals wasm_inst \<Rightarrow> bool" where
  "fresh_coffee L i \<longleftrightarrow> cc_loaded L i \<and> (\<forall>b \<in> set all_bufs. contents L i b = replicate (buf_len b) NUL) \<and>
     wi_data i = zero_globals"

definition wamr_runs_coffee :: "cc_globals wamr_api \<Rightarrow> cc_layout \<Rightarrow> bool" where
  "wamr_runs_coffee A L \<longleftrightarrow>
     wamr_mem_laws (rt_mem A) \<and>
     (\<exists>f_init f_resume.
        (\<forall>i. wasm_runtime_lookup_function A i ''step_init'' = Some f_init) \<and>
        (\<forall>i. wasm_runtime_lookup_function A i ''step_resume'' = Some f_resume) \<and>
        (\<forall>e st. wasm_runtime_call_wasm A e f_init st =
           map_option (\<lambda>st. (\<not> trapped st, st)) (step_init st)) \<and>
        (\<forall>e st. wasm_runtime_call_wasm A e f_resume st =
           map_option (\<lambda>st. (\<not> trapped st, st)) (step_resume (native_imports (rt_mem A)) L st))) \<and>
     (\<forall>i n. wasm_runtime_create_exec_env A i n \<noteq> None)"

definition wamr_loads_coffee :: "cc_globals wamr_api \<Rightarrow> cc_layout \<Rightarrow> char list \<Rightarrow> bool" where
  "wamr_loads_coffee A L wasm \<longleftrightarrow>
     (\<forall>a. wasm_runtime_full_init A a) \<and>
     (\<exists>m i. wasm_runtime_load A wasm (length wasm mod 2 ^ 32) = Some m \<and>
        wasm_runtime_instantiate A m (256 * 1024) (64 * 1024) = Some i \<and> fresh_coffee L i)"

section \<open>One step of the module\<close>

lemma clear_exception_None [simp]: "wi_exception i = None \<Longrightarrow> clear_exception i = i"
  by (cases i) (simp add: clear_exception_def)

lemma call_step_coffee:
  assumes "wamr_runs_coffee A L" and "wc_module_inst ctx = Some i" and "cc_loaded L i"
    and "cc_moves L (step_resume (native_imports (rt_mem A)) L (cc_st sc i)) sz sc' c g"
  shows "\<exists>i'. call_step A ''step_resume'' ctx (Some sc) =
      Some (True, ctx\<lparr>wc_module_inst := Some i', wc_exec_env := None\<rparr>, Some sc') \<and>
      cc_loaded L i' \<and> contents L i' = c \<and> wi_data i' = g"
proof -
  obtain f where f: "\<And>i. wasm_runtime_lookup_function A i ''step_resume'' = Some f"
    "\<And>e st. wasm_runtime_call_wasm A e f st =
       map_option (\<lambda>st. (\<not> trapped st, st)) (step_resume (native_imports (rt_mem A)) L st)"
    and env: "\<And>i n. wasm_runtime_create_exec_env A i n \<noteq> None"
    using assms(1) unfolding wamr_runs_coffee_def by blast
  obtain i' where i': "step_resume (native_imports (rt_mem A)) L (cc_st sc i) = Some (cc_st sc' i')"
    "cc_loaded L i'" "contents L i' = c" "wi_data i' = g"
    using assms(4) by (auto simp: cc_moves_def)
  obtain e0 where e0: "wasm_runtime_create_exec_env A i (256 * 1024) = Some e0" using env by fastforce
  show ?thesis
    using assms(2,3) f i' e0
    by (cases "wc_exec_env ctx") (auto simp: call_step_def Let_def cc_loaded_exception)
qed

lemma call_step_init_coffee:
  assumes "wamr_runs_coffee A L" and "wc_module_inst ctx = Some i" and "cc_loaded L i"
  shows "call_step A ''step_init'' ctx (Some sc) =
      Some (True, ctx\<lparr>wc_module_inst := Some i, wc_exec_env := None\<rparr>, Some sc)"
proof -
  obtain f where f: "\<And>i. wasm_runtime_lookup_function A i ''step_init'' = Some f"
    "\<And>e st. wasm_runtime_call_wasm A e f st = map_option (\<lambda>st. (\<not> trapped st, st)) (step_init st)"
    and env: "\<And>i n. wasm_runtime_create_exec_env A i n \<noteq> None"
    using assms(1) unfolding wamr_runs_coffee_def by blast
  obtain e0 where e0: "wasm_runtime_create_exec_env A i (256 * 1024) = Some e0" using env by fastforce
  show ?thesis
    using assms(2,3) f e0
    by (cases "wc_exec_env ctx") (auto simp: call_step_def Let_def step_init_def)
qed

section \<open>The relation between the machine and the TA\<close>

text \<open>
  \<open>coffee_mem\<close> is the module's part (buffers and statics), with \<open>u\<close> the value the host has
  delivered into \<open>g_cur_val\<close>; \<open>coffee_sess\<close> the session's part that a step keeps; and
  \<open>coffee_pending\<close> what the session waits for between two commands.
\<close>

definition coffee_mem :: "cc_spec \<Rightarrow> string \<Rightarrow> (cc_buf \<Rightarrow> char list) \<Rightarrow> cc_globals \<Rightarrow> bool" where
  "coffee_mem s u c g \<longleftrightarrow>
     (case sp_phase s of
        Ready \<Rightarrow> c Function \<in> {replicate 64 NUL, cfield 64 (sp_fn s)} \<and> current_op g = OP_NONE \<and> fsm_state g = 0
      | Get_wait \<Rightarrow> c Function = cfield 64 (sp_fn s) \<and> c Person = cfield 64 (sp_key s) \<and> c Cur_val = cfield 256 u \<and>
          (sp_fn s = ''create'' \<and> sp_key s \<noteq> [] \<and> c Arg1 = cfield 64 (sp_arg s) \<and>
             current_op g = OP_CREATE \<and> fsm_state g = 11 \<or>
           sp_fn s = ''add'' \<and> c Arg1 = cfield 64 (sp_arg s) \<and> current_op g = OP_ADD \<and> fsm_state g = 21 \<or>
           sp_fn s = ''query'' \<and> current_op g = OP_QUERY \<and> fsm_state g = 31)
      | Put_wait \<Rightarrow> c Function = cfield 64 (sp_fn s) \<and>
          (current_op g = OP_CREATE \<and> fsm_state g = 12 \<or> current_op g = OP_ADD \<and> fsm_state g = 22)
      | Dead \<Rightarrow> c Function = cfield 64 (sp_fn s) \<and> current_op g = OP_CREATE \<and> fsm_state g = 0)"

definition coffee_sess :: "cc_spec \<Rightarrow> session \<Rightarrow> bool" where
  "coffee_sess s sc \<longleftrightarrow>
     session_inv sc \<and> args_terminated sc \<and> sc_runtime sc \<and>
     sp_fn s = take 63 (cstr (arg_row sc 0)) \<and> sp_key s = take 63 (cstr (arg_row sc 1)) \<and>
     sp_arg s = take 63 (cstr (arg_row sc 2)) \<and>
     (case sp_last s of
        None \<Rightarrow> sc_has_response sc = 0
      | Some m \<Rightarrow> sc_has_response sc \<noteq> 0 \<and> m \<noteq> [] \<and> cstr (sc_response sc) = m)"

definition coffee_pending :: "cc_layout \<Rightarrow> cc_spec \<Rightarrow> session \<Rightarrow> bool" where
  "coffee_pending L s sc \<longleftrightarrow>
     (sc_pending_type sc = GET_STATE_REQUEST \<longrightarrow>
        sc_wasm_out_offset sc = at_g_cur_val L \<and> sc_wasm_out_len sc = 256) \<and>
     (case sp_phase s of
        Ready \<Rightarrow> sc_pending_type sc = 0
      | Get_wait \<Rightarrow> sc_pending_type sc = GET_STATE_REQUEST
      | Put_wait \<Rightarrow> sc_pending_type sc = PUT_STATE_REQUEST
      | Dead \<Rightarrow> sc_pending_type sc \<noteq> PUT_STATE_REQUEST)"

definition coffee_rel :: "cc_layout \<Rightarrow> cc_spec \<Rightarrow> cc_globals ta_state \<Rightarrow> bool" where
  "coffee_rel L s ta \<longleftrightarrow>
     (\<exists>sc i. ta_sess ta = Some sc \<and> wc_module_inst (ta_runtime_ctx ta) = Some i \<and> cc_loaded L i \<and>
        coffee_sess s sc \<and> coffee_pending L s sc \<and> coffee_mem s [] (contents L i) (wi_data i))"

definition coffee_result ::
  "cc_layout \<Rightarrow> cc_state option \<Rightarrow> request \<times> cc_spec \<Rightarrow> bool" where
  "coffee_result L r rs \<longleftrightarrow>
     (\<exists>sz sc c g. cc_moves L r sz sc c g \<and> coffee_sess (snd rs) sc \<and> coffee_pending L (snd rs) sc \<and>
        coffee_mem (snd rs) [] c g \<and> (\<forall>ps. outgoing sc ps = encode_request (fst rs) ps))"

lemma coffee_resultI:
  assumes "cc_moves L r sz sc c g" and "coffee_sess (snd rs) sc" and "coffee_pending L (snd rs) sc"
    and "coffee_mem (snd rs) [] c g" and "\<And>ps. outgoing sc ps = encode_request (fst rs) ps"
  shows "coffee_result L r rs"
  using assms by (auto simp: coffee_result_def)

lemma coffee_args:
  assumes "coffee_sess s sc"
  shows "terminated (arg_row sc 0)" "terminated (arg_row sc 1)" "terminated (arg_row sc 2)"
    "cfield 64 (cstr (arg_row sc 0)) = cfield 64 (sp_fn s)"
    "cfield 64 (cstr (arg_row sc 1)) = cfield 64 (sp_key s)"
    "cfield 64 (cstr (arg_row sc 2)) = cfield 64 (sp_arg s)"
    "nul_free (sp_fn s)" "nul_free (sp_key s)" "nul_free (sp_arg s)"
    "length (sp_fn s) \<le> 63" "length (sp_key s) \<le> 63" "length (sp_arg s) \<le> 63"
    "wf_session sc" "session_inv sc" "sc_runtime sc"
  using assms cfield_take [of 64] by (auto simp: coffee_sess_def args_terminated_row)

lemma arg_row_update [simp]:
  "arg_row (sc\<lparr>sc_key := a\<rparr>) = arg_row sc" "arg_row (sc\<lparr>sc_value := a\<rparr>) = arg_row sc"
  "arg_row (sc\<lparr>sc_pending_type := n\<rparr>) = arg_row sc" "arg_row (sc\<lparr>sc_wasm_out_offset := o1\<rparr>) = arg_row sc"
  "arg_row (sc\<lparr>sc_wasm_out_len := n\<rparr>) = arg_row sc" "arg_row (sc\<lparr>sc_response := a\<rparr>) = arg_row sc"
  "arg_row (sc\<lparr>sc_has_response := n\<rparr>) = arg_row sc"
  by (simp_all add: fun_eq_iff arg_row_def)

lemma coffee_sess_get:
  assumes "coffee_sess s sc"
  shows "coffee_sess (s\<lparr>sp_phase := ph\<rparr>) (sc\<lparr>sc_key := cfield 64 k, sc_pending_type := 1,
     sc_wasm_out_offset := o1, sc_wasm_out_len := 256\<rparr>)"
  using assms
  by (auto simp: coffee_sess_def session_inv_def wf_session_def args_terminated_def split: option.splits)

lemma coffee_sess_put:
  assumes "coffee_sess s sc"
  shows "coffee_sess (s\<lparr>sp_phase := ph\<rparr>) (sc\<lparr>sc_key := cfield 64 k, sc_value := cfield 256 v,
     sc_pending_type := 2, sc_wasm_out_offset := 0, sc_wasm_out_len := 0\<rparr>)"
  using assms
  by (auto simp: coffee_sess_def session_inv_def wf_session_def args_terminated_def split: option.splits)

lemma coffee_sess_response:
  assumes "coffee_sess s sc" and "nul_free m" and "m \<noteq> []" and "length m < 256"
  shows "coffee_sess (s\<lparr>sp_phase := ph, sp_last := Some m\<rparr>) (sc\<lparr>sc_response := cfield 256 m, sc_has_response := 1\<rparr>)"
  using assms
  by (auto simp: coffee_sess_def session_inv_def wf_session_def args_terminated_def cstr_cfield_short)

lemma coffee_sess_clear:
  assumes "coffee_sess s sc"
  shows "coffee_sess s (sc\<lparr>sc_pending_type := 0\<rparr>)"
    "coffee_sess s (sc\<lparr>sc_pending_type := 0, sc_wasm_out_offset := 0, sc_wasm_out_len := 0\<rparr>)"
  using assms
  by (auto simp: coffee_sess_def session_inv_def wf_session_def args_terminated_def split: option.splits)

lemma outgoing_get:
  assumes "nul_free k" and "length k < 64"
  shows "outgoing (sc\<lparr>sc_key := cfield 64 k, sc_pending_type := 1,
     sc_wasm_out_offset := o1, sc_wasm_out_len := n\<rparr>) ps = encode_request (Get_state k) ps"
  using assms by (simp add: outgoing_def encode_request_def Let_def cstr_cfield_short)

lemma outgoing_put:
  assumes "nul_free k" and "length k < 64" and "nul_free v" and "length v < 256"
  shows "outgoing (sc\<lparr>sc_key := cfield 64 k, sc_value := cfield 256 v,
     sc_pending_type := 2, sc_wasm_out_offset := o1, sc_wasm_out_len := n\<rparr>) ps = encode_request (Put_state k v) ps"
  using assms by (simp add: outgoing_def encode_request_def Let_def cstr_cfield_short)

lemma outgoing_response:
  assumes "nul_free m" and "length m < 256" and "m \<noteq> []" and "sc_pending_type sc = 0"
  shows "outgoing (sc\<lparr>sc_response := cfield 256 m, sc_has_response := 1\<rparr>) ps = encode_request (Response m) ps"
  using assms by (simp add: outgoing_def encode_request_def Let_def cstr_cfield_short)

text \<open>The three outcomes of a module step, as results of the machine.\<close>

lemma result_get:
  assumes "coffee_sess s sc" and "sp_key s = k"
    and "cc_moves L r sz (sc\<lparr>sc_key := cfield 64 k, sc_pending_type := GET_STATE_REQUEST,
       sc_wasm_out_offset := at_g_cur_val L, sc_wasm_out_len := 256\<rparr>) c g"
    and "ph = Get_wait \<or> ph = Dead" and "coffee_mem (s\<lparr>sp_phase := ph\<rparr>) [] c g"
  shows "coffee_result L r (Get_state k, s\<lparr>sp_phase := ph\<rparr>)"
  using coffee_args [OF assms(1)] assms(2,4,5) coffee_sess_get [OF assms(1)]
  by (intro coffee_resultI [OF assms(3)]) (auto simp: coffee_pending_def outgoing_get)

lemma result_put:
  assumes "coffee_sess s sc" and "sp_key s = k" and "nul_free v" and "length v < 256"
    and "cc_moves L r sz (sc\<lparr>sc_key := cfield 64 k, sc_value := cfield 256 v, sc_pending_type := PUT_STATE_REQUEST,
       sc_wasm_out_offset := 0, sc_wasm_out_len := 0\<rparr>) c g"
    and "coffee_mem (s\<lparr>sp_phase := Put_wait\<rparr>) [] c g"
  shows "coffee_result L r (Put_state k v, s\<lparr>sp_phase := Put_wait\<rparr>)"
  using coffee_args [OF assms(1)] assms(2,3,4,6) coffee_sess_put [OF assms(1)]
  by (intro coffee_resultI [OF assms(5)]) (auto simp: coffee_pending_def outgoing_put)

lemma result_answer:
  assumes "coffee_sess s sc" and "nul_free m" and "m \<noteq> []" and "length m < 256" and "sc_pending_type sc = 0"
    and "cc_moves L r sz (sc\<lparr>sc_response := cfield 256 m, sc_has_response := 1\<rparr>) c g"
    and "c Function \<in> {replicate 64 NUL, cfield 64 (sp_fn s)}" and "current_op g = OP_NONE" and "fsm_state g = 0"
  shows "coffee_result L r (spec_answer m s)"
  using assms(5,7,8,9) coffee_sess_response [OF assms(1,2,3,4)] outgoing_response [OF assms(2,4,3,5)]
  by (intro coffee_resultI [OF assms(6)]) (auto simp: coffee_pending_def coffee_mem_def spec_answer_def)

section \<open>A step of the module is a move of the machine\<close>

lemma dispatch_result:
  assumes W: "wamr_mem_laws W" and i: "cc_loaded L i" and s: "coffee_sess s sc"
    and f: "contents L i Function = cfield 64 (sp_fn s)" "sp_fn s \<noteq> []"
    and g: "current_op (wi_data i) = OP_NONE" "fsm_state (wi_data i) = 0" and p: "sc_pending_type sc = 0"
  shows "coffee_result L (step_resume_dispatch (native_imports W) L (cc_st sc i)) (spec_dispatch s)"
proof -
  note a = coffee_args [OF s]
  have d: "take 63 (sp_fn s) = sp_fn s" using a(10) by simp
  let ?i = "\<lambda>x. i\<lparr>wi_data := (wi_data i)\<lparr>current_op := x\<rparr>\<rparr>"
  have key: "(cstr (arg_row sc 1) = []) = (sp_key s = [])"
    using s by (simp add: coffee_sess_def)
  consider (create) "sp_fn s = ''create''" | (add) "sp_fn s = ''add''" | (query) "sp_fn s = ''query''"
    | (other) "sp_fn s \<notin> {''create'', ''add'', ''query''}" by auto
  then show ?thesis
  proof cases
    case create
    have "coffee_result L (cc_do_create_init (native_imports W) L (cc_st sc (?i OP_CREATE)))
        (Get_state (sp_key s), s\<lparr>sp_phase := (if sp_key s = [] then Dead else Get_wait)\<rparr>)"
      using ni.create_init [OF W, of L "?i OP_CREATE" sc] i a create f g key
      by (intro result_get [OF s]) (auto simp: coffee_mem_def)
    then show ?thesis
      using ni.dispatch [OF i f(1) a(7) f(2), of W sc] d create by (simp add: spec_dispatch_def)
  next
    case add
    have "coffee_result L (cc_do_add_init (native_imports W) L (cc_st sc (?i OP_ADD)))
        (Get_state (sp_key s), s\<lparr>sp_phase := Get_wait\<rparr>)"
      using ni.add_init [OF W, of L "?i OP_ADD" sc] i a add f g
      by (intro result_get [OF s]) (auto simp: coffee_mem_def)
    then show ?thesis
      using ni.dispatch [OF i f(1) a(7) f(2), of W sc] d add by (simp add: spec_dispatch_def)
  next
    case query
    have "coffee_result L (cc_do_query_init (native_imports W) L (cc_st sc (?i OP_QUERY)))
        (Get_state (sp_key s), s\<lparr>sp_phase := Get_wait\<rparr>)"
      using ni.query_init [OF W, of L "?i OP_QUERY" sc] i a query f g
      by (intro result_get [OF s]) (auto simp: coffee_mem_def)
    then show ?thesis
      using ni.dispatch [OF i f(1) a(7) f(2), of W sc] d query by (simp add: spec_dispatch_def)
  next
    case other
    have "cc_moves L (respond (native_imports W) L ''ERROR'' Some (cc_st sc i)) (wi_size i)
        (sc\<lparr>sc_response := cfield 256 ''ERROR'', sc_has_response := 1\<rparr>) (contents L i) (wi_data i)"
      using ni.respond_literal [OF W i a(13), of "''ERROR''"] i
      by (auto simp: cc_literals_def intro!: cc_movesI)
    then have "coffee_result L (respond (native_imports W) L ''ERROR'' Some (cc_st sc i)) (spec_answer ''ERROR'' s)"
      using p f g by (intro result_answer [OF s]) auto
    then show ?thesis
      using ni.dispatch [OF i f(1) a(7) f(2), of W sc] d other by (simp add: spec_dispatch_def)
  qed
qed

abbreviation no_exit :: "cc_globals wasm_inst \<Rightarrow> cc_globals wasm_inst" where
  "no_exit i \<equiv> i\<lparr>wi_data := (wi_data i)\<lparr>g_should_exit := 0\<rparr>\<rparr>"

lemma ready_result:
  assumes W: "wamr_mem_laws W" and i: "cc_loaded L i" and s: "coffee_sess s sc"
    and ph: "sp_phase s = Ready" and m: "coffee_mem s u (contents L i) (wi_data i)"
    and p: "sc_pending_type sc = 0"
  shows "coffee_result L (step_resume (native_imports W) L (cc_st sc i)) (spec_dispatch s)"
proof -
  note a = coffee_args [OF s]
  have g: "current_op (wi_data i) = OP_NONE" "fsm_state (wi_data i) = 0"
    and F: "contents L i Function = replicate 64 NUL \<or> contents L i Function = cfield 64 (sp_fn s)"
    using m ph by (auto simp: coffee_mem_def)
  have key: "(cstr (arg_row sc 0) = []) = (sp_fn s = [])" using s by (simp add: coffee_sess_def)
  show ?thesis
  proof (cases "sp_fn s = []")
    case True
    with F have z: "contents L i Function = replicate 64 NUL" by auto
    have "coffee_result L (step_resume (native_imports W) L (cc_st sc i)) (spec_answer ''ERROR'' s)"
      using True key g z
      by (intro result_answer [OF s _ _ _ p ni.first_step_no_function [OF W i g(1) a(13) z a(1)]]) auto
    with True show ?thesis by (simp add: spec_dispatch_def)
  next
    case False
    then have nz: "cfield 64 (sp_fn s) ! 0 \<noteq> NUL" using a(7) cfield_first [of "sp_fn s" 64] by simp
    show ?thesis
    proof (cases "contents L i Function = replicate 64 NUL")
      case True
      let ?j = "put_buf L Function (cfield 64 (sp_fn s)) (no_exit i)"
      have "step_resume (native_imports W) L (cc_st sc i) = step_resume_dispatch (native_imports W) L (cc_st sc ?j)"
        using ni.first_step [OF W i g(1) True a(1)] a(4) by simp
      moreover have "coffee_result L (step_resume_dispatch (native_imports W) L (cc_st sc ?j)) (spec_dispatch s)"
        using i g p False by (intro dispatch_result [OF W _ s]) simp_all
      ultimately show ?thesis by simp
    next
      case F2: False
      with F have eq: "contents L i Function = cfield 64 (sp_fn s)" by simp
      then have "step_resume (native_imports W) L (cc_st sc i) =
          step_resume_dispatch (native_imports W) L (cc_st sc (no_exit i))"
        using g nz i by (simp add: step_resume_def buf_ops)
      moreover have "coffee_result L (step_resume_dispatch (native_imports W) L (cc_st sc (no_exit i))) (spec_dispatch s)"
        using i g p False eq by (intro dispatch_result [OF W _ s]) simp_all
      ultimately show ?thesis by simp
    qed
  qed
qed

lemma create_result:
  assumes W: "wamr_mem_laws W" and i: "cc_loaded L i" and s: "coffee_sess s sc"
    and f: "sp_fn s = ''create''" and ph: "sp_phase s = Get_wait"
    and m: "coffee_mem s u (contents L i) (wi_data i)"
    and u: "nul_free u" "length u < 256" and p: "sc_pending_type sc = 0"
  shows "coffee_result L (step_resume (native_imports W) L (cc_st sc i)) (spec_resume s u)"
proof -
  note a = coffee_args [OF s]
  let ?j = "no_exit i"
  have mem: "contents L i Cur_val = cfield 256 u" "contents L i Function = cfield 64 (sp_fn s)"
    "contents L i Person = cfield 64 (sp_key s)" "contents L i Arg1 = cfield 64 (sp_arg s)"
    "current_op (wi_data i) = OP_CREATE" "fsm_state (wi_data i) = 11"
    using m ph f by (auto simp: coffee_mem_def)
  have st: "step_resume (native_imports W) L (cc_st sc i) = cc_do_create_resume (native_imports W) L (cc_st sc ?j)"
    using ni.resume_running [of i W L sc] mem by simp
  show ?thesis
  proof (cases "u = []")
    case True
    have "coffee_result L (cc_do_create_resume (native_imports W) L (cc_st sc ?j))
        (Put_state (sp_key s) (sp_arg s), s\<lparr>sp_phase := Put_wait\<rparr>)"
      using ni.create_resume_put [OF W, of L ?j sc "sp_key s" "sp_arg s"] i a mem True
      by (intro result_put [OF s]) (auto simp: coffee_mem_def)
    with True f ph st show ?thesis by (simp add: spec_resume_def)
  next
    case False
    have "coffee_result L (cc_do_create_resume (native_imports W) L (cc_st sc ?j)) (spec_answer ''EXIST'' s)"
      using ni.create_resume_exists [OF W, of L ?j sc u] i a mem u p False
      by (intro result_answer [OF s]) (auto)
    with False f ph st show ?thesis by (simp add: spec_resume_def)
  qed
qed

lemma add_result:
  assumes W: "wamr_mem_laws W" and i: "cc_loaded L i" and s: "coffee_sess s sc"
    and f: "sp_fn s = ''add''" and ph: "sp_phase s = Get_wait"
    and m: "coffee_mem s u (contents L i) (wi_data i)"
    and u: "nul_free u" "length u < 256" and p: "sc_pending_type sc = 0"
  shows "coffee_result L (step_resume (native_imports W) L (cc_st sc i)) (spec_resume s u)"
proof -
  note a = coffee_args [OF s]
  let ?j = "no_exit i" and ?v = "dec_str (unat (atoul u + atoul (sp_arg s)))"
  have mem: "contents L i Cur_val = cfield 256 u" "contents L i Function = cfield 64 (sp_fn s)"
    "contents L i Person = cfield 64 (sp_key s)" "contents L i Arg1 = cfield 64 (sp_arg s)"
    "current_op (wi_data i) = OP_ADD" "fsm_state (wi_data i) = 21"
    using m ph f by (auto simp: coffee_mem_def)
  have st: "step_resume (native_imports W) L (cc_st sc i) = cc_do_add_resume (native_imports W) L (cc_st sc ?j)"
    using ni.resume_running [of i W L sc] mem by simp
  show ?thesis
  proof (cases "u = []")
    case True
    have "coffee_result L (cc_do_add_resume (native_imports W) L (cc_st sc ?j)) (spec_answer ''EMPTY'' s)"
      using ni.add_resume_empty [OF W, of L ?j sc] i a mem p True
      by (intro result_answer [OF s]) auto
    with True f ph st show ?thesis by (simp add: spec_resume_def)
  next
    case False
    have "length ?v < 256" using length_dec_str_u32 [of "atoul u + atoul (sp_arg s)"] by simp
    then have "coffee_result L (cc_do_add_resume (native_imports W) L (cc_st sc ?j))
        (Put_state (sp_key s) ?v, s\<lparr>sp_phase := Put_wait\<rparr>)"
      using ni.add_resume_put [OF W, of L ?j sc u "sp_key s" "sp_arg s"] i a mem u False
      by (intro result_put [OF s]) (auto simp: coffee_mem_def)
    with False f ph st show ?thesis by (simp add: spec_resume_def)
  qed
qed

lemma query_result:
  assumes W: "wamr_mem_laws W" and i: "cc_loaded L i" and s: "coffee_sess s sc"
    and f: "sp_fn s = ''query''" and ph: "sp_phase s = Get_wait"
    and m: "coffee_mem s u (contents L i) (wi_data i)"
    and u: "nul_free u" "length u < 256" and p: "sc_pending_type sc = 0"
  shows "coffee_result L (step_resume (native_imports W) L (cc_st sc i)) (spec_resume s u)"
proof -
  note a = coffee_args [OF s]
  let ?j = "no_exit i"
  have mem: "contents L i Cur_val = cfield 256 u" "contents L i Function = cfield 64 (sp_fn s)"
    "current_op (wi_data i) = OP_QUERY" "fsm_state (wi_data i) = 31"
    using m ph f by (auto simp: coffee_mem_def)
  have st: "step_resume (native_imports W) L (cc_st sc i) = cc_do_query_resume (native_imports W) L (cc_st sc ?j)"
    using ni.resume_running [of i W L sc] mem by simp
  show ?thesis
  proof (cases "u = []")
    case True
    have "coffee_result L (cc_do_query_resume (native_imports W) L (cc_st sc ?j)) (spec_answer ''NOTFOUND'' s)"
      using ni.query_resume_missing [OF W, of L ?j sc] i a mem p True
      by (intro result_answer [OF s]) auto
    with True f ph st show ?thesis by (simp add: spec_resume_def)
  next
    case False
    have "coffee_result L (cc_do_query_resume (native_imports W) L (cc_st sc ?j)) (spec_answer u s)"
      using ni.query_resume_found [OF W, of L ?j sc u] i a mem u p False
      by (intro result_answer [OF s]) auto
    with False f ph st show ?thesis by (simp add: spec_resume_def)
  qed
qed

lemma put_result:
  assumes W: "wamr_mem_laws W" and i: "cc_loaded L i" and s: "coffee_sess s sc"
    and ph: "sp_phase s = Put_wait" and m: "coffee_mem s u (contents L i) (wi_data i)"
    and p: "sc_pending_type sc = 0"
  shows "coffee_result L (step_resume (native_imports W) L (cc_st sc i)) (spec_resume s u)"
proof -
  note a = coffee_args [OF s]
  let ?j = "no_exit i"
  have mem: "contents L i Function = cfield 64 (sp_fn s)"
    and op: "current_op (wi_data i) = OP_CREATE \<and> fsm_state (wi_data i) = 12 \<or>
      current_op (wi_data i) = OP_ADD \<and> fsm_state (wi_data i) = 22"
    using m ph by (auto simp: coffee_mem_def)
  then have "cc_moves L (step_resume (native_imports W) L (cc_st sc i)) (wi_size i)
      (sc\<lparr>sc_response := cfield 256 ''OK'', sc_has_response := 1\<rparr>) (contents L i)
      ((wi_data i)\<lparr>g_should_exit := 0, fsm_state := 0, current_op := OP_NONE\<rparr>)"
    using ni.resume_running [of i W L sc] ni.create_resume_done [OF W, of L ?j sc]
      ni.add_resume_done [OF W, of L ?j sc] i a(13) by auto
  then have "coffee_result L (step_resume (native_imports W) L (cc_st sc i)) (spec_answer ''OK'' s)"
    using mem by (intro result_answer [OF s _ _ _ p]) auto
  with ph show ?thesis by (simp add: spec_resume_def)
qed

lemma dead_result:
  assumes i: "cc_loaded L i" and s: "coffee_sess s sc"
    and ph: "sp_phase s = Dead" and m: "coffee_mem s u (contents L i) (wi_data i)"
    and p: "sc_pending_type sc = 0"
  shows "coffee_result L (step_resume (native_imports W) L (cc_st sc i)) (spec_resume s u)"
proof -
  have mem: "contents L i Function = cfield 64 (sp_fn s)"
    "current_op (wi_data i) = OP_CREATE" "fsm_state (wi_data i) = 0"
    using m ph by (auto simp: coffee_mem_def)
  have mv: "cc_moves L (step_resume (native_imports W) L (cc_st sc i)) (wi_size i) sc (contents L i)
      ((wi_data i)\<lparr>g_should_exit := 0\<rparr>)"
    using ni.resume_running [of i W L sc] mem i by (auto simp: cc_do_create_resume_def intro!: cc_movesI)
  have "outgoing sc ps = encode_request (Response (case sp_last s of None \<Rightarrow> ''NO_RESPONSE'' | Some m \<Rightarrow> m)) ps" for ps
    using s p by (auto simp: coffee_sess_def outgoing_def encode_request_def Let_def split: option.splits)
  then show ?thesis
    using s p ph mem by (intro coffee_resultI [OF mv]) (auto simp: spec_resume_def coffee_pending_def coffee_mem_def)
qed

lemma step_result:
  assumes W: "wamr_mem_laws W" and i: "cc_loaded L i" and s: "coffee_sess s sc"
    and m: "coffee_mem s u (contents L i) (wi_data i)"
    and u: "nul_free u" "length u < 256" and p: "sc_pending_type sc = 0"
  shows "coffee_result L (step_resume (native_imports W) L (cc_st sc i)) (spec_resume s u)"
proof (cases "sp_phase s")
  case Ready
  with ready_result [OF W i s _ m p] show ?thesis by (simp add: spec_resume_def)
next
  case Get_wait
  then have "sp_fn s = ''create'' \<or> sp_fn s = ''add'' \<or> sp_fn s = ''query''"
    using m by (auto simp: coffee_mem_def)
  then show ?thesis
    using create_result [OF W i s _ Get_wait m u p] add_result [OF W i s _ Get_wait m u p]
      query_result [OF W i s _ Get_wait m u p] by blast
next
  case Put_wait
  then show ?thesis by (rule put_result [OF W i s _ m p])
next
  case Dead
  then show ?thesis by (rule dead_result [OF i s _ m p])
qed

lemma hostcall_coffee:
  assumes A: "wamr_runs_coffee A L" and ta: "ta_sess ta = Some sc" "wc_module_inst (ta_runtime_ctx ta) = Some i"
    and i: "cc_loaded L i" and s: "coffee_sess s sc" and m: "coffee_mem s u (contents L i) (wi_data i)"
    and u: "nul_free u" "length u < 256" and p: "sc_pending_type sc = 0"
    and buf: "320 \<le> length (p_buffer (par2 ps))"
  shows "\<exists>ta'. process_hostcall_flow A ps ta = Some (TEE_SUCCESS, encode_request (fst (spec_resume s u)) ps, ta') \<and>
     coffee_rel L (snd (spec_resume s u)) ta' \<and> ta_allocs ta' = ta_allocs ta \<and> ta_heap_size ta' = ta_heap_size ta"
proof -
  have W: "wamr_mem_laws (rt_mem A)" using A by (simp add: wamr_runs_coffee_def)
  obtain sz sc' c g where
    mv: "cc_moves L (step_resume (native_imports (rt_mem A)) L (cc_st sc i)) sz sc' c g"
    and sc': "coffee_sess (snd (spec_resume s u)) sc'" "coffee_pending L (snd (spec_resume s u)) sc'"
      "coffee_mem (snd (spec_resume s u)) [] c g"
    and out: "\<And>ps. outgoing sc' ps = encode_request (fst (spec_resume s u)) ps"
    using step_result [OF W i s m u p] unfolding coffee_result_def by blast
  obtain i' where cs: "call_step A ''step_resume'' (ta_runtime_ctx ta) (Some sc) =
      Some (True, (ta_runtime_ctx ta)\<lparr>wc_module_inst := Some i', wc_exec_env := None\<rparr>, Some sc')"
    and i': "cc_loaded L i'" "contents L i' = c" "wi_data i' = g"
    using call_step_coffee [OF A ta(2) i mv] by blast
  from hostcall_ok [OF ta(1) _ cs coffee_args(14) [OF sc'(1)] buf] coffee_args(15) [OF s]
  show ?thesis using out sc' i' by (auto simp: coffee_rel_def)
qed

text \<open>The value a \<open>RESUME_WASM\<close> delivers: the string in the \<open>value\<close> field, at most 255 bytes.\<close>

definition host_value :: "char list \<Rightarrow> string" where
  "host_value buf = take 255 (cstr (drop 64 buf))"

lemma deliver_coffee:
  assumes W: "wamr_mem_laws W" and i: "cc_loaded L i"
    and sc: "sc_wasm_out_offset sc = at_g_cur_val L" "sc_wasm_out_len sc = 256" and t: "terminated (drop 64 buf)"
  shows "\<exists>i' x. deliver_get_response W buf sc (Some i) =
      Some (sc\<lparr>sc_pending_type := 0, sc_wasm_out_offset := 0, sc_wasm_out_len := 0\<rparr>, Some i') \<and>
      cc_loaded L i' \<and> contents L i' = (contents L i)(Cur_val := x) \<and> wi_data i' = wi_data i \<and>
      (contents L i Cur_val = replicate 256 NUL \<longrightarrow> x = cfield 256 (host_value buf))"
proof -
  let ?u = "host_value buf" and ?a = "unat (at_g_cur_val L)"
  have b: "?a + 256 \<le> wi_size i" "?a < wi_size i" "at_g_cur_val L \<noteq> 0"
    using cc_bounds_buf(4) [OF i] cc_start_buf(4) [OF i] i by (auto simp: cc_loaded_def layout_ok_def)
  have v: "wasm_runtime_validate_app_addr W i (at_g_cur_val L) 256 = (True, i)"
    "wasm_runtime_addr_app_to_native W i (at_g_cur_val L) = Some ?a"
    using W b by (simp_all add: wamr_mem_laws_def)
  have len: "safe_strlen (Some (drop 64 buf)) (size_minus_1 256) = Some (length ?u)"
    using t by (simp add: safe_strlen_terminated size_minus_1_def host_value_def)
  have tk: "take (length ?u) (drop 64 buf) = ?u"
    using take_length_cstr [of "drop 64 buf"] by (metis host_value_def length_take min.commute take_take)
  have lu: "length ?u \<le> 255" by (simp add: host_value_def)
  show ?thesis
  proof (cases "?u = []")
    case True
    with i sc len v show ?thesis
      by (intro exI [of _ i] exI [of _ "contents L i Cur_val"]) (simp add: deliver_get_response_def Let_def b)
  next
    case False
    have "store ?a (take 255 ?u) (store ?a (replicate 256 NUL) (wi_mem i)) = store ?a (cfield 256 ?u) (wi_mem i)"
      using store_cfield [of 256 ?a ?u "wi_mem i"] by simp
    with lu have st: "i\<lparr>wi_mem := store ?a ?u (store ?a (replicate 256 NUL) (wi_mem i))\<rparr> = put_buf L Cur_val (cfield 256 ?u) i"
      by (simp add: put_buf_def)
    from False i sc len v lu b tk st show ?thesis
      by (intro exI [of _ "put_buf L Cur_val (cfield 256 ?u) i"] exI [of _ "cfield 256 ?u"]) (simp add: deliver_get_response_def Let_def lm_put_def)
  qed
qed


lemma nul_free_host_value [simp]: "nul_free (host_value buf)" "length (host_value buf) < 256"
  by (simp_all add: host_value_def)

lemma resume_coffee:
  assumes A: "wamr_runs_coffee A L" and r: "coffee_rel L s ta"
    and buf: "320 \<le> length (p_buffer (par2 ps))" "terminated (drop 64 (p_buffer (par2 ps)))"
  shows "\<exists>ta'. resume_wasm A ps ta = Some (TEE_SUCCESS,
       encode_request (fst (spec_resume s (host_value (p_buffer (par2 ps))))) ps, ta') \<and>
     coffee_rel L (snd (spec_resume s (host_value (p_buffer (par2 ps))))) ta' \<and>
     ta_allocs ta' = ta_allocs ta \<and> ta_heap_size ta' = ta_heap_size ta"
proof -
  let ?u = "host_value (p_buffer (par2 ps))"
  obtain sc i where ta: "ta_sess ta = Some sc" "wc_module_inst (ta_runtime_ctx ta) = Some i"
    and i: "cc_loaded L i" and s: "coffee_sess s sc" "coffee_pending L s sc"
      "coffee_mem s [] (contents L i) (wi_data i)"
    using r by (auto simp: coffee_rel_def)
  have W: "wamr_mem_laws (rt_mem A)" using A by (simp add: wamr_runs_coffee_def)
  note rt = coffee_args(15) [OF s(1)]
  consider (get) "sc_pending_type sc = 1" | (put) "sc_pending_type sc = 2" | (none) "sc_pending_type sc = 0"
    using coffee_args(14) [OF s(1)] by (auto simp: session_inv_def)
  then show ?thesis
  proof cases
    case get
    let ?sc = "sc\<lparr>sc_pending_type := 0, sc_wasm_out_offset := 0, sc_wasm_out_len := 0\<rparr>"
    obtain j x where d: "deliver_get_response (rt_mem A) (p_buffer (par2 ps)) sc (Some i) = Some (?sc, Some j)"
      and j: "cc_loaded L j" "contents L j = (contents L i)(Cur_val := x)" "wi_data j = wi_data i"
      and x: "contents L i Cur_val = replicate 256 NUL \<longrightarrow> x = cfield 256 ?u"
      using deliver_coffee [OF W i _ _ buf(2), of sc] s(2) get by (auto simp: coffee_pending_def)
    have m: "coffee_mem s ?u (contents L j) (wi_data j)"
      using s(2,3) x get j by (auto simp: coffee_mem_def coffee_pending_def split: cc_phase.splits)
    show ?thesis
      using hostcall_coffee [OF A _ _ j(1) coffee_sess_clear(2) [OF s(1)] m _ _ _ buf(1),
          of "ta\<lparr>ta_sess := Some ?sc, ta_runtime_ctx := (ta_runtime_ctx ta)\<lparr>wc_module_inst := Some j\<rparr>\<rparr>"]
        d get rt ta by (simp add: resume_wasm_def)
  next
    case put
    have m: "coffee_mem s ?u (contents L i) (wi_data i)"
      using s(2,3) put by (auto simp: coffee_mem_def coffee_pending_def split: cc_phase.splits)
    show ?thesis
      using hostcall_coffee [OF A _ _ i coffee_sess_clear(1) [OF s(1)] m _ _ _ buf(1),
          of "ta\<lparr>ta_sess := Some (sc\<lparr>sc_pending_type := 0\<rparr>),
            ta_runtime_ctx := (ta_runtime_ctx ta)\<lparr>wc_module_inst := Some i\<rparr>\<rparr>"]
        put rt ta by (simp add: resume_wasm_def)
  next
    case none
    have m: "coffee_mem s ?u (contents L i) (wi_data i)"
      using s(2,3) none by (auto simp: coffee_mem_def coffee_pending_def split: cc_phase.splits)
    show ?thesis
      using hostcall_coffee [OF A _ _ i s(1) m _ _ none buf(1),
          of "ta\<lparr>ta_sess := Some sc, ta_runtime_ctx := (ta_runtime_ctx ta)\<lparr>wc_module_inst := Some i\<rparr>\<rparr>"]
        none rt ta by (simp add: resume_wasm_def)
  qed
qed

text \<open>
  \<open>RUN_WASM\<close>: the three argument rows the chaincode looks at, and the machine the command
  starts. The machine inherits the session's last response, because the command does not
  reset it.
\<close>

definition arg_of :: "char list \<Rightarrow> nat \<Rightarrow> string" where
  "arg_of buf j = take 63 (cstr (drop (j * 64) (take 640 buf)))"

definition last_response :: "session \<Rightarrow> string option" where
  "last_response sc = (if sc_has_response sc = 0 then None else Some (cstr (sc_response sc)))"

definition spec_start :: "char list \<Rightarrow> string option \<Rightarrow> cc_spec" where
  "spec_start buf lst = \<lparr>sp_fn = arg_of buf 0, sp_key = arg_of buf 1, sp_arg = arg_of buf 2,
     sp_phase = Ready, sp_last = lst\<rparr>"

definition malloc_ok :: "tee_malloc \<Rightarrow> nat list \<Rightarrow> nat \<Rightarrow> nat \<Rightarrow> bool" where
  "malloc_ok M allocs h n \<longleftrightarrow> M allocs h \<and> M (allocs @ [h]) n"
  \<comment> \<open>\<open>RUN_WASM\<close> gets both its blocks: the heap and the copy of the module\<close>

lemma encode_request_value [simp]: "encode_request r (set_value v ps) = encode_request r ps"
  by (auto simp: encode_request_def Let_def set_value_def split: request.splits)

lemma receive_arguments_640:
  assumes "640 \<le> length buf" and "wf_session sc"
  shows "receive_arguments buf sc = Some (sc\<lparr>sc_args := take 640 buf\<rparr>)"
  using assms by (simp add: receive_arguments_def TEE_MemMove_def buf_write_def wf_session_def)

lemma coffee_sess_start:
  assumes "session_inv sc" and "sc_has_response sc \<noteq> 0 \<longrightarrow> cstr (sc_response sc) \<noteq> []"
    and "640 \<le> length buf" and "buf ! 639 = NUL"
  shows "coffee_sess (spec_start buf (last_response sc)) (sc\<lparr>sc_args := take 640 buf,
     sc_heap_buf_owned := h, sc_trusted_wasm_owned := w, sc_runtime := True\<rparr>)"
proof -
  have ne: "take 640 buf \<noteq> []" using assms(3) by auto
  then have "last (take 640 buf) = NUL"
    using assms(3,4) by (subst last_conv_nth) (simp_all add: min_def)
  with ne show ?thesis
    using assms by (auto simp: coffee_sess_def session_inv_def wf_session_def args_terminated_def spec_start_def
        arg_of_def arg_row_def last_response_def)
qed

lemma run_coffee:
  assumes A: "wamr_runs_coffee A L" "wamr_loads_coffee A L (p_buffer (par0 ps))"
    and M: "malloc_ok M (ta_allocs ta) (unat (ta_heap_size ta)) (length (p_buffer (par0 ps)))"
    and sc: "ta_sess ta = Some sc" "session_inv sc" "sc_pending_type sc = 0"
      "sc_has_response sc \<noteq> 0 \<longrightarrow> cstr (sc_response sc) \<noteq> []"
    and buf: "640 \<le> length (p_buffer (par2 ps))" "p_buffer (par2 ps) ! 639 = NUL"
  defines "s \<equiv> spec_start (p_buffer (par2 ps)) (last_response sc)"
  shows "\<exists>ta'. run_wasm A M ps ta = Some (TEE_SUCCESS, encode_request (fst (spec_dispatch s)) ps, ta') \<and>
     coffee_rel L (snd (spec_dispatch s)) ta' \<and> ta_heap_size ta' = ta_heap_size ta \<and>
     ta_allocs ta' = ta_allocs ta @ [unat (ta_heap_size ta), length (p_buffer (par0 ps))]"
proof -
  let ?wasm = "p_buffer (par0 ps)" and ?n = "length (ta_allocs ta)"
  obtain m i where boot: "\<And>a. wasm_runtime_full_init A a"
      "wasm_runtime_load A ?wasm (length ?wasm mod 2 ^ 32) = Some m"
      "wasm_runtime_instantiate A m (256 * 1024) (64 * 1024) = Some i" and i: "fresh_coffee L i"
    using A(2) by (auto simp: wamr_loads_coffee_def)
  then have l: "cc_loaded L i" and mem: "coffee_mem s [] (contents L i) (wi_data i)"
    by (auto simp: fresh_coffee_def coffee_mem_def s_def spec_start_def zero_globals_def)
  let ?sc = "sc\<lparr>sc_args := take 640 (p_buffer (par2 ps)), sc_heap_buf_owned := Some ?n,
     sc_trusted_wasm_owned := Some (Suc ?n), sc_runtime := True\<rparr>"
  have cs: "coffee_sess s ?sc" unfolding s_def by (rule coffee_sess_start) (use sc buf in auto)
  have d: "spec_resume s [] = spec_dispatch s" by (simp add: spec_resume_def s_def spec_start_def)
  have H: "\<exists>ta'. process_hostcall_flow A (set_value 0 ps) t =
        Some (TEE_SUCCESS, encode_request (fst (spec_dispatch s)) ps, ta') \<and>
      coffee_rel L (snd (spec_dispatch s)) ta' \<and> ta_heap_size ta' = ta_heap_size ta \<and>
      ta_allocs ta' = ta_allocs ta @ [unat (ta_heap_size ta), length ?wasm]"
    if "ta_sess t = Some ?sc" "wc_module_inst (ta_runtime_ctx t) = Some i"
      "ta_heap_size t = ta_heap_size ta" "ta_allocs t = ta_allocs ta @ [unat (ta_heap_size ta), length ?wasm]" for t
    using hostcall_coffee [OF A(1) that(1,2) l cs mem, where ps = "set_value 0 ps"] that sc(3) buf(1) d by auto
  show ?thesis
    using M sc buf boot(2,3)
    by (simp add: run_wasm_def Let_def TEE_Malloc_def malloc_ok_def receive_arguments_640
        TA_InitializeWamrRuntime_def boot(1) call_step_init_coffee [OF A(1) _ l]) (rule H, simp_all)
qed

section \<open>The commands refine the machine\<close>

text \<open>
  A concrete runtime for the witnesses: the address functions of \<open>ref_wamr\<close>, the exports of
  the chaincode under the numbers 0 and 1, and a memory that holds the string literals.
\<close>

definition demo_layout :: cc_layout where
  "demo_layout = \<lparr>at_g_function = 1024, at_g_arg0 = 1088, at_g_arg1 = 1152, at_g_person = 1216,
     at_g_cur_val = 1280, at_g_tmp = 1536,
     at_lit = (\<lambda>s. if s = ''EXIST'' then 2000 else if s = ''OK'' then 2010 else if s = ''EMPTY'' then 2020
                else if s = ''NOTFOUND'' then 2030 else 2040)\<rparr>"

definition demo_image :: lmem where
  "demo_image = store 2000 ''EXIST'' (store 2010 ''OK'' (store 2020 ''EMPTY''
     (store 2030 ''NOTFOUND'' (store 2040 ''ERROR'' (\<lambda>_. NUL)))))"

definition demo_coffee :: "cc_globals wasm_inst" where
  "demo_coffee = \<lparr>wi_mem = demo_image, wi_size = 65536, wi_exception = None, wi_data = zero_globals\<rparr>"

definition demo_wamr :: "cc_globals wamr_api" where
  "demo_wamr = \<lparr>rt_mem = ref_wamr, wasm_runtime_full_init = (\<lambda>_. True),
     wasm_runtime_load = (\<lambda>_ _. Some 0), wasm_runtime_instantiate = (\<lambda>_ _ _. Some demo_coffee),
     wasm_runtime_lookup_function = (\<lambda>_ name. if name = ''step_init'' then Some 0
        else if name = ''step_resume'' then Some 1 else None),
     wasm_runtime_create_exec_env = (\<lambda>_ _. Some 0),
     wasm_runtime_call_wasm = (\<lambda>_ f st. map_option (\<lambda>st. (\<not> trapped st, st))
        (if f = 0 then step_init st else step_resume (native_imports ref_wamr) demo_layout st)),
     wasm_application_execute_main = (\<lambda>st. Some (False, st))\<rparr>"

lemma demo_layout_ok: "layout_ok demo_layout 65536"
  by (simp add: layout_ok_def demo_layout_def all_bufs_def cc_literals_def disjoint_regions_def)

lemma load_demo_zero:
  "a + n \<le> 2000 \<Longrightarrow> load demo_image a n = replicate n NUL"
  by (rule nth_equalityI) (auto simp: demo_image_def store_def)

lemma demo_literals: "literals_loaded demo_layout demo_coffee"
  by (simp add: literals_loaded_def cc_literals_def demo_coffee_def demo_layout_def demo_image_def
      load_store_disjoint disjoint_regions_def)

lemma demo_fresh: "fresh_coffee demo_layout demo_coffee"
proof -
  have "contents demo_layout demo_coffee b = replicate (buf_len b) NUL" for b
    by (cases b) (simp_all add: contents_def demo_coffee_def demo_layout_def load_demo_zero)
  then show ?thesis
    using demo_literals by (simp add: fresh_coffee_def cc_loaded_def demo_layout_ok demo_coffee_def)
qed

lemma demo_runs: "wamr_runs_coffee demo_wamr demo_layout"
  by (auto simp: wamr_runs_coffee_def demo_wamr_def ref_wamr_laws)

lemma demo_loads: "wamr_loads_coffee demo_wamr demo_layout wasm"
  by (auto simp: wamr_loads_coffee_def demo_wamr_def demo_fresh)

definition demo_ta :: "cc_globals ta_state" where
  "demo_ta = \<lparr>ta_heap_size = 10485760, ta_sess = Some zero_session,
     ta_runtime_ctx = \<lparr>wc_wasm_bytecode = [], wc_wasm_bytecode_size = 0, wc_wasm_bytecode_hash = replicate 32 NUL,
       wc_heap_buf = None, wc_heap_size = 0, wc_module = None, wc_module_inst = None, wc_exec_env = None,
       wc_native_symbols = []\<rparr>, ta_singleton = False, ta_allocs = [sizeof_session], ta_output_size = None\<rparr>"

definition demo_params :: "char list \<Rightarrow> tee_params" where
  "demo_params buf = \<lparr>par0 = \<lparr>p_value_a = 0, p_buffer = [NUL]\<rparr>, par1 = \<lparr>p_value_a = 0, p_buffer = []\<rparr>,
     par2 = \<lparr>p_value_a = 0, p_buffer = buf\<rparr>, par3 = \<lparr>p_value_a = 0, p_buffer = []\<rparr>\<rparr>"

definition demo_args :: "char list" where
  "demo_args = cfield 64 ''create'' @ cfield 64 ''ann'' @ cfield 64 ''5'' @ replicate 448 NUL"

lemma demo_start: "spec_start demo_args lst = \<lparr>sp_fn = ''create'', sp_key = ''ann'', sp_arg = ''5'',
    sp_phase = Ready, sp_last = lst\<rparr>"
  by (simp add: spec_start_def arg_of_def demo_args_def cfield_short cstr_append_terminated)

lemma demo_args_ok: "length demo_args = 640" "demo_args ! 639 = NUL"
  by (simp_all add: demo_args_def nth_append)

text \<open>
  C4: \<open>RUN_WASM\<close> refines the machine. With a runtime that executes the coffee module, both
  allocations granted and an open session that is not waiting for the host, the command
  succeeds, leaves the machine's first request in the shared buffer, and the TA then stands
  for the machine after that move. This holds for every argument buffer of 640 bytes that
  ends with a NUL byte, so for every function name and every argument.
\<close>

theorem run_refines_machine:
  assumes "wamr_runs_coffee A L" and "wamr_loads_coffee A L (p_buffer (par0 ps))"
    and "malloc_ok M (ta_allocs ta) (unat (ta_heap_size ta)) (length (p_buffer (par0 ps)))"
    and "ta_sess ta = Some sc" and "session_inv sc" and "sc_pending_type sc = 0"
    and "sc_has_response sc \<noteq> 0 \<longrightarrow> cstr (sc_response sc) \<noteq> []"
    and "640 \<le> length (p_buffer (par2 ps))" and "p_buffer (par2 ps) ! 639 = NUL"
  shows "\<exists>ta'. TA_InvokeCommandEntryPoint A M COMMAND_RUN_WASM run_param_types ps ta =
       Some (TEE_SUCCESS,
         encode_request (fst (spec_dispatch (spec_start (p_buffer (par2 ps)) (last_response sc)))) ps, ta') \<and>
     coffee_rel L (snd (spec_dispatch (spec_start (p_buffer (par2 ps)) (last_response sc)))) ta'"
  using run_coffee [OF assms] by (auto simp: TA_InvokeCommandEntryPoint_def)

theorem run_refines_machine_witness:
  "\<exists>ta'. TA_InvokeCommandEntryPoint demo_wamr (\<lambda>_ _. True) COMMAND_RUN_WASM run_param_types (demo_params demo_args) demo_ta =
       Some (TEE_SUCCESS, encode_request (Get_state ''ann'') (demo_params demo_args), ta') \<and>
     coffee_rel demo_layout \<lparr>sp_fn = ''create'', sp_key = ''ann'', sp_arg = ''5'', sp_phase = Get_wait, sp_last = None\<rparr> ta'"
  using run_refines_machine [OF demo_runs demo_loads, of "\<lambda>_ _. True" demo_ta "demo_params demo_args" zero_session]
    zero_session_ok(1) demo_args_ok
  by (simp add: malloc_ok_def demo_ta_def demo_params_def demo_start spec_dispatch_def last_response_def)
    (simp add: zero_session_def)

text \<open>
  C3: \<open>RESUME_WASM\<close> refines the machine, from every state a \<open>RUN_WASM\<close> or an earlier
  \<open>RESUME_WASM\<close> can leave behind: the string the host put into the value field is the input
  of the machine's move, the move's request is what comes out, and the relation holds again.
  Create, add, query and unknown functions, present and absent keys are all cases of
  \<open>spec_resume\<close>.
\<close>

theorem resume_refines_machine:
  assumes "wamr_runs_coffee A L" and "coffee_rel L s ta"
    and "320 \<le> length (p_buffer (par2 ps))" and "terminated (drop 64 (p_buffer (par2 ps)))"
  shows "\<exists>ta'. TA_InvokeCommandEntryPoint A M COMMAND_RESUME_WASM resume_param_types ps ta =
       Some (TEE_SUCCESS, encode_request (fst (spec_resume s (host_value (p_buffer (par2 ps))))) ps, ta') \<and>
     coffee_rel L (snd (spec_resume s (host_value (p_buffer (par2 ps))))) ta'"
  using resume_coffee [OF assms] by (auto simp: TA_InvokeCommandEntryPoint_def)

lemma demo_waiting:
  "\<exists>ta. coffee_rel demo_layout \<lparr>sp_fn = ''create'', sp_key = ''ann'', sp_arg = ''5'',
     sp_phase = Get_wait, sp_last = None\<rparr> ta"
  using run_coffee [OF demo_runs demo_loads, of "\<lambda>_ _. True" demo_ta "demo_params demo_args" zero_session]
    zero_session_ok(1) demo_args_ok
  by (simp add: malloc_ok_def demo_ta_def demo_params_def demo_start spec_dispatch_def last_response_def)
    (auto simp: zero_session_def)

theorem resume_refines_machine_witness:
  "\<exists>ta ta'. TA_InvokeCommandEntryPoint demo_wamr (\<lambda>_ _. True) COMMAND_RESUME_WASM resume_param_types
       (demo_params (replicate 320 NUL)) ta =
     Some (TEE_SUCCESS, encode_request (Put_state ''ann'' ''5'') (demo_params (replicate 320 NUL)), ta') \<and>
     coffee_rel demo_layout \<lparr>sp_fn = ''create'', sp_key = ''ann'', sp_arg = ''5'', sp_phase = Put_wait, sp_last = None\<rparr> ta'"
proof -
  obtain ta where "coffee_rel demo_layout \<lparr>sp_fn = ''create'', sp_key = ''ann'', sp_arg = ''5'',
     sp_phase = Get_wait, sp_last = None\<rparr> ta" using demo_waiting by blast
  from resume_refines_machine [OF demo_runs this, of "demo_params (replicate 320 NUL)" "\<lambda>_ _. True"]
  show ?thesis by (auto simp: demo_params_def host_value_def spec_resume_def)
qed

section \<open>Progress\<close>









end
