(* ===== verification/Fixed_Proxy.thy ===== *)
theory Fixed_Proxy
  imports Ta_Main
begin

unbundle bit_operations_syntax

text \<open>
  \<open>src/fixed-proxy/main.cpp\<close>: the normal-world proxy. It opens a TEE session, packs an
  invocation into the shared buffer, starts the chaincode with \<open>RUN_WASM\<close> and then forwards
  state requests between the TA and the chaincode wrapper until a response arrives.

  Parameters of the model: the TEE client API (\<open>teec_api\<close>), the bidirectional gRPC stream
  (\<open>grpc_stream\<close>) and the host's files and allocator (\<open>host_os\<close>). The messages are those of
  \<open>src/fixed-proxy/invocation.proto\<close>. Reading an unset member of a \<open>oneof\<close> gives its
  default, the empty string. Log output and time stamps are left out.
\<close>

section \<open>Messages and parameters\<close>

record invocation_request =
  ir_chaincode_uuid :: string
  ir_function_name :: string
  ir_arguments :: "string list"
  ir_aot_file :: string

datatype wrapper_msg =
    Wrapper_not_set
  | Invocation_request invocation_request
  | Get_state_response string
  | Put_state_response string

datatype proxy_msg =
    Proxy_not_set
  | Invocation_response string
  | Get_state_request string
  | Put_state_request string string

definition no_invocation :: invocation_request where
  "no_invocation = \<lparr>ir_chaincode_uuid = [], ir_function_name = [], ir_arguments = [], ir_aot_file = []\<rparr>"

definition invocation_request_of :: "wrapper_msg \<Rightarrow> invocation_request" where
  "invocation_request_of m = (case m of Invocation_request r \<Rightarrow> r | _ \<Rightarrow> no_invocation)"

definition get_state_value :: "wrapper_msg \<Rightarrow> string" where
  "get_state_value m = (case m of Get_state_response v \<Rightarrow> v | _ \<Rightarrow> [])"

definition put_state_acknowledgement :: "wrapper_msg \<Rightarrow> string" where
  "put_state_acknowledgement m = (case m of Put_state_response a \<Rightarrow> a | _ \<Rightarrow> [])"

record 'w grpc_stream =
  stream_Write :: "proxy_msg \<Rightarrow> 'w \<Rightarrow> bool \<times> 'w"
  stream_Read :: "'w \<Rightarrow> wrapper_msg option \<times> 'w"

record 'd teec_api =
  TEEC_InitializeContext :: "'d \<Rightarrow> TEE_Result \<times> 'd"
  TEEC_OpenSession :: "'d \<Rightarrow> TEE_Result \<times> 'd"
  TEEC_InvokeCommand :: "u32 \<Rightarrow> u32 \<Rightarrow> tee_params \<Rightarrow> 'd \<Rightarrow> (TEE_Result \<times> tee_params \<times> 'd) option"
  TEEC_CloseSession :: "'d \<Rightarrow> 'd"
  TEEC_FinalizeContext :: "'d \<Rightarrow> 'd"

record host_os =
  os_fopen :: "string \<Rightarrow> char list option"
  os_malloc :: "nat \<Rightarrow> cptr"
  os_calloc :: "nat \<Rightarrow> bool"

record 'd tee_ctx =
  tc_tee :: 'd
  tc_output_buffer :: cptr
  tc_output_buffer_size :: nat
  tc_benchmark_buffer :: cptr
  tc_benchmark_buffer_size :: nat

section \<open>The TEE session\<close>

text \<open>\<open>exit (1)\<close> is \<open>Inl 1\<close>. \<open>TEEC_PARAM_TYPES\<close> and the type numbers are those of the TA side.\<close>

definition prepare_tee_session :: "'d teec_api \<Rightarrow> 'd tee_ctx \<Rightarrow> int + 'd tee_ctx" where
  "prepare_tee_session T ctx =
     (case TEEC_InitializeContext T (tc_tee ctx) of
        (res, d) \<Rightarrow>
          if res \<noteq> TEE_SUCCESS then Inl 1
          else case TEEC_OpenSession T d of
            (res, d) \<Rightarrow> if res \<noteq> TEE_SUCCESS then Inl 1 else Inr (ctx\<lparr>tc_tee := d\<rparr>))"

definition zero_param :: tee_param where
  "zero_param = \<lparr>p_value_a = 0, p_buffer = []\<rparr>"

definition configure_heap_size :: "'d teec_api \<Rightarrow> u32 \<Rightarrow> 'd tee_ctx \<Rightarrow> 'd tee_ctx option" where
  "configure_heap_size T sz ctx = do {
     let op = \<lparr>par0 = zero_param\<lparr>p_value_a := sz\<rparr>, par1 = zero_param, par2 = zero_param, par3 = zero_param\<rparr>;
     (res, op, d) \<leftarrow> TEEC_InvokeCommand T COMMAND_CONFIGURE_HEAP
        (TEE_PARAM_TYPES TEE_PARAM_TYPE_VALUE_INPUT TEE_PARAM_TYPE_NONE TEE_PARAM_TYPE_NONE TEE_PARAM_TYPE_NONE)
        op (tc_tee ctx);
     Some (ctx\<lparr>tc_tee := d\<rparr>)
   }"

definition allocate_buffers :: "host_os \<Rightarrow> nat \<Rightarrow> 'd tee_ctx \<Rightarrow> 'd tee_ctx" where
  "allocate_buffers os buffers_size ctx =
     ctx\<lparr>tc_output_buffer := os_malloc os buffers_size, tc_output_buffer_size := buffers_size,
         tc_benchmark_buffer := os_malloc os buffers_size, tc_benchmark_buffer_size := buffers_size\<rparr>"

definition terminate_tee_session :: "'d teec_api \<Rightarrow> 'd tee_ctx \<Rightarrow> 'd tee_ctx" where
  "terminate_tee_session T ctx =
     ctx\<lparr>tc_tee := TEEC_FinalizeContext T (TEEC_CloseSession T (tc_tee ctx))\<rparr>"

definition free_buffers :: "'d tee_ctx \<Rightarrow> 'd tee_ctx" where
  "free_buffers ctx = ctx\<lparr>tc_output_buffer_size := 0, tc_benchmark_buffer_size := 0,
     tc_output_buffer := None, tc_benchmark_buffer := None\<rparr>"

definition initialize_session :: "'d teec_api \<Rightarrow> host_os \<Rightarrow> 'd tee_ctx \<Rightarrow> (int + 'd tee_ctx) option" where
  "initialize_session T os ctx =
     (case prepare_tee_session T (allocate_buffers os (5 * 1024) ctx) of
        Inl code \<Rightarrow> Some (Inl code)
      | Inr ctx \<Rightarrow> map_option Inr (configure_heap_size T (10 * 1024 * 1024) ctx))"

definition cleanup_session :: "'d teec_api \<Rightarrow> 'd tee_ctx \<Rightarrow> 'd tee_ctx" where
  "cleanup_session T ctx = free_buffers (terminate_tee_session T ctx)"

definition restart_session :: "'d teec_api \<Rightarrow> host_os \<Rightarrow> 'd tee_ctx \<Rightarrow> (int + 'd tee_ctx) option" where
  "restart_session T os ctx = initialize_session T os (cleanup_session T ctx)"

section \<open>The UUID of an invocation\<close>

text \<open>
  \<open>set_uuid\<close> takes the UUID of an invocation apart. No other function of the file calls it:
  the session is always opened for \<open>TA_WAMR_UUID\<close>. Whether \<open>char\<close> is signed depends on the
  platform and is a parameter; the shifts of the promoted bytes are those of two's complement.
  \<open>std::string::operator[]\<close> gives NUL at the length and is undefined beyond it.
\<close>

record TEEC_UUID =
  timeLow :: u32
  timeMid :: "16 word"
  timeHiAndVersion :: "16 word"
  clockSeqAndNode :: "8 word list"

definition string_index :: "string \<Rightarrow> nat \<Rightarrow> char option" where
  "string_index s i = (if i < length s then Some (s ! i) else if i = length s then Some NUL else None)"

definition promote_char :: "bool \<Rightarrow> char \<Rightarrow> u32" where
  "promote_char char_signed c =
     (let b = of_char c :: 8 word in if char_signed then signed_take_bit 7 (ucast b) else ucast b)"

definition set_uuid :: "bool \<Rightarrow> invocation_request \<Rightarrow> TEEC_UUID option" where
  "set_uuid char_signed req = do {
     let at = (\<lambda>i. map_option (promote_char char_signed) (string_index (ir_chaincode_uuid req) i));
     c8 \<leftarrow> at 8; c9 \<leftarrow> at 9; c10 \<leftarrow> at 10; c11 \<leftarrow> at 11;
     c12 \<leftarrow> at 12; c13 \<leftarrow> at 13; c14 \<leftarrow> at 14; c15 \<leftarrow> at 15;
     c0 \<leftarrow> at 0; c1 \<leftarrow> at 1; c2 \<leftarrow> at 2; c3 \<leftarrow> at 3;
     c4 \<leftarrow> at 4; c5 \<leftarrow> at 5;
     c6 \<leftarrow> at 6; c7 \<leftarrow> at 7;
     Some \<lparr>timeLow = push_bit 24 c0 OR push_bit 16 c1 OR push_bit 8 c2 OR c3,
       timeMid = ucast (push_bit 8 c4 OR c5),
       timeHiAndVersion = ucast (push_bit 8 c6 OR c7),
       clockSeqAndNode = map ucast [c8, c9, c10, c11, c12, c13, c14, c15]\<rparr>
   }"

section \<open>The invocation in the shared buffer\<close>

definition structure_sizes :: "nat list" where
  "structure_sizes = [sizeof_key_value, sizeof_acknowledgement, sizeof_invocation_response, sizeof_arguments]"

definition max_size :: nat where
  "max_size = foldl (\<lambda>m n. if n > m then n else m) 0 structure_sizes"

definition pack_argument :: "nat \<Rightarrow> string \<Rightarrow> char list \<Rightarrow> char list option" where
  "pack_argument i arg buf = do {
     let alen = (if length arg \<ge> ARG_SIZE then ARG_SIZE - 1 else length arg);
     buf \<leftarrow> TEE_MemMove (i * ARG_SIZE) arg alen buf;
     buf_write (i * ARG_SIZE + alen) [NUL] buf
   }"

primrec pack_arguments :: "string list \<Rightarrow> nat \<Rightarrow> char list \<Rightarrow> char list option" where
  "pack_arguments [] i buf = Some buf"
| "pack_arguments (arg # args) i buf = do { buf \<leftarrow> pack_argument i arg buf; pack_arguments args (i + 1) buf }"

definition pack_invocation :: "string \<Rightarrow> string list \<Rightarrow> char list \<Rightarrow> char list option" where
  "pack_invocation function_name args buf = do {
     buf \<leftarrow> TEE_MemFill 0 NUL max_size buf;
     buf \<leftarrow> pack_argument 0 function_name buf;
     let n = (if length args > ARGS_NUMBER - 1 then ARGS_NUMBER - 1 else length args);
     pack_arguments (take n args) 1 buf
   }"

text \<open>A \<open>char *\<close> into the buffer read as a C string: it must end inside the buffer.\<close>

definition c_string_at :: "nat \<Rightarrow> char list \<Rightarrow> string option" where
  "c_string_at off buf = (if terminated (drop off buf) then Some (cstr (drop off buf)) else None)"

definition strncpy :: "nat \<Rightarrow> string \<Rightarrow> nat \<Rightarrow> char list \<Rightarrow> char list option" where
  "strncpy off src n buf = buf_write off (take n (cstr src) @ replicate (n - length (cstr src)) NUL) buf"

definition resume_with ::
  "'d teec_api \<Rightarrow> char list \<Rightarrow> tee_params \<Rightarrow> 'd \<Rightarrow> (TEE_Result \<times> tee_params \<times> 'd) option" where
  "resume_with T buf op d = TEEC_InvokeCommand T COMMAND_RESUME_WASM
     (TEE_PARAM_TYPES TEE_PARAM_TYPE_NONE TEE_PARAM_TYPE_VALUE_INOUT TEE_PARAM_TYPE_MEMREF_INOUT TEE_PARAM_TYPE_MEMREF_INOUT)
     (set_buffer buf op) d"

section \<open>The proxy loop\<close>

text \<open>
  One iteration per case of the \<open>switch\<close>. \<open>Inl\<close> leaves the loop through \<open>out:\<close> with the
  value of \<open>ok\<close>, \<open>Inr\<close> goes round again.
\<close>

type_synonym ('d, 'w) loop_step = "(bool \<times> 'd \<times> 'w) + (tee_params \<times> 'd \<times> 'w)"

definition finish_invocation ::
  "'w grpc_stream \<Rightarrow> tee_params \<Rightarrow> 'd \<Rightarrow> 'w \<Rightarrow> ('d, 'w) loop_step option" where
  "finish_invocation S op d w = do {
     execution_response \<leftarrow> c_string_at 0 (p_buffer (par2 op));
     let (ok, w) = stream_Write S (Invocation_response execution_response) w;
     Some (Inl (ok, d, w))
   }"

definition forward_get_state ::
  "'d teec_api \<Rightarrow> 'w grpc_stream \<Rightarrow> tee_params \<Rightarrow> 'd \<Rightarrow> 'w \<Rightarrow> ('d, 'w) loop_step option" where
  "forward_get_state T S op d w = do {
     key \<leftarrow> c_string_at 0 (p_buffer (par2 op));
     (case stream_Write S (Get_state_request key) w of
        (False, w) \<Rightarrow> Some (Inl (False, d, w))
      | (True, w) \<Rightarrow>
          (case stream_Read S w of
             (None, w) \<Rightarrow> Some (Inl (False, d, w))
           | (Some wrapper_msg, w) \<Rightarrow> do {
               let get_state_response = get_state_value wrapper_msg;
               buf \<leftarrow> TEE_MemFill 0 NUL max_size (p_buffer (par2 op));
               buf \<leftarrow> (if length get_state_response < VAL_SIZE
                      then strncpy offset_kv_value get_state_response (VAL_SIZE - 1) buf else Some buf);
               (res, op, d) \<leftarrow> resume_with T buf op d;
               Some (if res \<noteq> TEE_SUCCESS then Inl (False, d, w) else Inr (op, d, w))
             }))
   }"

definition forward_put_state ::
  "'d teec_api \<Rightarrow> 'w grpc_stream \<Rightarrow> tee_params \<Rightarrow> 'd \<Rightarrow> 'w \<Rightarrow> ('d, 'w) loop_step option" where
  "forward_put_state T S op d w = do {
     key \<leftarrow> c_string_at 0 (p_buffer (par2 op));
     val \<leftarrow> c_string_at offset_kv_value (p_buffer (par2 op));
     (case stream_Write S (Put_state_request key val) w of
        (False, w) \<Rightarrow> Some (Inl (False, d, w))
      | (True, w) \<Rightarrow>
          (case stream_Read S w of
             (None, w) \<Rightarrow> Some (Inl (False, d, w))
           | (Some wrapper_msg, w) \<Rightarrow> do {
               let put_state_response = put_state_acknowledgement wrapper_msg;
               buf \<leftarrow> TEE_MemFill 0 NUL max_size (p_buffer (par2 op));
               buf \<leftarrow> (if length put_state_response < ACK_SIZE
                      then strncpy 0 put_state_response (ACK_SIZE - 1) buf else Some buf);
               (res, op, d) \<leftarrow> resume_with T buf op d;
               Some (if res \<noteq> TEE_SUCCESS then Inl (False, d, w) else Inr (op, d, w))
             }))
   }"

definition proxy_iteration ::
  "'d teec_api \<Rightarrow> 'w grpc_stream \<Rightarrow> tee_params \<Rightarrow> 'd \<Rightarrow> 'w \<Rightarrow> ('d, 'w) loop_step option" where
  "proxy_iteration T S op d w =
     (let kind = p_value_a (par1 op) in
      if kind = word_of_int INVOCATION_RESPONSE then finish_invocation S op d w
      else if kind = word_of_int GET_STATE_REQUEST then forward_get_state T S op d w
      else if kind = word_of_int PUT_STATE_REQUEST then forward_put_state T S op d w
      else Some (Inl (False, d, w)))"

text \<open>The loop itself may run forever (a module may keep asking): not returning is \<^term>\<open>None\<close>.\<close>

partial_function (option) proxy_loop ::
  "'d teec_api \<Rightarrow> 'w grpc_stream \<Rightarrow> tee_params \<Rightarrow> 'd \<Rightarrow> 'w \<Rightarrow> (bool \<times> 'd \<times> 'w) option" where
  "proxy_loop T S op d w = Option.bind (proxy_iteration T S op d w) (\<lambda>r.
     case r of Inl res \<Rightarrow> Some res | Inr (op, d, w) \<Rightarrow> proxy_loop T S op d w)"

section \<open>An invocation\<close>

definition execute_wasm_with_grpc_proxy ::
  "'d teec_api \<Rightarrow> host_os \<Rightarrow> 'w grpc_stream \<Rightarrow> string \<Rightarrow> string \<Rightarrow> string list \<Rightarrow> 'd tee_ctx \<Rightarrow> 'w \<Rightarrow>
   (bool \<times> 'd tee_ctx \<times> 'w) option" where
  "execute_wasm_with_grpc_proxy T os S aot_file function_name args ctx w =
     (case os_fopen os (''./chaincode/'' @ aot_file) of
        None \<Rightarrow> Some (False, ctx, w)
      | Some file \<Rightarrow> do {
          block \<leftarrow> os_malloc os (length file);
          wasm_bytecode \<leftarrow> TEE_MemMove 0 file (length file) block;
          (if \<not> os_calloc os max_size then Some (False, ctx, w)
           else do {
             output \<leftarrow> tc_output_buffer ctx;
             buf \<leftarrow> pack_invocation function_name args (replicate max_size NUL);
             let op = \<lparr>par0 = zero_param\<lparr>p_buffer := take (length file) wasm_bytecode\<rparr>, par1 = zero_param,
                   par2 = zero_param\<lparr>p_buffer := buf\<rparr>,
                   par3 = zero_param\<lparr>p_buffer := take (tc_output_buffer_size ctx) output\<rparr>\<rparr>;
             (res, op, d) \<leftarrow> TEEC_InvokeCommand T COMMAND_RUN_WASM
               (TEE_PARAM_TYPES TEE_PARAM_TYPE_MEMREF_INPUT TEE_PARAM_TYPE_VALUE_INOUT
                 TEE_PARAM_TYPE_MEMREF_INOUT TEE_PARAM_TYPE_MEMREF_INOUT) op (tc_tee ctx);
             (if res \<noteq> TEE_SUCCESS then Some (False, ctx\<lparr>tc_tee := d\<rparr>, w)
              else do {
                (ok, d, w) \<leftarrow> proxy_loop T S op d w;
                Some (ok, ctx\<lparr>tc_tee := d\<rparr>, w)
              })
           })
        })"

datatype grpc_status = Status_OK | Status_UNKNOWN string

definition TransactionInvocation ::
  "'d teec_api \<Rightarrow> host_os \<Rightarrow> 'w grpc_stream \<Rightarrow> 'd tee_ctx \<Rightarrow> 'w \<Rightarrow>
   (int + (grpc_status \<times> 'd tee_ctx \<times> 'w)) option" where
  "TransactionInvocation T os S ctx w =
     (case stream_Read S w of
        (None, w) \<Rightarrow> Some (Inr (Status_UNKNOWN ''Failed to read invocation request'', ctx, w))
      | (Some wrapper_msg, w) \<Rightarrow> do {
          let r = invocation_request_of wrapper_msg;
          (success, ctx, w) \<leftarrow> execute_wasm_with_grpc_proxy T os S (ir_aot_file r) (ir_function_name r)
            (ir_arguments r) ctx w;
          restarted \<leftarrow> restart_session T os ctx;
          Some (case restarted of
             Inl code \<Rightarrow> Inl code
           | Inr ctx \<Rightarrow> Inr (if success then Status_OK else Status_UNKNOWN ''WASM execution failed'', ctx, w))
        })"

section \<open>Lemmas\<close>

lemma max_size_640 [simp]: "max_size = 640"
  by (simp add: max_size_def structure_sizes_def)

lemma pack_argument_row:
  assumes "length pre = 64 * i"
  shows "pack_argument i arg (pre @ replicate 64 NUL @ rest) = Some (pre @ cfield 64 arg @ rest)"
proof -
  let ?n = "min (length arg) 63"
  have n: "(if length arg \<ge> ARG_SIZE then ARG_SIZE - 1 else length arg) = ?n" by auto
  have r: "replicate 64 NUL = replicate ?n NUL @ NUL # replicate (63 - ?n) NUL"
    by (simp flip: replicate_Suc replicate_add add: Suc_diff_le)
  have c: "cfield 64 arg = take ?n arg @ NUL # replicate (63 - ?n) NUL"
    by (auto simp: cfield_def min_def simp flip: replicate_Suc)
  show ?thesis
    unfolding pack_argument_def n Let_def r c
    using assms by (simp add: TEE_MemMove_def buf_write_def del: replicate_Suc)
qed

lemma pack_arguments_rows:
  assumes "length pre = 64 * i" and "length args \<le> n"
  shows "pack_arguments args i (pre @ replicate (64 * n) NUL) =
    Some (pre @ concat (map (cfield 64) args) @ replicate (64 * (n - length args)) NUL)"
  using assms
proof (induction args arbitrary: pre i n)
  case Nil
  then show ?case by simp
next
  case (Cons arg args)
  then obtain m where m: "n = Suc m" by (cases n) auto
  have "pack_argument i arg (pre @ replicate (64 * n) NUL) = Some ((pre @ cfield 64 arg) @ replicate (64 * m) NUL)"
    using pack_argument_row [OF Cons.prems(1), of arg "replicate (64 * m) NUL"] m
    by (simp flip: replicate_add)
  moreover have "pack_arguments args (Suc i) ((pre @ cfield 64 arg) @ replicate (64 * m) NUL) =
      Some ((pre @ cfield 64 arg) @ concat (map (cfield 64) args) @ replicate (64 * (m - length args)) NUL)"
    using Cons.prems m by (intro Cons.IH) auto
  ultimately show ?case using m by simp
qed

lemma pack_invocation_rows:
  "pack_invocation f args (replicate 640 NUL) =
     Some (concat (map (cfield 64) (f # take 9 args)) @ replicate (64 * (9 - length args)) NUL)"
proof -
  have f: "pack_argument 0 f (replicate 640 NUL) = Some (cfield 64 f @ replicate (64 * 9) NUL)"
    using pack_argument_row [of "[]" 0 f "replicate 576 NUL"] by (simp flip: replicate_add)
  have t: "take (if length args > ARGS_NUMBER - 1 then ARGS_NUMBER - 1 else length args) args = take 9 args"
    by simp
  show ?thesis
    unfolding pack_invocation_def Let_def t
    using f pack_arguments_rows [of "cfield 64 f" 1 "take 9 args" 9] by (simp add: min_def)
qed

text \<open>Row \<open>j\<close> of the packed arguments: argument \<open>j\<close> with the function name as argument 0.\<close>

lemma drop_rows:
  "j \<le> length xs \<Longrightarrow> drop (64 * j) (concat (map (cfield 64) xs) @ rest) = concat (map (cfield 64) (drop j xs)) @ rest"
proof (induction xs arbitrary: j)
  case Nil
  then show ?case by simp
next
  case (Cons x xs)
  then show ?case by (cases j) simp_all
qed

lemma strncpy_value:
  assumes "length s < 256"
  shows "strncpy 64 s 255 (replicate 640 NUL) = Some (replicate 64 NUL @ cfield 256 (cstr s) @ replicate 320 NUL)"
proof -
  have l: "length (cstr s) \<le> 255" using length_cstr_le [of s] assms by simp
  have "replicate (255 - length (cstr s)) NUL @ replicate 321 NUL = replicate (256 - length (cstr s)) NUL @ replicate 320 NUL"
    using l by (simp flip: replicate_add)
  then show ?thesis
    using l by (simp add: strncpy_def buf_write_def cfield_short)
qed

lemma strncpy_ack:
  assumes "length s < 20"
  shows "strncpy 0 s 19 (replicate 640 NUL) = Some (cfield 20 (cstr s) @ replicate 620 NUL)"
proof -
  have l: "length (cstr s) \<le> 19" using length_cstr_le [of s] assms by simp
  have "replicate (19 - length (cstr s)) NUL @ replicate 621 NUL = replicate (20 - length (cstr s)) NUL @ replicate 620 NUL"
    using l by (simp flip: replicate_add)
  then show ?thesis
    using l by (simp add: strncpy_def buf_write_def cfield_short)
qed

lemma c_string_at_field:
  assumes "nul_free s" and "length s < n" and "length pre = off"
  shows "c_string_at off (pre @ cfield n s @ rest) = Some s"
  using assms by (simp add: c_string_at_def cstr_append_terminated cstr_cfield_short)

section \<open>UUIDs\<close>

text \<open>
  The bytes of a UUID in network order. With an unsigned \<open>char\<close>, as on the target board,
  \<open>set_uuid\<close> inverts it. With a signed \<open>char\<close> a byte of 128 or more overwrites the bits of the
  bytes before it.
\<close>

definition word_bytes :: "nat \<Rightarrow> 'a::len word \<Rightarrow> string" where
  "word_bytes n w = map (\<lambda>i. char_of (unat (drop_bit (8 * (n - 1 - i)) w))) [0..<n]"

definition uuid_bytes :: "TEEC_UUID \<Rightarrow> string" where
  "uuid_bytes u = word_bytes 4 (timeLow u) @ word_bytes 2 (timeMid u) @ word_bytes 2 (timeHiAndVersion u)
     @ map (\<lambda>b. char_of (unat b)) (clockSeqAndNode u)"

lemma promote_unsigned [simp]:
  "promote_char False (char_of (unat w)) = (take_bit 8 (ucast (w :: 'a::len word)) :: u32)"
proof -
  have "(of_char (char_of (unat w)) :: 8 word) = ucast w"
    using of_nat_of_char [of "char_of (unat w)", where ?'a = "8 word", symmetric]
    by (intro bit_eqI) (auto simp: of_char_of take_bit_eq_mod [symmetric, where n = 8, simplified] bit_simps)
  then show ?thesis
    unfolding promote_char_def by (simp add: Let_def) (rule bit_eqI, auto simp: bit_simps)
qed

lemma four_bytes:
  fixes w :: u32
  shows "push_bit 24 (take_bit 8 (drop_bit 24 w)) OR push_bit 16 (take_bit 8 (drop_bit 16 w)) OR
     push_bit 8 (take_bit 8 (drop_bit 8 w)) OR take_bit 8 w = w"
proof (rule bit_eqI)
  fix n :: nat
  assume "possible_bit TYPE(32 word) n"
  then have "n < 32"
    by simp
  consider "n < 8" | "8 \<le> n" "n < 16" | "16 \<le> n" "n < 24" | "24 \<le> n"
    by linarith
  then show "bit (push_bit 24 (take_bit 8 (drop_bit 24 w)) OR push_bit 16 (take_bit 8 (drop_bit 16 w)) OR
     push_bit 8 (take_bit 8 (drop_bit 8 w)) OR take_bit 8 w) n = bit w n"
    using \<open>n < 32\<close> by cases (auto simp: bit_simps)
qed

lemma two_bytes:
  fixes w :: "16 word"
  shows "ucast (push_bit 8 (take_bit 8 (ucast (drop_bit 8 w))) OR take_bit 8 (ucast w :: u32)) = w"
  by (rule bit_eqI) (auto simp: bit_simps)

lemma one_byte [simp]: "ucast (take_bit 8 (ucast (b :: 8 word)) :: u32) = b"
  by (rule bit_eqI) (auto simp: bit_simps)

lemma set_uuid_inverts:
  assumes "ir_chaincode_uuid req = uuid_bytes u" and "length (clockSeqAndNode u) = 8"
  shows "set_uuid False req = Some u"
proof -
  obtain a b c d e f g h where q: "clockSeqAndNode u = [a, b, c, d, e, f, g, h]"
    using assms(2) by (auto simp: eval_nat_numeral length_Suc_conv)
  show ?thesis
    using four_bytes [of "timeLow u"] two_bytes [of "timeMid u"] two_bytes [of "timeHiAndVersion u"]
    by (simp add: set_uuid_def assms(1) string_index_def uuid_bytes_def word_bytes_def upt_rec q)
qed

lemma set_uuid_signed_char:
  "map_option timeLow (set_uuid True \<lparr>ir_chaincode_uuid = map char_of [1, 2, 3, 128, 0, 0, 0, 0, 0, 0, 0, 0, 0, 0, 0, 0 :: nat],
     ir_function_name = [], ir_arguments = [], ir_aot_file = []\<rparr>) = Some 0xFFFFFF80"
  by code_simp

end
