(* ===== verification/Go_Wrapper.thy ===== *)
theory Go_Wrapper
  imports Fixed_Proxy
begin

text \<open>
  \<open>src/chaincode.go\<close>: the chaincode wrapper that runs on the Fabric peer. \<open>setup\<close> stores the
  UUID of the trusted application; any other function name is the file of a chaincode, and
  \<open>invoke\<close> sends the invocation to the proxy and serves its state requests from the ledger
  until the response arrives.

  Parameters of the model: the ledger operations of the Fabric stub (\<open>shim_stub\<close>) and the
  gRPC connection (\<open>grpc_client\<close>). Go strings are byte lists. An error is its text; the
  texts the wrapper writes itself are abbreviated by the name of the failing check.
\<close>

section \<open>Data and parameters\<close>

datatype shim_response = Shim_Success string | Shim_Error string

record 'l shim_stub =
  stub_GetState :: "string \<Rightarrow> 'l \<Rightarrow> string + string option"
  stub_PutState :: "string \<Rightarrow> string \<Rightarrow> 'l \<Rightarrow> string + 'l"

record 'c grpc_client =
  grpc_Dial :: "'c \<Rightarrow> string option \<times> 'c"
  client_TransactionInvocation :: "'c \<Rightarrow> string option \<times> 'c"
  stream_Send :: "wrapper_msg \<Rightarrow> 'c \<Rightarrow> string option \<times> 'c"
  stream_Recv :: "'c \<Rightarrow> (string + proxy_msg) \<times> 'c"

record chaincode_wrapper =
  cw_Uuid :: string

section \<open>Setup\<close>

text \<open>
  \<open>hex.DecodeString\<close>: the decoded bytes up to the first problem, and the problem. A byte
  that is no hexadecimal digit is reported before an odd length.
\<close>

datatype hex_error = InvalidByteError char | ErrLength

definition fromHexChar :: "char \<Rightarrow> nat option" where
  "fromHexChar c =
     (let n = of_char c :: nat in
      if 48 \<le> n \<and> n \<le> 57 then Some (n - 48)
      else if 97 \<le> n \<and> n \<le> 102 then Some (n - 97 + 10)
      else if 65 \<le> n \<and> n \<le> 70 then Some (n - 65 + 10)
      else None)"

fun hex_DecodeString :: "string \<Rightarrow> string \<times> hex_error option" where
  "hex_DecodeString [] = ([], None)"
| "hex_DecodeString [p] = (case fromHexChar p of None \<Rightarrow> ([], Some (InvalidByteError p)) | Some _ \<Rightarrow> ([], Some ErrLength))"
| "hex_DecodeString (p # q # s) =
     (case fromHexChar p of
        None \<Rightarrow> ([], Some (InvalidByteError p))
      | Some a \<Rightarrow>
          (case fromHexChar q of
             None \<Rightarrow> ([], Some (InvalidByteError q))
           | Some b \<Rightarrow> (let (bs, e) = hex_DecodeString s in (char_of (16 * a + b) # bs, e))))"

definition wrapper_Init :: shim_response where
  "wrapper_Init = Shim_Success []"

definition wrapper_setup :: "string list \<Rightarrow> chaincode_wrapper \<Rightarrow> shim_response \<times> chaincode_wrapper" where
  "wrapper_setup args t =
     (case args of
        [uuidInput] \<Rightarrow>
          (let (bs, err) = hex_DecodeString uuidInput; t = t\<lparr>cw_Uuid := bs\<rparr>
           in (if err \<noteq> None then Shim_Error ''setup: uuid'' else Shim_Success [], t))
      | _ \<Rightarrow> (Shim_Error ''setup: incorrect number of args'', t))"

section \<open>Invocations\<close>

text \<open>The answer to one message of the proxy: the final response, or the message to send back.\<close>

definition handle_proxy_msg ::
  "'l shim_stub \<Rightarrow> proxy_msg \<Rightarrow> 'l \<Rightarrow> (shim_response + wrapper_msg option) \<times> 'l" where
  "handle_proxy_msg stub m l =
     (case m of
        Invocation_response executionResponse \<Rightarrow> (Inl (Shim_Success executionResponse), l)
      | Get_state_request key \<Rightarrow>
          (case stub_GetState stub key l of
             Inl err \<Rightarrow> (Inl (Shim_Error err), l)
           | Inr val \<Rightarrow> (Inr (Some (Get_state_response (case val of None \<Rightarrow> [] | Some v \<Rightarrow> v))), l))
      | Put_state_request key val \<Rightarrow>
          (case stub_PutState stub key val l of
             Inl err \<Rightarrow> (Inl (Shim_Error err), l)
           | Inr l \<Rightarrow> (Inr (Some (Put_state_response ''OK'')), l))
      | Proxy_not_set \<Rightarrow> (Inr None, l))"

definition invoke_iteration ::
  "'l shim_stub \<Rightarrow> 'c grpc_client \<Rightarrow> 'l \<Rightarrow> 'c \<Rightarrow> (shim_response + unit) \<times> 'l \<times> 'c" where
  "invoke_iteration stub G l c =
     (case stream_Recv G c of
        (Inl err, c) \<Rightarrow> (Inl (Shim_Error err), l, c)
      | (Inr proxyMsg, c) \<Rightarrow>
          (case handle_proxy_msg stub proxyMsg l of
             (Inl resp, l) \<Rightarrow> (Inl resp, l, c)
           | (Inr None, l) \<Rightarrow> (Inr (), l, c)
           | (Inr (Some wrapperMsg), l) \<Rightarrow>
               (case stream_Send G wrapperMsg c of
                  (Some err, c) \<Rightarrow> (Inl (Shim_Error err), l, c)
                | (None, c) \<Rightarrow> (Inr (), l, c))))"

partial_function (option) invoke_loop ::
  "'l shim_stub \<Rightarrow> 'c grpc_client \<Rightarrow> 'l \<Rightarrow> 'c \<Rightarrow> (shim_response \<times> 'l \<times> 'c) option" where
  "invoke_loop stub G l c =
     (case invoke_iteration stub G l c of
        (Inl resp, l, c) \<Rightarrow> Some (resp, l, c)
      | (Inr _, l, c) \<Rightarrow> invoke_loop stub G l c)"

definition invocation_of :: "chaincode_wrapper \<Rightarrow> string \<Rightarrow> string list \<Rightarrow> invocation_request" where
  "invocation_of t ccfile args = \<lparr>ir_chaincode_uuid = cw_Uuid t, ir_function_name = hd args,
     ir_arguments = tl args, ir_aot_file = ccfile\<rparr>"

definition wrapper_invoke ::
  "chaincode_wrapper \<Rightarrow> 'l shim_stub \<Rightarrow> 'c grpc_client \<Rightarrow> string \<Rightarrow> string list \<Rightarrow> 'l \<Rightarrow> 'c \<Rightarrow>
   (shim_response \<times> 'l \<times> 'c) option" where
  "wrapper_invoke t stub G ccfile args l c =
     (if length args < 2 then Some (Shim_Error ''invoke: incorrect number of args'', l, c)
      else case grpc_Dial G c of
        (Some err, c) \<Rightarrow> Some (Shim_Error err, l, c)
      | (None, c) \<Rightarrow>
          (case client_TransactionInvocation G c of
             (Some err, c) \<Rightarrow> Some (Shim_Error err, l, c)
           | (None, c) \<Rightarrow>
               (case stream_Send G (Invocation_request (invocation_of t ccfile args)) c of
                  (Some err, c) \<Rightarrow> Some (Shim_Error err, l, c)
                | (None, c) \<Rightarrow> invoke_loop stub G l c)))"

definition wrapper_Invoke ::
  "chaincode_wrapper \<Rightarrow> 'l shim_stub \<Rightarrow> 'c grpc_client \<Rightarrow> string \<Rightarrow> string list \<Rightarrow> 'l \<Rightarrow> 'c \<Rightarrow>
   (shim_response \<times> chaincode_wrapper \<times> 'l \<times> 'c) option" where
  "wrapper_Invoke t stub G function args l c =
     (if function = ''setup''
      then (case wrapper_setup args t of (r, t) \<Rightarrow> Some (r, t, l, c))
      else map_option (\<lambda>(r, l, c). (r, t, l, c)) (wrapper_invoke t stub G function args l c))"

section \<open>Hexadecimal identifiers\<close>

definition hex_encode :: "string \<Rightarrow> string" where
  "hex_encode bs = concat (map (\<lambda>b. [hex_digit (of_char b div 16), hex_digit (of_char b mod 16)]) bs)"

lemma fromHexChar_hex_digit: "d < 16 \<Longrightarrow> fromHexChar (hex_digit d) = Some d"
proof -
  have "\<forall>d \<in> set [0..<16]. fromHexChar (hex_digit d) = Some d" by code_simp
  then show "d < 16 \<Longrightarrow> fromHexChar (hex_digit d) = Some d" by simp
qed

lemma char_nibbles: "char_of (16 * (of_char c div 16) + of_char c mod 16 :: nat) = (c :: char)"
  by (simp add: mult.commute)

lemma of_char_bound: "(of_char (c :: char) :: nat) div 16 < 16" "(of_char (c :: char) :: nat) mod 16 < 16"
  using nat_of_char_less_256 [of c] by (auto simp: less_mult_imp_div_less simp del: nat_of_char_less_256)

lemma hex_decode_encode: "hex_DecodeString (hex_encode bs) = (bs, None)"
  using char_nibbles of_char_bound
  by (induction bs) (simp_all add: hex_encode_def fromHexChar_hex_digit split_def)

lemma hex_decode_upper_bound: "2 * length (fst (hex_DecodeString s)) \<le> length s"
  by (induction s rule: hex_DecodeString.induct) (auto simp: split_def Let_def split: option.splits)

text \<open>
  Setup stores exactly the bytes whose lower-case hexadecimal form it receives, and
  reports success; the ledger and the connection are not touched.
\<close>

theorem setup_stores_uuid:
  "wrapper_Invoke t stub G ''setup'' [hex_encode bs] l c = Some (Shim_Success [], t\<lparr>cw_Uuid := bs\<rparr>, l, c)"
  by (simp add: wrapper_Invoke_def wrapper_setup_def hex_decode_encode)

section \<open>The wrapper's loop on a fixed script\<close>

text \<open>A client stream that delivers a given list of messages and records what is sent.\<close>

definition script_client :: "(proxy_msg list \<times> wrapper_msg list) grpc_client" where
  "script_client = \<lparr>grpc_Dial = (\<lambda>c. (None, c)), client_TransactionInvocation = (\<lambda>c. (None, c)),
     stream_Send = (\<lambda>m (ms, sent). (None, (ms, sent @ [m]))),
     stream_Recv = (\<lambda>(ms, sent). case ms of [] \<Rightarrow> (Inl ''EOF'', (ms, sent)) | m # ms \<Rightarrow> (Inr m, (ms, sent)))\<rparr>"

lemma loop_script_Nil:
  "invoke_loop stub script_client l ([], sent) = Some (Shim_Error ''EOF'', l, ([], sent))"
  by (subst invoke_loop.simps) (simp add: invoke_iteration_def script_client_def)

lemma loop_script_Cons:
  "invoke_loop stub script_client l (m # ms, sent) =
     (case handle_proxy_msg stub m l of
        (Inl resp, l) \<Rightarrow> Some (resp, l, (ms, sent))
      | (Inr None, l) \<Rightarrow> invoke_loop stub script_client l (ms, sent)
      | (Inr (Some r), l) \<Rightarrow> invoke_loop stub script_client l (ms, sent @ [r]))"
  by (subst invoke_loop.simps)
    (auto simp: invoke_iteration_def script_client_def split: prod.splits sum.splits option.splits)

text \<open>
  C37: The wrapper's loop ends on every finite stream of messages, with or without a response
  in it, and it answers at most one message per message it receives: it never sends anything
  unasked.
\<close>

theorem invoke_loop_terminates:
  "\<exists>resp l' rest sent'. invoke_loop stub script_client l (ms, sent) = Some (resp, l', (rest, sent @ sent')) \<and>
     length sent' + length rest \<le> length ms"
proof (induction ms arbitrary: l sent)
  case Nil
  show ?case by (simp add: loop_script_Nil)
next
  case (Cons m ms)
  obtain r l1 where h: "handle_proxy_msg stub m l = (r, l1)" by fastforce
  show ?case
  proof (cases r)
    case (Inl resp)
    then show ?thesis using h by (simp add: loop_script_Cons)
  next
    case (Inr o1)
    show ?thesis
    proof (cases o1)
      case None
      with Inr h Cons.IH [of l1 sent] show ?thesis by (fastforce simp: loop_script_Cons)
    next
      case (Some x)
      obtain resp l' rest sent' where "invoke_loop stub script_client l1 (ms, sent @ [x]) =
          Some (resp, l', (rest, (sent @ [x]) @ sent'))" "length sent' + length rest \<le> length ms"
        using Cons.IH [of l1 "sent @ [x]"] by blast
      with Inr Some h show ?thesis
        by (intro exI [of _ resp] exI [of _ l'] exI [of _ rest] exI [of _ "x # sent'"]) (simp add: loop_script_Cons)
    qed
  qed
qed

text \<open>
  An invocation without a second argument is refused before anything is sent, although
  the message only asks for the name of the function: a chaincode function without
  parameters cannot be invoked.
\<close>

theorem invoke_needs_two_arguments:
  assumes "ccfile \<noteq> ''setup''" and "length args < 2"
  shows "wrapper_Invoke t stub G ccfile args l c = Some (Shim_Error ''invoke: incorrect number of args'', t, l, c)"
  using assms by (simp add: wrapper_Invoke_def wrapper_invoke_def)

definition unit_stub :: "unit shim_stub" where
  "unit_stub = \<lparr>stub_GetState = (\<lambda>_ _. Inr None), stub_PutState = (\<lambda>_ _ l. Inr l)\<rparr>"

theorem invoke_needs_two_arguments_witness:
  "wrapper_Invoke \<lparr>cw_Uuid = []\<rparr> unit_stub script_client ''coffee.aot'' [''list''] () ([], []) =
     Some (Shim_Error ''invoke: incorrect number of args'', \<lparr>cw_Uuid = []\<rparr>, (), ([], []))"
  by (rule invoke_needs_two_arguments) simp_all

end
