(* ===== verification/Coffee_System.thy ===== *)
theory Coffee_System
  imports Coffee_Refinement Go_Wrapper
begin

text \<open>
  The whole path of an invocation: the chaincode wrapper on the Fabric peer, the proxy, the
  trusted application and the coffee chaincode inside it.

  \<open>tee_device\<close> is the interface between the proxy and the TA: the commands move the abstract
  machine of \<open>Coffee_Refinement\<close>. The proxy's lemmas are proved over it; the TA model
  provides it. The wrapper's end of the stream is \<open>wrapper_stream\<close>: a message the proxy
  writes is answered by one iteration of the wrapper's loop.
\<close>

section \<open>The transaction, abstractly\<close>

text \<open>
  What a client may expect of one invocation: a function of the ledger. \<open>visible_value\<close> and
  \<open>visible_arg\<close> are the parts of a stored value and of an argument that reach the chaincode.
\<close>

definition visible_value :: "string option \<Rightarrow> string" where
  "visible_value v = (case v of None \<Rightarrow> [] | Some b \<Rightarrow> if length b < 256 then cstr b else [])"

definition visible_arg :: "string \<Rightarrow> string" where
  "visible_arg s = take 63 (cstr s)"

definition arg_at :: "nat \<Rightarrow> string list \<Rightarrow> string" where
  "arg_at j args = (if j < length args then args ! j else [])"

definition coffee_put :: "'l shim_stub \<Rightarrow> string \<Rightarrow> string \<Rightarrow> 'l \<Rightarrow> shim_response \<times> 'l" where
  "coffee_put stub k v l =
     (case stub_PutState stub k v l of Inl e \<Rightarrow> (Shim_Error e, l) | Inr l' \<Rightarrow> (Shim_Success ''OK'', l'))"

definition coffee_tx :: "'l shim_stub \<Rightarrow> string \<Rightarrow> string \<Rightarrow> string \<Rightarrow> 'l \<Rightarrow> shim_response \<times> 'l" where
  "coffee_tx stub f k v l =
     (if f \<notin> {''create'', ''add'', ''query''} then (Shim_Success ''ERROR'', l)
      else case stub_GetState stub k l of
        Inl e \<Rightarrow> (Shim_Error e, l)
      | Inr val \<Rightarrow>
          let u = visible_value val in
          if f = ''create'' then
            if k = [] then (Shim_Success ''NO_RESPONSE'', l)
            else if u \<noteq> [] then (Shim_Success ''EXIST'', l)
            else coffee_put stub k v l
          else if f = ''add'' then
            if u = [] then (Shim_Success ''EMPTY'', l)
            else coffee_put stub k (dec_str (unat (atoul u + atoul v))) l
          else if u = [] then (Shim_Success ''NOTFOUND'', l)
          else (Shim_Success u, l))"

section \<open>The wrapper's end of the stream\<close>

record 'l wrapper_run =
  wr_ledger :: 'l
  wr_inbox :: "wrapper_msg list"
  wr_result :: "shim_response option"

definition wrapper_write :: "'l shim_stub \<Rightarrow> proxy_msg \<Rightarrow> 'l wrapper_run \<Rightarrow> bool \<times> 'l wrapper_run" where
  "wrapper_write stub m w =
     (if wr_result w \<noteq> None then (False, w)
      else case handle_proxy_msg stub m (wr_ledger w) of
        (Inl resp, l) \<Rightarrow> (True, w\<lparr>wr_ledger := l, wr_result := Some resp\<rparr>)
      | (Inr None, l) \<Rightarrow> (True, w\<lparr>wr_ledger := l\<rparr>)
      | (Inr (Some r), l) \<Rightarrow> (True, w\<lparr>wr_ledger := l, wr_inbox := wr_inbox w @ [r]\<rparr>))"

definition wrapper_read :: "'l wrapper_run \<Rightarrow> wrapper_msg option \<times> 'l wrapper_run" where
  "wrapper_read w = (case wr_inbox w of [] \<Rightarrow> (None, w) | m # ms \<Rightarrow> (Some m, w\<lparr>wr_inbox := ms\<rparr>))"

definition wrapper_stream :: "'l shim_stub \<Rightarrow> 'l wrapper_run grpc_stream" where
  "wrapper_stream stub = \<lparr>stream_Write = wrapper_write stub, stream_Read = wrapper_read\<rparr>"

definition wrapper_started :: "'l \<Rightarrow> 'l wrapper_run" where
  "wrapper_started l = \<lparr>wr_ledger = l, wr_inbox = [], wr_result = None\<rparr>"

lemma visible_value_bounds [simp]: "nul_free (visible_value v)" "length (visible_value v) < 256"
  by (auto simp: visible_value_def split: option.splits intro: le_less_trans [OF length_cstr_le])

lemma visible_arg_bounds [simp]: "nul_free (visible_arg s)" "length (visible_arg s) < 64"
  by (simp_all add: visible_arg_def)

text \<open>
  \<open>wrapper_stream\<close> is the wrapper: writing a sequence of messages to it has the effect the
  wrapper's own loop has on a stream that delivers them.
\<close>

primrec write_all :: "'l shim_stub \<Rightarrow> proxy_msg list \<Rightarrow> 'l wrapper_run \<Rightarrow> 'l wrapper_run" where
  "write_all stub [] w = w"
| "write_all stub (m # ms) w = write_all stub ms (snd (wrapper_write stub m w))"

lemma write_all_finished: "wr_result w \<noteq> None \<Longrightarrow> write_all stub ms w = w"
  by (induction ms) (simp_all add: wrapper_write_def)

lemma write_all_loop:
  assumes "wr_result w = None" and "wr_result (write_all stub ms w) = Some resp"
  shows "\<exists>rest. invoke_loop stub script_client (wr_ledger w) (ms, wr_inbox w) =
     Some (resp, wr_ledger (write_all stub ms w), (rest, wr_inbox (write_all stub ms w)))"
  using assms
proof (induction ms arbitrary: w)
  case Nil
  then show ?case by simp
next
  case (Cons m ms)
  obtain r l where h: "handle_proxy_msg stub m (wr_ledger w) = (r, l)" by fastforce
  show ?case
  proof (cases r)
    case (Inl x)
    let ?w = "w\<lparr>wr_ledger := l, wr_result := Some x\<rparr>"
    have "write_all stub (m # ms) w = ?w"
      using Inl h Cons.prems(1) write_all_finished [of ?w stub ms] by (simp add: wrapper_write_def)
    with Inl h Cons.prems(2) show ?thesis by (simp add: loop_script_Cons)
  next
    case (Inr o1)
    let ?w = "w\<lparr>wr_ledger := l, wr_inbox := wr_inbox w @ (case o1 of None \<Rightarrow> [] | Some x \<Rightarrow> [x])\<rparr>"
    have w: "write_all stub (m # ms) w = write_all stub ms ?w"
      using Inr h Cons.prems(1) by (cases o1) (simp_all add: wrapper_write_def)
    with Cons.IH [of ?w] Cons.prems obtain rest where
      "invoke_loop stub script_client l (ms, wr_inbox ?w) =
         Some (resp, wr_ledger (write_all stub ms ?w), (rest, wr_inbox (write_all stub ms ?w)))" by auto
    with Inr h w show ?thesis by (cases o1) (auto simp: loop_script_Cons)
  qed
qed

section \<open>The proxy over a TEE device\<close>

locale tee_device =
  fixes T :: "'d teec_api" and device_ok :: bool
    and fresh :: "char list \<Rightarrow> 'd \<Rightarrow> bool"
    and rel :: "cc_spec \<Rightarrow> 'd \<Rightarrow> bool"
  assumes run: "\<lbrakk>device_ok; fresh (p_buffer (par0 ps)) d; length (p_buffer (par2 ps)) = 640;
        p_buffer (par2 ps) ! 639 = NUL\<rbrakk> \<Longrightarrow>
      \<exists>d'. TEEC_InvokeCommand T COMMAND_RUN_WASM run_param_types ps d = Some (TEE_SUCCESS,
          encode_request (fst (spec_dispatch (spec_start (p_buffer (par2 ps)) None))) ps, d') \<and>
        rel (snd (spec_dispatch (spec_start (p_buffer (par2 ps)) None))) d'"
    and resume: "\<lbrakk>device_ok; rel s d; length (p_buffer (par2 ps)) = 640;
        terminated (drop 64 (p_buffer (par2 ps)))\<rbrakk> \<Longrightarrow>
      \<exists>d'. TEEC_InvokeCommand T COMMAND_RESUME_WASM resume_param_types ps d = Some (TEE_SUCCESS,
          encode_request (fst (spec_resume s (host_value (p_buffer (par2 ps))))) ps, d') \<and>
        rel (snd (spec_resume s (host_value (p_buffer (par2 ps))))) d'"

lemma encode_buffer_length:
  assumes "length (p_buffer (par2 ps)) = 640"
  shows "length (p_buffer (par2 (encode_request r ps))) = 640"
  using assms by (cases r) (simp_all add: encode_request_def Let_def)

lemma encode_kind:
  "p_value_a (par1 (encode_request r ps)) = (case r of Response m \<Rightarrow> 0 | Get_state k \<Rightarrow> 1 | Put_state k v \<Rightarrow> 2)"
  by (cases r) (simp_all add: encode_request_def Let_def)

lemma decode_request:
  "nul_free k \<Longrightarrow> length k < 64 \<Longrightarrow> c_string_at 0 (p_buffer (par2 (encode_request (Get_state k) ps))) = Some k"
  "nul_free k \<Longrightarrow> length k < 64 \<Longrightarrow> c_string_at 0 (p_buffer (par2 (encode_request (Put_state k v) ps))) = Some k"
  "nul_free v \<Longrightarrow> length v < 256 \<Longrightarrow> c_string_at 64 (p_buffer (par2 (encode_request (Put_state k v) ps))) = Some v"
  "nul_free m \<Longrightarrow> length m < 256 \<Longrightarrow> c_string_at 0 (p_buffer (par2 (encode_request (Response m) ps))) = Some m"
  using c_string_at_field [of _ _ "[]" 0, simplified] c_string_at_field [of v 256 "cfield 64 k" 64]
  by (simp_all add: encode_request_def Let_def)

text \<open>The buffers the proxy resumes with, read by the TA.\<close>

definition value_buffer :: "string option \<Rightarrow> char list" where
  "value_buffer v = replicate 64 NUL @ cfield 256 (visible_value v) @ replicate 320 NUL"

definition ack_buffer :: "char list" where
  "ack_buffer = cfield 20 ''OK'' @ replicate 620 NUL"

lemma value_buffer_facts [simp]:
  "length (value_buffer v) = 640" "terminated (drop 64 (value_buffer v))" "host_value (value_buffer v) = visible_value v"
  by (simp_all add: value_buffer_def host_value_def cstr_append_terminated cstr_cfield_short)
    (use visible_value_bounds(2) [of v] in linarith)

lemma ack_buffer_facts [simp]:
  "length ack_buffer = 640" "terminated (drop 64 ack_buffer)" "host_value ack_buffer = []"
  by (simp_all add: ack_buffer_def host_value_def)

lemma get_buffer:
  "(if length (case v of None \<Rightarrow> [] | Some b \<Rightarrow> b) < 256
    then strncpy 64 (case v of None \<Rightarrow> [] | Some b \<Rightarrow> b) 255 (replicate 640 NUL) else Some (replicate 640 NUL)) =
   Some (value_buffer v)"
  by (auto simp: strncpy_value value_buffer_def visible_value_def simp flip: replicate_add split: option.splits)

context tee_device
begin

abbreviation loop :: "'l shim_stub \<Rightarrow> tee_params \<Rightarrow> 'd \<Rightarrow> 'l \<Rightarrow> (bool \<times> 'd \<times> 'l wrapper_run) option" where
  "loop stub op d l \<equiv> proxy_loop T (wrapper_stream stub) op d (wrapper_started l)"

lemma resume_buffer:
  assumes "device_ok" and "rel s d" and "length buf = 640" and "terminated (drop 64 buf)"
  shows "\<exists>d' op'. resume_with T buf op d = Some (TEE_SUCCESS,
      encode_request (fst (spec_resume s (host_value buf))) op', d') \<and>
      rel (snd (spec_resume s (host_value buf))) d' \<and> length (p_buffer (par2 op')) = 640"
proof -
  obtain d' where "resume_with T buf op d = Some (TEE_SUCCESS,
      encode_request (fst (spec_resume s (host_value buf))) (set_buffer buf op), d')"
      "rel (snd (spec_resume s (host_value buf))) d'"
    using resume [OF assms(1,2), of "set_buffer buf op"] assms(3,4)
    by (auto simp: resume_with_def resume_param_types_def)
  then show ?thesis using assms(3) by (intro exI [of _ d'] exI [of _ "set_buffer buf op"]) simp
qed

lemma loop_response:
  assumes "nul_free m" and "length m < 256"
  shows "loop stub (encode_request (Response m) op) d l =
     Some (True, d, (wrapper_started l)\<lparr>wr_result := Some (Shim_Success m)\<rparr>)"
  using decode_request(4) [OF assms, of op]
  by (subst proxy_loop.simps)
    (simp add: proxy_iteration_def encode_kind finish_invocation_def wrapper_stream_def wrapper_write_def
      handle_proxy_msg_def wrapper_started_def)

lemma loop_get:
  assumes "device_ok" and "rel s d" and "length (p_buffer (par2 op)) = 640" and k: "nul_free k" "length k < 64"
    and "stub_GetState stub k l = Inr v"
  shows "\<exists>d' op'. loop stub (encode_request (Get_state k) op) d l =
      loop stub (encode_request (fst (spec_resume s (visible_value v))) op') d' l \<and>
      rel (snd (spec_resume s (visible_value v))) d' \<and> length (p_buffer (par2 op')) = 640"
proof -
  let ?op = "encode_request (Get_state k) op"
  obtain d' op' where r: "resume_with T (value_buffer v) ?op d = Some (TEE_SUCCESS,
      encode_request (fst (spec_resume s (visible_value v))) op', d')"
      "rel (snd (spec_resume s (visible_value v))) d'" "length (p_buffer (par2 op')) = 640"
    using resume_buffer [OF assms(1,2), of "value_buffer v" ?op] by auto
  have "proxy_iteration T (wrapper_stream stub) ?op d (wrapper_started l) =
      Some (Inr (encode_request (fst (spec_resume s (visible_value v))) op', d', wrapper_started l))"
    using decode_request(1) [OF k, of op] r(1) assms(3,6) encode_buffer_length [of op] get_buffer [of v]
    by (simp add: proxy_iteration_def encode_kind forward_get_state_def wrapper_stream_def wrapper_write_def
        wrapper_read_def handle_proxy_msg_def wrapper_started_def get_state_value_def Let_def split: if_splits)
  then have "loop stub ?op d l = loop stub (encode_request (fst (spec_resume s (visible_value v))) op') d' l"
    by (subst proxy_loop.simps) simp
  with r show ?thesis by blast
qed

lemma loop_get_error:
  assumes k: "nul_free k" "length k < 64" and "stub_GetState stub k l = Inl e"
  shows "loop stub (encode_request (Get_state k) op) d l =
     Some (False, d, (wrapper_started l)\<lparr>wr_result := Some (Shim_Error e)\<rparr>)"
  using decode_request(1) [OF k, of op] assms(3)
  by (subst proxy_loop.simps)
    (simp add: proxy_iteration_def encode_kind forward_get_state_def wrapper_stream_def wrapper_write_def
      wrapper_read_def handle_proxy_msg_def wrapper_started_def)

lemma loop_put:
  assumes "device_ok" and "rel s d" and "length (p_buffer (par2 op)) = 640" and k: "nul_free k" "length k < 64"
    and v: "nul_free v" "length v < 256" and "stub_PutState stub k v l = Inr l'"
  shows "\<exists>d' op'. loop stub (encode_request (Put_state k v) op) d l =
      loop stub (encode_request (fst (spec_resume s [])) op') d' l' \<and>
      rel (snd (spec_resume s [])) d' \<and> length (p_buffer (par2 op')) = 640"
proof -
  let ?op = "encode_request (Put_state k v) op"
  obtain d' op' where r: "resume_with T ack_buffer ?op d = Some (TEE_SUCCESS,
      encode_request (fst (spec_resume s [])) op', d')"
      "rel (snd (spec_resume s [])) d'" "length (p_buffer (par2 op')) = 640"
    using resume_buffer [OF assms(1,2), of ack_buffer ?op] by auto
  have "strncpy 0 ''OK'' 19 (replicate 640 NUL) = Some ack_buffer"
    using strncpy_ack [of "''OK''"] by (simp add: ack_buffer_def)
  then have "proxy_iteration T (wrapper_stream stub) ?op d (wrapper_started l) =
      Some (Inr (encode_request (fst (spec_resume s [])) op', d', wrapper_started l'))"
    using decode_request(2) [OF k, of v op] decode_request(3) [OF v, of k op] r(1) assms(3,8) encode_buffer_length [of op]
    by (simp add: proxy_iteration_def encode_kind forward_put_state_def wrapper_stream_def wrapper_write_def
        wrapper_read_def handle_proxy_msg_def wrapper_started_def put_state_acknowledgement_def Let_def)
  then have "loop stub ?op d l = loop stub (encode_request (fst (spec_resume s [])) op') d' l'"
    by (subst proxy_loop.simps) simp
  with r show ?thesis by blast
qed

lemma loop_put_error:
  assumes k: "nul_free k" "length k < 64" and v: "nul_free v" "length v < 256" and "stub_PutState stub k v l = Inl e"
  shows "loop stub (encode_request (Put_state k v) op) d l =
     Some (False, d, (wrapper_started l)\<lparr>wr_result := Some (Shim_Error e)\<rparr>)"
  using decode_request(2) [OF k, of v op] decode_request(3) [OF v, of k op] assms(5)
  by (subst proxy_loop.simps)
    (simp add: proxy_iteration_def encode_kind forward_put_state_def wrapper_stream_def wrapper_write_def
      wrapper_read_def handle_proxy_msg_def wrapper_started_def)

end

text \<open>How a run of the proxy ends: the flag it returns and the wrapper's result and ledger.\<close>

definition succeeded :: "shim_response \<Rightarrow> bool" where
  "succeeded r = (case r of Shim_Success m \<Rightarrow> True | Shim_Error e \<Rightarrow> False)"

definition ends_with :: "(bool \<times> 'd \<times> 'l wrapper_run) option \<Rightarrow> shim_response \<times> 'l \<Rightarrow> bool" where
  "ends_with r tx \<longleftrightarrow> (\<exists>d. r = Some (succeeded (fst tx), d,
     \<lparr>wr_ledger = snd tx, wr_inbox = [], wr_result = Some (fst tx)\<rparr>))"

context tee_device
begin

lemma ends_response:
  assumes "nul_free m" and "length m < 256"
  shows "ends_with (loop stub (encode_request (Response m) op) d l) (Shim_Success m, l)"
  using loop_response [OF assms, of stub op d l] by (simp add: ends_with_def succeeded_def wrapper_started_def)

lemma ends_put:
  assumes "device_ok" and "rel s d" and "sp_phase s = Put_wait" and "length (p_buffer (par2 op)) = 640"
    and k: "nul_free k" "length k < 64" and v: "nul_free v" "length v < 256"
  shows "ends_with (loop stub (encode_request (Put_state k v) op) d l) (coffee_put stub k v l)"
proof (cases "stub_PutState stub k v l")
  case (Inl e)
  then show ?thesis
    using loop_put_error [OF k v Inl, of op d]
    by (simp add: ends_with_def succeeded_def wrapper_started_def coffee_put_def)
next
  case (Inr l')
  have "spec_resume s [] = spec_answer ''OK'' s" using assms(3) by (simp add: spec_resume_def)
  then show ?thesis
    using loop_put [OF assms(1,2,4) k v Inr] ends_response [of "''OK''" stub _ _ l'] Inr
    by (auto simp: spec_answer_def coffee_put_def)
qed

lemma ends_get:
  assumes "device_ok" and "rel s d" and "length (p_buffer (par2 op)) = 640"
    and f: "sp_fn s \<in> {''create'', ''add'', ''query''}"
    and ph: "sp_phase s = (if sp_fn s = ''create'' \<and> sp_key s = [] then Dead else Get_wait)"
    and k: "nul_free (sp_key s)" "length (sp_key s) < 64" and v: "nul_free (sp_arg s)" "length (sp_arg s) < 64"
    and lst: "sp_last s = None"
  shows "ends_with (loop stub (encode_request (Get_state (sp_key s)) op) d l)
     (coffee_tx stub (sp_fn s) (sp_key s) (sp_arg s) l)"
proof (cases "stub_GetState stub (sp_key s) l")
  case (Inl e)
  then show ?thesis
    using loop_get_error [OF k Inl, of op d] f
    by (auto simp: ends_with_def succeeded_def wrapper_started_def coffee_tx_def)
next
  case (Inr val)
  let ?u = "visible_value val" and ?sum = "dec_str (unat (atoul (visible_value val) + atoul (sp_arg s)))"
  obtain d' op' where r: "loop stub (encode_request (Get_state (sp_key s)) op) d l =
        loop stub (encode_request (fst (spec_resume s ?u)) op') d' l"
      "rel (snd (spec_resume s ?u)) d'" "length (p_buffer (par2 op')) = 640"
    using loop_get [OF assms(1-3) k Inr] by blast
  have sum: "length ?sum < 256" using length_dec_str_u32 [of "atoul ?u + atoul (sp_arg s)"] by simp
  show ?thesis
    using r Inr f ph lst k v sum ends_response [of ?u stub op' d' l] ends_response [of "''NO_RESPONSE''" stub op' d' l]
      ends_response [of "''EXIST''" stub op' d' l] ends_response [of "''EMPTY''" stub op' d' l]
      ends_response [of "''NOTFOUND''" stub op' d' l]
      ends_put [OF assms(1) r(2) _ r(3) k, of "sp_arg s" stub l] ends_put [OF assms(1) r(2) _ r(3) k, of ?sum stub l]
    by (auto simp: spec_resume_def spec_answer_def coffee_tx_def Let_def)
qed

lemma ends_transaction:
  assumes "device_ok" and "rel (snd (spec_dispatch s)) d" and "length (p_buffer (par2 op)) = 640"
    and "sp_phase s = Ready" and "sp_last s = None"
    and "nul_free (sp_key s)" "length (sp_key s) < 64" and "nul_free (sp_arg s)" "length (sp_arg s) < 64"
  shows "ends_with (loop stub (encode_request (fst (spec_dispatch s)) op) d l)
     (coffee_tx stub (sp_fn s) (sp_key s) (sp_arg s) l)"
proof (cases "sp_fn s \<in> {''create'', ''add'', ''query''}")
  case True
  then show ?thesis
    using ends_get [OF assms(1,2,3), of stub l] assms(6-9) assms(5) by (simp add: spec_dispatch_def)
next
  case False
  then show ?thesis
    using ends_response [of "''ERROR''" stub op d l] by (auto simp: spec_dispatch_def spec_answer_def coffee_tx_def)
qed

end

section \<open>The packed invocation\<close>

lemma last_cfield [simp]: "0 < n \<Longrightarrow> last (cfield n s) = NUL"
  by (auto simp: cfield_def last_append)

lemma length_rows: "length (concat (map (cfield 64) xs)) = 64 * length xs"
  by (induction xs) simp_all

lemma cstr_cfield_any: "0 < n \<Longrightarrow> cstr (cfield n s) = take (n - 1) (cstr s)"
proof -
  assume n: "0 < n"
  have "cstr (t @ replicate m NUL) = cstr t" for t m
    by (induction t) auto
  moreover have "cstr (take j s) = take j (cstr s)" for j
    by (induction s arbitrary: j) (auto simp: take_Cons' split: if_splits)
  ultimately show ?thesis by (simp add: cfield_def)
qed

lemma cstr_rows:
  assumes "buf = concat (map (cfield 64) xs) @ replicate (64 * m) NUL"
  shows "cstr (drop (64 * j) buf) = visible_arg (arg_at j xs)"
proof (cases "j < length xs")
  case True
  then have "drop (64 * j) buf = cfield 64 (xs ! j) @ concat (map (cfield 64) (drop (Suc j) xs)) @ replicate (64 * m) NUL"
    unfolding assms(1) by (subst drop_rows) (simp_all flip: Cons_nth_drop_Suc)
  then show ?thesis
    using True by (simp add: visible_arg_def arg_at_def cstr_append_terminated cstr_cfield_any)
next
  case False
  then have "drop (64 * j) buf = replicate (64 * m - (64 * j - 64 * length xs)) NUL"
    using assms by (simp add: length_rows)
  then show ?thesis
    using False by (simp add: visible_arg_def arg_at_def)
qed

lemma arg_of_rows:
  assumes "buf = concat (map (cfield 64) xs) @ replicate (64 * m) NUL" and "length buf = 640" and "j < 10"
  shows "arg_of buf j = visible_arg (arg_at j xs)"
  using cstr_rows [OF assms(1), of j] assms(2) by (simp add: arg_of_def visible_arg_def mult.commute)

lemma packed_invocation:
  obtains buf where "pack_invocation f args (replicate 640 NUL) = Some buf" and "length buf = 640"
    and "buf ! 639 = NUL"
    and "spec_start buf lst = \<lparr>sp_fn = visible_arg f, sp_key = visible_arg (arg_at 0 args),
       sp_arg = visible_arg (arg_at 1 args), sp_phase = Ready, sp_last = lst\<rparr>"
proof -
  let ?xs = "f # take 9 args" and ?m = "9 - length args"
  define buf where "buf = concat (map (cfield 64) ?xs) @ replicate (64 * ?m) NUL"
  have len: "length buf = 640" by (simp add: buf_def length_rows del: length_concat)
  have "last buf = NUL"
  proof (cases "?m = 0")
    case True
    then have "take 9 args = take 8 args @ [args ! 8]"
      using take_Suc_conv_app_nth [of 8 args] by simp
    then show ?thesis using True by (auto simp: buf_def last_append cfield_def)
  next
    case False
    then show ?thesis by (simp add: buf_def last_append)
  qed
  moreover have "buf \<noteq> []" using len by auto
  ultimately have "buf ! 639 = NUL" using len by (simp add: last_conv_nth)
  moreover have "spec_start buf lst = \<lparr>sp_fn = visible_arg f, sp_key = visible_arg (arg_at 0 args),
       sp_arg = visible_arg (arg_at 1 args), sp_phase = Ready, sp_last = lst\<rparr>"
    using arg_of_rows [OF buf_def len] by (auto simp: spec_start_def arg_at_def)
  ultimately show ?thesis
    using that pack_invocation_rows [of f args] len by (simp add: buf_def)
qed

section \<open>A transaction over a TEE device\<close>

text \<open>The host side of an invocation: the module file can be read and the buffers exist.\<close>

definition host_ok :: "host_os \<Rightarrow> string \<Rightarrow> char list \<Rightarrow> bool" where
  "host_ok os aot_file file \<longleftrightarrow>
     os_fopen os (''./chaincode/'' @ aot_file) = Some file \<and>
     (\<exists>block. os_malloc os (length file) = Some block \<and> length block = length file) \<and>
     os_calloc os 640 \<and> os_malloc os (5 * 1024) \<noteq> None"

definition tx_of :: "'l shim_stub \<Rightarrow> string \<Rightarrow> string list \<Rightarrow> 'l \<Rightarrow> shim_response \<times> 'l" where
  "tx_of stub f args l =
     coffee_tx stub (visible_arg f) (visible_arg (arg_at 0 args)) (visible_arg (arg_at 1 args)) l"

locale tee_service = tee_device T device_ok fresh rel
  for T :: "'d teec_api" and device_ok :: bool and fresh :: "char list \<Rightarrow> 'd \<Rightarrow> bool"
    and rel :: "cc_spec \<Rightarrow> 'd \<Rightarrow> bool" +
  fixes wasm_ok :: "char list \<Rightarrow> bool" and opened :: "'d \<Rightarrow> bool" and idle :: "'d \<Rightarrow> bool"
  assumes idle_fresh: "device_ok \<Longrightarrow> idle d \<Longrightarrow> wasm_ok file \<Longrightarrow> fresh file d"
    and init_ok: "device_ok \<Longrightarrow> fst (TEEC_InitializeContext T d) = TEE_SUCCESS"
    and open_ok: "device_ok \<Longrightarrow> \<exists>d'. TEEC_OpenSession T d = (TEE_SUCCESS, d') \<and> opened d'"
    and heap_ok: "device_ok \<Longrightarrow> opened d \<Longrightarrow> p_value_a (par0 ps) = 10485760 \<Longrightarrow>
      \<exists>r d'. TEEC_InvokeCommand T COMMAND_CONFIGURE_HEAP heap_param_types ps d = Some (r, ps, d') \<and> idle d'"

context tee_service
begin

lemma execute_ends:
  assumes "device_ok" and "idle (tc_tee ctx)" and "wasm_ok file" and "host_ok os aot_file file"
    and "tc_output_buffer ctx \<noteq> None"
  shows "\<exists>d. execute_wasm_with_grpc_proxy T os (wrapper_stream stub) aot_file f args ctx (wrapper_started l) =
     Some (succeeded (fst (tx_of stub f args l)), ctx\<lparr>tc_tee := d\<rparr>,
       \<lparr>wr_ledger = snd (tx_of stub f args l), wr_inbox = [], wr_result = Some (fst (tx_of stub f args l))\<rparr>)"
proof -
  obtain block where os: "os_fopen os (''./chaincode/'' @ aot_file) = Some file"
      "os_malloc os (length file) = Some block" "length block = length file" "os_calloc os 640"
    using assms(4) by (auto simp: host_ok_def)
  obtain out where out: "tc_output_buffer ctx = Some out" using assms(5) by blast
  obtain buf where buf: "pack_invocation f args (replicate 640 NUL) = Some buf" "length buf = 640" "buf ! 639 = NUL"
    and s: "spec_start buf None = \<lparr>sp_fn = visible_arg f, sp_key = visible_arg (arg_at 0 args),
       sp_arg = visible_arg (arg_at 1 args), sp_phase = Ready, sp_last = None\<rparr>"
    by (rule packed_invocation [of f args None])
  define op where "op = \<lparr>par0 = zero_param\<lparr>p_buffer := file\<rparr>, par1 = zero_param,
     par2 = zero_param\<lparr>p_buffer := buf\<rparr>, par3 = zero_param\<lparr>p_buffer := take (tc_output_buffer_size ctx) out\<rparr>\<rparr>"
  let ?s = "spec_start buf None"
  obtain d where d: "TEEC_InvokeCommand T 0 (TEE_PARAM_TYPES 5 3 7 7) op (tc_tee ctx) = Some (TEE_SUCCESS,
      encode_request (fst (spec_dispatch ?s)) op, d)" "rel (snd (spec_dispatch ?s)) d"
    using run [of op "tc_tee ctx"] idle_fresh assms(1,2,3) buf by (auto simp: op_def run_param_types_def)
  have "ends_with (loop stub (encode_request (fst (spec_dispatch ?s)) op) d l) (tx_of stub f args l)"
    using ends_transaction [OF assms(1) d(2), of op stub l] s buf(2) by (simp add: op_def tx_of_def)
  then obtain d' where "loop stub (encode_request (fst (spec_dispatch ?s)) op) d l =
      Some (succeeded (fst (tx_of stub f args l)), d', \<lparr>wr_ledger = snd (tx_of stub f args l), wr_inbox = [],
        wr_result = Some (fst (tx_of stub f args l))\<rparr>)"
    by (auto simp: ends_with_def)
  with os out buf d(1) show ?thesis
    by (auto simp: execute_wasm_with_grpc_proxy_def TEE_MemMove_def buf_write_def Let_def op_def)
qed

lemma session_initialized:
  assumes "device_ok"
  shows "\<exists>d. initialize_session T os ctx = Some (Inr ((allocate_buffers os (5 * 1024) ctx)\<lparr>tc_tee := d\<rparr>)) \<and> idle d"
proof -
  let ?ctx = "allocate_buffers os 5120 ctx"
  obtain d1 where d1: "TEEC_InitializeContext T (tc_tee ?ctx) = (TEE_SUCCESS, d1)"
    using init_ok [OF assms] by (metis prod.collapse)
  obtain d2 where d2: "TEEC_OpenSession T d1 = (TEE_SUCCESS, d2)" "opened d2"
    using open_ok [OF assms] by blast
  let ?op = "\<lparr>par0 = zero_param\<lparr>p_value_a := 10485760\<rparr>, par1 = zero_param, par2 = zero_param, par3 = zero_param\<rparr>"
  obtain r d3 where "TEEC_InvokeCommand T 1 (TEE_PARAM_TYPES 1 0 0 0) ?op d2 = Some (r, ?op, d3)" "idle d3"
    using heap_ok [OF assms d2(2), of ?op] by (auto simp: heap_param_types_def)
  with d1 d2 show ?thesis
    by (auto simp: initialize_session_def prepare_tee_session_def configure_heap_size_def Let_def)
qed

lemma transaction_ends:
  fixes stub :: "'l shim_stub" and l :: 'l
  assumes "device_ok" and "idle (tc_tee ctx)" and "wasm_ok file" and "host_ok os (ir_aot_file r) file"
    and "tc_output_buffer ctx \<noteq> None"
  defines "tx \<equiv> tx_of stub (ir_function_name r) (ir_arguments r) l"
  shows "\<exists>ctx'. TransactionInvocation T os (wrapper_stream stub) ctx
       \<lparr>wr_ledger = l, wr_inbox = [Invocation_request r], wr_result = None\<rparr> =
     Some (Inr (if succeeded (fst tx) then Status_OK else Status_UNKNOWN ''WASM execution failed'', ctx',
       \<lparr>wr_ledger = snd tx, wr_inbox = [], wr_result = Some (fst tx)\<rparr>)) \<and>
     idle (tc_tee ctx') \<and> tc_output_buffer ctx' \<noteq> None"
proof -
  obtain d where e: "execute_wasm_with_grpc_proxy T os (wrapper_stream stub) (ir_aot_file r) (ir_function_name r)
      (ir_arguments r) ctx (wrapper_started l) = Some (succeeded (fst tx), ctx\<lparr>tc_tee := d\<rparr>,
       \<lparr>wr_ledger = snd tx, wr_inbox = [], wr_result = Some (fst tx)\<rparr>)"
    unfolding tx_def
    using execute_ends [OF assms(1-5), of stub "ir_function_name r" "ir_arguments r" l] by blast
  obtain d' where i: "initialize_session T os (cleanup_session T (ctx\<lparr>tc_tee := d\<rparr>)) =
      Some (Inr ((allocate_buffers os (5 * 1024) (cleanup_session T (ctx\<lparr>tc_tee := d\<rparr>)))\<lparr>tc_tee := d'\<rparr>))" "idle d'"
    using session_initialized [OF assms(1)] by blast
  have "os_malloc os (5 * 1024) \<noteq> None" using assms(4) by (simp add: host_ok_def)
  with e i show ?thesis
    by (simp add: TransactionInvocation_def wrapper_stream_def wrapper_read_def wrapper_started_def
        invocation_request_of_def restart_session_def Let_def allocate_buffers_def)
qed

end

section \<open>The trusted application provides the device\<close>

text \<open>
  OP-TEE is not part of the repository. \<open>teec_reaches_ta\<close> states what the client API promises
  for this TA: a command reaches \<open>TA_InvokeCommandEntryPoint\<close>, and, since \<open>TA_FLAGS\<close> asks for
  neither a single instance nor a kept-alive one, opening a session starts a new instance
  with zeroed globals and calls \<open>TA_OpenSessionEntryPoint\<close> without parameters.
\<close>

definition teec_reaches_ta :: "'g ta_state teec_api \<Rightarrow> 'g wamr_api \<Rightarrow> tee_malloc \<Rightarrow> bool" where
  "teec_reaches_ta T A M \<longleftrightarrow>
     (\<forall>c t ps d. TEEC_InvokeCommand T c t ps d = TA_InvokeCommandEntryPoint A M c t ps d) \<and>
     (\<forall>d. TEEC_OpenSession T d = TA_OpenSessionEntryPoint M 0 ta_boot) \<and>
     (\<forall>d. fst (TEEC_InitializeContext T d) = TEE_SUCCESS)"

definition ta_opened :: "cc_globals ta_state \<Rightarrow> bool" where
  "ta_opened d \<longleftrightarrow> d = ta_boot\<lparr>ta_sess := Some zero_session, ta_allocs := [sizeof_session]\<rparr>"

definition ta_idle :: "cc_globals ta_state \<Rightarrow> bool" where
  "ta_idle d \<longleftrightarrow> d = ta_boot\<lparr>ta_sess := Some zero_session, ta_allocs := [sizeof_session], ta_heap_size := 10485760\<rparr>"

definition wasm_fits :: "cc_globals wamr_api \<Rightarrow> cc_layout \<Rightarrow> tee_malloc \<Rightarrow> char list \<Rightarrow> bool" where
  "wasm_fits A L M wasm \<longleftrightarrow>
     wamr_loads_coffee A L wasm \<and> malloc_ok M [sizeof_session] 10485760 (length wasm)"

definition coffee_platform ::
  "cc_globals ta_state teec_api \<Rightarrow> cc_globals wamr_api \<Rightarrow> cc_layout \<Rightarrow> tee_malloc \<Rightarrow> bool" where
  "coffee_platform T A L M \<longleftrightarrow> wamr_runs_coffee A L \<and> teec_reaches_ta T A M \<and> M [] sizeof_session"

lemma last_response_zero [simp]: "last_response zero_session = None"
  by (simp add: last_response_def zero_session_def)

interpretation svc: tee_service T "coffee_platform T A L M" "\<lambda>wasm d. ta_idle d \<and> wasm_fits A L M wasm"
  "coffee_rel L" "wasm_fits A L M" ta_opened ta_idle for T A L M
proof (unfold_locales, goal_cases)
  case (1 ps d)
  then have ta: "wamr_runs_coffee A L" "wamr_loads_coffee A L (p_buffer (par0 ps))"
    "malloc_ok M (ta_allocs d) (unat (ta_heap_size d)) (length (p_buffer (par0 ps)))" "ta_sess d = Some zero_session"
    by (auto simp: coffee_platform_def wasm_fits_def ta_idle_def)
  from 1 show ?case
    using run_coffee [OF ta zero_session_ok(1)]
    by (auto simp: coffee_platform_def teec_reaches_ta_def TA_InvokeCommandEntryPoint_def zero_session_def
        simp flip: last_response_zero)
next
  case (2 s d ps)
  then show ?case
    using resume_coffee [of A L s d ps]
    by (auto simp: coffee_platform_def teec_reaches_ta_def TA_InvokeCommandEntryPoint_def)
next
  case (5 d)
  then show ?case
    by (auto simp: coffee_platform_def teec_reaches_ta_def TA_OpenSessionEntryPoint_def TEE_PARAM_TYPES_def
        TEE_Malloc_def ta_boot_def ta_opened_def)
next
  case (6 d ps)
  then show ?case
    by (auto simp: coffee_platform_def teec_reaches_ta_def TA_InvokeCommandEntryPoint_def heap_param_types_def
        TA_SetHeapSize_def ta_opened_def ta_idle_def)
qed (auto simp: coffee_platform_def teec_reaches_ta_def)

section \<open>End to end\<close>

text \<open>
  A sequence of transactions, each run to its end before the next starts; the ledger of one
  is the ledger the next one sees.
\<close>

primrec run_transactions ::
  "'d teec_api \<Rightarrow> host_os \<Rightarrow> 'l shim_stub \<Rightarrow> invocation_request list \<Rightarrow> 'd tee_ctx \<Rightarrow> 'l \<Rightarrow>
   (shim_response list \<times> 'd tee_ctx \<times> 'l) option" where
  "run_transactions T os stub [] ctx l = Some ([], ctx, l)"
| "run_transactions T os stub (r # rs) ctx l = do {
     res \<leftarrow> TransactionInvocation T os (wrapper_stream stub) ctx
              \<lparr>wr_ledger = l, wr_inbox = [Invocation_request r], wr_result = None\<rparr>;
     (case res of
        Inl code \<Rightarrow> None
      | Inr (status, ctx, w) \<Rightarrow> do {
          answer \<leftarrow> wr_result w;
          (answers, ctx, l) \<leftarrow> run_transactions T os stub rs ctx (wr_ledger w);
          Some (answer # answers, ctx, l)
        })
   }"

primrec spec_transactions :: "'l shim_stub \<Rightarrow> invocation_request list \<Rightarrow> 'l \<Rightarrow> shim_response list \<times> 'l" where
  "spec_transactions stub [] l = ([], l)"
| "spec_transactions stub (r # rs) l =
     (let (answer, l) = tx_of stub (ir_function_name r) (ir_arguments r) l;
          (answers, l) = spec_transactions stub rs l
      in (answer # answers, l))"

definition request_ok ::
  "cc_globals wamr_api \<Rightarrow> cc_layout \<Rightarrow> tee_malloc \<Rightarrow> host_os \<Rightarrow> invocation_request \<Rightarrow> bool" where
  "request_ok A L M os r \<longleftrightarrow> (\<exists>file. host_ok os (ir_aot_file r) file \<and> wasm_fits A L M file)"

definition proxy_idle :: "cc_globals ta_state tee_ctx \<Rightarrow> bool" where
  "proxy_idle ctx \<longleftrightarrow> ta_idle (tc_tee ctx) \<and> tc_output_buffer ctx \<noteq> None"

lemma transaction_run:
  assumes "coffee_platform T A L M" and "request_ok A L M os r" and "proxy_idle ctx"
  shows "\<exists>ctx'. TransactionInvocation T os (wrapper_stream stub) ctx
       \<lparr>wr_ledger = l, wr_inbox = [Invocation_request r], wr_result = None\<rparr> =
     Some (Inr (if succeeded (fst (tx_of stub (ir_function_name r) (ir_arguments r) l))
         then Status_OK else Status_UNKNOWN ''WASM execution failed'', ctx',
       \<lparr>wr_ledger = snd (tx_of stub (ir_function_name r) (ir_arguments r) l), wr_inbox = [],
        wr_result = Some (fst (tx_of stub (ir_function_name r) (ir_arguments r) l))\<rparr>)) \<and> proxy_idle ctx'"
proof -
  obtain img where "host_ok os (ir_aot_file r) img" "wasm_fits A L M img"
    using assms(2) by (auto simp: request_ok_def)
  with assms(1,3) show ?thesis
    unfolding proxy_idle_def by (intro svc.transaction_ends) auto
qed

lemma transactions_run:
  assumes "coffee_platform T A L M" and "list_all (request_ok A L M os) rs" and "proxy_idle ctx"
  shows "\<exists>ctx'. run_transactions T os stub rs ctx l =
     Some (fst (spec_transactions stub rs l), ctx', snd (spec_transactions stub rs l)) \<and> proxy_idle ctx'"
  using assms(2,3)
proof (induction rs arbitrary: ctx l)
  case Nil
  then show ?case by simp
next
  case (Cons r rs)
  let ?tx = "tx_of stub (ir_function_name r) (ir_arguments r) l"
  obtain ctx1 where 1: "TransactionInvocation T os (wrapper_stream stub) ctx
       \<lparr>wr_ledger = l, wr_inbox = [Invocation_request r], wr_result = None\<rparr> =
     Some (Inr (if succeeded (fst ?tx) then Status_OK else Status_UNKNOWN ''WASM execution failed'', ctx1,
       \<lparr>wr_ledger = snd ?tx, wr_inbox = [], wr_result = Some (fst ?tx)\<rparr>))" "proxy_idle ctx1"
    using transaction_run [OF assms(1) _ Cons.prems(2), of os r stub l] Cons.prems(1) by auto
  obtain ctx2 where "run_transactions T os stub rs ctx1 (snd ?tx) =
      Some (fst (spec_transactions stub rs (snd ?tx)), ctx2, snd (spec_transactions stub rs (snd ?tx)))" "proxy_idle ctx2"
    using Cons.IH [OF _ 1(2), of "snd ?tx"] Cons.prems(1) by auto
  with 1(1) show ?case by (auto simp: split_def Let_def)
qed

declare run_transactions.simps [simp del]

text \<open>
  A concrete platform for the witnesses: the client API that calls the entry points, a host
  with one module file, and a ledger that is a partial map.
\<close>

definition demo_teec :: "cc_globals ta_state teec_api" where
  "demo_teec = \<lparr>TEEC_InitializeContext = (\<lambda>d. (TEE_SUCCESS, d)),
     TEEC_OpenSession = (\<lambda>_. TA_OpenSessionEntryPoint (\<lambda>_ _. True) 0 ta_boot),
     TEEC_InvokeCommand = TA_InvokeCommandEntryPoint demo_wamr (\<lambda>_ _. True),
     TEEC_CloseSession = TA_CloseSessionEntryPoint, TEEC_FinalizeContext = (\<lambda>d. d)\<rparr>"

definition demo_os :: host_os where
  "demo_os = \<lparr>os_fopen = (\<lambda>_. Some [NUL]), os_malloc = (\<lambda>n. Some (replicate n NUL)), os_calloc = (\<lambda>_. True)\<rparr>"

definition map_stub :: "(string \<rightharpoonup> string) shim_stub" where
  "map_stub = \<lparr>stub_GetState = (\<lambda>k l. Inr (l k)), stub_PutState = (\<lambda>k v l. Inr (l(k \<mapsto> v)))\<rparr>"

definition demo_ctx :: "cc_globals ta_state tee_ctx" where
  "demo_ctx = \<lparr>tc_tee = ta_boot\<lparr>ta_sess := Some zero_session, ta_allocs := [sizeof_session], ta_heap_size := 10485760\<rparr>,
     tc_output_buffer = Some [], tc_output_buffer_size = 0, tc_benchmark_buffer = None, tc_benchmark_buffer_size = 0\<rparr>"

definition coffee_request :: "string \<Rightarrow> string \<Rightarrow> string list \<Rightarrow> invocation_request" where
  "coffee_request aot f args = \<lparr>ir_chaincode_uuid = [], ir_function_name = f, ir_arguments = args, ir_aot_file = aot\<rparr>"

lemma demo_platform: "coffee_platform demo_teec demo_wamr demo_layout (\<lambda>_ _. True)"
  by (auto simp: coffee_platform_def demo_runs teec_reaches_ta_def demo_teec_def)

lemma demo_request_ok: "request_ok demo_wamr demo_layout (\<lambda>_ _. True) demo_os r"
  by (auto simp: request_ok_def host_ok_def demo_os_def wasm_fits_def demo_loads malloc_ok_def)

lemma demo_ctx_idle: "proxy_idle demo_ctx"
  by (simp add: proxy_idle_def demo_ctx_def ta_idle_def)

end
