(* ===== verification/Ta_Safety.thy ===== *)
theory Ta_Safety
  imports Ta_Main
begin

text \<open>
  The trusted application as a state machine over an arbitrary module. The host sends
  commands in any order and with any contents in its buffers; the module may compute what it
  likes in its own memory and call the registered natives with any arguments, except the two
  calls that leave their objects. The reachable states keep the session invariant, and no
  command reads or writes outside its objects.
\<close>

section \<open>What a module can do\<close>

inductive module_run :: "'g wamr_mem \<Rightarrow> 'g nstate \<Rightarrow> 'g nstate \<Rightarrow> bool" for W :: "'g wamr_mem" where
  run_start: "module_run W st st"
| run_native: "\<lbrakk>module_run W st st1; sy \<in> set chaincode_native_symbols; length args = sig_arity (sym_sig sy);
     sym_name sy = ''cc_get_arg'' \<longrightarrow> sint (args ! 0) \<noteq> 9;
     sym_name sy = ''cc_return_response'' \<longrightarrow> 0 \<le> sint (args ! 1);
     sym_call sy W args st1 = Some (r, st2)\<rbrakk> \<Longrightarrow> module_run W st st2"
| run_compute: "\<lbrakk>module_run W st st1; ns_inst st1 = Some i; wi_size i \<le> wi_size j\<rbrakk> \<Longrightarrow>
     module_run W st (st1\<lparr>ns_inst := Some j\<rparr>)"

text \<open>
  The runtime confines the module: a call returns, and all it did to the session and to the
  instance is such a run.
\<close>

definition engine_confined :: "'g wamr_api \<Rightarrow> bool" where
  "engine_confined A \<longleftrightarrow> wamr_mem_laws (rt_mem A) \<and>
     (\<forall>e f st. native_ok st \<longrightarrow>
        (\<exists>ok st'. wasm_runtime_call_wasm A e f st = Some (ok, st') \<and> module_run (rt_mem A) st st'))"

lemma module_run_ok:
  assumes "module_run W st st'" and "wamr_mem_laws W" and "native_ok st"
  shows "native_ok st' \<and> map_option sc_args (ns_sess st') = map_option sc_args (ns_sess st) \<and>
     map_option sc_runtime (ns_sess st') = map_option sc_runtime (ns_sess st)"
  using assms(1,3)
proof induction
  case run_start
  then show ?case by simp
next
  case (run_native st st1 sy args r st2)
  note ih = run_native.IH [OF run_native.prems]
  have "safe_result st1 (Some (r, st2))"
    using native_call_safe [OF assms(2) conjunct1 [OF ih] run_native.hyps(2-5)] unfolding run_native.hyps(6) .
  then show ?case using ih unfolding safe_result_Some native_frame_def by metis
next
  case (run_compute st st1 i j)
  from run_compute.IH [OF run_compute.prems] show ?case by (simp add: native_ok_def)
qed

section \<open>A command from a state that satisfies the invariant\<close>

definition sess_ok :: "session \<Rightarrow> bool" where
  "sess_ok sc \<longleftrightarrow> session_inv sc \<and> args_terminated sc"

definition instance_live :: "'g ta_state \<Rightarrow> bool" where
  "instance_live ta \<longleftrightarrow>
     (case ta_sess ta of None \<Rightarrow> False | Some sc \<Rightarrow> sc_runtime sc \<and> wc_module_inst (ta_runtime_ctx ta) \<noteq> None)"

definition ta_inv :: "bool \<Rightarrow> 'g ta_state \<Rightarrow> bool" where
  "ta_inv live ta \<longleftrightarrow>
     (\<forall>sc. ta_sess ta = Some sc \<longrightarrow> sess_ok sc) \<and> (live \<longrightarrow> instance_live ta)"

text \<open>
  The host's part: the shared buffer holds a \<open>struct key_value\<close>, its value field is a C
  string within the buffer, and a complete argument block ends with a NUL byte.
\<close>

definition host_params :: "tee_params \<Rightarrow> bool" where
  "host_params ps \<longleftrightarrow>
     (let buf = p_buffer (par2 ps) in
      320 \<le> length buf \<and> terminated (drop 64 buf) \<and> (640 \<le> length buf \<longrightarrow> buf ! 639 = NUL))"

lemma call_step_confined:
  assumes "engine_confined A" and "wc_module_inst ctx = Some i" and "sess_ok sc"
  shows "\<exists>ok ctx' sc'. call_step A name ctx (Some sc) = Some (ok, ctx', Some sc') \<and> sess_ok sc' \<and>
     sc_runtime sc' = sc_runtime sc \<and> wc_module_inst ctx' \<noteq> None"
proof (cases "wasm_runtime_lookup_function A i name")
  case None
  then show ?thesis using assms by (auto simp: call_step_def)
next
  case (Some f)
  let ?env = "case wc_exec_env ctx of Some e \<Rightarrow> Some e | None \<Rightarrow> wasm_runtime_create_exec_env A (clear_exception i) (256 * 1024)"
  show ?thesis
  proof (cases ?env)
    case None
    then show ?thesis using Some assms by (auto simp: call_step_def Let_def split: option.splits)
  next
    case env: (Some e)
    let ?st = "\<lparr>ns_sess = Some sc, ns_inst = Some (clear_exception i)\<rparr>"
    have n: "native_ok ?st" using assms(3) by (simp add: native_ok_def sess_ok_def)
    then obtain ok st' where r: "wasm_runtime_call_wasm A e f ?st = Some (ok, st')" "module_run (rt_mem A) ?st st'"
      using assms(1) unfolding engine_confined_def by blast
    have st': "native_ok st'" "map_option sc_args (ns_sess st') = Some (sc_args sc)"
      "map_option sc_runtime (ns_sess st') = Some (sc_runtime sc)"
      using module_run_ok [OF r(2) _ n] assms(1) by (simp_all add: engine_confined_def)
    then obtain sc' i' where s: "ns_sess st' = Some sc'" "ns_inst st' = Some i'" "sess_ok sc'" "sc_runtime sc' = sc_runtime sc"
      by (auto simp: native_ok_def sess_ok_def)
    then show ?thesis
      using Some env assms(2) r by (simp add: call_step_def Let_def split: option.splits)
  qed
qed

text \<open>What every handed-over message satisfies, whatever the module did.\<close>

definition message_ok :: "tee_params \<Rightarrow> tee_params \<Rightarrow> bool" where
  "message_ok ps ps' \<longleftrightarrow>
     p_value_a (par1 ps') \<in> {0, 1, 2} \<and> length (p_buffer (par2 ps')) = length (p_buffer (par2 ps)) \<and>
     terminated (p_buffer (par2 ps')) \<and>
     (p_value_a (par1 ps') = 2 \<longrightarrow> terminated (drop 64 (p_buffer (par2 ps'))))"

lemma outgoing_ok: "320 \<le> length (p_buffer (par2 ps)) \<Longrightarrow> message_ok ps (outgoing sc ps)"
  by (auto simp: message_ok_def outgoing_def Let_def)

lemma hostcall_confined:
  assumes A: "engine_confined A" and ta: "ta_sess ta = Some sc" "sess_ok sc" "sc_runtime sc"
    "wc_module_inst (ta_runtime_ctx ta) \<noteq> None" and buf: "320 \<le> length (p_buffer (par2 ps))"
  shows "\<exists>ps' ta'. process_hostcall_flow A ps ta = Some (TEE_SUCCESS, ps', ta') \<and> message_ok ps ps' \<and> ta_inv True ta'"
proof -
  obtain i where i: "wc_module_inst (ta_runtime_ctx ta) = Some i" using ta(4) by blast
  obtain ok ctx' sc' where c: "call_step A ''step_resume'' (ta_runtime_ctx ta) (Some sc) = Some (ok, ctx', Some sc')"
    "sess_ok sc'" "sc_runtime sc' = sc_runtime sc" "wc_module_inst ctx' \<noteq> None"
    using call_step_confined [OF A i ta(2)] by blast
  have inv: "ta_inv True (ta\<lparr>ta_runtime_ctx := ctx', ta_sess := Some sc'\<rparr>)"
    using c ta(3) by (simp add: ta_inv_def instance_live_def)
  show ?thesis
  proof (cases ok)
    case True
    then have "process_hostcall_flow A ps ta =
        Some (TEE_SUCCESS, outgoing sc' ps, ta\<lparr>ta_runtime_ctx := ctx', ta_sess := Some sc'\<rparr>)"
      using hostcall_ok [OF ta(1,3) _ _ buf] c(1,2) by (simp add: sess_ok_def)
    then show ?thesis using outgoing_ok [OF buf] inv by blast
  next
    case False
    let ?ps = "set_buffer (cfield 256 ''RUNTIME_ERROR'' @ drop 256 (p_buffer (par2 ps))) (set_value INVOCATION_RESPONSE ps)"
    have "process_hostcall_flow A ps ta =
        Some (TEE_SUCCESS, ?ps, ta\<lparr>ta_runtime_ctx := ctx', ta_sess := Some sc'\<rparr>)"
      using False c(1) ta(1,3) buf by (simp add: process_hostcall_flow_def write_response_ok)
    moreover have "message_ok ps ?ps" using buf by (simp add: message_ok_def)
    ultimately show ?thesis using inv by blast
  qed
qed




lemma receive_confined:
  assumes "sess_ok sc" and "host_params ps"
  shows "\<exists>a. receive_arguments (p_buffer (par2 ps)) sc = Some (sc\<lparr>sc_args := a\<rparr>) \<and> sess_ok (sc\<lparr>sc_args := a\<rparr>)"
proof (cases "640 \<le> length (p_buffer (par2 ps))")
  case True
  let ?a = "take 640 (p_buffer (par2 ps))"
  have "?a \<noteq> []" using True by auto
  then have "last ?a = NUL" using True assms(2)
    by (subst last_conv_nth) (simp_all add: min_def host_params_def Let_def)
  with True assms(1) \<open>?a \<noteq> []\<close> show ?thesis
    by (intro exI [of _ ?a])
      (auto simp: receive_arguments_def TEE_MemMove_def buf_write_def sess_ok_def session_inv_def wf_session_def args_terminated_def)
next
  case False
  with assms(1) show ?thesis
    by (intro exI [of _ "replicate 640 NUL"])
      (auto simp: receive_arguments_def sess_ok_def session_inv_def wf_session_def args_terminated_def)
qed

lemma initialize_cases:
  assumes "TA_InitializeWamrRuntime A ctx = (r, ctx', b)" and "wc_module_inst ctx = None"
  shows "r = TEE_SUCCESS \<and> wc_module_inst ctx' \<noteq> None \<or> r = TEE_ERROR_GENERIC \<and> wc_module_inst ctx' = None"
  using assms by (auto simp: TA_InitializeWamrRuntime_def Let_def split: if_splits option.splits)

lemma initialize_load_fails:
  assumes "wasm_runtime_load A (wc_wasm_bytecode ctx) (wc_wasm_bytecode_size ctx) = None" and "wc_module ctx = None"
  shows "TA_InitializeWamrRuntime A ctx = (TEE_ERROR_GENERIC, ctx, False)"
  using assms by (cases ctx) (simp add: TA_InitializeWamrRuntime_def Let_def)

definition run_result :: "tee_params \<Rightarrow> (TEE_Result \<times> tee_params \<times> 'g ta_state) option \<Rightarrow> bool" where
  "run_result ps res \<longleftrightarrow> (\<exists>r ps' ta'. res = Some (r, ps', ta') \<and> ta_inv (r = TEE_SUCCESS) ta' \<and>
     (r = TEE_SUCCESS \<longrightarrow> message_ok ps ps'))"

lemma run_result_Some [simp]:
  "run_result ps (Some (r, ps', ta')) \<longleftrightarrow> ta_inv (r = TEE_SUCCESS) ta' \<and> (r = TEE_SUCCESS \<longrightarrow> message_ok ps ps')"
  by (simp add: run_result_def)

lemma message_ok_value [simp]: "message_ok (set_value v ps) ps' = message_ok ps ps'"
  by (simp add: message_ok_def)

lemma run_result_value [simp]: "run_result (set_value v ps) res = run_result ps res"
  by (simp add: run_result_def)

lemma sess_ok_buffers:
  "sess_ok sc \<Longrightarrow> sess_ok (sc\<lparr>sc_heap_buf_owned := h, sc_trusted_wasm_owned := w\<rparr>)"
  "sess_ok sc \<Longrightarrow> sess_ok (sc\<lparr>sc_heap_buf_owned := h, sc_trusted_wasm_owned := w, sc_runtime := True\<rparr>)"
  by (auto simp: sess_ok_def session_inv_def wf_session_def args_terminated_def)

text \<open>The part of \<open>RUN_WASM\<close> after the runtime is initialised.\<close>

lemma run_first_step:
  assumes A: "engine_confined A" and sc: "sess_ok sc" "sc_runtime sc" and i: "wc_module_inst ctx \<noteq> None"
    and buf: "320 \<le> length (p_buffer (par2 ps))"
  shows "run_result ps (do {
     (ok, ctx, sess) \<leftarrow> call_step A ''step_init'' ctx (Some sc);
     let ta = ta\<lparr>ta_runtime_ctx := ctx, ta_sess := sess\<rparr>;
     (if \<not> ok then do {
        ps \<leftarrow> write_response (''STEP_INIT_FAILED'' @ [NUL]) 17 ps;
        Some (TEE_ERROR_GENERIC, ps, ta)
      }
      else process_hostcall_flow A ps ta)
   })"
proof -
  obtain j where j: "wc_module_inst ctx = Some j" using i by blast
  obtain ok ctx' sc' where c: "call_step A ''step_init'' ctx (Some sc) = Some (ok, ctx', Some sc')"
    "sess_ok sc'" "sc_runtime sc' = sc_runtime sc" "wc_module_inst ctx' \<noteq> None"
    using call_step_confined [OF A j sc(1)] by blast
  let ?ta = "ta\<lparr>ta_runtime_ctx := ctx', ta_sess := Some sc'\<rparr>"
  show ?thesis
  proof (cases ok)
    case True
    have "\<exists>ps' ta'. process_hostcall_flow A ps ?ta = Some (TEE_SUCCESS, ps', ta') \<and> message_ok ps ps' \<and> ta_inv True ta'"
      using c sc(2) buf by (intro hostcall_confined [OF A]) auto
    with True c(1) show ?thesis by (auto simp: run_result_def)
  next
    case False
    with c buf write_response_ok [of ps 17 "''STEP_INIT_FAILED'' @ [NUL]"] show ?thesis
      by (simp add: ta_inv_def)
  qed
qed

lemma run_confined:
  fixes A :: "'g wamr_api"
  assumes A: "engine_confined A" and ta: "ta_inv live ta" and ps: "host_params ps"
  shows "run_result ps (run_wasm A M ps ta)"
proof (cases "ta_sess ta")
  case None
  then show ?thesis by (simp add: run_wasm_def ta_inv_def)
next
  case (Some sc)
  then have "sess_ok sc" using ta by (simp add: ta_inv_def)
  then obtain a where a: "receive_arguments (p_buffer (par2 ps)) sc = Some (sc\<lparr>sc_args := a\<rparr>)" "sess_ok (sc\<lparr>sc_args := a\<rparr>)"
    using receive_confined [OF _ ps] by blast
  obtain h al where h: "TEE_Malloc M (unat (ta_heap_size ta)) (ta_allocs ta) = (h, al)" by fastforce
  obtain w al' where w: "TEE_Malloc M (length (p_buffer (par0 ps))) al = (w, al')" by fastforce
  define ctx0 :: "'g wamr_context" where "ctx0 = \<lparr>wc_wasm_bytecode = p_buffer (par0 ps),
     wc_wasm_bytecode_size = length (p_buffer (par0 ps)) mod 2 ^ 32,
     wc_wasm_bytecode_hash = replicate 32 NUL, wc_heap_buf = h, wc_heap_size = ta_heap_size ta,
     wc_module = None, wc_module_inst = None, wc_exec_env = None,
     wc_native_symbols = chaincode_native_symbols\<rparr>"
  obtain r ctx b where r: "TA_InitializeWamrRuntime A ctx0 = (r, ctx, b)" by (cases "TA_InitializeWamrRuntime A ctx0")
  have init: "r = TEE_SUCCESS \<and> wc_module_inst ctx \<noteq> None \<or> r = TEE_ERROR_GENERIC"
    using initialize_cases [OF r] by (auto simp: ctx0_def)
  have buf: "320 \<le> length (p_buffer (par2 (set_value 0 ps)))" using ps by (simp add: host_params_def Let_def)
  note step = run_first_step [where ctx = ctx, OF A sess_ok_buffers(2) [OF a(2)] _ _ buf]
  note r' = r [unfolded ctx0_def]
  show ?thesis
  proof (cases "h = None \<or> w = None")
    case True
    then show ?thesis
      using Some a h w sess_ok_buffers(1) [OF a(2)] by (auto simp: run_wasm_def Let_def ta_inv_def)
  next
    case False
    show ?thesis
    proof (cases "r = TEE_SUCCESS")
      case True
      with init have "wc_module_inst ctx \<noteq> None" by auto
      then obtain j where "wc_module_inst ctx = Some j" by blast
      moreover obtain x y where "h = Some x" "w = Some y" using False by auto
      ultimately show ?thesis
        using Some a h w r' True
        by (simp add: run_wasm_def Let_def) (rule step [unfolded run_result_value Let_def], simp_all)
    next
      case F: False
      with init Some a h w r' False sess_ok_buffers(1) [OF a(2)] show ?thesis
        by (auto simp: run_wasm_def Let_def ta_inv_def)
    qed
  qed
qed

section \<open>Reachable states\<close>

text \<open>
  \<open>live\<close> says that the last \<open>RUN_WASM\<close> succeeded; the host resumes only then. Any command
  that is neither \<open>RUN_WASM\<close> nor \<open>RESUME_WASM\<close> may come at any time.
\<close>

inductive ta_reach :: "'g wamr_api \<Rightarrow> tee_malloc \<Rightarrow> bool \<Rightarrow> 'g ta_state \<Rightarrow> bool"
  for A :: "'g wamr_api" and M :: tee_malloc where
  reach_boot: "ta_reach A M False ta_boot"
| reach_open: "\<lbrakk>ta_reach A M live ta; TA_OpenSessionEntryPoint M t ta = (r, ta')\<rbrakk> \<Longrightarrow> ta_reach A M live ta'"
| reach_close: "ta_reach A M live ta \<Longrightarrow> ta_reach A M live (TA_CloseSessionEntryPoint ta)"
| reach_run: "\<lbrakk>ta_reach A M live ta; host_params ps;
     TA_InvokeCommandEntryPoint A M COMMAND_RUN_WASM run_param_types ps ta = Some (r, ps', ta')\<rbrakk> \<Longrightarrow>
     ta_reach A M (r = TEE_SUCCESS) ta'"
| reach_resume: "\<lbrakk>ta_reach A M True ta; host_params ps;
     TA_InvokeCommandEntryPoint A M COMMAND_RESUME_WASM resume_param_types ps ta = Some (r, ps', ta')\<rbrakk> \<Longrightarrow>
     ta_reach A M True ta'"
| reach_other: "\<lbrakk>ta_reach A M live ta; c \<noteq> COMMAND_RUN_WASM; c \<noteq> COMMAND_RESUME_WASM;
     TA_InvokeCommandEntryPoint A M c t ps ta = Some (r, ps', ta')\<rbrakk> \<Longrightarrow> ta_reach A M live ta'"

lemma invoke_run: "TA_InvokeCommandEntryPoint A M COMMAND_RUN_WASM run_param_types ps ta = run_wasm A M ps ta"
  by (simp add: TA_InvokeCommandEntryPoint_def)

lemma invoke_resume:
  "TA_InvokeCommandEntryPoint A M COMMAND_RESUME_WASM resume_param_types ps ta = resume_wasm A ps ta"
  by (simp add: TA_InvokeCommandEntryPoint_def)




section \<open>Properties\<close>

text \<open>A module for the witnesses: every step stores a value through \<open>cc_put_state\<close>.\<close>

definition putting_wamr :: "unit wamr_api" where
  "putting_wamr = \<lparr>rt_mem = ref_wamr, wasm_runtime_full_init = (\<lambda>_. True),
     wasm_runtime_load = (\<lambda>w _. if w = [] then None else Some 0), wasm_runtime_instantiate = (\<lambda>_ _ _. Some demo_inst),
     wasm_runtime_lookup_function = (\<lambda>_ _. Some 0), wasm_runtime_create_exec_env = (\<lambda>_ _. Some 0),
     wasm_runtime_call_wasm = (\<lambda>_ _ st. map_option (\<lambda>(r, st). (True, st))
        (sym_call (chaincode_native_symbols ! 3) ref_wamr [16, 4, 32, 4] st)),
     wasm_application_execute_main = (\<lambda>st. Some (False, st))\<rparr>"

lemma putting_confined: "engine_confined putting_wamr"
proof -
  let ?sy = "chaincode_native_symbols ! 3 :: unit native_symbol" and ?args = "[16, 4, 32, 4] :: u32 list"
  have sy: "?sy \<in> set chaincode_native_symbols" "length ?args = sig_arity (sym_sig ?sy)"
    "sym_name ?sy = ''cc_put_state''"
    by (simp_all add: chaincode_native_symbols_def sig_arity_def)
  have "\<exists>r st'. sym_call ?sy ref_wamr ?args st = Some (r, st') \<and> module_run ref_wamr st st'"
    if n: "native_ok st" for st
  proof -
    have "safe_result st (sym_call ?sy ref_wamr ?args st)"
      using sy by (intro native_call_safe [OF ref_wamr_laws n]) simp_all
    then obtain r st' where "sym_call ?sy ref_wamr ?args st = Some (r, st')" by (auto simp: safe_result_def)
    moreover have "module_run ref_wamr st st'"
      using sy calculation by (intro run_native [OF run_start, of ?sy ?args]) simp_all
    ultimately show ?thesis by blast
  qed
  then show ?thesis
    by (fastforce simp: engine_confined_def putting_wamr_def ref_wamr_laws)
qed


text \<open>
  Anything but the three documented commands with exactly their parameter types is
  refused with \<open>TEE_ERROR_BAD_PARAMETERS\<close>, and the parameters and the TA's state stay as
  they were.
\<close>

theorem commands_rejected:
  assumes "(c, t) \<notin> {(COMMAND_RUN_WASM, run_param_types), (COMMAND_RESUME_WASM, resume_param_types),
     (COMMAND_CONFIGURE_HEAP, heap_param_types)}"
  shows "TA_InvokeCommandEntryPoint A M c t ps ta = Some (TEE_ERROR_BAD_PARAMETERS, ps, ta)"
  using assms by (auto simp: TA_InvokeCommandEntryPoint_def)

theorem commands_rejected_witness:
  "\<forall>ps. TA_InvokeCommandEntryPoint putting_wamr (\<lambda>_ _. True) COMMAND_RESUME_WASM run_param_types ps ta_boot =
     Some (TEE_ERROR_BAD_PARAMETERS, ps, ta_boot)"
  by (rule allI, rule commands_rejected) (simp add: run_param_types_def resume_param_types_def TEE_PARAM_TYPES_def)

text \<open>
  A command that comes too early is refused without effect: without an open session both
  \<open>RUN_WASM\<close> and \<open>RESUME_WASM\<close> answer \<open>TEE_ERROR_GENERIC\<close>, and so does \<open>RESUME_WASM\<close> before
  the first successful \<open>RUN_WASM\<close>.
\<close>

theorem early_commands_refused:
  "ta_sess ta = None \<Longrightarrow>
     TA_InvokeCommandEntryPoint A M COMMAND_RUN_WASM run_param_types ps ta = Some (TEE_ERROR_GENERIC, ps, ta) \<and>
     TA_InvokeCommandEntryPoint A M COMMAND_RESUME_WASM resume_param_types ps ta = Some (TEE_ERROR_GENERIC, ps, ta) \<and>
     (\<not> sc_runtime sc \<longrightarrow>
        TA_InvokeCommandEntryPoint A M COMMAND_RESUME_WASM resume_param_types ps (ta\<lparr>ta_sess := Some sc\<rparr>) =
        Some (TEE_ERROR_GENERIC, ps, ta\<lparr>ta_sess := Some sc\<rparr>))"
  unfolding invoke_run invoke_resume by (simp add: run_wasm_def resume_wasm_def)

theorem early_commands_refused_witness:
  "\<forall>ps. TA_InvokeCommandEntryPoint putting_wamr (\<lambda>_ _. True) COMMAND_RESUME_WASM resume_param_types ps
      (ta_boot\<lparr>ta_sess := Some zero_session\<rparr>) = Some (TEE_ERROR_GENERIC, ps, ta_boot\<lparr>ta_sess := Some zero_session\<rparr>)"
  using early_commands_refused [of ta_boot putting_wamr "\<lambda>_ _. True" _ zero_session]
  by (simp add: ta_boot_def zero_session_def)

text \<open>
  C31: The size of the shared buffer is never checked before a message is written: after a successful
  \<open>RUN_WASM\<close>, with every module whose calls return and stay inside their objects, a \<open>RESUME_WASM\<close>
  with a buffer shorter than the 256 bytes of a response accesses it past its end.
\<close>

theorem small_shared_buffer_overflow:
  assumes "engine_confined A" and "ta_inv True ta" and "length (p_buffer (par2 ps)) < 256"
  shows "TA_InvokeCommandEntryPoint A M COMMAND_RESUME_WASM resume_param_types ps ta = None"
proof -
  have fill: "TEE_MemFill 0 NUL 256 (p_buffer (par2 ps)) = None" "TEE_MemFill 0 NUL 320 (p_buffer (par2 ps)) = None"
    using assms(3) by (simp_all add: TEE_MemFill_def buf_write_def)
  then have wr: "write_response m n ps = None" for m n by (simp add: write_response_def)
  have "process_hostcall_flow A ps t \<noteq> Some x" for t x
    using fill by (auto simp: process_hostcall_flow_def wr Let_def bind_eq_Some_conv split: if_splits prod.splits)
  then have "resume_wasm A ps ta \<noteq> Some x" for x
    using assms(2)
    by (auto simp: resume_wasm_def ta_inv_def instance_live_def bind_eq_Some_conv split: option.splits)
  then show ?thesis unfolding invoke_resume by (meson not_Some_eq)
qed

lemma hostcall_no_instance:
  assumes "wc_module_inst (ta_runtime_ctx ta) = None"
  shows "process_hostcall_flow A ps ta = None"
  using assms by (cases "ta_sess ta") (simp_all add: process_hostcall_flow_def call_step_def)

lemma deliver_no_instance:
  assumes "deliver_get_response W buf sc None = Some (sc', mi)"
  shows "mi = None"
  using assms by (cases "sc_wasm_out_offset sc \<noteq> 0 \<and> sc_wasm_out_len sc > 0")
    (auto simp: deliver_get_response_def Let_def bind_eq_Some_conv)

lemma resume_no_instance:
  assumes "ta_sess ta = Some sc" and "sc_runtime sc" and "wc_module_inst (ta_runtime_ctx ta) = None"
  shows "resume_wasm A ps ta = None"
proof (cases "sc_pending_type sc = GET_STATE_REQUEST")
  case True
  show ?thesis
  proof (cases "deliver_get_response (rt_mem A) (p_buffer (par2 ps)) sc None")
    case (Some r)
    then show ?thesis
      using True assms deliver_no_instance [of _ _ _ "fst r" "snd r"]
      by (cases r) (auto simp: resume_wasm_def hostcall_no_instance)
  qed (use True assms in \<open>simp add: resume_wasm_def\<close>)
next
  case False
  with assms show ?thesis by (simp add: resume_wasm_def hostcall_no_instance)
qed

text \<open>
  C30: A \<open>RUN_WASM\<close> whose module does not load clears the runtime context but leaves the
  session's pointer to it: after an earlier successful \<open>RUN_WASM\<close>, the next \<open>RESUME_WASM\<close>
  passes the guard and uses the missing module instance.
\<close>

theorem failed_rerun_leaves_stale_runtime:
  assumes "ta_sess ta = Some sc" and "sess_ok sc" and "sc_runtime sc" and "host_params ps"
    and "M (ta_allocs ta) (unat (ta_heap_size ta))"
    and "M (ta_allocs ta @ [unat (ta_heap_size ta)]) (length (p_buffer (par0 ps)))"
    and "wasm_runtime_load A (p_buffer (par0 ps)) (length (p_buffer (par0 ps)) mod 2 ^ 32) = None"
  shows "\<exists>ps' ta'. TA_InvokeCommandEntryPoint A M COMMAND_RUN_WASM run_param_types ps ta =
       Some (TEE_ERROR_GENERIC, ps', ta') \<and>
     (\<forall>ps. TA_InvokeCommandEntryPoint A M COMMAND_RESUME_WASM resume_param_types ps ta' = None)"
proof -
  obtain a where a: "receive_arguments (p_buffer (par2 ps)) sc = Some (sc\<lparr>sc_args := a\<rparr>)"
    using receive_confined [OF assms(2,4)] by blast
  obtain ta' where r: "run_wasm A M ps ta = Some (TEE_ERROR_GENERIC, set_value 0 ps, ta')"
    and ta': "\<exists>sc'. ta_sess ta' = Some sc' \<and> sc_runtime sc'" "wc_module_inst (ta_runtime_ctx ta') = None"
    using assms a by (auto simp: run_wasm_def Let_def TEE_Malloc_def initialize_load_fails)
  then have "resume_wasm A q ta' = None" for q by (auto intro: resume_no_instance)
  with r show ?thesis unfolding invoke_run invoke_resume by blast
qed

definition demo_live :: "unit ta_state" where
  "demo_live = ta_boot\<lparr>ta_sess := Some (zero_session\<lparr>sc_runtime := True\<rparr>), ta_heap_size := 10485760,
     ta_runtime_ctx := (ta_runtime_ctx ta_boot)\<lparr>wc_module_inst := Some demo_inst\<rparr>\<rparr>"

definition buffer_params :: "char list \<Rightarrow> char list \<Rightarrow> tee_params" where
  "buffer_params wasm buf = \<lparr>par0 = \<lparr>p_value_a = 0, p_buffer = wasm\<rparr>, par1 = \<lparr>p_value_a = 0, p_buffer = []\<rparr>,
     par2 = \<lparr>p_value_a = 0, p_buffer = buf\<rparr>, par3 = \<lparr>p_value_a = 0, p_buffer = []\<rparr>\<rparr>"

lemma sess_ok_demo: "sess_ok (zero_session\<lparr>sc_runtime := True\<rparr>)" "sess_ok zero_session"
  by (simp_all add: sess_ok_def session_inv_def wf_session_def args_terminated_def zero_session_def)

lemma demo_live_inv: "ta_inv True demo_live"
  using sess_ok_demo(1) by (simp add: ta_inv_def instance_live_def demo_live_def)

theorem small_shared_buffer_overflow_witness:
  "TA_InvokeCommandEntryPoint putting_wamr (\<lambda>_ _. True) COMMAND_RESUME_WASM resume_param_types
     (buffer_params [] (replicate 100 NUL)) demo_live = None"
  by (rule small_shared_buffer_overflow [OF putting_confined demo_live_inv]) (simp add: buffer_params_def)

theorem failed_rerun_leaves_stale_runtime_witness:
  "\<exists>ps' ta'. TA_InvokeCommandEntryPoint putting_wamr (\<lambda>_ _. True) COMMAND_RUN_WASM run_param_types
       (buffer_params [] (replicate 640 NUL)) demo_live = Some (TEE_ERROR_GENERIC, ps', ta') \<and>
     (\<forall>ps. TA_InvokeCommandEntryPoint putting_wamr (\<lambda>_ _. True) COMMAND_RESUME_WASM resume_param_types ps ta' = None)"
  by (rule failed_rerun_leaves_stale_runtime [of demo_live "zero_session\<lparr>sc_runtime := True\<rparr>"])
    (simp_all add: demo_live_def sess_ok_demo host_params_def buffer_params_def putting_wamr_def Let_def)

section \<open>Memory\<close>

lemma bind_SomeE:
  assumes "Option.bind m f = Some x" and "\<And>y. m = Some y \<Longrightarrow> f y = Some x \<Longrightarrow> P"
  shows P
  using assms by (auto simp: bind_eq_Some_conv)

lemma hostcall_frame:
  assumes "process_hostcall_flow A ps ta = Some (r, ps', ta')"
  shows "ta_allocs ta' = ta_allocs ta \<and> ta_heap_size ta' = ta_heap_size ta"
  using assms unfolding process_hostcall_flow_def Let_def
  by (elim bind_SomeE) (auto elim!: bind_SomeE split: if_splits prod.splits)

lemma resume_frame:
  assumes "resume_wasm A ps ta = Some (r, ps', ta')"
  shows "ta_allocs ta' = ta_allocs ta \<and> ta_heap_size ta' = ta_heap_size ta"
  using assms unfolding resume_wasm_def
  by (auto elim!: bind_SomeE dest!: hostcall_frame split: option.splits if_splits prod.splits)

lemma run_frame:
  assumes "run_wasm A M ps ta = Some (r, ps', ta')"
  shows "ta_heap_size ta' = ta_heap_size ta \<and> (\<exists>bs. ta_allocs ta' = ta_allocs ta @ bs \<and>
     (r = TEE_SUCCESS \<longrightarrow> bs = [unat (ta_heap_size ta), length (p_buffer (par0 ps))]))"
  using assms unfolding run_wasm_def Let_def
  by (auto simp: TEE_Malloc_def elim!: bind_SomeE dest!: hostcall_frame
      split: option.splits if_splits prod.splits)

text \<open>
  C36: No command ever gives memory back. Whatever the host sends, the blocks the TA holds
  stay allocated, and each successful \<open>RUN_WASM\<close> adds two more: a heap of the configured
  size and a copy of the module; the pointers to the previous ones are overwritten.
\<close>

theorem memory_never_released:
  assumes "TA_InvokeCommandEntryPoint A M c t ps ta = Some (r, ps', ta')"
  shows "\<exists>bs. ta_allocs ta' = ta_allocs ta @ bs \<and>
     (c = COMMAND_RUN_WASM \<and> r = TEE_SUCCESS \<longrightarrow> bs = [unat (ta_heap_size ta), length (p_buffer (par0 ps))])"
  using assms
  by (auto simp: TA_InvokeCommandEntryPoint_def TA_SetHeapSize_def dest!: run_frame resume_frame split: if_splits)

text \<open>
  A session serves one invocation. With an allocator that has \<open>B\<close> bytes and a configured
  heap of more than half of them (the build gives the TA 12 MB, the proxy asks for 10 MB),
  the \<open>RUN_WASM\<close> after a successful one answers \<open>TEE_ERROR_OUT_OF_MEMORY\<close>, which is why the
  proxy restarts the session after every transaction.
\<close>

theorem second_run_out_of_memory:
  assumes "engine_confined A" and "ta_inv live ta" and "host_params ps" and "host_params ps2"
    and "M = (\<lambda>al n. sum_list al + n \<le> B)" and "B < 2 * unat (ta_heap_size ta)"
    and "TA_InvokeCommandEntryPoint A M COMMAND_RUN_WASM run_param_types ps ta = Some (TEE_SUCCESS, ps', ta')"
  shows "\<exists>ta''. TA_InvokeCommandEntryPoint A M COMMAND_RUN_WASM run_param_types ps2 ta' =
     Some (TEE_ERROR_OUT_OF_MEMORY, set_value 0 ps2, ta'')"
proof -
  have r: "run_wasm A M ps ta = Some (TEE_SUCCESS, ps', ta')" using assms(7) unfolding invoke_run .
  have "ta_inv True ta'" using run_confined [OF assms(1-3), of M] r by simp
  then obtain sc where sc: "ta_sess ta' = Some sc" "sess_ok sc"
    by (auto simp: ta_inv_def instance_live_def split: option.splits)
  obtain a where a: "receive_arguments (p_buffer (par2 ps2)) sc = Some (sc\<lparr>sc_args := a\<rparr>)"
    using receive_confined [OF sc(2) assms(4)] by blast
  have "\<not> M (ta_allocs ta') (unat (ta_heap_size ta'))"
    using run_frame [OF r] assms(5,6) by auto
  then show ?thesis
    unfolding invoke_run using sc(1) a by (auto simp: run_wasm_def Let_def TEE_Malloc_def)
qed

lemma call_step_putting:
  assumes "call_step putting_wamr name ctx sess = Some (ok, ctx', sess')"
  shows ok
  using assms unfolding call_step_def Let_def putting_wamr_def
  by (auto elim!: bind_SomeE split: option.splits prod.splits)

definition bounded_malloc :: "nat \<Rightarrow> tee_malloc" where
  "bounded_malloc B = (\<lambda>al n. sum_list al + n \<le> B)"

lemma putting_run:
  assumes "ta_sess ta = Some zero_session" and "M (ta_allocs ta) (unat (ta_heap_size ta))"
    and "M (ta_allocs ta @ [unat (ta_heap_size ta)]) 1"
  shows "\<exists>ps' ta'. run_wasm putting_wamr M (buffer_params [NUL] (replicate 640 NUL)) ta = Some (TEE_SUCCESS, ps', ta')"
proof -
  let ?ps = "buffer_params [NUL] (replicate 640 NUL)" and ?n = "length (ta_allocs ta)"
  have hp: "host_params ?ps" by (simp add: host_params_def buffer_params_def Let_def)
  obtain a where a: "receive_arguments (p_buffer (par2 ?ps)) zero_session = Some (zero_session\<lparr>sc_args := a\<rparr>)"
    "sess_ok (zero_session\<lparr>sc_args := a\<rparr>)"
    using receive_confined [OF sess_ok_demo(2) hp] by blast
  let ?sc = "zero_session\<lparr>sc_args := a, sc_heap_buf_owned := Some ?n, sc_trusted_wasm_owned := Some (?n + 1), sc_runtime := True\<rparr>"
  let ?ctx = "\<lparr>wc_wasm_bytecode = [NUL], wc_wasm_bytecode_size = 1, wc_wasm_bytecode_hash = replicate 32 NUL,
     wc_heap_buf = Some ?n, wc_heap_size = ta_heap_size ta, wc_module = Some 0, wc_module_inst = Some demo_inst,
     wc_exec_env = None, wc_native_symbols = chaincode_native_symbols\<rparr> :: unit wamr_context"
  obtain ok ctx' sc' where c: "call_step putting_wamr ''step_init'' ?ctx (Some ?sc) = Some (ok, ctx', Some sc')"
    "sess_ok sc'" "sc_runtime sc' = sc_runtime ?sc" "wc_module_inst ctx' \<noteq> None"
    using call_step_confined [OF putting_confined _ sess_ok_buffers(2) [OF a(2)], of ?ctx] by force
  have ok: ok using call_step_putting [OF c(1)] .
  have H: "\<exists>ps' ta'. process_hostcall_flow putting_wamr (set_value 0 ?ps) t = Some (TEE_SUCCESS, ps', ta')"
    if "ta_sess t = Some sc'" "ta_runtime_ctx t = ctx'" for t
    using hostcall_confined [OF putting_confined that(1) c(2), of "set_value 0 ?ps"] that(2) c(3,4) hp
    by (auto simp: host_params_def Let_def)
  have i: "TA_InitializeWamrRuntime putting_wamr (?ctx\<lparr>wc_module := None, wc_module_inst := None\<rparr>) = (TEE_SUCCESS, ?ctx, True)"
    by (simp add: TA_InitializeWamrRuntime_def putting_wamr_def Let_def)
  show ?thesis
    using assms a(1) c(1) ok i
    by (simp add: run_wasm_def Let_def buffer_params_def TEE_Malloc_def) (rule H [unfolded buffer_params_def], simp_all)
qed

lemma putting_first_run:
  "\<exists>ps' ta'. run_wasm putting_wamr (bounded_malloc 12582912) (buffer_params [NUL] (replicate 640 NUL))
     (ta_boot\<lparr>ta_sess := Some zero_session, ta_heap_size := 10485760\<rparr>) = Some (TEE_SUCCESS, ps', ta')"
  by (rule putting_run) (simp_all add: ta_boot_def bounded_malloc_def)


theorem second_run_out_of_memory_witness:
  "\<exists>ta'. (\<exists>ps'. TA_InvokeCommandEntryPoint putting_wamr (bounded_malloc 12582912) COMMAND_RUN_WASM run_param_types
       (buffer_params [NUL] (replicate 640 NUL)) (ta_boot\<lparr>ta_sess := Some zero_session, ta_heap_size := 10485760\<rparr>)
       = Some (TEE_SUCCESS, ps', ta')) \<and>
     (\<exists>ta''. TA_InvokeCommandEntryPoint putting_wamr (bounded_malloc 12582912) COMMAND_RUN_WASM run_param_types
       (buffer_params [NUL] (replicate 640 NUL)) ta' =
       Some (TEE_ERROR_OUT_OF_MEMORY, set_value 0 (buffer_params [NUL] (replicate 640 NUL)), ta''))"
proof -
  let ?ps = "buffer_params [NUL] (replicate 640 NUL)"
  let ?ta = "ta_boot\<lparr>ta_sess := Some zero_session, ta_heap_size := 10485760\<rparr> :: unit ta_state"
  have hp: "host_params ?ps" by (simp add: host_params_def buffer_params_def Let_def)
  have inv: "ta_inv False ?ta" using sess_ok_demo(2) by (simp add: ta_inv_def)
  obtain ps' ta' where r: "TA_InvokeCommandEntryPoint putting_wamr (bounded_malloc 12582912) COMMAND_RUN_WASM
      run_param_types ?ps ?ta = Some (TEE_SUCCESS, ps', ta')"
    using putting_first_run unfolding invoke_run by blast
  from second_run_out_of_memory [OF putting_confined inv hp hp bounded_malloc_def _ r] r
  show ?thesis by auto
qed

theorem memory_never_released_witness:
  "\<exists>ta'. (\<exists>ps'. TA_InvokeCommandEntryPoint putting_wamr (bounded_malloc 12582912) COMMAND_RUN_WASM run_param_types
       (buffer_params [NUL] (replicate 640 NUL)) (ta_boot\<lparr>ta_sess := Some zero_session, ta_heap_size := 10485760\<rparr>)
       = Some (TEE_SUCCESS, ps', ta')) \<and> ta_allocs ta' = [10485760, 1]"
proof -
  obtain ps' ta' where r: "TA_InvokeCommandEntryPoint putting_wamr (bounded_malloc 12582912) COMMAND_RUN_WASM
      run_param_types (buffer_params [NUL] (replicate 640 NUL))
      (ta_boot\<lparr>ta_sess := Some zero_session, ta_heap_size := 10485760\<rparr>) = Some (TEE_SUCCESS, ps', ta')"
    using putting_first_run unfolding invoke_run by blast
  from memory_never_released [OF r] r show ?thesis by (auto simp: ta_boot_def buffer_params_def)
qed

end
