(* ===== verification/Cpp_Prelude.thy ===== *)
theory Cpp_Prelude
  imports Main "HOL-Library.Word" "HOL-Library.Monad_Syntax"
begin

text \<open>
  Shared vocabulary of the theories about the C++ headers under \<open>src/fixed-proxy/include\<close>:
  signed 32-bit arithmetic whose overflow is undefined, debug checks, and arrays accessed by
  \<open>int\<close> indices.

  The value \<^term>\<open>None\<close> stands for everything the C++ standard leaves undefined or that a
  \<open>GOOGLE_DCHECK\<close> aborts: an out-of-range access, a null dereference, a signed overflow.
  A theorem \<open>f x = Some y\<close> therefore also says that \<open>f\<close> does none of this on \<open>x\<close>.
\<close>

named_theorems arr_simps \<open>array accesses with an index in range\<close>

section \<open>Signed integers and checks\<close>

definition c_int :: "int \<Rightarrow> int option" where
  "c_int n = (if - (2 ^ 31) \<le> n \<and> n < 2 ^ 31 then Some n else None)"

definition GOOGLE_DCHECK :: "bool \<Rightarrow> unit option" where
  "GOOGLE_DCHECK b = (if b then Some () else None)"

lemma c_int_Some [simp]: "- (2 ^ 31) \<le> n \<Longrightarrow> n < 2 ^ 31 \<Longrightarrow> c_int n = Some n"
  by (simp add: c_int_def)

lemma c_int_None [simp]: "2 ^ 31 \<le> n \<Longrightarrow> c_int n = None"
  by (simp add: c_int_def)

lemma c_int_eq_Some: "c_int n = Some m \<longleftrightarrow> m = n \<and> - (2 ^ 31) \<le> n \<and> n < 2 ^ 31"
  by (auto simp: c_int_def)

lemma GOOGLE_DCHECK_True [simp]: "GOOGLE_DCHECK True = Some ()"
  by (simp add: GOOGLE_DCHECK_def)

lemma GOOGLE_DCHECK_False [simp]: "GOOGLE_DCHECK False = None"
  by (simp add: GOOGLE_DCHECK_def)

lemma GOOGLE_DCHECK_eq_Some: "GOOGLE_DCHECK b = Some u \<longleftrightarrow> b"
  by (simp add: GOOGLE_DCHECK_def)

section \<open>Arrays\<close>

definition arr_get :: "'a list \<Rightarrow> int \<Rightarrow> 'a option" where
  "arr_get xs i = (if 0 \<le> i \<and> nat i < length xs then Some (xs ! nat i) else None)"

definition arr_set :: "'a list \<Rightarrow> int \<Rightarrow> 'a \<Rightarrow> 'a list option" where
  "arr_set xs i v = (if 0 \<le> i \<and> nat i < length xs then Some (xs[nat i := v]) else None)"

text \<open>\<open>arr_copy to i from j n\<close> is \<open>std::copy (from + j, from + j + n, to + i)\<close> between distinct arrays.\<close>

definition arr_copy :: "'a list \<Rightarrow> int \<Rightarrow> 'a list \<Rightarrow> int \<Rightarrow> int \<Rightarrow> 'a list option" where
  "arr_copy to i from j n =
     (if 0 \<le> i \<and> 0 \<le> j \<and> 0 \<le> n \<and> nat (i + n) \<le> length to \<and> nat (j + n) \<le> length from
      then Some (take (nat i) to @ take (nat n) (drop (nat j) from) @ drop (nat (i + n)) to)
      else None)"

definition arr_fill :: "'a list \<Rightarrow> int \<Rightarrow> int \<Rightarrow> 'a \<Rightarrow> 'a list option" where
  "arr_fill xs i j v =
     (if 0 \<le> i \<and> i \<le> j \<and> nat j \<le> length xs
      then Some (take (nat i) xs @ replicate (nat (j - i)) v @ drop (nat j) xs)
      else None)"

lemma arr_get_int [simp]: "arr_get xs (int i) = (if i < length xs then Some (xs ! i) else None)"
  by (simp add: arr_get_def)

lemma arr_set_int [simp]: "arr_set xs (int i) v = (if i < length xs then Some (xs[i := v]) else None)"
  by (simp add: arr_set_def)

lemma arr_get_in [arr_simps]: "0 \<le> i \<Longrightarrow> nat i < length xs \<Longrightarrow> arr_get xs i = Some (xs ! nat i)"
  by (simp add: arr_get_def)

lemma arr_set_in [arr_simps]: "0 \<le> i \<Longrightarrow> nat i < length xs \<Longrightarrow> arr_set xs i v = Some (xs[nat i := v])"
  by (simp add: arr_set_def)

lemma arr_get_eq_Some: "arr_get xs i = Some x \<longleftrightarrow> 0 \<le> i \<and> nat i < length xs \<and> x = xs ! nat i"
  by (auto simp: arr_get_def)

lemma arr_set_eq_Some: "arr_set xs i v = Some ys \<longleftrightarrow> 0 \<le> i \<and> nat i < length xs \<and> ys = xs[nat i := v]"
  by (auto simp: arr_set_def)

lemma length_arr_set: "arr_set xs i v = Some ys \<Longrightarrow> length ys = length xs"
  by (auto simp: arr_set_eq_Some)

lemma length_arr_copy: "arr_copy to i from j n = Some ys \<Longrightarrow> length ys = length to"
  by (auto simp: arr_copy_def nat_add_distrib split: if_splits)

lemma take_Suc_update: "n < length xs \<Longrightarrow> take (Suc n) (xs[n := v]) = take n xs @ [v]"
  by (simp add: take_Suc_conv_app_nth)

lemma take_append_prefix: "length xs + length ys = n \<Longrightarrow> take n (xs @ ys @ zs) = xs @ ys"
  by auto

section \<open>Containers that append\<close>

text \<open>Inserting a sequence element by element, as \<open>std::copy\<close> into a back inserter does.\<close>

primrec insert_all :: "('v \<Rightarrow> 's \<Rightarrow> 's option) \<Rightarrow> 'v list \<Rightarrow> 's \<Rightarrow> 's option" where
  "insert_all add [] s = Some s"
| "insert_all add (x # xs) s = do { s \<leftarrow> add x s; insert_all add xs s }"

text \<open>
  The contract of an appending operation: with room left it succeeds, keeps the invariant
  and adds one element at the end.
\<close>

locale back_insertable =
  fixes add :: "'v \<Rightarrow> 's \<Rightarrow> 's option"
    and inv :: "'s \<Rightarrow> bool"
    and contents :: "'s \<Rightarrow> 'v list"
    and room :: nat
  assumes add_ok: "inv s \<Longrightarrow> length (contents s) < room \<Longrightarrow>
      \<exists>t. add v s = Some t \<and> inv t \<and> contents t = contents s @ [v]"
begin

lemma insert_all_appends:
  "inv s \<Longrightarrow> length (contents s) + length xs \<le> room \<Longrightarrow>
     \<exists>t. insert_all add xs s = Some t \<and> inv t \<and> contents t = contents s @ xs"
proof (induction xs arbitrary: s)
  case (Cons x xs)
  then obtain t where t: "add x s = Some t" "inv t" "contents t = contents s @ [x]"
    using add_ok [of s x] by auto
  then show ?case using Cons.IH [of t] Cons.prems by simp
qed simp

end

end
