(* ===== verification/Repeated_Ptr_Field.thy ===== *)
theory Repeated_Ptr_Field
  imports Cpp_Prelude "HOL-Library.Multiset"
begin

text \<open>
  \<open>RepeatedPtrFieldBase\<close> and \<open>RepeatedPtrField<Element>\<close> of \<open>google/protobuf/repeated_field.h\<close>:
  the array of owned objects behind repeated strings and messages (the proxy's
  \<open>arguments\<close> field is one). The objects live in an explicit heap, so that ownership,
  reuse of cleared objects, double deletion and leaks are visible.

  Parameters: the \<open>TypeHandler\<close> (a record of functions; \<open>StringTypeHandler\<close> is modelled below)
  and the three methods whose bodies are in \<open>repeated_field.cc\<close>, which is not part of the
  repository: \<open>Reserve\<close>, \<open>InternalExtend\<close> and \<open>CloseGap\<close> (\<open>rpf_cc\<close>, with the laws the header
  documents). Null pointers in the array are \<^term>\<open>None\<close>, as are slots never written.
\<close>

section \<open>Objects\<close>

text \<open>
  \<open>ob_arena\<close> is the arena an object was created on, \<open>ob_owned\<close> says that an arena has taken
  ownership of a heap object (\<open>Arena::Own\<close>).
\<close>

record 'm object =
  ob_value :: 'm
  ob_arena :: "nat option"
  ob_owned :: bool

record 'm heap =
  h_objects :: "nat \<rightharpoonup> 'm object"
  h_next :: nat

definition h_alloc :: "nat option \<Rightarrow> 'm \<Rightarrow> 'm heap \<Rightarrow> nat \<times> 'm heap" where
  "h_alloc arena v h =
     (h_next h, \<lparr>h_objects = (h_objects h)(h_next h \<mapsto> \<lparr>ob_value = v, ob_arena = arena, ob_owned = False\<rparr>),
        h_next = h_next h + 1\<rparr>)"

definition h_read :: "nat \<Rightarrow> 'm heap \<Rightarrow> 'm option" where
  "h_read p h = map_option ob_value (h_objects h p)"

definition h_write :: "nat \<Rightarrow> 'm \<Rightarrow> 'm heap \<Rightarrow> 'm heap option" where
  "h_write p v h = do { ob \<leftarrow> h_objects h p; Some (h\<lparr>h_objects := (h_objects h)(p \<mapsto> ob\<lparr>ob_value := v\<rparr>)\<rparr>) }"

text \<open>\<open>delete\<close> of an object that is not a live heap object of one's own is undefined.\<close>

definition h_delete :: "nat \<Rightarrow> 'm heap \<Rightarrow> 'm heap option" where
  "h_delete p h = do {
     ob \<leftarrow> h_objects h p;
     (if ob_arena ob = None \<and> \<not> ob_owned ob then Some (h\<lparr>h_objects := (h_objects h)(p := None)\<rparr>) else None)
   }"

definition arena_Own :: "nat \<Rightarrow> 'm heap \<Rightarrow> 'm heap option" where
  "arena_Own p h = do { ob \<leftarrow> h_objects h p; Some (h\<lparr>h_objects := (h_objects h)(p \<mapsto> ob\<lparr>ob_owned := True\<rparr>)\<rparr>) }"

section \<open>Type handlers\<close>

record 'm type_handler =
  th_init :: 'm
  th_Clear :: "'m \<Rightarrow> 'm"
  th_Merge :: "'m \<Rightarrow> 'm \<Rightarrow> 'm"
  th_tracks_arena :: bool
  th_SpaceUsedLong :: "'m \<Rightarrow> nat"

definition th_New :: "'m type_handler \<Rightarrow> nat option \<Rightarrow> 'm heap \<Rightarrow> nat \<times> 'm heap" where
  "th_New th arena h = h_alloc arena (th_init th) h"

definition th_NewFromPrototype :: "'m type_handler \<Rightarrow> nat option \<Rightarrow> 'm heap \<Rightarrow> nat \<times> 'm heap" where
  "th_NewFromPrototype th arena h = th_New th arena h"

definition th_GetArena :: "'m type_handler \<Rightarrow> nat \<Rightarrow> 'm heap \<Rightarrow> nat option option" where
  "th_GetArena th p h = (if th_tracks_arena th then map_option ob_arena (h_objects h p) else Some None)"

definition th_Delete :: "nat \<Rightarrow> nat option \<Rightarrow> 'm heap \<Rightarrow> 'm heap option" where
  "th_Delete p arena h = (if arena = None then h_delete p h else Some h)"

definition th_clear_at :: "'m type_handler \<Rightarrow> nat \<Rightarrow> 'm heap \<Rightarrow> 'm heap option" where
  "th_clear_at th p h = do { v \<leftarrow> h_read p h; h_write p (th_Clear th v) h }"

definition th_merge_at :: "'m type_handler \<Rightarrow> nat \<Rightarrow> nat \<Rightarrow> 'm heap \<Rightarrow> 'm heap option" where
  "th_merge_at th from to h = do {
     v \<leftarrow> h_read from h; w \<leftarrow> h_read to h; h_write to (th_Merge th v w) h }"

text \<open>\<open>StringTypeHandler\<close>: a string object does not know its arena. \<open>string_space\<close> stands for
  \<open>StringSpaceUsedExcludingSelfLong\<close>, which is not part of the repository.\<close>

definition StringTypeHandler :: "(string \<Rightarrow> nat) \<Rightarrow> nat \<Rightarrow> string type_handler" where
  "StringTypeHandler string_space sizeof_string =
     \<lparr>th_init = [], th_Clear = (\<lambda>v. []), th_Merge = (\<lambda>from to. from), th_tracks_arena = False,
      th_SpaceUsedLong = (\<lambda>v. sizeof_string + string_space v)\<rparr>"

section \<open>The field\<close>

record rp_rep =
  allocated_size :: int
  rep_elems :: "nat option list"

record rp_field =
  rp_arena :: "nat option"
  rp_current_size :: int
  rp_total_size :: int
  rp_rep :: "rp_rep option"

record rpf_cc =
  cc_Reserve :: "int \<Rightarrow> rp_field \<Rightarrow> rp_field"
  cc_InternalExtend :: "int \<Rightarrow> rp_field \<Rightarrow> rp_field"
  cc_CloseGap :: "int \<Rightarrow> int \<Rightarrow> rp_field \<Rightarrow> rp_field"

definition rp_new :: "nat option \<Rightarrow> rp_field" where
  "rp_new arena = \<lparr>rp_arena = arena, rp_current_size = 0, rp_total_size = 0, rp_rep = None\<rparr>"

definition rp_GetArenaNoVirtual :: "rp_field \<Rightarrow> nat option" where
  "rp_GetArenaNoVirtual f = rp_arena f"

text \<open>\<open>rep_->elements[i]\<close> as a pointer to an object, and stores into the array.\<close>

definition rp_elem :: "int \<Rightarrow> rp_field \<Rightarrow> nat option" where
  "rp_elem i f = do { r \<leftarrow> rp_rep f; e \<leftarrow> arr_get (rep_elems r) i; e }"

definition rp_set_elem :: "int \<Rightarrow> nat \<Rightarrow> rp_field \<Rightarrow> rp_field option" where
  "rp_set_elem i p f = do {
     r \<leftarrow> rp_rep f;
     es \<leftarrow> arr_set (rep_elems r) i (Some p);
     Some (f\<lparr>rp_rep := Some (r\<lparr>rep_elems := es\<rparr>)\<rparr>)
   }"

definition rp_allocated :: "rp_field \<Rightarrow> int option" where
  "rp_allocated f = map_option allocated_size (rp_rep f)"

definition rp_set_allocated :: "int \<Rightarrow> rp_field \<Rightarrow> rp_field option" where
  "rp_set_allocated n f = do { r \<leftarrow> rp_rep f; Some (f\<lparr>rp_rep := Some (r\<lparr>allocated_size := n\<rparr>)\<rparr>) }"

definition rp_empty :: "rp_field \<Rightarrow> bool" where
  "rp_empty f \<longleftrightarrow> rp_current_size f = 0"

definition rp_size :: "rp_field \<Rightarrow> int" where
  "rp_size f = rp_current_size f"

definition rp_Capacity :: "rp_field \<Rightarrow> int" where
  "rp_Capacity f = rp_total_size f"

primrec delete_loop :: "nat \<Rightarrow> int \<Rightarrow> nat option \<Rightarrow> rp_field \<Rightarrow> 'm heap \<Rightarrow> 'm heap option" where
  "delete_loop 0 i arena f h = Some h"
| "delete_loop (Suc k) i arena f h = do {
     p \<leftarrow> rp_elem i f;
     h \<leftarrow> th_Delete p arena h;
     delete_loop k (i + 1) arena f h
   }"

definition rp_Destroy :: "'m heap \<Rightarrow> rp_field \<Rightarrow> ('m heap \<times> rp_field) option" where
  "rp_Destroy h f = do {
     h \<leftarrow> (case rp_rep f of
        Some r \<Rightarrow> if rp_arena f = None then delete_loop (nat (allocated_size r)) 0 None f h else Some h
      | None \<Rightarrow> Some h);
     Some (h, f\<lparr>rp_rep := None\<rparr>)
   }"

definition rp_Mutable :: "int \<Rightarrow> rp_field \<Rightarrow> nat option" where
  "rp_Mutable index f = do {
     GOOGLE_DCHECK (index \<ge> 0);
     GOOGLE_DCHECK (index < rp_current_size f);
     rp_elem index f
   }"

definition rp_Get :: "int \<Rightarrow> 'm heap \<Rightarrow> rp_field \<Rightarrow> 'm option" where
  "rp_Get index h f = do {
     GOOGLE_DCHECK (index \<ge> 0);
     GOOGLE_DCHECK (index < rp_current_size f);
     p \<leftarrow> rp_elem index f;
     h_read p h
   }"

definition rp_Delete :: "int \<Rightarrow> rp_field \<Rightarrow> 'm heap \<Rightarrow> 'm heap option" where
  "rp_Delete index f h = do {
     GOOGLE_DCHECK (index \<ge> 0);
     GOOGLE_DCHECK (index < rp_current_size f);
     p \<leftarrow> rp_elem index f;
     th_Delete p (rp_arena f) h
   }"

definition has_cleared :: "rp_field \<Rightarrow> bool" where
  "has_cleared f \<longleftrightarrow> (case rp_rep f of Some r \<Rightarrow> rp_current_size f < allocated_size r | None \<Rightarrow> False)"

text \<open>\<open>if (!rep_ || rep_->allocated_size == total_size_) Reserve (total_size_ + 1)\<close>.\<close>

definition rp_make_room :: "rpf_cc \<Rightarrow> rp_field \<Rightarrow> rp_field option" where
  "rp_make_room cc f =
     (if (case rp_rep f of None \<Rightarrow> True | Some r \<Rightarrow> allocated_size r = rp_total_size f)
      then do { n \<leftarrow> c_int (rp_total_size f + 1); Some (cc_Reserve cc n f) }
      else Some f)"

definition rp_Add :: "'m type_handler \<Rightarrow> rpf_cc \<Rightarrow> 'm heap \<Rightarrow> rp_field \<Rightarrow> (nat \<times> 'm heap \<times> rp_field) option" where
  "rp_Add th cc h f =
     (if has_cleared f then do {
        p \<leftarrow> rp_elem (rp_current_size f) f;
        n \<leftarrow> c_int (rp_current_size f + 1);
        Some (p, h, f\<lparr>rp_current_size := n\<rparr>)
      }
      else do {
        f \<leftarrow> rp_make_room cc f;
        a \<leftarrow> rp_allocated f;
        a \<leftarrow> c_int (a + 1);
        f \<leftarrow> rp_set_allocated a f;
        let (result, h) = th_NewFromPrototype th (rp_arena f) h;
        f \<leftarrow> rp_set_elem (rp_current_size f) result f;
        n \<leftarrow> c_int (rp_current_size f + 1);
        Some (result, h, f\<lparr>rp_current_size := n\<rparr>)
      })"

definition rp_Add_move :: "rpf_cc \<Rightarrow> 'm \<Rightarrow> 'm heap \<Rightarrow> rp_field \<Rightarrow> ('m heap \<times> rp_field) option" where
  "rp_Add_move cc value h f =
     (if has_cleared f then do {
        p \<leftarrow> rp_elem (rp_current_size f) f;
        h \<leftarrow> h_write p value h;
        n \<leftarrow> c_int (rp_current_size f + 1);
        Some (h, f\<lparr>rp_current_size := n\<rparr>)
      }
      else do {
        f \<leftarrow> rp_make_room cc f;
        a \<leftarrow> rp_allocated f;
        a \<leftarrow> c_int (a + 1);
        f \<leftarrow> rp_set_allocated a f;
        let (result, h) = h_alloc (rp_arena f) value h;
        f \<leftarrow> rp_set_elem (rp_current_size f) result f;
        n \<leftarrow> c_int (rp_current_size f + 1);
        Some (h, f\<lparr>rp_current_size := n\<rparr>)
      })"

definition rp_RemoveLast :: "'m type_handler \<Rightarrow> 'm heap \<Rightarrow> rp_field \<Rightarrow> ('m heap \<times> rp_field) option" where
  "rp_RemoveLast th h f = do {
     GOOGLE_DCHECK (rp_current_size f > 0);
     let n = rp_current_size f - 1;
     p \<leftarrow> rp_elem n f;
     h \<leftarrow> th_clear_at th p h;
     Some (h, f\<lparr>rp_current_size := n\<rparr>)
   }"

primrec clear_loop :: "'m type_handler \<Rightarrow> nat \<Rightarrow> int \<Rightarrow> rp_field \<Rightarrow> 'm heap \<Rightarrow> 'm heap option" where
  "clear_loop th 0 i f h = Some h"
| "clear_loop th (Suc k) i f h = do {
     p \<leftarrow> rp_elem i f;
     h \<leftarrow> th_clear_at th p h;
     clear_loop th k (i + 1) f h
   }"

definition rp_Clear :: "'m type_handler \<Rightarrow> 'm heap \<Rightarrow> rp_field \<Rightarrow> ('m heap \<times> rp_field) option" where
  "rp_Clear th h f = do {
     let n = rp_current_size f;
     GOOGLE_DCHECK (n \<ge> 0);
     (if n > 0 then do {
        h \<leftarrow> clear_loop th (nat n) 0 f h;
        Some (h, f\<lparr>rp_current_size := 0\<rparr>)
      }
      else Some (h, f))
   }"

text \<open>
  The two loops of \<open>MergeFromInnerLoop\<close>; \<open>our_elems\<close> starts at index \<open>base\<close> of this field.
\<close>

primrec merge_existing_loop ::
  "'m type_handler \<Rightarrow> nat \<Rightarrow> int \<Rightarrow> int \<Rightarrow> rp_field \<Rightarrow> rp_field \<Rightarrow> 'm heap \<Rightarrow> 'm heap option" where
  "merge_existing_loop th 0 i base other f h = Some h"
| "merge_existing_loop th (Suc k) i base other f h = do {
     other_elem \<leftarrow> rp_elem i other;
     new_elem \<leftarrow> rp_elem (base + i) f;
     h \<leftarrow> th_merge_at th other_elem new_elem h;
     merge_existing_loop th k (i + 1) base other f h
   }"

primrec merge_new_loop ::
  "'m type_handler \<Rightarrow> nat \<Rightarrow> int \<Rightarrow> int \<Rightarrow> rp_field \<Rightarrow> 'm heap \<Rightarrow> rp_field \<Rightarrow> ('m heap \<times> rp_field) option" where
  "merge_new_loop th 0 i base other h f = Some (h, f)"
| "merge_new_loop th (Suc k) i base other h f = do {
     other_elem \<leftarrow> rp_elem i other;
     let (new_elem, h) = th_NewFromPrototype th (rp_GetArenaNoVirtual f) h;
     h \<leftarrow> th_merge_at th other_elem new_elem h;
     f \<leftarrow> rp_set_elem (base + i) new_elem f;
     merge_new_loop th k (i + 1) base other h f
   }"

definition MergeFromInnerLoop ::
  "'m type_handler \<Rightarrow> int \<Rightarrow> rp_field \<Rightarrow> int \<Rightarrow> int \<Rightarrow> 'm heap \<Rightarrow> rp_field \<Rightarrow> ('m heap \<times> rp_field) option" where
  "MergeFromInnerLoop th base other len already_allocated h f = do {
     h \<leftarrow> merge_existing_loop th (nat (min already_allocated len)) 0 base other f h;
     merge_new_loop th (nat (len - already_allocated)) already_allocated base other h f
   }"

definition MergeFromInternal ::
  "'m type_handler \<Rightarrow> rpf_cc \<Rightarrow> rp_field \<Rightarrow> 'm heap \<Rightarrow> rp_field \<Rightarrow> ('m heap \<times> rp_field) option" where
  "MergeFromInternal th cc other h f = do {
     let other_size = rp_current_size other;
     let f = cc_InternalExtend cc other_size f;
     let base = rp_current_size f;
     a \<leftarrow> rp_allocated f;
     let allocated_elems = a - rp_current_size f;
     (h, f) \<leftarrow> MergeFromInnerLoop th base other other_size allocated_elems h f;
     n \<leftarrow> c_int (rp_current_size f + other_size);
     let f = f\<lparr>rp_current_size := n\<rparr>;
     a \<leftarrow> rp_allocated f;
     f \<leftarrow> (if a < rp_current_size f then rp_set_allocated (rp_current_size f) f else Some f);
     Some (h, f)
   }"

definition rp_merge_value ::
  "'m type_handler \<Rightarrow> rpf_cc \<Rightarrow> rp_field \<Rightarrow> 'm heap \<Rightarrow> rp_field \<Rightarrow> ('m heap \<times> rp_field) option" where
  "rp_merge_value th cc other h f =
     (if rp_current_size other = 0 then Some (h, f) else MergeFromInternal th cc other h f)"

definition rp_SwapElements :: "int \<Rightarrow> int \<Rightarrow> rp_field \<Rightarrow> rp_field option" where
  "rp_SwapElements index1 index2 f = do {
     p \<leftarrow> rp_elem index1 f;
     q \<leftarrow> rp_elem index2 f;
     f \<leftarrow> rp_set_elem index1 q f;
     rp_set_elem index2 p f
   }"

primrec space_loop :: "'m type_handler \<Rightarrow> nat \<Rightarrow> int \<Rightarrow> rp_field \<Rightarrow> 'm heap \<Rightarrow> nat \<Rightarrow> nat option" where
  "space_loop th 0 i f h bytes = Some bytes"
| "space_loop th (Suc k) i f h bytes = do {
     p \<leftarrow> rp_elem i f;
     v \<leftarrow> h_read p h;
     space_loop th k (i + 1) f h (bytes + th_SpaceUsedLong th v)
   }"

definition rp_SpaceUsedExcludingSelfLong ::
  "'m type_handler \<Rightarrow> nat \<Rightarrow> nat \<Rightarrow> 'm heap \<Rightarrow> rp_field \<Rightarrow> nat option" where
  "rp_SpaceUsedExcludingSelfLong th sizeof_ptr kRepHeaderSize h f =
     (let allocated_bytes = nat (rp_total_size f) * sizeof_ptr in
      case rp_rep f of
        None \<Rightarrow> Some allocated_bytes
      | Some r \<Rightarrow> do {
          b \<leftarrow> space_loop th (nat (allocated_size r)) 0 f h allocated_bytes;
          Some (b + kRepHeaderSize)
        })"

section \<open>Advanced memory management\<close>

definition rp_AddFromCleared :: "rp_field \<Rightarrow> (nat option \<times> rp_field) option" where
  "rp_AddFromCleared f =
     (if has_cleared f then do {
        p \<leftarrow> rp_elem (rp_current_size f) f;
        n \<leftarrow> c_int (rp_current_size f + 1);
        Some (Some p, f\<lparr>rp_current_size := n\<rparr>)
      }
      else Some (None, f))"

definition rp_UnsafeArenaAddAllocated ::
  "rpf_cc \<Rightarrow> nat \<Rightarrow> 'm heap \<Rightarrow> rp_field \<Rightarrow> ('m heap \<times> rp_field) option" where
  "rp_UnsafeArenaAddAllocated cc value h f = do {
     (h, f) \<leftarrow>
       (if rp_rep f = None \<or> rp_current_size f = rp_total_size f then do {
          n \<leftarrow> c_int (rp_total_size f + 1);
          let f = cc_Reserve cc n f;
          a \<leftarrow> rp_allocated f;
          f \<leftarrow> rp_set_allocated (a + 1) f;
          Some (h, f)
        }
        else do {
          a \<leftarrow> rp_allocated f;
          (if a = rp_total_size f then do {
             p \<leftarrow> rp_elem (rp_current_size f) f;
             h \<leftarrow> th_Delete p (rp_arena f) h;
             Some (h, f)
           }
           else if rp_current_size f < a then do {
             p \<leftarrow> rp_elem (rp_current_size f) f;
             f \<leftarrow> rp_set_elem a p f;
             f \<leftarrow> rp_set_allocated (a + 1) f;
             Some (h, f)
           }
           else do {
             f \<leftarrow> rp_set_allocated (a + 1) f;
             Some (h, f)
           })
        });
     f \<leftarrow> rp_set_elem (rp_current_size f) value f;
     n \<leftarrow> c_int (rp_current_size f + 1);
     Some (h, f\<lparr>rp_current_size := n\<rparr>)
   }"

definition rp_AddAllocatedSlowWithCopy ::
  "'m type_handler \<Rightarrow> rpf_cc \<Rightarrow> nat \<Rightarrow> nat option \<Rightarrow> nat option \<Rightarrow> 'm heap \<Rightarrow> rp_field \<Rightarrow> ('m heap \<times> rp_field) option" where
  "rp_AddAllocatedSlowWithCopy th cc value value_arena my_arena h f = do {
     (value, h) \<leftarrow>
       (if my_arena \<noteq> None \<and> value_arena = None then do {
          h \<leftarrow> arena_Own value h;
          Some (value, h)
        }
        else if my_arena \<noteq> value_arena then do {
          let (new_value, h) = th_NewFromPrototype th my_arena h;
          h \<leftarrow> th_merge_at th value new_value h;
          h \<leftarrow> th_Delete value value_arena h;
          Some (new_value, h)
        }
        else Some (value, h));
     rp_UnsafeArenaAddAllocated cc value h f
   }"

text \<open>The fast path that both versions of \<open>AddAllocatedInternal\<close> share.\<close>

definition rp_add_fast :: "nat \<Rightarrow> rp_field \<Rightarrow> rp_field option" where
  "rp_add_fast value f = do {
     a \<leftarrow> rp_allocated f;
     f \<leftarrow> (if rp_current_size f < a then do {
             p \<leftarrow> rp_elem (rp_current_size f) f;
             rp_set_elem a p f
           }
           else Some f);
     f \<leftarrow> rp_set_elem (rp_current_size f) value f;
     n \<leftarrow> c_int (rp_current_size f + 1);
     a \<leftarrow> c_int (a + 1);
     rp_set_allocated a (f\<lparr>rp_current_size := n\<rparr>)
   }"

definition has_free_slot :: "rp_field \<Rightarrow> bool" where
  "has_free_slot f \<longleftrightarrow> (case rp_rep f of Some r \<Rightarrow> allocated_size r < rp_total_size f | None \<Rightarrow> False)"

definition rp_AddAllocatedInternal_merge ::
  "'m type_handler \<Rightarrow> rpf_cc \<Rightarrow> nat \<Rightarrow> 'm heap \<Rightarrow> rp_field \<Rightarrow> ('m heap \<times> rp_field) option" where
  "rp_AddAllocatedInternal_merge th cc value h f = do {
     element_arena \<leftarrow> th_GetArena th value h;
     let arena = rp_GetArenaNoVirtual f;
     (if arena = element_arena \<and> has_free_slot f
      then do { f \<leftarrow> rp_add_fast value f; Some (h, f) }
      else rp_AddAllocatedSlowWithCopy th cc value element_arena arena h f)
   }"

definition rp_AddAllocatedInternal_no_merge ::
  "rpf_cc \<Rightarrow> nat \<Rightarrow> 'm heap \<Rightarrow> rp_field \<Rightarrow> ('m heap \<times> rp_field) option" where
  "rp_AddAllocatedInternal_no_merge cc value h f =
     (if has_free_slot f
      then do { f \<leftarrow> rp_add_fast value f; Some (h, f) }
      else rp_UnsafeArenaAddAllocated cc value h f)"

definition rp_UnsafeArenaReleaseLast :: "rp_field \<Rightarrow> (nat \<times> rp_field) option" where
  "rp_UnsafeArenaReleaseLast f = do {
     GOOGLE_DCHECK (rp_current_size f > 0);
     let f = f\<lparr>rp_current_size := rp_current_size f - 1\<rparr>;
     result \<leftarrow> rp_elem (rp_current_size f) f;
     a \<leftarrow> rp_allocated f;
     f \<leftarrow> rp_set_allocated (a - 1) f;
     f \<leftarrow> (if rp_current_size f < a - 1 then do {
             p \<leftarrow> rp_elem (a - 1) f;
             rp_set_elem (rp_current_size f) p f
           }
           else Some f);
     Some (result, f)
   }"

definition rp_ReleaseLastInternal_merge ::
  "'m type_handler \<Rightarrow> 'm heap \<Rightarrow> rp_field \<Rightarrow> (nat \<times> 'm heap \<times> rp_field) option" where
  "rp_ReleaseLastInternal_merge th h f = do {
     (result, f) \<leftarrow> rp_UnsafeArenaReleaseLast f;
     (if rp_GetArenaNoVirtual f = None then Some (result, h, f)
      else do {
        let (new_result, h) = th_NewFromPrototype th None h;
        h \<leftarrow> th_merge_at th result new_result h;
        Some (new_result, h, f)
      })
   }"

definition rp_ReleaseLastInternal_no_merge :: "rp_field \<Rightarrow> (nat \<times> rp_field) option" where
  "rp_ReleaseLastInternal_no_merge f = do {
     GOOGLE_DCHECK (rp_GetArenaNoVirtual f = None);
     rp_UnsafeArenaReleaseLast f
   }"

definition rp_ClearedCount :: "rp_field \<Rightarrow> int" where
  "rp_ClearedCount f = (case rp_rep f of Some r \<Rightarrow> allocated_size r - rp_current_size f | None \<Rightarrow> 0)"

definition rp_AddCleared :: "'m type_handler \<Rightarrow> rpf_cc \<Rightarrow> nat \<Rightarrow> 'm heap \<Rightarrow> rp_field \<Rightarrow> rp_field option" where
  "rp_AddCleared th cc value h f = do {
     GOOGLE_DCHECK (rp_GetArenaNoVirtual f = None);
     va \<leftarrow> th_GetArena th value h;
     GOOGLE_DCHECK (va = None);
     f \<leftarrow> rp_make_room cc f;
     a \<leftarrow> rp_allocated f;
     f \<leftarrow> rp_set_elem a value f;
     a \<leftarrow> c_int (a + 1);
     rp_set_allocated a f
   }"

definition rp_ReleaseCleared :: "rp_field \<Rightarrow> (nat \<times> rp_field) option" where
  "rp_ReleaseCleared f = do {
     GOOGLE_DCHECK (rp_GetArenaNoVirtual f = None);
     GOOGLE_DCHECK (rp_rep f \<noteq> None);
     a \<leftarrow> rp_allocated f;
     GOOGLE_DCHECK (a > rp_current_size f);
     f \<leftarrow> rp_set_allocated (a - 1) f;
     p \<leftarrow> rp_elem (a - 1) f;
     Some (p, f)
   }"

section \<open>Two fields\<close>

text \<open>A world holds the objects and the fields themselves, each at an address.\<close>

record 'm rp_world =
  w_heap :: "'m heap"
  w_fields :: "nat \<rightharpoonup> rp_field"

definition w_on :: "nat \<Rightarrow> ('m heap \<Rightarrow> rp_field \<Rightarrow> ('m heap \<times> rp_field) option) \<Rightarrow> 'm rp_world \<Rightarrow> 'm rp_world option" where
  "w_on this op w = do {
     f \<leftarrow> w_fields w this;
     (h, f) \<leftarrow> op (w_heap w) f;
     Some \<lparr>w_heap = h, w_fields = (w_fields w)(this \<mapsto> f)\<rparr>
   }"

definition rp_MergeFrom :: "'m type_handler \<Rightarrow> rpf_cc \<Rightarrow> nat \<Rightarrow> nat \<Rightarrow> 'm rp_world \<Rightarrow> 'm rp_world option" where
  "rp_MergeFrom th cc this other w = do {
     GOOGLE_DCHECK (other \<noteq> this);
     g \<leftarrow> w_fields w other;
     w_on this (rp_merge_value th cc g) w
   }"

definition rp_CopyFrom :: "'m type_handler \<Rightarrow> rpf_cc \<Rightarrow> nat \<Rightarrow> nat \<Rightarrow> 'm rp_world \<Rightarrow> 'm rp_world option" where
  "rp_CopyFrom th cc this other w =
     (if other = this then Some w
      else do {
        w \<leftarrow> w_on this (rp_Clear th) w;
        rp_MergeFrom th cc this other w
      })"

definition rp_InternalSwap :: "nat \<Rightarrow> nat \<Rightarrow> 'm rp_world \<Rightarrow> 'm rp_world option" where
  "rp_InternalSwap this other w = do {
     GOOGLE_DCHECK (this \<noteq> other);
     f \<leftarrow> w_fields w this;
     g \<leftarrow> w_fields w other;
     GOOGLE_DCHECK (rp_GetArenaNoVirtual f = rp_GetArenaNoVirtual g);
     let f' = f\<lparr>rp_rep := rp_rep g, rp_current_size := rp_current_size g, rp_total_size := rp_total_size g\<rparr>;
     let g' = g\<lparr>rp_rep := rp_rep f, rp_current_size := rp_current_size f, rp_total_size := rp_total_size f\<rparr>;
     Some (w\<lparr>w_fields := (w_fields w)(this \<mapsto> f', other \<mapsto> g')\<rparr>)
   }"

definition rp_SwapFallback :: "'m type_handler \<Rightarrow> rpf_cc \<Rightarrow> nat \<Rightarrow> nat \<Rightarrow> nat \<Rightarrow> 'm rp_world \<Rightarrow> 'm rp_world option" where
  "rp_SwapFallback th cc temp this other w = do {
     f \<leftarrow> w_fields w this;
     g \<leftarrow> w_fields w other;
     GOOGLE_DCHECK (rp_GetArenaNoVirtual g \<noteq> rp_GetArenaNoVirtual f);
     let w = w\<lparr>w_fields := (w_fields w)(temp \<mapsto> rp_new (rp_GetArenaNoVirtual g))\<rparr>;
     w \<leftarrow> rp_MergeFrom th cc temp this w;
     w \<leftarrow> w_on this (rp_Clear th) w;
     w \<leftarrow> rp_MergeFrom th cc this other w;
     w \<leftarrow> w_on other (rp_Clear th) w;
     w \<leftarrow> rp_InternalSwap other temp w;
     w \<leftarrow> w_on temp rp_Destroy w;
     Some (w\<lparr>w_fields := (w_fields w)(temp := None)\<rparr>)
   }"

definition rp_base_Swap :: "'m type_handler \<Rightarrow> rpf_cc \<Rightarrow> nat \<Rightarrow> nat \<Rightarrow> nat \<Rightarrow> 'm rp_world \<Rightarrow> 'm rp_world option" where
  "rp_base_Swap th cc temp this other w = do {
     f \<leftarrow> w_fields w this;
     g \<leftarrow> w_fields w other;
     (if rp_GetArenaNoVirtual g = rp_GetArenaNoVirtual f then rp_InternalSwap this other w
      else rp_SwapFallback th cc temp this other w)
   }"

definition rp_Swap :: "'m type_handler \<Rightarrow> rpf_cc \<Rightarrow> nat \<Rightarrow> nat \<Rightarrow> nat \<Rightarrow> 'm rp_world \<Rightarrow> 'm rp_world option" where
  "rp_Swap th cc temp this other w =
     (if this = other then Some w else rp_base_Swap th cc temp this other w)"

definition rp_UnsafeArenaSwap :: "nat \<Rightarrow> nat \<Rightarrow> 'm rp_world \<Rightarrow> 'm rp_world option" where
  "rp_UnsafeArenaSwap this other w = (if this = other then Some w else rp_InternalSwap this other w)"

definition rp_copy_new :: "'m type_handler \<Rightarrow> rpf_cc \<Rightarrow> nat \<Rightarrow> nat \<Rightarrow> 'm rp_world \<Rightarrow> 'm rp_world option" where
  "rp_copy_new th cc this other w =
     rp_MergeFrom th cc this other (w\<lparr>w_fields := (w_fields w)(this \<mapsto> rp_new None)\<rparr>)"

definition rp_assign :: "'m type_handler \<Rightarrow> rpf_cc \<Rightarrow> nat \<Rightarrow> nat \<Rightarrow> 'm rp_world \<Rightarrow> 'm rp_world option" where
  "rp_assign th cc this other w = (if this \<noteq> other then rp_CopyFrom th cc this other w else Some w)"

definition rp_move_new :: "'m type_handler \<Rightarrow> rpf_cc \<Rightarrow> nat \<Rightarrow> nat \<Rightarrow> 'm rp_world \<Rightarrow> 'm rp_world option" where
  "rp_move_new th cc this other w = do {
     let w = w\<lparr>w_fields := (w_fields w)(this \<mapsto> rp_new None)\<rparr>;
     g \<leftarrow> w_fields w other;
     (if rp_GetArenaNoVirtual g \<noteq> None then rp_CopyFrom th cc this other w else rp_InternalSwap this other w)
   }"

definition rp_move_assign :: "'m type_handler \<Rightarrow> rpf_cc \<Rightarrow> nat \<Rightarrow> nat \<Rightarrow> 'm rp_world \<Rightarrow> 'm rp_world option" where
  "rp_move_assign th cc this other w =
     (if this \<noteq> other then do {
        f \<leftarrow> w_fields w this;
        g \<leftarrow> w_fields w other;
        (if rp_GetArenaNoVirtual f \<noteq> rp_GetArenaNoVirtual g then rp_CopyFrom th cc this other w
         else rp_InternalSwap this other w)
      }
      else Some w)"

section \<open>Subranges\<close>

primrec collect_loop :: "nat \<Rightarrow> int \<Rightarrow> rp_field \<Rightarrow> nat list option" where
  "collect_loop 0 i f = Some []"
| "collect_loop (Suc k) i f = do { p \<leftarrow> rp_Mutable i f; ps \<leftarrow> collect_loop k (i + 1) f; Some (p # ps) }"

primrec copy_out_loop :: "'m type_handler \<Rightarrow> nat \<Rightarrow> int \<Rightarrow> rp_field \<Rightarrow> 'm heap \<Rightarrow> (nat list \<times> 'm heap) option" where
  "copy_out_loop th 0 i f h = Some ([], h)"
| "copy_out_loop th (Suc k) i f h = do {
     element \<leftarrow> rp_Mutable i f;
     let (new_value, h) = th_NewFromPrototype th None h;
     h \<leftarrow> th_merge_at th element new_value h;
     (ps, h) \<leftarrow> copy_out_loop th k (i + 1) f h;
     Some (new_value # ps, h)
   }"

definition rp_UnsafeArenaExtractSubrange ::
  "rpf_cc \<Rightarrow> int \<Rightarrow> int \<Rightarrow> bool \<Rightarrow> rp_field \<Rightarrow> (nat list \<times> rp_field) option" where
  "rp_UnsafeArenaExtractSubrange cc start num want f = do {
     GOOGLE_DCHECK (start \<ge> 0);
     GOOGLE_DCHECK (num \<ge> 0);
     e \<leftarrow> c_int (start + num);
     GOOGLE_DCHECK (e \<le> rp_size f);
     (if num > 0 then do {
        ps \<leftarrow> (if want then collect_loop (nat num) start f else Some []);
        Some (ps, cc_CloseGap cc start num f)
      }
      else Some ([], f))
   }"

definition rp_ExtractSubrangeInternal_merge ::
  "'m type_handler \<Rightarrow> rpf_cc \<Rightarrow> int \<Rightarrow> int \<Rightarrow> bool \<Rightarrow> 'm heap \<Rightarrow> rp_field \<Rightarrow> (nat list \<times> 'm heap \<times> rp_field) option" where
  "rp_ExtractSubrangeInternal_merge th cc start num want h f = do {
     GOOGLE_DCHECK (start \<ge> 0);
     GOOGLE_DCHECK (num \<ge> 0);
     e \<leftarrow> c_int (start + num);
     GOOGLE_DCHECK (e \<le> rp_size f);
     (if num > 0 then do {
        (ps, h) \<leftarrow>
          (if want then
             (if rp_GetArenaNoVirtual f \<noteq> None then copy_out_loop th (nat num) start f h
              else map_option (\<lambda>ps. (ps, h)) (collect_loop (nat num) start f))
           else Some ([], h));
        Some (ps, h, cc_CloseGap cc start num f)
      }
      else Some ([], h, f))
   }"

definition rp_ExtractSubrangeInternal_no_merge ::
  "rpf_cc \<Rightarrow> int \<Rightarrow> int \<Rightarrow> bool \<Rightarrow> rp_field \<Rightarrow> (nat list \<times> rp_field) option" where
  "rp_ExtractSubrangeInternal_no_merge cc start num want f = do {
     GOOGLE_DCHECK (rp_GetArenaNoVirtual f = None);
     rp_UnsafeArenaExtractSubrange cc start num want f
   }"

primrec delete_range_loop :: "nat \<Rightarrow> int \<Rightarrow> rp_field \<Rightarrow> 'm heap \<Rightarrow> 'm heap option" where
  "delete_range_loop 0 i f h = Some h"
| "delete_range_loop (Suc k) i f h = do { h \<leftarrow> rp_Delete i f h; delete_range_loop k (i + 1) f h }"

definition rp_DeleteSubrange ::
  "'m type_handler \<Rightarrow> rpf_cc \<Rightarrow> int \<Rightarrow> int \<Rightarrow> 'm heap \<Rightarrow> rp_field \<Rightarrow> ('m heap \<times> rp_field) option" where
  "rp_DeleteSubrange th cc start num h f = do {
     GOOGLE_DCHECK (start \<ge> 0);
     GOOGLE_DCHECK (num \<ge> 0);
     e \<leftarrow> c_int (start + num);
     GOOGLE_DCHECK (e \<le> rp_size f);
     h \<leftarrow> delete_range_loop (nat num) start f h;
     (ps, h, f) \<leftarrow> rp_ExtractSubrangeInternal_merge th cc start num False h f;
     Some (h, f)
   }"

text \<open>Iterators are indices; \<open>erase\<close> returns the position after the removed range.\<close>

definition rp_erase_range ::
  "'m type_handler \<Rightarrow> rpf_cc \<Rightarrow> int \<Rightarrow> int \<Rightarrow> 'm heap \<Rightarrow> rp_field \<Rightarrow> (int \<times> 'm heap \<times> rp_field) option" where
  "rp_erase_range th cc first limit h f = do {
     let pos_offset = first;
     let last_offset = limit;
     (h, f) \<leftarrow> rp_DeleteSubrange th cc pos_offset (last_offset - pos_offset) h f;
     Some (pos_offset, h, f)
   }"

definition rp_erase ::
  "'m type_handler \<Rightarrow> rpf_cc \<Rightarrow> int \<Rightarrow> 'm heap \<Rightarrow> rp_field \<Rightarrow> (int \<times> 'm heap \<times> rp_field) option" where
  "rp_erase th cc position h f = rp_erase_range th cc position (position + 1) h f"

section \<open>Adding values\<close>

text \<open>\<open>*field->Add () = value\<close>, the assignment of \<open>RepeatedPtrFieldBackInsertIterator\<close> and the
  body of the range constructor.\<close>

definition rp_back_insert ::
  "'m type_handler \<Rightarrow> rpf_cc \<Rightarrow> 'm \<Rightarrow> 'm heap \<times> rp_field \<Rightarrow> ('m heap \<times> rp_field) option" where
  "rp_back_insert th cc value s = do {
     (p, h, f) \<leftarrow> rp_Add th cc (fst s) (snd s);
     h \<leftarrow> h_write p value h;
     Some (h, f)
   }"

definition rp_range_new ::
  "'m type_handler \<Rightarrow> rpf_cc \<Rightarrow> bool \<Rightarrow> 'm list \<Rightarrow> 'm heap \<Rightarrow> ('m heap \<times> rp_field) option" where
  "rp_range_new th cc forward xs h =
     (let f = rp_new None;
          f = (if forward then cc_Reserve cc (int (length xs)) f else f)
      in insert_all (rp_back_insert th cc) xs (h, f))"

definition rp_allocated_back_insert ::
  "'m type_handler \<Rightarrow> rpf_cc \<Rightarrow> nat \<Rightarrow> 'm heap \<times> rp_field \<Rightarrow> ('m heap \<times> rp_field) option" where
  "rp_allocated_back_insert th cc p s = rp_AddAllocatedInternal_merge th cc p (fst s) (snd s)"

definition rp_unsafe_back_insert ::
  "rpf_cc \<Rightarrow> nat \<Rightarrow> 'm heap \<times> rp_field \<Rightarrow> ('m heap \<times> rp_field) option" where
  "rp_unsafe_back_insert cc p s = rp_UnsafeArenaAddAllocated cc p (fst s) (snd s)"

section \<open>Shape, ownership and contents\<close>

definition rp_ptrs :: "rp_field \<Rightarrow> nat list" where
  "rp_ptrs f = (case rp_rep f of None \<Rightarrow> [] | Some r \<Rightarrow> map the (take (nat (allocated_size r)) (rep_elems r)))"

definition rp_shape :: "rp_field \<Rightarrow> bool" where
  "rp_shape f \<longleftrightarrow> distinct (rp_ptrs f) \<and>
     (case rp_rep f of
        None \<Rightarrow> rp_current_size f = 0 \<and> rp_total_size f = 0
      | Some r \<Rightarrow> 0 \<le> rp_current_size f \<and> rp_current_size f \<le> allocated_size r \<and>
          allocated_size r \<le> rp_total_size f \<and> rp_total_size f < 2 ^ 31 \<and>
          length (rep_elems r) = nat (rp_total_size f) \<and> None \<notin> set (take (nat (allocated_size r)) (rep_elems r)))"

definition heap_ok :: "'m heap \<Rightarrow> bool" where
  "heap_ok h \<longleftrightarrow> (\<forall>p. h_objects h p \<noteq> None \<longrightarrow> p < h_next h)"

text \<open>
  A field owns its objects: they are live, on the heap when the field is, and the ones
  beyond the current size are cleared.
\<close>

definition obj_ok :: "nat option \<Rightarrow> 'm heap \<Rightarrow> nat \<Rightarrow> bool" where
  "obj_ok a h p \<longleftrightarrow> (case h_objects h p of None \<Rightarrow> False
     | Some ob \<Rightarrow> a = None \<longrightarrow> ob_arena ob = None \<and> \<not> ob_owned ob)"

definition cleared :: "'m type_handler \<Rightarrow> 'm heap \<Rightarrow> nat \<Rightarrow> bool" where
  "cleared th h p \<longleftrightarrow> (\<exists>v. h_read p h = Some (th_Clear th v))"

definition rp_inv :: "'m type_handler \<Rightarrow> 'm heap \<Rightarrow> rp_field \<Rightarrow> bool" where
  "rp_inv th h f \<longleftrightarrow> heap_ok h \<and> rp_shape f \<and> (\<forall>p \<in> set (rp_ptrs f). obj_ok (rp_arena f) h p) \<and>
     (\<forall>p \<in> set (drop (nat (rp_current_size f)) (rp_ptrs f)). cleared th h p)"

definition rp_values :: "'m heap \<Rightarrow> rp_field \<Rightarrow> 'm list" where
  "rp_values h f = map (\<lambda>p. the (h_read p h)) (take (nat (rp_current_size f)) (rp_ptrs f))"

definition rp_mk :: "nat option \<Rightarrow> nat \<Rightarrow> nat list \<Rightarrow> nat option list \<Rightarrow> rp_field" where
  "rp_mk a n ps rest = \<lparr>rp_arena = a, rp_current_size = int n, rp_total_size = int (length ps + length rest),
     rp_rep = Some \<lparr>allocated_size = int (length ps), rep_elems = map Some ps @ rest\<rparr>\<rparr>"

lemma rp_mk_fields [simp]:
  "rp_arena (rp_mk a n ps rest) = a" "rp_current_size (rp_mk a n ps rest) = int n"
  "rp_total_size (rp_mk a n ps rest) = int (length ps) + int (length rest)"
  "rp_rep (rp_mk a n ps rest) = Some \<lparr>allocated_size = int (length ps), rep_elems = map Some ps @ rest\<rparr>"
  "rp_ptrs (rp_mk a n ps rest) = ps" "rp_size (rp_mk a n ps rest) = int n"
  "rp_allocated (rp_mk a n ps rest) = Some (int (length ps))" "rp_GetArenaNoVirtual (rp_mk a n ps rest) = a"
  by (simp_all add: rp_mk_def rp_ptrs_def rp_size_def rp_allocated_def rp_GetArenaNoVirtual_def comp_def)

lemma rp_new_fields [simp]:
  "rp_arena (rp_new a) = a" "rp_current_size (rp_new a) = 0" "rp_total_size (rp_new a) = 0"
  "rp_rep (rp_new a) = None" "rp_ptrs (rp_new a) = []" "rp_size (rp_new a) = 0" "rp_GetArenaNoVirtual (rp_new a) = a"
  by (simp_all add: rp_new_def rp_ptrs_def rp_size_def rp_GetArenaNoVirtual_def)

lemma rp_mk_size: "(rp_mk a n ps rest)\<lparr>rp_current_size := int m\<rparr> = rp_mk a m ps rest"
  by (simp add: rp_mk_def)

lemma rp_shape_mk [simp]:
  "rp_shape (rp_mk a n ps rest) \<longleftrightarrow> distinct ps \<and> n \<le> length ps \<and> length ps + length rest < 2 ^ 31"
  by (auto simp: rp_shape_def)

lemma rp_shape_new [simp]: "rp_shape (rp_new a)"
  by (simp add: rp_shape_def)

lemma rp_cases:
  assumes "rp_shape f"
  obtains (new) a where "f = rp_new a"
  | (mk) a n ps rest where "f = rp_mk a n ps rest"
proof (cases "rp_rep f")
  case None
  then have "f = rp_new (rp_arena f)" using assms by (cases f) (auto simp: rp_shape_def rp_new_def)
  then show ?thesis by (rule new)
next
  case (Some r)
  let ?k = "nat (allocated_size r)"
  have b: "0 \<le> rp_current_size f" "rp_current_size f \<le> allocated_size r" "allocated_size r \<le> rp_total_size f"
    "length (rep_elems r) = nat (rp_total_size f)" "None \<notin> set (take ?k (rep_elems r))"
    using assms Some by (auto simp: rp_shape_def)
  have "map Some (map the (take ?k (rep_elems r))) = take ?k (rep_elems r)"
    unfolding map_map comp_def using b(5) by (intro map_idI) (metis option.collapse)
  then have "map Some (map the (take ?k (rep_elems r))) @ drop ?k (rep_elems r) = rep_elems r"
    by (metis append_take_drop_id)
  moreover have "length (take ?k (rep_elems r)) = ?k" using b by simp
  ultimately have "f = rp_mk (rp_arena f) (nat (rp_current_size f)) (map the (take ?k (rep_elems r))) (drop ?k (rep_elems r))"
    using Some b by (cases f, cases r) (simp add: rp_mk_def)
  then show ?thesis by (rule mk)
qed

text \<open>Array accesses on the normal form.\<close>

lemma rp_elem_mk [simp]: "i < length ps \<Longrightarrow> rp_elem (int i) (rp_mk a n ps rest) = Some (ps ! i)"
  by (simp add: rp_elem_def nth_append)

lemma rp_set_elem_last:
  assumes "rest \<noteq> []"
  shows "rp_set_elem (int (length ps)) p (rp_mk a n ps rest) =
    Some \<lparr>rp_arena = a, rp_current_size = int n, rp_total_size = int (length ps + length rest),
      rp_rep = Some \<lparr>allocated_size = int (length ps), rep_elems = map Some (ps @ [p]) @ tl rest\<rparr>\<rparr>"
  using assms by (cases rest) (simp_all add: rp_set_elem_def rp_mk_def list_update_append)

lemma rp_set_elem_mk:
  "i < length ps \<Longrightarrow> rp_set_elem (int i) p (rp_mk a n ps rest) = Some (rp_mk a n (ps[i := p]) rest)"
  by (simp add: rp_set_elem_def rp_mk_def list_update_append map_update)

text \<open>Growing by one object at the end of the allocated part: array, count and size.\<close>

lemma rp_push_mk:
  assumes "rest \<noteq> []"
  shows "do { f \<leftarrow> rp_set_allocated (int (length ps) + 1) (rp_mk a n ps rest); rp_set_elem (int (length ps)) p f } =
    Some (rp_mk a n (ps @ [p]) (tl rest))"
  using assms
  by (cases rest) (simp_all add: rp_set_allocated_def rp_set_elem_def rp_mk_def list_update_append)

section \<open>The methods of \<open>repeated_field.cc\<close>\<close>

text \<open>
  What the header documents: \<open>Reserve\<close> and \<open>InternalExtend\<close> only enlarge the pointer array,
  keep its contents and provide the room asked for; \<open>CloseGap\<close> closes the gap that removing
  \<open>num\<close> elements from \<open>start\<close> on leaves.
\<close>

definition rpf_cc_laws :: "rpf_cc \<Rightarrow> bool" where
  "rpf_cc_laws cc \<longleftrightarrow>
     (\<forall>a m. 0 < m \<and> m \<le> 2 ^ 30 \<longrightarrow> (\<exists>rest. cc_Reserve cc (int m) (rp_new a) = rp_mk a 0 [] rest \<and>
        m \<le> length rest \<and> length rest < 2 ^ 31)) \<and>
     (\<forall>a n ps rest m. n \<le> length ps \<and> length ps + length rest < 2 ^ 31 \<and> m \<le> 2 ^ 30 \<longrightarrow>
        (\<exists>rest'. cc_Reserve cc (int m) (rp_mk a n ps rest) = rp_mk a n ps rest' \<and>
          m \<le> length ps + length rest' \<and> length rest \<le> length rest' \<and> length ps + length rest' < 2 ^ 31)) \<and>
     (\<forall>a m. 0 < m \<and> m \<le> 2 ^ 30 \<longrightarrow> (\<exists>rest. cc_InternalExtend cc (int m) (rp_new a) = rp_mk a 0 [] rest \<and>
        m \<le> length rest \<and> length rest < 2 ^ 31)) \<and>
     (\<forall>a n ps rest m. n \<le> length ps \<and> length ps + length rest < 2 ^ 31 \<and> 0 < m \<and> n + m \<le> 2 ^ 30 \<longrightarrow>
        (\<exists>rest'. cc_InternalExtend cc (int m) (rp_mk a n ps rest) = rp_mk a n ps rest' \<and>
          n + m \<le> length ps + length rest' \<and> length ps + length rest' < 2 ^ 31)) \<and>
     (\<forall>a n ps rest s m. n \<le> length ps \<and> s + m \<le> n \<and> 0 < m \<longrightarrow>
        (\<exists>rest'. cc_CloseGap cc (int s) (int m) (rp_mk a n ps rest) =
            rp_mk a (n - m) (take s ps @ drop (s + m) ps) rest' \<and> length rest' = length rest + m))"

text \<open>A reference implementation of the three methods.\<close>

definition ref_extend :: "int \<Rightarrow> rp_field \<Rightarrow> rp_field" where
  "ref_extend n f =
     (case rp_rep f of
        None \<Rightarrow> f\<lparr>rp_total_size := max 4 n, rp_rep := Some \<lparr>allocated_size = 0, rep_elems = replicate (nat (max 4 n)) None\<rparr>\<rparr>
      | Some r \<Rightarrow> if n \<le> rp_total_size f then f
          else f\<lparr>rp_total_size := n, rp_rep := Some (r\<lparr>rep_elems := rep_elems r @ replicate (nat (n - rp_total_size f)) None\<rparr>)\<rparr>)"

definition ref_CloseGap :: "int \<Rightarrow> int \<Rightarrow> rp_field \<Rightarrow> rp_field" where
  "ref_CloseGap start num f =
     (case rp_rep f of
        None \<Rightarrow> f
      | Some r \<Rightarrow> f\<lparr>rp_current_size := rp_current_size f - num, rp_rep := Some \<lparr>allocated_size = allocated_size r - num,
          rep_elems = take (nat start) (rep_elems r) @ drop (nat (start + num)) (rep_elems r) @ replicate (nat num) None\<rparr>\<rparr>)"

definition ref_cc :: rpf_cc where
  "ref_cc = \<lparr>cc_Reserve = ref_extend, cc_InternalExtend = (\<lambda>n f. ref_extend (rp_current_size f + n) f),
     cc_CloseGap = ref_CloseGap\<rparr>"

lemma ref_extend_new: "ref_extend n (rp_new a) = rp_mk a 0 [] (replicate (nat (max 4 n)) None)"
  by (simp add: ref_extend_def rp_new_def rp_mk_def)

lemma ref_extend_mk:
  "ref_extend n (rp_mk a k ps rest) =
     rp_mk a k ps (rest @ replicate (nat (n - int (length ps + length rest))) None)"
  by (simp add: ref_extend_def rp_mk_def)

lemma ref_cc_laws: "rpf_cc_laws ref_cc"
proof -
  have "ref_CloseGap (int s) (int m) (rp_mk a n ps rest) =
      rp_mk a (n - m) (take s ps @ drop (s + m) ps) (rest @ replicate m None)"
    if "n \<le> length ps" "s + m \<le> n" for a n ps rest s m
    using that by (simp add: ref_CloseGap_def rp_mk_def of_nat_diff nat_add_distrib take_map drop_map)
  then show ?thesis
    unfolding rpf_cc_laws_def ref_cc_def
    by (auto simp: ref_extend_new ref_extend_mk)
qed

section \<open>Heap lemmas\<close>

definition heap_frame :: "'m heap \<Rightarrow> 'm heap \<Rightarrow> nat set \<Rightarrow> bool" where
  "heap_frame h h' S \<longleftrightarrow> h_next h \<le> h_next h' \<and> (\<forall>p. p \<notin> S \<and> p < h_next h \<longrightarrow> h_objects h' p = h_objects h p)"

lemma heap_frame_refl [simp]: "heap_frame h h S"
  by (simp add: heap_frame_def)

lemma heap_frame_trans:
  "heap_frame h1 h2 S \<Longrightarrow> heap_frame h2 h3 T \<Longrightarrow> (\<And>p. p \<in> T \<Longrightarrow> p < h_next h1 \<Longrightarrow> p \<in> S) \<Longrightarrow> heap_frame h1 h3 S"
  unfolding heap_frame_def by (metis le_trans order_less_le_trans)

lemma obj_ok_read: "obj_ok a h p \<Longrightarrow> \<exists>v. h_read p h = Some v"
  by (auto simp: obj_ok_def h_read_def split: option.splits)

lemma obj_ok_bound: "heap_ok h \<Longrightarrow> obj_ok a h p \<Longrightarrow> p < h_next h"
  by (auto simp: heap_ok_def obj_ok_def split: option.splits)

lemma h_write_ok:
  assumes "obj_ok a h p"
  obtains h' where "h_write p v h = Some h'" "h_next h' = h_next h" "h_read p h' = Some v"
    "\<And>q. q \<noteq> p \<Longrightarrow> h_objects h' q = h_objects h q" "\<And>b q. obj_ok b h' q = obj_ok b h q" "heap_ok h' = heap_ok h"
proof -
  obtain ob where ob: "h_objects h p = Some ob" using assms by (auto simp: obj_ok_def split: option.splits)
  show ?thesis
  proof (rule that)
    show "h_write p v h = Some (h\<lparr>h_objects := (h_objects h)(p \<mapsto> ob\<lparr>ob_value := v\<rparr>)\<rparr>)"
      using ob by (simp add: h_write_def)
  qed (use ob in \<open>auto simp: h_read_def obj_ok_def heap_ok_def split: option.splits\<close>)
qed

lemma h_read_other: "h_objects h' q = h_objects h q \<Longrightarrow> h_read q h' = h_read q h"
  by (simp add: h_read_def)

lemma cleared_other: "h_objects h' q = h_objects h q \<Longrightarrow> cleared th h' q = cleared th h q"
  by (simp add: cleared_def h_read_def)

lemma obj_ok_other: "h_objects h' q = h_objects h q \<Longrightarrow> obj_ok a h' q = obj_ok a h q"
  by (simp add: obj_ok_def)

lemma h_alloc_ok:
  assumes "heap_ok h"
  obtains h' where "h_alloc a v h = (h_next h, h')" "h_next h' = h_next h + 1" "h_read (h_next h) h' = Some v"
    "\<And>q. q < h_next h \<Longrightarrow> h_objects h' q = h_objects h q" "obj_ok a h' (h_next h)" "heap_ok h'"
proof (rule that)
  let ?h = "\<lparr>h_objects = (h_objects h)(h_next h \<mapsto> \<lparr>ob_value = v, ob_arena = a, ob_owned = False\<rparr>), h_next = h_next h + 1\<rparr>"
  show "h_alloc a v h = (h_next h, ?h)" by (simp add: h_alloc_def)
  show "heap_ok ?h" using assms by (auto simp: heap_ok_def)
qed (simp_all add: h_read_def obj_ok_def)

section \<open>Each operation on the contents\<close>

lemma rp_inv_mk:
  "rp_inv th h (rp_mk a n ps rest) \<longleftrightarrow> heap_ok h \<and> distinct ps \<and> n \<le> length ps \<and> length ps + length rest < 2 ^ 31 \<and>
     (\<forall>p \<in> set ps. obj_ok a h p) \<and> (\<forall>p \<in> set (drop n ps). cleared th h p)"
  by (auto simp: rp_inv_def)

lemma rp_inv_new: "rp_inv th h (rp_new a) \<longleftrightarrow> heap_ok h"
  by (simp add: rp_inv_def)

lemma rp_values_mk: "rp_values h (rp_mk a n ps rest) = map (\<lambda>p. the (h_read p h)) (take n ps)"
  by (simp add: rp_values_def)

lemma rp_values_new [simp]: "rp_values h (rp_new a) = []"
  by (simp add: rp_values_def)

definition rp_result ::
  "'m type_handler \<Rightarrow> 'm heap \<Rightarrow> rp_field \<Rightarrow> ('m heap \<times> rp_field) option \<Rightarrow> 'm list \<Rightarrow> bool" where
  "rp_result th h f r vs \<longleftrightarrow> (\<exists>h' f'. r = Some (h', f') \<and> rp_inv th h' f' \<and> rp_values h' f' = vs \<and>
     rp_arena f' = rp_arena f \<and> heap_frame h h' (set (rp_ptrs f)) \<and>
     set (rp_ptrs f') = set (rp_ptrs f) \<union> {h_next h ..< h_next h'})"

lemma rp_make_room_ok:
  assumes "rpf_cc_laws cc" "rp_shape f" "\<not> has_cleared f" "rp_current_size f < 2 ^ 30"
  obtains ps rest where "rp_make_room cc f = Some (rp_mk (rp_arena f) (length ps) ps rest)" "rest \<noteq> []"
    "rp_ptrs f = ps" "length ps + length rest < 2 ^ 31" "rp_current_size f = int (length ps)"
  using assms(2)
proof (cases rule: rp_cases)
  case (new a)
  have "\<exists>rest. cc_Reserve cc (int 1) (rp_new a) = rp_mk a 0 [] rest \<and> 1 \<le> length rest \<and> length rest < 2 ^ 31"
    using assms(1) unfolding rpf_cc_laws_def by (metis less_one one_le_numeral one_le_power)
  then obtain rest where "cc_Reserve cc 1 (rp_new a) = rp_mk a 0 [] rest" "1 \<le> length rest" "length rest < 2 ^ 31"
    by auto
  then show ?thesis using new by (intro that [of "[]" rest]) (auto simp: rp_make_room_def)
next
  case (mk a n ps rest)
  have n: "n = length ps" using mk assms(2,3) by (simp add: has_cleared_def)
  show ?thesis
  proof (cases "rest = []")
    case True
    have "length ps + 1 \<le> 2 ^ 30" using n assms(4) mk by simp
    then have "\<exists>rest'. cc_Reserve cc (int (length ps + 1)) (rp_mk a (length ps) ps []) = rp_mk a (length ps) ps rest' \<and>
        length ps + 1 \<le> length ps + length rest' \<and> length ps + length rest' < 2 ^ 31"
      using assms(1) unfolding rpf_cc_laws_def by (metis add_lessD1 add.right_neutral le_refl list.size(3) mk assms(2) n True rp_shape_mk)
    then obtain rest' where r: "cc_Reserve cc (int (length ps) + 1) (rp_mk a (length ps) ps []) = rp_mk a (length ps) ps rest'"
      "length ps + 1 \<le> length ps + length rest'" "length ps + length rest' < 2 ^ 31" by (auto simp: add.commute)
    have "c_int (int (length ps) + 1) = Some (int (length ps) + 1)" using \<open>length ps + 1 \<le> 2 ^ 30\<close> by simp
    then show ?thesis using r mk True n by (intro that [of ps rest']) (auto simp: rp_make_room_def)
  next
    case False
    then show ?thesis using mk n assms by (intro that [of ps rest]) (auto simp: rp_make_room_def)
  qed
qed

text \<open>Taking up a fresh object at the end.\<close>

lemma rp_push_result:
  assumes inv: "rp_inv th h f" and f: "rp_ptrs f = ps" "rp_current_size f = int (length ps)"
    and al: "h_next h' = h_next h + 1" "h_read (h_next h) h' = Some v"
      "\<And>q. q < h_next h \<Longrightarrow> h_objects h' q = h_objects h q" "obj_ok (rp_arena f) h' (h_next h)" "heap_ok h'"
    and rest: "rest \<noteq> []" "length ps + length rest < 2 ^ 31"
  shows "rp_result th h f (Some (h', rp_mk (rp_arena f) (Suc (length ps)) (ps @ [h_next h]) (tl rest))) (rp_values h f @ [v])"
proof -
  have lt: "p < h_next h" if "p \<in> set ps" for p
    using that inv f obj_ok_bound unfolding rp_inv_def by metis
  then have same: "h_objects h' p = h_objects h p" if "p \<in> set ps" for p using that al(3) by blast
  have "obj_ok (rp_arena f) h' p" if "p \<in> set ps" for p
    using that inv f same obj_ok_other unfolding rp_inv_def by metis
  moreover have "distinct ps" using inv f unfolding rp_inv_def rp_shape_def by simp
  moreover have "h_next h \<notin> set ps" using lt by auto
  moreover have "length ps + 1 + length (tl rest) < 2 ^ 31" using rest by (cases rest) auto
  ultimately have "rp_inv th h' (rp_mk (rp_arena f) (Suc (length ps)) (ps @ [h_next h]) (tl rest))"
    using al(4,5) by (auto simp: rp_inv_mk)
  moreover have "map (\<lambda>p. the (h_read p h')) ps = map (\<lambda>p. the (h_read p h)) ps"
    using same by (simp add: h_read_def)
  moreover have "heap_frame h h' (set (rp_ptrs f))" using al by (auto simp: heap_frame_def)
  ultimately show ?thesis
    unfolding rp_result_def
    using f al(1,2) by (intro exI [of _ h'] exI [of _ "rp_mk (rp_arena f) (Suc (length ps)) (ps @ [h_next h]) (tl rest)"])
      (simp add: rp_values_mk rp_values_def)
qed

text \<open>Reusing the first cleared object with a new value.\<close>

lemma rp_reuse_result:
  assumes inv: "rp_inv th h (rp_mk a n ps rest)" and n: "n < length ps"
    and w: "h_write (ps ! n) v h = Some h'"
  shows "rp_result th h (rp_mk a n ps rest) (Some (h', rp_mk a (Suc n) ps rest)) (rp_values h (rp_mk a n ps rest) @ [v])"
proof -
  have ok: "obj_ok a h (ps ! n)" using inv n by (simp add: rp_inv_mk)
  obtain h'' where h'': "h_write (ps ! n) v h = Some h''" "h_next h'' = h_next h" "h_read (ps ! n) h'' = Some v"
    "\<And>q. q \<noteq> ps ! n \<Longrightarrow> h_objects h'' q = h_objects h q" "\<And>b q. obj_ok b h'' q = obj_ok b h q" "heap_ok h'' = heap_ok h"
    using h_write_ok [OF ok] by metis
  have e: "h'' = h'" using h''(1) w by simp
  have d: "distinct ps" using inv by (simp add: rp_inv_mk)
  have "p \<noteq> ps ! n" if "p \<in> set (drop (Suc n) ps)" for p
    using that d n by (metis Cons_nth_drop_Suc distinct.simps(2) distinct_drop)
  then have "cleared th h' p" if "p \<in> set (drop (Suc n) ps)" for p
    using that inv h''(4) e cleared_other by (metis rp_inv_mk set_drop_subset_set_drop Suc_n_not_le_n nat_le_linear subsetD)
  then have "rp_inv th h' (rp_mk a (Suc n) ps rest)"
    using inv n h'' e by (auto simp: rp_inv_mk)
  moreover have "p \<noteq> ps ! n" if "p \<in> set (take n ps)" for p
    using that d n by (metis id_take_nth_drop distinct_append distinct.simps(2) disjoint_iff list.set_intros(1))
  then have "map (\<lambda>p. the (h_read p h')) (take n ps) = map (\<lambda>p. the (h_read p h)) (take n ps)"
    using h''(4) e by (auto simp: h_read_def)
  moreover have "heap_frame h h' (set ps)"
    using h''(2,4) e n unfolding heap_frame_def by (metis nth_mem order_refl)
  ultimately show ?thesis
    unfolding rp_result_def
    using h''(2,3) e n by (intro exI [of _ h'] exI [of _ "rp_mk a (Suc n) ps rest"])
      (simp add: rp_values_mk take_Suc_conv_app_nth)
qed

lemma has_cleared_mk [simp]: "has_cleared (rp_mk a n ps rest) \<longleftrightarrow> n < length ps"
  by (simp add: has_cleared_def)

lemma rp_inv_shape: "rp_inv th h f \<Longrightarrow> rp_shape f"
  by (simp add: rp_inv_def)

lemma length_rp_values: "rp_inv th h f \<Longrightarrow> int (length (rp_values h f)) = rp_current_size f"
  by (frule rp_inv_shape, erule rp_cases) (auto simp: rp_inv_mk rp_values_mk)

lemma rp_Add_move_ok:
  assumes "rpf_cc_laws cc" "rp_inv th h f" "length (rp_values h f) < 2 ^ 30"
  shows "rp_result th h f (rp_Add_move cc v h f) (rp_values h f @ [v])"
proof (cases "has_cleared f")
  case True
  then obtain a n ps rest where f: "f = rp_mk a n ps rest" "n < length ps"
    using rp_cases [OF rp_inv_shape [OF assms(2)]] by (metis has_cleared_mk has_cleared_def option.simps(4) rp_new_fields(4))
  have "obj_ok a h (ps ! n)" using assms(2) f by (simp add: rp_inv_mk)
  then obtain h' where h': "h_write (ps ! n) v h = Some h'" using h_write_ok by metis
  have "int n + 1 < 2 ^ 31" using f assms(2) by (simp add: rp_inv_mk)
  then have "rp_Add_move cc v h f = Some (h', rp_mk a (Suc n) ps rest)"
    using f h' rp_mk_size [of "Suc n" a n ps rest] by (simp add: rp_Add_move_def add.commute)
  then show ?thesis using rp_reuse_result [OF assms(2) [unfolded f] f(2) h'] f by simp
next
  case False
  have "rp_current_size f < 2 ^ 30" using length_rp_values [OF assms(2), symmetric] assms(3) by simp
  then obtain ps rest where r: "rp_make_room cc f = Some (rp_mk (rp_arena f) (length ps) ps rest)" "rest \<noteq> []"
    "rp_ptrs f = ps" "length ps + length rest < 2 ^ 31" "rp_current_size f = int (length ps)"
    using rp_make_room_ok [OF assms(1) rp_inv_shape [OF assms(2)] False] by metis
  obtain h' where h': "h_alloc (rp_arena f) v h = (h_next h, h')" "h_next h' = h_next h + 1" "h_read (h_next h) h' = Some v"
    "\<And>q. q < h_next h \<Longrightarrow> h_objects h' q = h_objects h q" "obj_ok (rp_arena f) h' (h_next h)" "heap_ok h'"
    using h_alloc_ok assms(2) unfolding rp_inv_def by metis
  have l: "int (length ps) + 1 < 2 ^ 31" using r(2,4) by (cases rest) auto
  obtain g where g: "rp_set_allocated (int (length ps) + 1) (rp_mk (rp_arena f) (length ps) ps rest) = Some g"
    "rp_set_elem (int (length ps)) (h_next h) g = Some (rp_mk (rp_arena f) (length ps) (ps @ [h_next h]) (tl rest))"
    using rp_push_mk [OF r(2), of ps "rp_arena f" "length ps" "h_next h"] by (auto simp: bind_eq_Some_conv)
  have ga: "rp_arena g = rp_arena f" "rp_current_size g = int (length ps)"
    using g(1) by (auto simp: rp_set_allocated_def)
  have "rp_Add_move cc v h f = Some (h', rp_mk (rp_arena f) (Suc (length ps)) (ps @ [h_next h]) (tl rest))"
    using False r(1) g ga h'(1) l rp_mk_size [of "Suc (length ps)" "rp_arena f" "length ps" "ps @ [h_next h]" "tl rest"]
    by (simp add: rp_Add_move_def add.commute)
  then show ?thesis using rp_push_result [OF assms(2) r(3,5) h'(2-6) r(2,4)] by simp
qed

lemma rp_back_insert_ok:
  assumes "rpf_cc_laws cc" "rp_inv th h f" "length (rp_values h f) < 2 ^ 30"
  shows "rp_result th h f (rp_back_insert th cc v (h, f)) (rp_values h f @ [v])"
proof (cases "has_cleared f")
  case True
  then obtain a n ps rest where f: "f = rp_mk a n ps rest" "n < length ps"
    using rp_cases [OF rp_inv_shape [OF assms(2)]] by (metis has_cleared_mk has_cleared_def option.simps(4) rp_new_fields(4))
  have "obj_ok a h (ps ! n)" using assms(2) f by (simp add: rp_inv_mk)
  then obtain h' where h': "h_write (ps ! n) v h = Some h'" using h_write_ok by metis
  have "int n + 1 < 2 ^ 31" using f assms(2) by (simp add: rp_inv_mk)
  then have "rp_back_insert th cc v (h, f) = Some (h', rp_mk a (Suc n) ps rest)"
    using f h' rp_mk_size [of "Suc n" a n ps rest] by (simp add: rp_back_insert_def rp_Add_def add.commute)
  then show ?thesis using rp_reuse_result [OF assms(2) [unfolded f] f(2) h'] f by simp
next
  case False
  have "rp_current_size f < 2 ^ 30" using length_rp_values [OF assms(2), symmetric] assms(3) by simp
  then obtain ps rest where r: "rp_make_room cc f = Some (rp_mk (rp_arena f) (length ps) ps rest)" "rest \<noteq> []"
    "rp_ptrs f = ps" "length ps + length rest < 2 ^ 31" "rp_current_size f = int (length ps)"
    using rp_make_room_ok [OF assms(1) rp_inv_shape [OF assms(2)] False] by metis
  obtain h1 where h1: "h_alloc (rp_arena f) (th_init th) h = (h_next h, h1)" "h_next h1 = h_next h + 1"
    "\<And>q. q < h_next h \<Longrightarrow> h_objects h1 q = h_objects h q" "obj_ok (rp_arena f) h1 (h_next h)" "heap_ok h1"
    using h_alloc_ok assms(2) unfolding rp_inv_def by metis
  obtain h' where w: "h_write (h_next h) v h1 = Some h'" "h_next h' = h_next h1" "h_read (h_next h) h' = Some v"
    "\<And>q. q \<noteq> h_next h \<Longrightarrow> h_objects h' q = h_objects h1 q" "\<And>b q. obj_ok b h' q = obj_ok b h1 q" "heap_ok h' = heap_ok h1"
    using h_write_ok [OF h1(4)] by metis
  have h': "h_next h' = h_next h + 1" "h_read (h_next h) h' = Some v"
    "\<And>q. q < h_next h \<Longrightarrow> h_objects h' q = h_objects h q" "obj_ok (rp_arena f) h' (h_next h)" "heap_ok h'"
    using h1 w by simp_all
  have l: "int (length ps) + 1 < 2 ^ 31" using r(2,4) by (cases rest) auto
  obtain g where g: "rp_set_allocated (int (length ps) + 1) (rp_mk (rp_arena f) (length ps) ps rest) = Some g"
    "rp_set_elem (int (length ps)) (h_next h) g = Some (rp_mk (rp_arena f) (length ps) (ps @ [h_next h]) (tl rest))"
    using rp_push_mk [OF r(2), of ps "rp_arena f" "length ps" "h_next h"] by (auto simp: bind_eq_Some_conv)
  have ga: "rp_arena g = rp_arena f" "rp_current_size g = int (length ps)"
    using g(1) by (auto simp: rp_set_allocated_def)
  have "rp_back_insert th cc v (h, f) = Some (h', rp_mk (rp_arena f) (Suc (length ps)) (ps @ [h_next h]) (tl rest))"
    using False r(1) g ga h1(1) w(1) l rp_mk_size [of "Suc (length ps)" "rp_arena f" "length ps" "ps @ [h_next h]" "tl rest"]
    by (simp add: rp_back_insert_def rp_Add_def th_NewFromPrototype_def th_New_def add.commute)
  then show ?thesis using rp_push_result [OF assms(2) r(3,5) h' r(2,4)] by simp
qed

lemma th_clear_at_ok:
  assumes "obj_ok a h p"
  obtains h' where "th_clear_at th p h = Some h'" "h_next h' = h_next h" "cleared th h' p"
    "\<And>q. q \<noteq> p \<Longrightarrow> h_objects h' q = h_objects h q" "\<And>b q. obj_ok b h' q = obj_ok b h q" "heap_ok h' = heap_ok h"
proof -
  obtain v where v: "h_read p h = Some v" using obj_ok_read [OF assms] by blast
  obtain h' where "h_write p (th_Clear th v) h = Some h'" "h_next h' = h_next h" "h_read p h' = Some (th_Clear th v)"
    "\<And>q. q \<noteq> p \<Longrightarrow> h_objects h' q = h_objects h q" "\<And>b q. obj_ok b h' q = obj_ok b h q" "heap_ok h' = heap_ok h"
    using h_write_ok [OF assms] by metis
  then show ?thesis using v by (intro that [of h']) (auto simp: th_clear_at_def cleared_def)
qed

lemma rp_RemoveLast_ok:
  assumes inv: "rp_inv th h f" and ne: "rp_values h f \<noteq> []"
  shows "rp_result th h f (rp_RemoveLast th h f) (butlast (rp_values h f))"
proof -
  obtain a n ps rest where f: "f = rp_mk a n ps rest"
    using rp_cases [OF rp_inv_shape [OF inv]] ne by (metis rp_values_new)
  then obtain m where m: "n = Suc m" using ne by (cases n) (auto simp: rp_values_mk)
  have i: "heap_ok h" "distinct ps" "m < length ps" "length ps + length rest < 2 ^ 31"
    "\<forall>p \<in> set ps. obj_ok a h p" "\<forall>p \<in> set (drop (Suc m) ps). cleared th h p"
    using inv f m by (auto simp: rp_inv_mk)
  obtain h' where h': "th_clear_at th (ps ! m) h = Some h'" "h_next h' = h_next h" "cleared th h' (ps ! m)"
    "\<And>q. q \<noteq> ps ! m \<Longrightarrow> h_objects h' q = h_objects h q" "\<And>b q. obj_ok b h' q = obj_ok b h q" "heap_ok h' = heap_ok h"
    using th_clear_at_ok [of a h "ps ! m" th] i by (metis nth_mem)
  have e: "rp_RemoveLast th h f = Some (h', rp_mk a m ps rest)"
    using f m h' i(3) rp_mk_size [of m a n ps rest] by (simp add: rp_RemoveLast_def)
  have "cleared th h' p" if "p \<in> set (drop m ps)" for p
  proof (cases "p = ps ! m")
    case False
    then have "p \<in> set (drop (Suc m) ps)" using that i(3) by (metis Cons_nth_drop_Suc set_ConsD)
    then show ?thesis using i(6) h'(4) False cleared_other by metis
  qed (use h'(3) in simp)
  then have "rp_inv th h' (rp_mk a m ps rest)" using i h' by (simp add: rp_inv_mk)
  moreover have "h_objects h' p = h_objects h p" if "p \<in> set (take m ps)" for p
    using that i(2,3) h'(4) by (metis id_take_nth_drop distinct_append distinct.simps(2) disjoint_iff list.set_intros(1))
  then have "rp_values h' (rp_mk a m ps rest) = butlast (rp_values h f)"
    using f m i(3) by (simp add: rp_values_mk take_Suc_conv_app_nth butlast_append h_read_def)
  moreover have "heap_frame h h' (set ps)"
    using h'(2,4) i(3) unfolding heap_frame_def by (metis nth_mem order_refl)
  ultimately show ?thesis using e f h'(2) by (simp add: rp_result_def)
qed

lemma clear_loop_ok:
  assumes "heap_ok h" "distinct ps" "i + k \<le> length ps" "\<forall>p \<in> set ps. obj_ok a h p"
  shows "\<exists>h'. clear_loop th k (int i) (rp_mk a n ps rest) h = Some h' \<and> h_next h' = h_next h \<and> heap_ok h' \<and>
    (\<forall>b q. obj_ok b h' q = obj_ok b h q) \<and> (\<forall>p \<in> set (take k (drop i ps)). cleared th h' p) \<and>
    (\<forall>q. q \<notin> set (take k (drop i ps)) \<longrightarrow> h_objects h' q = h_objects h q)"
  using assms
proof (induction k arbitrary: i h)
  case (Suc k)
  have il: "i < length ps" using Suc.prems by simp
  obtain h1 where h1: "th_clear_at th (ps ! i) h = Some h1" "h_next h1 = h_next h" "cleared th h1 (ps ! i)"
    "\<And>q. q \<noteq> ps ! i \<Longrightarrow> h_objects h1 q = h_objects h q" "\<And>b q. obj_ok b h1 q = obj_ok b h q" "heap_ok h1 = heap_ok h"
    using th_clear_at_ok [of a h "ps ! i" th] Suc.prems(4) il by (metis nth_mem)
  have "\<exists>h'. clear_loop th k (int (Suc i)) (rp_mk a n ps rest) h1 = Some h' \<and> h_next h' = h_next h1 \<and> heap_ok h' \<and>
    (\<forall>b q. obj_ok b h' q = obj_ok b h1 q) \<and> (\<forall>p \<in> set (take k (drop (Suc i) ps)). cleared th h' p) \<and>
    (\<forall>q. q \<notin> set (take k (drop (Suc i) ps)) \<longrightarrow> h_objects h' q = h_objects h1 q)"
    using Suc.prems h1 by (intro Suc.IH) auto
  then obtain h' where h': "clear_loop th k (int i + 1) (rp_mk a n ps rest) h1 = Some h'" "h_next h' = h_next h1" "heap_ok h'"
    "\<And>b q. obj_ok b h' q = obj_ok b h1 q" "\<forall>p \<in> set (take k (drop (Suc i) ps)). cleared th h' p"
    "\<And>q. q \<notin> set (take k (drop (Suc i) ps)) \<Longrightarrow> h_objects h' q = h_objects h1 q"
    by (auto simp: add.commute)
  have d: "take (Suc k) (drop i ps) = ps ! i # take k (drop (Suc i) ps)"
    using il by (simp add: Cons_nth_drop_Suc [symmetric])
  have "ps ! i \<notin> set (take k (drop (Suc i) ps))"
    using Suc.prems(2) il by (metis Cons_nth_drop_Suc distinct.simps(2) distinct_drop in_set_takeD)
  then have "cleared th h' (ps ! i)" using h'(6) h1(3) cleared_other by metis
  then show ?case using h' h1 d il by (intro exI [of _ h']) auto
qed auto

lemma rp_Clear_ok:
  assumes "rp_inv th h f"
  shows "rp_result th h f (rp_Clear th h f) []"
    and "map_option (\<lambda>(h', f'). rp_ptrs f') (rp_Clear th h f) = Some (rp_ptrs f)"
proof -
  show "rp_result th h f (rp_Clear th h f) []" 
    using rp_inv_shape [OF assms]
  proof (cases rule: rp_cases)
    case (new a)
    then show ?thesis using assms by (simp add: rp_Clear_def rp_result_def)
  next
    case (mk a n ps rest)
    have i: "heap_ok h" "distinct ps" "n \<le> length ps" "length ps + length rest < 2 ^ 31"
      "\<forall>p \<in> set ps. obj_ok a h p" "\<forall>p \<in> set (drop n ps). cleared th h p"
      using assms mk by (auto simp: rp_inv_mk)
    obtain h' where h': "clear_loop th n 0 f h = Some h'" "h_next h' = h_next h" "heap_ok h'"
      "\<And>b q. obj_ok b h' q = obj_ok b h q" "\<forall>p \<in> set (take n ps). cleared th h' p"
      "\<And>q. q \<notin> set (take n ps) \<Longrightarrow> h_objects h' q = h_objects h q"
      using clear_loop_ok [of h ps 0 n a th n rest] i mk by auto
    have c: "cleared th h' p" if "p \<in> set ps" for p
    proof (cases "p \<in> set (take n ps)")
      case False
      then have "p \<in> set (drop n ps)" using that by (metis Un_iff append_take_drop_id set_append)
      then show ?thesis using i(6) h'(6) False cleared_other by metis
    qed (use h' in simp)
    have "rp_Clear th h f = Some (h', rp_mk a 0 ps rest)"
    proof (cases "n = 0")
      case True
      then have "h' = h" using h'(1) by simp
      then show ?thesis using mk True by (simp add: rp_Clear_def)
    next
      case False
      have "(rp_mk a n ps rest)\<lparr>rp_current_size := 0\<rparr> = rp_mk a 0 ps rest" by (simp add: rp_mk_def)
      then show ?thesis using mk h'(1) False by (simp add: rp_Clear_def)
    qed
    moreover have "rp_inv th h' (rp_mk a 0 ps rest)" using i h' c by (auto simp: rp_inv_mk)
    moreover have "heap_frame h h' (set ps)"
      using h'(2,6) unfolding heap_frame_def by (metis in_set_takeD order_refl)
    ultimately show ?thesis using mk h'(2) by (simp add: rp_result_def rp_values_mk)
  qed
  then show "map_option (\<lambda>(h', f'). rp_ptrs f') (rp_Clear th h f) = Some (rp_ptrs f)"
    by (auto simp: rp_result_def rp_Clear_def rp_ptrs_def Let_def GOOGLE_DCHECK_def bind_eq_Some_conv split: if_splits)
qed

section \<open>Merging\<close>

text \<open>
  The contract of a type handler: merging into a new or into a cleared object gives a copy.
\<close>

locale merging_handler =
  fixes th :: "'m type_handler"
  assumes merge_init: "th_Merge th v (th_init th) = v"
    and merge_clear: "th_Merge th v (th_Clear th w) = v"
begin

lemma merge_at_cleared:
  assumes "h_read q h = Some v" "obj_ok a h p" "cleared th h p"
  obtains h' where "th_merge_at th q p h = Some h'" "h_next h' = h_next h" "h_read p h' = Some v"
    "\<And>r. r \<noteq> p \<Longrightarrow> h_objects h' r = h_objects h r" "\<And>b r. obj_ok b h' r = obj_ok b h r" "heap_ok h' = heap_ok h"
proof -
  obtain w where w: "h_read p h = Some (th_Clear th w)" using assms(3) by (auto simp: cleared_def)
  obtain h' where "h_write p v h = Some h'" "h_next h' = h_next h" "h_read p h' = Some v"
    "\<And>r. r \<noteq> p \<Longrightarrow> h_objects h' r = h_objects h r" "\<And>b r. obj_ok b h' r = obj_ok b h r" "heap_ok h' = heap_ok h"
    using h_write_ok [OF assms(2)] by metis
  then show ?thesis using assms(1) w merge_clear by (intro that [of h']) (auto simp: th_merge_at_def)
qed

lemma new_and_merge:
  assumes "heap_ok h" "h_read q h = Some v"
  obtains h' where "do { let (p, h1) = th_NewFromPrototype th a h; h2 \<leftarrow> th_merge_at th q p h1; Some (p, h2) } = Some (h_next h, h')"
    "h_next h' = h_next h + 1" "h_read (h_next h) h' = Some v"
    "\<And>r. r < h_next h \<Longrightarrow> h_objects h' r = h_objects h r" "obj_ok a h' (h_next h)" "heap_ok h'"
proof -
  obtain h1 where h1: "h_alloc a (th_init th) h = (h_next h, h1)" "h_next h1 = h_next h + 1" "h_read (h_next h) h1 = Some (th_init th)"
    "\<And>r. r < h_next h \<Longrightarrow> h_objects h1 r = h_objects h r" "obj_ok a h1 (h_next h)" "heap_ok h1"
    using h_alloc_ok [OF assms(1)] by metis
  have "q < h_next h" using assms by (auto simp: h_read_def heap_ok_def)
  then have q: "h_read q h1 = Some v" using h1(4) assms(2) h_read_other by metis
  obtain h' where "h_write (h_next h) v h1 = Some h'" "h_next h' = h_next h1" "h_read (h_next h) h' = Some v"
    "\<And>r. r \<noteq> h_next h \<Longrightarrow> h_objects h' r = h_objects h1 r" "\<And>b r. obj_ok b h' r = obj_ok b h1 r" "heap_ok h' = heap_ok h1"
    using h_write_ok [OF h1(5)] by metis
  then show ?thesis using h1 q merge_init
    by (intro that [of h']) (auto simp: th_NewFromPrototype_def th_New_def th_merge_at_def)
qed

lemma merge_existing_loop_ok:
  assumes "heap_ok h" "distinct ps" "set ps \<inter> set qs = {}" "n + i + k \<le> length ps" "i + k \<le> length qs"
    "\<forall>p \<in> set ps. obj_ok a h p" "\<forall>q \<in> set qs. obj_ok b h q" "\<forall>p \<in> set (take k (drop (n + i) ps)). cleared th h p"
  shows "\<exists>h'. merge_existing_loop th k (int i) (int n) (rp_mk b m qs qrest) (rp_mk a n ps rest) h = Some h' \<and>
    h_next h' = h_next h \<and> heap_ok h' \<and> (\<forall>c q. obj_ok c h' q = obj_ok c h q) \<and>
    map (\<lambda>p. h_read p h') (take k (drop (n + i) ps)) = map (\<lambda>q. h_read q h) (take k (drop i qs)) \<and>
    (\<forall>r. r \<notin> set (take k (drop (n + i) ps)) \<longrightarrow> h_objects h' r = h_objects h r)"
  using assms
proof (induction k arbitrary: i h)
  case (Suc k)
  have il: "n + i < length ps" "i < length qs" using Suc.prems(4,5) by auto
  have dp: "take (Suc k) (drop (n + i) ps) = ps ! (n + i) # take k (drop (n + Suc i) ps)"
    and dq: "take (Suc k) (drop i qs) = qs ! i # take k (drop (Suc i) qs)"
    using il by (simp_all add: Cons_nth_drop_Suc [symmetric])
  have ne: "ps ! (n + i) \<notin> set (take k (drop (n + Suc i) ps))"
    using Suc.prems(2) il(1) by (metis Cons_nth_drop_Suc add_Suc_right distinct.simps(2) distinct_drop in_set_takeD)
  have sub: "set (take k (drop (n + Suc i) ps)) \<subseteq> set ps" "set (take k (drop (Suc i) qs)) \<subseteq> set qs"
    by (auto dest: in_set_takeD in_set_dropD)
  obtain v where v: "h_read (qs ! i) h = Some v" using Suc.prems(7) il(2) obj_ok_read by (metis nth_mem)
  have c: "obj_ok a h (ps ! (n + i))" "cleared th h (ps ! (n + i))" using Suc.prems(6,8) il dp by auto
  obtain h1 where h1: "th_merge_at th (qs ! i) (ps ! (n + i)) h = Some h1" "h_next h1 = h_next h" "h_read (ps ! (n + i)) h1 = Some v"
    "\<And>r. r \<noteq> ps ! (n + i) \<Longrightarrow> h_objects h1 r = h_objects h r" "\<And>b r. obj_ok b h1 r = obj_ok b h r" "heap_ok h1 = heap_ok h"
    using merge_at_cleared [OF v c] by metis
  have cl: "\<forall>p \<in> set (take k (drop (n + Suc i) ps)). cleared th h1 p"
    using Suc.prems(8) dp ne h1(4) cleared_other by (metis list.set_intros(2))
  have "\<exists>h'. merge_existing_loop th k (int (Suc i)) (int n) (rp_mk b m qs qrest) (rp_mk a n ps rest) h1 = Some h' \<and>
    h_next h' = h_next h1 \<and> heap_ok h' \<and> (\<forall>c q. obj_ok c h' q = obj_ok c h1 q) \<and>
    map (\<lambda>p. h_read p h') (take k (drop (n + Suc i) ps)) = map (\<lambda>q. h_read q h1) (take k (drop (Suc i) qs)) \<and>
    (\<forall>r. r \<notin> set (take k (drop (n + Suc i) ps)) \<longrightarrow> h_objects h' r = h_objects h1 r)"
    using Suc.prems h1(5,6) cl by (intro Suc.IH) auto
  then obtain h' where h': "merge_existing_loop th k (int i + 1) (int n) (rp_mk b m qs qrest) (rp_mk a n ps rest) h1 = Some h'"
    "h_next h' = h_next h1" "heap_ok h'" "\<And>c q. obj_ok c h' q = obj_ok c h1 q"
    "map (\<lambda>p. h_read p h') (take k (drop (n + Suc i) ps)) = map (\<lambda>q. h_read q h1) (take k (drop (Suc i) qs))"
    "\<And>r. r \<notin> set (take k (drop (n + Suc i) ps)) \<Longrightarrow> h_objects h' r = h_objects h1 r"
    by (auto simp: add.commute)
  have "h_read q h1 = h_read q h" if "q \<in> set (take k (drop (Suc i) qs))" for q
  proof -
    have "q \<noteq> ps ! (n + i)" using that sub(2) Suc.prems(3) il(1) by (metis disjoint_iff nth_mem subsetD)
    then show ?thesis using h1(4) h_read_other by metis
  qed
  then have "map (\<lambda>q. h_read q h1) (take k (drop (Suc i) qs)) = map (\<lambda>q. h_read q h) (take k (drop (Suc i) qs))" by simp
  moreover have "h_read (ps ! (n + i)) h' = Some v" using h'(6) ne h1(3) h_read_other by metis
  moreover have "rp_elem (int n + int i) (rp_mk a n ps rest) = Some (ps ! (n + i))"
    using il rp_elem_mk [of "n + i" ps] by simp
  ultimately show ?case
    unfolding dp dq using h' h1 v il by (intro exI [of _ h']) auto
qed simp

end

text \<open>While the second loop runs, the array is ahead of \<open>allocated_size\<close>.\<close>

definition rp_raw :: "nat option \<Rightarrow> nat \<Rightarrow> nat \<Rightarrow> nat list \<Rightarrow> nat option list \<Rightarrow> rp_field" where
  "rp_raw a n al ps rest = \<lparr>rp_arena = a, rp_current_size = int n, rp_total_size = int (length ps + length rest),
     rp_rep = Some \<lparr>allocated_size = int al, rep_elems = map Some ps @ rest\<rparr>\<rparr>"

lemma rp_raw_mk: "rp_raw a n (length ps) ps rest = rp_mk a n ps rest"
  by (simp add: rp_raw_def rp_mk_def)

lemma rp_raw_fields [simp]:
  "rp_arena (rp_raw a n al ps rest) = a" "rp_current_size (rp_raw a n al ps rest) = int n"
  "rp_allocated (rp_raw a n al ps rest) = Some (int al)" "rp_GetArenaNoVirtual (rp_raw a n al ps rest) = a"
  by (simp_all add: rp_raw_def rp_allocated_def rp_GetArenaNoVirtual_def)

lemma rp_raw_push:
  "rest \<noteq> [] \<Longrightarrow> rp_set_elem (int (length ps)) p (rp_raw a n al ps rest) = Some (rp_raw a n al (ps @ [p]) (tl rest))"
  by (cases rest) (simp_all add: rp_set_elem_def rp_raw_def list_update_append)

lemma rp_raw_settle:
  assumes "n \<le> al" "al \<le> length ps" "length ps = max al n'" "g = (rp_raw a n al ps rest)\<lparr>rp_current_size := int n'\<rparr>"
  shows "do { c \<leftarrow> rp_allocated g;
      f \<leftarrow> (if c < rp_current_size g then rp_set_allocated (rp_current_size g) g else Some g); Some (h, f) } =
    Some (h, rp_mk a n' ps rest)"
  using assms by (auto simp: rp_raw_def rp_mk_def rp_allocated_def rp_set_allocated_def max_def)

lemma internal_extend_ok:
  assumes "rpf_cc_laws cc" "rp_inv th h f" "0 < m" "rp_current_size f + int m \<le> 2 ^ 30"
  obtains n ps rest where "cc_InternalExtend cc (int m) f = rp_mk (rp_arena f) n ps rest" "rp_ptrs f = ps"
    "rp_current_size f = int n" "n + m \<le> length ps + length rest" "length ps + length rest < 2 ^ 31" "n \<le> length ps"
  using rp_inv_shape [OF assms(2)]
proof (cases rule: rp_cases)
  case (new c)
  then have "m \<le> 2 ^ 30" using assms(4) by simp
  then obtain rest where "cc_InternalExtend cc (int m) (rp_new c) = rp_mk c 0 [] rest" "m \<le> length rest" "length rest < 2 ^ 31"
    using assms(1,3) unfolding rpf_cc_laws_def by metis
  then show ?thesis using new by (intro that [of 0 "[]" rest]) auto
next
  case (mk c k rs rest)
  have k: "k \<le> length rs" "length rs + length rest < 2 ^ 31" using assms(2) mk by (auto simp: rp_inv_mk)
  have "k + m \<le> 2 ^ 30" using assms(4) mk by simp
  then obtain rest' where "cc_InternalExtend cc (int m) (rp_mk c k rs rest) = rp_mk c k rs rest'"
    "k + m \<le> length rs + length rest'" "length rs + length rest' < 2 ^ 31"
    using assms(1,3) k unfolding rpf_cc_laws_def by metis
  then show ?thesis using mk k by (intro that [of k rs rest']) auto
qed

context merging_handler
begin

lemma merge_new_loop_ok:
  assumes "heap_ok h" "length ps = base + i" "k \<le> length rest" "i + k \<le> length qs" "\<forall>q \<in> set qs. obj_ok b h q"
  shows "\<exists>h' news. merge_new_loop th k (int i) (int base) (rp_mk b m qs qrest) h (rp_raw a n al ps rest) =
      Some (h', rp_raw a n al (ps @ news) (drop k rest)) \<and> length news = k \<and> heap_ok h' \<and> h_next h \<le> h_next h' \<and>
    (\<forall>r < h_next h. h_objects h' r = h_objects h r) \<and> (\<forall>p \<in> set news. obj_ok a h' p) \<and> news = [h_next h ..< h_next h'] \<and>
    map (\<lambda>p. h_read p h') news = map (\<lambda>q. h_read q h) (take k (drop i qs))"
  using assms
proof (induction k arbitrary: i h ps rest)
  case (Suc k)
  have il: "i < length qs" and rest: "rest \<noteq> []" using Suc.prems(3,4) by auto
  have dq: "take (Suc k) (drop i qs) = qs ! i # take k (drop (Suc i) qs)"
    using il by (simp add: Cons_nth_drop_Suc [symmetric])
  obtain v where v: "h_read (qs ! i) h = Some v" using Suc.prems(5) il obj_ok_read by (metis nth_mem)
  obtain h1 where h1: "do { let (p, h1) = th_NewFromPrototype th a h; h2 \<leftarrow> th_merge_at th (qs ! i) p h1; Some (p, h2) } = Some (h_next h, h1)"
    "h_next h1 = h_next h + 1" "h_read (h_next h) h1 = Some v"
    "\<And>r. r < h_next h \<Longrightarrow> h_objects h1 r = h_objects h r" "obj_ok a h1 (h_next h)" "heap_ok h1"
    by (rule new_and_merge [OF Suc.prems(1) v, where a = a], rule that)
  have qlt: "q < h_next h" if "q \<in> set qs" for q using that Suc.prems(1,5) obj_ok_bound by metis
  have q1: "\<forall>q \<in> set qs. obj_ok b h1 q" using Suc.prems(5) qlt h1(4) obj_ok_other by metis
  have "\<exists>h' news. merge_new_loop th k (int (Suc i)) (int base) (rp_mk b m qs qrest) h1 (rp_raw a n al (ps @ [h_next h]) (tl rest)) =
      Some (h', rp_raw a n al ((ps @ [h_next h]) @ news) (drop k (tl rest))) \<and> length news = k \<and> heap_ok h' \<and> h_next h1 \<le> h_next h' \<and>
    (\<forall>r < h_next h1. h_objects h' r = h_objects h1 r) \<and> (\<forall>p \<in> set news. obj_ok a h' p) \<and> news = [h_next h1 ..< h_next h'] \<and>
    map (\<lambda>p. h_read p h') news = map (\<lambda>q. h_read q h1) (take k (drop (Suc i) qs))"
    using Suc.prems h1(6) q1 rest by (intro Suc.IH) auto
  then obtain h' news where h': "merge_new_loop th k (int i + 1) (int base) (rp_mk b m qs qrest) h1 (rp_raw a n al (ps @ [h_next h]) (tl rest)) =
      Some (h', rp_raw a n al (ps @ h_next h # news) (drop k (tl rest)))" "length news = k" "heap_ok h'" "h_next h1 \<le> h_next h'"
    "\<forall>r < h_next h1. h_objects h' r = h_objects h1 r" "\<forall>p \<in> set news. obj_ok a h' p" "news = [h_next h1 ..< h_next h']"
    "map (\<lambda>p. h_read p h') news = map (\<lambda>q. h_read q h1) (take k (drop (Suc i) qs))"
    by (auto simp: add.commute)
  have "h_read q h1 = h_read q h" if "q \<in> set (take k (drop (Suc i) qs))" for q
    using that qlt h1(4) h_read_other by (metis in_set_dropD in_set_takeD)
  then have e1: "map (\<lambda>q. h_read q h1) (take k (drop (Suc i) qs)) = map (\<lambda>q. h_read q h) (take k (drop (Suc i) qs))" by simp
  have "h_objects h' (h_next h) = h_objects h1 (h_next h)" using h'(5) h1(2) by simp
  then have e2: "h_read (h_next h) h' = Some v" "obj_ok a h' (h_next h)" using h1(3,5) h_read_other obj_ok_other by metis+
  have "rp_set_elem (int base + int i) (h_next h) (rp_raw a n al ps rest) = Some (rp_raw a n al (ps @ [h_next h]) (tl rest))"
    using rp_raw_push [OF rest] Suc.prems(2) by (metis of_nat_add)
  moreover have "drop (Suc k) rest = drop k (tl rest)" by (simp add: drop_Suc)
  ultimately have "merge_new_loop th (Suc k) (int i) (int base) (rp_mk b m qs qrest) h (rp_raw a n al ps rest) =
      Some (h', rp_raw a n al (ps @ h_next h # news) (drop (Suc k) rest))"
    using h1(1) h'(1) il by (auto simp: bind_eq_Some_conv split: prod.splits)
  moreover have "\<forall>r < h_next h. h_objects h' r = h_objects h r" using h'(5) h1(2,4) by simp
  moreover have nn: "h_next h # news = [h_next h ..< h_next h']" using h'(4,7) h1(2) by (simp add: upt_conv_Cons)
  moreover have "map (\<lambda>p. h_read p h') (h_next h # news) = map (\<lambda>q. h_read q h) (take (Suc k) (drop i qs))"
    unfolding dq using h'(8) e1 e2 v by simp
  moreover have "\<forall>p \<in> set (h_next h # news). obj_ok a h' p" using h'(6) e2 by simp
  moreover have "length (h_next h # news) = Suc k" "h_next h \<le> h_next h'" using h'(2,4) h1(2) by simp_all
  ultimately show ?case using h'(3) by blast
qed simp

text \<open>
  Both loops together: the cleared objects take up the first values, new objects the rest.
\<close>

lemma inner_loop_ok:
  assumes "heap_ok h" "distinct ps" "n \<le> length ps" "\<forall>p \<in> set ps. obj_ok a h p" "\<forall>p \<in> set (drop n ps). cleared th h p"
    and "m \<le> length qs" "\<forall>q \<in> set qs. obj_ok b h q" "set ps \<inter> set qs = {}" "n + m \<le> length ps + length rest"
  shows "\<exists>h' news. MergeFromInnerLoop th (int n) (rp_mk b m qs qrest) (int m) (int (length ps) - int n) h (rp_mk a n ps rest) =
      Some (h', rp_raw a n (length ps) (ps @ news) (drop (length news) rest)) \<and>
    length news = n + m - length ps \<and> heap_ok h' \<and> h_next h \<le> h_next h' \<and>
    (\<forall>p < h_next h. p \<notin> set (take m (drop n ps)) \<longrightarrow> h_objects h' p = h_objects h p) \<and>
    (\<forall>p \<in> set ps. obj_ok a h' p) \<and> (\<forall>p \<in> set news. obj_ok a h' p) \<and> news = [h_next h ..< h_next h'] \<and>
    map (\<lambda>p. h_read p h') (take m (drop n ps) @ news) = map (\<lambda>q. h_read q h) (take m qs)"
proof -
  define al where "al = length ps - n"
  define k where "k = min al m"
  have tk: "take m (drop n ps) = take k (drop n ps)" by (auto simp: k_def al_def min_def)
  have pre: "n + 0 + k \<le> length ps" "0 + k \<le> length qs" using assms(3,6) by (auto simp: k_def al_def)
  have clr: "\<forall>p \<in> set (take k (drop (n + 0) ps)). cleared th h p" using assms(5) by (auto dest: in_set_takeD)
  obtain h1 where h1: "merge_existing_loop th k 0 (int n) (rp_mk b m qs qrest) (rp_mk a n ps rest) h = Some h1"
    "h_next h1 = h_next h" "heap_ok h1" "\<And>c q. obj_ok c h1 q = obj_ok c h q"
    "map (\<lambda>p. h_read p h1) (take k (drop n ps)) = map (\<lambda>q. h_read q h) (take k qs)"
    "\<And>r. r \<notin> set (take k (drop n ps)) \<Longrightarrow> h_objects h1 r = h_objects h r"
    using merge_existing_loop_ok [OF assms(1,2,8) pre assms(4,7) clr, of m qrest rest] by auto
  have q1: "\<forall>q \<in> set qs. obj_ok b h1 q" using assms(7) h1(4) by simp
  obtain h2 news where h2: "merge_new_loop th (m - k) (int al) (int n) (rp_mk b m qs qrest) h1 (rp_raw a n (length ps) ps rest) =
      Some (h2, rp_raw a n (length ps) (ps @ news) (drop (m - k) rest))" "length news = m - k" "heap_ok h2" "h_next h1 \<le> h_next h2"
    "\<forall>r < h_next h1. h_objects h2 r = h_objects h1 r" "\<forall>p \<in> set news. obj_ok a h2 p" "news = [h_next h1 ..< h_next h2]"
    "map (\<lambda>p. h_read p h2) news = map (\<lambda>q. h_read q h1) (take (m - k) (drop k qs))"
  proof (cases "al < m")
    case True
    then have ka: "k = al" by (simp add: k_def)
    have "length ps = n + al" "m - k \<le> length rest" "al + (m - k) \<le> length qs"
      using assms(3,6,9) True ka by (auto simp: al_def)
    from merge_new_loop_ok [OF h1(3) this q1, of m qrest a n "length ps"] show ?thesis
      using that ka by auto
  next
    case False
    then have "m - k = 0" by (simp add: k_def)
    then show ?thesis using that [of h1 "[]"] h1(3) by simp
  qed
  have lt: "p < h_next h1" if "p \<in> set ps" for p using that assms(1,4) obj_ok_bound h1(2) by metis
  have ps2: "h_objects h2 p = h_objects h1 p" if "p \<in> set ps" for p using h2(5) lt that by blast
  have "int (length ps) - int n = int al" using assms(3) by (simp add: al_def of_nat_diff)
  moreover have "nat (min (int al) (int m)) = k" "nat (int m - int al) = m - k" by (auto simp: k_def min_def)
  ultimately have run: "MergeFromInnerLoop th (int n) (rp_mk b m qs qrest) (int m) (int (length ps) - int n) h (rp_mk a n ps rest) =
      Some (h2, rp_raw a n (length ps) (ps @ news) (drop (length news) rest))"
    using h1(1) h2(1,2) by (simp add: MergeFromInnerLoop_def rp_raw_mk)
  have "q \<notin> set (take k (drop n ps))" if "q \<in> set qs" for q
    using that assms(8) by (auto dest!: in_set_takeD in_set_dropD)
  then have "h_read q h1 = h_read q h" if "q \<in> set (take (m - k) (drop k qs))" for q
    using that h1(6) h_read_other in_set_takeD in_set_dropD by metis
  then have "map (\<lambda>p. h_read p h2) news = map (\<lambda>q. h_read q h) (take (m - k) (drop k qs))" using h2(8) by simp
  moreover have "map (\<lambda>p. h_read p h2) (take k (drop n ps)) = map (\<lambda>q. h_read q h) (take k qs)"
  proof -
    have "h_objects h2 p = h_objects h1 p" if "p \<in> set (take k (drop n ps))" for p
      using that ps2 by (meson in_set_dropD in_set_takeD)
    then have "map (\<lambda>p. h_read p h2) (take k (drop n ps)) = map (\<lambda>p. h_read p h1) (take k (drop n ps))" by (simp add: h_read_def)
    then show ?thesis using h1(5) by simp
  qed
  moreover have "take k qs @ take (m - k) (drop k qs) = take m qs"
    using take_add [of k "m - k" qs] by (simp add: k_def)
  ultimately have "map (\<lambda>p. h_read p h2) (take k (drop n ps) @ news) = map (\<lambda>q. h_read q h) (take m qs)" by (metis map_append)
  moreover have "length news = n + m - length ps" using h2(2) assms(3) by (auto simp: k_def al_def)
  moreover have "\<forall>p \<in> set ps. obj_ok a h2 p" using assms(4) h1(4) ps2 obj_ok_other by metis
  ultimately show ?thesis unfolding tk using run h1 h2 by (intro exI [of _ h2] exI [of _ news]) auto
qed

lemma merge_disjoint:
  assumes cc: "rpf_cc_laws cc" and fi: "rp_inv th h f" and gi: "rp_inv th h g"
    and dis: "set (rp_ptrs f) \<inter> set (rp_ptrs g) = {}"
    and sz: "length (rp_values h f) + length (rp_values h g) \<le> 2 ^ 30"
  shows "rp_result th h f (rp_merge_value th cc g h f) (rp_values h f @ rp_values h g)"
proof (cases "rp_current_size g = 0")
  case True
  then have "rp_values h g = []" by (simp add: rp_values_def)
  then show ?thesis using True fi by (auto simp: rp_merge_value_def rp_result_def)
next
  case False
  obtain b m qs qrest where g: "g = rp_mk b m qs qrest"
    using rp_cases [OF rp_inv_shape [OF gi]] False by (metis rp_new_fields(2))
  have m: "0 < m" "m \<le> length qs" "\<forall>q \<in> set qs. obj_ok b h q" using gi g False by (auto simp: rp_inv_mk)
  have sm: "rp_current_size f + int m \<le> 2 ^ 30"
    using sz g m length_rp_values [OF fi, symmetric] by (simp add: rp_values_mk)
  obtain n ps rest where x: "cc_InternalExtend cc (int m) f = rp_mk (rp_arena f) n ps rest" "rp_ptrs f = ps"
      "rp_current_size f = int n" "n + m \<le> length ps + length rest" "length ps + length rest < 2 ^ 31" "n \<le> length ps"
    by (rule internal_extend_ok [OF cc fi m(1) sm])
  have fo: "heap_ok h" "distinct ps" "\<forall>p \<in> set ps. obj_ok (rp_arena f) h p" "\<forall>p \<in> set (drop n ps). cleared th h p"
    using fi x by (auto simp: rp_inv_def rp_shape_def)
  obtain h' news where l: "MergeFromInnerLoop th (int n) g (int m) (int (length ps) - int n) h (rp_mk (rp_arena f) n ps rest) =
      Some (h', rp_raw (rp_arena f) n (length ps) (ps @ news) (drop (length news) rest))"
    "length news = n + m - length ps" "heap_ok h'" "h_next h \<le> h_next h'"
    "\<forall>p < h_next h. p \<notin> set (take m (drop n ps)) \<longrightarrow> h_objects h' p = h_objects h p"
    "\<forall>p \<in> set ps. obj_ok (rp_arena f) h' p" "\<forall>p \<in> set news. obj_ok (rp_arena f) h' p" "news = [h_next h ..< h_next h']"
    "map (\<lambda>p. h_read p h') (take m (drop n ps) @ news) = map (\<lambda>q. h_read q h) (take m qs)"
    using inner_loop_ok [OF fo(1,2) x(6) fo(3,4) m(2,3) _ x(4), of qrest] dis x(2) g by auto
  let ?f = "rp_mk (rp_arena f) (n + m) (ps @ news) (drop (length news) rest)"
  define F where "F = (rp_raw (rp_arena f) n (length ps) (ps @ news) (drop (length news) rest))\<lparr>rp_current_size := int (n + m)\<rparr>"
  have "length (ps @ news) = max (length ps) (n + m)" using x(6) l(2) by (auto simp: max_def)
  then have settle: "do { c \<leftarrow> rp_allocated F;
      f \<leftarrow> (if c < rp_current_size F then rp_set_allocated (rp_current_size F) F else Some F); Some (h', f) } = Some (h', ?f)"
    using x(6) by (intro rp_raw_settle) (auto simp: F_def)
  have "c_int (int n + int m) = Some (int (n + m))" using sm x(3) by simp
  then have run: "rp_merge_value th cc g h f = Some (h', ?f)"
    using False g x(1) l(1) settle
    by (simp add: rp_merge_value_def MergeFromInternal_def Let_def F_def cong: if_cong del: of_nat_add)
  have lt: "p < h_next h" if "p \<in> set ps" for p using that fo(1,3) obj_ok_bound by metis
  have keep: "h_objects h' p = h_objects h p" if "p \<in> set (take n ps) \<or> p \<in> set (drop (n + m) ps)" for p
  proof -
    have "distinct (take n ps @ take m (drop n ps) @ drop (n + m) ps)"
      using fo(2) by (metis append_take_drop_id drop_drop add.commute)
    then have "p \<notin> set (take m (drop n ps))" using that by auto
    then show ?thesis using l(5) lt that in_set_takeD in_set_dropD by metis
  qed
  have "set ps \<inter> set news = {}" using lt l(8) by fastforce
  moreover have "cleared th h' p" if "p \<in> set (drop (n + m) (ps @ news))" for p
  proof -
    have "p \<in> set (drop (n + m) ps)" using that l(2) x(6) by (auto split: if_splits)
    then show ?thesis using fo(4) keep cleared_other by (metis add.commute drop_drop in_set_dropD)
  qed
  moreover have "length (ps @ news) + length (drop (length news) rest) < 2 ^ 31" using x(4,5) l(2) by auto
  ultimately have inv: "rp_inv th h' ?f" using fo(2) l(2,3,6,7,8) by (auto simp: rp_inv_mk)
  have "take (n + m) (ps @ news) = take n ps @ take m (drop n ps) @ news"
    using x(6) l(2) by (simp add: take_add)
  moreover have "map (\<lambda>p. h_read p h') (take n ps) = map (\<lambda>p. h_read p h) (take n ps)" using keep by (simp add: h_read_def)
  ultimately have "map (\<lambda>p. h_read p h') (take (n + m) (ps @ news)) = map (\<lambda>p. h_read p h) (take n ps @ take m qs)"
    using l(9) by simp
  then have "map the (map (\<lambda>p. h_read p h') (take (n + m) (ps @ news))) = map the (map (\<lambda>p. h_read p h) (take n ps @ take m qs))"
    by simp
  then have vals: "rp_values h' ?f = rp_values h f @ rp_values h g"
    using g x by (simp add: rp_values_mk rp_values_def comp_def nat_add_distrib)
  have "heap_frame h h' (set (rp_ptrs f))"
    using l(4,5) x(2) unfolding heap_frame_def by (metis in_set_dropD in_set_takeD)
  moreover have "set (rp_ptrs ?f) = set (rp_ptrs f) \<union> {h_next h ..< h_next h'}" using x(2) l(8) by simp
  ultimately show ?thesis
    unfolding rp_result_def using run inv vals by (intro exI [of _ h'] exI [of _ ?f]) simp
qed

end

section \<open>Destruction\<close>

lemma h_delete_ok: "obj_ok None h p \<Longrightarrow> h_delete p h = Some (h\<lparr>h_objects := (h_objects h)(p := None)\<rparr>)"
  by (auto simp: obj_ok_def h_delete_def split: option.splits)

lemma delete_loop_ok:
  assumes "distinct ps" "i + k \<le> length ps" "\<forall>p \<in> set (take k (drop i ps)). obj_ok None h p"
  shows "delete_loop k (int i) None (rp_mk a n ps rest) h =
    Some (h\<lparr>h_objects := (\<lambda>q. if q \<in> set (take k (drop i ps)) then None else h_objects h q)\<rparr>)"
  using assms
proof (induction k arbitrary: i h)
  case (Suc k)
  have il: "i < length ps" using Suc.prems by simp
  have d: "take (Suc k) (drop i ps) = ps ! i # take k (drop (Suc i) ps)"
    using il by (simp add: Cons_nth_drop_Suc [symmetric])
  have ni: "ps ! i \<notin> set (take k (drop (Suc i) ps))"
    using Suc.prems(1) il by (metis Cons_nth_drop_Suc distinct.simps(2) distinct_drop in_set_takeD)
  let ?h = "h\<lparr>h_objects := (h_objects h)(ps ! i := None)\<rparr>"
  have "delete_loop k (int (Suc i)) None (rp_mk a n ps rest) ?h =
      Some (?h\<lparr>h_objects := (\<lambda>q. if q \<in> set (take k (drop (Suc i) ps)) then None else h_objects ?h q)\<rparr>)"
    using Suc.prems d ni by (intro Suc.IH) (auto simp: obj_ok_def split: if_splits)
  moreover have "obj_ok None h (ps ! i)" using Suc.prems(3) d by simp
  ultimately show ?case
    unfolding d using il by (simp add: th_Delete_def h_delete_ok add.commute fun_eq_iff)
qed simp

text \<open>The destructor of a field on the heap frees exactly the objects it owns.\<close>

lemma rp_Destroy_ok:
  assumes "rp_inv th h f" "rp_arena f = None"
  shows "rp_Destroy h f = Some (h\<lparr>h_objects := (\<lambda>q. if q \<in> set (rp_ptrs f) then None else h_objects h q)\<rparr>, f\<lparr>rp_rep := None\<rparr>)"
  using rp_inv_shape [OF assms(1)]
proof (cases rule: rp_cases)
  case (mk a n ps rest)
  then show ?thesis using assms delete_loop_ok [of ps 0 "length ps" h None n rest]
    by (simp add: rp_Destroy_def rp_inv_mk)
qed (simp add: rp_Destroy_def)

section \<open>Sequences of operations\<close>

datatype 'm rp_op = Put_back 'm | Put_move 'm | Pop_back | Clear_all

primrec rp_exec :: "'m type_handler \<Rightarrow> rpf_cc \<Rightarrow> 'm rp_op \<Rightarrow> 'm heap \<times> rp_field \<Rightarrow> ('m heap \<times> rp_field) option" where
  "rp_exec th cc (Put_back v) s = rp_back_insert th cc v s"
| "rp_exec th cc (Put_move v) s = rp_Add_move cc v (fst s) (snd s)"
| "rp_exec th cc Pop_back s = rp_RemoveLast th (fst s) (snd s)"
| "rp_exec th cc Clear_all s = rp_Clear th (fst s) (snd s)"

primrec vals_exec :: "'m rp_op \<Rightarrow> 'm list \<Rightarrow> 'm list option" where
  "vals_exec (Put_back v) vs = (if length vs < 2 ^ 30 then Some (vs @ [v]) else None)"
| "vals_exec (Put_move v) vs = (if length vs < 2 ^ 30 then Some (vs @ [v]) else None)"
| "vals_exec Pop_back vs = (if vs \<noteq> [] then Some (butlast vs) else None)"
| "vals_exec Clear_all vs = Some []"

lemma rp_exec_refines:
  assumes "rpf_cc_laws cc" "rp_inv th h f" "vals_exec op (rp_values h f) = Some vs"
  shows "rp_result th h f (rp_exec th cc op (h, f)) vs"
proof (cases op)
  case (Put_back v)
  then show ?thesis using assms rp_back_insert_ok [OF assms(1,2), of v] by (simp split: if_splits)
next
  case (Put_move v)
  then show ?thesis using assms rp_Add_move_ok [OF assms(1,2), of v] by (simp split: if_splits)
next
  case Pop_back
  then show ?thesis using assms rp_RemoveLast_ok [OF assms(2)] by (simp split: if_splits)
next
  case Clear_all
  then show ?thesis using assms rp_Clear_ok(1) [OF assms(2)] by simp
qed

lemma rp_result_trans:
  assumes "rp_result th h f r vs" "r = Some (h', f')" "rp_result th h' f' r' vs'"
  shows "rp_result th h f r' vs'"
proof -
  have 1: "heap_frame h h' (set (rp_ptrs f))" "set (rp_ptrs f') = set (rp_ptrs f) \<union> {h_next h ..< h_next h'}" "rp_arena f' = rp_arena f"
    using assms(1,2) by (auto simp: rp_result_def)
  obtain h2 f2 where 2: "r' = Some (h2, f2)" "rp_inv th h2 f2" "rp_values h2 f2 = vs'" "rp_arena f2 = rp_arena f'"
    "heap_frame h' h2 (set (rp_ptrs f'))" "set (rp_ptrs f2) = set (rp_ptrs f') \<union> {h_next h' ..< h_next h2}"
    using assms(3) by (auto simp: rp_result_def)
  have "heap_frame h h2 (set (rp_ptrs f))" by (rule heap_frame_trans [OF 1(1) 2(5)]) (use 1(2) in auto)
  moreover have "set (rp_ptrs f2) = set (rp_ptrs f) \<union> {h_next h ..< h_next h2}"
    using 1 2(5,6) unfolding heap_frame_def by auto
  ultimately show ?thesis using 1 2 by (auto simp: rp_result_def)
qed

lemma rp_run_refines:
  "rpf_cc_laws cc \<Longrightarrow> rp_inv th h f \<Longrightarrow> insert_all vals_exec ops (rp_values h f) = Some vs \<Longrightarrow>
     rp_result th h f (insert_all (rp_exec th cc) ops (h, f)) vs"
proof (induction ops arbitrary: h f)
  case (Cons op ops)
  obtain ws where ws: "vals_exec op (rp_values h f) = Some ws" "insert_all vals_exec ops ws = Some vs"
    using Cons.prems(3) by (auto simp: bind_eq_Some_conv)
  have r: "rp_result th h f (rp_exec th cc op (h, f)) ws" by (rule rp_exec_refines [OF Cons.prems(1,2) ws(1)])
  then obtain h' f' where h': "rp_exec th cc op (h, f) = Some (h', f')" "rp_inv th h' f'" "rp_values h' f' = ws"
    by (auto simp: rp_result_def)
  then have "rp_result th h' f' (insert_all (rp_exec th cc) ops (h', f')) vs"
    using Cons.IH [OF Cons.prems(1)] ws(2) by simp
  then show ?case using rp_result_trans [OF r h'(1)] h'(1) by simp
qed (auto simp: rp_result_def)

section \<open>Copying and swapping whole fields\<close>

interpretation strings: merging_handler "StringTypeHandler string_space sizeof_string" for string_space sizeof_string
  by unfold_locales (simp_all add: StringTypeHandler_def)

text \<open>A field whose objects are not touched keeps its invariant and its values.\<close>

lemma rp_frame:
  assumes "rp_inv th h g" "heap_frame h h' S" "S \<inter> set (rp_ptrs g) = {}" "heap_ok h'"
  shows "rp_inv th h' g" and "rp_values h' g = rp_values h g"
proof -
  have "p < h_next h" if "p \<in> set (rp_ptrs g)" for p using that assms(1) obj_ok_bound unfolding rp_inv_def by metis
  then have same: "h_objects h' p = h_objects h p" if "p \<in> set (rp_ptrs g)" for p
    using that assms(2,3) unfolding heap_frame_def by blast
  have "\<forall>p \<in> set (rp_ptrs g). obj_ok (rp_arena g) h' p"
    using assms(1) same obj_ok_other unfolding rp_inv_def by metis
  moreover have "\<forall>p \<in> set (drop (nat (rp_current_size g)) (rp_ptrs g)). cleared th h' p"
    using assms(1) same cleared_other in_set_dropD unfolding rp_inv_def by metis
  ultimately show "rp_inv th h' g" using assms(1,4) unfolding rp_inv_def by blast
  have "p \<in> set (rp_ptrs g)" if "p \<in> set (take (nat (rp_current_size g)) (rp_ptrs g))" for p
    using that by (rule in_set_takeD)
  then show "rp_values h' g = rp_values h g" unfolding rp_values_def using same by (auto simp: h_read_def)
qed

context merging_handler
begin

lemma copy_value:
  assumes cc: "rpf_cc_laws cc" and fi: "rp_inv th h f" and gi: "rp_inv th h g"
    and dis: "set (rp_ptrs f) \<inter> set (rp_ptrs g) = {}" and sz: "length (rp_values h g) \<le> 2 ^ 30"
  shows "\<exists>h1 f1. rp_Clear th h f = Some (h1, f1) \<and> rp_result th h f (rp_merge_value th cc g h1 f1) (rp_values h g)"
proof -
  obtain h1 f1 where c: "rp_Clear th h f = Some (h1, f1)" "rp_inv th h1 f1" "rp_values h1 f1 = []"
    "heap_frame h h1 (set (rp_ptrs f))" "rp_ptrs f1 = rp_ptrs f"
    using rp_Clear_ok [OF fi] by (auto simp: rp_result_def)
  have g1: "rp_inv th h1 g" "rp_values h1 g = rp_values h g"
    using rp_frame [OF gi c(4) dis] c(2) by (auto simp: rp_inv_def)
  have "length (rp_values h1 f1) + length (rp_values h1 g) \<le> 2 ^ 30" using c(3) g1(2) sz by simp
  then have "rp_result th h1 f1 (rp_merge_value th cc g h1 f1) (rp_values h g)"
    using merge_disjoint [OF cc c(2) g1(1)] dis c(3,5) g1(2) by simp
  then show ?thesis using rp_result_trans [OF rp_Clear_ok(1) [OF fi] c(1)] c(1) by blast
qed

end

lemma rp_field_swapped:
  "rp_arena g = rp_arena t \<Longrightarrow>
     g\<lparr>rp_rep := rp_rep t, rp_current_size := rp_current_size t, rp_total_size := rp_total_size t\<rparr> = (t :: rp_field)"
  by (cases g, cases t) simp

lemma rp_InternalSwap_ok:
  assumes "this \<noteq> other" "w_fields w this = Some f" "w_fields w other = Some g" "rp_arena f = rp_arena g"
  shows "rp_InternalSwap this other w = Some (w\<lparr>w_fields := (w_fields w)(this \<mapsto> g, other \<mapsto> f)\<rparr>)"
  using assms by (simp add: rp_InternalSwap_def rp_GetArenaNoVirtual_def rp_field_swapped)

lemma rp_Destroy_frame:
  assumes "rp_inv th h f"
  obtains h' f' where "rp_Destroy h f = Some (h', f')" "heap_frame h h' (set (rp_ptrs f))" "heap_ok h'"
    "h_next h' = h_next h"
proof (cases "rp_arena f = None")
  case True
  show ?thesis
    using assms
    by (intro that [OF rp_Destroy_ok [OF assms True]]) (auto simp: heap_frame_def heap_ok_def rp_inv_def)
next
  case False
  then have "rp_Destroy h f = Some (h, f\<lparr>rp_rep := None\<rparr>)" by (auto simp: rp_Destroy_def split: option.splits)
  then show ?thesis using assms by (intro that) (auto simp: rp_inv_def)
qed

lemma rp_ptrs_bound: "rp_inv th h f \<Longrightarrow> p \<in> set (rp_ptrs f) \<Longrightarrow> p < h_next h"
  unfolding rp_inv_def using obj_ok_bound by metis

context merging_handler
begin

lemma swap_fallback:
  assumes cc: "rpf_cc_laws cc" and w: "w_fields w this = Some f" "w_fields w other = Some g" "w_fields w temp = None"
    and inv: "rp_inv th (w_heap w) f" "rp_inv th (w_heap w) g" and ne: "this \<noteq> other" "rp_arena f \<noteq> rp_arena g"
    and dis: "set (rp_ptrs f) \<inter> set (rp_ptrs g) = {}"
    and sz: "length (rp_values (w_heap w) f) \<le> 2 ^ 30" "length (rp_values (w_heap w) g) \<le> 2 ^ 30"
  shows "\<exists>h' f' g'. rp_SwapFallback th cc temp this other w = Some \<lparr>w_heap = h', w_fields = (w_fields w)(this \<mapsto> f', other \<mapsto> g')\<rparr> \<and>
    rp_inv th h' f' \<and> rp_inv th h' g' \<and> set (rp_ptrs f') \<inter> set (rp_ptrs g') = {} \<and>
    rp_values h' f' = rp_values (w_heap w) g \<and> rp_values h' g' = rp_values (w_heap w) f \<and>
    rp_arena f' = rp_arena f \<and> rp_arena g' = rp_arena g"
proof -
  define h where "h = w_heap w"
  note i = inv [folded h_def] and sz = sz [folded h_def]
  have tn: "temp \<noteq> this" "temp \<noteq> other" using w by auto
  have t0: "rp_inv th h (rp_new (rp_arena g))" using i(1) by (simp add: rp_inv_new rp_inv_def)
  obtain h1 t where t: "rp_merge_value th cc f h (rp_new (rp_arena g)) = Some (h1, t)" "rp_inv th h1 t"
    "rp_values h1 t = rp_values h f" "rp_arena t = rp_arena g" "heap_frame h h1 {}" "set (rp_ptrs t) = {h_next h ..< h_next h1}"
    using merge_disjoint [OF cc t0 i(1)] sz(1) by (auto simp: rp_result_def)
  have ok1: "heap_ok h1" using t(2) by (simp add: rp_inv_def)
  have f1: "rp_inv th h1 f" "rp_values h1 f = rp_values h f" and g1: "rp_inv th h1 g" "rp_values h1 g = rp_values h g"
    using rp_frame [OF i(1) t(5) _ ok1] rp_frame [OF i(2) t(5) _ ok1] by simp_all
  obtain h2 f2 h3 f3 where c: "rp_Clear th h1 f = Some (h2, f2)" "rp_merge_value th cc g h2 f2 = Some (h3, f3)" "rp_inv th h3 f3"
    "rp_values h3 f3 = rp_values h g" "rp_arena f3 = rp_arena f" "heap_frame h1 h3 (set (rp_ptrs f))"
    "set (rp_ptrs f3) = set (rp_ptrs f) \<union> {h_next h1 ..< h_next h3}"
    using copy_value [OF cc f1(1) g1(1) dis] sz(2) g1(2) by (auto simp: rp_result_def)
  have ok3: "heap_ok h3" using c(3) by (simp add: rp_inv_def)
  have lt: "p < h_next h" if "p \<in> set (rp_ptrs f) \<or> p \<in> set (rp_ptrs g)" for p using that rp_ptrs_bound i by metis
  have h01: "h_next h \<le> h_next h1" using t(5) by (simp add: heap_frame_def)
  have d: "set (rp_ptrs f) \<inter> set (rp_ptrs t) = {}" "set (rp_ptrs g) \<inter> set (rp_ptrs t) = {}"
    "set (rp_ptrs g) \<inter> set (rp_ptrs f3) = {}" "set (rp_ptrs f3) \<inter> set (rp_ptrs t) = {}"
    using lt t(6) c(7) dis h01 by (fastforce simp: disjoint_iff)+
  have t3: "rp_inv th h3 t" "rp_values h3 t = rp_values h f"
    using rp_frame [OF t(2) c(6) d(1) ok3] t(3) by simp_all
  have g3: "rp_inv th h3 g" using rp_frame [OF g1(1) c(6) dis ok3] by simp
  obtain h4 g4 where e: "rp_Clear th h3 g = Some (h4, g4)" "rp_inv th h4 g4" "rp_arena g4 = rp_arena g"
    "heap_frame h3 h4 (set (rp_ptrs g))" "rp_ptrs g4 = rp_ptrs g"
    using rp_Clear_ok [OF g3] by (auto simp: rp_result_def)
  have ok4: "heap_ok h4" using e(2) by (simp add: rp_inv_def)
  have t4: "rp_inv th h4 t" "rp_values h4 t = rp_values h f" "rp_inv th h4 f3" "rp_values h4 f3 = rp_values h g"
    using rp_frame [OF t3(1) e(4) d(2) ok4] rp_frame [OF c(3) e(4) d(3) ok4] t3(2) c(4) by simp_all
  obtain h5 g5 where k: "rp_Destroy h4 g4 = Some (h5, g5)" "heap_frame h4 h5 (set (rp_ptrs g))" "heap_ok h5"
    using rp_Destroy_frame [OF e(2)] e(5) by metis
  have t5: "rp_inv th h5 t" "rp_values h5 t = rp_values h f" "rp_inv th h5 f3" "rp_values h5 f3 = rp_values h g"
    using rp_frame [OF t4(1) k(2) d(2) k(3)] rp_frame [OF t4(3) k(2) d(3) k(3)] t4(2,4) by simp_all
  define w4 :: "'m rp_world" where "w4 = \<lparr>w_heap = h4, w_fields = (w_fields w)(temp \<mapsto> t, this \<mapsto> f3, other \<mapsto> g4)\<rparr>"
  have s: "rp_InternalSwap other temp w4 = Some (w4\<lparr>w_fields := (w_fields w4)(other \<mapsto> t, temp \<mapsto> g4)\<rparr>)"
    using tn ne(1) e(3) t(4) by (intro rp_InternalSwap_ok) (auto simp: w4_def)
  have "((w_fields w)(temp \<mapsto> t, this \<mapsto> f3, other \<mapsto> g4, other \<mapsto> t, temp \<mapsto> g4, temp \<mapsto> g5))(temp := None) =
      (w_fields w)(this \<mapsto> f3, other \<mapsto> t)"
    using tn w(3) ne(1) by (auto simp: fun_eq_iff)
  then have "rp_SwapFallback th cc temp this other w = Some \<lparr>w_heap = h5, w_fields = (w_fields w)(this \<mapsto> f3, other \<mapsto> t)\<rparr>"
    using w tn ne t(1) c(1,2) e(1) k(1) s
    by (simp add: rp_SwapFallback_def rp_MergeFrom_def w_on_def rp_GetArenaNoVirtual_def w4_def h_def [symmetric] fun_upd_twist)
  then show ?thesis using t5 d(4) c(5) t(4) h_def by blast
qed

end

section \<open>Handing objects over\<close>

text \<open>
  Adding an object by pointer: after the current elements, with the first cleared object
  moved to the end of the allocated part when there is one.
\<close>

definition rp_spliced :: "nat \<Rightarrow> nat \<Rightarrow> nat list \<Rightarrow> nat list" where
  "rp_spliced p n ps = take n ps @ p # drop (Suc n) ps @ (if n < length ps then [ps ! n] else [])"

lemma rp_spliced_eq: "n \<le> length ps \<Longrightarrow> rp_spliced p n ps = (ps @ [if n < length ps then ps ! n else p])[n := p]"
  by (auto simp: rp_spliced_def list_update_append upd_conv_take_nth_drop)

lemma length_rp_spliced: "n \<le> length ps \<Longrightarrow> length (rp_spliced p n ps) = Suc (length ps)"
  by (simp add: rp_spliced_eq)

text \<open>The slot after the allocated objects is written before or after it is counted.\<close>

lemma rp_write_slot:
  assumes "rest \<noteq> []"
  shows "rp_set_elem (int (length ps)) q (rp_mk a n ps rest) = Some (rp_raw a n (length ps) (ps @ [q]) (tl rest))"
  unfolding rp_raw_mk [symmetric] using rp_raw_push [OF assms] by simp

lemma rp_raw_set:
  "i < length ps \<Longrightarrow> rp_set_elem (int i) p (rp_raw a n al ps rest) = Some (rp_raw a n al (ps[i := p]) rest)"
  by (simp add: rp_set_elem_def rp_raw_def list_update_append map_update)

lemma rp_raw_elem: "i < length ps \<Longrightarrow> rp_elem (int i) (rp_raw a n al ps rest) = Some (ps ! i)"
  by (simp add: rp_elem_def rp_raw_def nth_append)

lemma rp_raw_allocated:
  "rp_set_allocated (int al') (rp_raw a n al ps rest) = Some (rp_raw a n al' ps rest)"
  "(rp_raw a n al ps rest)\<lparr>rp_current_size := int n'\<rparr> = rp_raw a n' al ps rest"
  by (simp_all add: rp_set_allocated_def rp_raw_def)

lemma rp_add_fast_mk:
  assumes "n \<le> length ps" "rest \<noteq> []" "length ps + length rest < 2 ^ 31"
  shows "rp_add_fast p (rp_mk a n ps rest) = Some (rp_mk a (Suc n) (rp_spliced p n ps) (tl rest))"
proof -
  have l: "int (length ps) + 1 < 2 ^ 31" "int n + 1 < 2 ^ 31" using assms by (cases rest; simp)+
  have fin: "rp_raw a (Suc n) (Suc (length ps)) (rp_spliced p n ps) (tl rest) = rp_mk a (Suc n) (rp_spliced p n ps) (tl rest)"
    using assms(1) length_rp_spliced [of n ps p] by (metis rp_raw_mk)
  have al: "rp_set_allocated (int (length ps) + 1) (rp_raw a (Suc n) (length ps) qs r) = Some (rp_raw a (Suc n) (Suc (length ps)) qs r)" for qs r
    using rp_raw_allocated(1) [of "Suc (length ps)"] by (simp add: add.commute)
  have cs: "(rp_raw a n al qs r)\<lparr>rp_current_size := int n + 1\<rparr> = rp_raw a (Suc n) al qs r" for al qs r
    using rp_raw_allocated(2) [of "Suc n"] by (simp add: add.commute)
  show ?thesis
  proof (cases "n < length ps")
    case True
    have "rp_set_elem (int n) p (rp_raw a n (length ps) (ps @ [ps ! n]) (tl rest)) =
        Some (rp_raw a n (length ps) (rp_spliced p n ps) (tl rest))"
      using True by (simp add: rp_raw_set rp_spliced_eq)
    then show ?thesis using True l assms(2) fin al cs by (simp add: rp_add_fast_def rp_write_slot)
  next
    case False
    then have n: "n = length ps" using assms(1) by simp
    have "rp_spliced p n ps = ps @ [p]" using n by (simp add: rp_spliced_def)
    then show ?thesis using n l assms(2) fin al cs by (simp add: rp_add_fast_def rp_write_slot)
  qed
qed

text \<open>
  The fast path of \<open>AddAllocated\<close> does what the general routine does, whenever a slot is free.
\<close>

lemma rp_UnsafeArenaAddAllocated_mk:
  assumes "n \<le> length ps" "rest \<noteq> []" "length ps + length rest < 2 ^ 31"
  shows "rp_UnsafeArenaAddAllocated cc p h (rp_mk a n ps rest) = Some (h, rp_mk a (Suc n) (rp_spliced p n ps) (tl rest))"
proof -
  have c: "int (length ps) \<noteq> int (length ps) + int (length rest)" "int n \<noteq> int (length ps) + int (length rest)"
    using assms by (cases rest; simp)+
  have cs: "(rp_mk a n qs r)\<lparr>rp_current_size := int n + 1\<rparr> = rp_mk a (Suc n) qs r" for qs r
    using rp_mk_size [of "Suc n" a n qs r] by (simp add: add.commute)
  have "int n + 1 < 2 ^ 31" using assms by (cases rest) simp_all
  have al: "rp_set_allocated (int (length ps) + 1) (rp_raw a n (length ps) qs r) = Some (rp_raw a n (Suc (length ps)) qs r)" for qs r
    using rp_raw_allocated(1) [of "Suc (length ps)"] by (simp add: add.commute)
  show ?thesis
  proof (cases "n < length ps")
    case True
    have "rp_raw a n (Suc (length ps)) (ps @ [ps ! n]) (tl rest) = rp_mk a n (ps @ [ps ! n]) (tl rest)"
      by (metis length_append_singleton rp_raw_mk)
    then show ?thesis
      using True assms c cs al \<open>int n + 1 < 2 ^ 31\<close>
      by (simp add: rp_UnsafeArenaAddAllocated_def rp_write_slot rp_set_elem_mk rp_spliced_eq)
  next
    case False
    then have n: "n = length ps" using assms(1) by simp
    obtain g where g: "rp_set_allocated (int (length ps) + 1) (rp_mk a n ps rest) = Some g"
      "rp_set_elem (int (length ps)) p g = Some (rp_mk a n (ps @ [p]) (tl rest))"
      using rp_push_mk [OF assms(2), of ps a n p] by (auto simp: bind_eq_Some_conv)
    have "rp_current_size g = int (length ps)" using g(1) n by (auto simp: rp_set_allocated_def)
    moreover have "rp_spliced p n ps = ps @ [p]" using n by (simp add: rp_spliced_def)
    ultimately show ?thesis
      using n g c cs \<open>int n + 1 < 2 ^ 31\<close> by (simp add: rp_UnsafeArenaAddAllocated_def)
  qed
qed

lemma rp_release_mk:
  assumes "n < length ps"
  shows "rp_UnsafeArenaReleaseLast (rp_mk a (Suc n) ps rest) =
    Some (ps ! n, rp_mk a n (if Suc n < length ps then (butlast ps)[n := last ps] else butlast ps)
      (Some (if Suc n < length ps then last ps else ps ! n) # rest))"
proof -
  obtain qs q where ps: "ps = qs @ [q]" using assms by (cases ps rule: rev_cases) auto
  have e: "rp_mk a n ps rest\<lparr>rp_rep := Some \<lparr>allocated_size = int (length qs), rep_elems = map Some ps @ rest\<rparr>\<rparr> = rp_mk a n qs (Some q # rest)"
    using ps by (simp add: rp_mk_def)
  have al: "rp_set_allocated (int (length qs)) (rp_mk a n ps rest) = Some (rp_mk a n qs (Some q # rest))"
    using ps by (simp add: rp_set_allocated_def rp_mk_def)
  have sz: "(rp_mk a (Suc n) ps rest)\<lparr>rp_current_size := int n\<rparr> = rp_mk a n ps rest" by (rule rp_mk_size)
  have last: "rp_elem (int (length qs)) (rp_mk a n qs (Some q # rest)) = Some q"
    by (simp add: rp_elem_def nth_append)
  show ?thesis
  proof (cases "n < length qs")
    case True
    then show ?thesis using ps al sz last
      by (simp add: rp_UnsafeArenaReleaseLast_def rp_set_elem_mk rp_mk_size)
  next
    case False
    then have "n = length qs" using assms ps by simp
    then show ?thesis using ps al sz by (simp add: rp_UnsafeArenaReleaseLast_def rp_mk_size)
  qed
qed

section \<open>Properties\<close>

text \<open>
  C12: A repeated string or message field is a list that owns its objects. From an empty
  field on the heap, any sequence of appending (by assignment through \<open>Add\<close> or by move),
  \<open>RemoveLast\<close> and \<open>Clear\<close> runs without touching a slot or object that is not its own and
  leaves the values of the list operations, although removed objects stay allocated for
  reuse; the destructor then frees every object the field created, exactly once, and no other.
\<close>

theorem repeated_ptr_field_no_leak:
  assumes "rpf_cc_laws cc" and "heap_ok h" and "insert_all vals_exec ops [] = Some vs"
  shows "\<exists>h1 f h2 g. insert_all (rp_exec th cc) ops (h, rp_new None) = Some (h1, f) \<and> rp_inv th h1 f \<and>
    rp_values h1 f = vs \<and> rp_size f = int (length vs) \<and> rp_Destroy h1 f = Some (h2, g) \<and> h_objects h2 = h_objects h"
proof -
  have i: "rp_inv th h (rp_new None)" using assms(2) by (simp add: rp_inv_new)
  obtain h1 f where r: "insert_all (rp_exec th cc) ops (h, rp_new None) = Some (h1, f)" "rp_inv th h1 f" "rp_values h1 f = vs"
    "rp_arena f = None" "heap_frame h h1 {}" "set (rp_ptrs f) = {h_next h ..< h_next h1}"
    using rp_run_refines [OF assms(1) i, of ops vs] assms(3) by (auto simp: rp_result_def)
  have none: "h_objects h q = None" if "h_next h \<le> q" for q using that assms(2) by (auto simp: heap_ok_def dest: leD)
  have none1: "h_objects h1 q = None" if "h_next h1 \<le> q" for q
    using that r(2) by (auto simp: rp_inv_def heap_ok_def dest: leD)
  have "(\<lambda>q. if q \<in> set (rp_ptrs f) then None else h_objects h1 q) = h_objects h"
  proof
    fix q
    show "(if q \<in> set (rp_ptrs f) then None else h_objects h1 q) = h_objects h q"
      using r(5,6) none [of q] none1 [of q] by (cases "q < h_next h") (auto simp: heap_frame_def)
  qed
  then have "h_objects (h1\<lparr>h_objects := (\<lambda>q. if q \<in> set (rp_ptrs f) then None else h_objects h1 q)\<rparr>) = h_objects h" by simp
  moreover have "rp_size f = int (length vs)" using length_rp_values [OF r(2)] r(3) by (simp add: rp_size_def)
  ultimately show ?thesis
    using r(1-3) rp_Destroy_ok [OF r(2,4)] by blast
qed

definition demo_heap :: "string heap" where
  "demo_heap = \<lparr>h_objects = [0 \<mapsto> \<lparr>ob_value = ''x'', ob_arena = None, ob_owned = False\<rparr>], h_next = 1\<rparr>"

lemma demo_heap_ok: "heap_ok demo_heap"
  by (simp add: heap_ok_def demo_heap_def)

theorem repeated_ptr_field_no_leak_witness:
  "\<exists>h1 f h2 g. insert_all (rp_exec (StringTypeHandler length 32) ref_cc)
      [Put_back ''a'', Put_move ''b'', Clear_all, Put_back ''c'', Put_back ''d'', Pop_back] (demo_heap, rp_new None) = Some (h1, f) \<and>
    rp_inv (StringTypeHandler length 32) h1 f \<and> rp_values h1 f = [''c''] \<and> rp_size f = int (length [''c'']) \<and>
    rp_Destroy h1 f = Some (h2, g) \<and> h_objects h2 = h_objects demo_heap"
  by (rule repeated_ptr_field_no_leak [OF ref_cc_laws demo_heap_ok]) simp

text \<open>
  \<open>Swap\<close> of two repeated string fields exchanges their values, whatever arenas they are on,
  with each field staying on its arena and no object shared afterwards; when the arenas
  agree only the representations change hands and no object is touched. Swapping a field
  with itself does nothing.
\<close>

theorem repeated_strings_swap_exchanges:
  fixes string_space :: "string \<Rightarrow> nat" and sizeof_string :: nat
  defines "th \<equiv> StringTypeHandler string_space sizeof_string"
  assumes "rpf_cc_laws cc" and "w_fields w this = Some f" "w_fields w other = Some g" "w_fields w temp = None"
    and "rp_inv th (w_heap w) f" "rp_inv th (w_heap w) g" and "this \<noteq> other"
    and "set (rp_ptrs f) \<inter> set (rp_ptrs g) = {}"
    and "length (rp_values (w_heap w) f) \<le> 2 ^ 30" "length (rp_values (w_heap w) g) \<le> 2 ^ 30"
  shows "\<exists>h' f' g'. rp_Swap th cc temp this other w = Some \<lparr>w_heap = h', w_fields = (w_fields w)(this \<mapsto> f', other \<mapsto> g')\<rparr> \<and>
    rp_inv th h' f' \<and> rp_inv th h' g' \<and> set (rp_ptrs f') \<inter> set (rp_ptrs g') = {} \<and>
    rp_values h' f' = rp_values (w_heap w) g \<and> rp_values h' g' = rp_values (w_heap w) f \<and>
    rp_arena f' = rp_arena f \<and> rp_arena g' = rp_arena g \<and>
    (rp_arena f = rp_arena g \<longrightarrow> h' = w_heap w \<and> f' = g \<and> g' = f) \<and> rp_Swap th cc temp this this w = Some w"
proof (cases "rp_arena f = rp_arena g")
  case True
  then have "rp_Swap th cc temp this other w = Some (w\<lparr>w_fields := (w_fields w)(this \<mapsto> g, other \<mapsto> f)\<rparr>)"
    using assms rp_InternalSwap_ok [of this other w f g] by (simp add: rp_Swap_def rp_base_Swap_def rp_GetArenaNoVirtual_def)
  then show ?thesis
    using assms True by (intro exI [of _ "w_heap w"] exI [of _ g] exI [of _ f]) (auto simp: rp_Swap_def)
next
  case False
  have "rp_Swap th cc temp this other w = rp_SwapFallback th cc temp this other w"
    using assms False by (simp add: rp_Swap_def rp_base_Swap_def rp_GetArenaNoVirtual_def)
  moreover have "rp_Swap th cc temp this this w = Some w" by (simp add: rp_Swap_def)
  moreover note strings.swap_fallback [of cc w this f other g temp string_space sizeof_string, folded th_def,
      OF assms(2-8) False assms(9-11)]
  ultimately show ?thesis using False by metis
qed

definition demo_string_field :: "nat option \<Rightarrow> nat \<Rightarrow> rp_field" where
  "demo_string_field a p = rp_mk a 1 [p] [None]"

definition demo_world :: "string rp_world" where
  "demo_world = \<lparr>w_heap = \<lparr>h_objects = [0 \<mapsto> \<lparr>ob_value = ''x'', ob_arena = None, ob_owned = False\<rparr>,
      1 \<mapsto> \<lparr>ob_value = ''y'', ob_arena = Some 7, ob_owned = False\<rparr>], h_next = 2\<rparr>,
    w_fields = [10 \<mapsto> demo_string_field None 0, 11 \<mapsto> demo_string_field (Some 7) 1]\<rparr>"

lemma demo_world_ok:
  "rp_inv (StringTypeHandler length 32) (w_heap demo_world) (demo_string_field None 0)"
  "rp_inv (StringTypeHandler length 32) (w_heap demo_world) (demo_string_field (Some 7) 1)"
  "rp_values (w_heap demo_world) (demo_string_field None 0) = [''x'']"
  "rp_values (w_heap demo_world) (demo_string_field (Some 7) 1) = [''y'']"
  "rp_ptrs (demo_string_field a p) = [p]" "rp_arena (demo_string_field a p) = a"
  by (auto simp: demo_world_def demo_string_field_def rp_inv_mk heap_ok_def obj_ok_def rp_values_mk h_read_def)

theorem repeated_strings_swap_exchanges_witness:
  "\<exists>h' f' g'. rp_Swap (StringTypeHandler length 32) ref_cc 12 10 11 demo_world =
      Some \<lparr>w_heap = h', w_fields = (w_fields demo_world)(10 \<mapsto> f', 11 \<mapsto> g')\<rparr> \<and>
    rp_values h' f' = [''y''] \<and> rp_values h' g' = [''x''] \<and> rp_arena f' = None \<and> rp_arena g' = Some 7"
proof -
  have f: "w_fields demo_world 10 = Some (demo_string_field None 0)" "w_fields demo_world 11 = Some (demo_string_field (Some 7) 1)"
    "w_fields demo_world 12 = None" "(10 :: nat) \<noteq> 11"
    by (simp_all add: demo_world_def)
  have s: "set (rp_ptrs (demo_string_field None 0)) \<inter> set (rp_ptrs (demo_string_field (Some 7) 1)) = {}"
    "length (rp_values (w_heap demo_world) (demo_string_field None 0)) \<le> 2 ^ 30"
    "length (rp_values (w_heap demo_world) (demo_string_field (Some 7) 1)) \<le> 2 ^ 30"
    by (simp_all add: demo_world_ok del: One_nat_def)
  show ?thesis
    using repeated_strings_swap_exchanges [OF ref_cc_laws f(1-3) demo_world_ok(1,2) f(4) s] unfolding demo_world_ok by blast
qed

text \<open>
  The fast path of \<open>AddAllocated\<close> is the general routine. For every well-formed field and
  every object on the field's arena, \<open>AddAllocated\<close>, with its shortcut when a slot is free,
  and \<open>UnsafeArenaAddAllocated\<close> give the same heap and the same field; with a free slot
  nothing is allocated or deleted, the object becomes the last element and no owned object
  is lost.
\<close>

theorem add_allocated_fast_path:
  assumes "rp_shape f" and "th_GetArena th p h = Some (rp_arena f)"
  shows "rp_AddAllocatedInternal_merge th cc p h f = rp_UnsafeArenaAddAllocated cc p h f \<and>
    rp_AddAllocatedInternal_no_merge cc p h f = rp_UnsafeArenaAddAllocated cc p h f \<and>
    (has_free_slot f \<longrightarrow> (\<exists>g. rp_UnsafeArenaAddAllocated cc p h f = Some (h, g) \<and> rp_size g = rp_size f + 1 \<and>
       rp_Capacity g = rp_Capacity f \<and> rp_Mutable (rp_size f) g = Some p \<and> mset (rp_ptrs g) = add_mset p (mset (rp_ptrs f))))"
proof (cases "has_free_slot f")
  case True
  obtain a n ps rest where f: "f = rp_mk a n ps rest" "n \<le> length ps" "rest \<noteq> []" "length ps + length rest < 2 ^ 31"
    using assms(1)
  proof (cases rule: rp_cases)
    case (mk a n ps rest)
    then show ?thesis using True assms(1) by (intro that [of a n ps rest]) (auto simp: has_free_slot_def)
  qed (use True in \<open>simp add: has_free_slot_def\<close>)
  have "rp_Mutable (int n) (rp_mk a (Suc n) (rp_spliced p n ps) (tl rest)) = Some p"
    using f(2) length_rp_spliced [of n ps p] by (simp add: rp_Mutable_def rp_spliced_eq)
  moreover have "mset (rp_spliced p n ps) = add_mset p (mset ps)"
  proof (cases "n < length ps")
    case True
    then have "mset ps = mset (take n ps) + mset (ps ! n # drop (Suc n) ps)" by (metis append_take_drop_id Cons_nth_drop_Suc mset_append)
    then show ?thesis using True by (simp add: rp_spliced_def)
  qed (simp add: rp_spliced_def)
  moreover have "length (rp_spliced p n ps) + length (tl rest) = length ps + length rest"
    using f(2,3) length_rp_spliced by (cases rest) simp_all
  ultimately show ?thesis
    using True f assms(2) rp_add_fast_mk [of n ps rest p a] rp_UnsafeArenaAddAllocated_mk [of n ps rest cc p h a]
    by (simp add: rp_AddAllocatedInternal_merge_def rp_AddAllocatedInternal_no_merge_def rp_GetArenaNoVirtual_def rp_Capacity_def
        flip: of_nat_add)
next
  case False
  then show ?thesis using assms
    by (auto simp: rp_AddAllocatedInternal_merge_def rp_AddAllocatedInternal_no_merge_def rp_AddAllocatedSlowWithCopy_def
        rp_GetArenaNoVirtual_def Let_def)
qed

theorem add_allocated_fast_path_witness:
  "rp_AddAllocatedInternal_merge (StringTypeHandler length 32) ref_cc 5 demo_heap (demo_string_field None 0) =
     rp_UnsafeArenaAddAllocated ref_cc 5 demo_heap (demo_string_field None 0)"
  using add_allocated_fast_path [of "demo_string_field None 0" "StringTypeHandler length 32" 5 demo_heap ref_cc]
  by (simp add: demo_string_field_def th_GetArena_def StringTypeHandler_def)

end
