(* ===== verification/Varint.thy ===== *)
theory Varint
  imports Cpp_Prelude
begin

text \<open>
  The integer encodings of \<open>google/protobuf/io/coded_stream.h\<close> over raw byte arrays: the varint
  parser \<open>VarintParse\<close> with \<open>ReadSize\<close>, the varint writers, the branch-free size computation on
  top of \<open>Bits::Log2FloorNonZero\<close> (\<open>google/protobuf/stubs/port.h\<close>), and the little-endian
  accessors. An array is a byte list, a pointer into it an \<open>int\<close> index; a read or write
  outside the list is \<^term>\<open>None\<close>. A returned \<open>nullptr\<close> is the inner \<^term>\<open>None\<close>.

  The reference is the pair \<open>varint\<close> (the canonical encoding of a number) and
  \<open>varint_ref\<close> (the number an encoding denotes). The lemmas show that the writers, the parser
  and the size computation agree with it at their width.
\<close>

unbundle bit_operations_syntax

type_synonym byte = "8 word"

named_theorems varint_simps \<open>the code computes the reference encoding\<close>

section \<open>Floor of the binary logarithm\<close>

definition builtin_clz :: "'a::len word \<Rightarrow> nat option" where
  "builtin_clz n = (if n = 0 then None
     else Some (length (takeWhile (\<lambda>i. \<not> bit n i) (rev [0..<LENGTH('a)]))))"

definition Log2FloorNonZero :: "32 word \<Rightarrow> 32 word option" where
  "Log2FloorNonZero n = do { c \<leftarrow> builtin_clz n; Some (31 XOR of_nat c) }"

definition Log2FloorNonZero64 :: "64 word \<Rightarrow> 32 word option" where
  "Log2FloorNonZero64 n = do { c \<leftarrow> builtin_clz n; Some (63 XOR of_nat c) }"

primrec log2_loop :: "nat \<Rightarrow> 32 word \<Rightarrow> int \<Rightarrow> 32 word \<times> int" where
  "log2_loop 0 value' log = (value', log)"
| "log2_loop (Suc i) value' log =
     (let shift = 2 ^ i; x = drop_bit shift value' in
      if x \<noteq> 0 then log2_loop i x (log + int shift) else log2_loop i value' log)"

definition Log2FloorNonZero_Portable :: "32 word \<Rightarrow> int option" where
  "Log2FloorNonZero_Portable n =
     (if n = 0 then Some (- 1)
      else case log2_loop 5 n 0 of (value', log) \<Rightarrow> if value' = 1 then Some log else None)"

definition Log2FloorNonZero64_Portable :: "64 word \<Rightarrow> int option" where
  "Log2FloorNonZero64_Portable n =
     (let topbits = (ucast (drop_bit 32 n) :: 32 word) in
      if topbits = 0 then map_option uint (Log2FloorNonZero (ucast n))
      else map_option (\<lambda>l. 32 + uint l) (Log2FloorNonZero topbits))"

section \<open>Reading varints\<close>

primrec varint_parse_loop ::
  "nat \<Rightarrow> nat \<Rightarrow> 'a::len word \<Rightarrow> 'a word \<Rightarrow> byte list \<Rightarrow> int \<Rightarrow> ('a word \<times> int option) option" where
  "varint_parse_loop 0 i res extra mem p = Some (0, None)"
| "varint_parse_loop (Suc k) i res extra mem p = do {
     b \<leftarrow> arr_get mem (p + int i);
     let byte = (ucast b :: 'a word);
     let res = res + push_bit (i * 7) byte;
     let j = i + 1;
     if unat byte < 128 then Some (res - extra, Some (p + int j))
     else varint_parse_loop k (Suc i) res (extra + ucast (push_bit (i * 7) (128 :: 64 word))) mem p }"

definition VarintParse :: "nat \<Rightarrow> byte list \<Rightarrow> int \<Rightarrow> ('a::len word \<times> int option) option" where
  "VarintParse size' mem p = varint_parse_loop size' 0 0 0 mem p"

definition Parse32 :: "byte list \<Rightarrow> int \<Rightarrow> (32 word \<times> int option) option" where
  "Parse32 mem p = VarintParse 5 mem p"

definition Parse64 :: "byte list \<Rightarrow> int \<Rightarrow> (64 word \<times> int option) option" where
  "Parse64 mem p = VarintParse 10 mem p"

text \<open>
  \<open>ReadSize\<close> accumulates in \<open>int32\<close>: the compound assignments compute in \<open>uint32\<close> and \<open>uint64\<close>
  and convert back, the final subtraction is signed. Where it returns \<open>nullptr\<close> it leaves the
  result alone.
\<close>

definition int32_of :: "32 word \<Rightarrow> int" where
  "int32_of w = sint w"

primrec read_size_loop ::
  "nat \<Rightarrow> nat \<Rightarrow> int \<Rightarrow> int \<Rightarrow> byte list \<Rightarrow> int \<Rightarrow> (int \<times> int + int \<times> int) option" where
  "read_size_loop 0 i res extra mem p = Some (Inr (res, extra))"
| "read_size_loop (Suc k) i res extra mem p = do {
     b \<leftarrow> arr_get mem (p + int i);
     let byte = (ucast b :: 32 word);
     let res = int32_of (word_of_int res + push_bit (i * 7) byte);
     let j = i + 1;
     if unat byte < 128 then do { r \<leftarrow> c_int (res - extra); Some (Inl (r, p + int j)) }
     else read_size_loop k (Suc i) res
            (int32_of (ucast (word_of_int extra + push_bit (i * 7) (128 :: 64 word)))) mem p }"

definition ReadSize :: "byte list \<Rightarrow> int \<Rightarrow> (int option \<times> int option) option" where
  "ReadSize mem p = do {
     r \<leftarrow> read_size_loop 4 0 0 0 mem p;
     case r of Inl (r, q) \<Rightarrow> Some (Some r, Some q)
     | Inr (res, extra) \<Rightarrow> do {
         b \<leftarrow> arr_get mem (p + 4);
         let byte = (ucast b :: 32 word);
         if 8 \<le> unat byte then Some (None, None)
         else do {
           let res = int32_of (word_of_int res + push_bit (4 * 7) byte);
           r \<leftarrow> c_int (res - extra);
           Some (Some r, Some (p + 5)) } } }"

section \<open>Writing varints\<close>

function write_varint_loop :: "'a::len word \<Rightarrow> int \<Rightarrow> byte list \<Rightarrow> (int \<times> byte list) option" where
  "write_varint_loop value' target mem =
     (if 0x80 \<le> unat value'
      then do { mem \<leftarrow> arr_set mem target (ucast (value' OR 0x80));
                write_varint_loop (drop_bit 7 value') (target + 1) mem }
      else do { mem \<leftarrow> arr_set mem target (ucast value'); Some (target + 1, mem) })"
  by pat_completeness auto

lemma unat_drop_7: "unat (drop_bit 7 w) = unat w div 128"
  by (subst unat_drop_bit_eq, subst drop_bit_eq_div) simp

termination write_varint_loop
proof (relation "measure (\<lambda>(v, _). unat v)")
  fix v :: "'a word" and t :: int and mem mem' :: "byte list"
  assume "0x80 \<le> unat v"
  then show "((drop_bit 7 v, t + 1, mem'), v, t, mem) \<in> measure (\<lambda>(v, _). unat v)"
    by (simp only: in_measure prod.case unat_drop_7)
qed simp_all

declare write_varint_loop.simps [simp del]

definition WriteVarint32ToArray :: "32 word \<Rightarrow> int \<Rightarrow> byte list \<Rightarrow> (int \<times> byte list) option" where
  "WriteVarint32ToArray value' target mem = write_varint_loop value' target mem"

definition WriteVarint64ToArray :: "64 word \<Rightarrow> int \<Rightarrow> byte list \<Rightarrow> (int \<times> byte list) option" where
  "WriteVarint64ToArray value' target mem = write_varint_loop value' target mem"

text \<open>Signed arguments are \<open>int\<close> values; \<open>static_cast<uint64>\<close> is \<^const>\<open>word_of_int\<close>.\<close>

definition WriteVarint32SignExtendedToArray :: "int \<Rightarrow> int \<Rightarrow> byte list \<Rightarrow> (int \<times> byte list) option" where
  "WriteVarint32SignExtendedToArray value' target mem = WriteVarint64ToArray (word_of_int value') target mem"

definition WriteTagToArray :: "32 word \<Rightarrow> int \<Rightarrow> byte list \<Rightarrow> (int \<times> byte list) option" where
  "WriteTagToArray value' target mem = WriteVarint32ToArray value' target mem"

section \<open>Sizes of varints\<close>

definition VarintSize32 :: "32 word \<Rightarrow> nat option" where
  "VarintSize32 value' = do {
     log2value \<leftarrow> Log2FloorNonZero (value' OR 1);
     Some (unat ((log2value * 9 + 73) div 64)) }"

definition VarintSize64 :: "64 word \<Rightarrow> nat option" where
  "VarintSize64 value' = do {
     log2value \<leftarrow> Log2FloorNonZero64 (value' OR 1);
     Some (unat ((log2value * 9 + 73) div 64)) }"

definition VarintSize32SignExtended :: "int \<Rightarrow> nat option" where
  "VarintSize32SignExtended value' = (if value' < 0 then Some 10 else VarintSize32 (word_of_int value'))"

definition StaticVarintSize32 :: "32 word \<Rightarrow> nat" where
  "StaticVarintSize32 value' =
     (if value' < push_bit 7 1 then 1
      else if value' < push_bit 14 1 then 2
      else if value' < push_bit 21 1 then 3
      else if value' < push_bit 28 1 then 4
      else 5)"

section \<open>Little-endian integers\<close>

text \<open>
  With \<open>PROTOBUF_LITTLE_ENDIAN\<close> the accessors copy the object representation of the value with
  \<open>memcpy\<close>; otherwise they assemble it from bytes. Both variants are modelled, the object
  representation on a little-endian machine being its bytes from the lowest.
\<close>

definition object_bytes :: "'a::len word \<Rightarrow> byte list" where
  "object_bytes w = map (\<lambda>i. ucast (drop_bit (8 * i) w)) [0..<LENGTH('a) div 8]"

primrec object_of_bytes :: "byte list \<Rightarrow> 'a::len word" where
  "object_of_bytes [] = 0"
| "object_of_bytes (b # bs) = ucast b OR push_bit 8 (object_of_bytes bs)"

definition memcpy_to :: "byte list \<Rightarrow> int \<Rightarrow> byte list \<Rightarrow> byte list option" where
  "memcpy_to mem target bs = arr_copy mem target bs 0 (int (length bs))"

definition memcpy_from :: "byte list \<Rightarrow> int \<Rightarrow> nat \<Rightarrow> byte list option" where
  "memcpy_from mem p n = (if 0 \<le> p \<and> nat p + n \<le> length mem then Some (take n (drop (nat p) mem)) else None)"

definition ReadLittleEndian32FromArray :: "byte list \<Rightarrow> int \<Rightarrow> (32 word \<times> int) option" where
  "ReadLittleEndian32FromArray mem p = do { bs \<leftarrow> memcpy_from mem p 4; Some (object_of_bytes bs, p + 4) }"

definition ReadLittleEndian64FromArray :: "byte list \<Rightarrow> int \<Rightarrow> (64 word \<times> int) option" where
  "ReadLittleEndian64FromArray mem p = do { bs \<leftarrow> memcpy_from mem p 8; Some (object_of_bytes bs, p + 8) }"

definition ReadLittleEndian32FromArray_portable :: "byte list \<Rightarrow> int \<Rightarrow> (32 word \<times> int) option" where
  "ReadLittleEndian32FromArray_portable mem p = do {
     b0 \<leftarrow> arr_get mem p; b1 \<leftarrow> arr_get mem (p + 1); b2 \<leftarrow> arr_get mem (p + 2); b3 \<leftarrow> arr_get mem (p + 3);
     Some (ucast b0 OR push_bit 8 (ucast b1) OR push_bit 16 (ucast b2) OR push_bit 24 (ucast b3), p + 4) }"

definition ReadLittleEndian64FromArray_portable :: "byte list \<Rightarrow> int \<Rightarrow> (64 word \<times> int) option" where
  "ReadLittleEndian64FromArray_portable mem p = do {
     (part0, q) \<leftarrow> ReadLittleEndian32FromArray_portable mem p;
     (part1, r) \<leftarrow> ReadLittleEndian32FromArray_portable mem (p + 4);
     Some (ucast part0 OR push_bit 32 (ucast part1), p + 8) }"

definition WriteLittleEndian32ToArray :: "32 word \<Rightarrow> int \<Rightarrow> byte list \<Rightarrow> (int \<times> byte list) option" where
  "WriteLittleEndian32ToArray value' target mem = do {
     mem \<leftarrow> memcpy_to mem target (object_bytes value'); Some (target + 4, mem) }"

definition WriteLittleEndian64ToArray :: "64 word \<Rightarrow> int \<Rightarrow> byte list \<Rightarrow> (int \<times> byte list) option" where
  "WriteLittleEndian64ToArray value' target mem = do {
     mem \<leftarrow> memcpy_to mem target (object_bytes value'); Some (target + 8, mem) }"

definition WriteLittleEndian32ToArray_portable :: "32 word \<Rightarrow> int \<Rightarrow> byte list \<Rightarrow> (int \<times> byte list) option" where
  "WriteLittleEndian32ToArray_portable value' target mem = do {
     mem \<leftarrow> arr_set mem target (ucast value');
     mem \<leftarrow> arr_set mem (target + 1) (ucast (drop_bit 8 value'));
     mem \<leftarrow> arr_set mem (target + 2) (ucast (drop_bit 16 value'));
     mem \<leftarrow> arr_set mem (target + 3) (ucast (drop_bit 24 value'));
     Some (target + 4, mem) }"

definition WriteLittleEndian64ToArray_portable :: "64 word \<Rightarrow> int \<Rightarrow> byte list \<Rightarrow> (int \<times> byte list) option" where
  "WriteLittleEndian64ToArray_portable value' target mem = do {
     let part0 = (ucast value' :: 32 word);
     let part1 = (ucast (drop_bit 32 value') :: 32 word);
     mem \<leftarrow> arr_set mem target (ucast part0);
     mem \<leftarrow> arr_set mem (target + 1) (ucast (drop_bit 8 part0));
     mem \<leftarrow> arr_set mem (target + 2) (ucast (drop_bit 16 part0));
     mem \<leftarrow> arr_set mem (target + 3) (ucast (drop_bit 24 part0));
     mem \<leftarrow> arr_set mem (target + 4) (ucast part1);
     mem \<leftarrow> arr_set mem (target + 5) (ucast (drop_bit 8 part1));
     mem \<leftarrow> arr_set mem (target + 6) (ucast (drop_bit 16 part1));
     mem \<leftarrow> arr_set mem (target + 7) (ucast (drop_bit 24 part1));
     Some (target + 8, mem) }"

section \<open>The reference encoding\<close>

lemma unat_less_power: "unat (w :: 'a::len word) < 2 ^ LENGTH('a)"
  by (rule unsigned_less)

fun varint :: "nat \<Rightarrow> byte list" where
  "varint n = (if n < 128 then [of_nat n] else of_nat (n mod 128 + 128) # varint (n div 128))"

declare varint.simps [simp del]

text \<open>
  What the first \<open>k\<close> bytes denote: the value and length of the encoding they start with, the
  inner \<^term>\<open>None\<close> when all of them are continued, the outer one when the bytes end before.
\<close>

primrec varint_ref :: "nat \<Rightarrow> byte list \<Rightarrow> (nat \<times> nat) option option" where
  "varint_ref 0 bs = Some None"
| "varint_ref (Suc k) bs = (case bs of [] \<Rightarrow> None
     | b # bs \<Rightarrow> if unat b < 128 then Some (Some (unat b, 1))
         else map_option (map_option (\<lambda>(n, l). (unat b - 128 + 128 * n, Suc l))) (varint_ref k bs))"

lemma varint_small [simp]: "n < 128 \<Longrightarrow> varint n = [of_nat n]"
  by (simp add: varint.simps)

lemma varint_big: "128 \<le> n \<Longrightarrow> varint n = of_nat (n mod 128 + 128) # varint (n div 128)"
  by (subst varint.simps) simp

lemma varint_not_Nil [simp]: "varint n \<noteq> []"
  by (subst varint.simps) simp

lemma length_varint_le: "n < 2 ^ (7 * Suc k) \<Longrightarrow> length (varint n) \<le> Suc k"
proof (induction k arbitrary: n)
  case (Suc k)
  then show ?case
    by (cases "n < 128") (auto simp: varint_big power_add less_mult_imp_div_less mult.commute)
qed simp

lemma length_varint_32: "length (varint (unat (w :: 32 word))) \<le> 5"
  using length_varint_le [of "unat w" 4] unat_less_power [of w] by simp

lemma length_varint_64: "length (varint (unat (w :: 64 word))) \<le> 10"
  using length_varint_le [of "unat w" 9] unat_less_power [of w] by simp

lemma unat_byte: "n < 256 \<Longrightarrow> unat (of_nat n :: byte) = n"
  by (simp add: unat_of_nat)

lemma varint_ref_varint: "length (varint n) \<le> k \<Longrightarrow> varint_ref k (varint n @ rest) = Some (Some (n, length (varint n)))"
proof (induction n arbitrary: k rule: varint.induct)
  case (1 n)
  then obtain k' where k: "k = Suc k'" by (cases k) auto
  show ?case
  proof (cases "n < 128")
    case True
    then show ?thesis by (simp add: k unat_byte)
  next
    case False
    then have "unat (of_nat (n mod 128 + 128) :: byte) = n mod 128 + 128"
      by (intro unat_byte) simp
    moreover have "varint_ref k' (varint (n div 128) @ rest) = Some (Some (n div 128, length (varint (n div 128))))"
      using 1 False by (simp add: k varint_big)
    ultimately show ?thesis using False
      by (simp add: k varint_big)
  qed
qed

section \<open>The writers produce the reference encoding\<close>

definition put_bytes :: "nat \<Rightarrow> byte list \<Rightarrow> byte list \<Rightarrow> byte list" where
  "put_bytes t bs mem = take t mem @ bs @ drop (t + length bs) mem"

lemma length_put_bytes: "t + length bs \<le> length mem \<Longrightarrow> length (put_bytes t bs mem) = length mem"
  by (simp add: put_bytes_def)

lemma put_bytes_one: "t < length mem \<Longrightarrow> mem[t := b] = put_bytes t [b] mem"
  by (simp add: put_bytes_def upd_conv_take_nth_drop)

lemma put_bytes_append:
  "t + length bs + length cs \<le> length mem \<Longrightarrow>
     put_bytes (t + length bs) cs (put_bytes t bs mem) = put_bytes t (bs @ cs) mem"
  by (simp add: put_bytes_def ac_simps)

lemma read_put_bytes: "t + length bs \<le> length mem \<Longrightarrow> drop t (put_bytes t bs mem) = bs @ drop (t + length bs) mem"
  by (simp add: put_bytes_def)

text \<open>
  A writer that stores the bytes \<open>bs\<close> at the target and returns the pointer past them; it
  fails exactly when they do not fit.
\<close>

definition writes :: "(int \<Rightarrow> byte list \<Rightarrow> (int \<times> byte list) option) \<Rightarrow> byte list \<Rightarrow> bool" where
  "writes w bs \<longleftrightarrow> (\<forall>t mem. w (int t) mem =
     (if t + length bs \<le> length mem then Some (int (t + length bs), put_bytes t bs mem) else None))"

lemma writesD: "writes w bs \<Longrightarrow> w (int t) mem =
     (if t + length bs \<le> length mem then Some (int (t + length bs), put_bytes t bs mem) else None)"
  by (simp add: writes_def)

lemma writes_set: "writes (\<lambda>t mem. do { mem \<leftarrow> arr_set mem t b; Some (t + 1, mem) }) [b]"
  by (simp add: writes_def put_bytes_one)

lemma writes_bind:
  assumes "writes f bs" "writes g cs"
  shows "writes (\<lambda>t mem. do { (t, mem) \<leftarrow> f t mem; g t mem }) (bs @ cs)"
  unfolding writes_def
proof (intro allI)
  fix t :: nat and mem :: "byte list"
  show "do { (t, mem) \<leftarrow> f (int t) mem; g t mem } =
      (if t + length (bs @ cs) \<le> length mem
       then Some (int (t + length (bs @ cs)), put_bytes t (bs @ cs) mem) else None)"
  proof (cases "t + length bs \<le> length mem")
    case True
    then show ?thesis
      by (simp add: writesD [OF assms(1)] writesD [OF assms(2)] length_put_bytes put_bytes_append ac_simps
               del: of_nat_add)
  qed (simp add: writesD [OF assms(1)])
qed

lemma take_bit_add_power: "take_bit n w + 2 ^ n = take_bit n w OR (2 ^ n :: 'a::len word)"
  by (rule disjunctive_add_eq_or, rule bit_eqI) (simp add: bit_simps)

lemma ucast_or_top:
  "n < LENGTH('a) \<Longrightarrow> LENGTH('b) = Suc n \<Longrightarrow>
     (ucast ((v :: 'a::len word) OR 2 ^ n) :: 'b::len word) = take_bit n (ucast v) OR 2 ^ n"
  by (rule bit_eqI) (auto simp: bit_simps)

lemma low_byte_or:
  fixes v :: "'a::len word"
  assumes "128 \<le> unat v"
  shows "(ucast (v OR 0x80) :: byte) = of_nat (unat v mod 128 + 128)"
proof -
  have len: "7 < LENGTH('a)"
  proof (rule ccontr)
    assume "\<not> 7 < LENGTH('a)"
    then have "(2::nat) ^ LENGTH('a) \<le> 2 ^ 7" by (intro power_increasing) auto
    then show False using assms unat_less_power [of v] by simp
  qed
  have "(of_nat (unat v mod 128 + 128) :: byte) = of_nat (take_bit 7 (unat v)) + 2 ^ 7"
    by (simp add: take_bit_eq_mod)
  also have "\<dots> = take_bit 7 (ucast v) + 2 ^ 7"
    by (simp only: of_nat_take_bit of_nat_unat)
  also have "\<dots> = take_bit 7 (ucast v) OR 2 ^ 7"
    by (rule take_bit_add_power)
  also have "\<dots> = ucast (v OR 2 ^ 7)"
    using len by (intro ucast_or_top [symmetric]) simp_all
  finally show ?thesis by simp
qed

lemma writes_varint_loop: "writes (write_varint_loop v) (varint (unat v))"
proof (induction "unat v" arbitrary: v rule: less_induct)
  case less
  show ?case
  proof (cases "unat v < 128")
    case True
    then have "write_varint_loop v = (\<lambda>t mem. do { mem \<leftarrow> arr_set mem t (ucast v); Some (t + 1, mem) })"
      by (intro ext) (subst write_varint_loop.simps, simp)
    then show ?thesis using True writes_set [of "ucast v"] by simp
  next
    case False
    then have "write_varint_loop v = (\<lambda>t mem. do {
        (t, mem) \<leftarrow> do { mem \<leftarrow> arr_set mem t (of_nat (unat v mod 128 + 128)); Some (t + 1, mem) };
        write_varint_loop (drop_bit 7 v) t mem })"
      by (intro ext) (subst write_varint_loop.simps, simp add: low_byte_or)
    moreover have "writes (write_varint_loop (drop_bit 7 v)) (varint (unat v div 128))"
      using less [of "drop_bit 7 v"] False by (simp only: unat_drop_7)
    ultimately show ?thesis
      using False writes_bind [OF writes_set] by (fastforce simp: varint_big)
  qed
qed

section \<open>The parser reads the reference encoding\<close>

lemma ucast_of_nat_down: "LENGTH('a) \<le> LENGTH('b) \<Longrightarrow> (ucast (of_nat m :: 'b::len word) :: 'a::len word) = of_nat m"
  by (simp add: unsigned_of_nat word_of_nat_eq_iff take_bit_take_bit min_def)

lemma push_bit_of_nat: "push_bit n (of_nat m :: 'a::len word) = of_nat (m * 2 ^ n)"
  by (simp add: push_bit_eq_mult)

lemma ucast_byte: "(ucast (b :: byte) :: 'a::len word) = of_nat (unat b)"
  by simp

lemma unat_ucast_byte: "8 \<le> LENGTH('a) \<Longrightarrow> unat (ucast (b :: byte) :: 'a::len word) = unat b"
  using unat_less_power [of b] power_increasing [of 8 "LENGTH('a)" "2::nat"]
  by (simp add: unsigned_ucast_eq take_bit_nat_eq_self_iff)

lemma arr_get_drop: "drop n mem = b # bs \<Longrightarrow> arr_get mem (int n) = Some b"
  by (metis arr_get_int drop_all list.distinct(1) not_le nth_via_drop)

lemma arr_get_past: "drop n mem = [] \<Longrightarrow> arr_get mem (int n) = None"
  by simp

definition parsed :: "nat \<Rightarrow> 'a::len word \<Rightarrow> nat \<Rightarrow> (nat \<times> nat) option \<Rightarrow> 'a word \<times> int option" where
  "parsed p acc i r = (case r of None \<Rightarrow> (0, None)
     | Some (n, l) \<Rightarrow> (acc + of_nat (n * 2 ^ (7 * i)), Some (int (p + l))))"

lemma parsed_shift:
  "128 \<le> b \<Longrightarrow> parsed (Suc p) (acc + of_nat (b * 2 ^ (7 * i)) - of_nat (128 * 2 ^ (7 * i))) (Suc i) r =
     parsed p acc i (map_option (\<lambda>(n, l). (b - 128 + 128 * n, Suc l)) r)"
proof (cases r)
  case (Some nl)
  assume "128 \<le> b"
  then obtain c where b: "b = 128 + c" using le_Suc_ex by blast
  obtain n l where [simp]: "nl = (n, l)" by (cases nl)
  show ?thesis by (simp add: Some b parsed_def algebra_simps power_add)
qed (simp add: parsed_def)

lemma varint_parse_loop_ref:
  assumes "8 \<le> LENGTH('a::len)" "LENGTH('a) \<le> 64"
  shows "varint_parse_loop k i res extra mem (int p) =
     map_option (parsed (p + i) (res - extra :: 'a word) i) (varint_ref k (drop (p + i) mem))"
proof (induction k arbitrary: i res extra)
  case 0
  then show ?case by (simp add: parsed_def)
next
  case (Suc k)
  have idx: "int p + int i = int (p + i)" by simp
  show ?case
  proof (cases "drop (p + i) mem")
    case Nil
    then show ?thesis by (simp only: varint_parse_loop.simps idx arr_get_past [OF Nil]) simp
  next
    case (Cons b bs)
    then have rest: "drop (Suc (p + i)) mem = bs" by (metis drop_Suc list.sel(3) tl_drop)
    have u: "unat (ucast b :: 'a word) = unat b"
      by (rule unat_ucast_byte [OF assms(1)])
    have sh: "push_bit (i * 7) (ucast b :: 'a word) = of_nat (unat b * 2 ^ (7 * i))"
      by (simp only: ucast_byte push_bit_of_nat mult.commute [of i])
    have ex: "(ucast (push_bit (i * 7) (128 :: 64 word)) :: 'a word) = of_nat (128 * 2 ^ (7 * i))"
      using assms(2) push_bit_of_nat [of "i * 7" 128, where 'a = 64]
      by (simp only: of_nat_numeral mult.commute [of i] ucast_of_nat_down len_num0 len_num1 len_bit0)
    show ?thesis
    proof (cases "unat b < 128")
      case True
      then show ?thesis
        by (simp only: varint_parse_loop.simps idx arr_get_drop [OF Cons] Let_def bind.bind_lunit u sh if_True
            varint_ref.simps Cons list.case option.map) (simp add: parsed_def)
    next
      case False
      then have "128 \<le> unat b" by simp
      then show ?thesis using False
        by (simp only: varint_parse_loop.simps idx arr_get_drop [OF Cons] Let_def bind.bind_lunit u sh ex if_False
            varint_ref.simps Cons list.case option.map Suc rest add_Suc_right option.map_comp comp_def
            parsed_shift [symmetric]) (simp add: algebra_simps)
    qed
  qed
qed

lemma VarintParse_ref:
  "8 \<le> LENGTH('a::len) \<Longrightarrow> LENGTH('a) \<le> 64 \<Longrightarrow>
   (VarintParse k mem (int p) :: ('a word \<times> int option) option) =
     map_option (parsed p 0 0) (varint_ref k (drop p mem))"
  by (simp add: VarintParse_def varint_parse_loop_ref)

section \<open>The size computation counts the bytes of the encoding\<close>

lemma takeWhile_rev_upt:
  "k < n \<Longrightarrow> P k \<Longrightarrow> \<forall>i. k < i \<and> i < n \<longrightarrow> \<not> P i \<Longrightarrow>
     length (takeWhile (\<lambda>i. \<not> P i) (rev [0..<n])) = n - Suc k"
proof (induction n)
  case (Suc n)
  then show ?case by (cases "k = n") auto
qed simp

text \<open>\<open>log2_is n k\<close>: the highest bit of \<open>n\<close> is bit \<open>k\<close>.\<close>

definition log2_is :: "nat \<Rightarrow> nat \<Rightarrow> bool" where
  "log2_is n k \<longleftrightarrow> 2 ^ k \<le> n \<and> n < 2 ^ Suc k"

lemma log2_ex: "0 < n \<Longrightarrow> \<exists>k. log2_is n k"
  using ex_power_ivl1 [of 2 n] by (auto simp: log2_is_def)

lemma log2_bound: "log2_is n k \<Longrightarrow> n < 2 ^ w \<Longrightarrow> k < w"
  unfolding log2_is_def by (meson le_less_trans nat_power_less_imp_less zero_less_numeral)

lemma bit_unat: "bit w i = odd (unat w div 2 ^ i)"
  by (metis bit_iff_odd bit_unsigned_iff bit_imp_le_length not_le possible_bit_nat)

lemma log2_bit: "log2_is (unat w) k \<Longrightarrow> bit w k"
  by (simp add: bit_unat log2_is_def div_nat_eqI [where q = 1])

lemma log2_no_bit: "log2_is (unat w) k \<Longrightarrow> k < i \<Longrightarrow> \<not> bit w i"
proof -
  assume "log2_is (unat w) k" "k < i"
  then have "unat w < 2 ^ i"
    unfolding log2_is_def by (meson Suc_leI le_less_trans less_le_trans one_le_numeral power_increasing)
  then show ?thesis by (simp add: bit_unat)
qed

lemma clz_log2:
  fixes w :: "'a::len word"
  assumes "log2_is (unat w) k"
  shows "builtin_clz w = Some (LENGTH('a) - Suc k)"
proof -
  have "k < LENGTH('a)" by (rule log2_bound [OF assms unat_less_power])
  moreover have "w \<noteq> 0" using assms by (auto simp: log2_is_def)
  ultimately show ?thesis
    using takeWhile_rev_upt [of k "LENGTH('a)" "bit w"] log2_bit [OF assms] log2_no_bit [OF assms]
    by (simp add: builtin_clz_def)
qed

lemma xor_31: "k < 32 \<Longrightarrow> 31 XOR of_nat (31 - k) = (of_nat k :: 32 word)"
proof -
  assume "k < 32"
  then have "k \<in> set [0..<32]" by simp
  moreover have "\<forall>k \<in> set [0..<32]. 31 XOR of_nat (31 - k) = (of_nat k :: 32 word)"
    by code_simp
  ultimately show ?thesis by blast
qed

lemma xor_63: "k < 64 \<Longrightarrow> 63 XOR of_nat (63 - k) = (of_nat k :: 32 word)"
proof -
  assume "k < 64"
  then have "k \<in> set [0..<64]" by simp
  moreover have "\<forall>k \<in> set [0..<64]. 63 XOR of_nat (63 - k) = (of_nat k :: 32 word)"
    by code_simp
  ultimately show ?thesis by blast
qed

lemma Log2FloorNonZero_log2: "log2_is (unat n) k \<Longrightarrow> Log2FloorNonZero n = Some (of_nat k)"
  using log2_bound [OF _ unat_less_power, of n k]
  by (simp add: Log2FloorNonZero_def clz_log2 xor_31 del: of_nat_diff)

lemma Log2FloorNonZero64_log2: "log2_is (unat n) k \<Longrightarrow> Log2FloorNonZero64 n = Some (of_nat k)"
  using log2_bound [OF _ unat_less_power, of n k]
  by (simp add: Log2FloorNonZero64_def clz_log2 xor_63 del: of_nat_diff)

lemma size_formula: "k < 64 \<Longrightarrow> unat ((of_nat k * 9 + 73) div 64 :: 32 word) = k div 7 + 1"
proof -
  assume "k < 64"
  then have "k \<in> set [0..<64]" by simp
  moreover have "\<forall>k \<in> set [0..<64]. unat ((of_nat k * 9 + 73) div 64 :: 32 word) = k div 7 + 1"
    by code_simp
  ultimately show ?thesis by blast
qed

lemma length_varint_log2: "log2_is n k \<Longrightarrow> length (varint n) = k div 7 + 1"
proof (induction n arbitrary: k rule: varint.induct)
  case (1 n)
  show ?case
  proof (cases "n < 128")
    case True
    then have "k < 7" using log2_bound [of n k 7] 1 by simp
    then show ?thesis using True by simp
  next
    case False
    have k: "7 \<le> k"
    proof (rule ccontr)
      assume "\<not> 7 \<le> k"
      then have "(2::nat) ^ Suc k \<le> 2 ^ 7" by (intro power_increasing) auto
      then show False using 1 False by (simp add: log2_is_def)
    qed
    then obtain j where j: "k = 7 + j" using le_Suc_ex by blast
    have "log2_is (n div 128) j"
      using 1 by (simp add: log2_is_def j power_add less_eq_div_iff_mult_less_eq div_less_iff_less_mult mult.commute)
    then show ?thesis using False 1 by (simp add: varint_big j)
  qed
qed

lemma length_varint_or_1: "length (varint (n OR 1)) = length (varint n)"
proof -
  have n: "n OR 1 = 2 * (n div 2) + 1" for n :: nat
    unfolding or_one_eq by (cases "even n") (auto simp: odd_pos)
  have "(n OR 1) div 128 = n div 128"
    using div_mult2_eq [of "2 * (n div 2) + 1" 2 64] div_mult2_eq [of n 2 64] unfolding n by simp
  moreover have "n OR 1 < 128 \<longleftrightarrow> n < 128" unfolding n by presburger
  ultimately show ?thesis by (subst (1 2) varint.simps) simp
qed

lemma log2_or_1: "\<exists>k. log2_is (unat (v OR 1)) k \<and> length (varint (unat v)) = k div 7 + 1"
proof -
  have u: "unat (v OR 1) = unat v OR 1" by (simp add: unsigned_or_eq)
  have "0 < unat v OR 1" unfolding or_one_eq by (cases "even (unat v)") (auto elim: oddE)
  then obtain k where "log2_is (unat (v OR 1)) k" using log2_ex u by metis
  then show ?thesis using length_varint_log2 [of "unat (v OR 1)" k] length_varint_or_1 [of "unat v"] u by auto
qed

lemma VarintSize32_length [varint_simps]: "VarintSize32 v = Some (length (varint (unat v)))"
proof -
  obtain k where k: "log2_is (unat (v OR 1)) k" "length (varint (unat v)) = k div 7 + 1"
    using log2_or_1 by blast
  then have "k < 64" using log2_bound [OF k(1) unat_less_power] by simp
  then show ?thesis using k(2)
    by (simp add: VarintSize32_def Log2FloorNonZero_log2 [OF k(1)] size_formula)
qed

lemma VarintSize64_length [varint_simps]: "VarintSize64 v = Some (length (varint (unat v)))"
proof -
  obtain k where k: "log2_is (unat (v OR 1)) k" "length (varint (unat v)) = k div 7 + 1"
    using log2_or_1 by blast
  then have "k < 64" using log2_bound [OF k(1) unat_less_power] by simp
  then show ?thesis using k(2)
    by (simp add: VarintSize64_def Log2FloorNonZero64_log2 [OF k(1)] size_formula)
qed

lemma length_varint_steps:
  "length (varint n) = (if n < 2 ^ 7 then 1 else Suc (length (varint (n div 2 ^ 7))))"
  by (subst varint.simps) simp

lemma StaticVarintSize32_length [varint_simps]: "StaticVarintSize32 v = length (varint (unat v))"
proof -
  have b: "unat v < 2 ^ 32" using unat_less_power [of v] by simp
  define n where "n = unat v"
  have "length (varint n) = (if n < 2 ^ 7 then 1 else if n < 2 ^ 14 then 2 else if n < 2 ^ 21 then 3
      else if n < 2 ^ 28 then 4 else 5)"
    using b unfolding n_def [symmetric]
    by (simp add: length_varint_steps [of n] length_varint_steps [of "n div 128"] length_varint_steps [of "n div 16384"]
        length_varint_steps [of "n div 2097152"] length_varint_steps [of "n div 268435456"]
        div_mult2_eq [symmetric] div_less_iff_less_mult)
  then show ?thesis
    by (simp add: StaticVarintSize32_def word_less_nat_alt n_def)
qed

lemma log2_loop_log2: "log2_is (unat v) k \<Longrightarrow> k < 2 ^ i \<Longrightarrow> log2_loop i v l = (1, l + int k)"
proof (induction i arbitrary: v k l)
  case 0
  then have "unat v = 1" by (simp add: log2_is_def)
  then show ?case using 0 by (simp add: word_unat_eq_iff)
next
  case (Suc i)
  have u: "unat (drop_bit (2 ^ i) v) = unat v div 2 ^ 2 ^ i"
    by (subst unat_drop_bit_eq, subst drop_bit_eq_div) simp
  show ?case
  proof (cases "k < 2 ^ i")
    case True
    then have "unat v < 2 ^ 2 ^ i" using Suc.prems(1)
      unfolding log2_is_def by (meson Suc_leI less_le_trans one_le_numeral power_increasing)
    then have "drop_bit (2 ^ i) v = 0" by (simp only: word_unat_eq_iff u) simp
    then show ?thesis using Suc.IH [OF Suc.prems(1) True] by simp
  next
    case False
    then obtain j where k: "k = 2 ^ i + j" using le_Suc_ex not_less by blast
    have j: "log2_is (unat (drop_bit (2 ^ i) v)) j"
      using Suc.prems(1) unfolding u log2_is_def k
      by (simp add: power_add less_eq_div_iff_mult_less_eq div_less_iff_less_mult mult.commute mult.left_commute)
    then have "drop_bit (2 ^ i) v \<noteq> 0" by (auto simp: log2_is_def)
    then show ?thesis using Suc.IH [OF j] Suc.prems(2) k by simp
  qed
qed

lemma unat_of_nat_small: "n < 2 ^ LENGTH('a) \<Longrightarrow> unat (of_nat n :: 'a::len word) = n"
  by (simp add: unsigned_of_nat take_bit_nat_eq_self_iff)

lemma uint_of_nat_small: "n < 2 ^ LENGTH('a) \<Longrightarrow> uint (of_nat n :: 'a::len word) = int n"
  by (simp add: unsigned_of_nat take_bit_nat_eq_self_iff)

lemma Log2_portable_agrees:
  assumes "n \<noteq> 0"
  shows "Log2FloorNonZero_Portable n = map_option uint (Log2FloorNonZero n)"
proof -
  obtain k where k: "log2_is (unat n) k"
    using log2_ex [of "unat n"] assms by (auto simp: unat_gt_0)
  have "k < 32" using log2_bound [OF k unat_less_power] by simp
  then show ?thesis
    using log2_loop_log2 [OF k, of 5 0] assms
    by (simp add: Log2FloorNonZero_Portable_def Log2FloorNonZero_log2 [OF k] uint_of_nat_small)
qed

lemma Log2_64_portable_agrees:
  assumes "n \<noteq> 0"
  shows "Log2FloorNonZero64_Portable n = map_option uint (Log2FloorNonZero64 n)"
proof -
  obtain k where k: "log2_is (unat n) k"
    using log2_ex [of "unat n"] assms by (auto simp: unat_gt_0)
  have k64: "k < 64" using log2_bound [OF k unat_less_power] by simp
  have n64: "unat n < 2 ^ 64" using unat_less_power [of n] by simp
  have top: "unat (ucast (drop_bit 32 n) :: 32 word) = unat n div 2 ^ 32"
  proof -
    have "unat n div 2 ^ 32 < 2 ^ 32" using n64 by (simp add: div_less_iff_less_mult)
    then show ?thesis
      by (simp add: unsigned_ucast_eq unat_drop_bit_eq drop_bit_eq_div [where 'a = nat] take_bit_nat_eq_self_iff
          del: drop_bit_numeral_minus_bit1)
  qed
  show ?thesis
  proof (cases "k < 32")
    case True
    have n32: "unat n < 2 ^ 32"
      using k True power_increasing [of "Suc k" 32 "2::nat"] by (simp add: log2_is_def)
    then have "(ucast (drop_bit 32 n) :: 32 word) = 0" by (simp only: word_unat_eq_iff top) simp
    moreover have "unat (ucast n :: 32 word) = unat n"
      using n32 by (simp add: unsigned_ucast_eq take_bit_nat_eq_self_iff)
    ultimately show ?thesis
      using k by (simp add: Log2FloorNonZero64_Portable_def Log2FloorNonZero_log2 Log2FloorNonZero64_log2)
  next
    case False
    then obtain j where j: "k = 32 + j" using le_Suc_ex not_less by blast
    have l: "log2_is (unat (ucast (drop_bit 32 n) :: 32 word)) j"
      using k unfolding top log2_is_def j
      by (simp add: power_add less_eq_div_iff_mult_less_eq div_less_iff_less_mult mult.commute)
    then have "(ucast (drop_bit 32 n) :: 32 word) \<noteq> 0" by (auto simp: log2_is_def)
    then show ?thesis
      using k64 uint_of_nat_small [of "32 + j", where 'a = 32] uint_of_nat_small [of j, where 'a = 32]
      by (simp add: Log2FloorNonZero64_Portable_def Log2FloorNonZero_log2 [OF l]
        Log2FloorNonZero64_log2 [OF k] j)
  qed
qed

lemma VarintSize32SignExtended_length [varint_simps]:
  assumes "- (2 ^ 31) \<le> v" "v < 2 ^ 31"
  shows "VarintSize32SignExtended v = Some (length (varint (unat (word_of_int v :: 64 word))))"
proof (cases "v < 0")
  case True
  have "uint (word_of_int v :: 64 word) = v + 2 ^ 64"
    using True assms int_mod_pos_eq [of v "2 ^ 64" "- 1" "v + 2 ^ 64"] by (simp add: unsigned_of_int take_bit_eq_mod)
  then have "unat (word_of_int v :: 64 word) = nat (v + 2 ^ 64)" by (simp add: nat_uint_eq [symmetric])
  then have "log2_is (unat (word_of_int v :: 64 word)) 63"
    using True assms by (simp add: log2_is_def le_nat_iff nat_less_iff)
  then show ?thesis using True length_varint_log2 by (simp add: VarintSize32SignExtended_def)
next
  case False
  then have "unat (word_of_int v :: 32 word) = nat v" "unat (word_of_int v :: 64 word) = nat v"
    using assms take_bit_int_eq_self [of v 32] take_bit_int_eq_self [of v 64] by (simp_all add: unsigned_of_int)
  then show ?thesis using False by (simp add: VarintSize32SignExtended_def VarintSize32_length)
qed

section \<open>Little-endian accessors\<close>

lemma memcpy_to_put: "memcpy_to mem (int t) bs = (if t + length bs \<le> length mem then Some (put_bytes t bs mem) else None)"
  by (simp add: memcpy_to_def arr_copy_def put_bytes_def nat_add_distrib)

lemma length_object_bytes: "length (object_bytes (w :: 'a::len word)) = LENGTH('a) div 8"
  by (simp add: object_bytes_def)

lemma object_of_bytes_map:
  "object_of_bytes (map (\<lambda>i. ucast (drop_bit (8 * (i + k)) w)) [0..<n]) = take_bit (8 * n) (drop_bit (8 * k) w)"
proof (induction n arbitrary: k)
  case (Suc n)
  have "map (\<lambda>i. ucast (drop_bit (8 * (i + k)) w)) [0..<Suc n] =
      (ucast (drop_bit (8 * k) w) :: byte) # map (\<lambda>i. ucast (drop_bit (8 * (i + Suc k)) w)) [0..<n]"
    by (simp only: map_upt_Suc) simp
  then have "object_of_bytes (map (\<lambda>i. ucast (drop_bit (8 * (i + k)) w)) [0..<Suc n]) =
      ucast (ucast (drop_bit (8 * k) w) :: byte) OR push_bit 8 (take_bit (8 * n) (drop_bit (8 * Suc k) w))"
    by (simp only: object_of_bytes.simps Suc)
  also have "\<dots> = take_bit (8 * Suc n) (drop_bit (8 * k) w)"
    by (rule bit_eqI) (auto simp: bit_simps ac_simps)
  finally show ?case .
qed simp

lemma object_roundtrip: "8 dvd LENGTH('a) \<Longrightarrow> object_of_bytes (object_bytes w) = (w :: 'a::len word)"
  using object_of_bytes_map [of 0 w "LENGTH('a) div 8"] by (simp add: object_bytes_def)

lemma writes_LE32: "writes (WriteLittleEndian32ToArray v) (object_bytes v)"
  by (simp add: writes_def WriteLittleEndian32ToArray_def memcpy_to_put length_object_bytes)

lemma writes_LE64: "writes (WriteLittleEndian64ToArray v) (object_bytes v)"
  by (simp add: writes_def WriteLittleEndian64ToArray_def memcpy_to_put length_object_bytes)

primrec write_each :: "byte list \<Rightarrow> int \<Rightarrow> byte list \<Rightarrow> (int \<times> byte list) option" where
  "write_each [] t mem = Some (t, mem)"
| "write_each (b # bs) t mem = do { mem \<leftarrow> arr_set mem t b; write_each bs (t + 1) mem }"

lemma writes_Cons: "writes w bs \<Longrightarrow> writes (\<lambda>t mem. do { mem \<leftarrow> arr_set mem t b; w (t + 1) mem }) (b # bs)"
  using writes_bind [OF writes_set [of b], of w bs] by simp

lemma writes_each: "bs \<noteq> [] \<Longrightarrow> writes (write_each bs) bs"
proof (induction bs)
  case (Cons b bs)
  show ?case
  proof (cases "bs = []")
    case True
    then show ?thesis using writes_set [of b] by simp
  next
    case False
    then show ?thesis using writes_Cons [OF Cons.IH] by simp
  qed
qed simp

lemma writes_LE32_portable: "writes (WriteLittleEndian32ToArray_portable v) (object_bytes v)"
proof -
  have bs: "object_bytes v = [ucast v, ucast (drop_bit 8 v), ucast (drop_bit 16 v), ucast (drop_bit 24 v)]"
    by (simp add: object_bytes_def upt_rec)
  have "WriteLittleEndian32ToArray_portable v = write_each (object_bytes v)"
    unfolding bs by (intro ext) (simp add: WriteLittleEndian32ToArray_portable_def add.commute)
  then show ?thesis using writes_each [of "object_bytes v"] by (simp add: bs)
qed

lemma writes_LE64_portable: "writes (WriteLittleEndian64ToArray_portable v) (object_bytes v)"
proof -
  have bs: "object_bytes v = [ucast v, ucast (drop_bit 8 v), ucast (drop_bit 16 v), ucast (drop_bit 24 v),
      ucast (drop_bit 32 v), ucast (drop_bit 40 v), ucast (drop_bit 48 v), ucast (drop_bit 56 v)]"
    by (simp add: object_bytes_def upt_rec)
  have parts: "(ucast (drop_bit n (ucast v :: 32 word)) :: byte) = ucast (drop_bit n v)" if "n \<le> 24" for n
    using that by (intro bit_eqI) (auto simp: bit_simps)
  have high: "(ucast (drop_bit n (ucast (drop_bit 32 v) :: 32 word)) :: byte) = ucast (drop_bit (32 + n) v)" if "n \<le> 24" for n
    using that by (intro bit_eqI) (auto simp: bit_simps ac_simps)
  have "WriteLittleEndian64ToArray_portable v = write_each (object_bytes v)"
    unfolding bs using parts [of 0] high [of 0]
    by (intro ext) (simp add: WriteLittleEndian64ToArray_portable_def parts high Let_def add.commute)
  then show ?thesis using writes_each [of "object_bytes v"] by (simp add: bs)
qed

lemma memcpy_from_nth:
  "memcpy_from mem (int p) n = (if p + n \<le> length mem then Some (map (\<lambda>i. mem ! (p + i)) [0..<n]) else None)"
  by (auto simp: memcpy_from_def intro: nth_equalityI)

lemma memcpy_from_drop:
  assumes "drop p mem = bs @ rest" "p \<le> length mem"
  shows "memcpy_from mem (int p) (length bs) = Some bs"
proof -
  have "length mem - p = length bs + length rest"
    using assms(1) by (metis length_append length_drop)
  then show ?thesis using assms by (simp add: memcpy_from_def)
qed

lemma ReadLE_at:
  fixes v :: "'a::len word"
  assumes "drop p mem = object_bytes v @ rest" "8 dvd LENGTH('a)"
  shows "do { bs \<leftarrow> memcpy_from mem (int p) (LENGTH('a) div 8); Some (object_of_bytes bs, q) } = Some (v, q)"
proof (cases "p \<le> length mem")
  case True
  then show ?thesis
    using memcpy_from_drop [OF assms(1)] object_roundtrip [OF assms(2)] by (simp add: length_object_bytes)
next
  case False
  then have "LENGTH('a) div 8 = 0" using assms(1) length_object_bytes [of v] by simp
  then show ?thesis using assms(2) by (metis dvd_div_eq_0_iff len_not_eq_0)
qed

lemma ReadLE32_at: "drop p mem = object_bytes v @ rest \<Longrightarrow> ReadLittleEndian32FromArray mem (int p) = Some (v, int p + 4)"
  using ReadLE_at [of p mem v rest] by (simp add: ReadLittleEndian32FromArray_def)

lemma ReadLE64_at: "drop p mem = object_bytes v @ rest \<Longrightarrow> ReadLittleEndian64FromArray mem (int p) = Some (v, int p + 8)"
  using ReadLE_at [of p mem v rest] by (simp add: ReadLittleEndian64FromArray_def)

lemma arr_get_offset: "arr_get mem (int p + numeral k) = (if p + numeral k < length mem then Some (mem ! (p + numeral k)) else None)"
  using arr_get_int [of mem "p + numeral k"] by simp

lemma arr_get_next: "arr_get mem (int p + 1) = (if p + 1 < length mem then Some (mem ! (p + 1)) else None)"
  using arr_get_int [of mem "p + 1"] by (simp add: add.commute)

lemma ReadLE32_portable: "ReadLittleEndian32FromArray_portable mem (int p) = ReadLittleEndian32FromArray mem (int p)"
  by (auto simp: ReadLittleEndian32FromArray_portable_def ReadLittleEndian32FromArray_def memcpy_from_nth
      arr_get_offset arr_get_next upt_rec push_bit_or push_bit_push_bit numeral_3_eq_3)

lemma bit_object_of_bytes:
  "bit (object_of_bytes bs :: 'a::len word) n \<longleftrightarrow> n < LENGTH('a) \<and> n div 8 < length bs \<and> bit (bs ! (n div 8)) (n mod 8)"
proof (induction bs arbitrary: n)
  case (Cons b bs)
  show ?case
  proof (cases "n < 8")
    case False
    then obtain m where n: "n = 8 + m" using le_Suc_ex not_less by blast
    have "\<not> bit b n" using False by (auto dest: bit_imp_le_length)
    moreover have "(8 + m) div 8 = Suc (m div 8)" by simp
    ultimately show ?thesis by (auto simp: bit_simps Cons n simp del: div_add_self1)
  qed (auto simp: bit_simps)
qed simp

lemma object_of_bytes_split:
  assumes "length xs = 4" "length ys \<le> 4"
  shows "(object_of_bytes (xs @ ys) :: 64 word) =
     ucast (object_of_bytes xs :: 32 word) OR push_bit 32 (ucast (object_of_bytes ys :: 32 word))"
proof (rule bit_word_eqI)
  fix n assume "n < LENGTH(64)"
  show "bit (object_of_bytes (xs @ ys) :: 64 word) n =
      bit (ucast (object_of_bytes xs :: 32 word) OR push_bit 32 (ucast (object_of_bytes ys :: 32 word)) :: 64 word) n"
  proof (cases "n < 32")
    case True
    then have "n div 8 < 4" by simp
    then show ?thesis using True assms by (simp add: bit_simps bit_object_of_bytes nth_append)
  next
    case False
    then obtain m where n: "n = 32 + m" using le_Suc_ex not_less by blast
    have "(32 + m) div 8 = 4 + m div 8" "(32 + m) mod 8 = m mod 8" by presburger+
    then show ?thesis using assms \<open>n < LENGTH(64)\<close>
      by (auto simp: bit_simps bit_object_of_bytes nth_append n)
  qed
qed

lemma ReadLE64_portable: "ReadLittleEndian64FromArray_portable mem (int p) = ReadLittleEndian64FromArray mem (int p)"
proof -
  have q: "int p + 4 = int (p + 4)" by simp
  have eight: "map (\<lambda>i. mem ! (p + i)) [0..<8] = map (\<lambda>i. mem ! (p + i)) [0..<4] @ map (\<lambda>i. mem ! (p + 4 + i)) [0..<4]"
    by (simp add: upt_rec eval_nat_numeral)
  show ?thesis
    unfolding ReadLittleEndian64FromArray_portable_def q ReadLE32_portable
    by (simp add: ReadLittleEndian32FromArray_def ReadLittleEndian64FromArray_def memcpy_from_nth
        eight object_of_bytes_split del: object_of_bytes.simps of_nat_add)
qed

section \<open>Sizes read from the wire\<close>

text \<open>What the continuation bits of the first \<open>i\<close> bytes add to the accumulator.\<close>

definition continuation :: "nat \<Rightarrow> int" where
  "continuation i = (\<Sum>j<i. 128 * 2 ^ (7 * j))"

lemma continuation_simps [simp]:
  "continuation 0 = 0" "continuation (Suc i) = continuation i + 128 * 2 ^ (7 * i)"
  by (simp_all add: continuation_def)

lemma continuation_4: "continuation 4 = 270549120"
  by (simp add: numeral_eq_Suc)

lemma sint_small: "0 \<le> z \<Longrightarrow> z < 2 ^ 31 \<Longrightarrow> int32_of (word_of_int z) = z"
  by (simp add: int32_of_def signed_of_int signed_take_bit_int_eq_self)

lemma sint_wrap: "2 ^ 31 \<le> z \<Longrightarrow> z < 2 ^ 32 \<Longrightarrow> int32_of (word_of_int z) = z - 2 ^ 32"
proof -
  assume z: "2 ^ 31 \<le> z" "z < 2 ^ 32"
  have "(word_of_int z :: 32 word) = word_of_int (z - 2 ^ 32)"
    by (simp add: word_of_int_eq_iff take_bit_eq_mod)
  then have "int32_of (word_of_int z) = signed_take_bit 31 (z - 2 ^ 32)"
    by (simp only: int32_of_def signed_of_int) simp
  then show ?thesis using z signed_take_bit_int_eq_self [of 31 "z - 2 ^ 32"] by simp
qed

lemma res_step:
  assumes "unat (b :: byte) = n" "0 \<le> x" "x + int n * 2 ^ (7 * i) < 2 ^ 31"
  shows "int32_of (word_of_int x + push_bit (i * 7) (ucast b)) = x + int n * 2 ^ (7 * i)"
proof -
  have "word_of_int x + push_bit (i * 7) (ucast b :: 32 word) = word_of_int (x + int (unat b) * 2 ^ (7 * i))"
    by (simp add: push_bit_eq_mult mult.commute)
  then show ?thesis using assms by (simp only:) (intro sint_small, simp_all)
qed

lemma ucast_of_int_down: "LENGTH('a) \<le> LENGTH('b) \<Longrightarrow> (ucast (word_of_int z :: 'b::len word) :: 'a::len word) = word_of_int z"
  by (simp add: unsigned_of_int word_of_int_eq_iff take_bit_take_bit min_def)

lemma extra_step: "0 \<le> x \<Longrightarrow> x + 128 * 2 ^ (7 * i) < 2 ^ 31 \<Longrightarrow>
    int32_of (ucast (word_of_int x + push_bit (i * 7) (128 :: 64 word))) = x + 128 * 2 ^ (7 * i)"
proof -
  assume x: "0 \<le> x" "x + 128 * 2 ^ (7 * i) < 2 ^ 31"
  have "word_of_int x + push_bit (i * 7) (128 :: 64 word) = word_of_int (x + 128 * 2 ^ (7 * i))"
    by (simp add: push_bit_eq_mult mult.commute)
  moreover have "(ucast (word_of_int (x + 128 * 2 ^ (7 * i)) :: 64 word) :: 32 word) = word_of_int (x + 128 * 2 ^ (7 * i))"
    by (rule ucast_of_int_down) simp
  ultimately show ?thesis using x by (simp only:) (intro sint_small, simp_all)
qed

lemma loop_bounds:
  assumes "i < 4" "low < 2 ^ (7 * i)" "b < 256"
  shows "continuation i + int low + int b * 2 ^ (7 * i) < 2 ^ 31" "continuation i + 128 * 2 ^ (7 * i) < 2 ^ 31"
    "0 \<le> continuation i"
proof -
  have low: "int low < 2 ^ (7 * i)" using assms(2) by (metis of_nat_less_iff of_nat_numeral of_nat_power)
  have b: "int b \<le> 255" using assms(3) by simp
  have i: "i = 0 \<or> i = 1 \<or> i = 2 \<or> i = 3" using assms(1) by linarith
  have c: "continuation 1 = 128" "continuation 2 = 16512" "continuation 3 = 2113664"
    by (simp_all add: continuation_def lessThan_nat_numeral lessThan_Suc)
  show "continuation i + int low + int b * 2 ^ (7 * i) < 2 ^ 31"
    using i low b by (elim disjE) (simp_all add: c [unfolded One_nat_def])
  show "continuation i + 128 * 2 ^ (7 * i) < 2 ^ 31" "0 \<le> continuation i"
    using i by (elim disjE; simp add: c [unfolded One_nat_def])+
qed

lemma drop_next: "drop n mem = b # bs \<Longrightarrow> drop (Suc n) mem = bs"
  by (metis drop_Suc list.sel(3) tl_drop)

lemma c_int_nat: "n < 2 ^ 31 \<Longrightarrow> c_int (int n) = Some (int n)"
  by (simp add: c_int_def)

lemma digit_bound: "low < 2 ^ (7 * i) \<Longrightarrow> d < 128 \<Longrightarrow> low + d * 2 ^ (7 * i) < (2::nat) ^ (7 * Suc i)"
proof -
  assume "low < 2 ^ (7 * i)" "d < 128"
  then have "low + d * 2 ^ (7 * i) < Suc d * 2 ^ (7 * i)" by simp
  also have "\<dots> \<le> 128 * 2 ^ (7 * i)" using \<open>d < 128\<close> by (intro mult_right_mono) auto
  finally show ?thesis by (simp add: power_add)
qed

lemma read_size_loop_stop:
  assumes "drop (p + i) mem = of_nat m # rest" "m < 128" "i < 4" "low < 2 ^ (7 * i)"
  shows "read_size_loop (Suc k) i (continuation i + int low) (continuation i) mem (int p) =
     Some (Inl (int (low + m * 2 ^ (7 * i)), int (p + Suc i)))"
proof -
  have get: "arr_get mem (int p + int i) = Some (of_nat m)"
    using arr_get_drop [OF assms(1)] by simp
  have u: "unat (of_nat m :: byte) = m" using assms(2) by (simp add: unat_byte)
  have "low + m * 2 ^ (7 * i) < 2 ^ (7 * Suc i)" using digit_bound assms by blast
  also have "(2::nat) ^ (7 * Suc i) \<le> 2 ^ 28" using assms(3) by (intro power_increasing) auto
  finally have small: "low + m * 2 ^ (7 * i) < 2 ^ 31" by simp
  have "int32_of (word_of_int (continuation i + int low) + push_bit (i * 7) (ucast (of_nat m :: byte))) =
      continuation i + int (low + m * 2 ^ (7 * i))"
    using loop_bounds [OF assms(3,4), of m] assms(2)
    by (subst res_step [OF u]) simp_all
  then show ?thesis
    using assms(2) c_int_nat [OF small] by (simp add: get u unat_ucast_byte Let_def)
qed

lemma read_size_loop_continue:
  assumes "drop (p + i) mem = of_nat (m mod 128 + 128) # rest" "i < 4" "low < 2 ^ (7 * i)"
  shows "read_size_loop (Suc k) i (continuation i + int low) (continuation i) mem (int p) =
     read_size_loop k (Suc i) (continuation (Suc i) + int (low + m mod 128 * 2 ^ (7 * i))) (continuation (Suc i)) mem (int p)"
proof -
  have get: "arr_get mem (int p + int i) = Some (of_nat (m mod 128 + 128))"
    using arr_get_drop [OF assms(1)] by simp
  have u: "unat (of_nat (m mod 128 + 128) :: byte) = m mod 128 + 128" by (intro unat_byte) simp
  have res: "int32_of (word_of_int (continuation i + int low) + push_bit (i * 7) (ucast (of_nat (m mod 128 + 128) :: byte))) =
      continuation (Suc i) + int (low + m mod 128 * 2 ^ (7 * i))"
    using loop_bounds [OF assms(2,3), of "m mod 128 + 128"]
    by (subst res_step [OF u]) (simp_all add: algebra_simps)
  have "int32_of (ucast (word_of_int (continuation i) + push_bit (i * 7) (128 :: 64 word))) = continuation (Suc i)"
    using loop_bounds [OF assms(2,3), of 0] by (subst extra_step) simp_all
  then show ?thesis
    using res by (simp add: get u unat_ucast_byte Let_def del: of_nat_add continuation_simps)
qed

lemma read_size_loop_varint:
  assumes "drop (p + i) mem = varint m @ rest" "i + k = 4" "low < 2 ^ (7 * i)"
  shows "read_size_loop k i (continuation i + int low) (continuation i) mem (int p) =
     (if length (varint m) \<le> k then Some (Inl (int (low + m * 2 ^ (7 * i)), int (p + i + length (varint m))))
      else Some (Inr (continuation 4 + int (low + m mod 2 ^ (7 * k) * 2 ^ (7 * i)), continuation 4)))"
  using assms
proof (induction k arbitrary: i low m)
  case 0
  then show ?case by simp
next
  case (Suc k)
  show ?case
  proof (cases "m < 128")
    case True
    then show ?thesis using Suc.prems read_size_loop_stop [of p i mem m rest low k] by simp
  next
    case False
    then have v: "varint m = of_nat (m mod 128 + 128) # varint (m div 128)" by (simp add: varint_big)
    have d: "drop (p + i) mem = of_nat (m mod 128 + 128) # varint (m div 128) @ rest"
      using Suc.prems(1) v by simp
    have dn: "drop (p + Suc i) mem = varint (m div 128) @ rest" using drop_next [OF d] by simp
    have "low + m mod 128 * 2 ^ (7 * i) < 2 ^ (7 * Suc i)" using digit_bound Suc.prems(3) by simp
    note IH = Suc.IH [OF dn _ this]
    have "m mod 2 ^ (7 * Suc k) = m mod 128 + 128 * (m div 128 mod 2 ^ (7 * k))"
      using mod_mult2_eq [of m 128 "2 ^ (7 * k)"] by (simp add: power_add)
    moreover have "m * 2 ^ (7 * i) = m mod 128 * 2 ^ (7 * i) + m div 128 * 2 ^ (7 * Suc i)"
    proof -
      have "m * 2 ^ (7 * i) = (m mod 128 + 128 * (m div 128)) * 2 ^ (7 * i)" by simp
      also have "\<dots> = m mod 128 * 2 ^ (7 * i) + m div 128 * 2 ^ (7 * Suc i)"
        unfolding add_mult_distrib by (simp add: power_add)
      finally show ?thesis .
    qed
    ultimately show ?thesis
      using read_size_loop_continue [OF d _ Suc.prems(3), of k] IH Suc.prems(2) v
      by (simp add: algebra_simps power_add del: continuation_simps)
  qed
qed

lemma varint_length_bound: "n < 2 ^ (7 * length (varint n))"
proof (induction n rule: varint.induct)
  case (1 n)
  show ?case
  proof (cases "n < 128")
    case False
    then have "n div 128 < 2 ^ (7 * length (varint (n div 128)))" using 1 by simp
    then have "n < 128 * 2 ^ (7 * length (varint (n div 128)))"
      by (simp add: div_less_iff_less_mult mult.commute)
    then show ?thesis using False by (simp add: varint_big power_add)
  qed simp
qed

lemma drop_varint: "k < length (varint n) \<Longrightarrow> drop k (varint n) = varint (n div 2 ^ (7 * k))"
proof (induction k arbitrary: n)
  case (Suc k)
  then have "128 \<le> n" by (cases "n < 128") auto
  then show ?case using Suc by (simp add: varint_big div_mult2_eq [symmetric] power_add)
qed simp

lemma ReadSize_long:
  assumes at: "drop p mem = varint n @ rest" and long: "4 < length (varint n)"
  shows "ReadSize mem (int p) =
    (if n < 2 ^ 31 - 270549120 then Some (Some (int n), Some (int (p + 5)))
     else if n < 2 ^ 31 then None else Some (None, None))"
proof -
  have "\<not> n < 2 ^ 28" using long length_varint_le [of n 3] by auto
  then have big: "2 ^ 28 \<le> n" by simp
  have loop: "read_size_loop 4 0 0 0 mem (int p) = Some (Inr (270549120 + int (n mod 2 ^ 28), 270549120))"
    using read_size_loop_varint [of p 0 mem n rest 4 0] at long by (simp add: continuation_4)
  have "drop (p + 4) mem = drop 4 (varint n @ rest)" using at by (metis add.commute drop_drop)
  also have "\<dots> = varint (n div 2 ^ 28) @ rest" using long drop_varint [of 4 n] by simp
  finally have at4: "drop (p + 4) mem = varint (n div 2 ^ 28) @ rest" .
  show ?thesis
  proof (cases "n < 2 ^ 31")
    case True
    then have d: "n div 2 ^ 28 < 8" by (simp add: div_less_iff_less_mult)
    then have get: "arr_get mem (int p + 4) = Some (of_nat (n div 2 ^ 28))"
      using at4 arr_get_drop [of "p + 4" mem] by simp
    have u: "unat (of_nat (n div 2 ^ 28) :: byte) = n div 2 ^ 28" using d by (intro unat_byte) simp
    have "word_of_int (270549120 + int (n mod 2 ^ 28)) + push_bit (4 * 7) (ucast (of_nat (n div 2 ^ 28) :: byte)) =
        (word_of_int (270549120 + int n) :: 32 word)"
    proof -
      have "(ucast (of_nat (n div 2 ^ 28) :: byte) :: 32 word) = of_nat (n div 2 ^ 28)"
        by (simp only: ucast_byte u)
      moreover have "(of_nat n :: 32 word) = of_nat (n mod 2 ^ 28) + of_nat (n div 2 ^ 28 * 2 ^ (4 * 7))"
        by (simp only: of_nat_add [symmetric]) (simp add: mod_div_mult_eq)
      moreover have "word_of_int (270549120 + int m) = (270549120 + of_nat m :: 32 word)" for m by simp
      ultimately show ?thesis by (simp only: push_bit_of_nat add.assoc)
    qed
    then have res: "int32_of (word_of_int (270549120 + int (n mod 2 ^ 28)) + push_bit (4 * 7) (ucast (of_nat (n div 2 ^ 28) :: byte))) =
        (if n < 2 ^ 31 - 270549120 then 270549120 + int n else 270549120 + int n - 2 ^ 32)"
      using True sint_small [of "270549120 + int n"] sint_wrap [of "270549120 + int n"] by (simp only: split: if_split) simp
    have u32: "unat (ucast (of_nat (n div 2 ^ 28) :: byte) :: 32 word) = n div 2 ^ 28"
      using u by (subst unat_ucast_byte) simp_all
    show ?thesis
      using True d
      by (simp only: ReadSize_def loop bind.bind_lunit sum.case prod.case get Let_def res u32)
        (simp add: c_int_def)
  next
    case False
    then have d: "8 \<le> n div 2 ^ 28" by (simp add: less_eq_div_iff_mult_less_eq)
    obtain b bs where b: "varint (n div 2 ^ 28) = b # bs" "8 \<le> unat b"
    proof (cases "n div 2 ^ 28 < 128")
      case True
      then show thesis using that [of "of_nat (n div 2 ^ 28)" "[]"] d unat_byte [of "n div 2 ^ 28"] by simp
    next
      case False
      then show thesis
        using that [of "of_nat (n div 2 ^ 28 mod 128 + 128)"] unat_byte [of "n div 2 ^ 28 mod 128 + 128"]
        by (simp add: varint_big)
    qed
    have get: "arr_get mem (int p + 4) = Some b"
      using at4 b(1) arr_get_drop [of "p + 4" mem] by simp
    have "8 \<le> unat (ucast b :: 32 word)" using b(2) by (subst unat_ucast_byte) simp_all
    then show ?thesis
      using False by (simp only: ReadSize_def loop bind.bind_lunit sum.case prod.case get Let_def) simp
  qed
qed

lemma ReadSize_varint:
  assumes "drop p mem = varint n @ rest"
  shows "ReadSize mem (int p) =
    (if n < 2 ^ 31 - 270549120 then Some (Some (int n), Some (int (p + length (varint n))))
     else if n < 2 ^ 31 then None else Some (None, None))"
proof (cases "length (varint n) \<le> 4")
  case True
  then have "n < 2 ^ 28"
    using varint_length_bound [of n] power_increasing [of "7 * length (varint n)" 28 "2::nat"] by simp
  moreover have "read_size_loop 4 0 0 0 mem (int p) = Some (Inl (int n, int (p + length (varint n))))"
    using read_size_loop_varint [of p 0 mem n rest 4 0] assms True by simp
  ultimately show ?thesis by (simp add: ReadSize_def)
next
  case False
  have "length (varint n) = 5" if "n < 2 ^ 31 - 270549120"
    using False length_varint_le [of n 4] that by simp
  then show ?thesis using ReadSize_long [OF assms] False by simp
qed

section \<open>Properties\<close>

text \<open>
  C25: The varint parser is the reference decoder. On every array and position, \<open>Parse32\<close> and
  \<open>Parse64\<close> read the shortest terminated prefix of at most 5 and 10 bytes, also when it is not
  the canonical encoding, return its value truncated to the width and the pointer past it,
  return \<open>nullptr\<close> when all those bytes are continued, and read outside the array only when it
  ends before either happens.
\<close>

theorem varint_parse_is_reference:
  "Parse32 mem (int p) = (case varint_ref 5 (drop p mem) of
      None \<Rightarrow> None
    | Some None \<Rightarrow> Some (0, None)
    | Some (Some (n, l)) \<Rightarrow> Some (of_nat n, Some (int (p + l)))) \<and>
   Parse64 mem (int p) = (case varint_ref 10 (drop p mem) of
      None \<Rightarrow> None
    | Some None \<Rightarrow> Some (0, None)
    | Some (Some (n, l)) \<Rightarrow> Some (of_nat n, Some (int (p + l))))"
  by (simp add: Parse32_def Parse64_def VarintParse_ref parsed_def split: option.split)

text \<open>
  C24: Writing and parsing a varint is the identity. Where the encoding of a 32- or 64-bit value
  fits into the array, the writer stores \<open>VarintSize32\<close> or \<open>VarintSize64\<close> many bytes, at most 5
  or 10, changes nothing else, and the parser then returns the value and the same pointer;
  where it does not fit, the writer leaves the array.
\<close>

theorem varint_write_parse_roundtrip:
  "(\<exists>l. VarintSize32 v = Some l \<and> l \<le> 5 \<and>
      (if t + l \<le> length mem
       then \<exists>mem'. WriteVarint32ToArray v (int t) mem = Some (int (t + l), mem') \<and>
              length mem' = length mem \<and> take t mem' = take t mem \<and> drop (t + l) mem' = drop (t + l) mem \<and>
              Parse32 mem' (int t) = Some (v, Some (int (t + l)))
       else WriteVarint32ToArray v (int t) mem = None)) \<and>
   (\<exists>l. VarintSize64 w = Some l \<and> l \<le> 10 \<and>
      (if t + l \<le> length mem
       then \<exists>mem'. WriteVarint64ToArray w (int t) mem = Some (int (t + l), mem') \<and>
              length mem' = length mem \<and> take t mem' = take t mem \<and> drop (t + l) mem' = drop (t + l) mem \<and>
              Parse64 mem' (int t) = Some (w, Some (int (t + l)))
       else WriteVarint64ToArray w (int t) mem = None))"
proof -
  have frame: "take t (put_bytes t bs mem) = take t mem"
    "drop (t + length bs) (put_bytes t bs mem) = drop (t + length bs) mem" if "t + length bs \<le> length mem" for bs
    using that by (simp_all add: put_bytes_def)
  have "Parse32 (put_bytes t (varint (unat v)) mem) (int t) = Some (v, Some (int (t + length (varint (unat v)))))"
    if "t + length (varint (unat v)) \<le> length mem"
    using that length_varint_32 [of v]
    by (simp add: Parse32_def VarintParse_ref read_put_bytes varint_ref_varint parsed_def)
  moreover have "Parse64 (put_bytes t (varint (unat w)) mem) (int t) = Some (w, Some (int (t + length (varint (unat w)))))"
    if "t + length (varint (unat w)) \<le> length mem"
    using that length_varint_64 [of w]
    by (simp add: Parse64_def VarintParse_ref read_put_bytes varint_ref_varint parsed_def)
  ultimately show ?thesis
    using writesD [OF writes_varint_loop, of v t mem] writesD [OF writes_varint_loop, of w t mem]
      length_varint_32 [of v] length_varint_64 [of w]
    by (simp add: WriteVarint32ToArray_def WriteVarint64ToArray_def varint_simps frame length_put_bytes)
qed

text \<open>
  The size computations agree. The branch-free \<open>VarintSize32\<close>, built on a count of leading
  zeros, the compile-time comparison chain \<open>StaticVarintSize32\<close>, and for non-zero arguments the
  portable search for the highest bit all give the length of the encoding; a negative number
  written sign-extended takes 10 bytes.
\<close>

theorem varint_sizes_agree:
  "VarintSize32 v = Some (StaticVarintSize32 v) \<and> StaticVarintSize32 v = length (varint (unat v)) \<and>
   Log2FloorNonZero_Portable (v OR 1) = map_option uint (Log2FloorNonZero (v OR 1)) \<and>
   Log2FloorNonZero64_Portable (w OR 1) = map_option uint (Log2FloorNonZero64 (w OR 1)) \<and>
   VarintSize32SignExtended (sint v) = VarintSize64 (word_of_int (sint v))"
proof -
  have "- (2 ^ 31) \<le> sint v" "sint v < 2 ^ 31"
    using sint_greater_eq [of v] sint_less [of v] by simp_all
  then have "VarintSize32SignExtended (sint v) = VarintSize64 (word_of_int (sint v))"
    by (simp add: VarintSize32SignExtended_length VarintSize64_length)
  moreover have "v OR 1 \<noteq> 0" "w OR 1 \<noteq> 0"
    using bit_or_iff [of v 1 0] bit_or_iff [of w 1 0] by (auto simp: bit_1_iff)
  ultimately show ?thesis
    by (simp add: varint_simps Log2_portable_agrees Log2_64_portable_agrees)
qed

text \<open>
  C39: Reading a length prefix overflows. On the canonical encoding of a size below
  \<open>2 ^ 31 - 270549120\<close> \<open>ReadSize\<close> returns it; a size of \<open>2 ^ 31\<close> or more is refused with
  \<open>nullptr\<close>. For the sizes in between, up to \<open>INT_MAX\<close>, which the comment in the code admits,
  the final subtraction of \<open>int32\<close> values overflows, so the result is undefined.
\<close>

theorem read_size_signed_overflow:
  "drop p mem = varint n @ rest \<Longrightarrow>
     (n < 1876934528 \<longrightarrow> ReadSize mem (int p) = Some (Some (int n), Some (int (p + length (varint n))))) \<and>
     (1876934528 \<le> n \<and> n < 2 ^ 31 \<longrightarrow> ReadSize mem (int p) = None) \<and>
     (2 ^ 31 \<le> n \<longrightarrow> ReadSize mem (int p) = Some (None, None))"
  by (simp add: ReadSize_varint)

theorem read_size_signed_overflow_witness:
  "ReadSize [0xFF, 0xFF, 0xFF, 0xFF, 0x07] 0 = None \<and> ReadSize [0x80, 0x80, 0x80, 0x80, 0x08] 0 = Some (None, None) \<and>
   ReadSize [0xAC, 0x02] 0 = Some (Some 300, Some 2)"
proof -
  have "varint 2147483647 = [0xFF, 0xFF, 0xFF, 0xFF, 0x07]" "varint 2147483648 = [0x80, 0x80, 0x80, 0x80, 0x08]"
    "varint 300 = [0xAC, 0x02]"
    by (simp_all add: varint_big)
  then show ?thesis
    using read_size_signed_overflow [of 0 "[0xFF, 0xFF, 0xFF, 0xFF, 0x07]" 2147483647 "[]"]
      read_size_signed_overflow [of 0 "[0x80, 0x80, 0x80, 0x80, 0x08]" 2147483648 "[]"]
      read_size_signed_overflow [of 0 "[0xAC, 0x02]" 300 "[]"]
    by simp
qed

text \<open>
  The two compilations of the little-endian accessors agree and are inverse. At every
  position the \<open>memcpy\<close> variant selected by \<open>PROTOBUF_LITTLE_ENDIAN\<close> and the bytewise variant
  return the same, reads and writes, also when the value does not fit; reading back a written
  value gives the value.
\<close>

theorem little_endian_variants_agree:
  "WriteLittleEndian32ToArray v (int t) mem = WriteLittleEndian32ToArray_portable v (int t) mem \<and>
   WriteLittleEndian64ToArray w (int t) mem = WriteLittleEndian64ToArray_portable w (int t) mem \<and>
   ReadLittleEndian32FromArray mem (int t) = ReadLittleEndian32FromArray_portable mem (int t) \<and>
   ReadLittleEndian64FromArray mem (int t) = ReadLittleEndian64FromArray_portable mem (int t) \<and>
   do { (q, mem') \<leftarrow> WriteLittleEndian32ToArray v (int t) mem; ReadLittleEndian32FromArray mem' (int t) } =
     (if t + 4 \<le> length mem then Some (v, int t + 4) else None) \<and>
   do { (q, mem') \<leftarrow> WriteLittleEndian64ToArray w (int t) mem; ReadLittleEndian64FromArray mem' (int t) } =
     (if t + 8 \<le> length mem then Some (w, int t + 8) else None)"
  using ReadLE32_at [of t "put_bytes t (object_bytes v) mem" v] ReadLE64_at [of t "put_bytes t (object_bytes w) mem" w]
  by (simp add: writesD [OF writes_LE32] writesD [OF writes_LE64] writesD [OF writes_LE32_portable]
      writesD [OF writes_LE64_portable] ReadLE32_portable ReadLE64_portable length_object_bytes read_put_bytes)

end
