(* ===== verification/Coded_Stream.thy ===== *)
theory Coded_Stream
  imports Varint
begin

text \<open>
  \<open>CodedInputStream\<close> and \<open>CodedOutputStream\<close> of \<open>google/protobuf/io/coded_stream.h\<close>: the inline
  members that work on the current buffer. The members the header only declares (refilling
  the buffer, the fallbacks for varints, the limits, raw copies) belong to \<open>coded_stream.cc\<close>,
  which is not part of the sources; they are fields of the records \<open>input_cc\<close> and
  \<open>output_cc\<close>, and \<open>input_cc_laws\<close> states what the header's comments promise of them.
  A member that stores through a pointer and returns \<open>bool\<close> returns the pair of both.

  The lemmas show that the fast paths and the fallbacks read the same values, that the
  combined test of \<open>ReadTagWithCutoff\<close> and the shortcut of \<open>ExpectTag\<close> agree with \<open>ReadTag\<close>, and
  that the recursion budget counts the open messages.
\<close>

section \<open>The input stream\<close>

record 'i coded_input_stream =
  cis_mem :: "byte list"
  cis_buffer :: int
  cis_buffer_end :: int
  cis_input :: "'i option"
  cis_total_bytes_read :: int
  cis_overflow_bytes :: int
  cis_last_tag :: "32 word"
  cis_legitimate_message_end :: bool
  cis_aliasing_enabled :: bool
  cis_current_limit :: int
  cis_buffer_size_after_limit :: int
  cis_total_bytes_limit :: int
  cis_recursion_budget :: int
  cis_recursion_limit :: int
  cis_extension_pool :: "nat option"
  cis_extension_factory :: "nat option"

record 'i input_cc =
  cc_Refresh :: "'i coded_input_stream \<Rightarrow> (bool \<times> 'i coded_input_stream) option"
  cc_SkipFallback :: "int \<Rightarrow> int \<Rightarrow> 'i coded_input_stream \<Rightarrow> (bool \<times> 'i coded_input_stream) option"
  cc_ReadVarint32Fallback :: "32 word \<Rightarrow> 'i coded_input_stream \<Rightarrow> (int \<times> 'i coded_input_stream) option"
  cc_ReadVarint64Fallback :: "'i coded_input_stream \<Rightarrow> ((64 word \<times> bool) \<times> 'i coded_input_stream) option"
  cc_ReadVarintSizeAsIntFallback :: "'i coded_input_stream \<Rightarrow> (int \<times> 'i coded_input_stream) option"
  cc_ReadLittleEndian32Fallback :: "'i coded_input_stream \<Rightarrow> ((32 word \<times> bool) \<times> 'i coded_input_stream) option"
  cc_ReadLittleEndian64Fallback :: "'i coded_input_stream \<Rightarrow> ((64 word \<times> bool) \<times> 'i coded_input_stream) option"
  cc_ReadTagFallback :: "32 word \<Rightarrow> 'i coded_input_stream \<Rightarrow> (32 word \<times> 'i coded_input_stream) option"
  cc_ReadRaw :: "int \<Rightarrow> 'i coded_input_stream \<Rightarrow> ((byte list \<times> bool) \<times> 'i coded_input_stream) option"
  cc_PushLimit :: "int \<Rightarrow> 'i coded_input_stream \<Rightarrow> (int \<times> 'i coded_input_stream) option"
  cc_PopLimit :: "int \<Rightarrow> 'i coded_input_stream \<Rightarrow> 'i coded_input_stream option"
  cc_BytesUntilLimit :: "'i coded_input_stream \<Rightarrow> int"
  cc_BytesUntilTotalBytesLimit :: "'i coded_input_stream \<Rightarrow> int"
  cc_IncrementRecursionDepthAndPushLimit :: "int \<Rightarrow> 'i coded_input_stream \<Rightarrow> ((int \<times> int) \<times> 'i coded_input_stream) option"
  cc_DecrementRecursionDepthAndPopLimit :: "int \<Rightarrow> 'i coded_input_stream \<Rightarrow> (bool \<times> 'i coded_input_stream) option"
  cc_default_recursion_limit :: int

definition kint32max :: int where
  "kint32max = 2 ^ 31 - 1"

definition kDefaultTotalBytesLimit :: int where
  "kDefaultTotalBytesLimit = kint32max"

definition CodedInputStream :: "'i input_cc \<Rightarrow> 'i \<Rightarrow> 'i coded_input_stream option" where
  "CodedInputStream cc input = map_option snd (cc_Refresh cc
     \<lparr>cis_mem = [], cis_buffer = 0, cis_buffer_end = 0, cis_input = Some input,
      cis_total_bytes_read = 0, cis_overflow_bytes = 0, cis_last_tag = 0,
      cis_legitimate_message_end = False, cis_aliasing_enabled = False,
      cis_current_limit = kint32max, cis_buffer_size_after_limit = 0,
      cis_total_bytes_limit = kDefaultTotalBytesLimit,
      cis_recursion_budget = cc_default_recursion_limit cc,
      cis_recursion_limit = cc_default_recursion_limit cc,
      cis_extension_pool = None, cis_extension_factory = None\<rparr>)"

definition CodedInputStream_flat :: "'i input_cc \<Rightarrow> byte list \<Rightarrow> int \<Rightarrow> int \<Rightarrow> 'i coded_input_stream" where
  "CodedInputStream_flat cc mem buffer size' =
     \<lparr>cis_mem = mem, cis_buffer = buffer, cis_buffer_end = buffer + size', cis_input = None,
      cis_total_bytes_read = size', cis_overflow_bytes = 0, cis_last_tag = 0,
      cis_legitimate_message_end = False, cis_aliasing_enabled = False,
      cis_current_limit = size', cis_buffer_size_after_limit = 0,
      cis_total_bytes_limit = kDefaultTotalBytesLimit,
      cis_recursion_budget = cc_default_recursion_limit cc,
      cis_recursion_limit = cc_default_recursion_limit cc,
      cis_extension_pool = None, cis_extension_factory = None\<rparr>"

definition IsFlat :: "'i coded_input_stream \<Rightarrow> bool" where
  "IsFlat s = (cis_input s = None)"

definition cis_BufferSize :: "'i coded_input_stream \<Rightarrow> int" where
  "cis_BufferSize s = cis_buffer_end s - cis_buffer s"

definition cis_Advance :: "int \<Rightarrow> 'i coded_input_stream \<Rightarrow> 'i coded_input_stream" where
  "cis_Advance amount s = s\<lparr>cis_buffer := cis_buffer s + amount\<rparr>"

definition at_buffer :: "'i coded_input_stream \<Rightarrow> int \<Rightarrow> byte option" where
  "at_buffer s i = arr_get (cis_mem s) (cis_buffer s + i)"

definition ReadVarint32 :: "'i input_cc \<Rightarrow> 'i coded_input_stream \<Rightarrow> ((32 word \<times> bool) \<times> 'i coded_input_stream) option" where
  "ReadVarint32 cc s = do {
     v \<leftarrow> (if cis_buffer s < cis_buffer_end s then map_option ucast (at_buffer s 0) else Some 0);
     if cis_buffer s < cis_buffer_end s \<and> v < 0x80
     then Some ((v, True), cis_Advance 1 s)
     else do {
       (result, s) \<leftarrow> cc_ReadVarint32Fallback cc v s;
       Some ((word_of_int result, 0 \<le> result), s) } }"

definition ReadVarint64 :: "'i input_cc \<Rightarrow> 'i coded_input_stream \<Rightarrow> ((64 word \<times> bool) \<times> 'i coded_input_stream) option" where
  "ReadVarint64 cc s = do {
     fast \<leftarrow> (if cis_buffer s < cis_buffer_end s then map_option (\<lambda>b. b < 0x80) (at_buffer s 0) else Some False);
     if fast
     then do { b \<leftarrow> at_buffer s 0; Some ((ucast b, True), cis_Advance 1 s) }
     else do { (p, s) \<leftarrow> cc_ReadVarint64Fallback cc s; Some (p, s) } }"

definition ReadVarintSizeAsInt :: "'i input_cc \<Rightarrow> 'i coded_input_stream \<Rightarrow> ((int \<times> bool) \<times> 'i coded_input_stream) option" where
  "ReadVarintSizeAsInt cc s = do {
     v \<leftarrow> (if cis_buffer s < cis_buffer_end s then map_option uint (at_buffer s 0) else Some 0);
     if cis_buffer s < cis_buffer_end s \<and> v < 0x80
     then Some ((v, True), cis_Advance 1 s)
     else do { (v, s) \<leftarrow> cc_ReadVarintSizeAsIntFallback cc s; Some ((v, 0 \<le> v), s) } }"

definition ReadLittleEndian32 :: "'i input_cc \<Rightarrow> 'i coded_input_stream \<Rightarrow> ((32 word \<times> bool) \<times> 'i coded_input_stream) option" where
  "ReadLittleEndian32 cc s =
     (if 4 \<le> cis_BufferSize s
      then do { (v, p) \<leftarrow> ReadLittleEndian32FromArray (cis_mem s) (cis_buffer s);
                Some ((v, True), s\<lparr>cis_buffer := p\<rparr>) }
      else cc_ReadLittleEndian32Fallback cc s)"

definition ReadLittleEndian64 :: "'i input_cc \<Rightarrow> 'i coded_input_stream \<Rightarrow> ((64 word \<times> bool) \<times> 'i coded_input_stream) option" where
  "ReadLittleEndian64 cc s =
     (if 8 \<le> cis_BufferSize s
      then do { (v, p) \<leftarrow> ReadLittleEndian64FromArray (cis_mem s) (cis_buffer s);
                Some ((v, True), s\<lparr>cis_buffer := p\<rparr>) }
      else cc_ReadLittleEndian64Fallback cc s)"

section \<open>Tags\<close>

definition ReadTagNoLastTag :: "'i input_cc \<Rightarrow> 'i coded_input_stream \<Rightarrow> (32 word \<times> 'i coded_input_stream) option" where
  "ReadTagNoLastTag cc s = do {
     v \<leftarrow> (if cis_buffer s < cis_buffer_end s then map_option ucast (at_buffer s 0) else Some 0);
     if cis_buffer s < cis_buffer_end s \<and> v < 0x80
     then Some (v, cis_Advance 1 s)
     else cc_ReadTagFallback cc v s }"

definition ReadTag :: "'i input_cc \<Rightarrow> 'i coded_input_stream \<Rightarrow> (32 word \<times> 'i coded_input_stream) option" where
  "ReadTag cc s = do { (t, s) \<leftarrow> ReadTagNoLastTag cc s; Some (t, s\<lparr>cis_last_tag := t\<rparr>) }"

definition ReadTagSlowPath ::
  "'i input_cc \<Rightarrow> 32 word \<Rightarrow> 32 word \<Rightarrow> 'i coded_input_stream \<Rightarrow> ((32 word \<times> bool) \<times> 'i coded_input_stream) option" where
  "ReadTagSlowPath cc cutoff first_byte_or_zero s = do {
     (tag, s) \<leftarrow> cc_ReadTagFallback cc first_byte_or_zero s;
     Some ((tag, tag - 1 < cutoff), s) }"

definition ReadTagWithCutoffNoLastTag ::
  "'i input_cc \<Rightarrow> 32 word \<Rightarrow> 'i coded_input_stream \<Rightarrow> ((32 word \<times> bool) \<times> 'i coded_input_stream) option" where
  "ReadTagWithCutoffNoLastTag cc cutoff s =
     (if cis_buffer s < cis_buffer_end s
      then do {
        b0 \<leftarrow> at_buffer s 0;
        let first_byte_or_zero = (ucast b0 :: 32 word);
        if 0 < sint b0
        then do {
          let tag = (ucast b0 :: 32 word);
          Some ((tag, 0x7f \<le> cutoff \<or> tag \<le> cutoff), cis_Advance 1 s) }
        else if 0x80 \<le> cutoff \<and> cis_buffer s + 1 < cis_buffer_end s
        then do {
          b1 \<leftarrow> at_buffer s 1;
          if 0x80 \<le> (ucast b0 AND NOT (ucast b1) :: 32 word)
          then do {
            let tag = (push_bit 7 1 * ucast b1 + (ucast b0 - 0x80) :: 32 word);
            let at_or_below_cutoff = (push_bit 7 0x7f + 0x7f \<le> cutoff \<or> tag \<le> cutoff);
            Some ((tag, at_or_below_cutoff), cis_Advance 2 s) }
          else ReadTagSlowPath cc cutoff first_byte_or_zero s }
        else ReadTagSlowPath cc cutoff first_byte_or_zero s }
      else ReadTagSlowPath cc cutoff 0 s)"

definition ReadTagWithCutoff ::
  "'i input_cc \<Rightarrow> 32 word \<Rightarrow> 'i coded_input_stream \<Rightarrow> ((32 word \<times> bool) \<times> 'i coded_input_stream) option" where
  "ReadTagWithCutoff cc cutoff s = do {
     (result, s) \<leftarrow> ReadTagWithCutoffNoLastTag cc cutoff s;
     Some (result, s\<lparr>cis_last_tag := fst result\<rparr>) }"

definition LastTagWas :: "32 word \<Rightarrow> 'i coded_input_stream \<Rightarrow> bool" where
  "LastTagWas expected s = (cis_last_tag s = expected)"

definition SetLastTag :: "32 word \<Rightarrow> 'i coded_input_stream \<Rightarrow> 'i coded_input_stream" where
  "SetLastTag tag s = s\<lparr>cis_last_tag := tag\<rparr>"

definition ConsumedEntireMessage :: "'i coded_input_stream \<Rightarrow> bool" where
  "ConsumedEntireMessage s = cis_legitimate_message_end s"

definition SetConsumed :: "'i coded_input_stream \<Rightarrow> 'i coded_input_stream" where
  "SetConsumed s = s\<lparr>cis_legitimate_message_end := True\<rparr>"

definition ExpectTagFromArray :: "byte list \<Rightarrow> int \<Rightarrow> 32 word \<Rightarrow> int option option" where
  "ExpectTagFromArray mem buffer expected =
     (if expected < push_bit 7 1
      then do { b0 \<leftarrow> arr_get mem buffer;
                Some (if ucast b0 = expected then Some (buffer + 1) else None) }
      else if expected < push_bit 14 1
      then do {
        b0 \<leftarrow> arr_get mem buffer;
        if b0 = ucast (expected OR 0x80)
        then do { b1 \<leftarrow> arr_get mem (buffer + 1);
                  Some (if b1 = ucast (drop_bit 7 expected) then Some (buffer + 2) else None) }
        else Some None }
      else Some None)"

definition ExpectTag :: "32 word \<Rightarrow> 'i coded_input_stream \<Rightarrow> (bool \<times> 'i coded_input_stream) option" where
  "ExpectTag expected s =
     (if expected < push_bit 7 1
      then if cis_buffer s < cis_buffer_end s
        then do { b0 \<leftarrow> at_buffer s 0;
                  Some (if ucast b0 = expected then (True, cis_Advance 1 s) else (False, s)) }
        else Some (False, s)
      else if expected < push_bit 14 1
      then if 2 \<le> cis_BufferSize s
        then do {
          b0 \<leftarrow> at_buffer s 0; b1 \<leftarrow> at_buffer s 1;
          Some (if b0 = ucast (expected OR 0x80) \<and> b1 = ucast (drop_bit 7 expected)
                then (True, cis_Advance 2 s) else (False, s)) }
        else Some (False, s)
      else Some (False, s))"

section \<open>Positions and limits\<close>

definition GetDirectBufferPointerInline :: "'i coded_input_stream \<Rightarrow> int \<times> int" where
  "GetDirectBufferPointerInline s = (cis_buffer s, cis_buffer_end s - cis_buffer s)"

definition ExpectAtEnd :: "'i coded_input_stream \<Rightarrow> bool \<times> 'i coded_input_stream" where
  "ExpectAtEnd s =
     (if cis_buffer s = cis_buffer_end s \<and>
         (cis_buffer_size_after_limit s \<noteq> 0 \<or> cis_total_bytes_read s = cis_current_limit s)
      then (True, s\<lparr>cis_last_tag := 0, cis_legitimate_message_end := True\<rparr>)
      else (False, s))"

definition CurrentPosition :: "'i coded_input_stream \<Rightarrow> int option" where
  "CurrentPosition s = c_int (cis_total_bytes_read s - (cis_BufferSize s + cis_buffer_size_after_limit s))"

definition cis_Skip :: "'i input_cc \<Rightarrow> int \<Rightarrow> 'i coded_input_stream \<Rightarrow> (bool \<times> 'i coded_input_stream) option" where
  "cis_Skip cc count s =
     (if count < 0 then Some (False, s)
      else let original_buffer_size = cis_BufferSize s in
        if count \<le> original_buffer_size then Some (True, cis_Advance count s)
        else cc_SkipFallback cc count original_buffer_size s)"

definition SetRecursionLimit :: "int \<Rightarrow> 'i coded_input_stream \<Rightarrow> 'i coded_input_stream option" where
  "SetRecursionLimit limit s = do {
     d \<leftarrow> c_int (limit - cis_recursion_limit s);
     b \<leftarrow> c_int (cis_recursion_budget s + d);
     Some (s\<lparr>cis_recursion_budget := b, cis_recursion_limit := limit\<rparr>) }"

definition IncrementRecursionDepth :: "'i coded_input_stream \<Rightarrow> (bool \<times> 'i coded_input_stream) option" where
  "IncrementRecursionDepth s = do {
     b \<leftarrow> c_int (cis_recursion_budget s - 1);
     Some (0 \<le> b, s\<lparr>cis_recursion_budget := b\<rparr>) }"

definition DecrementRecursionDepth :: "'i coded_input_stream \<Rightarrow> 'i coded_input_stream option" where
  "DecrementRecursionDepth s =
     (if cis_recursion_budget s < cis_recursion_limit s
      then do { b \<leftarrow> c_int (cis_recursion_budget s + 1); Some (s\<lparr>cis_recursion_budget := b\<rparr>) }
      else Some s)"

definition UnsafeDecrementRecursionDepth :: "'i coded_input_stream \<Rightarrow> 'i coded_input_stream option" where
  "UnsafeDecrementRecursionDepth s = do {
     GOOGLE_DCHECK (cis_recursion_budget s < cis_recursion_limit s);
     b \<leftarrow> c_int (cis_recursion_budget s + 1);
     Some (s\<lparr>cis_recursion_budget := b\<rparr>) }"

definition RecursionBudget :: "'i coded_input_stream \<Rightarrow> int" where
  "RecursionBudget s = cis_recursion_budget s"

definition SetExtensionRegistry :: "nat option \<Rightarrow> nat option \<Rightarrow> 'i coded_input_stream \<Rightarrow> 'i coded_input_stream" where
  "SetExtensionRegistry pool factory s = s\<lparr>cis_extension_pool := pool, cis_extension_factory := factory\<rparr>"

definition GetExtensionPool :: "'i coded_input_stream \<Rightarrow> nat option" where
  "GetExtensionPool s = cis_extension_pool s"

definition GetExtensionFactory :: "'i coded_input_stream \<Rightarrow> nat option" where
  "GetExtensionFactory s = cis_extension_factory s"

section \<open>The output stream\<close>

record 'o coded_output_stream =
  cos_output :: "'o option"
  cos_mem :: "byte list"
  cos_buffer :: int
  cos_buffer_size :: int
  cos_total_bytes :: int
  cos_had_error :: bool
  cos_aliasing_enabled :: bool
  cos_is_serialization_deterministic :: bool

record 'o output_cc =
  cc_WriteVarint32SlowPath :: "32 word \<Rightarrow> 'o coded_output_stream \<Rightarrow> 'o coded_output_stream option"
  cc_WriteVarint64SlowPath :: "64 word \<Rightarrow> 'o coded_output_stream \<Rightarrow> 'o coded_output_stream option"
  cc_WriteRaw :: "byte list \<Rightarrow> int \<Rightarrow> 'o coded_output_stream \<Rightarrow> 'o coded_output_stream option"
  cc_WriteAliasedRaw :: "byte list \<Rightarrow> int \<Rightarrow> 'o coded_output_stream \<Rightarrow> 'o coded_output_stream option"
  cc_WriteLittleEndian32 :: "32 word \<Rightarrow> 'o coded_output_stream \<Rightarrow> 'o coded_output_stream option"
  cc_WriteLittleEndian64 :: "64 word \<Rightarrow> 'o coded_output_stream \<Rightarrow> 'o coded_output_stream option"
  cc_WriteRawToArray :: "byte list \<Rightarrow> int \<Rightarrow> int \<Rightarrow> byte list \<Rightarrow> (int \<times> byte list) option"
  cc_WriteStringWithSizeToArray :: "byte list \<Rightarrow> int \<Rightarrow> byte list \<Rightarrow> (int \<times> byte list) option"

definition cos_Advance :: "int \<Rightarrow> 'o coded_output_stream \<Rightarrow> 'o coded_output_stream" where
  "cos_Advance amount s = s\<lparr>cos_buffer := cos_buffer s + amount, cos_buffer_size := cos_buffer_size s - amount\<rparr>"

definition GetDirectBufferForNBytesAndAdvance :: "int \<Rightarrow> 'o coded_output_stream \<Rightarrow> int option \<times> 'o coded_output_stream" where
  "GetDirectBufferForNBytesAndAdvance size' s =
     (if cos_buffer_size s < size' then (None, s)
      else let result = cos_buffer s in (Some result, cos_Advance size' s))"

definition WriteVarint32 :: "'o output_cc \<Rightarrow> 32 word \<Rightarrow> 'o coded_output_stream \<Rightarrow> 'o coded_output_stream option" where
  "WriteVarint32 cc value' s =
     (if 5 \<le> cos_buffer_size s
      then do {
        let target = cos_buffer s;
        (end', mem) \<leftarrow> WriteVarint32ToArray value' target (cos_mem s);
        let size' = end' - target;
        Some (cos_Advance size' (s\<lparr>cos_mem := mem\<rparr>)) }
      else cc_WriteVarint32SlowPath cc value' s)"

definition WriteVarint64 :: "'o output_cc \<Rightarrow> 64 word \<Rightarrow> 'o coded_output_stream \<Rightarrow> 'o coded_output_stream option" where
  "WriteVarint64 cc value' s =
     (if 10 \<le> cos_buffer_size s
      then do {
        let target = cos_buffer s;
        (end', mem) \<leftarrow> WriteVarint64ToArray value' target (cos_mem s);
        let size' = end' - target;
        Some (cos_Advance size' (s\<lparr>cos_mem := mem\<rparr>)) }
      else cc_WriteVarint64SlowPath cc value' s)"

definition WriteVarint32SignExtended :: "'o output_cc \<Rightarrow> int \<Rightarrow> 'o coded_output_stream \<Rightarrow> 'o coded_output_stream option" where
  "WriteVarint32SignExtended cc value' s = WriteVarint64 cc (word_of_int value') s"

definition cos_WriteTag :: "'o output_cc \<Rightarrow> 32 word \<Rightarrow> 'o coded_output_stream \<Rightarrow> 'o coded_output_stream option" where
  "cos_WriteTag cc value' s = WriteVarint32 cc value' s"

definition WriteString :: "'o output_cc \<Rightarrow> byte list \<Rightarrow> 'o coded_output_stream \<Rightarrow> 'o coded_output_stream option" where
  "WriteString cc str s = cc_WriteRaw cc str (int32_of (of_nat (length str))) s"

definition WriteRawMaybeAliased :: "'o output_cc \<Rightarrow> byte list \<Rightarrow> int \<Rightarrow> 'o coded_output_stream \<Rightarrow> 'o coded_output_stream option" where
  "WriteRawMaybeAliased cc data size' s =
     (if cos_aliasing_enabled s then cc_WriteAliasedRaw cc data size' s else cc_WriteRaw cc data size' s)"

definition WriteStringToArray :: "'o output_cc \<Rightarrow> byte list \<Rightarrow> int \<Rightarrow> byte list \<Rightarrow> (int \<times> byte list) option" where
  "WriteStringToArray cc str target mem = cc_WriteRawToArray cc str (int32_of (of_nat (length str))) target mem"

definition ByteCount :: "'o coded_output_stream \<Rightarrow> int option" where
  "ByteCount s = c_int (cos_total_bytes s - cos_buffer_size s)"

definition SetSerializationDeterministic :: "bool \<Rightarrow> 'o coded_output_stream \<Rightarrow> 'o coded_output_stream" where
  "SetSerializationDeterministic value' s = s\<lparr>cos_is_serialization_deterministic := value'\<rparr>"

section \<open>What the fallbacks promise\<close>

definition cis_ok :: "'i coded_input_stream \<Rightarrow> bool" where
  "cis_ok s \<longleftrightarrow> 0 \<le> cis_buffer s \<and> cis_buffer s \<le> cis_buffer_end s \<and> cis_buffer_end s \<le> int (length (cis_mem s))"

text \<open>The bytes of the current buffer that are not read yet.\<close>

definition avail :: "'i coded_input_stream \<Rightarrow> byte list" where
  "avail s = take (nat (cis_buffer_end s - cis_buffer s)) (drop (nat (cis_buffer s)) (cis_mem s))"

text \<open>
  When the current buffer holds a complete varint, the fallbacks read it as the comments at
  the declarations say: 32-bit reads truncate like a 64-bit read followed by a cast, sizes
  above \<open>INT_MAX\<close> fail instead of being truncated, and the stream advances past the varint.
\<close>

definition input_cc_laws :: "'i input_cc \<Rightarrow> bool" where
  "input_cc_laws cc \<longleftrightarrow> (\<forall>s n l. cis_ok s \<longrightarrow> varint_ref 10 (avail s) = Some (Some (n, l)) \<longrightarrow>
     cc_ReadVarint32Fallback cc (ucast (hd (avail s))) s = Some (int (n mod 2 ^ 32), cis_Advance (int l) s) \<and>
     cc_ReadVarint64Fallback cc s = Some ((of_nat n, True), cis_Advance (int l) s) \<and>
     (n < 2 ^ 31 \<longrightarrow> cc_ReadVarintSizeAsIntFallback cc s = Some (int n, cis_Advance (int l) s)) \<and>
     (2 ^ 31 \<le> n \<longrightarrow> (\<exists>r s'. cc_ReadVarintSizeAsIntFallback cc s = Some (r, s') \<and> r < 0)) \<and>
     cc_ReadTagFallback cc (ucast (hd (avail s))) s = Some (of_nat n, cis_Advance (int l) s))"

lemma laws_fallback:
  assumes "input_cc_laws cc" "cis_ok s" "varint_ref 10 (avail s) = Some (Some (n, l))"
  shows "cc_ReadVarint32Fallback cc (ucast (hd (avail s))) s = Some (int (n mod 2 ^ 32), cis_Advance (int l) s)"
    "cc_ReadVarint64Fallback cc s = Some ((of_nat n, True), cis_Advance (int l) s)"
    "n < 2 ^ 31 \<Longrightarrow> cc_ReadVarintSizeAsIntFallback cc s = Some (int n, cis_Advance (int l) s)"
    "2 ^ 31 \<le> n \<Longrightarrow> \<exists>r s'. cc_ReadVarintSizeAsIntFallback cc s = Some (r, s') \<and> r < 0"
    "cc_ReadTagFallback cc (ucast (hd (avail s))) s = Some (of_nat n, cis_Advance (int l) s)"
  using assms unfolding input_cc_laws_def by blast+

text \<open>The reference instance for a stream over one array.\<close>

definition flat_varint :: "'i coded_input_stream \<Rightarrow> (nat \<times> nat) option" where
  "flat_varint s = (case varint_ref 10 (avail s) of Some (Some r) \<Rightarrow> Some r | _ \<Rightarrow> None)"

definition flat_cc :: "'i input_cc" where
  "flat_cc = \<lparr>
     cc_Refresh = \<lambda>s. Some (False, s),
     cc_SkipFallback = \<lambda>_ _ s. Some (False, s),
     cc_ReadVarint32Fallback = \<lambda>_ s. case flat_varint s of
        Some (n, l) \<Rightarrow> Some (int (n mod 2 ^ 32), cis_Advance (int l) s) | None \<Rightarrow> Some (- 1, s),
     cc_ReadVarint64Fallback = \<lambda>s. case flat_varint s of
        Some (n, l) \<Rightarrow> Some ((of_nat n, True), cis_Advance (int l) s) | None \<Rightarrow> Some ((0, False), s),
     cc_ReadVarintSizeAsIntFallback = \<lambda>s. case flat_varint s of
        Some (n, l) \<Rightarrow> Some (if n < 2 ^ 31 then int n else - 1, cis_Advance (int l) s) | None \<Rightarrow> Some (- 1, s),
     cc_ReadLittleEndian32Fallback = \<lambda>s. Some ((0, False), s),
     cc_ReadLittleEndian64Fallback = \<lambda>s. Some ((0, False), s),
     cc_ReadTagFallback = \<lambda>_ s. case flat_varint s of
        Some (n, l) \<Rightarrow> Some (of_nat n, cis_Advance (int l) s)
      | None \<Rightarrow> Some (0, s\<lparr>cis_legitimate_message_end := (avail s = [])\<rparr>),
     cc_ReadRaw = \<lambda>n s. if 0 \<le> n \<and> n \<le> cis_BufferSize s
        then Some ((take (nat n) (avail s), True), cis_Advance n s) else Some (([], False), s),
     cc_PushLimit = \<lambda>n s. let pos = cis_total_bytes_read s - cis_BufferSize s in
        Some (cis_current_limit s, s\<lparr>cis_current_limit := min (pos + n) (cis_current_limit s)\<rparr>),
     cc_PopLimit = \<lambda>l s. Some (s\<lparr>cis_current_limit := l, cis_legitimate_message_end := False\<rparr>),
     cc_BytesUntilLimit = \<lambda>s. cis_current_limit s - (cis_total_bytes_read s - cis_BufferSize s),
     cc_BytesUntilTotalBytesLimit = \<lambda>s. - 1,
     cc_IncrementRecursionDepthAndPushLimit = \<lambda>n s.
        Some ((cis_current_limit s, cis_recursion_budget s - 1), s\<lparr>cis_recursion_budget := cis_recursion_budget s - 1\<rparr>),
     cc_DecrementRecursionDepthAndPopLimit = \<lambda>l s.
        Some (cis_legitimate_message_end s, s\<lparr>cis_recursion_budget := cis_recursion_budget s + 1, cis_current_limit := l\<rparr>),
     cc_default_recursion_limit = 100 \<rparr>"

lemma flat_cc_laws: "input_cc_laws flat_cc"
  by (simp add: input_cc_laws_def flat_cc_def flat_varint_def)

section \<open>Reading from the current buffer\<close>

lemma length_avail: "cis_ok s \<Longrightarrow> length (avail s) = nat (cis_BufferSize s)"
  by (auto simp: cis_ok_def avail_def cis_BufferSize_def)

lemma avail_bounds:
  "cis_ok s \<Longrightarrow> 0 \<le> cis_BufferSize s"
  "cis_ok s \<Longrightarrow> cis_buffer s < cis_buffer_end s \<longleftrightarrow> avail s \<noteq> []"
  "cis_ok s \<Longrightarrow> int n \<le> cis_BufferSize s \<longleftrightarrow> n \<le> length (avail s)"
  using length_avail [of s]
  by (auto simp: cis_ok_def cis_BufferSize_def length_greater_0_conv [symmetric] simp del: length_greater_0_conv)

lemma at_buffer_avail: "cis_ok s \<Longrightarrow> i < length (avail s) \<Longrightarrow> at_buffer s (int i) = Some (avail s ! i)"
  by (auto simp: cis_ok_def avail_def at_buffer_def arr_get_def nat_add_distrib)

lemma cis_Advance_ok: "cis_ok s \<Longrightarrow> l \<le> length (avail s) \<Longrightarrow> cis_ok (cis_Advance (int l) s)"
  using length_avail [of s] by (auto simp: cis_ok_def cis_BufferSize_def cis_Advance_def)

lemma avail_Advance:
  assumes "cis_ok s" "l \<le> length (avail s)"
  shows "avail (cis_Advance (int l) s) = drop l (avail s)"
proof -
  have "nat (cis_buffer s + int l) = nat (cis_buffer s) + l"
    using assms(1) by (simp add: cis_ok_def nat_add_distrib)
  moreover have "nat (cis_buffer_end s - (cis_buffer s + int l)) = nat (cis_buffer_end s - cis_buffer s) - l"
    by linarith
  ultimately show ?thesis by (simp add: cis_Advance_def avail_def drop_take add.commute)
qed

lemma varint_ref_length: "varint_ref k bs = Some (Some (n, l)) \<Longrightarrow> 0 < l \<and> l \<le> length bs"
  by (induction k arbitrary: bs n l) (fastforce split: list.splits if_splits)+

lemma varint_ref_first:
  "varint_ref (Suc k) (b # bs) = Some (Some (n, l)) \<Longrightarrow> unat b < 128 \<Longrightarrow> n = unat b \<and> l = 1"
  by simp

lemma first_byte:
  assumes "cis_ok s" "avail s = b # bs"
  shows "cis_buffer s < cis_buffer_end s" "at_buffer s 0 = Some b"
  using avail_bounds(2) [OF assms(1)] at_buffer_avail [OF assms(1), of 0] assms(2) by simp_all


lemma byte_less_128:
  "(ucast (b :: byte) :: 32 word) < 0x80 \<longleftrightarrow> unat b < 128"
  "b < 0x80 \<longleftrightarrow> unat b < 128"
  "uint b < 0x80 \<longleftrightarrow> unat b < 128"
proof -
  show "(ucast b :: 32 word) < 0x80 \<longleftrightarrow> unat b < 128" "b < 0x80 \<longleftrightarrow> unat b < 128"
    by (simp_all add: word_less_nat_alt unat_ucast_byte)
  show "uint b < 0x80 \<longleftrightarrow> unat b < 128" by (simp add: nat_less_iff flip: nat_uint_eq)
qed

lemma varint_head:
  assumes "cis_ok s" "varint_ref 10 (avail s) = Some (Some (n, l))"
  obtains b bs where "avail s = b # bs" "cis_buffer s < cis_buffer_end s" "at_buffer s 0 = Some b"
    "hd (avail s) = b" "unat b < 128 \<Longrightarrow> n = unat b \<and> l = 1"
proof -
  obtain b bs where av: "avail s = b # bs" using varint_ref_length [OF assms(2)] by (cases "avail s") auto
  show thesis
    by (rule that [OF av first_byte [OF assms(1) av]]) (use assms(2) av in \<open>simp_all add: eval_nat_numeral\<close>)
qed

lemma ReadVarint32_ok:
  assumes "input_cc_laws cc" "cis_ok s" "varint_ref 10 (avail s) = Some (Some (n, l))"
  shows "ReadVarint32 cc s = Some ((of_nat n, True), cis_Advance (int l) s)"
proof -
  obtain b bs where "avail s = b # bs" and b: "cis_buffer s < cis_buffer_end s" "at_buffer s 0 = Some b"
    "hd (avail s) = b" "unat b < 128 \<Longrightarrow> n = unat b \<and> l = 1"
    using varint_head [OF assms(2,3)] by blast
  have "(word_of_int (int (n mod 2 ^ 32)) :: 32 word) = of_nat n"
    by (simp add: word_of_nat_eq_iff take_bit_eq_mod)
  then show ?thesis
    using laws_fallback(1) [OF assms] b
    by (cases "unat b < 128") (simp_all add: ReadVarint32_def byte_less_128)
qed

lemma ReadVarint64_ok:
  assumes "input_cc_laws cc" "cis_ok s" "varint_ref 10 (avail s) = Some (Some (n, l))"
  shows "ReadVarint64 cc s = Some ((of_nat n, True), cis_Advance (int l) s)"
proof -
  obtain b bs where "avail s = b # bs" and b: "cis_buffer s < cis_buffer_end s" "at_buffer s 0 = Some b"
    "hd (avail s) = b" "unat b < 128 \<Longrightarrow> n = unat b \<and> l = 1"
    using varint_head [OF assms(2,3)] by blast
  then show ?thesis
    using laws_fallback(2) [OF assms]
    by (cases "unat b < 128") (simp_all add: ReadVarint64_def byte_less_128)
qed

lemma ReadVarintSizeAsInt_ok:
  assumes "input_cc_laws cc" "cis_ok s" "varint_ref 10 (avail s) = Some (Some (n, l))"
  shows "n < 2 ^ 31 \<Longrightarrow> ReadVarintSizeAsInt cc s = Some ((int n, True), cis_Advance (int l) s)"
    and "2 ^ 31 \<le> n \<Longrightarrow> \<exists>r s'. ReadVarintSizeAsInt cc s = Some ((r, False), s')"
proof -
  obtain b bs where "avail s = b # bs" and b: "cis_buffer s < cis_buffer_end s" "at_buffer s 0 = Some b"
    "hd (avail s) = b" "unat b < 128 \<Longrightarrow> n = unat b \<and> l = 1"
    using varint_head [OF assms(2,3)] by blast
  show "ReadVarintSizeAsInt cc s = Some ((int n, True), cis_Advance (int l) s)" if "n < 2 ^ 31"
    using b laws_fallback(3) [OF assms that]
    by (cases "unat b < 128") (simp_all add: ReadVarintSizeAsInt_def byte_less_128)
  show "\<exists>r s'. ReadVarintSizeAsInt cc s = Some ((r, False), s')" if "2 ^ 31 \<le> n"
    using b that laws_fallback(4) [OF assms that]
    by (cases "unat b < 128") (auto simp: ReadVarintSizeAsInt_def byte_less_128)
qed

lemma ReadTagNoLastTag_ok:
  assumes "input_cc_laws cc" "cis_ok s" "varint_ref 10 (avail s) = Some (Some (n, l))"
  shows "ReadTagNoLastTag cc s = Some (of_nat n, cis_Advance (int l) s)"
proof -
  obtain b bs where "avail s = b # bs" and b: "cis_buffer s < cis_buffer_end s" "at_buffer s 0 = Some b"
    "hd (avail s) = b" "unat b < 128 \<Longrightarrow> n = unat b \<and> l = 1"
    using varint_head [OF assms(2,3)] by blast
  then show ?thesis
    using laws_fallback(5) [OF assms]
    by (cases "unat b < 128") (simp_all add: ReadTagNoLastTag_def byte_less_128)
qed

lemma ReadTag_ok:
  "input_cc_laws cc \<Longrightarrow> cis_ok s \<Longrightarrow> varint_ref 10 (avail s) = Some (Some (n, l)) \<Longrightarrow>
     ReadTag cc s = Some (of_nat n, (cis_Advance (int l) s)\<lparr>cis_last_tag := of_nat n\<rparr>)"
  by (simp add: ReadTag_def ReadTagNoLastTag_ok)

lemma avail_prefix:
  assumes "cis_ok s" "avail s = bs @ rest"
  shows "\<exists>rest'. drop (nat (cis_buffer s)) (cis_mem s) = bs @ rest'"
  using assms append_take_drop_id [of "nat (cis_buffer_end s - cis_buffer s)" "drop (nat (cis_buffer s)) (cis_mem s)"]
  by (auto simp: avail_def) (metis append.assoc)

lemma ReadLittleEndian32_ok:
  assumes "cis_ok s" "avail s = object_bytes v @ rest"
  shows "ReadLittleEndian32 cc s = Some ((v, True), cis_Advance 4 s)"
proof -
  have "4 \<le> cis_BufferSize s" using avail_bounds(3) [OF assms(1), of 4] assms(2) by (simp add: length_object_bytes)
  moreover obtain rest' where "drop (nat (cis_buffer s)) (cis_mem s) = object_bytes v @ rest'"
    using avail_prefix [OF assms] by blast
  ultimately show ?thesis
    using ReadLE32_at [of "nat (cis_buffer s)"] assms(1)
    by (simp add: ReadLittleEndian32_def cis_Advance_def cis_ok_def)
qed

lemma ReadLittleEndian64_ok:
  assumes "cis_ok s" "avail s = object_bytes v @ rest"
  shows "ReadLittleEndian64 cc s = Some ((v, True), cis_Advance 8 s)"
proof -
  have "8 \<le> cis_BufferSize s" using avail_bounds(3) [OF assms(1), of 8] assms(2) by (simp add: length_object_bytes)
  moreover obtain rest' where "drop (nat (cis_buffer s)) (cis_mem s) = object_bytes v @ rest'"
    using avail_prefix [OF assms] by blast
  ultimately show ?thesis
    using ReadLE64_at [of "nat (cis_buffer s)"] assms(1)
    by (simp add: ReadLittleEndian64_def cis_Advance_def cis_ok_def)
qed

section \<open>Tags with a cutoff\<close>

lemma byte_top_bit: "128 \<le> unat (b :: byte) \<longleftrightarrow> bit b 7"
proof -
  have "unat b div 2 ^ 7 < 2" using unat_less_power [of b] by (simp add: div_less_iff_less_mult)
  then have "odd (unat b div 2 ^ 7) \<longleftrightarrow> 1 \<le> unat b div 2 ^ 7" by (auto dest: less_2_cases)
  then show ?thesis by (simp add: bit_unat less_eq_div_iff_mult_less_eq)
qed

lemma two_byte_test: "0x80 \<le> (ucast b0 AND NOT (ucast b1) :: 32 word) \<longleftrightarrow> 128 \<le> unat (b0 :: byte) \<and> unat (b1 :: byte) < 128"
proof -
  have "(ucast b0 AND NOT (ucast b1) :: 32 word) = ucast (b0 AND NOT b1)"
    by (rule bit_eqI) (auto simp: bit_simps dest: bit_imp_le_length)
  then have "0x80 \<le> (ucast b0 AND NOT (ucast b1) :: 32 word) \<longleftrightarrow> 128 \<le> unat (b0 AND NOT b1)"
    by (simp add: word_le_nat_alt unat_ucast_byte)
  also have "\<dots> \<longleftrightarrow> bit b0 7 \<and> \<not> bit b1 7" by (simp add: byte_top_bit bit_simps)
  finally show ?thesis using byte_top_bit [of b1] by (simp add: byte_top_bit not_le [symmetric])
qed

lemma sint_byte_pos: "0 < sint (b :: byte) \<longleftrightarrow> 0 < unat b \<and> unat b < 128"
proof -
  have "sint b = uint b - 256 * of_bool (bit b 7)"
    using take_bit_int_eq_self [of "uint b" 8] uint_bounded [of b]
    by (simp add: sint_uint signed_take_bit_eq_take_bit_minus bit_uint_iff)
  moreover have u: "uint b = int (unat b)" by simp
  ultimately have "sint b = (if 128 \<le> unat b then int (unat b) - 256 else int (unat b))"
    using byte_top_bit [of b] by (simp only: u) simp
  moreover have "unat b < 256" using unat_less_power [of b] by simp
  ultimately show ?thesis by (cases "128 \<le> unat b") (simp_all only: if_True if_False, linarith+)
qed

lemma at_buffer_1: "cis_ok s \<Longrightarrow> avail s = b0 # b1 # bs \<Longrightarrow> at_buffer s 1 = Some b1"
  using at_buffer_avail [of s 1] by simp

lemma avail_two: "cis_ok s \<Longrightarrow> avail s = b0 # bs \<Longrightarrow> cis_buffer s + 1 < cis_buffer_end s \<longleftrightarrow> bs \<noteq> []"
  using avail_bounds(3) [of s 2] by (cases bs) (auto simp: cis_BufferSize_def)

lemma varint_ref_two:
  "128 \<le> unat b \<Longrightarrow> unat b1 < 128 \<Longrightarrow>
     varint_ref (Suc (Suc k)) (b # b1 # bs) = Some (Some (unat b - 128 + 128 * unat b1, 2))"
  by simp

lemma slow_path_ok:
  assumes "input_cc_laws cc" "cis_ok s" "varint_ref 10 (avail s) = Some (Some (n, l))" "avail s = b # bs"
  shows "ReadTagSlowPath cc cutoff (ucast b) s =
     Some ((of_nat n, (of_nat n :: 32 word) - 1 < cutoff), cis_Advance (int l) s)"
  using laws_fallback(5) [OF assms(1-3)] assms(4) by (simp add: ReadTagSlowPath_def)

lemma tag_minus_1_less: "tag \<noteq> 0 \<Longrightarrow> (tag :: 32 word) - 1 < cutoff \<longleftrightarrow> tag \<le> cutoff"
proof -
  assume "tag \<noteq> 0"
  then have "unat (tag - 1) = unat tag - 1" "0 < unat tag" by (simp_all add: unat_minus_one unat_gt_0)
  then show ?thesis by (simp only: word_less_nat_alt word_le_nat_alt) linarith
qed

text \<open>The flag of \<open>ReadTagWithCutoff\<close>: exact for tags other than 0, not true for a 0 above the cutoff.\<close>

definition cutoff_flag :: "32 word \<Rightarrow> 32 word \<Rightarrow> bool \<Rightarrow> bool" where
  "cutoff_flag tag cutoff below \<longleftrightarrow> (below \<longrightarrow> tag \<le> cutoff) \<and> (\<not> below \<longrightarrow> tag = 0 \<or> cutoff < tag)"

lemma cutoff_flag_exact: "(tag \<noteq> 0 \<Longrightarrow> below = (tag \<le> cutoff)) \<Longrightarrow> cutoff_flag tag cutoff below"
  by (cases "tag = 0") (auto simp: cutoff_flag_def)

lemma ReadTagWithCutoff_ok:
  assumes "input_cc_laws cc" "cis_ok s" "varint_ref 10 (avail s) = Some (Some (n, l))"
  shows "\<exists>below. ReadTagWithCutoffNoLastTag cc cutoff s = Some ((of_nat n, below), cis_Advance (int l) s) \<and>
     cutoff_flag (of_nat n) cutoff below"
proof -
  obtain b bs where av: "avail s = b # bs" and b: "cis_buffer s < cis_buffer_end s" "at_buffer s 0 = Some b"
    and fast: "unat b < 128 \<Longrightarrow> n = unat b \<and> l = 1"
    using varint_head [OF assms(2,3)] by blast
  note slow = slow_path_ok [OF assms av, of cutoff]
  have flag: "cutoff_flag (of_nat n) cutoff ((of_nat n :: 32 word) - 1 < cutoff)"
    by (rule cutoff_flag_exact) (rule tag_minus_1_less)
  show ?thesis
  proof (cases "0 < sint b")
    case True
    then have n: "n = unat b" "l = 1" "unat b < 128" using fast by (auto simp: sint_byte_pos)
    have "(ucast b :: 32 word) \<le> 0x7f" using n(3) by (simp add: word_le_nat_alt unat_ucast_byte)
    then have "cutoff_flag (ucast b) cutoff (0x7f \<le> cutoff \<or> ucast b \<le> cutoff)"
      by (intro cutoff_flag_exact) auto
    then show ?thesis using True n by (simp add: ReadTagWithCutoffNoLastTag_def b Let_def)
  next
    case one: False
    show ?thesis
    proof (cases "0x80 \<le> cutoff \<and> bs \<noteq> []")
      case True
      then obtain b1 bs' where bs: "bs = b1 # bs'" by (cases bs) auto
      note b1 = at_buffer_1 [OF assms(2) av [unfolded bs]]
      show ?thesis
      proof (cases "128 \<le> unat b \<and> unat b1 < 128")
        case two: True
        then have n: "n = unat b - 128 + 128 * unat b1" "l = 2"
          using assms(3) varint_ref_two [of b b1 8 bs'] av bs by simp_all
        have "(push_bit 7 1 * ucast b1 + (ucast b - 0x80) :: 32 word) = of_nat n"
          using two by (simp add: n of_nat_diff)
        moreover have "(of_nat n :: 32 word) \<le> push_bit 7 0x7f + 0x7f"
        proof -
          have "unat b < 256" using unat_less_power [of b] by simp
          then have "n \<le> 16383" using two n(1) by linarith
          then have "unat (of_nat n :: 32 word) = n" by (intro unat_of_nat_small) simp
          then show ?thesis using \<open>n \<le> 16383\<close> by (simp only: word_le_nat_alt) simp
        qed
        then have "cutoff_flag (of_nat n) cutoff (push_bit 7 0x7f + 0x7f \<le> cutoff \<or> of_nat n \<le> cutoff)"
          by (intro cutoff_flag_exact) auto
        ultimately show ?thesis
          using one two True b b1 avail_two [OF assms(2) av] two_byte_test [of b b1] n(2)
          by (simp add: ReadTagWithCutoffNoLastTag_def Let_def)
      next
        case False
        then have "\<not> 0x80 \<le> (ucast b AND NOT (ucast b1) :: 32 word)" by (simp only: two_byte_test) simp
        then show ?thesis
          using one True b b1 avail_two [OF assms(2) av] slow flag
          by (simp add: ReadTagWithCutoffNoLastTag_def Let_def)
      qed
    next
      case False
      then show ?thesis
        using one b avail_two [OF assms(2) av] slow flag by (auto simp: ReadTagWithCutoffNoLastTag_def Let_def)
    qed
  qed
qed

section \<open>Expected tags\<close>

lemma tag_ranges: "(t :: 32 word) < 128 \<longleftrightarrow> unat t < 128" "t < 16384 \<longleftrightarrow> unat t < 16384"
  by (simp_all add: word_less_nat_alt)

lemma one_byte_tag: "unat (t :: 32 word) < 128 \<Longrightarrow> ucast (b :: byte) = t \<longleftrightarrow> b = of_nat (unat t)"
  using unat_byte [of "unat t"] by (auto simp: word_unat_eq_iff [of "ucast b"] word_unat_eq_iff [of b] unat_ucast_byte)

lemma two_byte_tag:
  assumes "128 \<le> unat (t :: 32 word)" "unat t < 16384"
  shows "varint (unat t) = [ucast (t OR 0x80), ucast (drop_bit 7 t)]"
proof -
  have "(ucast (drop_bit 7 t) :: byte) = of_nat (unat t div 128)"
    by (metis of_nat_unat unat_drop_7)
  then show ?thesis using assms by (simp only: low_byte_or varint_big) simp
qed

lemma ExpectTag_ok:
  assumes "cis_ok s"
  shows "ExpectTag t s = Some
     (if unat t < 16384 \<and> take (length (varint (unat t))) (avail s) = varint (unat t)
      then (True, cis_Advance (int (length (varint (unat t)))) s) else (False, s))"
proof -
  consider "unat t < 128" | "128 \<le> unat t" "unat t < 16384" | "16384 \<le> unat t" by linarith
  then show ?thesis
  proof cases
    case 1
    then show ?thesis using first_byte [OF assms] avail_bounds(2) [OF assms]
      by (cases "avail s") (auto simp: ExpectTag_def tag_ranges one_byte_tag)
  next
    case 2
    note v = two_byte_tag [OF 2]
    show ?thesis
    proof (cases "2 \<le> length (avail s)")
      case True
      then obtain b0 b1 bs where av: "avail s = b0 # b1 # bs"
        by (metis One_nat_def Suc_1 Suc_le_length_iff)
      then show ?thesis
        using 2 v first_byte [OF assms av] at_buffer_1 [OF assms av] avail_bounds(3) [OF assms, of 2]
        by (simp add: ExpectTag_def tag_ranges)
    next
      case False
      moreover from this have "take 2 (avail s) \<noteq> [ucast (t OR 0x80), ucast (drop_bit 7 t)]"
        by (auto dest: arg_cong [where f = length])
      ultimately show ?thesis
        using 2 v avail_bounds(3) [OF assms, of 2] by (simp add: ExpectTag_def tag_ranges numeral_2_eq_2)
    qed
  next
    case 3
    then show ?thesis by (simp add: ExpectTag_def tag_ranges)
  qed
qed

lemma ExpectTagFromArray_ok:
  assumes "p + length (varint (unat t)) \<le> length mem"
  shows "ExpectTagFromArray mem (int p) t = Some
     (if unat t < 16384 \<and> take (length (varint (unat t))) (drop p mem) = varint (unat t)
      then Some (int (p + length (varint (unat t)))) else None)"
proof -
  consider "unat t < 128" | "128 \<le> unat t" "unat t < 16384" | "16384 \<le> unat t" by linarith
  then show ?thesis
  proof cases
    case 1
    then obtain b bs where d: "drop p mem = b # bs" using assms by (cases "drop p mem") auto
    then show ?thesis using 1 arr_get_drop [OF d]
      by (simp add: ExpectTagFromArray_def tag_ranges one_byte_tag)
  next
    case 2
    note v = two_byte_tag [OF 2]
    have "2 \<le> length (drop p mem)" using assms v by simp
    then obtain b0 b1 bs where d: "drop p mem = b0 # b1 # bs"
      by (metis One_nat_def Suc_1 Suc_le_length_iff)
    then show ?thesis
      using 2 v arr_get_drop [OF d] arr_get_drop [OF drop_next [OF d]]
      by (simp add: ExpectTagFromArray_def tag_ranges add.commute)
  next
    case 3
    then show ?thesis by (simp add: ExpectTagFromArray_def tag_ranges)
  qed
qed

section \<open>Writing to the current buffer\<close>

definition cos_ok :: "'o coded_output_stream \<Rightarrow> bool" where
  "cos_ok s \<longleftrightarrow> 0 \<le> cos_buffer s \<and> 0 \<le> cos_buffer_size s \<and>
     cos_buffer s + cos_buffer_size s \<le> int (length (cos_mem s))"

text \<open>The raw write when the current buffer has room for all bytes.\<close>

definition raw_copy :: "byte list \<Rightarrow> 'o coded_output_stream \<Rightarrow> 'o coded_output_stream" where
  "raw_copy bs s = cos_Advance (int (length bs)) (s\<lparr>cos_mem := put_bytes (nat (cos_buffer s)) bs (cos_mem s)\<rparr>)"

text \<open>
  The comments promise that \<open>WriteRaw\<close> copies the bytes, that the slow paths compose the bytes
  and then use \<open>WriteRaw\<close>, and that \<open>WriteLittleEndian\<close> writes the little-endian bytes.
\<close>

definition output_cc_laws :: "'o output_cc \<Rightarrow> bool" where
  "output_cc_laws cc \<longleftrightarrow>
     (\<forall>bs s. cos_ok s \<longrightarrow> int (length bs) \<le> cos_buffer_size s \<longrightarrow>
        cc_WriteRaw cc bs (int (length bs)) s = Some (raw_copy bs s)) \<and>
     (\<forall>v s. cc_WriteVarint32SlowPath cc v s = cc_WriteRaw cc (varint (unat v)) (int (length (varint (unat v)))) s) \<and>
     (\<forall>v s. cc_WriteVarint64SlowPath cc v s = cc_WriteRaw cc (varint (unat v)) (int (length (varint (unat v)))) s) \<and>
     (\<forall>v s. cc_WriteLittleEndian32 cc v s = cc_WriteRaw cc (object_bytes v) 4 s) \<and>
     (\<forall>v s. cc_WriteLittleEndian64 cc v s = cc_WriteRaw cc (object_bytes v) 8 s)"

definition array_WriteRaw :: "byte list \<Rightarrow> int \<Rightarrow> 'o coded_output_stream \<Rightarrow> 'o coded_output_stream option" where
  "array_WriteRaw bs n s =
     (if n \<le> cos_buffer_size s then Some (raw_copy bs s)
      else Some (s\<lparr>cos_had_error := True, cos_buffer_size := 0\<rparr>))"

text \<open>The reference instance for a stream over one array: a write past its end is an error.\<close>

definition array_cc :: "'o output_cc" where
  "array_cc = \<lparr>
     cc_WriteVarint32SlowPath = \<lambda>v. array_WriteRaw (varint (unat v)) (int (length (varint (unat v)))),
     cc_WriteVarint64SlowPath = \<lambda>v. array_WriteRaw (varint (unat v)) (int (length (varint (unat v)))),
     cc_WriteRaw = array_WriteRaw,
     cc_WriteAliasedRaw = array_WriteRaw,
     cc_WriteLittleEndian32 = \<lambda>v. array_WriteRaw (object_bytes v) 4,
     cc_WriteLittleEndian64 = \<lambda>v. array_WriteRaw (object_bytes v) 8,
     cc_WriteRawToArray = \<lambda>bs n t mem. do { mem \<leftarrow> memcpy_to mem t bs; Some (t + n, mem) },
     cc_WriteStringWithSizeToArray = \<lambda>bs t mem. do {
        (t, mem) \<leftarrow> WriteVarint32ToArray (of_nat (length bs)) t mem;
        mem \<leftarrow> memcpy_to mem t bs; Some (t + int (length bs), mem) } \<rparr>"

lemma array_cc_laws: "output_cc_laws array_cc"
  by (simp add: output_cc_laws_def array_cc_def array_WriteRaw_def)

lemma fast_write:
  assumes "cos_ok s" "writes w bs" "int (length bs) \<le> cos_buffer_size s"
  shows "do { (end', mem) \<leftarrow> w (cos_buffer s) (cos_mem s);
              Some (cos_Advance (end' - cos_buffer s) (s\<lparr>cos_mem := mem\<rparr>)) } = Some (raw_copy bs s)"
proof -
  have "nat (cos_buffer s) + length bs \<le> length (cos_mem s)"
    using assms(1,3) unfolding cos_ok_def by linarith
  then show ?thesis
    using writesD [OF assms(2), of "nat (cos_buffer s)" "cos_mem s"] assms(1)
    by (simp add: cos_ok_def raw_copy_def)
qed

lemma WriteVarint32_raw:
  assumes "output_cc_laws cc" "cos_ok s"
  shows "WriteVarint32 cc v s = cc_WriteRaw cc (varint (unat v)) (int (length (varint (unat v)))) s"
proof (cases "5 \<le> cos_buffer_size s")
  case True
  then have "int (length (varint (unat v))) \<le> cos_buffer_size s" using length_varint_32 [of v] by linarith
  moreover have "cc_WriteRaw cc (varint (unat v)) (int (length (varint (unat v)))) s = Some (raw_copy (varint (unat v)) s)"
    using assms calculation unfolding output_cc_laws_def by blast
  ultimately show ?thesis
    using True fast_write [OF assms(2) writes_varint_loop [of v]]
    by (simp add: WriteVarint32_def WriteVarint32ToArray_def Let_def)
next
  case False
  then show ?thesis using assms by (simp add: WriteVarint32_def output_cc_laws_def)
qed

lemma WriteVarint64_raw:
  assumes "output_cc_laws cc" "cos_ok s"
  shows "WriteVarint64 cc v s = cc_WriteRaw cc (varint (unat v)) (int (length (varint (unat v)))) s"
proof (cases "10 \<le> cos_buffer_size s")
  case True
  then have "int (length (varint (unat v))) \<le> cos_buffer_size s" using length_varint_64 [of v] by linarith
  moreover have "cc_WriteRaw cc (varint (unat v)) (int (length (varint (unat v)))) s = Some (raw_copy (varint (unat v)) s)"
    using assms calculation unfolding output_cc_laws_def by blast
  ultimately show ?thesis
    using True fast_write [OF assms(2) writes_varint_loop [of v]]
    by (simp add: WriteVarint64_def WriteVarint64ToArray_def Let_def)
next
  case False
  then show ?thesis using assms by (simp add: WriteVarint64_def output_cc_laws_def)
qed

section \<open>The recursion budget\<close>

datatype depth_op = Enter | Leave | Limit_to int

primrec depth_exec :: "depth_op \<Rightarrow> 'i coded_input_stream \<Rightarrow> (bool \<times> 'i coded_input_stream) option" where
  "depth_exec Enter s = IncrementRecursionDepth s"
| "depth_exec Leave s = map_option (Pair True) (DecrementRecursionDepth s)"
| "depth_exec (Limit_to n) s = map_option (Pair True) (SetRecursionLimit n s)"

text \<open>The specification: a number of open messages and a limit; entering fails above the limit.\<close>

primrec depth_spec :: "depth_op \<Rightarrow> nat \<times> int \<Rightarrow> bool \<times> nat \<times> int" where
  "depth_spec Enter d = (int (fst d) < snd d, Suc (fst d), snd d)"
| "depth_spec Leave d = (True, fst d - 1, snd d)"
| "depth_spec (Limit_to n) d = (True, fst d, n)"

definition depth_is :: "'i coded_input_stream \<Rightarrow> nat \<times> int \<Rightarrow> bool" where
  "depth_is s d \<longleftrightarrow> cis_recursion_limit s = snd d \<and> cis_recursion_budget s = snd d - int (fst d)"

definition depth_room :: "nat \<Rightarrow> nat \<times> int \<Rightarrow> bool" where
  "depth_room k d \<longleftrightarrow> fst d + k < 2 ^ 30 \<and> 0 \<le> snd d \<and> snd d < 2 ^ 31"

fun run_ops :: "('o \<Rightarrow> 's \<Rightarrow> (bool \<times> 's) option) \<Rightarrow> 'o list \<Rightarrow> 's \<Rightarrow> (bool list \<times> 's) option" where
  "run_ops f [] s = Some ([], s)"
| "run_ops f (x # xs) s = do { (b, s) \<leftarrow> f x s; (bs, s) \<leftarrow> run_ops f xs s; Some (b # bs, s) }"

lemma depth_step:
  assumes "depth_is s d" "depth_room (Suc k) d" "\<And>n. x = Limit_to n \<Longrightarrow> 0 \<le> n \<and> n < 2 ^ 31"
  shows "\<exists>b s' d'. depth_exec x s = Some (b, s') \<and> depth_spec x d = (b, d') \<and> depth_is s' d' \<and> depth_room k d'"
  using assms
  by (cases x; cases d)
    (auto simp: depth_is_def depth_room_def IncrementRecursionDepth_def DecrementRecursionDepth_def
      SetRecursionLimit_def c_int_def of_nat_diff)

lemma depth_run:
  assumes "depth_is s d" "depth_room (length xs) d" "\<And>n. Limit_to n \<in> set xs \<Longrightarrow> 0 \<le> n \<and> n < 2 ^ 31"
  shows "\<exists>bs s' d'. run_ops depth_exec xs s = Some (bs, s') \<and>
     run_ops (\<lambda>x d. Some (depth_spec x d)) xs d = Some (bs, d') \<and> depth_is s' d'"
  using assms
proof (induction xs arbitrary: s d)
  case (Cons x xs)
  obtain b s' d' where x: "depth_exec x s = Some (b, s')" "depth_spec x d = (b, d')" "depth_is s' d'" "depth_room (length xs) d'"
    using depth_step [OF Cons.prems(1), of "length xs" x] Cons.prems(2,3) by auto
  show ?case using Cons.IH [OF x(3,4)] Cons.prems(3) x(1,2) by fastforce
qed simp

section \<open>Properties\<close>

text \<open>
  \<open>ReadTagWithCutoff\<close> reads what \<open>ReadTag\<close> reads. When the buffer holds a complete varint,
  with its two fast paths and its fallback it returns the same tag and leaves the stream in
  the same state, whatever the cutoff; its flag is true only for a tag not above the cutoff
  and false only for a tag above it or for the tag 0.
\<close>

theorem read_tag_with_cutoff_agrees:
  "input_cc_laws cc \<Longrightarrow> cis_ok s \<Longrightarrow> varint_ref 10 (avail s) = Some (Some (n, l)) \<Longrightarrow>
     \<exists>tag below s'. ReadTag cc s = Some (tag, s') \<and> ReadTagWithCutoff cc cutoff s = Some ((tag, below), s') \<and>
       tag = of_nat n \<and> cis_buffer s' = cis_buffer s + int l \<and> LastTagWas tag s' \<and>
       (below \<longrightarrow> tag \<le> cutoff) \<and> (\<not> below \<longrightarrow> tag = 0 \<or> cutoff < tag)"
  using ReadTagWithCutoff_ok [of cc s n l cutoff]
  by (auto simp: ReadTag_ok ReadTagWithCutoff_def LastTagWas_def cutoff_flag_def cis_Advance_def)

theorem read_tag_with_cutoff_agrees_witness:
  "\<exists>s'. ReadTag flat_cc (CodedInputStream_flat (flat_cc :: unit input_cc) [0xAC, 0x02, 0x07] 0 3) = Some (300, s') \<and>
     (\<exists>below. ReadTagWithCutoff flat_cc 500 (CodedInputStream_flat (flat_cc :: unit input_cc) [0xAC, 0x02, 0x07] 0 3) =
        Some ((300, below), s'))"
proof -
  let ?s = "CodedInputStream_flat (flat_cc :: unit input_cc) [0xAC, 0x02, 0x07] 0 3"
  have ok: "cis_ok ?s" and av: "avail ?s = [0xAC, 0x02, 0x07]"
    by (simp_all add: cis_ok_def CodedInputStream_flat_def avail_def)
  have "varint_ref 10 (avail ?s) = Some (Some (300, 2))"
    unfolding av using varint_ref_two [of "0xAC" "0x02" 8 "[0x07]"] by simp
  with ok show ?thesis
    using read_tag_with_cutoff_agrees [OF flat_cc_laws, of ?s 300 2 500] by auto
qed

text \<open>
  A tag is expected exactly when it is next. On every well-formed stream \<open>ExpectTag\<close> is
  defined and true exactly for a tag below \<open>2 ^ 14\<close> whose encoding is next in the buffer; it
  then advances past it as reading the tag would, and otherwise leaves the stream alone.
  \<open>ExpectTagFromArray\<close> decides the same on the raw array.
\<close>

theorem expect_tag_is_next_tag:
  "cis_ok s \<Longrightarrow> cis_buffer_end s = int (length (cis_mem s)) \<Longrightarrow> input_cc_laws cc \<Longrightarrow>
     \<exists>yes s'. ExpectTag t s = Some (yes, s') \<and>
       (yes \<longleftrightarrow> unat t < 2 ^ 14 \<and> take (length (varint (unat t))) (avail s) = varint (unat t)) \<and>
       (yes \<longrightarrow> ReadTagNoLastTag cc s = Some (t, s')) \<and> (\<not> yes \<longrightarrow> s' = s) \<and>
       (length (varint (unat t)) \<le> length (avail s) \<longrightarrow>
          ExpectTagFromArray (cis_mem s) (cis_buffer s) t = Some (if yes then Some (cis_buffer s') else None))"
proof -
  assume s: "cis_ok s" "cis_buffer_end s = int (length (cis_mem s))" "input_cc_laws cc"
  let ?v = "varint (unat t)"
  have av: "avail s = drop (nat (cis_buffer s)) (cis_mem s)"
    using s(1,2) by (simp add: avail_def cis_ok_def nat_diff_distrib)
  have read: "ReadTagNoLastTag cc s = Some (t, cis_Advance (int (length ?v)) s)" if "take (length ?v) (avail s) = ?v"
  proof -
    have eq: "?v @ drop (length ?v) (avail s) = avail s" using that by (metis append_take_drop_id)
    have "length ?v \<le> 10" using length_varint_32 [of t] by simp
    then have "varint_ref 10 (avail s) = Some (Some (unat t, length ?v))"
      using varint_ref_varint [of "unat t" 10 "drop (length ?v) (avail s)"] by (simp only: eq)
    then show ?thesis using ReadTagNoLastTag_ok [OF s(3,1)] by simp
  qed
  have arr: "ExpectTagFromArray (cis_mem s) (cis_buffer s) t = Some
      (if unat t < 16384 \<and> take (length ?v) (avail s) = ?v then Some (cis_buffer s + int (length ?v)) else None)"
    if "length ?v \<le> length (avail s)"
  proof -
    have "nat (cis_buffer s) + length ?v \<le> length (cis_mem s)"
      using that s(1) unfolding av cis_ok_def length_drop by linarith
    then show ?thesis
      using ExpectTagFromArray_ok [of "nat (cis_buffer s)" t "cis_mem s"] s(1) by (simp add: av cis_ok_def)
  qed
  show ?thesis
    using read arr by (simp add: ExpectTag_ok [OF s(1)]) (auto simp: cis_Advance_def)
qed

theorem expect_tag_is_next_tag_witness:
  "\<exists>s'. ExpectTag 300 (CodedInputStream_flat (flat_cc :: unit input_cc) [0xAC, 0x02, 0x07] 0 3) = Some (True, s')"
proof -
  let ?s = "CodedInputStream_flat (flat_cc :: unit input_cc) [0xAC, 0x02, 0x07] 0 3"
  have ok: "cis_ok ?s" "cis_buffer_end ?s = int (length (cis_mem ?s))"
    and next_tag: "take (length (varint 300)) (avail ?s) = varint 300"
    by (simp_all add: cis_ok_def CodedInputStream_flat_def avail_def varint_big)
  obtain yes s' where "ExpectTag 300 ?s = Some (yes, s')"
    "yes \<longleftrightarrow> unat (300 :: 32 word) < 2 ^ 14 \<and> take (length (varint (unat (300 :: 32 word)))) (avail ?s) = varint (unat (300 :: 32 word))"
    using expect_tag_is_next_tag [OF ok flat_cc_laws, of 300] by blast
  then show ?thesis using next_tag by simp
qed

text \<open>
  The fast path of the varint writers is the slow one. On a well-formed output stream,
  however much room its buffer has, writing a 32- or 64-bit varint is the raw write of its
  encoding; with room for it the encoding is put at the buffer pointer, the rest of the
  buffer is unchanged, and the byte count grows by \<open>VarintSize32\<close> or \<open>VarintSize64\<close>.
\<close>

theorem stream_varint_fast_path:
  "output_cc_laws cc \<Longrightarrow> cos_ok s \<Longrightarrow> 0 \<le> cos_total_bytes s - cos_buffer_size s \<Longrightarrow> cos_total_bytes s < 2 ^ 31 - 10 \<Longrightarrow>
     WriteVarint32 cc v s = cc_WriteRaw cc (varint (unat v)) (int (length (varint (unat v)))) s \<and>
     WriteVarint64 cc w s = cc_WriteRaw cc (varint (unat w)) (int (length (varint (unat w)))) s \<and>
     (5 \<le> cos_buffer_size s \<longrightarrow> (\<exists>s' l c. WriteVarint32 cc v s = Some s' \<and> VarintSize32 v = Some l \<and>
        ByteCount s = Some c \<and> ByteCount s' = Some (c + int l) \<and> cos_ok s' \<and>
        cos_mem s' = put_bytes (nat (cos_buffer s)) (varint (unat v)) (cos_mem s)))"
proof -
  assume a: "output_cc_laws cc" "cos_ok s" "0 \<le> cos_total_bytes s - cos_buffer_size s" "cos_total_bytes s < 2 ^ 31 - 10"
  have "\<exists>s' l c. WriteVarint32 cc v s = Some s' \<and> VarintSize32 v = Some l \<and>
        ByteCount s = Some c \<and> ByteCount s' = Some (c + int l) \<and> cos_ok s' \<and>
        cos_mem s' = put_bytes (nat (cos_buffer s)) (varint (unat v)) (cos_mem s)" if five: "5 \<le> cos_buffer_size s"
  proof (intro exI conjI)
    have l: "int (length (varint (unat v))) \<le> cos_buffer_size s" "length (varint (unat v)) \<le> 5"
      using five length_varint_32 [of v] by linarith+
    show "WriteVarint32 cc v s = Some (raw_copy (varint (unat v)) s)"
      using WriteVarint32_raw [OF a(1,2)] a(1,2) l unfolding output_cc_laws_def by simp
    show "VarintSize32 v = Some (length (varint (unat v)))" by (rule VarintSize32_length)
    show "ByteCount s = Some (cos_total_bytes s - cos_buffer_size s)"
      using a(2,3,4) by (simp add: ByteCount_def c_int_def cos_ok_def)
    show "ByteCount (raw_copy (varint (unat v)) s) = Some (cos_total_bytes s - cos_buffer_size s + int (length (varint (unat v))))"
      using a(2,3,4) l by (simp add: ByteCount_def c_int_def raw_copy_def cos_Advance_def cos_ok_def)
    have "nat (cos_buffer s) + length (varint (unat v)) \<le> length (cos_mem s)"
      using a(2) l unfolding cos_ok_def by linarith
    then show "cos_ok (raw_copy (varint (unat v)) s)"
      using a(2) l by (simp add: cos_ok_def raw_copy_def cos_Advance_def length_put_bytes)
    show "cos_mem (raw_copy (varint (unat v)) s) = put_bytes (nat (cos_buffer s)) (varint (unat v)) (cos_mem s)"
      by (simp add: raw_copy_def cos_Advance_def)
  qed
  then show ?thesis using WriteVarint32_raw [OF a(1,2)] WriteVarint64_raw [OF a(1,2)] by blast
qed

definition demo_output :: "unit coded_output_stream" where
  "demo_output = \<lparr>cos_output = None, cos_mem = [1, 2, 3, 4, 5, 6], cos_buffer = 1, cos_buffer_size = 5,
     cos_total_bytes = 6, cos_had_error = False, cos_aliasing_enabled = False,
     cos_is_serialization_deterministic = False\<rparr>"

theorem stream_varint_fast_path_witness:
  "\<exists>s'. WriteVarint32 array_cc 300 demo_output = Some s' \<and> cos_mem s' = [1, 0xAC, 0x02, 4, 5, 6]"
proof -
  have "cos_ok demo_output" "0 \<le> cos_total_bytes demo_output - cos_buffer_size demo_output"
    "cos_total_bytes demo_output < 2 ^ 31 - 10" "5 \<le> cos_buffer_size demo_output"
    by (simp_all add: cos_ok_def demo_output_def)
  then obtain s' where "WriteVarint32 array_cc 300 demo_output = Some s'"
    "cos_mem s' = put_bytes (nat (cos_buffer demo_output)) (varint (unat (300 :: 32 word))) (cos_mem demo_output)"
    using stream_varint_fast_path [OF array_cc_laws, of demo_output 300 0] by blast
  then show ?thesis by (simp add: demo_output_def varint_big put_bytes_def)
qed

text \<open>
  The recursion budget counts the open messages. Along every sequence of entering and
  leaving messages and changing the limit, of less than \<open>2 ^ 30\<close> steps, the stream's budget is
  its limit minus the number of open messages, and \<open>IncrementRecursionDepth\<close> returns false
  exactly when more messages than the limit allows are open; leaving more messages than were
  entered never raises the budget above the limit.
\<close>

theorem recursion_budget_refines_depth:
  "length xs < 2 ^ 30 \<Longrightarrow> (\<forall>n. Limit_to n \<in> set xs \<longrightarrow> 0 \<le> n \<and> n < 2 ^ 31) \<Longrightarrow>
   0 \<le> cc_default_recursion_limit cc \<Longrightarrow> cc_default_recursion_limit cc < 2 ^ 31 \<Longrightarrow>
     \<exists>bs s' d'. run_ops depth_exec xs (CodedInputStream_flat cc mem p n) = Some (bs, s') \<and>
       run_ops (\<lambda>x d. Some (depth_spec x d)) xs (0, cc_default_recursion_limit cc) = Some (bs, d') \<and>
       cis_recursion_limit s' = snd d' \<and> RecursionBudget s' = snd d' - int (fst d') \<and>
       RecursionBudget s' \<le> cis_recursion_limit s'"
proof -
  assume a: "length xs < 2 ^ 30" "\<forall>n. Limit_to n \<in> set xs \<longrightarrow> 0 \<le> n \<and> n < 2 ^ 31"
    "0 \<le> cc_default_recursion_limit cc" "cc_default_recursion_limit cc < 2 ^ 31"
  have "depth_is (CodedInputStream_flat cc mem p n) (0, cc_default_recursion_limit cc)"
    by (simp add: depth_is_def CodedInputStream_flat_def)
  moreover have "depth_room (length xs) (0, cc_default_recursion_limit cc)"
    using a by (simp add: depth_room_def)
  ultimately show ?thesis
    using depth_run [of "CodedInputStream_flat cc mem p n" _ xs] a(2)
    by (fastforce simp: depth_is_def RecursionBudget_def)
qed

theorem recursion_budget_refines_depth_witness:
  "\<exists>s'. run_ops depth_exec [Limit_to 1, Enter, Enter, Leave, Leave, Leave]
       (CodedInputStream_flat (flat_cc :: unit input_cc) [] 0 0) = Some ([True, True, False, True, True, True], s') \<and>
     RecursionBudget s' = 1"
  using recursion_budget_refines_depth [of "[Limit_to 1, Enter, Enter, Leave, Leave, Leave]" "flat_cc :: unit input_cc" "[]" 0 0]
  by (auto simp: flat_cc_def)

end
