(* ===== verification/Repeated_Field.thy ===== *)
theory Repeated_Field
  imports Cpp_Prelude
begin

text \<open>
  \<open>RepeatedField<Element>\<close> of \<open>google/protobuf/repeated_field.h\<close>: the growable array behind
  repeated fields of primitive type. The template argument is the type variable \<^typ>\<open>'e\<close>.

  An element that has never been written is indeterminate in C++ (\<open>new (e) Element\<close> leaves
  a primitive value uninitialised); it is \<^term>\<open>None\<close> here. The union \<open>ptr_\<close> is a datatype,
  and reading its inactive member is undefined. Pointers and iterators into the array are
  indices (\<^term>\<open>None\<close> is the null pointer). Operations with a second field work on a store of
  fields, so that the aliasing tests of the code are meaningful. Allocation is taken to
  succeed; freeing has no effect on the values and is left out.
\<close>

section \<open>State\<close>

definition kMinRepeatedFieldAllocationSize :: int where
  "kMinRepeatedFieldAllocationSize = 4"

datatype 'e rf_pointer =
    Ptr_arena "nat option"
  | Ptr_elements (rep_arena: "nat option") (rep_elements: "'e option list")

record 'e repeated_field =
  rf_current_size :: int
  rf_total_size :: int
  rf_ptr :: "'e rf_pointer"

definition rf_elements :: "'e repeated_field \<Rightarrow> 'e option list option" where
  "rf_elements f = do {
     GOOGLE_DCHECK (rf_total_size f > 0);
     (case rf_ptr f of Ptr_elements a es \<Rightarrow> Some es | Ptr_arena a \<Rightarrow> None)
   }"

definition set_elements :: "'e option list \<Rightarrow> 'e repeated_field \<Rightarrow> 'e repeated_field" where
  "set_elements es f = f\<lparr>rf_ptr := (case rf_ptr f of Ptr_elements a old \<Rightarrow> Ptr_elements a es | Ptr_arena a \<Rightarrow> Ptr_arena a)\<rparr>"

definition rf_rep :: "'e repeated_field \<Rightarrow> (nat option \<times> 'e option list) option" where
  "rf_rep f = do {
     GOOGLE_DCHECK (rf_total_size f > 0);
     (case rf_ptr f of Ptr_elements a es \<Rightarrow> Some (a, es) | Ptr_arena a \<Rightarrow> None)
   }"

definition rf_GetArenaNoVirtual :: "'e repeated_field \<Rightarrow> nat option option" where
  "rf_GetArenaNoVirtual f =
     (if rf_total_size f = 0
      then (case rf_ptr f of Ptr_arena a \<Rightarrow> Some a | Ptr_elements a es \<Rightarrow> None)
      else map_option fst (rf_rep f))"

section \<open>Operations on one field\<close>

definition rf_new :: "nat option \<Rightarrow> 'e repeated_field" where
  "rf_new arena = \<lparr>rf_current_size = 0, rf_total_size = 0, rf_ptr = Ptr_arena arena\<rparr>"

definition rf_empty :: "'e repeated_field \<Rightarrow> bool" where
  "rf_empty f \<longleftrightarrow> rf_current_size f = 0"

definition rf_size :: "'e repeated_field \<Rightarrow> int" where
  "rf_size f = rf_current_size f"

definition rf_Capacity :: "'e repeated_field \<Rightarrow> int" where
  "rf_Capacity f = rf_total_size f"

definition rf_Reserve :: "int \<Rightarrow> 'e repeated_field \<Rightarrow> 'e repeated_field option" where
  "rf_Reserve new_size f =
     (if rf_total_size f \<ge> new_size then Some f
      else do {
        old_rep \<leftarrow> (if rf_total_size f > 0 then map_option Some (rf_rep f) else Some None);
        arena \<leftarrow> rf_GetArenaNoVirtual f;
        doubled \<leftarrow> c_int (rf_total_size f * 2);
        let new_size = max kMinRepeatedFieldAllocationSize (max doubled new_size);
        let fresh = replicate (nat new_size) None;
        es \<leftarrow> (if rf_current_size f > 0
               then do { (a, old) \<leftarrow> old_rep; arr_copy fresh 0 old 0 (rf_current_size f) }
               else Some fresh);
        Some (f\<lparr>rf_total_size := new_size, rf_ptr := Ptr_elements arena es\<rparr>)
      })"

definition rf_AddAlreadyReserved :: "'e option \<Rightarrow> 'e repeated_field \<Rightarrow> 'e repeated_field option" where
  "rf_AddAlreadyReserved value f = do {
     GOOGLE_DCHECK (rf_current_size f < rf_total_size f);
     es \<leftarrow> rf_elements f;
     es \<leftarrow> arr_set es (rf_current_size f) value;
     n \<leftarrow> c_int (rf_current_size f + 1);
     Some ((set_elements es f)\<lparr>rf_current_size := n\<rparr>)
   }"

definition rf_AddAlreadyReserved_uninit :: "'e repeated_field \<Rightarrow> (int \<times> 'e repeated_field) option" where
  "rf_AddAlreadyReserved_uninit f = do {
     GOOGLE_DCHECK (rf_current_size f < rf_total_size f);
     es \<leftarrow> rf_elements f;
     n \<leftarrow> c_int (rf_current_size f + 1);
     Some (rf_current_size f, f\<lparr>rf_current_size := n\<rparr>)
   }"

definition rf_AddNAlreadyReserved :: "int \<Rightarrow> 'e repeated_field \<Rightarrow> (int \<times> 'e repeated_field) option" where
  "rf_AddNAlreadyReserved n f = do {
     GOOGLE_DCHECK (rf_total_size f - rf_current_size f \<ge> n);
     m \<leftarrow> c_int (rf_current_size f + n);
     Some (rf_current_size f, f\<lparr>rf_current_size := m\<rparr>)
   }"

definition rf_Resize :: "int \<Rightarrow> 'e option \<Rightarrow> 'e repeated_field \<Rightarrow> 'e repeated_field option" where
  "rf_Resize new_size value f = do {
     GOOGLE_DCHECK (new_size \<ge> 0);
     f \<leftarrow> (if new_size > rf_current_size f then do {
             f \<leftarrow> rf_Reserve new_size f;
             es \<leftarrow> rf_elements f;
             es \<leftarrow> arr_fill es (rf_current_size f) new_size value;
             Some (set_elements es f)
           }
           else Some f);
     Some (f\<lparr>rf_current_size := new_size\<rparr>)
   }"

definition rf_Get :: "int \<Rightarrow> 'e repeated_field \<Rightarrow> 'e option option" where
  "rf_Get index f = do {
     GOOGLE_DCHECK (index \<ge> 0);
     GOOGLE_DCHECK (index < rf_current_size f);
     es \<leftarrow> rf_elements f;
     arr_get es index
   }"

definition rf_Mutable :: "int \<Rightarrow> 'e repeated_field \<Rightarrow> int option" where
  "rf_Mutable index f = do {
     GOOGLE_DCHECK (index \<ge> 0);
     GOOGLE_DCHECK (index < rf_current_size f);
     es \<leftarrow> rf_elements f;
     Some index
   }"

definition rf_Set :: "int \<Rightarrow> 'e option \<Rightarrow> 'e repeated_field \<Rightarrow> 'e repeated_field option" where
  "rf_Set index value f = do {
     GOOGLE_DCHECK (index \<ge> 0);
     GOOGLE_DCHECK (index < rf_current_size f);
     es \<leftarrow> rf_elements f;
     es \<leftarrow> arr_set es index value;
     Some (set_elements es f)
   }"

definition rf_Add :: "'e option \<Rightarrow> 'e repeated_field \<Rightarrow> 'e repeated_field option" where
  "rf_Add value f = do {
     f \<leftarrow> (if rf_current_size f = rf_total_size f
           then do { n \<leftarrow> c_int (rf_total_size f + 1); rf_Reserve n f } else Some f);
     es \<leftarrow> rf_elements f;
     es \<leftarrow> arr_set es (rf_current_size f) value;
     n \<leftarrow> c_int (rf_current_size f + 1);
     Some ((set_elements es f)\<lparr>rf_current_size := n\<rparr>)
   }"

definition rf_Add_uninit :: "'e repeated_field \<Rightarrow> (int \<times> 'e repeated_field) option" where
  "rf_Add_uninit f = do {
     f \<leftarrow> (if rf_current_size f = rf_total_size f
           then do { n \<leftarrow> c_int (rf_total_size f + 1); rf_Reserve n f } else Some f);
     es \<leftarrow> rf_elements f;
     n \<leftarrow> c_int (rf_current_size f + 1);
     Some (rf_current_size f, f\<lparr>rf_current_size := n\<rparr>)
   }"

definition rf_RemoveLast :: "'e repeated_field \<Rightarrow> 'e repeated_field option" where
  "rf_RemoveLast f = do {
     GOOGLE_DCHECK (rf_current_size f > 0);
     Some (f\<lparr>rf_current_size := rf_current_size f - 1\<rparr>)
   }"

definition rf_Truncate :: "int \<Rightarrow> 'e repeated_field \<Rightarrow> 'e repeated_field option" where
  "rf_Truncate new_size f = do {
     GOOGLE_DCHECK (new_size \<le> rf_current_size f);
     Some (if rf_current_size f > 0 then f\<lparr>rf_current_size := new_size\<rparr> else f)
   }"

text \<open>The two loops of \<open>ExtractSubrange\<close>; \<open>k\<close> counts the iterations that are left.\<close>

primrec rf_save_loop :: "nat \<Rightarrow> int \<Rightarrow> 'e repeated_field \<Rightarrow> 'e option list option" where
  "rf_save_loop 0 i f = Some []"
| "rf_save_loop (Suc k) i f = do { v \<leftarrow> rf_Get i f; vs \<leftarrow> rf_save_loop k (i + 1) f; Some (v # vs) }"

primrec rf_slide_loop :: "nat \<Rightarrow> int \<Rightarrow> int \<Rightarrow> 'e repeated_field \<Rightarrow> 'e repeated_field option" where
  "rf_slide_loop 0 i num f = Some f"
| "rf_slide_loop (Suc k) i num f = do {
     v \<leftarrow> rf_Get i f;
     f \<leftarrow> rf_Set (i - num) v f;
     rf_slide_loop k (i + 1) num f
   }"

definition rf_ExtractSubrange ::
  "int \<Rightarrow> int \<Rightarrow> bool \<Rightarrow> 'e repeated_field \<Rightarrow> ('e option list \<times> 'e repeated_field) option" where
  "rf_ExtractSubrange start num want f = do {
     GOOGLE_DCHECK (start \<ge> 0);
     GOOGLE_DCHECK (num \<ge> 0);
     e \<leftarrow> c_int (start + num);
     GOOGLE_DCHECK (e \<le> rf_current_size f);
     saved \<leftarrow> (if want then rf_save_loop (nat num) start f else Some []);
     f \<leftarrow> (if num > 0 then do {
             f \<leftarrow> rf_slide_loop (nat (rf_current_size f - e)) e num f;
             rf_Truncate (rf_current_size f - num) f
           }
           else Some f);
     Some (saved, f)
   }"

definition rf_Clear :: "'e repeated_field \<Rightarrow> 'e repeated_field" where
  "rf_Clear f = f\<lparr>rf_current_size := 0\<rparr>"

definition rf_SwapElements :: "int \<Rightarrow> int \<Rightarrow> 'e repeated_field \<Rightarrow> 'e repeated_field option" where
  "rf_SwapElements index1 index2 f = do {
     es \<leftarrow> rf_elements f;
     v1 \<leftarrow> arr_get es index1;
     v2 \<leftarrow> arr_get es index2;
     es \<leftarrow> arr_set es index1 v2;
     es \<leftarrow> arr_set es index2 v1;
     Some (set_elements es f)
   }"

definition rf_data :: "'e repeated_field \<Rightarrow> int option option" where
  "rf_data f = (if rf_total_size f > 0 then do { es \<leftarrow> rf_elements f; Some (Some 0) } else Some None)"

definition rf_begin :: "'e repeated_field \<Rightarrow> int option option" where
  "rf_begin f = (if rf_total_size f > 0 then do { es \<leftarrow> rf_elements f; Some (Some 0) } else Some None)"

definition rf_end :: "'e repeated_field \<Rightarrow> int option option" where
  "rf_end f = (if rf_total_size f > 0 then do { es \<leftarrow> rf_elements f; Some (Some (rf_current_size f)) } else Some None)"

text \<open>Subtracting two pointers into the array, or two null pointers.\<close>

definition ptr_diff :: "int option \<Rightarrow> int option \<Rightarrow> int option" where
  "ptr_diff p q = (case (p, q) of (Some i, Some j) \<Rightarrow> Some (i - j) | (None, None) \<Rightarrow> Some 0 | _ \<Rightarrow> None)"

definition ptr_add :: "int option \<Rightarrow> int \<Rightarrow> int option option" where
  "ptr_add p n = (case p of Some i \<Rightarrow> Some (Some (i + n)) | None \<Rightarrow> if n = 0 then Some None else None)"

text \<open>\<open>std::copy\<close> to a lower position of the same array, element by element.\<close>

primrec copy_down :: "nat \<Rightarrow> int \<Rightarrow> int \<Rightarrow> 'a list \<Rightarrow> 'a list option" where
  "copy_down 0 src dst xs = Some xs"
| "copy_down (Suc k) src dst xs = do {
     v \<leftarrow> arr_get xs src;
     xs \<leftarrow> arr_set xs dst v;
     copy_down k (src + 1) (dst + 1) xs
   }"

definition rf_erase_range ::
  "int option \<Rightarrow> int option \<Rightarrow> 'e repeated_field \<Rightarrow> (int option \<times> 'e repeated_field) option" where
  "rf_erase_range first limit f = do {
     cbegin \<leftarrow> rf_begin f;
     first_offset \<leftarrow> ptr_diff first cbegin;
     f \<leftarrow> (if first \<noteq> limit then do {
             l \<leftarrow> limit;
             cend \<leftarrow> rf_end f;
             n \<leftarrow> ptr_diff cend limit;
             es \<leftarrow> rf_elements f;
             es \<leftarrow> copy_down (nat n) l first_offset es;
             rf_Truncate (first_offset + n) (set_elements es f)
           }
           else Some f);
     b \<leftarrow> rf_begin f;
     r \<leftarrow> ptr_add b first_offset;
     Some (r, f)
   }"

definition rf_erase :: "int option \<Rightarrow> 'e repeated_field \<Rightarrow> (int option \<times> 'e repeated_field) option" where
  "rf_erase position f = do { next \<leftarrow> ptr_add position 1; rf_erase_range position next f }"

definition rf_SpaceUsedExcludingSelfLong :: "nat \<Rightarrow> nat \<Rightarrow> 'e repeated_field \<Rightarrow> nat" where
  "rf_SpaceUsedExcludingSelfLong sizeof_Element kRepHeaderSize f =
     (if rf_total_size f > 0 then nat (rf_total_size f) * sizeof_Element + kRepHeaderSize else 0)"

section \<open>Operations on two fields\<close>

text \<open>\<open>Reserve\<close>, \<open>AddNAlreadyReserved\<close> and \<open>CopyArray\<close> from another field, the common body of
  the copy constructor and \<open>MergeFrom\<close>.\<close>

definition rf_CopyArray ::
  "int \<Rightarrow> 'e repeated_field \<Rightarrow> int \<Rightarrow> int \<Rightarrow> 'e repeated_field \<Rightarrow> 'e repeated_field option" where
  "rf_CopyArray to from i array_size f = do {
     src \<leftarrow> rf_elements from;
     es \<leftarrow> rf_elements f;
     es \<leftarrow> arr_copy es to src i array_size;
     Some (set_elements es f)
   }"

definition rf_merge_value :: "'e repeated_field \<Rightarrow> 'e repeated_field \<Rightarrow> 'e repeated_field option" where
  "rf_merge_value other f =
     (if rf_current_size other \<noteq> 0 then do {
        let existing_size = rf_size f;
        n \<leftarrow> c_int (existing_size + rf_size other);
        f \<leftarrow> rf_Reserve n f;
        (p, f) \<leftarrow> rf_AddNAlreadyReserved (rf_size other) f;
        to \<leftarrow> rf_Mutable existing_size f;
        from \<leftarrow> rf_Mutable 0 other;
        rf_CopyArray to other from (rf_size other) f
      }
      else Some f)"

definition rf_copy_new :: "'e repeated_field \<Rightarrow> 'e repeated_field option" where
  "rf_copy_new other =
     (let f = rf_new None in
      if rf_current_size other \<noteq> 0 then do {
        f \<leftarrow> rf_Reserve (rf_size other) f;
        (p, f) \<leftarrow> rf_AddNAlreadyReserved (rf_size other) f;
        to \<leftarrow> rf_Mutable 0 f;
        from \<leftarrow> rf_Mutable 0 other;
        rf_CopyArray to other from (rf_size other) f
      }
      else Some f)"

text \<open>\<open>RepeatedField (begin, end)\<close>: \<open>forward\<close> says that the distance is known in advance.\<close>

definition CalculateReserve :: "bool \<Rightarrow> 'e list \<Rightarrow> int option" where
  "CalculateReserve forward xs = (if forward then c_int (int (length xs)) else Some (- 1))"

definition rf_range_new :: "bool \<Rightarrow> 'e list \<Rightarrow> 'e repeated_field option" where
  "rf_range_new forward xs = do {
     reserve \<leftarrow> CalculateReserve forward xs;
     (if reserve \<noteq> - 1
      then do { f \<leftarrow> rf_Reserve reserve (rf_new None); insert_all rf_AddAlreadyReserved (map Some xs) f }
      else insert_all rf_Add (map Some xs) (rf_new None))
   }"

type_synonym 'e rf_store = "nat \<rightharpoonup> 'e repeated_field"

definition rf_MergeFrom :: "nat \<Rightarrow> nat \<Rightarrow> 'e rf_store \<Rightarrow> 'e rf_store option" where
  "rf_MergeFrom this other s = do {
     GOOGLE_DCHECK (other \<noteq> this);
     f \<leftarrow> s this;
     g \<leftarrow> s other;
     f \<leftarrow> rf_merge_value g f;
     Some (s(this \<mapsto> f))
   }"

definition rf_CopyFrom :: "nat \<Rightarrow> nat \<Rightarrow> 'e rf_store \<Rightarrow> 'e rf_store option" where
  "rf_CopyFrom this other s =
     (if other = this then Some s
      else do {
        f \<leftarrow> s this;
        rf_MergeFrom this other (s(this \<mapsto> rf_Clear f))
      })"

definition rf_assign :: "nat \<Rightarrow> nat \<Rightarrow> 'e rf_store \<Rightarrow> 'e rf_store option" where
  "rf_assign this other s = (if this \<noteq> other then rf_CopyFrom this other s else Some s)"

definition rf_InternalSwap :: "nat \<Rightarrow> nat \<Rightarrow> 'e rf_store \<Rightarrow> 'e rf_store option" where
  "rf_InternalSwap this other s = do {
     GOOGLE_DCHECK (this \<noteq> other);
     f \<leftarrow> s this;
     g \<leftarrow> s other;
     a \<leftarrow> rf_GetArenaNoVirtual f;
     b \<leftarrow> rf_GetArenaNoVirtual g;
     GOOGLE_DCHECK (a = b);
     Some (s(this \<mapsto> g, other \<mapsto> f))
   }"

definition rf_UnsafeArenaSwap :: "nat \<Rightarrow> nat \<Rightarrow> 'e rf_store \<Rightarrow> 'e rf_store option" where
  "rf_UnsafeArenaSwap this other s = (if this = other then Some s else rf_InternalSwap this other s)"

text \<open>
  \<open>Swap\<close> creates its local \<open>temp\<close> at an address that no live field has.
\<close>

definition rf_Swap :: "nat \<Rightarrow> nat \<Rightarrow> nat \<Rightarrow> 'e rf_store \<Rightarrow> 'e rf_store option" where
  "rf_Swap temp this other s =
     (if this = other then Some s
      else do {
        f \<leftarrow> s this;
        g \<leftarrow> s other;
        a \<leftarrow> rf_GetArenaNoVirtual f;
        b \<leftarrow> rf_GetArenaNoVirtual g;
        (if a = b then rf_InternalSwap this other s
         else do {
           let s = s(temp \<mapsto> rf_new b);
           s \<leftarrow> rf_MergeFrom temp this s;
           s \<leftarrow> rf_CopyFrom this other s;
           s \<leftarrow> rf_UnsafeArenaSwap other temp s;
           Some (s(temp := None))
         })
      })"

definition rf_move_new :: "nat \<Rightarrow> nat \<Rightarrow> 'e rf_store \<Rightarrow> 'e rf_store option" where
  "rf_move_new this other s = do {
     let s = s(this \<mapsto> rf_new None);
     g \<leftarrow> s other;
     b \<leftarrow> rf_GetArenaNoVirtual g;
     (if b \<noteq> None then rf_CopyFrom this other s else rf_InternalSwap this other s)
   }"

definition rf_move_assign :: "nat \<Rightarrow> nat \<Rightarrow> 'e rf_store \<Rightarrow> 'e rf_store option" where
  "rf_move_assign this other s =
     (if this \<noteq> other then do {
        f \<leftarrow> s this;
        g \<leftarrow> s other;
        a \<leftarrow> rf_GetArenaNoVirtual f;
        b \<leftarrow> rf_GetArenaNoVirtual g;
        (if a \<noteq> b then rf_CopyFrom this other s else rf_InternalSwap this other s)
      }
      else Some s)"

section \<open>Invariant and contents\<close>

definition rf_inv :: "'e repeated_field \<Rightarrow> bool" where
  "rf_inv f \<longleftrightarrow> 0 \<le> rf_current_size f \<and> rf_current_size f \<le> rf_total_size f \<and> rf_total_size f < 2 ^ 31 \<and>
     (case rf_ptr f of Ptr_arena a \<Rightarrow> rf_total_size f = 0
      | Ptr_elements a es \<Rightarrow> 0 < rf_total_size f \<and> length es = nat (rf_total_size f))"

definition rf_list :: "'e repeated_field \<Rightarrow> 'e option list" where
  "rf_list f = (case rf_ptr f of Ptr_arena a \<Rightarrow> [] | Ptr_elements a es \<Rightarrow> take (nat (rf_current_size f)) es)"

definition rf_arena :: "'e repeated_field \<Rightarrow> nat option" where
  "rf_arena f = (case rf_ptr f of Ptr_arena a \<Rightarrow> a | Ptr_elements a es \<Rightarrow> a)"

text \<open>The two shapes of a well-formed field.\<close>

definition rf_full :: "nat option \<Rightarrow> 'e option list \<Rightarrow> nat \<Rightarrow> 'e repeated_field" where
  "rf_full a es n = \<lparr>rf_current_size = int n, rf_total_size = int (length es), rf_ptr = Ptr_elements a es\<rparr>"

definition rf_result :: "'e repeated_field \<Rightarrow> 'e repeated_field option \<Rightarrow> 'e option list \<Rightarrow> bool" where
  "rf_result f r xs \<longleftrightarrow> (\<exists>g. r = Some g \<and> rf_inv g \<and> rf_list g = xs \<and> rf_arena g = rf_arena f)"

lemma rf_full_fields [simp]:
  "rf_current_size (rf_full a es n) = int n" "rf_total_size (rf_full a es n) = int (length es)"
  "rf_ptr (rf_full a es n) = Ptr_elements a es" "set_elements es' (rf_full a es n) = (rf_full a es n)\<lparr>rf_ptr := Ptr_elements a es'\<rparr>"
  by (simp_all add: rf_full_def set_elements_def)

lemma rf_full_update:
  "length es' = length es \<Longrightarrow> (rf_full a es n)\<lparr>rf_ptr := Ptr_elements a es'\<rparr> = rf_full a es' n"
  "(rf_full a es n)\<lparr>rf_current_size := int m\<rparr> = rf_full a es m"
  by (simp_all add: rf_full_def)

lemma rf_full_step:
  "length es' = length es \<Longrightarrow> 0 \<le> m \<Longrightarrow>
     (rf_full a es n)\<lparr>rf_ptr := Ptr_elements a es', rf_current_size := m\<rparr> = rf_full a es' (nat m)"
  by (simp add: rf_full_def)

lemma rf_new_fields [simp]:
  "rf_current_size (rf_new a) = 0" "rf_total_size (rf_new a) = 0" "rf_ptr (rf_new a) = Ptr_arena a"
  by (simp_all add: rf_new_def)

lemma rf_inv_full [simp]: "rf_inv (rf_full a es n) \<longleftrightarrow> n \<le> length es \<and> es \<noteq> [] \<and> length es < 2 ^ 31"
  by (auto simp: rf_inv_def)

lemma rf_inv_new [simp]: "rf_inv (rf_new a)"
  by (simp add: rf_inv_def)

lemma rf_views [simp]:
  "rf_list (rf_full a es n) = take n es" "rf_list (rf_new a) = []"
  "rf_arena (rf_full a es n) = a" "rf_arena (rf_new a) = a"
  by (simp_all add: rf_list_def rf_arena_def)

lemma rf_cases:
  assumes "rf_inv f"
  obtains (new) a where "f = rf_new a"
  | (full) a es n where "f = rf_full a es n" "n \<le> length es" "es \<noteq> []" "length es < 2 ^ 31"
proof (cases "rf_ptr f")
  case (Ptr_arena a)
  then have "f = rf_new a" using assms by (cases f) (auto simp: rf_inv_def rf_new_def)
  then show ?thesis by (rule new)
next
  case (Ptr_elements a es)
  then have "f = rf_full a es (nat (rf_current_size f))"
    using assms by (cases f) (auto simp: rf_inv_def rf_full_def)
  moreover have "nat (rf_current_size f) \<le> length es" "es \<noteq> []" "length es < 2 ^ 31"
    using assms Ptr_elements by (auto simp: rf_inv_def nat_mono)
  ultimately show ?thesis by (rule full)
qed

lemma rf_elements_full [simp]: "es \<noteq> [] \<Longrightarrow> rf_elements (rf_full a es n) = Some es"
  by (simp add: rf_elements_def)

lemma rf_rep_full [simp]: "es \<noteq> [] \<Longrightarrow> rf_rep (rf_full a es n) = Some (a, es)"
  by (simp add: rf_rep_def)

lemma rf_GetArena [simp]: "rf_inv f \<Longrightarrow> rf_GetArenaNoVirtual f = Some (rf_arena f)"
  by (erule rf_cases) (auto simp: rf_GetArenaNoVirtual_def)

lemma length_rf_list [simp]: "rf_inv f \<Longrightarrow> length (rf_list f) = nat (rf_current_size f)"
  by (erule rf_cases) auto

lemma rf_size_list: "rf_inv f \<Longrightarrow> rf_current_size f = int (length (rf_list f))"
  by (erule rf_cases) auto

lemma rf_resultI: "r = Some g \<Longrightarrow> rf_inv g \<Longrightarrow> rf_list g = xs \<Longrightarrow> rf_arena g = rf_arena f \<Longrightarrow> rf_result f r xs"
  by (simp add: rf_result_def)

section \<open>Growing\<close>

definition rf_grow :: "nat \<Rightarrow> nat \<Rightarrow> nat" where
  "rf_grow cap n = max 4 (max (2 * cap) n)"

lemma rf_grow_bounds: "n \<le> rf_grow cap n" "2 * cap \<le> rf_grow cap n" "4 \<le> rf_grow cap n"
  by (auto simp: rf_grow_def)

lemma rf_Reserve_new:
  assumes "0 < m" "m < 2 ^ 31"
  shows "rf_Reserve (int m) (rf_new a) = Some (rf_full a (replicate (rf_grow 0 m) None) 0)"
  using assms
  by (auto simp: rf_Reserve_def rf_GetArenaNoVirtual_def kMinRepeatedFieldAllocationSize_def rf_grow_def rf_full_def
      rf_new_def Let_def max_def)

lemma rf_Reserve_full:
  assumes "n \<le> length es" "es \<noteq> []" "length es < m" "length es < 2 ^ 30" "m < 2 ^ 31"
  shows "rf_Reserve (int m) (rf_full a es n) =
    Some (rf_full a (take n es @ replicate (rf_grow (length es) m - n) None) n)"
proof -
  have c: "n \<le> rf_grow (length es) m"
    using assms rf_grow_bounds(1) [of m "length es"] by simp
  have d: "max 4 (max (int (length es) * 2) (int m)) = int (rf_grow (length es) m)"
    by (simp add: rf_grow_def max_def)
  show ?thesis
    using assms c
    by (auto simp: rf_Reserve_def kMinRepeatedFieldAllocationSize_def Let_def rf_GetArenaNoVirtual_def
        arr_copy_def rf_full_def [of a "take n es @ _"] d)
qed

lemma rf_Reserve_enough: "n \<le> rf_total_size f \<Longrightarrow> rf_Reserve n f = Some f"
  by (simp add: rf_Reserve_def)

text \<open>Reserving leaves the contents alone and provides the room asked for.\<close>

lemma rf_Reserve_ok:
  assumes "rf_inv f" "m \<le> 2 ^ 30"
  obtains g where "rf_Reserve m f = Some g" "rf_inv g" "rf_list g = rf_list f" "rf_arena g = rf_arena f"
    "m \<le> rf_total_size g" "rf_current_size g = rf_current_size f" "rf_total_size f \<le> rf_total_size g"
    "0 < m \<or> rf_total_size f > 0 \<Longrightarrow> rf_total_size g > 0"
proof (cases "m \<le> rf_total_size f")
  case True
  then show ?thesis using that assms rf_Reserve_enough by fastforce
next
  case False
  with assms have p: "0 < m" by (auto simp: rf_inv_def)
  define k where "k = nat m"
  have k: "m = int k" "0 < k" "k \<le> 2 ^ 30" using p assms(2) by (auto simp: k_def)
  have g: "k \<le> rf_grow c k" for c by (rule rf_grow_bounds)
  from assms(1) show ?thesis
  proof (cases rule: rf_cases)
    case (new a)
    have "rf_grow 0 k < 2 ^ 31" using k by (simp add: rf_grow_def)
    then show ?thesis
      using new k g [of 0] by (intro that) (auto simp: rf_Reserve_new)
  next
    case (full a es n)
    then have l: "length es < k" using False k by simp
    then have b: "rf_grow (length es) k < 2 ^ 31" "length es \<le> rf_grow (length es) k"
      using k by (auto simp: rf_grow_def)
    show ?thesis
      using full l k b g [of "length es"] by (intro that) (auto simp: rf_Reserve_full)
  qed
qed

section \<open>Each operation on the contents\<close>

lemma rf_set_elements:
  assumes "rf_inv f" "rf_current_size f < rf_total_size f"
  shows "\<exists>a es n. f = rf_full a es n \<and> n < length es \<and> length es < 2 ^ 31"
  using assms by (cases rule: rf_cases) auto

lemma rf_AddAlreadyReserved_ok:
  assumes "rf_inv f" "rf_current_size f < rf_total_size f"
  shows "rf_result f (rf_AddAlreadyReserved v f) (rf_list f @ [v])"
    and "map_option rf_total_size (rf_AddAlreadyReserved v f) = Some (rf_total_size f)"
proof -
  obtain a es n where f: "f = rf_full a es n" "n < length es" "length es < 2 ^ 31"
    using rf_set_elements [OF assms] by blast
  then have "es \<noteq> []" by auto
  with f have e: "rf_AddAlreadyReserved v f = Some (rf_full a (es[n := v]) (Suc n))"
    by (simp add: rf_AddAlreadyReserved_def rf_full_step nat_add_distrib)
  show "rf_result f (rf_AddAlreadyReserved v f) (rf_list f @ [v])"
    using f by (intro rf_resultI [OF e]) (auto simp: take_Suc_update)
  show "map_option rf_total_size (rf_AddAlreadyReserved v f) = Some (rf_total_size f)"
    using f e by simp
qed

text \<open>\<open>Add\<close> reserves one more element when the array is full and then appends.\<close>

lemma rf_Add_reserve:
  assumes "rf_inv f" "rf_current_size f < 2 ^ 30"
  obtains g where "rf_Add v f = rf_AddAlreadyReserved v g" "rf_inv g" "rf_list g = rf_list f"
    "rf_arena g = rf_arena f" "rf_current_size g < rf_total_size g" "rf_current_size g = rf_current_size f"
    "rf_total_size g = (if rf_current_size f = rf_total_size f then int (rf_grow (nat (rf_total_size f)) (nat (rf_total_size f + 1))) else rf_total_size f)"
proof (cases "rf_current_size f = rf_total_size f")
  case True
  with assms have b: "0 \<le> rf_total_size f" "rf_total_size f + 1 \<le> 2 ^ 30" by (auto simp: rf_inv_def)
  obtain g where g: "rf_Reserve (rf_total_size f + 1) f = Some g" "rf_inv g" "rf_list g = rf_list f"
    "rf_arena g = rf_arena f" "rf_total_size f + 1 \<le> rf_total_size g" "rf_current_size g = rf_current_size f"
    using rf_Reserve_ok [OF assms(1) b(2)] by metis
  have t: "rf_total_size g = int (rf_grow (nat (rf_total_size f)) (nat (rf_total_size f + 1)))"
    using assms(1)
  proof (cases rule: rf_cases)
    case (new a)
    have "Some g = rf_Reserve (int 1) (rf_new a)" using g(1) new by simp
    also have "\<dots> = Some (rf_full a (replicate (rf_grow 0 1) None) 0)" by (rule rf_Reserve_new) simp_all
    finally show ?thesis using new by simp
  next
    case (full a es n)
    then have "rf_Reserve (int (Suc (length es))) f = Some g" using g(1) by (simp add: add.commute)
    then show ?thesis using full b True rf_Reserve_full [of n es "Suc (length es)" a] rf_grow_bounds(1) [of "Suc (length es)" "length es"]
      by (auto simp: nat_add_distrib)
  qed
  have "rf_Add v f = rf_AddAlreadyReserved v g"
    using True g b by (simp add: rf_Add_def rf_AddAlreadyReserved_def)
  then show ?thesis using g True t by (intro that) auto
next
  case False
  then have "rf_Add v f = rf_AddAlreadyReserved v f"
    using assms by (simp add: rf_Add_def rf_AddAlreadyReserved_def rf_inv_def)
  then show ?thesis using assms False by (intro that) (auto simp: rf_inv_def)
qed

lemma rf_Add_ok:
  assumes "rf_inv f" "length (rf_list f) < 2 ^ 30"
  shows "rf_result f (rf_Add v f) (rf_list f @ [v])"
proof -
  have "rf_current_size f < 2 ^ 30" using assms by (simp add: rf_inv_def nat_less_iff)
  then obtain g where g: "rf_Add v f = rf_AddAlreadyReserved v g" "rf_inv g" "rf_list g = rf_list f"
    "rf_arena g = rf_arena f" "rf_current_size g < rf_total_size g"
    using rf_Add_reserve [OF assms(1)] by metis
  show ?thesis using rf_AddAlreadyReserved_ok(1) [OF g(2,5), of v] g by (simp add: rf_result_def)
qed

lemma rf_Get_ok:
  assumes "rf_inv f" "0 \<le> i" "i < int (length (rf_list f))"
  shows "rf_Get i f = Some (rf_list f ! nat i)"
  using assms by (cases rule: rf_cases) (auto simp: rf_Get_def arr_simps)

lemma rf_Mutable_ok: "rf_inv f \<Longrightarrow> 0 \<le> i \<Longrightarrow> i < rf_current_size f \<Longrightarrow> rf_Mutable i f = Some i"
  by (erule rf_cases) (auto simp: rf_Mutable_def)

lemma rf_Set_ok:
  assumes "rf_inv f" "0 \<le> i" "i < int (length (rf_list f))"
  shows "rf_result f (rf_Set i v f) ((rf_list f)[nat i := v])"
  using assms(1)
proof (cases rule: rf_cases)
  case (full a es n)
  then have "rf_Set i v f = Some (rf_full a (es[nat i := v]) n)"
    using assms by (auto simp: rf_Set_def arr_simps rf_full_update)
  then show ?thesis using full assms by (intro rf_resultI) (auto simp: take_update_swap)
qed (use assms in simp)

lemma rf_RemoveLast_ok:
  assumes "rf_inv f" "rf_list f \<noteq> []"
  shows "rf_result f (rf_RemoveLast f) (butlast (rf_list f))"
  using assms(1)
proof (cases rule: rf_cases)
  case (full a es n)
  then have n: "0 < n" using assms(2) by (cases n) auto
  then have "rf_RemoveLast f = Some (rf_full a es (n - 1))"
    using full by (simp add: rf_RemoveLast_def rf_full_def of_nat_diff)
  then show ?thesis using full n by (intro rf_resultI) (auto simp: butlast_take)
qed (use assms in simp)

lemma rf_Truncate_ok:
  assumes "rf_inv f" "0 \<le> m" "m \<le> int (length (rf_list f))"
  shows "rf_result f (rf_Truncate m f) (take (nat m) (rf_list f))"
  using assms(1)
proof (cases rule: rf_cases)
  case (new a)
  then show ?thesis using assms by (auto simp: rf_Truncate_def rf_result_def)
next
  case (full a es n)
  then have "rf_Truncate m f = Some (rf_full a es (nat m))"
    using assms by (auto simp: rf_Truncate_def rf_full_def)
  moreover have "nat m \<le> length es" using full assms by simp
  ultimately show ?thesis using full assms by (intro rf_resultI) (auto simp: min_def)
qed

lemma rf_Resize_ok:
  assumes "rf_inv f" "0 \<le> m" "m \<le> 2 ^ 30"
  shows "rf_result f (rf_Resize m v f) (take (nat m) (rf_list f) @ replicate (nat m - length (rf_list f)) v)"
proof (cases "m > rf_current_size f")
  case True
  obtain g where g: "rf_Reserve m f = Some g" "rf_inv g" "rf_list g = rf_list f" "rf_arena g = rf_arena f"
    "m \<le> rf_total_size g" "rf_current_size g = rf_current_size f"
    using rf_Reserve_ok [OF assms(1,3)] by metis
  have p: "0 < m" using True assms(1) by (simp add: rf_inv_def)
  obtain a es n where gf: "g = rf_full a es n" "n \<le> length es" "es \<noteq> []" "length es < 2 ^ 31"
    using g(2,5) p by (cases rule: rf_cases) auto
  have n: "int n < m" "nat m \<le> length es" using gf g True by auto
  let ?es = "take n es @ replicate (nat (m - int n)) v @ drop (nat m) es"
  have l: "length ?es = length es" using n gf by auto
  have e: "rf_Resize m v f = Some (rf_full a ?es (nat m))"
    using True g(1) gf assms n l
    by (simp add: rf_Resize_def arr_fill_def rf_full_step)
  have t: "take (nat m) ?es = take (nat m) (rf_list f) @ replicate (nat m - length (rf_list f)) v"
  proof -
    have "rf_list f = take n es" using g(3) gf by simp
    moreover have "nat m - n = nat (m - int n)" using n by linarith
    ultimately show ?thesis using n gf by (auto simp: min_def)
  qed
  show ?thesis
  proof (rule rf_resultI [OF e])
    show "rf_inv (rf_full a ?es (nat m))" using l n gf by simp
    show "rf_list (rf_full a ?es (nat m)) = take (nat m) (rf_list f) @ replicate (nat m - length (rf_list f)) v"
      using t by simp
    show "rf_arena (rf_full a ?es (nat m)) = rf_arena f" using gf g(4) by simp
  qed
next
  case False
  from assms(1) show ?thesis
  proof (cases rule: rf_cases)
    case (new a)
    then have m: "m = 0" using False assms by simp
    have "(rf_new a)\<lparr>rf_current_size := 0\<rparr> = rf_new a" by (simp add: rf_new_def)
    then have e: "rf_Resize m v f = Some (rf_new a)" using new m by (simp add: rf_Resize_def)
    show ?thesis using new m by (intro rf_resultI [OF e]) simp_all
  next
    case (full a es n)
    then have e: "rf_Resize m v f = Some (rf_full a es (nat m))"
      using False assms by (auto simp: rf_Resize_def rf_full_def)
    show ?thesis using full False assms by (intro rf_resultI [OF e]) (auto simp: min_def)
  qed
qed

lemma rf_Clear_ok: "rf_inv f \<Longrightarrow> rf_result f (Some (rf_Clear f)) []"
  by (auto simp: rf_result_def rf_Clear_def rf_inv_def rf_list_def rf_arena_def split: rf_pointer.splits)

lemma rf_SwapElements_ok:
  assumes "rf_inv f" "0 \<le> i" "i < int (length (rf_list f))" "0 \<le> j" "j < int (length (rf_list f))"
  shows "rf_result f (rf_SwapElements i j f)
    ((rf_list f)[nat i := rf_list f ! nat j, nat j := rf_list f ! nat i])"
  using assms(1)
proof (cases rule: rf_cases)
  case (full a es n)
  then have "rf_SwapElements i j f = Some (rf_full a (es[nat i := es ! nat j, nat j := es ! nat i]) n)"
    using assms by (auto simp: rf_SwapElements_def arr_simps rf_full_update)
  then show ?thesis using full assms by (intro rf_resultI) (auto simp: take_update_swap)
qed (use assms in simp)

section \<open>Removing a range\<close>

lemma rf_Set_full:
  "i < n \<Longrightarrow> n \<le> length es \<Longrightarrow> rf_Set (int i) v (rf_full a es n) = Some (rf_full a (es[i := v]) n)"
  by (cases "es = []") (auto simp: rf_Set_def rf_full_update)

lemma rf_Get_full: "i < n \<Longrightarrow> n \<le> length es \<Longrightarrow> rf_Get (int i) (rf_full a es n) = Some (es ! i)"
  by (cases "es = []") (auto simp: rf_Get_def)

lemma rf_save_loop_full:
  "i + k \<le> n \<Longrightarrow> n \<le> length es \<Longrightarrow>
     rf_save_loop k (int i) (rf_full a es n) = Some (take k (drop i es))"
proof (induction k arbitrary: i)
  case (Suc k)
  have "rf_save_loop k (int i + 1) (rf_full a es n) = Some (take k (drop (Suc i) es))"
    using Suc.IH [of "Suc i"] Suc.prems by (simp add: add.commute)
  then show ?case
    using Suc.prems Cons_nth_drop_Suc [of i es] by (simp add: rf_Get_full) (metis take_Suc_Cons)
qed simp

text \<open>Moving a block towards the front, one element at a time from its first to its last.\<close>

lemma slide_step:
  assumes "d + Suc k \<le> s + Suc k" "s + Suc k \<le> length es" "d \<le> s" "0 < s - d"
  shows "take (Suc d) (es[d := es ! s]) @ take k (drop (Suc s) (es[d := es ! s])) @ drop (Suc d + k) (es[d := es ! s])
    = take d es @ take (Suc k) (drop s es) @ drop (d + Suc k) es"
proof -
  have "d < s" "s < length es" using assms by auto
  then have "take (Suc d) (es[d := es ! s]) = take d es @ [es ! s]" by (simp add: take_Suc_update)
  moreover have "drop (Suc s) (es[d := es ! s]) = drop (Suc s) es" using \<open>d < s\<close> by simp
  moreover have "take (Suc k) (drop s es) = es ! s # take k (drop (Suc s) es)"
    using \<open>s < length es\<close> by (simp add: Cons_nth_drop_Suc [symmetric])
  ultimately show ?thesis by simp
qed

lemma rf_slide_loop_full:
  "0 < m \<Longrightarrow> m \<le> i \<Longrightarrow> i + k \<le> n \<Longrightarrow> n \<le> length es \<Longrightarrow>
     rf_slide_loop k (int i) (int m) (rf_full a es n) =
       Some (rf_full a (take (i - m) es @ take k (drop i es) @ drop (i - m + k) es) n)"
proof (induction k arbitrary: i es)
  case (Suc k)
  let ?es = "es[i - m := es ! i]"
  have s: "rf_Set (int i - int m) (es ! i) (rf_full a es n) = Some (rf_full a ?es n)"
    using Suc.prems rf_Set_full [of "i - m" n es "es ! i" a] by (simp add: of_nat_diff)
  have "rf_slide_loop k (int (Suc i)) (int m) (rf_full a ?es n) =
      Some (rf_full a (take (Suc i - m) ?es @ take k (drop (Suc i) ?es) @ drop (Suc i - m + k) ?es) n)"
    using Suc.prems by (intro Suc.IH) auto
  moreover have "take (Suc i - m) ?es @ take k (drop (Suc i) ?es) @ drop (Suc i - m + k) ?es =
      take (i - m) es @ take (Suc k) (drop i es) @ drop (i - m + Suc k) es"
    using Suc.prems slide_step [of "i - m" k i es] by (simp add: Suc_diff_le)
  ultimately show ?case using Suc.prems s by (simp add: rf_Get_full add.commute)
qed (simp add: rf_full_def)

lemma rf_ExtractSubrange_ok:
  assumes "rf_inv f" "s + m \<le> length (rf_list f)"
  shows "\<exists>g. rf_ExtractSubrange (int s) (int m) want f =
      Some (if want then take m (drop s (rf_list f)) else [], g) \<and>
    rf_result f (Some g) (take s (rf_list f) @ drop (s + m) (rf_list f))"
  using assms(1)
proof (cases rule: rf_cases)
  case (new a)
  then show ?thesis using assms by (auto simp: rf_ExtractSubrange_def rf_result_def)
next
  case (full a es n)
  have sm: "s + m \<le> n" using assms full by simp
  have c: "c_int (int s + int m) = Some (int (s + m))" using sm full by simp
  have sv: "(if want then rf_save_loop (nat (int m)) (int s) f else Some []) =
      Some (if want then take m (drop s (rf_list f)) else [])"
    using full sm by (simp add: rf_save_loop_full drop_take)
  show ?thesis
  proof (cases "m = 0")
    case True
    then show ?thesis using full sm c sv append_take_drop_id [of s "take n es"]
      by (auto simp: rf_ExtractSubrange_def rf_result_def min_def)
  next
    case False
    define es' where "es' = take s es @ take (n - (s + m)) (drop (s + m) es) @ drop (s + (n - (s + m))) es"
    have sl: "rf_slide_loop (nat (int n - (int s + int m))) (int s + int m) (int m) (rf_full a es n) =
        Some (rf_full a es' n)"
      using False sm full rf_slide_loop_full [of m "s + m" "n - (s + m)" n es a]
      by (simp add: nat_diff_distrib nat_add_distrib es'_def)
    have l: "length es' = length es" using sm full by (auto simp: es'_def)
    then have ne: "es' \<noteq> []" using full by auto
    have tr: "rf_Truncate (int n - int m) (rf_full a es' n) = Some (rf_full a es' (n - m))"
      using sm False by (auto simp: rf_Truncate_def rf_full_def of_nat_diff)
    have tk: "take (n - m) es' = take s (take n es) @ drop (s + m) (take n es)"
      using sm full unfolding es'_def by (subst take_append_prefix) (auto simp: min_def drop_take)
    have "rf_ExtractSubrange (int s) (int m) want f =
        Some (if want then take m (drop s (rf_list f)) else [], rf_full a es' (n - m))"
      using full sm c sv sl tr False by (cases want) (simp_all add: rf_ExtractSubrange_def)
    then show ?thesis using full sm l ne tk by (auto simp: rf_result_def)
  qed
qed

lemma copy_down_eq:
  "d < s \<Longrightarrow> s + k \<le> length xs \<Longrightarrow>
     copy_down k (int s) (int d) xs = Some (take d xs @ take k (drop s xs) @ drop (d + k) xs)"
proof (induction k arbitrary: s d xs)
  case (Suc k)
  let ?xs = "xs[d := xs ! s]"
  have "copy_down k (int (Suc s)) (int (Suc d)) ?xs =
      Some (take (Suc d) ?xs @ take k (drop (Suc s) ?xs) @ drop (Suc d + k) ?xs)"
    using Suc.prems by (intro Suc.IH) auto
  also have "take (Suc d) ?xs @ take k (drop (Suc s) ?xs) @ drop (Suc d + k) ?xs =
      take d xs @ take (Suc k) (drop s xs) @ drop (d + Suc k) xs"
    using Suc.prems by (intro slide_step) auto
  finally show ?case using Suc.prems by (simp add: add.commute)
qed simp

lemma rf_erase_range_ok:
  assumes "rf_inv f" "i \<le> j" "j \<le> length (rf_list f)" "rf_total_size f > 0"
  shows "\<exists>g. rf_erase_range (Some (int i)) (Some (int j)) f = Some (Some (int i), g) \<and>
    rf_result f (Some g) (take i (rf_list f) @ drop j (rf_list f))"
  using assms(1)
proof (cases rule: rf_cases)
  case (full a es n)
  have ij: "i \<le> j" "j \<le> n" using assms full by auto
  show ?thesis
  proof (cases "i = j")
    case True
    then show ?thesis using full ij append_take_drop_id [of i "take n es"]
      by (auto simp: rf_erase_range_def rf_begin_def ptr_diff_def ptr_add_def rf_result_def min_def)
  next
    case False
    define es' where "es' = take i es @ take (n - j) (drop j es) @ drop (i + (n - j)) es"
    have cd: "copy_down (nat (int n - int j)) (int j) (int i) es = Some es'"
      using False ij full copy_down_eq [of i j "n - j" es] by (simp add: nat_diff_distrib es'_def)
    have l: "length es' = length es" using ij full by (auto simp: es'_def)
    then have ne: "es' \<noteq> []" using full by auto
    have tk: "take (i + (n - j)) es' = take i (take n es) @ drop j (take n es)"
      using ij full unfolding es'_def by (subst take_append_prefix) (auto simp: min_def drop_take)
    have tr: "rf_Truncate (int i + (int n - int j)) (rf_full a es' n) = Some (rf_full a es' (i + (n - j)))"
      using ij False by (auto simp: rf_Truncate_def rf_full_def of_nat_diff)
    have "rf_erase_range (Some (int i)) (Some (int j)) f = Some (Some (int i), rf_full a es' (i + (n - j)))"
      using full ij cd False l ne tr
      by (simp add: rf_erase_range_def rf_begin_def rf_end_def ptr_diff_def ptr_add_def rf_full_update)
    then show ?thesis using full ij l ne tk by (auto simp: rf_result_def)
  qed
qed (use assms in simp)

section \<open>Merging, copying and swapping\<close>

lemma rf_merge_ok:
  assumes "rf_inv f" "rf_inv g" "length (rf_list f) + length (rf_list g) \<le> 2 ^ 30"
  shows "rf_result f (rf_merge_value g f) (rf_list f @ rf_list g)"
proof (cases "rf_current_size g = 0")
  case True
  then have "rf_list g = []" using assms(2) by (metis length_0_conv length_rf_list nat_0)
  then show ?thesis using True assms by (simp add: rf_merge_value_def rf_result_def)
next
  case False
  obtain c es' k where gf: "g = rf_full c es' k" "k \<le> length es'" "es' \<noteq> []" "length es' < 2 ^ 31" "0 < k"
    using assms(2) False by (cases rule: rf_cases) auto
  define l where "l = length (rf_list f)"
  have l: "rf_current_size f = int l" using rf_size_list [OF assms(1)] by (simp add: l_def)
  have lk: "l + k \<le> 2 ^ 30" using assms(3) gf by (auto simp: l_def min_def split: if_splits)
  then have "int (l + k) \<le> 2 ^ 30" by simp
  then obtain h where h: "rf_Reserve (int (l + k)) f = Some h" "rf_inv h" "rf_list h = rf_list f"
    "rf_arena h = rf_arena f" "int (l + k) \<le> rf_total_size h" "rf_current_size h = rf_current_size f"
    using rf_Reserve_ok [OF assms(1)] by metis
  obtain a es n where hf: "h = rf_full a es n" "n \<le> length es" "es \<noteq> []" "length es < 2 ^ 31"
    using h(2,5) gf(5) by (cases rule: rf_cases) auto
  have nl: "n = l" "l + k \<le> length es" using h l hf by auto
  let ?es = "take l es @ take k es' @ drop (l + k) es"
  have e: "rf_merge_value g f = Some (rf_full a ?es (l + k))"
  proof -
    have r: "rf_Reserve (int l + int k) f = Some (rf_full a es l)" using h(1) hf nl by simp
    have "rf_AddNAlreadyReserved (int k) (rf_full a es l) = Some (int l, rf_full a es (l + k))"
      using nl lk by (simp add: rf_AddNAlreadyReserved_def rf_full_def)
    moreover have "rf_Mutable (int l) (rf_full a es (l + k)) = Some (int l)"
      using hf gf by (simp add: rf_Mutable_def)
    moreover have "rf_Mutable 0 (rf_full c es' k) = Some 0" using gf by (simp add: rf_Mutable_def)
    moreover have "rf_CopyArray (int l) (rf_full c es' k) 0 (int k) (rf_full a es (l + k)) = Some (rf_full a ?es (l + k))"
      using gf hf nl by (simp add: rf_CopyArray_def arr_copy_def nat_add_distrib rf_full_update)
    ultimately show ?thesis
      using gf r l lk by (simp add: rf_merge_value_def rf_size_def)
  qed
  show ?thesis
  proof (rule rf_resultI [OF e])
    show "rf_inv (rf_full a ?es (l + k))" using nl hf gf by auto
    show "rf_list (rf_full a ?es (l + k)) = rf_list f @ rf_list g"
      using nl gf h(3) [symmetric] hf by (simp add: take_append_prefix del: take_append)
    show "rf_arena (rf_full a ?es (l + k)) = rf_arena f" using h(4) hf by simp
  qed
qed

lemma rf_MergeFrom_ok:
  assumes "this \<noteq> other" "s this = Some f" "s other = Some g" "rf_inv f" "rf_inv g"
    "length (rf_list f) + length (rf_list g) \<le> 2 ^ 30"
  obtains h where "rf_MergeFrom this other s = Some (s(this \<mapsto> h))" "rf_inv h"
    "rf_list h = rf_list f @ rf_list g" "rf_arena h = rf_arena f"
  using rf_merge_ok [OF assms(4-6)] assms(1-3)
  by (auto simp: rf_MergeFrom_def rf_result_def intro: that)

lemma rf_CopyFrom_ok:
  assumes "this \<noteq> other" "s this = Some f" "s other = Some g" "rf_inv f" "rf_inv g"
    "length (rf_list g) \<le> 2 ^ 30"
  obtains h where "rf_CopyFrom this other s = Some (s(this \<mapsto> h))" "rf_inv h"
    "rf_list h = rf_list g" "rf_arena h = rf_arena f"
proof -
  have c: "rf_inv (rf_Clear f)" "rf_list (rf_Clear f) = []" "rf_arena (rf_Clear f) = rf_arena f"
    using rf_Clear_ok [OF assms(4)] by (auto simp: rf_result_def)
  then have b: "length (rf_list (rf_Clear f)) + length (rf_list g) \<le> 2 ^ 30" using assms(6) by simp
  obtain h where "rf_MergeFrom this other (s(this \<mapsto> rf_Clear f)) = Some (s(this \<mapsto> rf_Clear f, this \<mapsto> h))"
    "rf_inv h" "rf_list h = rf_list g" "rf_arena h = rf_arena f"
    using rf_MergeFrom_ok [of this other "s(this \<mapsto> rf_Clear f)" "rf_Clear f" g] assms b c by auto
  then show ?thesis using assms by (intro that [of h]) (simp_all add: rf_CopyFrom_def)
qed

lemma rf_InternalSwap_ok:
  assumes "this \<noteq> other" "s this = Some f" "s other = Some g" "rf_inv f" "rf_inv g" "rf_arena f = rf_arena g"
  shows "rf_InternalSwap this other s = Some (s(this \<mapsto> g, other \<mapsto> f))"
  using assms by (simp add: rf_InternalSwap_def)

section \<open>Appending a sequence\<close>

interpretation adding: back_insertable rf_Add "\<lambda>f. rf_inv f \<and> rf_arena f = a" rf_list "2 ^ 30" for a
proof unfold_locales
  fix f :: "'a repeated_field" and v
  assume f: "rf_inv f \<and> rf_arena f = a" "length (rf_list f) < 2 ^ 30"
  have "rf_result f (rf_Add v f) (rf_list f @ [v])" using f by (intro rf_Add_ok) simp_all
  then show "\<exists>t. rf_Add v f = Some t \<and> (rf_inv t \<and> rf_arena t = a) \<and> rf_list t = rf_list f @ [v]"
    using f(1) by (auto simp: rf_result_def)
qed

interpretation reserved: back_insertable rf_AddAlreadyReserved
  "\<lambda>f. rf_inv f \<and> rf_arena f = a \<and> int room \<le> rf_total_size f" rf_list room for a room
proof unfold_locales
  fix f :: "'a repeated_field" and v
  assume f: "rf_inv f \<and> rf_arena f = a \<and> int room \<le> rf_total_size f" "length (rf_list f) < room"
  have "int (length (rf_list f)) = rf_current_size f" using f(1) rf_size_list by metis
  then have "rf_current_size f < rf_total_size f" using f by linarith
  then show "\<exists>t. rf_AddAlreadyReserved v f = Some t \<and> (rf_inv t \<and> rf_arena t = a \<and> int room \<le> rf_total_size t) \<and>
      rf_list t = rf_list f @ [v]"
    using f rf_AddAlreadyReserved_ok [of f v] by (auto simp: rf_result_def)
qed

section \<open>Sequences of operations\<close>

datatype 'e rf_op =
    Do_Add 'e
  | Do_Set int 'e
  | Do_RemoveLast
  | Do_Truncate int
  | Do_Resize int 'e
  | Do_Extract int int
  | Do_Erase int int
  | Do_Clear
  | Do_Reserve int
  | Do_SwapElements int int

primrec rf_exec :: "'e rf_op \<Rightarrow> 'e repeated_field \<Rightarrow> 'e repeated_field option" where
  "rf_exec (Do_Add v) f = rf_Add (Some v) f"
| "rf_exec (Do_Set i v) f = rf_Set i (Some v) f"
| "rf_exec Do_RemoveLast f = rf_RemoveLast f"
| "rf_exec (Do_Truncate n) f = rf_Truncate n f"
| "rf_exec (Do_Resize n v) f = rf_Resize n (Some v) f"
| "rf_exec (Do_Extract i n) f = map_option snd (rf_ExtractSubrange i n False f)"
| "rf_exec (Do_Erase i j) f = do {
     b \<leftarrow> rf_begin f; p \<leftarrow> ptr_add b i; q \<leftarrow> ptr_add b j; map_option snd (rf_erase_range p q f) }"
| "rf_exec Do_Clear f = Some (rf_Clear f)"
| "rf_exec (Do_Reserve n) f = rf_Reserve n f"
| "rf_exec (Do_SwapElements i j) f = rf_SwapElements i j f"

text \<open>
  What the operations mean for a sequence; \<^term>\<open>None\<close> is a call outside the contract: an
  index out of range, or more than \<open>2 ^ 30\<close> elements.
\<close>

primrec seq_exec :: "'e rf_op \<Rightarrow> 'e option list \<Rightarrow> 'e option list option" where
  "seq_exec (Do_Add v) xs = (if length xs < 2 ^ 30 then Some (xs @ [Some v]) else None)"
| "seq_exec (Do_Set i v) xs = (if 0 \<le> i \<and> i < int (length xs) then Some (xs[nat i := Some v]) else None)"
| "seq_exec Do_RemoveLast xs = (if xs \<noteq> [] then Some (butlast xs) else None)"
| "seq_exec (Do_Truncate n) xs = (if 0 \<le> n \<and> n \<le> int (length xs) then Some (take (nat n) xs) else None)"
| "seq_exec (Do_Resize n v) xs =
     (if 0 \<le> n \<and> n \<le> 2 ^ 30 then Some (take (nat n) xs @ replicate (nat n - length xs) (Some v)) else None)"
| "seq_exec (Do_Extract i n) xs =
     (if 0 \<le> i \<and> 0 \<le> n \<and> i + n \<le> int (length xs) then Some (take (nat i) xs @ drop (nat (i + n)) xs) else None)"
| "seq_exec (Do_Erase i j) xs =
     (if 0 \<le> i \<and> i \<le> j \<and> j \<le> int (length xs) then Some (take (nat i) xs @ drop (nat j) xs) else None)"
| "seq_exec Do_Clear xs = Some []"
| "seq_exec (Do_Reserve n) xs = (if n \<le> 2 ^ 30 then Some xs else None)"
| "seq_exec (Do_SwapElements i j) xs =
     (if 0 \<le> i \<and> i < int (length xs) \<and> 0 \<le> j \<and> j < int (length xs)
      then Some (xs[nat i := xs ! nat j, nat j := xs ! nat i]) else None)"

lemma rf_exec_Extract:
  assumes "rf_inv f" "0 \<le> i" "0 \<le> n" "i + n \<le> int (length (rf_list f))"
  shows "rf_result f (rf_exec (Do_Extract i n) f) (take (nat i) (rf_list f) @ drop (nat (i + n)) (rf_list f))"
proof -
  have "nat i + nat n \<le> length (rf_list f)" using assms by linarith
  from rf_ExtractSubrange_ok [OF assms(1) this, of False] show ?thesis
    using assms(2,3) by (auto simp: nat_add_distrib)
qed

lemma rf_exec_Erase:
  assumes "rf_inv f" "0 \<le> i" "i \<le> j" "j \<le> int (length (rf_list f))"
  shows "rf_result f (rf_exec (Do_Erase i j) f) (take (nat i) (rf_list f) @ drop (nat j) (rf_list f))"
proof (cases "rf_total_size f > 0")
  case True
  have b: "rf_begin f = Some (Some 0)" using assms(1) True by (cases rule: rf_cases) (auto simp: rf_begin_def)
  have "nat i \<le> nat j" "nat j \<le> length (rf_list f)" using assms(2-4) by linarith+
  from rf_erase_range_ok [OF assms(1) this True] show ?thesis
    using assms(2,3) b by (auto simp: ptr_add_def)
next
  case False
  obtain a where "f = rf_new a" using assms(1) False by (cases rule: rf_cases) auto
  then show ?thesis using assms
    by (auto simp: rf_begin_def ptr_add_def rf_erase_range_def ptr_diff_def rf_result_def)
qed

lemma rf_exec_refines:
  assumes "rf_inv f" "seq_exec op (rf_list f) = Some xs"
  shows "rf_result f (rf_exec op f) xs"
proof (cases op)
  case (Do_Reserve n)
  then obtain g where "rf_Reserve n f = Some g" "rf_inv g" "rf_list g = rf_list f" "rf_arena g = rf_arena f"
    using assms rf_Reserve_ok [OF assms(1), of n] by (metis option.distinct(1) seq_exec.simps(9))
  then show ?thesis using Do_Reserve assms by (auto simp: rf_result_def split: if_splits)
next
  case (Do_Erase i j)
  then show ?thesis using assms rf_exec_Erase [of f i j] by (simp del: rf_exec.simps length_rf_list split: if_splits)
next
  case (Do_Extract i n)
  then show ?thesis using assms rf_exec_Extract [of f i n] by (simp del: rf_exec.simps length_rf_list split: if_splits)
qed (use assms in \<open>auto simp del: length_rf_list split: if_splits
      intro!: rf_Add_ok rf_Set_ok rf_RemoveLast_ok rf_Truncate_ok rf_Resize_ok rf_Clear_ok rf_SwapElements_ok\<close>)

definition rf_run :: "'e rf_op list \<Rightarrow> 'e repeated_field \<Rightarrow> 'e repeated_field option" where
  "rf_run ops f = insert_all rf_exec ops f"

definition seq_run :: "'e rf_op list \<Rightarrow> 'e option list \<Rightarrow> 'e option list option" where
  "seq_run ops xs = insert_all seq_exec ops xs"

lemma rf_run_refines:
  "rf_inv f \<Longrightarrow> seq_run ops (rf_list f) = Some xs \<Longrightarrow> rf_result f (rf_run ops f) xs"
proof (induction ops arbitrary: f)
  case (Cons op ops)
  then obtain ys where ys: "seq_exec op (rf_list f) = Some ys" "seq_run ops ys = Some xs"
    by (auto simp: seq_run_def bind_eq_Some_conv)
  obtain g where g: "rf_exec op f = Some g" "rf_inv g" "rf_list g = ys" "rf_arena g = rf_arena f"
    using rf_exec_refines [OF Cons.prems(1) ys(1)] by (auto simp: rf_result_def)
  then show ?case using Cons.IH [of g] ys by (auto simp: rf_run_def rf_result_def)
qed (simp add: seq_run_def rf_run_def rf_result_def)

lemma rf_Swap_ok:
  assumes "s this = Some f" "s other = Some g" "rf_inv f" "rf_inv g" "this \<noteq> other"
    and temp: "s temp = None"
    and "length (rf_list f) \<le> 2 ^ 30" "length (rf_list g) \<le> 2 ^ 30"
  shows "\<exists>f' g'. rf_Swap temp this other s = Some (s(this \<mapsto> f', other \<mapsto> g')) \<and>
    rf_inv f' \<and> rf_inv g' \<and> rf_list f' = rf_list g \<and> rf_list g' = rf_list f \<and>
    rf_arena f' = rf_arena f \<and> rf_arena g' = rf_arena g"
proof (cases "rf_arena f = rf_arena g")
  case True
  then show ?thesis using assms rf_InternalSwap_ok [of this other s f g]
    by (intro exI [of _ g] exI [of _ f]) (simp add: rf_Swap_def)
next
  case False
  have ne: "temp \<noteq> this" "temp \<noteq> other" using assms by auto
  let ?s = "s(temp \<mapsto> rf_new (rf_arena g))"
  have 0: "?s temp = Some (rf_new (rf_arena g))" "?s this = Some f" using ne assms by simp_all
  have sz: "length (rf_list (rf_new (rf_arena g) :: 'a repeated_field)) + length (rf_list f) \<le> 2 ^ 30"
    using assms(7) by (simp del: length_rf_list)
  obtain h where h: "rf_MergeFrom temp this ?s = Some (?s(temp \<mapsto> h))" "rf_inv h"
    "rf_list h = rf_list (rf_new (rf_arena g)) @ rf_list f" "rf_arena h = rf_arena (rf_new (rf_arena g) :: 'a repeated_field)"
    by (rule rf_MergeFrom_ok [OF ne(1) 0 rf_inv_new assms(3) sz])
  let ?t = "?s(temp \<mapsto> h)"
  have 1: "?t this = Some f" "?t other = Some g" using ne assms by simp_all
  obtain k where k: "rf_CopyFrom this other ?t = Some (?t(this \<mapsto> k))" "rf_inv k" "rf_list k = rf_list g"
    "rf_arena k = rf_arena f"
    by (rule rf_CopyFrom_ok [OF assms(5) 1 assms(3,4,8)])
  let ?u = "?t(this \<mapsto> k)"
  have 2: "other \<noteq> temp" "?u other = Some g" "?u temp = Some h" "rf_arena g = rf_arena h"
    using ne assms(2,5) h(4) by auto
  have "rf_InternalSwap other temp ?u = Some (?u(other \<mapsto> h, temp \<mapsto> g))"
    by (rule rf_InternalSwap_ok [OF 2(1-3) assms(4) h(2) 2(4)])
  then have "rf_UnsafeArenaSwap other temp ?u = Some (?u(other \<mapsto> h, temp \<mapsto> g))"
    using ne by (simp add: rf_UnsafeArenaSwap_def)
  moreover have "(?u(other \<mapsto> h, temp \<mapsto> g))(temp := None) = s(this \<mapsto> k, other \<mapsto> h)"
    using ne temp by (auto simp: fun_eq_iff)
  ultimately have "rf_Swap temp this other s = Some (s(this \<mapsto> k, other \<mapsto> h))"
    using False assms h k by (simp add: rf_Swap_def)
  then show ?thesis using h(2-4) k(2-4) by (intro exI [of _ k] exI [of _ h]) simp
qed

lemma rf_range_new_ok:
  assumes "length xs \<le> 2 ^ 30"
  shows "\<exists>f. rf_range_new forward xs = Some f \<and> rf_inv f \<and> rf_arena f = None \<and> rf_list f = map Some xs"
proof (cases forward)
  case True
  have "int (length xs) \<le> 2 ^ 30" using assms by simp
  then obtain g where g: "rf_Reserve (int (length xs)) (rf_new None) = Some g" "rf_inv g"
    "rf_list g = ([] :: 'a option list)" "rf_arena g = None" "int (length xs) \<le> rf_total_size g"
    using rf_Reserve_ok [OF rf_inv_new, of "int (length xs)" None] by auto
  have "int (length xs) < 2 ^ 31" using assms by simp
  then have "CalculateReserve True xs = Some (int (length xs))"
    using assms by (simp add: CalculateReserve_def)
  then have "rf_range_new True xs = insert_all rf_AddAlreadyReserved (map Some xs) g"
    using g(1) by (simp add: rf_range_new_def)
  then show ?thesis
    using True reserved.insert_all_appends [of g None "length xs" "map Some xs"] g by auto
next
  case False
  then have "rf_range_new forward xs = insert_all rf_Add (map Some xs) (rf_new None)"
    by (simp add: rf_range_new_def CalculateReserve_def)
  then show ?thesis
    using adding.insert_all_appends [of "rf_new None" None "map Some xs"] assms by auto
qed

lemma rf_copy_new_ok:
  assumes "rf_inv g" "length (rf_list g) \<le> 2 ^ 30"
  shows "rf_result (rf_new None) (rf_copy_new g) (rf_list g)"
proof -
  have "rf_copy_new g = rf_merge_value g (rf_new None)"
    using assms by (cases rule: rf_cases [OF assms(1)]) (auto simp: rf_copy_new_def rf_merge_value_def rf_size_def Let_def)
  then show ?thesis using rf_merge_ok [OF rf_inv_new assms(1), of None] assms(2) by simp
qed

section \<open>Properties\<close>

text \<open>
  C11: A repeated field is a sequence. Whatever sequence of \<open>Add\<close>, \<open>Set\<close>, \<open>RemoveLast\<close>,
  \<open>Truncate\<close>, \<open>Resize\<close>, \<open>ExtractSubrange\<close>, \<open>erase\<close>, \<open>Clear\<close>, \<open>Reserve\<close> and \<open>SwapElements\<close> is
  within the contract of the sequence, runs on the field without an access outside its array
  and without signed overflow, keeps the representation invariant and the arena, and leaves
  exactly the contents the sequence operations give; \<open>Get\<close> then reads them.
\<close>

theorem repeated_field_refines_sequence:
  assumes "rf_inv f" and "seq_run ops (rf_list f) = Some xs"
  shows "\<exists>g. rf_run ops f = Some g \<and> rf_inv g \<and> rf_arena g = rf_arena f \<and> rf_list g = xs \<and>
    rf_size g = int (length xs) \<and> (\<forall>i < length xs. rf_Get (int i) g = Some (xs ! i))"
proof -
  obtain g where "rf_run ops f = Some g" "rf_inv g" "rf_list g = xs" "rf_arena g = rf_arena f"
    using rf_run_refines [OF assms] by (auto simp: rf_result_def)
  moreover from this have "rf_size g = int (length xs)" using rf_size_list unfolding rf_size_def by metis
  moreover from calculation have "rf_Get (int i) g = Some (xs ! i)" if "i < length xs" for i
    using that rf_Get_ok [of g "int i"] by (simp del: length_rf_list)
  ultimately show ?thesis by blast
qed

theorem repeated_field_refines_sequence_witness:
  "\<exists>g. rf_run [Do_Add (7 :: nat), Do_Add 8, Do_Resize 4 1, Do_Extract 1 2, Do_SwapElements 0 1] (rf_new None) = Some g \<and>
     rf_inv g \<and> rf_arena g = None \<and> rf_list g = [Some 1, Some 7] \<and> rf_size g = int (length [Some (1 :: nat), Some 7]) \<and>
     (\<forall>i < length [Some (1 :: nat), Some 7]. rf_Get (int i) g = Some ([Some 1, Some 7] ! i))"
  using repeated_field_refines_sequence [of "rf_new None"
      "[Do_Add (7 :: nat), Do_Add 8, Do_Resize 4 1, Do_Extract 1 2, Do_SwapElements 0 1]" "[Some 1, Some 7]"]
  by (simp add: seq_run_def del: One_nat_def) (simp add: numeral_eq_Suc)

text \<open>
  \<open>Swap\<close> exchanges the contents of two fields and leaves each on its own arena, by
  exchanging pointers when the arenas agree and through a temporary on the other field's
  arena when they differ; no other field changes and the temporary is gone. Swapping a field
  with itself does nothing.
\<close>

theorem repeated_field_swap_exchanges:
  assumes "s this = Some f" "s other = Some g" "rf_inv f" "rf_inv g" "s temp = None"
    and "length (rf_list f) \<le> 2 ^ 30" "length (rf_list g) \<le> 2 ^ 30"
  shows "rf_Swap temp this this s = Some s \<and>
    (this \<noteq> other \<longrightarrow> (\<exists>f' g'. rf_Swap temp this other s = Some (s(this \<mapsto> f', other \<mapsto> g')) \<and>
      rf_inv f' \<and> rf_inv g' \<and> rf_list f' = rf_list g \<and> rf_list g' = rf_list f \<and>
      rf_arena f' = rf_arena f \<and> rf_arena g' = rf_arena g))"
proof
  show "rf_Swap temp this this s = Some s" by (simp add: rf_Swap_def)
qed (use rf_Swap_ok [OF assms(1-4) _ assms(5-7)] in blast)

definition demo_rf :: "nat option \<Rightarrow> nat \<Rightarrow> nat repeated_field" where
  "demo_rf a v = rf_full a [Some v, None] 1"

definition demo_rf_store :: "nat rf_store" where
  "demo_rf_store = [0 \<mapsto> demo_rf None 5, 1 \<mapsto> demo_rf (Some 9) 6]"

theorem repeated_field_swap_exchanges_witness:
  "rf_Swap 2 0 0 demo_rf_store = Some demo_rf_store \<and>
   (\<exists>f' g'. rf_Swap 2 0 1 demo_rf_store = Some (demo_rf_store(0 \<mapsto> f', 1 \<mapsto> g')) \<and>
      rf_inv f' \<and> rf_inv g' \<and> rf_list f' = [Some 6] \<and> rf_list g' = [Some 5] \<and> rf_arena f' = None \<and> rf_arena g' = Some 9)"
proof -
  have *: "demo_rf_store 0 = Some (demo_rf None 5)" "demo_rf_store 1 = Some (demo_rf (Some 9) 6)" "demo_rf_store 2 = None"
    "rf_inv (demo_rf None 5)" "rf_inv (demo_rf (Some 9) 6)"
    "length (rf_list (demo_rf None 5)) \<le> 2 ^ 30" "length (rf_list (demo_rf (Some 9) 6)) \<le> 2 ^ 30"
    by (simp_all add: demo_rf_store_def demo_rf_def)
  have "rf_list (demo_rf None 5) = [Some 5]" "rf_list (demo_rf (Some 9) 6) = [Some 6]"
    "rf_arena (demo_rf None 5) = None" "rf_arena (demo_rf (Some 9) 6) = Some 9"
    by (simp_all add: demo_rf_def)
  then show ?thesis
    using repeated_field_swap_exchanges [OF *(1,2,4,5,3,6,7)] by simp
qed

text \<open>
  C38: Growth stops at \<open>2 ^ 30\<close> elements. Adding to a full field of at least \<open>2 ^ 30\<close> elements
  has no defined result, because \<open>Reserve\<close> doubles the capacity in a signed 32-bit integer,
  although an array of up to \<open>2 ^ 31 - 1\<close> elements could be indexed; below that every \<open>Add\<close>
  succeeds.
\<close>

theorem repeated_field_growth_limit:
  assumes "rf_inv f" "rf_size f = rf_Capacity f"
  shows "rf_Add v f \<noteq> None \<longleftrightarrow> rf_size f < 2 ^ 30"
proof (cases "rf_size f < 2 ^ 30")
  case True
  then have "length (rf_list f) < 2 ^ 30" using assms(1) by (simp add: rf_size_def rf_inv_def nat_less_iff)
  then show ?thesis using True rf_Add_ok [OF assms(1)] by (auto simp: rf_result_def)
next
  case False
  obtain a es n where f: "f = rf_full a es n" "n \<le> length es" "es \<noteq> []" "length es < 2 ^ 31"
    using assms(1) False by (cases rule: rf_cases) (auto simp: rf_size_def)
  then have "n = length es" "2 ^ 30 \<le> length es" using assms(2) False by (auto simp: rf_size_def rf_Capacity_def)
  then have "rf_Add v f = None" using f
    by (cases "length es + 1 < 2 ^ 31") (auto simp: rf_Add_def rf_Reserve_def rf_GetArenaNoVirtual_def c_int_def)
  then show ?thesis using False by simp
qed

theorem repeated_field_growth_limit_witness:
  "rf_Add (Some (3 :: nat)) ((demo_rf (Some 4) 7)\<lparr>rf_current_size := 2\<rparr>) \<noteq> None \<longleftrightarrow>
   rf_size ((demo_rf (Some 4) 7)\<lparr>rf_current_size := 2\<rparr>) < 2 ^ 30"
  by (rule repeated_field_growth_limit) (simp_all add: demo_rf_def rf_inv_def rf_size_def rf_Capacity_def)

end
