(* ===== verification/Wire_Format.thy ===== *)
theory Wire_Format
  imports Coded_Stream Repeated_Field
begin

text \<open>
  The wire format of \<open>google/protobuf/wire_format_lite.h\<close> and \<open>wire_format_lite_inl.h\<close>: tags,
  ZigZag numbers, the readers and writers of the scalar field types on streams and on arrays,
  repeated and packed fields over \<open>RepeatedField\<close>, length-delimited and group sub-messages, and
  the sizes. It composes the theories about coded streams and about repeated fields.

  The C++ code has one overload or template specialisation per field type. Here a value of
  the datatype \<open>primitive\<close> carries its field type, and each family of overloads is one
  function with one equation per overload. Signed values are \<open>int\<close>, unsigned ones words,
  floating-point numbers their IEEE-754 bit patterns. Generated message classes are the
  parameter record \<open>message_ops\<close>.

  The lemmas show that each writer stores the encoding of its value, that the size functions
  count exactly those bytes, that the readers read the encodings back, and that the
  optimised readers and writers of repeated fields agree with the plain ones.
\<close>

section \<open>Types and tags\<close>

datatype WireType = WIRETYPE_VARINT | WIRETYPE_FIXED64 | WIRETYPE_LENGTH_DELIMITED
  | WIRETYPE_START_GROUP | WIRETYPE_END_GROUP | WIRETYPE_FIXED32

datatype FieldType = TYPE_DOUBLE | TYPE_FLOAT | TYPE_INT64 | TYPE_UINT64 | TYPE_INT32 | TYPE_FIXED64
  | TYPE_FIXED32 | TYPE_BOOL | TYPE_STRING | TYPE_GROUP | TYPE_MESSAGE | TYPE_BYTES | TYPE_UINT32
  | TYPE_ENUM | TYPE_SFIXED32 | TYPE_SFIXED64 | TYPE_SINT32 | TYPE_SINT64

primrec wire_type_code :: "WireType \<Rightarrow> 32 word" where
  "wire_type_code WIRETYPE_VARINT = 0"
| "wire_type_code WIRETYPE_FIXED64 = 1"
| "wire_type_code WIRETYPE_LENGTH_DELIMITED = 2"
| "wire_type_code WIRETYPE_START_GROUP = 3"
| "wire_type_code WIRETYPE_END_GROUP = 4"
| "wire_type_code WIRETYPE_FIXED32 = 5"

definition wire_types :: "WireType list" where
  "wire_types = [WIRETYPE_VARINT, WIRETYPE_FIXED64, WIRETYPE_LENGTH_DELIMITED,
     WIRETYPE_START_GROUP, WIRETYPE_END_GROUP, WIRETYPE_FIXED32]"

definition kTagTypeBits :: nat where
  "kTagTypeBits = 3"

definition kTagTypeMask :: "32 word" where
  "kTagTypeMask = push_bit kTagTypeBits 1 - 1"

definition MakeTag :: "int \<Rightarrow> WireType \<Rightarrow> 32 word" where
  "MakeTag field_number type' = push_bit 3 (word_of_int field_number) OR wire_type_code type'"

text \<open>The codes 6 and 7 have no enumerator and are \<^term>\<open>None\<close>.\<close>

definition GetTagWireType :: "32 word \<Rightarrow> WireType option" where
  "GetTagWireType tag = find (\<lambda>t. wire_type_code t = tag AND kTagTypeMask) wire_types"

definition GetTagFieldNumber :: "32 word \<Rightarrow> int" where
  "GetTagFieldNumber tag = int32_of (drop_bit kTagTypeBits tag)"

definition TagSize :: "int \<Rightarrow> FieldType \<Rightarrow> nat option" where
  "TagSize field_number type' = do {
     shifted \<leftarrow> (if 0 \<le> field_number \<and> field_number * 2 ^ kTagTypeBits < 2 ^ 32
                 then Some (push_bit kTagTypeBits (word_of_int field_number) :: 32 word) else None);
     result \<leftarrow> VarintSize32 shifted;
     Some (if type' = TYPE_GROUP then result * 2 else result) }"

definition kMessageSetItemNumber :: int where "kMessageSetItemNumber = 1"
definition kMessageSetTypeIdNumber :: int where "kMessageSetTypeIdNumber = 2"
definition kMessageSetMessageNumber :: int where "kMessageSetMessageNumber = 3"

definition kMessageSetItemStartTag :: "32 word" where
  "kMessageSetItemStartTag = MakeTag kMessageSetItemNumber WIRETYPE_START_GROUP"

definition kMessageSetItemEndTag :: "32 word" where
  "kMessageSetItemEndTag = MakeTag kMessageSetItemNumber WIRETYPE_END_GROUP"

definition kMessageSetTypeIdTag :: "32 word" where
  "kMessageSetTypeIdTag = MakeTag kMessageSetTypeIdNumber WIRETYPE_VARINT"

definition kMessageSetMessageTag :: "32 word" where
  "kMessageSetMessageTag = MakeTag kMessageSetMessageNumber WIRETYPE_LENGTH_DELIMITED"

section \<open>Floating-point numbers and ZigZag\<close>

datatype c_float = C_float "32 word"
datatype c_double = C_double "64 word"

primrec EncodeFloat :: "c_float \<Rightarrow> 32 word" where
  "EncodeFloat (C_float i) = i"

definition DecodeFloat :: "32 word \<Rightarrow> c_float" where
  "DecodeFloat i = C_float i"

primrec EncodeDouble :: "c_double \<Rightarrow> 64 word" where
  "EncodeDouble (C_double i) = i"

definition DecodeDouble :: "64 word \<Rightarrow> c_double" where
  "DecodeDouble i = C_double i"

definition ZigZagEncode32 :: "int \<Rightarrow> 32 word" where
  "ZigZagEncode32 n = push_bit 1 (word_of_int n) XOR word_of_int (drop_bit 31 n)"

definition ZigZagDecode32 :: "32 word \<Rightarrow> int" where
  "ZigZagDecode32 n = int32_of (drop_bit 1 n XOR (NOT (n AND 1) + 1))"

definition ZigZagEncode64 :: "int \<Rightarrow> 64 word" where
  "ZigZagEncode64 n = push_bit 1 (word_of_int n) XOR word_of_int (drop_bit 63 n)"

definition ZigZagDecode64 :: "64 word \<Rightarrow> int" where
  "ZigZagDecode64 n = sint (drop_bit 1 n XOR (NOT (n AND 1) + 1))"

definition wf_ReadVarint :: "byte list \<Rightarrow> int \<Rightarrow> (64 word \<times> int option) option" where
  "wf_ReadVarint mem p = Parse64 mem p"

definition ReadVarintZigZag64 :: "byte list \<Rightarrow> int \<Rightarrow> (int \<times> int option) option" where
  "ReadVarintZigZag64 mem p = do { (tmp, p) \<leftarrow> Parse64 mem p; Some (ZigZagDecode64 tmp, p) }"

definition ReadVarintZigZag32 :: "byte list \<Rightarrow> int \<Rightarrow> (int \<times> int option) option" where
  "ReadVarintZigZag32 mem p = do { (tmp, p) \<leftarrow> Parse64 mem p; Some (ZigZagDecode32 (ucast tmp), p) }"

section \<open>Scalar values\<close>

datatype primitive = Int32 int | Int64 int | UInt32 "32 word" | UInt64 "64 word" | SInt32 int | SInt64 int
  | Fixed32 "32 word" | Fixed64 "64 word" | SFixed32 int | SFixed64 int | Float c_float | Double c_double
  | Bool bool | Enum int

primrec DeclaredType :: "primitive \<Rightarrow> FieldType" where
  "DeclaredType (Int32 v) = TYPE_INT32"
| "DeclaredType (Int64 v) = TYPE_INT64"
| "DeclaredType (UInt32 v) = TYPE_UINT32"
| "DeclaredType (UInt64 v) = TYPE_UINT64"
| "DeclaredType (SInt32 v) = TYPE_SINT32"
| "DeclaredType (SInt64 v) = TYPE_SINT64"
| "DeclaredType (Fixed32 v) = TYPE_FIXED32"
| "DeclaredType (Fixed64 v) = TYPE_FIXED64"
| "DeclaredType (SFixed32 v) = TYPE_SFIXED32"
| "DeclaredType (SFixed64 v) = TYPE_SFIXED64"
| "DeclaredType (Float v) = TYPE_FLOAT"
| "DeclaredType (Double v) = TYPE_DOUBLE"
| "DeclaredType (Bool v) = TYPE_BOOL"
| "DeclaredType (Enum v) = TYPE_ENUM"

text \<open>The values of the C++ type: signed integers within their width.\<close>

fun c_value :: "primitive \<Rightarrow> bool" where
  "c_value (Int32 v) = (- (2 ^ 31) \<le> v \<and> v < 2 ^ 31)"
| "c_value (SInt32 v) = (- (2 ^ 31) \<le> v \<and> v < 2 ^ 31)"
| "c_value (SFixed32 v) = (- (2 ^ 31) \<le> v \<and> v < 2 ^ 31)"
| "c_value (Enum v) = (- (2 ^ 31) \<le> v \<and> v < 2 ^ 31)"
| "c_value (Int64 v) = (- (2 ^ 63) \<le> v \<and> v < 2 ^ 63)"
| "c_value (SInt64 v) = (- (2 ^ 63) \<le> v \<and> v < 2 ^ 63)"
| "c_value (SFixed64 v) = (- (2 ^ 63) \<le> v \<and> v < 2 ^ 63)"
| "c_value _ = True"

section \<open>Reading scalar fields\<close>

text \<open>A reader returns the value, or \<^term>\<open>None\<close> where the C++ function returns false.\<close>

definition read_as :: "('a \<Rightarrow> primitive) \<Rightarrow> (('a \<times> bool) \<times> 's) option \<Rightarrow> (primitive option \<times> 's) option" where
  "read_as f r = do { ((temp, ok), s) \<leftarrow> r; Some (if ok then Some (f temp) else None, s) }"

fun ReadPrimitive :: "'i input_cc \<Rightarrow> FieldType \<Rightarrow> 'i coded_input_stream \<Rightarrow> (primitive option \<times> 'i coded_input_stream) option" where
  "ReadPrimitive cc TYPE_INT32 s = read_as (\<lambda>temp. Int32 (sint temp)) (ReadVarint32 cc s)"
| "ReadPrimitive cc TYPE_INT64 s = read_as (\<lambda>temp. Int64 (sint temp)) (ReadVarint64 cc s)"
| "ReadPrimitive cc TYPE_UINT32 s = read_as UInt32 (ReadVarint32 cc s)"
| "ReadPrimitive cc TYPE_UINT64 s = read_as UInt64 (ReadVarint64 cc s)"
| "ReadPrimitive cc TYPE_SINT32 s = read_as (\<lambda>temp. SInt32 (ZigZagDecode32 temp)) (ReadVarint32 cc s)"
| "ReadPrimitive cc TYPE_SINT64 s = read_as (\<lambda>temp. SInt64 (ZigZagDecode64 temp)) (ReadVarint64 cc s)"
| "ReadPrimitive cc TYPE_FIXED32 s = read_as Fixed32 (ReadLittleEndian32 cc s)"
| "ReadPrimitive cc TYPE_FIXED64 s = read_as Fixed64 (ReadLittleEndian64 cc s)"
| "ReadPrimitive cc TYPE_SFIXED32 s = read_as (\<lambda>temp. SFixed32 (sint temp)) (ReadLittleEndian32 cc s)"
| "ReadPrimitive cc TYPE_SFIXED64 s = read_as (\<lambda>temp. SFixed64 (sint temp)) (ReadLittleEndian64 cc s)"
| "ReadPrimitive cc TYPE_FLOAT s = read_as (\<lambda>temp. Float (DecodeFloat temp)) (ReadLittleEndian32 cc s)"
| "ReadPrimitive cc TYPE_DOUBLE s = read_as (\<lambda>temp. Double (DecodeDouble temp)) (ReadLittleEndian64 cc s)"
| "ReadPrimitive cc TYPE_BOOL s = read_as (\<lambda>temp. Bool (temp \<noteq> 0)) (ReadVarint64 cc s)"
| "ReadPrimitive cc TYPE_ENUM s = read_as (\<lambda>temp. Enum (sint temp)) (ReadVarint32 cc s)"
| "ReadPrimitive cc _ s = None"

text \<open>Only the types of fixed wire size have a reader from arrays.\<close>

fun ReadPrimitiveFromArray :: "FieldType \<Rightarrow> byte list \<Rightarrow> int \<Rightarrow> (primitive \<times> int) option" where
  "ReadPrimitiveFromArray TYPE_FIXED32 mem p = map_option (apfst Fixed32) (ReadLittleEndian32FromArray mem p)"
| "ReadPrimitiveFromArray TYPE_FIXED64 mem p = map_option (apfst Fixed64) (ReadLittleEndian64FromArray mem p)"
| "ReadPrimitiveFromArray TYPE_SFIXED32 mem p = map_option (apfst (\<lambda>temp. SFixed32 (sint temp))) (ReadLittleEndian32FromArray mem p)"
| "ReadPrimitiveFromArray TYPE_SFIXED64 mem p = map_option (apfst (\<lambda>temp. SFixed64 (sint temp))) (ReadLittleEndian64FromArray mem p)"
| "ReadPrimitiveFromArray TYPE_FLOAT mem p = map_option (apfst (\<lambda>temp. Float (DecodeFloat temp))) (ReadLittleEndian32FromArray mem p)"
| "ReadPrimitiveFromArray TYPE_DOUBLE mem p = map_option (apfst (\<lambda>temp. Double (DecodeDouble temp))) (ReadLittleEndian64FromArray mem p)"
| "ReadPrimitiveFromArray _ mem p = None"

section \<open>Writing scalar fields\<close>

definition wf_WriteTag :: "'o output_cc \<Rightarrow> int \<Rightarrow> WireType \<Rightarrow> 'o coded_output_stream \<Rightarrow> 'o coded_output_stream option" where
  "wf_WriteTag cc field_number type' output = cos_WriteTag cc (MakeTag field_number type') output"

fun WriteNoTag :: "'o output_cc \<Rightarrow> primitive \<Rightarrow> 'o coded_output_stream \<Rightarrow> 'o coded_output_stream option" where
  "WriteNoTag cc (Int32 v) output = WriteVarint32SignExtended cc v output"
| "WriteNoTag cc (Int64 v) output = WriteVarint64 cc (word_of_int v) output"
| "WriteNoTag cc (UInt32 v) output = WriteVarint32 cc v output"
| "WriteNoTag cc (UInt64 v) output = WriteVarint64 cc v output"
| "WriteNoTag cc (SInt32 v) output = WriteVarint32 cc (ZigZagEncode32 v) output"
| "WriteNoTag cc (SInt64 v) output = WriteVarint64 cc (ZigZagEncode64 v) output"
| "WriteNoTag cc (Fixed32 v) output = cc_WriteLittleEndian32 cc v output"
| "WriteNoTag cc (Fixed64 v) output = cc_WriteLittleEndian64 cc v output"
| "WriteNoTag cc (SFixed32 v) output = cc_WriteLittleEndian32 cc (word_of_int v) output"
| "WriteNoTag cc (SFixed64 v) output = cc_WriteLittleEndian64 cc (word_of_int v) output"
| "WriteNoTag cc (Float v) output = cc_WriteLittleEndian32 cc (EncodeFloat v) output"
| "WriteNoTag cc (Double v) output = cc_WriteLittleEndian64 cc (EncodeDouble v) output"
| "WriteNoTag cc (Bool v) output = WriteVarint32 cc (if v then 1 else 0) output"
| "WriteNoTag cc (Enum v) output = WriteVarint32SignExtended cc v output"

definition wf_WriteTagToArray :: "int \<Rightarrow> WireType \<Rightarrow> int \<Rightarrow> byte list \<Rightarrow> (int \<times> byte list) option" where
  "wf_WriteTagToArray field_number type' target mem = WriteTagToArray (MakeTag field_number type') target mem"

fun WriteNoTagToArray :: "primitive \<Rightarrow> int \<Rightarrow> byte list \<Rightarrow> (int \<times> byte list) option" where
  "WriteNoTagToArray (Int32 v) target mem = WriteVarint32SignExtendedToArray v target mem"
| "WriteNoTagToArray (Int64 v) target mem = WriteVarint64ToArray (word_of_int v) target mem"
| "WriteNoTagToArray (UInt32 v) target mem = WriteVarint32ToArray v target mem"
| "WriteNoTagToArray (UInt64 v) target mem = WriteVarint64ToArray v target mem"
| "WriteNoTagToArray (SInt32 v) target mem = WriteVarint32ToArray (ZigZagEncode32 v) target mem"
| "WriteNoTagToArray (SInt64 v) target mem = WriteVarint64ToArray (ZigZagEncode64 v) target mem"
| "WriteNoTagToArray (Fixed32 v) target mem = WriteLittleEndian32ToArray v target mem"
| "WriteNoTagToArray (Fixed64 v) target mem = WriteLittleEndian64ToArray v target mem"
| "WriteNoTagToArray (SFixed32 v) target mem = WriteLittleEndian32ToArray (word_of_int v) target mem"
| "WriteNoTagToArray (SFixed64 v) target mem = WriteLittleEndian64ToArray (word_of_int v) target mem"
| "WriteNoTagToArray (Float v) target mem = WriteLittleEndian32ToArray (EncodeFloat v) target mem"
| "WriteNoTagToArray (Double v) target mem = WriteLittleEndian64ToArray (EncodeDouble v) target mem"
| "WriteNoTagToArray (Bool v) target mem = WriteVarint32ToArray (if v then 1 else 0) target mem"
| "WriteNoTagToArray (Enum v) target mem = WriteVarint32SignExtendedToArray v target mem"

definition tagged :: "int \<Rightarrow> WireType \<Rightarrow> primitive \<Rightarrow> int \<Rightarrow> byte list \<Rightarrow> (int \<times> byte list) option" where
  "tagged field_number type' v target mem = do {
     (target, mem) \<leftarrow> wf_WriteTagToArray field_number type' target mem;
     WriteNoTagToArray v target mem }"

fun WriteToArray :: "int \<Rightarrow> primitive \<Rightarrow> int \<Rightarrow> byte list \<Rightarrow> (int \<times> byte list) option" where
  "WriteToArray field_number (Int32 v) target mem = tagged field_number WIRETYPE_VARINT (Int32 v) target mem"
| "WriteToArray field_number (Int64 v) target mem = tagged field_number WIRETYPE_VARINT (Int64 v) target mem"
| "WriteToArray field_number (UInt32 v) target mem = tagged field_number WIRETYPE_VARINT (UInt32 v) target mem"
| "WriteToArray field_number (UInt64 v) target mem = tagged field_number WIRETYPE_VARINT (UInt64 v) target mem"
| "WriteToArray field_number (SInt32 v) target mem = tagged field_number WIRETYPE_VARINT (SInt32 v) target mem"
| "WriteToArray field_number (SInt64 v) target mem = tagged field_number WIRETYPE_VARINT (SInt64 v) target mem"
| "WriteToArray field_number (Fixed32 v) target mem = tagged field_number WIRETYPE_FIXED32 (Fixed32 v) target mem"
| "WriteToArray field_number (Fixed64 v) target mem = tagged field_number WIRETYPE_FIXED64 (Fixed64 v) target mem"
| "WriteToArray field_number (SFixed32 v) target mem = tagged field_number WIRETYPE_FIXED32 (SFixed32 v) target mem"
| "WriteToArray field_number (SFixed64 v) target mem = tagged field_number WIRETYPE_FIXED64 (SFixed64 v) target mem"
| "WriteToArray field_number (Float v) target mem = tagged field_number WIRETYPE_FIXED32 (Float v) target mem"
| "WriteToArray field_number (Double v) target mem = tagged field_number WIRETYPE_FIXED64 (Double v) target mem"
| "WriteToArray field_number (Bool v) target mem = tagged field_number WIRETYPE_VARINT (Bool v) target mem"
| "WriteToArray field_number (Enum v) target mem = tagged field_number WIRETYPE_VARINT (Enum v) target mem"

section \<open>Sizes\<close>

fun FixedSize :: "primitive \<Rightarrow> nat" where
  "FixedSize (Fixed32 v) = 4"
| "FixedSize (Fixed64 v) = 8"
| "FixedSize (SFixed32 v) = 4"
| "FixedSize (SFixed64 v) = 8"
| "FixedSize (Float v) = 4"
| "FixedSize (Double v) = 8"
| "FixedSize (Bool v) = 1"
| "FixedSize _ = 0"

text \<open>\<open>Int32Size\<close> to \<open>EnumSize\<close>, and for the types of fixed size the constants \<open>kFixed32Size\<close> to \<open>kBoolSize\<close>.\<close>

fun PrimitiveSize :: "primitive \<Rightarrow> nat option" where
  "PrimitiveSize (Int32 v) = VarintSize32SignExtended v"
| "PrimitiveSize (Int64 v) = VarintSize64 (word_of_int v)"
| "PrimitiveSize (UInt32 v) = VarintSize32 v"
| "PrimitiveSize (UInt64 v) = VarintSize64 v"
| "PrimitiveSize (SInt32 v) = VarintSize32 (ZigZagEncode32 v)"
| "PrimitiveSize (SInt64 v) = VarintSize64 (ZigZagEncode64 v)"
| "PrimitiveSize (Enum v) = VarintSize32SignExtended v"
| "PrimitiveSize v = Some (FixedSize v)"

definition LengthDelimitedSize :: "64 word \<Rightarrow> 64 word option" where
  "LengthDelimitedSize length' = do {
     l \<leftarrow> VarintSize32 (ucast length');
     Some (length' + of_nat l) }"

definition StringSize :: "byte list \<Rightarrow> 64 word option" where
  "StringSize value' = LengthDelimitedSize (of_nat (length value'))"

definition BytesSize :: "byte list \<Rightarrow> 64 word option" where
  "BytesSize value' = LengthDelimitedSize (of_nat (length value'))"

section \<open>Repeated fields\<close>

type_synonym primitives = "primitive repeated_field"

text \<open>\<open>ii[i]\<close> for the elements of a field; reading an element never written is undefined.\<close>

definition element_at :: "primitives \<Rightarrow> int \<Rightarrow> primitive option" where
  "element_at vals i = do { es \<leftarrow> rf_elements vals; e \<leftarrow> arr_get es i; e }"

text \<open>The \<open>do\<close>-\<open>while\<close> loops run once per remaining element.\<close>

primrec write_elements ::
  "(primitive \<Rightarrow> int \<Rightarrow> byte list \<Rightarrow> (int \<times> byte list) option) \<Rightarrow> nat \<Rightarrow> int \<Rightarrow> primitives \<Rightarrow> int \<Rightarrow> byte list \<Rightarrow> (int \<times> byte list) option" where
  "write_elements Writer 0 i vals target mem = Some (target, mem)"
| "write_elements Writer (Suc k) i vals target mem = do {
     v \<leftarrow> element_at vals i;
     (target, mem) \<leftarrow> Writer v target mem;
     write_elements Writer k (i + 1) vals target mem }"

definition WritePrimitiveNoTagToArray :: "primitives \<Rightarrow> int \<Rightarrow> byte list \<Rightarrow> (int \<times> byte list) option" where
  "WritePrimitiveNoTagToArray vals target mem = do {
     let n = rf_size vals;
     GOOGLE_DCHECK (0 < n);
     write_elements WriteNoTagToArray (nat n) 0 vals target mem }"

text \<open>The object representation of an element of a type of fixed wire size.\<close>

fun element_bytes :: "primitive \<Rightarrow> byte list" where
  "element_bytes (Fixed32 v) = object_bytes v"
| "element_bytes (Fixed64 v) = object_bytes v"
| "element_bytes (SFixed32 v) = object_bytes (word_of_int v :: 32 word)"
| "element_bytes (SFixed64 v) = object_bytes (word_of_int v :: 64 word)"
| "element_bytes (Float v) = object_bytes (EncodeFloat v)"
| "element_bytes (Double v) = object_bytes (EncodeDouble v)"
| "element_bytes _ = []"

primrec elements_bytes :: "nat \<Rightarrow> int \<Rightarrow> primitives \<Rightarrow> byte list option" where
  "elements_bytes 0 i vals = Some []"
| "elements_bytes (Suc k) i vals = do {
     v \<leftarrow> element_at vals i;
     bs \<leftarrow> elements_bytes k (i + 1) vals;
     Some (element_bytes v @ bs) }"

definition WriteFixedNoTagToArray :: "int \<Rightarrow> primitives \<Rightarrow> int \<Rightarrow> byte list \<Rightarrow> (int \<times> byte list) option" where
  "WriteFixedNoTagToArray sizeof vals target mem = do {
     let n = rf_size vals;
     GOOGLE_DCHECK (0 < n);
     bytes \<leftarrow> c_int (n * sizeof);
     bs \<leftarrow> elements_bytes (nat n) 0 vals;
     mem \<leftarrow> memcpy_to mem target bs;
     Some (target + bytes, mem) }"

fun WriteRepeatedNoTagToArray :: "FieldType \<Rightarrow> primitives \<Rightarrow> int \<Rightarrow> byte list \<Rightarrow> (int \<times> byte list) option" where
  "WriteRepeatedNoTagToArray TYPE_INT32 vals target mem = WritePrimitiveNoTagToArray vals target mem"
| "WriteRepeatedNoTagToArray TYPE_INT64 vals target mem = WritePrimitiveNoTagToArray vals target mem"
| "WriteRepeatedNoTagToArray TYPE_UINT32 vals target mem = WritePrimitiveNoTagToArray vals target mem"
| "WriteRepeatedNoTagToArray TYPE_UINT64 vals target mem = WritePrimitiveNoTagToArray vals target mem"
| "WriteRepeatedNoTagToArray TYPE_SINT32 vals target mem = WritePrimitiveNoTagToArray vals target mem"
| "WriteRepeatedNoTagToArray TYPE_SINT64 vals target mem = WritePrimitiveNoTagToArray vals target mem"
| "WriteRepeatedNoTagToArray TYPE_FIXED32 vals target mem = WriteFixedNoTagToArray 4 vals target mem"
| "WriteRepeatedNoTagToArray TYPE_FIXED64 vals target mem = WriteFixedNoTagToArray 8 vals target mem"
| "WriteRepeatedNoTagToArray TYPE_SFIXED32 vals target mem = WriteFixedNoTagToArray 4 vals target mem"
| "WriteRepeatedNoTagToArray TYPE_SFIXED64 vals target mem = WriteFixedNoTagToArray 8 vals target mem"
| "WriteRepeatedNoTagToArray TYPE_FLOAT vals target mem = WriteFixedNoTagToArray 4 vals target mem"
| "WriteRepeatedNoTagToArray TYPE_DOUBLE vals target mem = WriteFixedNoTagToArray 8 vals target mem"
| "WriteRepeatedNoTagToArray TYPE_BOOL vals target mem = WritePrimitiveNoTagToArray vals target mem"
| "WriteRepeatedNoTagToArray TYPE_ENUM vals target mem = WritePrimitiveNoTagToArray vals target mem"
| "WriteRepeatedNoTagToArray _ vals target mem = None"

definition WritePrimitiveToArray :: "int \<Rightarrow> primitives \<Rightarrow> int \<Rightarrow> byte list \<Rightarrow> (int \<times> byte list) option" where
  "WritePrimitiveToArray field_number vals target mem =
     (let n = rf_size vals in
      if n = 0 then Some (target, mem)
      else write_elements (WriteToArray field_number) (nat n) 0 vals target mem)"

definition WriteRepeatedToArray :: "int \<Rightarrow> primitives \<Rightarrow> int \<Rightarrow> byte list \<Rightarrow> (int \<times> byte list) option" where
  "WriteRepeatedToArray field_number vals target mem = WritePrimitiveToArray field_number vals target mem"

primrec read_repeated_loop ::
  "'i input_cc \<Rightarrow> FieldType \<Rightarrow> 32 word \<Rightarrow> nat \<Rightarrow> 'i coded_input_stream \<Rightarrow> primitives \<Rightarrow>
     (bool \<times> 'i coded_input_stream \<times> primitives) option" where
  "read_repeated_loop cc ty tag 0 s vals = Some (True, s, vals)"
| "read_repeated_loop cc ty tag (Suc elements_already_reserved) s vals = do {
     (expected, s) \<leftarrow> ExpectTag tag s;
     if expected then do {
       (v, s) \<leftarrow> ReadPrimitive cc ty s;
       case v of None \<Rightarrow> Some (False, s, vals)
       | Some v \<Rightarrow> do {
           vals \<leftarrow> rf_AddAlreadyReserved (Some v) vals;
           read_repeated_loop cc ty tag elements_already_reserved s vals } }
     else Some (True, s, vals) }"

definition ReadRepeatedPrimitive ::
  "'i input_cc \<Rightarrow> FieldType \<Rightarrow> 32 word \<Rightarrow> 'i coded_input_stream \<Rightarrow> primitives \<Rightarrow>
     (bool \<times> 'i coded_input_stream \<times> primitives) option" where
  "ReadRepeatedPrimitive cc ty tag s vals = do {
     (v, s) \<leftarrow> ReadPrimitive cc ty s;
     case v of None \<Rightarrow> Some (False, s, vals)
     | Some v \<Rightarrow> do {
         vals \<leftarrow> rf_Add (Some v) vals;
         let elements_already_reserved = rf_Capacity vals - rf_size vals;
         read_repeated_loop cc ty tag (nat elements_already_reserved) s vals } }"

fun cpp_sizeof :: "FieldType \<Rightarrow> int" where
  "cpp_sizeof TYPE_FIXED32 = 4"
| "cpp_sizeof TYPE_FIXED64 = 8"
| "cpp_sizeof TYPE_SFIXED32 = 4"
| "cpp_sizeof TYPE_SFIXED64 = 8"
| "cpp_sizeof TYPE_FLOAT = 4"
| "cpp_sizeof TYPE_DOUBLE = 8"
| "cpp_sizeof _ = 0"

primrec read_fixed_loop ::
  "FieldType \<Rightarrow> 32 word \<Rightarrow> nat \<Rightarrow> int \<Rightarrow> byte list \<Rightarrow> int \<Rightarrow> primitives \<Rightarrow> (int \<times> primitives) option" where
  "read_fixed_loop ty tag 0 num_read mem buffer vals = Some (num_read, vals)"
| "read_fixed_loop ty tag (Suc k) num_read mem buffer vals = do {
     found \<leftarrow> ExpectTagFromArray mem buffer tag;
     case found of None \<Rightarrow> Some (num_read, vals)
     | Some buffer \<Rightarrow> do {
         (v, buffer) \<leftarrow> ReadPrimitiveFromArray ty mem buffer;
         vals \<leftarrow> rf_AddAlreadyReserved (Some v) vals;
         read_fixed_loop ty tag k (num_read + 1) mem buffer vals } }"

definition ReadRepeatedFixedSizePrimitive ::
  "'i input_cc \<Rightarrow> FieldType \<Rightarrow> int \<Rightarrow> 32 word \<Rightarrow> 'i coded_input_stream \<Rightarrow> primitives \<Rightarrow>
     (bool \<times> 'i coded_input_stream \<times> primitives) option" where
  "ReadRepeatedFixedSizePrimitive cc ty tag_size tag s vals = do {
     l \<leftarrow> VarintSize32 tag;
     GOOGLE_DCHECK (int l = tag_size);
     (v, s) \<leftarrow> ReadPrimitive cc ty s;
     case v of None \<Rightarrow> Some (False, s, vals)
     | Some v \<Rightarrow> do {
         vals \<leftarrow> rf_Add (Some v) vals;
         let (buffer, size') = GetDirectBufferPointerInline s;
         if 0 < size' then do {
           let per_value_size = tag_size + cpp_sizeof ty;
           let elements_available = min (rf_Capacity vals - rf_size vals) (size' div per_value_size);
           (num_read, vals) \<leftarrow> read_fixed_loop ty tag (nat elements_available) 0 (cis_mem s) buffer vals;
           let read_bytes = num_read * per_value_size;
           if 0 < read_bytes then do {
             (ok, s) \<leftarrow> cis_Skip cc read_bytes s;
             Some (True, s, vals) }
           else Some (True, s, vals) }
         else Some (True, s, vals) } }"

fun ReadRepeatedField ::
  "'i input_cc \<Rightarrow> FieldType \<Rightarrow> int \<Rightarrow> 32 word \<Rightarrow> 'i coded_input_stream \<Rightarrow> primitives \<Rightarrow>
     (bool \<times> 'i coded_input_stream \<times> primitives) option" where
  "ReadRepeatedField cc TYPE_FIXED32 tag_size tag s vals = ReadRepeatedFixedSizePrimitive cc TYPE_FIXED32 tag_size tag s vals"
| "ReadRepeatedField cc TYPE_FIXED64 tag_size tag s vals = ReadRepeatedFixedSizePrimitive cc TYPE_FIXED64 tag_size tag s vals"
| "ReadRepeatedField cc TYPE_SFIXED32 tag_size tag s vals = ReadRepeatedFixedSizePrimitive cc TYPE_SFIXED32 tag_size tag s vals"
| "ReadRepeatedField cc TYPE_SFIXED64 tag_size tag s vals = ReadRepeatedFixedSizePrimitive cc TYPE_SFIXED64 tag_size tag s vals"
| "ReadRepeatedField cc TYPE_FLOAT tag_size tag s vals = ReadRepeatedFixedSizePrimitive cc TYPE_FLOAT tag_size tag s vals"
| "ReadRepeatedField cc TYPE_DOUBLE tag_size tag s vals = ReadRepeatedFixedSizePrimitive cc TYPE_DOUBLE tag_size tag s vals"
| "ReadRepeatedField cc ty tag_size tag s vals = ReadRepeatedPrimitive cc ty tag s vals"

section \<open>Packed fields\<close>

partial_function (option) read_packed_loop ::
  "'i input_cc \<Rightarrow> FieldType \<Rightarrow> 'i coded_input_stream \<Rightarrow> primitives \<Rightarrow> (bool \<times> 'i coded_input_stream \<times> primitives) option" where
  "read_packed_loop cc ty s vals =
     (if 0 < cc_BytesUntilLimit cc s
      then do {
        (v, s) \<leftarrow> ReadPrimitive cc ty s;
        case v of None \<Rightarrow> Some (False, s, vals)
        | Some v \<Rightarrow> do { vals \<leftarrow> rf_Add (Some v) vals; read_packed_loop cc ty s vals } }
      else Some (True, s, vals))"

definition ReadPackedPrimitive ::
  "'i input_cc \<Rightarrow> FieldType \<Rightarrow> 'i coded_input_stream \<Rightarrow> primitives \<Rightarrow> (bool \<times> 'i coded_input_stream \<times> primitives) option" where
  "ReadPackedPrimitive cc ty s vals = do {
     ((length', ok), s) \<leftarrow> ReadVarintSizeAsInt cc s;
     if \<not> ok then Some (False, s, vals)
     else do {
       (limit, s) \<leftarrow> cc_PushLimit cc length' s;
       (ok, s, vals) \<leftarrow> read_packed_loop cc ty s vals;
       if ok then do { s \<leftarrow> cc_PopLimit cc limit s; Some (True, s, vals) }
       else Some (False, s, vals) } }"

fun zero_of :: "FieldType \<Rightarrow> primitive" where
  "zero_of TYPE_FIXED64 = Fixed64 0"
| "zero_of TYPE_SFIXED32 = SFixed32 0"
| "zero_of TYPE_SFIXED64 = SFixed64 0"
| "zero_of TYPE_FLOAT = Float (C_float 0)"
| "zero_of TYPE_DOUBLE = Double (C_double 0)"
| "zero_of _ = Fixed32 0"

text \<open>Reinterpreting raw bytes as elements of the field, one object after the other.\<close>

primrec objects_from :: "FieldType \<Rightarrow> nat \<Rightarrow> byte list \<Rightarrow> int \<Rightarrow> primitive list option" where
  "objects_from ty 0 bs p = Some []"
| "objects_from ty (Suc k) bs p = do {
     (v, p) \<leftarrow> ReadPrimitiveFromArray ty bs p;
     vs \<leftarrow> objects_from ty k bs p;
     Some (v # vs) }"

definition store_elements :: "int \<Rightarrow> primitive list \<Rightarrow> primitives \<Rightarrow> primitives option" where
  "store_elements i vs vals = do {
     es \<leftarrow> rf_elements vals;
     es \<leftarrow> arr_copy es i (map Some vs) 0 (int (length vs));
     Some (set_elements es vals) }"

primrec read_entries_loop ::
  "'i input_cc \<Rightarrow> FieldType \<Rightarrow> nat \<Rightarrow> 'i coded_input_stream \<Rightarrow> primitives \<Rightarrow> (bool \<times> 'i coded_input_stream \<times> primitives) option" where
  "read_entries_loop cc ty 0 s vals = Some (True, s, vals)"
| "read_entries_loop cc ty (Suc k) s vals = do {
     (v, s) \<leftarrow> ReadPrimitive cc ty s;
     case v of None \<Rightarrow> Some (False, s, vals)
     | Some v \<Rightarrow> do { vals \<leftarrow> rf_Add (Some v) vals; read_entries_loop cc ty k s vals } }"

definition ReadPackedFixedSizePrimitive ::
  "'i input_cc \<Rightarrow> FieldType \<Rightarrow> 'i coded_input_stream \<Rightarrow> primitives \<Rightarrow> (bool \<times> 'i coded_input_stream \<times> primitives) option" where
  "ReadPackedFixedSizePrimitive cc ty s vals = do {
     ((length', ok), s) \<leftarrow> ReadVarintSizeAsInt cc s;
     if \<not> ok then Some (False, s, vals)
     else do {
       let old_entries = rf_size vals;
       let new_entries = length' div cpp_sizeof ty;
       let new_bytes = new_entries * cpp_sizeof ty;
       if new_bytes \<noteq> length' then Some (False, s, vals)
       else do {
         let bytes_limit = cc_BytesUntilTotalBytesLimit cc s;
         let bytes_limit = (if bytes_limit = - 1 then cc_BytesUntilLimit cc s
                            else min bytes_limit (cc_BytesUntilLimit cc s));
         if new_bytes \<le> bytes_limit then do {
           n \<leftarrow> c_int (old_entries + new_entries);
           vals \<leftarrow> rf_Resize n (Some (zero_of ty)) vals;
           ((bs, ok), s) \<leftarrow> cc_ReadRaw cc new_bytes s;
           if ok then do {
             vs \<leftarrow> objects_from ty (nat new_entries) bs 0;
             vals \<leftarrow> store_elements old_entries vs vals;
             Some (True, s, vals) }
           else do { vals \<leftarrow> rf_Truncate old_entries vals; Some (False, s, vals) } }
         else read_entries_loop cc ty (nat new_entries) s vals } } }"

fun ReadPackedField ::
  "'i input_cc \<Rightarrow> FieldType \<Rightarrow> 'i coded_input_stream \<Rightarrow> primitives \<Rightarrow> (bool \<times> 'i coded_input_stream \<times> primitives) option" where
  "ReadPackedField cc TYPE_FIXED32 s vals = ReadPackedFixedSizePrimitive cc TYPE_FIXED32 s vals"
| "ReadPackedField cc TYPE_FIXED64 s vals = ReadPackedFixedSizePrimitive cc TYPE_FIXED64 s vals"
| "ReadPackedField cc TYPE_SFIXED32 s vals = ReadPackedFixedSizePrimitive cc TYPE_SFIXED32 s vals"
| "ReadPackedField cc TYPE_SFIXED64 s vals = ReadPackedFixedSizePrimitive cc TYPE_SFIXED64 s vals"
| "ReadPackedField cc TYPE_FLOAT s vals = ReadPackedFixedSizePrimitive cc TYPE_FLOAT s vals"
| "ReadPackedField cc TYPE_DOUBLE s vals = ReadPackedFixedSizePrimitive cc TYPE_DOUBLE s vals"
| "ReadPackedField cc ty s vals = ReadPackedPrimitive cc ty s vals"

section \<open>Strings and messages\<close>

definition wf_WriteStringToArray :: "'o output_cc \<Rightarrow> int \<Rightarrow> byte list \<Rightarrow> int \<Rightarrow> byte list \<Rightarrow> (int \<times> byte list) option" where
  "wf_WriteStringToArray cc field_number value' target mem = do {
     (target, mem) \<leftarrow> wf_WriteTagToArray field_number WIRETYPE_LENGTH_DELIMITED target mem;
     cc_WriteStringWithSizeToArray cc value' target mem }"

definition WriteBytesToArray :: "'o output_cc \<Rightarrow> int \<Rightarrow> byte list \<Rightarrow> int \<Rightarrow> byte list \<Rightarrow> (int \<times> byte list) option" where
  "WriteBytesToArray cc field_number value' target mem = do {
     (target, mem) \<leftarrow> wf_WriteTagToArray field_number WIRETYPE_LENGTH_DELIMITED target mem;
     cc_WriteStringWithSizeToArray cc value' target mem }"

text \<open>The operations of a generated message class that the wire format calls.\<close>

record ('m, 'i, 'o) message_ops =
  MergePartialFromCodedStream :: "'i coded_input_stream \<Rightarrow> 'm \<Rightarrow> (bool \<times> 'i coded_input_stream \<times> 'm) option"
  SerializeWithCachedSizes :: "'m \<Rightarrow> 'o coded_output_stream \<Rightarrow> 'o coded_output_stream option"
  InternalSerializeWithCachedSizesToArray :: "'m \<Rightarrow> int \<Rightarrow> byte list \<Rightarrow> (int \<times> byte list) option"
  GetCachedSize :: "'m \<Rightarrow> int"
  ByteSizeLong :: "'m \<Rightarrow> 64 word"

definition ReadGroup ::
  "('m, 'i, 'o) message_ops \<Rightarrow> int \<Rightarrow> 'i coded_input_stream \<Rightarrow> 'm \<Rightarrow> (bool \<times> 'i coded_input_stream \<times> 'm) option" where
  "ReadGroup ops field_number s value' = do {
     (ok, s) \<leftarrow> IncrementRecursionDepth s;
     if \<not> ok then Some (False, s, value')
     else do {
       (ok, s, value') \<leftarrow> MergePartialFromCodedStream ops s value';
       if \<not> ok then Some (False, s, value')
       else do {
         s \<leftarrow> UnsafeDecrementRecursionDepth s;
         if \<not> LastTagWas (MakeTag field_number WIRETYPE_END_GROUP) s then Some (False, s, value')
         else Some (True, s, value') } } }"

definition ReadMessage ::
  "'i input_cc \<Rightarrow> ('m, 'i, 'o) message_ops \<Rightarrow> 'i coded_input_stream \<Rightarrow> 'm \<Rightarrow> (bool \<times> 'i coded_input_stream \<times> 'm) option" where
  "ReadMessage cc ops s value' = do {
     ((length', ok), s) \<leftarrow> ReadVarintSizeAsInt cc s;
     if \<not> ok then Some (False, s, value')
     else do {
       ((limit, budget), s) \<leftarrow> cc_IncrementRecursionDepthAndPushLimit cc length' s;
       if budget < 0 then Some (False, s, value')
       else do {
         (ok, s, value') \<leftarrow> MergePartialFromCodedStream ops s value';
         if \<not> ok then Some (False, s, value')
         else do {
           (ok, s) \<leftarrow> cc_DecrementRecursionDepthAndPopLimit cc limit s;
           Some (ok, s, value') } } } }"

definition WriteGroupNoVirtual ::
  "'o output_cc \<Rightarrow> ('m, 'i, 'o) message_ops \<Rightarrow> int \<Rightarrow> 'm \<Rightarrow> 'o coded_output_stream \<Rightarrow> 'o coded_output_stream option" where
  "WriteGroupNoVirtual cc ops field_number value' output = do {
     output \<leftarrow> wf_WriteTag cc field_number WIRETYPE_START_GROUP output;
     output \<leftarrow> SerializeWithCachedSizes ops value' output;
     wf_WriteTag cc field_number WIRETYPE_END_GROUP output }"

definition WriteMessageNoVirtual ::
  "'o output_cc \<Rightarrow> ('m, 'i, 'o) message_ops \<Rightarrow> int \<Rightarrow> 'm \<Rightarrow> 'o coded_output_stream \<Rightarrow> 'o coded_output_stream option" where
  "WriteMessageNoVirtual cc ops field_number value' output = do {
     output \<leftarrow> wf_WriteTag cc field_number WIRETYPE_LENGTH_DELIMITED output;
     output \<leftarrow> WriteVarint32 cc (word_of_int (GetCachedSize ops value')) output;
     SerializeWithCachedSizes ops value' output }"

definition InternalWriteGroupToArray ::
  "('m, 'i, 'o) message_ops \<Rightarrow> int \<Rightarrow> 'm \<Rightarrow> int \<Rightarrow> byte list \<Rightarrow> (int \<times> byte list) option" where
  "InternalWriteGroupToArray ops field_number value' target mem = do {
     (target, mem) \<leftarrow> wf_WriteTagToArray field_number WIRETYPE_START_GROUP target mem;
     (target, mem) \<leftarrow> InternalSerializeWithCachedSizesToArray ops value' target mem;
     wf_WriteTagToArray field_number WIRETYPE_END_GROUP target mem }"

definition InternalWriteMessageToArray ::
  "('m, 'i, 'o) message_ops \<Rightarrow> int \<Rightarrow> 'm \<Rightarrow> int \<Rightarrow> byte list \<Rightarrow> (int \<times> byte list) option" where
  "InternalWriteMessageToArray ops field_number value' target mem = do {
     (target, mem) \<leftarrow> wf_WriteTagToArray field_number WIRETYPE_LENGTH_DELIMITED target mem;
     (target, mem) \<leftarrow> WriteVarint32ToArray (word_of_int (GetCachedSize ops value')) target mem;
     InternalSerializeWithCachedSizesToArray ops value' target mem }"

definition InternalWriteGroupNoVirtualToArray ::
  "('m, 'i, 'o) message_ops \<Rightarrow> int \<Rightarrow> 'm \<Rightarrow> int \<Rightarrow> byte list \<Rightarrow> (int \<times> byte list) option" where
  "InternalWriteGroupNoVirtualToArray ops field_number value' target mem = do {
     (target, mem) \<leftarrow> wf_WriteTagToArray field_number WIRETYPE_START_GROUP target mem;
     (target, mem) \<leftarrow> InternalSerializeWithCachedSizesToArray ops value' target mem;
     wf_WriteTagToArray field_number WIRETYPE_END_GROUP target mem }"

definition InternalWriteMessageNoVirtualToArray ::
  "('m, 'i, 'o) message_ops \<Rightarrow> int \<Rightarrow> 'm \<Rightarrow> int \<Rightarrow> byte list \<Rightarrow> (int \<times> byte list) option" where
  "InternalWriteMessageNoVirtualToArray ops field_number value' target mem = do {
     (target, mem) \<leftarrow> wf_WriteTagToArray field_number WIRETYPE_LENGTH_DELIMITED target mem;
     (target, mem) \<leftarrow> WriteVarint32ToArray (word_of_int (GetCachedSize ops value')) target mem;
     InternalSerializeWithCachedSizesToArray ops value' target mem }"

definition GroupSize :: "('m, 'i, 'o) message_ops \<Rightarrow> 'm \<Rightarrow> 64 word" where
  "GroupSize ops value' = ByteSizeLong ops value'"

definition MessageSize :: "('m, 'i, 'o) message_ops \<Rightarrow> 'm \<Rightarrow> 64 word option" where
  "MessageSize ops value' = LengthDelimitedSize (ByteSizeLong ops value')"

text \<open>
  One item of a message set. The client \<open>ms\<close> parses a field of known type and skips unknown
  ones; data that arrives before its type is kept with its length prefix and parsed from
  there when the type is known.
\<close>

record ('x, 'i) message_set =
  ms_ParseField :: "32 word \<Rightarrow> 'i coded_input_stream \<Rightarrow> 'x \<Rightarrow> (bool \<times> 'i coded_input_stream \<times> 'x) option"
  ms_SkipField :: "32 word \<Rightarrow> 'i coded_input_stream \<Rightarrow> 'x \<Rightarrow> (bool \<times> 'i coded_input_stream \<times> 'x) option"

definition string_resize :: "nat \<Rightarrow> byte list \<Rightarrow> byte list" where
  "string_resize n str = take n str @ replicate (n - length str) 0"

definition keep_message_data ::
  "'i input_cc \<Rightarrow> byte list \<Rightarrow> 'i coded_input_stream \<Rightarrow> ((byte list \<times> bool) \<times> 'i coded_input_stream) option" where
  "keep_message_data cc message_data s = do {
     ((length', ok), s) \<leftarrow> ReadVarint32 cc s;
     if \<not> ok then Some ((message_data, False), s)
     else if int32_of length' < 0 then Some ((message_data, False), s)
     else do {
       l \<leftarrow> VarintSize32 length';
       let size' = length' + of_nat l;
       (ptr, message_data) \<leftarrow> WriteVarint32ToArray length' 0 (string_resize (unat size') message_data);
       ((bs, ok), s) \<leftarrow> cc_ReadRaw cc (int32_of length') s;
       if \<not> ok then Some ((message_data, False), s)
       else do {
         message_data \<leftarrow> memcpy_to message_data ptr bs;
         Some ((message_data, True), s) } } }"

partial_function (option) message_set_loop ::
  "'i input_cc \<Rightarrow> ('x, 'i) message_set \<Rightarrow> 32 word \<Rightarrow> byte list \<Rightarrow> 'i coded_input_stream \<Rightarrow> 'x \<Rightarrow> (bool \<times> 'i coded_input_stream \<times> 'x) option" where
  "message_set_loop cc ms last_type_id message_data s x = do {
     (tag, s) \<leftarrow> ReadTagNoLastTag cc s;
     if tag = 0 then Some (False, s, x)
     else if tag = kMessageSetTypeIdTag then do {
       ((type_id, ok), s) \<leftarrow> ReadVarint32 cc s;
       if \<not> ok then Some (False, s, x)
       else if message_data \<noteq> [] then do {
         let sub_input = CodedInputStream_flat cc message_data 0 (int32_of (of_nat (length message_data)));
         (ok, sub_input, x) \<leftarrow> ms_ParseField ms type_id sub_input x;
         if \<not> ok then Some (False, s, x)
         else message_set_loop cc ms type_id [] s x }
       else message_set_loop cc ms type_id message_data s x }
     else if tag = kMessageSetMessageTag then
       if last_type_id = 0 then do {
         ((data, ok), s) \<leftarrow> keep_message_data cc message_data s;
         if \<not> ok then Some (False, s, x)
         else message_set_loop cc ms last_type_id data s x }
       else do {
         (ok, s, x) \<leftarrow> ms_ParseField ms last_type_id s x;
         if \<not> ok then Some (False, s, x)
         else message_set_loop cc ms last_type_id message_data s x }
     else if tag = kMessageSetItemEndTag then Some (True, s, x)
     else do {
       (ok, s, x) \<leftarrow> ms_SkipField ms tag s x;
       if \<not> ok then Some (False, s, x)
       else message_set_loop cc ms last_type_id message_data s x } }"

definition ParseMessageSetItemImpl ::
  "'i input_cc \<Rightarrow> ('x, 'i) message_set \<Rightarrow> 'i coded_input_stream \<Rightarrow> 'x \<Rightarrow> (bool \<times> 'i coded_input_stream \<times> 'x) option" where
  "ParseMessageSetItemImpl cc ms s x = message_set_loop cc ms 0 [] s x"

section \<open>The encoding of scalar values\<close>

fun encoding :: "primitive \<Rightarrow> byte list" where
  "encoding (Int32 v) = varint (unat (word_of_int v :: 64 word))"
| "encoding (Int64 v) = varint (unat (word_of_int v :: 64 word))"
| "encoding (UInt32 v) = varint (unat v)"
| "encoding (UInt64 v) = varint (unat v)"
| "encoding (SInt32 v) = varint (unat (ZigZagEncode32 v))"
| "encoding (SInt64 v) = varint (unat (ZigZagEncode64 v))"
| "encoding (Bool v) = varint (if v then 1 else 0)"
| "encoding (Enum v) = varint (unat (word_of_int v :: 64 word))"
| "encoding v = element_bytes v"

lemma writes_encoding: "writes (WriteNoTagToArray v) (encoding v)"
  using writes_varint_loop [of "1 :: 32 word"] writes_varint_loop [of "0 :: 32 word"]
  by (cases v) (simp_all add: writes_def WriteVarint32SignExtendedToArray_def WriteVarint64ToArray_def
      WriteVarint32ToArray_def writesD [OF writes_varint_loop] writesD [OF writes_LE32] writesD [OF writes_LE64])

lemma PrimitiveSize_encoding: "c_value v \<Longrightarrow> PrimitiveSize v = Some (length (encoding v))"
  by (cases v) (simp_all add: varint_simps length_object_bytes)

lemma length_encoding: "0 < length (encoding v) \<and> length (encoding v) \<le> 10"
proof -
  have "length (varint (unat (w :: 32 word))) \<le> 10" for w using length_varint_32 [of w] by simp
  then show ?thesis
    by (cases v) (simp_all add: length_varint_64 length_object_bytes)
qed

subsection \<open>ZigZag\<close>

definition zigzag_word :: "'a::len word \<Rightarrow> 'a word" where
  "zigzag_word w = push_bit 1 w XOR (if bit w (LENGTH('a) - 1) then - 1 else 0)"

lemma zigzag_word_inverse:
  fixes w :: "'a::len word"
  assumes "1 < LENGTH('a)"
  shows "drop_bit 1 (zigzag_word w) XOR (NOT (zigzag_word w AND 1) + 1) = w"
proof -
  have neg: "NOT x + 1 = - x" for x :: "'a word" by (simp add: minus_eq_not_plus_1)
  have low: "zigzag_word w AND 1 = (if bit w (LENGTH('a) - 1) then 1 else 0)"
    using assms by (intro bit_eqI) (auto simp: zigzag_word_def bit_simps bit_1_iff simp del: push_bit_Suc)
  show ?thesis
  proof (rule bit_word_eqI)
    fix n assume n: "n < LENGTH('a)"
    have "bit (drop_bit 1 (zigzag_word w)) n \<longleftrightarrow>
        Suc n < LENGTH('a) \<and> (bit w n \<noteq> bit w (LENGTH('a) - 1))"
      by (auto simp: zigzag_word_def bit_simps simp del: push_bit_Suc)
    moreover have "bit (NOT (zigzag_word w AND 1) + 1) n \<longleftrightarrow> bit w (LENGTH('a) - 1)"
      unfolding low neg using n by simp
    moreover have "bit w n = bit w (LENGTH('a) - 1)" if "\<not> Suc n < LENGTH('a)"
      using that n by (metis Suc_lessI diff_Suc_1)
    ultimately show "bit (drop_bit 1 (zigzag_word w) XOR (NOT (zigzag_word w AND 1) + 1)) n = bit w n"
      unfolding bit_xor_iff by blast
  qed
qed

lemma sign_word:
  assumes "- (2 ^ n) \<le> v" "v < 2 ^ n" "LENGTH('a) = Suc n"
  shows "(word_of_int (drop_bit n v) :: 'a::len word) = (if bit (word_of_int v :: 'a word) n then - 1 else 0)"
    and "sint (word_of_int v :: 'a word) = v"
proof -
  have "drop_bit n v = (if v < 0 then - 1 else 0)"
    using assms by (auto simp: drop_bit_eq_div div_pos_pos_trivial intro: int_div_pos_eq [where r = "v + 2 ^ n"])
  moreover have "bit (word_of_int v :: 'a word) n \<longleftrightarrow> bit v n" using assms(3) by (simp add: bit_word_of_int_iff)
  moreover have "bit v n \<longleftrightarrow> odd (drop_bit n v)" by (simp add: bit_iff_odd_drop_bit)
  ultimately show "(word_of_int (drop_bit n v) :: 'a word) = (if bit (word_of_int v :: 'a word) n then - 1 else 0)"
    by simp
  show "sint (word_of_int v :: 'a word) = v"
    using assms by (simp add: signed_of_int signed_take_bit_int_eq_self)
qed

lemma ZigZag32_roundtrip: "- (2 ^ 31) \<le> v \<Longrightarrow> v < 2 ^ 31 \<Longrightarrow> ZigZagDecode32 (ZigZagEncode32 v) = v"
proof -
  assume v: "- (2 ^ 31) \<le> v" "v < 2 ^ 31"
  have "ZigZagEncode32 v = zigzag_word (word_of_int v)"
    using sign_word(1) [OF v, where 'a = 32] by (simp add: ZigZagEncode32_def zigzag_word_def)
  then show ?thesis
    using zigzag_word_inverse [of "word_of_int v :: 32 word"] sign_word(2) [OF v, where 'a = 32]
    by (simp add: ZigZagDecode32_def int32_of_def)
qed

lemma ZigZag64_roundtrip: "- (2 ^ 63) \<le> v \<Longrightarrow> v < 2 ^ 63 \<Longrightarrow> ZigZagDecode64 (ZigZagEncode64 v) = v"
proof -
  assume v: "- (2 ^ 63) \<le> v" "v < 2 ^ 63"
  have "ZigZagEncode64 v = zigzag_word (word_of_int v)"
    using sign_word(1) [OF v, where 'a = 64] by (simp add: ZigZagEncode64_def zigzag_word_def)
  then show ?thesis
    using zigzag_word_inverse [of "word_of_int v :: 64 word"] sign_word(2) [OF v, where 'a = 64]
    by (simp add: ZigZagDecode64_def)
qed

subsection \<open>Reading encodings\<close>

lemma ReadVarint_enc:
  assumes "input_cc_laws cc" "cis_ok s" "avail s = varint n @ rest" "length (varint n) \<le> 10"
  shows "ReadVarint32 cc s = Some ((of_nat n, True), cis_Advance (int (length (varint n))) s)"
    "ReadVarint64 cc s = Some ((of_nat n, True), cis_Advance (int (length (varint n))) s)"
    "ReadTag cc s = Some (of_nat n, (cis_Advance (int (length (varint n))) s)\<lparr>cis_last_tag := of_nat n\<rparr>)"
    "ReadTagNoLastTag cc s = Some (of_nat n, cis_Advance (int (length (varint n))) s)"
  using ReadVarint32_ok [OF assms(1,2)] ReadVarint64_ok [OF assms(1,2)] ReadTag_ok [OF assms(1,2)]
    ReadTagNoLastTag_ok [OF assms(1,2)] varint_ref_varint [OF assms(4), of rest] assms(3)
  by simp_all

lemma ReadPrimitive_encoding:
  assumes "input_cc_laws cc" "cis_ok s" "avail s = encoding v @ rest" "c_value v"
  shows "ReadPrimitive cc (DeclaredType v) s = Some (Some v, cis_Advance (int (length (encoding v))) s)"
proof -
  have down: "(ucast (word_of_int i :: 64 word) :: 32 word) = word_of_int i" for i by (rule ucast_of_int_down) simp
  note rd = ReadVarint_enc [OF assms(1,2)] length_varint_64 order_trans [OF length_varint_32]
  note le = ReadLittleEndian32_ok [OF assms(2)] ReadLittleEndian64_ok [OF assms(2)]
  show ?thesis
  proof (cases v)
    case (Bool b)
    then show ?thesis using assms rd(1-2) [of "if b then 1 else 0" rest] by (cases b) (auto simp: read_as_def)
  next
    case (Float f)
    then show ?thesis using assms le by (cases f) (simp add: read_as_def DecodeFloat_def length_object_bytes)
  next
    case (Double f)
    then show ?thesis using assms le by (cases f) (simp add: read_as_def DecodeDouble_def length_object_bytes)
  qed (use assms rd le in \<open>simp_all add: read_as_def down sign_word(2) [where n = 31] sign_word(2) [where n = 63]
        ZigZag32_roundtrip ZigZag64_roundtrip length_object_bytes\<close>)
qed

subsection \<open>Tags\<close>

lemma wire_code_small: "unat (wire_type_code t) < 8"
  by (cases t) simp_all

lemma unat_MakeTag:
  assumes "0 \<le> f" "f < 2 ^ 29"
  shows "unat (MakeTag f t) = 8 * nat f + unat (wire_type_code t)"
proof -
  let ?c = "wire_type_code t"
  have "push_bit 3 (word_of_int f) AND ?c = 0"
  proof (rule bit_eqI)
    fix n
    have "\<not> bit ?c n" if "3 \<le> n"
    proof -
      have "unat ?c < 2 ^ n"
        using wire_code_small [of t] power_increasing [OF that, of "2::nat"] by simp
      then show ?thesis by (simp add: bit_unat)
    qed
    then show "bit (push_bit 3 (word_of_int f) AND ?c) n = bit 0 n" by (auto simp: bit_simps)
  qed
  then have "MakeTag f t = push_bit 3 (word_of_int f) + ?c"
    by (simp add: MakeTag_def disjunctive_add_eq_or)
  also have "\<dots> = of_nat (8 * nat f + unat ?c)"
    using assms(1) by (simp add: push_bit_eq_mult)
  finally have "MakeTag f t = of_nat (8 * nat f + unat ?c)" .
  then show ?thesis using assms wire_code_small [of t] by (simp only:) (intro unat_of_nat_small, simp)
qed

lemma tag_parts:
  assumes "0 \<le> f" "f < 2 ^ 29"
  shows "GetTagFieldNumber (MakeTag f t) = f" "GetTagWireType (MakeTag f t) = Some t"
proof -
  note u = unat_MakeTag [OF assms, of t]
  have "unat (drop_bit 3 (MakeTag f t)) = nat f"
    using wire_code_small [of t] by (subst unat_drop_bit_eq, subst drop_bit_eq_div) (simp add: u)
  then have "drop_bit 3 (MakeTag f t) = (of_nat (nat f) :: 32 word)"
    by (metis of_nat_unat ucast_id)
  then have "drop_bit 3 (MakeTag f t) = (word_of_int f :: 32 word)" using assms(1) by simp
  then show "GetTagFieldNumber (MakeTag f t) = f"
    using assms sint_small [of f] by (simp add: GetTagFieldNumber_def kTagTypeBits_def)
  have "unat (MakeTag f t AND kTagTypeMask) = unat (wire_type_code t)"
  proof -
    have "kTagTypeMask = mask 3" by (simp add: kTagTypeMask_def kTagTypeBits_def mask_eq_exp_minus_1)
    then have "unat (MakeTag f t AND kTagTypeMask) = take_bit 3 (unat (MakeTag f t))"
      by (metis take_bit_eq_mask unsigned_take_bit_eq)
    then show ?thesis using wire_code_small [of t] by (simp add: u take_bit_eq_mod)
  qed
  then have "MakeTag f t AND kTagTypeMask = wire_type_code t" by (simp add: word_unat_eq_iff)
  then show "GetTagWireType (MakeTag f t) = Some t"
    by (cases t) (simp_all add: GetTagWireType_def wire_types_def)
qed

lemma length_varint_low_bits: "c < 128 \<Longrightarrow> length (varint (128 * m + c)) = length (varint (128 * m))"
  by (subst (1 2) varint.simps) (simp add: div_add1_eq)

lemma TagSize_tag:
  assumes "0 \<le> f" "f < 2 ^ 29" "ty \<noteq> TYPE_GROUP"
  shows "TagSize f ty = Some (length (varint (unat (MakeTag f t))))"
proof -
  have "push_bit 3 (word_of_int f :: 32 word) = of_nat (8 * nat f)"
    using assms(1) by (simp add: push_bit_eq_mult)
  then have "unat (push_bit 3 (word_of_int f :: 32 word)) = 8 * nat f"
    using assms by (simp only:) (intro unat_of_nat_small, simp)
  moreover have "length (varint (8 * nat f)) = length (varint (8 * nat f + unat (wire_type_code t)))"
  proof -
    have "8 * nat f = 128 * (nat f div 16) + 8 * (nat f mod 16)"
      using mult_div_mod_eq [of 16 "nat f"] by linarith
    moreover have "8 * (nat f mod 16) + unat (wire_type_code t) < 128"
      using wire_code_small [of t] mod_less_divisor [of 16 "nat f"] by linarith
    ultimately show ?thesis
      using length_varint_low_bits [of "8 * (nat f mod 16)" "nat f div 16"]
        length_varint_low_bits [of "8 * (nat f mod 16) + unat (wire_type_code t)" "nat f div 16"]
      by (simp add: add.assoc)
  qed
  ultimately show ?thesis
    using assms by (simp add: TagSize_def kTagTypeBits_def varint_simps unat_MakeTag)
qed

primrec wire_type :: "primitive \<Rightarrow> WireType" where
  "wire_type (Int32 v) = WIRETYPE_VARINT"
| "wire_type (Int64 v) = WIRETYPE_VARINT"
| "wire_type (UInt32 v) = WIRETYPE_VARINT"
| "wire_type (UInt64 v) = WIRETYPE_VARINT"
| "wire_type (SInt32 v) = WIRETYPE_VARINT"
| "wire_type (SInt64 v) = WIRETYPE_VARINT"
| "wire_type (Fixed32 v) = WIRETYPE_FIXED32"
| "wire_type (Fixed64 v) = WIRETYPE_FIXED64"
| "wire_type (SFixed32 v) = WIRETYPE_FIXED32"
| "wire_type (SFixed64 v) = WIRETYPE_FIXED64"
| "wire_type (Float v) = WIRETYPE_FIXED32"
| "wire_type (Double v) = WIRETYPE_FIXED64"
| "wire_type (Bool v) = WIRETYPE_VARINT"
| "wire_type (Enum v) = WIRETYPE_VARINT"

definition field_bytes :: "int \<Rightarrow> primitive \<Rightarrow> byte list" where
  "field_bytes f v = varint (unat (MakeTag f (wire_type v))) @ encoding v"

lemma writes_field: "writes (WriteToArray f v) (field_bytes f v)"
proof -
  have "WriteToArray f v = (\<lambda>t mem. do { (t, mem) \<leftarrow> write_varint_loop (MakeTag f (wire_type v)) t mem; WriteNoTagToArray v t mem })"
    by (cases v; intro ext) (simp_all add: tagged_def wf_WriteTagToArray_def WriteTagToArray_def WriteVarint32ToArray_def)
  then show ?thesis using writes_bind [OF writes_varint_loop writes_encoding] by (simp add: field_bytes_def)
qed

lemma DeclaredType_scalar: "DeclaredType v \<noteq> TYPE_GROUP"
  by (cases v) simp_all

section \<open>Writing repeated fields\<close>

definition holds :: "primitives \<Rightarrow> primitive list \<Rightarrow> bool" where
  "holds f vs \<longleftrightarrow> rf_inv f \<and> rf_list f = map Some vs"

lemma rf_size_holds: "holds f vs \<Longrightarrow> rf_size f = int (length vs)"
  by (metis holds_def length_map rf_size_def rf_size_list)

lemma element_at_holds:
  assumes "holds f vs" "i < length vs"
  shows "element_at f (int i) = Some (vs ! i)"
proof -
  have "rf_inv f" using assms(1) by (simp add: holds_def)
  then show ?thesis
  proof (cases rule: rf_cases)
    case (new a)
    then show ?thesis using assms by (simp add: holds_def)
  next
    case (full a es n)
    then have es: "take n es = map Some vs" using assms(1) by (simp add: holds_def)
    then have "i < n \<and> i < length es" using assms(2) full(2) by (metis length_map length_take min.absorb2 order_less_le_trans)
    then have "es ! i = Some (vs ! i)" using es assms(2) by (metis nth_map nth_take)
    then show ?thesis using full \<open>i < n \<and> i < length es\<close> by (simp add: element_at_def)
  qed
qed

lemma writes_elements:
  assumes "holds f vs" "\<And>v. writes (W v) (enc v)" "i + Suc k = length vs"
  shows "writes (write_elements W (Suc k) (int i) f) (concat (map enc (drop i vs)))"
  using assms(3)
proof (induction k arbitrary: i)
  case 0
  then have i: "i < length vs" "drop i vs = [vs ! i]" using Cons_nth_drop_Suc [of i vs] by auto
  have "write_elements W (Suc 0) (int i) f = W (vs ! i)"
    by (intro ext) (simp add: element_at_holds [OF assms(1) i(1)] split: bind_splits)
  then show ?case using assms(2) [of "vs ! i"] i(2) by simp
next
  case (Suc k)
  then have i: "i < length vs" "drop i vs = vs ! i # drop (Suc i) vs" using Cons_nth_drop_Suc [of i vs] by auto
  have "write_elements W (Suc (Suc k)) (int i) f =
      (\<lambda>t mem. do { (t, mem) \<leftarrow> W (vs ! i) t mem; write_elements W (Suc k) (int (Suc i)) f t mem })"
    by (intro ext) (simp add: element_at_holds [OF assms(1) i(1)] add.commute del: write_elements.simps(2) add: write_elements.simps(2) [of W "Suc k"])
  then show ?case using writes_bind [OF assms(2) Suc.IH [of "Suc i"]] Suc.prems i(2) by simp
qed

lemma writes_repeated: "holds f vs \<Longrightarrow> vs \<noteq> [] \<Longrightarrow> writes (WritePrimitiveToArray fn f) (concat (map (field_bytes fn) vs))"
  using writes_elements [of f vs "WriteToArray fn" "field_bytes fn" 0 "length vs - 1"] writes_field
  by (simp add: WritePrimitiveToArray_def [abs_def] rf_size_holds)

lemma writes_packed: "holds f vs \<Longrightarrow> vs \<noteq> [] \<Longrightarrow> writes (WritePrimitiveNoTagToArray f) (concat (map encoding vs))"
  using writes_elements [of f vs WriteNoTagToArray encoding 0 "length vs - 1"] writes_encoding
  by (simp add: WritePrimitiveNoTagToArray_def [abs_def] rf_size_holds Let_def)

lemma elements_bytes_holds:
  "holds f vs \<Longrightarrow> i + k = length vs \<Longrightarrow> elements_bytes k (int i) f = Some (concat (map element_bytes (drop i vs)))"
proof (induction k arbitrary: i)
  case (Suc k)
  then have "i < length vs" "drop i vs = vs ! i # drop (Suc i) vs" using Cons_nth_drop_Suc [of i vs] by auto
  moreover have "elements_bytes k (int i + 1) f = Some (concat (map element_bytes (drop (Suc i) vs)))"
    using Suc.IH [of "Suc i"] Suc.prems by (simp add: add.commute)
  ultimately show ?case using Suc.prems element_at_holds by simp
qed simp

lemma fixed_encoding:
  assumes "0 < cpp_sizeof (DeclaredType v)"
  shows "encoding v = element_bytes v" "int (length (encoding v)) = cpp_sizeof (DeclaredType v)"
  using assms by (cases v; simp add: length_object_bytes)+

lemma length_concat_const: "\<forall>v \<in> set vs. length (g v) = n \<Longrightarrow> length (concat (map g vs)) = length vs * n"
  by (induction vs) simp_all

lemma writes_packed_fixed:
  assumes "holds f vs" "vs \<noteq> []" "\<forall>v \<in> set vs. DeclaredType v = ty" "0 < cpp_sizeof ty" "int (length vs) * cpp_sizeof ty < 2 ^ 31"
  shows "writes (WriteFixedNoTagToArray (cpp_sizeof ty) f) (concat (map encoding vs))"
proof -
  have enc: "map element_bytes vs = map encoding vs"
    using fixed_encoding(1) assms(3,4) by (intro map_cong) auto
  have len: "\<forall>v \<in> set vs. length (encoding v) = nat (cpp_sizeof ty)"
    using fixed_encoding(2) assms(3,4) by (metis nat_int)
  have "int (length (concat (map encoding vs))) = int (length vs) * cpp_sizeof ty"
    unfolding length_concat_const [OF len] using assms(4) by simp
  then show ?thesis
    using elements_bytes_holds [OF assms(1), of 0 "length vs"] assms
    by (simp add: writes_def WriteFixedNoTagToArray_def rf_size_holds Let_def enc memcpy_to_put c_int_def)
qed

section \<open>Reading repeated fields\<close>

definition add_reserved :: "primitive list \<Rightarrow> primitives \<Rightarrow> primitives option" where
  "add_reserved vs vals = insert_all rf_AddAlreadyReserved (map Some vs) vals"

lemma add_reserved_simps [simp]:
  "add_reserved [] vals = Some vals"
  "add_reserved (v # vs) vals = do { vals \<leftarrow> rf_AddAlreadyReserved (Some v) vals; add_reserved vs vals }"
  by (simp_all add: add_reserved_def)

lemma add_reserved_ok:
  assumes "rf_inv f" "int (length (rf_list f) + length vs) \<le> rf_total_size f"
  shows "\<exists>g. add_reserved vs f = Some g \<and> rf_inv g \<and> rf_list g = rf_list f @ map Some vs"
  using reserved.insert_all_appends [of f "rf_arena f" "length (rf_list f) + length vs" "map Some vs"] assms
  by (auto simp: add_reserved_def)

lemma cis_Advance_Advance: "cis_Advance a (cis_Advance b s) = cis_Advance (b + a) s"
  by (simp add: cis_Advance_def)

lemma cis_Advance_0 [simp]: "cis_Advance 0 s = s"
  by (simp add: cis_Advance_def)

text \<open>A run of fields with the same tag, followed by something else.\<close>

definition tagged_run :: "32 word \<Rightarrow> primitive list \<Rightarrow> byte list" where
  "tagged_run tag vs = concat (map (\<lambda>v. varint (unat tag) @ encoding v) vs)"

definition other_tag :: "32 word \<Rightarrow> byte list \<Rightarrow> bool" where
  "other_tag tag rest \<longleftrightarrow> take (length (varint (unat tag))) rest \<noteq> varint (unat tag)"

lemma tagged_run_simps [simp]:
  "tagged_run tag [] = []" "tagged_run tag (v # vs) = varint (unat tag) @ encoding v @ tagged_run tag vs"
  by (simp_all add: tagged_run_def)

lemma read_repeated_loop_run:
  assumes "input_cc_laws cc" "unat tag < 2 ^ 14" "other_tag tag rest"
  shows "cis_ok s \<Longrightarrow> avail s = tagged_run tag vs @ rest \<Longrightarrow> \<forall>v \<in> set vs. DeclaredType v = ty \<and> c_value v \<Longrightarrow>
     add_reserved (take k vs) vals = Some vals' \<Longrightarrow>
     read_repeated_loop cc ty tag k s vals =
       Some (True, cis_Advance (int (length (tagged_run tag (take k vs)))) s, vals')"
proof (induction k arbitrary: s vs vals)
  case (Suc k)
  show ?case
  proof (cases vs)
    case Nil
    then show ?thesis using Suc.prems assms(3) by (simp add: ExpectTag_ok other_tag_def)
  next
    case (Cons v vs')
    let ?T = "varint (unat tag)"
    define s1 where "s1 = cis_Advance (int (length ?T)) s"
    define s2 where "s2 = cis_Advance (int (length (encoding v))) s1"
    have av: "avail s = ?T @ encoding v @ tagged_run tag vs' @ rest" using Suc.prems(2) Cons by simp
    have tag: "ExpectTag tag s = Some (True, s1)" using assms(2) Suc.prems(1) av by (simp add: ExpectTag_ok s1_def)
    have s1: "cis_ok s1" "avail s1 = encoding v @ tagged_run tag vs' @ rest"
      unfolding s1_def by (simp_all add: cis_Advance_ok avail_Advance Suc.prems(1) av)
    have v: "DeclaredType v = ty" "c_value v" using Suc.prems(3) Cons by simp_all
    have rd: "ReadPrimitive cc ty s1 = Some (Some v, s2)"
      using ReadPrimitive_encoding [OF assms(1) s1 v(2)] v(1) by (simp add: s2_def)
    have s2: "cis_ok s2" "avail s2 = tagged_run tag vs' @ rest"
      unfolding s2_def by (simp_all add: cis_Advance_ok avail_Advance s1)
    obtain vals1 where a: "rf_AddAlreadyReserved (Some v) vals = Some vals1" "add_reserved (take k vs') vals1 = Some vals'"
      using Suc.prems(4) Cons by (cases "rf_AddAlreadyReserved (Some v) vals") auto
    have "read_repeated_loop cc ty tag k s2 vals1 =
        Some (True, cis_Advance (int (length (tagged_run tag (take k vs')))) s2, vals')"
      using Suc.IH [OF s2 _ a(2)] Suc.prems(3) Cons by simp
    then show ?thesis
      by (simp add: tag rd a(1) Cons) (simp add: s2_def s1_def cis_Advance_Advance ac_simps)
  qed
qed simp

lemma ReadPrimitiveFromArray_encoding:
  assumes "drop p mem = encoding v @ rest" "0 < cpp_sizeof (DeclaredType v)" "c_value v"
  shows "ReadPrimitiveFromArray (DeclaredType v) mem (int p) = Some (v, int (p + length (encoding v)))"
proof (cases v)
  case (Float f)
  then show ?thesis using assms ReadLE32_at by (cases f) (simp add: DecodeFloat_def length_object_bytes)
next
  case (Double f)
  then show ?thesis using assms ReadLE64_at by (cases f) (simp add: DecodeDouble_def length_object_bytes)
qed (use assms ReadLE32_at ReadLE64_at in \<open>simp_all add: length_object_bytes
       sign_word(2) [where n = 31] sign_word(2) [where n = 63]\<close>)

lemma read_fixed_loop_run:
  assumes "unat tag < 2 ^ 14" "other_tag tag rest" "0 < cpp_sizeof ty"
  shows "drop p mem = tagged_run tag vs @ rest \<Longrightarrow> \<forall>v \<in> set vs. DeclaredType v = ty \<and> c_value v \<Longrightarrow>
     k * (length (varint (unat tag)) + nat (cpp_sizeof ty)) \<le> length (drop p mem) \<Longrightarrow>
     add_reserved (take k vs) vals = Some vals' \<Longrightarrow>
     read_fixed_loop ty tag k n mem (int p) vals = Some (n + int (length (take k vs)), vals')"
proof (induction k arbitrary: p vs vals n)
  case (Suc k)
  let ?T = "varint (unat tag)"
  have "length ?T \<le> length mem - p" "0 < length ?T" using Suc.prems(3) by (simp_all add: algebra_simps)
  then have room: "p + length ?T \<le> length mem" by linarith
  show ?case
  proof (cases vs)
    case Nil
    then show ?thesis using Suc.prems assms(2) ExpectTagFromArray_ok [OF room] by (simp add: other_tag_def)
  next
    case (Cons v vs')
    have v: "DeclaredType v = ty" "c_value v" using Suc.prems(2) Cons by simp_all
    have len: "length (encoding v) = nat (cpp_sizeof ty)" using fixed_encoding(2) [of v] assms(3) v(1) by simp
    have d: "drop p mem = ?T @ encoding v @ tagged_run tag vs' @ rest" using Suc.prems(1) Cons by simp
    then have d1: "drop (p + length ?T) mem = encoding v @ tagged_run tag vs' @ rest"
      by (metis add.commute append_eq_conv_conj drop_drop)
    then have d2: "drop (p + length ?T + length (encoding v)) mem = tagged_run tag vs' @ rest"
      by (metis add.commute append_eq_conv_conj drop_drop)
    have tag: "ExpectTagFromArray mem (int p) tag = Some (Some (int (p + length ?T)))"
      using ExpectTagFromArray_ok [OF room] assms(1) d by simp
    have rd: "ReadPrimitiveFromArray ty mem (int (p + length ?T)) = Some (v, int (p + length ?T + length (encoding v)))"
      using ReadPrimitiveFromArray_encoding [OF d1] assms(3) v by simp
    obtain vals1 where a: "rf_AddAlreadyReserved (Some v) vals = Some vals1" "add_reserved (take k vs') vals1 = Some vals'"
      using Suc.prems(4) Cons by (cases "rf_AddAlreadyReserved (Some v) vals") auto
    have "k * (length ?T + nat (cpp_sizeof ty)) \<le> length (drop (p + length ?T + length (encoding v)) mem)"
      using Suc.prems(3) len by (simp add: algebra_simps)
    then have "read_fixed_loop ty tag k (n + 1) mem (int (p + length ?T + length (encoding v))) vals1 =
        Some (n + 1 + int (length (take k vs')), vals')"
      using Suc.IH [OF d2 _ _ a(2), of "n + 1"] Suc.prems(2) Cons by simp
    then show ?thesis by (simp add: tag rd a(1) Cons del: of_nat_add)
  qed
qed simp

lemma length_tagged_run:
  assumes "\<forall>v \<in> set vs. DeclaredType v = ty" "0 < cpp_sizeof ty"
  shows "length (tagged_run tag vs) = length vs * (length (varint (unat tag)) + nat (cpp_sizeof ty))"
proof -
  have "\<forall>v \<in> set vs. length (varint (unat tag) @ encoding v) = length (varint (unat tag)) + nat (cpp_sizeof ty)"
    using fixed_encoding(2) assms by (metis length_append nat_int)
  then show ?thesis unfolding tagged_run_def by (rule length_concat_const)
qed

lemma Add_then_reserve:
  assumes "holds f us" "length us < 2 ^ 30"
  obtains f1 f' where "rf_Add (Some v) f = Some f1" "rf_inv f1" "0 \<le> rf_Capacity f1 - rf_size f1"
    "add_reserved (take (nat (rf_Capacity f1 - rf_size f1)) vs) f1 = Some f'"
    "holds f' (us @ v # take (nat (rf_Capacity f1 - rf_size f1)) vs)"
proof -
  have "length (rf_list f) < 2 ^ 30" using assms by (simp add: holds_def del: length_rf_list)
  then obtain f1 where f1: "rf_Add (Some v) f = Some f1" "rf_inv f1" "rf_list f1 = map Some (us @ [v])"
    using rf_Add_ok [of f "Some v"] assms(1) by (auto simp: holds_def rf_result_def simp del: length_rf_list)
  let ?r = "nat (rf_Capacity f1 - rf_size f1)"
  have h: "holds f1 (us @ [v])" using f1 by (simp add: holds_def)
  have "0 \<le> rf_Capacity f1 - rf_size f1" using f1(2) by (simp add: rf_inv_def rf_Capacity_def rf_size_def)
  moreover have "int (length (rf_list f1) + length (take ?r vs)) \<le> rf_total_size f1"
    using calculation rf_size_holds [OF h] f1(3) by (simp add: rf_Capacity_def)
  then obtain f' where "add_reserved (take ?r vs) f1 = Some f'" "rf_inv f'" "rf_list f' = rf_list f1 @ map Some (take ?r vs)"
    using add_reserved_ok [OF f1(2)] by blast
  ultimately show thesis using that [of f1 f'] f1 by (simp add: holds_def)
qed

lemma ReadRepeatedPrimitive_run:
  assumes "input_cc_laws cc" "cis_ok s" "unat tag < 2 ^ 14" "other_tag tag rest"
    "\<forall>v \<in> set (v0 # vs). DeclaredType v = ty \<and> c_value v" "avail s = encoding v0 @ tagged_run tag vs @ rest"
    "rf_Add (Some v0) f = Some f1" "add_reserved (take (nat (rf_Capacity f1 - rf_size f1)) vs) f1 = Some f'"
  shows "ReadRepeatedPrimitive cc ty tag s f = Some (True,
     cis_Advance (int (length (encoding v0) + length (tagged_run tag (take (nat (rf_Capacity f1 - rf_size f1)) vs)))) s, f')"
proof -
  let ?s1 = "cis_Advance (int (length (encoding v0))) s"
  have rd: "ReadPrimitive cc ty s = Some (Some v0, ?s1)"
    using ReadPrimitive_encoding [OF assms(1,2,6)] assms(5) by simp
  have "cis_ok ?s1" "avail ?s1 = tagged_run tag vs @ rest"
    by (simp_all add: cis_Advance_ok avail_Advance assms(2,6))
  then show ?thesis
    using read_repeated_loop_run [OF assms(1,3,4), of ?s1 vs ty _ f1 f'] assms(5,7,8) rd
    by (simp add: ReadRepeatedPrimitive_def Let_def cis_Advance_Advance)
qed

lemma ReadRepeatedFixedSizePrimitive_run:
  assumes "input_cc_laws cc" "cis_ok s" "unat tag < 2 ^ 14" "other_tag tag rest" "0 < cpp_sizeof ty"
    "cis_buffer_end s = int (length (cis_mem s))"
    "\<forall>v \<in> set (v0 # vs). DeclaredType v = ty \<and> c_value v" "avail s = encoding v0 @ tagged_run tag vs @ rest"
    "rf_Add (Some v0) f = Some f1" "add_reserved (take (nat (rf_Capacity f1 - rf_size f1)) vs) f1 = Some f'"
    "0 \<le> rf_Capacity f1 - rf_size f1"
  shows "ReadRepeatedFixedSizePrimitive cc ty (int (length (varint (unat tag)))) tag s f = Some (True,
     cis_Advance (int (length (encoding v0) + length (tagged_run tag (take (nat (rf_Capacity f1 - rf_size f1)) vs)))) s, f')"
proof -
  let ?s1 = "cis_Advance (int (length (encoding v0))) s" and ?r = "nat (rf_Capacity f1 - rf_size f1)"
  let ?T = "length (varint (unat tag))"
  define pv where "pv = ?T + nat (cpp_sizeof ty)"
  have pv: "int ?T + cpp_sizeof ty = int pv" "0 < pv" using assms(5) by (simp_all add: pv_def)
  have rd: "ReadPrimitive cc ty s = Some (Some v0, ?s1)"
    using ReadPrimitive_encoding [OF assms(1,2,8)] assms(7) by simp
  have s1: "cis_ok ?s1" "avail ?s1 = tagged_run tag vs @ rest" "cis_buffer_end ?s1 = int (length (cis_mem ?s1))"
    using assms(6) by (simp_all add: cis_Advance_ok avail_Advance assms(2,8)) (simp add: cis_Advance_def)
  have size1: "cis_buffer_end ?s1 - cis_buffer ?s1 = int (length (avail ?s1))"
    using length_avail [OF s1(1)] avail_bounds(1) [OF s1(1)] by (simp add: cis_BufferSize_def)
  have drop1: "drop (nat (cis_buffer ?s1)) (cis_mem ?s1) = tagged_run tag vs @ rest"
    using s1 by (simp add: avail_def cis_ok_def nat_diff_distrib)
  have run: "length (tagged_run tag ws) = length ws * pv" if "set ws \<subseteq> set vs" for ws
    using length_tagged_run [of ws ty tag] that assms(5,7) by (auto simp: pv_def)
  let ?k = "min (rf_Capacity f1 - rf_size f1) (int (length (avail ?s1)) div int pv)"
  have c: "rf_Capacity f1 - rf_size f1 = int ?r" using assms(11) by simp
  have k: "nat ?k = min ?r (length (avail ?s1) div pv)"
    by (subst c) (simp only: zdiv_int [symmetric] of_nat_min [symmetric] nat_int)
  have "length vs * pv \<le> length (avail ?s1)" using run [of vs] s1(2) by simp
  then have "length vs \<le> length (avail ?s1) div pv" using pv(2) by (simp add: less_eq_div_iff_mult_less_eq)
  then have take_k: "take (nat ?k) vs = take ?r vs" unfolding k by (simp add: take_all_iff min_def)
  have kb: "nat ?k * pv \<le> length (avail ?s1)"
    unfolding k using pv(2) by (metis div_times_less_eq_dividend le_trans min.cobounded2 mult_le_mono1)
  have loop: "read_fixed_loop ty tag (nat ?k) 0 (cis_mem ?s1) (cis_buffer ?s1) f1 = Some (int (length (take ?r vs)), f')"
  proof -
    have "add_reserved (take (nat ?k) vs) f1 = Some f'" using assms(10) by (simp only: take_k)
    moreover have "nat ?k * (?T + nat (cpp_sizeof ty)) \<le> length (drop (nat (cis_buffer ?s1)) (cis_mem ?s1))"
      using kb unfolding pv_def s1(2) drop1 .
    moreover have "\<forall>v \<in> set vs. DeclaredType v = ty \<and> c_value v" using assms(7) by simp
    ultimately have "read_fixed_loop ty tag (nat ?k) 0 (cis_mem ?s1) (int (nat (cis_buffer ?s1))) f1 =
        Some (0 + int (length (take (nat ?k) vs)), f')"
      using read_fixed_loop_run [OF assms(3,4,5) drop1] by blast
    moreover have "int (nat (cis_buffer ?s1)) = cis_buffer ?s1" using s1(1) by (simp add: cis_ok_def)
    ultimately show ?thesis by (simp only: take_k add_0)
  qed
  let ?b = "length (take ?r vs) * pv"
  have b: "length (tagged_run tag (take ?r vs)) = ?b" by (rule run) (rule set_take_subset)
  have "?b \<le> length (avail ?s1)" using \<open>length vs * pv \<le> length (avail ?s1)\<close>
    by (metis le_trans length_take min.cobounded1 mult_le_mono1)
  then have skip: "cis_Skip cc (int ?b) ?s1 = Some (True, cis_Advance (int ?b) ?s1)"
    using avail_bounds(3) [OF s1(1), of ?b] by (simp add: cis_Skip_def Let_def del: of_nat_mult)
  have goal: "cis_Advance (int (length (encoding v0) + length (tagged_run tag (take ?r vs)))) s = cis_Advance (int ?b) ?s1"
    unfolding b by (simp add: cis_Advance_Advance)
  have start: "VarintSize32 tag = Some ?T" by (rule VarintSize32_length)
  show ?thesis
  proof (cases "avail ?s1 = []")
    case True
    then have "vs = []" using s1(2) by (cases vs) auto
    then show ?thesis unfolding goal
      using rd assms(9,10) True size1
      by (simp add: ReadRepeatedFixedSizePrimitive_def start GetDirectBufferPointerInline_def Let_def)
  next
    case False
    have "int (length (take ?r vs)) * int pv = int ?b" by simp
    then show ?thesis unfolding goal
      using rd assms(9) False size1 loop skip avail_bounds(2) [OF s1(1)]
      by (simp add: ReadRepeatedFixedSizePrimitive_def start GetDirectBufferPointerInline_def Let_def pv(1)
          del: length_take of_nat_mult)
  qed
qed

section \<open>Message sets\<close>

text \<open>
  What the parser of an item relies on: \<open>ReadRaw\<close> copies the bytes it is asked for, and the
  client's \<open>ParseField\<close> consumes one length-delimited field; \<open>got\<close> is its effect.
\<close>

definition raw_law :: "'i input_cc \<Rightarrow> bool" where
  "raw_law cc \<longleftrightarrow> (\<forall>n s. cis_ok s \<longrightarrow> n \<le> length (avail s) \<longrightarrow>
     cc_ReadRaw cc (int n) s = Some ((take n (avail s), True), cis_Advance (int n) s))"

lemma flat_raw_law: "raw_law flat_cc"
  by (auto simp: raw_law_def flat_cc_def avail_bounds(3))

definition delimited :: "byte list \<Rightarrow> byte list" where
  "delimited p = varint (length p) @ p"

definition client_law :: "('x, 'i) message_set \<Rightarrow> (32 word \<Rightarrow> byte list \<Rightarrow> 'x \<Rightarrow> 'x) \<Rightarrow> bool" where
  "client_law ms got \<longleftrightarrow> (\<forall>i p rest s x. cis_ok s \<longrightarrow> length p < 2 ^ 31 \<longrightarrow> avail s = delimited p @ rest \<longrightarrow>
     ms_ParseField ms i s x = Some (True, cis_Advance (int (length (delimited p))) s, got i p x))"

lemma message_set_tags: "kMessageSetTypeIdTag = 16" "kMessageSetMessageTag = 26" "kMessageSetItemEndTag = 12"
  by (simp_all add: kMessageSetTypeIdTag_def kMessageSetMessageTag_def kMessageSetItemEndTag_def MakeTag_def
      kMessageSetTypeIdNumber_def kMessageSetMessageNumber_def kMessageSetItemNumber_def)

lemma read_small_tag:
  assumes "input_cc_laws cc" "cis_ok s" "avail s = of_nat n # rest" "n < 128"
  shows "ReadTagNoLastTag cc s = Some (of_nat n, cis_Advance 1 s)" "cis_ok (cis_Advance 1 s)" "avail (cis_Advance 1 s) = rest"
  using ReadVarint_enc(4) [OF assms(1,2), of n rest] cis_Advance_ok [OF assms(2), of 1] avail_Advance [OF assms(2), of 1] assms(3,4)
  by simp_all

lemma message_set_end:
  assumes "input_cc_laws cc" "cis_ok s" "avail s = 12 # rest"
  shows "message_set_loop cc ms i d s x = Some (True, cis_Advance 1 s, x)"
  using read_small_tag [OF assms(1,2), of 12 rest] assms(3)
  by (subst message_set_loop.simps) (simp add: message_set_tags)

lemma read_type_id:
  assumes "input_cc_laws cc" "cis_ok s" "avail s = 16 # varint (unat i) @ rest"
  shows "\<exists>s'. ReadTagNoLastTag cc s = Some (16, cis_Advance 1 s) \<and> ReadVarint32 cc (cis_Advance 1 s) = Some ((i, True), s') \<and>
     s' = cis_Advance (int (Suc (length (varint (unat i))))) s \<and> cis_ok s' \<and> avail s' = rest"
proof -
  note t = read_small_tag [OF assms(1,2), of 16 "varint (unat i) @ rest", simplified, OF assms(3)]
  have l: "length (varint (unat i)) \<le> 10" using length_varint_32 [of i] by simp
  have "ReadVarint32 cc (cis_Advance 1 s) = Some ((i, True), cis_Advance (int (length (varint (unat i)))) (cis_Advance 1 s))"
    using ReadVarint_enc(1) [OF assms(1) t(2,3) l] by simp
  moreover have "cis_Advance (int (length (varint (unat i)))) (cis_Advance 1 s) = cis_Advance (int (Suc (length (varint (unat i))))) s"
    by (simp add: cis_Advance_Advance)
  moreover have "cis_ok (cis_Advance (int (length (varint (unat i)))) (cis_Advance 1 s))"
    "avail (cis_Advance (int (length (varint (unat i)))) (cis_Advance 1 s)) = rest"
    using cis_Advance_ok [OF t(2)] avail_Advance [OF t(2)] t(3) by simp_all
  ultimately show ?thesis using t(1) by simp
qed

lemma keep_message_data_ok:
  assumes "input_cc_laws cc" "raw_law cc" "cis_ok s" "avail s = delimited p @ rest" "length p + 5 < 2 ^ 31"
  shows "keep_message_data cc d s = Some ((delimited p, True), cis_Advance (int (length (delimited p))) s)"
proof -
  let ?n = "length p" and ?V = "varint (length p)"
  have u: "unat (of_nat ?n :: 32 word) = ?n" using assms(5) by (intro unat_of_nat_small) simp
  have l5: "length ?V \<le> 5" using length_varint_32 [of "of_nat ?n"] u by simp
  have av: "avail s = ?V @ p @ rest" using assms(4) by (simp add: delimited_def)
  let ?s1 = "cis_Advance (int (length ?V)) s"
  have rd: "ReadVarint32 cc s = Some ((of_nat ?n, True), ?s1)" using ReadVarint_enc(1) [OF assms(1,3) av] l5 by simp
  have s1: "cis_ok ?s1" "avail ?s1 = p @ rest" using cis_Advance_ok [OF assms(3)] avail_Advance [OF assms(3)] av by simp_all
  have i32: "int32_of (of_nat ?n) = int ?n" using sint_small [of "int ?n"] assms(5) by simp
  have raw: "cc_ReadRaw cc (int ?n) ?s1 = Some ((p, True), cis_Advance (int ?n) ?s1)"
    using assms(2) s1 unfolding raw_law_def by simp
  have sz: "unat (of_nat ?n + of_nat (length ?V) :: 32 word) = ?n + length ?V"
    using unat_of_nat_small [of "?n + length ?V", where 'a = 32] assms(5) l5 by simp
  let ?m = "string_resize (?n + length ?V) d"
  have lm: "length ?m = ?n + length ?V" by (simp add: string_resize_def)
  have wr: "WriteVarint32ToArray (of_nat ?n) 0 ?m = Some (int (length ?V), put_bytes 0 ?V ?m)"
    using writesD [OF writes_varint_loop, of "of_nat ?n :: 32 word" 0 ?m] u lm by (simp add: WriteVarint32ToArray_def)
  have "put_bytes (length ?V) p (put_bytes 0 ?V ?m) = delimited p"
    using lm by (simp add: put_bytes_def delimited_def)
  moreover have "length (put_bytes 0 ?V ?m) = ?n + length ?V" using lm by (simp add: length_put_bytes)
  ultimately have cp: "memcpy_to (put_bytes 0 ?V ?m) (int (length ?V)) p = Some (delimited p)"
    by (simp add: memcpy_to_put)
  show ?thesis
    unfolding keep_message_data_def rd
    by (simp add: i32 VarintSize32_length u Let_def sz wr raw cp cis_Advance_Advance delimited_def)
qed

text \<open>The effect of the loop on a stream that holds the given bytes.\<close>

definition item_result ::
  "'i input_cc \<Rightarrow> ('x, 'i) message_set \<Rightarrow> 32 word \<Rightarrow> byte list \<Rightarrow> byte list \<Rightarrow> 'x \<Rightarrow> 'x \<Rightarrow> bool" where
  "item_result cc ms i d bs x y \<longleftrightarrow> (\<forall>s rest. cis_ok s \<longrightarrow> avail s = bs @ rest \<longrightarrow>
     message_set_loop cc ms i d s x = Some (True, cis_Advance (int (length bs)) s, y))"

lemma item_end: "input_cc_laws cc \<Longrightarrow> item_result cc ms i d [12] x x"
  by (auto simp: item_result_def message_set_end)

lemma item_type:
  fixes cc :: "'i input_cc"
  assumes "input_cc_laws cc" "item_result cc ms i [] bs x y"
  shows "item_result cc ms j [] (16 # varint (unat i) @ bs) x y"
  unfolding item_result_def
proof (intro allI impI)
  fix s :: "'i coded_input_stream" and rest
  assume s: "cis_ok s" "avail s = (16 # varint (unat i) @ bs) @ rest"
  then obtain s' where s': "ReadTagNoLastTag cc s = Some (16, cis_Advance 1 s)" "ReadVarint32 cc (cis_Advance 1 s) = Some ((i, True), s')"
    "s' = cis_Advance (int (Suc (length (varint (unat i))))) s" "cis_ok s'" "avail s' = bs @ rest"
    using read_type_id [OF assms(1), of s i "bs @ rest"] by auto
  have "message_set_loop cc ms i [] s' x = Some (True, cis_Advance (int (length bs)) s', y)"
    using assms(2) s'(4,5) unfolding item_result_def by blast
  then show "message_set_loop cc ms j [] s x = Some (True, cis_Advance (int (length (16 # varint (unat i) @ bs))) s, y)"
    by (subst message_set_loop.simps) (simp add: s'(1,2) message_set_tags, simp add: s'(3) cis_Advance_Advance ac_simps)
qed

lemma item_type_data:
  fixes cc :: "'i input_cc"
  assumes "input_cc_laws cc" "client_law ms got" "length p + 5 < 2 ^ 31" "item_result cc ms i [] bs (got i p x) y"
  shows "item_result cc ms j (delimited p) (16 # varint (unat i) @ bs) x y"
  unfolding item_result_def
proof (intro allI impI)
  fix s :: "'i coded_input_stream" and rest
  assume s: "cis_ok s" "avail s = (16 # varint (unat i) @ bs) @ rest"
  then obtain s' where s': "ReadTagNoLastTag cc s = Some (16, cis_Advance 1 s)" "ReadVarint32 cc (cis_Advance 1 s) = Some ((i, True), s')"
    "s' = cis_Advance (int (Suc (length (varint (unat i))))) s" "cis_ok s'" "avail s' = bs @ rest"
    using read_type_id [OF assms(1), of s i "bs @ rest"] by auto
  let ?n = "length (delimited p)"
  have "length (varint (length p)) \<le> 5" using length_varint_le [of "length p" 4] assms(3) by simp
  then have n: "int32_of (of_nat ?n) = int ?n" using sint_small [of "int ?n"] assms(3) by (simp add: delimited_def)
  let ?sub = "CodedInputStream_flat cc (delimited p) 0 (int ?n)"
  have "cis_ok ?sub" "avail ?sub = delimited p @ []" by (simp_all add: cis_ok_def avail_def CodedInputStream_flat_def)
  then have sub: "ms_ParseField ms i ?sub x = Some (True, cis_Advance (int ?n) ?sub, got i p x)"
    using assms(2,3) unfolding client_law_def by simp
  have "delimited p \<noteq> []" by (simp add: delimited_def)
  moreover have "message_set_loop cc ms i [] s' (got i p x) = Some (True, cis_Advance (int (length bs)) s', y)"
    using assms(4) s'(4,5) unfolding item_result_def by blast
  ultimately show "message_set_loop cc ms j (delimited p) s x = Some (True, cis_Advance (int (length (16 # varint (unat i) @ bs))) s, y)"
    by (subst message_set_loop.simps)
      (simp add: s'(1,2) message_set_tags n sub Let_def, simp add: s'(3) cis_Advance_Advance ac_simps)
qed

lemma after_message_tag:
  assumes "input_cc_laws cc" "cis_ok s" "avail s = (26 # delimited p @ bs) @ rest"
  shows "ReadTagNoLastTag cc s = Some (26, cis_Advance 1 s)" "cis_ok (cis_Advance 1 s)"
    "avail (cis_Advance 1 s) = delimited p @ bs @ rest"
    "cis_ok (cis_Advance (int (Suc (length (delimited p)))) s)" "avail (cis_Advance (int (Suc (length (delimited p)))) s) = bs @ rest"
  using read_small_tag [OF assms(1,2), of 26 "delimited p @ bs @ rest"] assms(3)
    cis_Advance_ok [OF assms(2), of "Suc (length (delimited p))"] avail_Advance [OF assms(2), of "Suc (length (delimited p))"]
  by simp_all

lemma after_delimited: "cis_Advance (int n) (cis_Advance 1 s) = cis_Advance (int (Suc n)) s"
  by (simp add: cis_Advance_Advance)

lemma item_message:
  fixes cc :: "'i input_cc"
  assumes "input_cc_laws cc" "client_law ms got" "length p + 5 < 2 ^ 31" "i \<noteq> 0" "item_result cc ms i d bs (got i p x) y"
  shows "item_result cc ms i d (26 # delimited p @ bs) x y"
  unfolding item_result_def
proof (intro allI impI)
  fix s :: "'i coded_input_stream" and rest
  assume s: "cis_ok s" "avail s = (26 # delimited p @ bs) @ rest"
  note t = after_message_tag [OF assms(1) s]
  have "ms_ParseField ms i (cis_Advance 1 s) x = Some (True, cis_Advance (int (length (delimited p))) (cis_Advance 1 s), got i p x)"
    using assms(2,3) t(2,3) unfolding client_law_def by simp
  moreover have "message_set_loop cc ms i d (cis_Advance (int (Suc (length (delimited p)))) s) (got i p x) =
      Some (True, cis_Advance (int (length bs)) (cis_Advance (int (Suc (length (delimited p)))) s), y)"
    using assms(5) t(4,5) unfolding item_result_def by blast
  ultimately show "message_set_loop cc ms i d s x = Some (True, cis_Advance (int (length (26 # delimited p @ bs))) s, y)"
    using assms(4) by (subst message_set_loop.simps)
      (simp add: t(1) message_set_tags after_delimited del: of_nat_Suc, simp add: cis_Advance_Advance ac_simps)
qed

lemma item_message_kept:
  fixes cc :: "'i input_cc"
  assumes "input_cc_laws cc" "raw_law cc" "length p + 5 < 2 ^ 31" "item_result cc ms 0 (delimited p) bs x y"
  shows "item_result cc ms 0 d (26 # delimited p @ bs) x y"
  unfolding item_result_def
proof (intro allI impI)
  fix s :: "'i coded_input_stream" and rest
  assume s: "cis_ok s" "avail s = (26 # delimited p @ bs) @ rest"
  note t = after_message_tag [OF assms(1) s]
  note keep = keep_message_data_ok [OF assms(1,2) t(2,3) assms(3), of d]
  have "message_set_loop cc ms 0 (delimited p) (cis_Advance (int (Suc (length (delimited p)))) s) x =
      Some (True, cis_Advance (int (length bs)) (cis_Advance (int (Suc (length (delimited p)))) s), y)"
    using assms(4) t(4,5) unfolding item_result_def by blast
  then show "message_set_loop cc ms 0 d s x = Some (True, cis_Advance (int (length (26 # delimited p @ bs))) s, y)"
    by (subst message_set_loop.simps)
      (simp add: t(1) keep message_set_tags after_delimited del: of_nat_Suc, simp add: cis_Advance_Advance ac_simps)
qed

section \<open>Properties\<close>

lemma flat_stream:
  assumes "t + length bs \<le> length mem"
  shows "cis_ok (CodedInputStream_flat cc (put_bytes t bs mem) (int t) (int (length bs)))"
    "avail (CodedInputStream_flat cc (put_bytes t bs mem) (int t) (int (length bs))) = bs"
  using assms by (simp_all add: cis_ok_def avail_def CodedInputStream_flat_def length_put_bytes read_put_bytes)

lemma last_tag_frame [simp]:
  "cis_ok (s\<lparr>cis_last_tag := x\<rparr>) = cis_ok s" "avail (s\<lparr>cis_last_tag := x\<rparr>) = avail s"
  by (simp_all add: cis_ok_def avail_def)

text \<open>
  C10: Writing a scalar field and reading it is the identity, for every scalar type. A field with
  a number below \<open>2 ^ 29\<close> is written in exactly \<open>TagSize\<close> plus \<open>XxSize\<close> bytes, and nothing is
  written when they do not fit; a stream over those bytes reads a tag with the same field
  number and the wire type of the value, then the value, and is then at its end. This covers
  sign-extended, ZigZag, little-endian and floating-point values.
\<close>

theorem scalar_field_roundtrip:
  "input_cc_laws cc \<Longrightarrow> 0 \<le> f \<Longrightarrow> f < 2 ^ 29 \<Longrightarrow> c_value v \<Longrightarrow>
     \<exists>lt lv. TagSize f (DeclaredType v) = Some lt \<and> PrimitiveSize v = Some lv \<and>
       (if t + lt + lv \<le> length mem
        then \<exists>mem' tag s1 s2. WriteToArray f v (int t) mem = Some (int (t + lt + lv), mem') \<and>
          ReadTag cc (CodedInputStream_flat cc mem' (int t) (int (lt + lv))) = Some (tag, s1) \<and>
          GetTagFieldNumber tag = f \<and> GetTagWireType tag = Some (wire_type v) \<and>
          ReadPrimitive cc (DeclaredType v) s1 = Some (Some v, s2) \<and> fst (ExpectAtEnd s2)
        else WriteToArray f v (int t) mem = None)"
proof -
  assume a: "input_cc_laws cc" "0 \<le> f" "f < 2 ^ 29" "c_value v"
  let ?tag = "MakeTag f (wire_type v)"
  let ?T = "varint (unat ?tag)"
  have sizes: "TagSize f (DeclaredType v) = Some (length ?T)" "PrimitiveSize v = Some (length (encoding v))"
    using TagSize_tag [OF a(2,3) DeclaredType_scalar] PrimitiveSize_encoding [OF a(4)] by blast+
  have w: "WriteToArray f v (int t) mem = (if t + length ?T + length (encoding v) \<le> length mem
      then Some (int (t + length ?T + length (encoding v)), put_bytes t (?T @ encoding v) mem) else None)"
    using writesD [OF writes_field, of f v t mem] by (simp add: field_bytes_def add.assoc)
  have "\<exists>s1 s2. ReadTag cc (CodedInputStream_flat cc (put_bytes t (?T @ encoding v) mem) (int t) (int (length ?T + length (encoding v)))) = Some (?tag, s1) \<and>
      ReadPrimitive cc (DeclaredType v) s1 = Some (Some v, s2) \<and> fst (ExpectAtEnd s2)"
    if fits: "t + length ?T + length (encoding v) \<le> length mem"
  proof -
    let ?s = "CodedInputStream_flat cc (put_bytes t (?T @ encoding v) mem) (int t) (int (length (?T @ encoding v)))"
    define s1 where "s1 = (cis_Advance (int (length ?T)) ?s)\<lparr>cis_last_tag := ?tag\<rparr>"
    have s: "cis_ok ?s" "avail ?s = ?T @ encoding v" using flat_stream [of t "?T @ encoding v" mem cc] fits by simp_all
    have "length ?T \<le> 10" using length_varint_32 [of ?tag] by simp
    then have rt: "ReadTag cc ?s = Some (?tag, s1)" using ReadVarint_enc(3) [OF a(1) s] by (simp add: s1_def)
    have "cis_ok s1" "avail s1 = encoding v @ []" unfolding s1_def using s by (simp_all add: cis_Advance_ok avail_Advance)
    then have rp: "ReadPrimitive cc (DeclaredType v) s1 = Some (Some v, cis_Advance (int (length (encoding v))) s1)"
      using ReadPrimitive_encoding [OF a(1)] a(4) by blast
    have "fst (ExpectAtEnd (cis_Advance (int (length (encoding v))) s1))"
      by (simp add: ExpectAtEnd_def s1_def cis_Advance_def CodedInputStream_flat_def)
    then show ?thesis using rt rp by auto
  qed
  then show ?thesis using sizes w tag_parts [OF a(2,3), of "wire_type v"] by auto
qed

theorem scalar_field_roundtrip_witness:
  "\<exists>mem' tag s1 s2. WriteToArray 5 (SInt32 (- 3)) 1 [0, 0, 0, 0] = Some (3, mem') \<and>
     ReadTag flat_cc (CodedInputStream_flat (flat_cc :: unit input_cc) mem' 1 2) = Some (tag, s1) \<and>
     GetTagFieldNumber tag = 5 \<and> ReadPrimitive flat_cc TYPE_SINT32 s1 = Some (Some (SInt32 (- 3)), s2)"
proof -
  have sizes: "TagSize 5 TYPE_SINT32 = Some 1" "PrimitiveSize (SInt32 (- 3)) = Some 1"
    by (simp_all add: TagSize_def kTagTypeBits_def varint_simps ZigZagEncode32_def)
  show ?thesis
    using scalar_field_roundtrip [OF flat_cc_laws, of 5 "SInt32 (- 3)" 1 "[0, 0, 0, 0]", where ?'a = unit] sizes
    by (auto simp: sizes simp del: WriteToArray.simps ReadPrimitive.simps PrimitiveSize.simps)
qed

text \<open>
  C26: The fast path for repeated fields of fixed size reads what the plain one reads. On a
  stream whose buffer holds a value and then further fields with the same tag, of values of
  the same fixed-size type, both readers append the same values, as many as the field has
  room for without growing, stop at the same position, and never read outside the buffer.
\<close>

theorem repeated_fixed_fast_path:
  "input_cc_laws cc \<Longrightarrow> cis_ok s \<Longrightarrow> cis_buffer_end s = int (length (cis_mem s)) \<Longrightarrow>
   holds f us \<Longrightarrow> length us < 2 ^ 30 \<Longrightarrow> 0 < cpp_sizeof ty \<Longrightarrow> unat tag < 2 ^ 14 \<Longrightarrow> other_tag tag rest \<Longrightarrow>
   \<forall>v \<in> set (v0 # vs). DeclaredType v = ty \<and> c_value v \<Longrightarrow> avail s = encoding v0 @ tagged_run tag vs @ rest \<Longrightarrow>
     \<exists>n s' f'. ReadRepeatedPrimitive cc ty tag s f = Some (True, s', f') \<and>
       ReadRepeatedFixedSizePrimitive cc ty (int (length (varint (unat tag)))) tag s f = Some (True, s', f') \<and>
       holds f' (us @ v0 # take n vs) \<and> avail s' = tagged_run tag (drop n vs) @ rest"
proof -
  assume a: "input_cc_laws cc" "cis_ok s" "cis_buffer_end s = int (length (cis_mem s))" "holds f us" "length us < 2 ^ 30"
    "0 < cpp_sizeof ty" "unat tag < 2 ^ 14" "other_tag tag rest"
    "\<forall>v \<in> set (v0 # vs). DeclaredType v = ty \<and> c_value v" "avail s = encoding v0 @ tagged_run tag vs @ rest"
  obtain f1 f' where f: "rf_Add (Some v0) f = Some f1" "0 \<le> rf_Capacity f1 - rf_size f1"
    "add_reserved (take (nat (rf_Capacity f1 - rf_size f1)) vs) f1 = Some f'"
    "holds f' (us @ v0 # take (nat (rf_Capacity f1 - rf_size f1)) vs)"
    using Add_then_reserve [OF a(4,5)] by metis
  define n where "n = nat (rf_Capacity f1 - rf_size f1)"
  have "tagged_run tag vs = tagged_run tag (take n vs) @ tagged_run tag (drop n vs)"
    unfolding tagged_run_def by (metis append_take_drop_id concat_append map_append)
  then have "avail (cis_Advance (int (length (encoding v0) + length (tagged_run tag (take n vs)))) s) = tagged_run tag (drop n vs) @ rest"
    by (subst avail_Advance [OF a(2)]) (simp_all add: a(10))
  then show ?thesis
    using ReadRepeatedPrimitive_run [OF a(1,2,7,8,9,10) f(1,3)]
      ReadRepeatedFixedSizePrimitive_run [OF a(1,2,7,8,6,3,9,10) f(1,3,2)] f(4)
    unfolding n_def by blast
qed

theorem repeated_fixed_fast_path_witness:
  "\<exists>n s' f'. ReadRepeatedPrimitive flat_cc TYPE_FIXED32 13
       (CodedInputStream_flat (flat_cc :: unit input_cc) [7, 0, 0, 0, 13, 9, 0, 0, 0] 0 9) (rf_new None) = Some (True, s', f') \<and>
     ReadRepeatedFixedSizePrimitive flat_cc TYPE_FIXED32 1 13
       (CodedInputStream_flat (flat_cc :: unit input_cc) [7, 0, 0, 0, 13, 9, 0, 0, 0] 0 9) (rf_new None) = Some (True, s', f') \<and>
     holds f' (Fixed32 7 # take n [Fixed32 9])"
proof -
  let ?s = "CodedInputStream_flat (flat_cc :: unit input_cc) [7, 0, 0, 0, 13, 9, 0, 0, 0] 0 9"
  have s: "cis_ok ?s" "cis_buffer_end ?s = int (length (cis_mem ?s))"
    by (simp_all add: cis_ok_def CodedInputStream_flat_def)
  have av: "avail ?s = encoding (Fixed32 7) @ tagged_run 13 [Fixed32 9] @ []"
    by (simp add: avail_def CodedInputStream_flat_def object_bytes_def upt_rec)
  have o: "other_tag 13 []" by (simp add: other_tag_def)
  have h: "holds (rf_new None) []" by (simp add: holds_def)
  show ?thesis
    using repeated_fixed_fast_path [OF flat_cc_laws s h _ _ _ o _ av, of TYPE_FIXED32] by simp blast
qed

text \<open>
  Packed fields are written as the sequence of their values. A packed field of any scalar
  type is the concatenation of the encodings of its elements, and an unpacked one the
  concatenation of its tagged fields; for the types of fixed size the block copy
  \<open>WriteFixedNoTagToArray\<close> writes the same bytes as the element-by-element loop.
\<close>

theorem repeated_writers_concatenate:
  "holds f vs \<Longrightarrow> vs \<noteq> [] \<Longrightarrow> \<forall>v \<in> set vs. DeclaredType v = ty \<Longrightarrow> int (length vs) * 8 < 2 ^ 31 \<Longrightarrow>
   t + length (concat (map (field_bytes fn) vs)) \<le> length mem \<Longrightarrow>
     WriteRepeatedNoTagToArray ty f (int t) mem =
       Some (int (t + length (concat (map encoding vs))), put_bytes t (concat (map encoding vs)) mem) \<and>
     WriteRepeatedNoTagToArray ty f (int t) mem = WritePrimitiveNoTagToArray f (int t) mem \<and>
     WriteRepeatedToArray fn f (int t) mem =
       Some (int (t + length (concat (map (field_bytes fn) vs))), put_bytes t (concat (map (field_bytes fn) vs)) mem)"
proof -
  assume a: "holds f vs" "vs \<noteq> []" "\<forall>v \<in> set vs. DeclaredType v = ty" "int (length vs) * 8 < 2 ^ 31"
    "t + length (concat (map (field_bytes fn) vs)) \<le> length mem"
  have "length (concat (map encoding vs)) \<le> length (concat (map (field_bytes fn) vs))"
    by (induction vs) (simp_all add: field_bytes_def)
  then have fits: "t + length (concat (map encoding vs)) \<le> length mem" using a(5) by simp
  have plain: "WritePrimitiveNoTagToArray f (int t) mem =
      Some (int (t + length (concat (map encoding vs))), put_bytes t (concat (map encoding vs)) mem)"
    using writesD [OF writes_packed [OF a(1,2)], of t mem] fits by simp
  have "cpp_sizeof ty \<le> 8" by (cases ty) simp_all
  then have "int (length vs) * cpp_sizeof ty < 2 ^ 31"
    using a(4) mult_left_mono [of "cpp_sizeof ty" 8 "int (length vs)"] by linarith
  then have fixed: "0 < cpp_sizeof ty \<Longrightarrow> WriteFixedNoTagToArray (cpp_sizeof ty) f (int t) mem =
      Some (int (t + length (concat (map encoding vs))), put_bytes t (concat (map encoding vs)) mem)"
    using writesD [OF writes_packed_fixed [OF a(1,2,3)], of t mem] fits by simp
  obtain v where "DeclaredType v = ty" using a(2,3) by (cases vs) auto
  then have "WriteRepeatedNoTagToArray ty f (int t) mem = WritePrimitiveNoTagToArray f (int t) mem"
    using plain fixed by (cases v) auto
  then show ?thesis
    using plain writesD [OF writes_repeated [OF a(1,2)], of fn t mem] a(5) by (simp add: WriteRepeatedToArray_def)
qed

theorem repeated_writers_concatenate_witness:
  "WriteRepeatedNoTagToArray TYPE_UINT32 (rf_full None [Some (UInt32 5), Some (UInt32 300)] 2) 1 [0, 0, 0, 0, 0, 0] =
     Some (4, [0, 5, 0xAC, 0x02, 0, 0]) \<and>
   WriteRepeatedToArray 1 (rf_full None [Some (UInt32 5), Some (UInt32 300)] 2) 1 [0, 0, 0, 0, 0, 0] =
     Some (6, [0, 8, 5, 8, 0xAC, 0x02])"
proof -
  let ?f = "rf_full None [Some (UInt32 5), Some (UInt32 300)] 2" and ?vs = "[UInt32 5, UInt32 300]"
  have h: "holds ?f ?vs" by (simp add: holds_def)
  have e: "concat (map encoding ?vs) = [5, 0xAC, 0x02]" by (simp add: varint_big)
  have fb: "concat (map (field_bytes 1) ?vs) = [8, 5, 8, 0xAC, 0x02]"
    by (simp add: field_bytes_def MakeTag_def varint_big)
  show ?thesis
    using repeated_writers_concatenate [OF h, of TYPE_UINT32 1 1 "[0, 0, 0, 0, 0, 0]"]
    unfolding e fb by (simp add: put_bytes_def)
qed

text \<open>
  C40: The type and the data of a message set item may come in either order. For a type other
  than 0 and data shorter than \<open>2 ^ 31 - 5\<close> bytes, \<open>ParseMessageSetItemImpl\<close> hands the client the
  same data under the same type whether the type precedes the data or follows it, and stops
  after the end tag. Of two pieces of data before the type only the second is handed on: the
  code overwrites what it kept, where its comment says that it appends.
\<close>

theorem message_set_item_orders:
  "input_cc_laws cc \<Longrightarrow> raw_law cc \<Longrightarrow> client_law ms got \<Longrightarrow> i \<noteq> 0 \<Longrightarrow> length p + 5 < 2 ^ 31 \<Longrightarrow> length q + 5 < 2 ^ 31 \<Longrightarrow>
   cis_ok s \<Longrightarrow>
     (avail s = (16 # varint (unat i) @ 26 # delimited p @ [12]) @ rest \<or>
      avail s = (26 # delimited p @ 16 # varint (unat i) @ [12]) @ rest \<or>
      avail s = (26 # delimited q @ 26 # delimited p @ 16 # varint (unat i) @ [12]) @ rest \<longrightarrow>
      (\<exists>n. ParseMessageSetItemImpl cc ms s x = Some (True, cis_Advance n s, got i p x) \<and>
           n = int (length (avail s) - length rest)))"
proof -
  assume a: "input_cc_laws cc" "raw_law cc" "client_law ms got" "i \<noteq> 0" "length p + 5 < 2 ^ 31" "length q + 5 < 2 ^ 31" "cis_ok s"
  have item: "\<exists>n. ParseMessageSetItemImpl cc ms s x = Some (True, cis_Advance n s, got i p x) \<and>
      n = int (length (avail s) - length rest)" if "item_result cc ms 0 [] bs x (got i p x)" "avail s = bs @ rest" for bs
    using that a(7) unfolding item_result_def ParseMessageSetItemImpl_def by simp
  have first: "item_result cc ms 0 [] (16 # varint (unat i) @ 26 # delimited p @ [12]) x (got i p x)"
    by (intro item_type item_message [where got = got] item_end a)
  have later: "item_result cc ms 0 (delimited p) (16 # varint (unat i) @ [12]) x (got i p x)"
    by (intro item_type_data [where got = got] item_end a)
  have second: "item_result cc ms 0 d (26 # delimited p @ 16 # varint (unat i) @ [12]) x (got i p x)" for d
    by (intro item_message_kept later a)
  have third: "item_result cc ms 0 [] (26 # delimited q @ 26 # delimited p @ 16 # varint (unat i) @ [12]) x (got i p x)"
    by (intro item_message_kept second a)
  show ?thesis using item [OF first] item [OF second] item [OF third] by blast
qed

text \<open>A client that records what it is handed.\<close>

definition recording :: "((32 word \<times> byte list) list, 'i) message_set" where
  "recording = \<lparr>
     ms_ParseField = \<lambda>i s x. case flat_varint s of
        Some (n, l) \<Rightarrow> Some (True, cis_Advance (int (l + n)) s, (i, take n (drop l (avail s))) # x)
      | None \<Rightarrow> Some (False, s, x),
     ms_SkipField = \<lambda>tag s x. Some (False, s, x) \<rparr>"

lemma recording_law: "client_law recording (\<lambda>i p x. (i, p) # x)"
proof -
  have "varint_ref 10 (varint (length p) @ p @ rest) = Some (Some (length p, length (varint (length p))))"
    if "length p < 2 ^ 31" for p rest :: "byte list"
    using length_varint_le [of "length p" 4] that by (intro varint_ref_varint) simp
  then show ?thesis by (auto simp: client_law_def recording_def flat_varint_def delimited_def)
qed

theorem message_set_item_orders_witness:
  "\<exists>n. ParseMessageSetItemImpl flat_cc recording
       (CodedInputStream_flat (flat_cc :: unit input_cc) [26, 2, 1, 2, 16, 0xAC, 0x02, 12] 0 8) [] =
     Some (True, cis_Advance n (CodedInputStream_flat flat_cc [26, 2, 1, 2, 16, 0xAC, 0x02, 12] 0 8), [(300, [1, 2])])"
proof -
  let ?s = "CodedInputStream_flat (flat_cc :: unit input_cc) [26, 2, 1, 2, 16, 0xAC, 0x02, 12] 0 8"
  have ok: "cis_ok ?s" by (simp add: cis_ok_def CodedInputStream_flat_def)
  have av: "avail ?s = (26 # delimited [1, 2] @ 16 # varint (unat (300 :: 32 word)) @ [12]) @ []"
    by (simp add: avail_def CodedInputStream_flat_def delimited_def varint_big)
  show ?thesis
    using message_set_item_orders [OF flat_cc_laws flat_raw_law recording_law, of 300 "[1, 2]" "[]" ?s "[]" "[]"] ok av by auto
qed

end
