(* ===== verification/Parse_Context.thy ===== *)
theory Parse_Context
  imports Varint
begin

text \<open>
  \<open>google/protobuf/parse_context.h\<close>: the state a parse keeps across the seams of its input
  (\<open>ParseContext\<close>), the wrapper that presents arbitrary chunks with an overlap (\<open>EpsCopyParser\<close>) and
  the generic parser of the wire format (\<open>FieldParser\<close>, \<open>WireFormatParser\<close>).

  A pointer is a position in the array it points into, a range a pair of them. A parse function
  together with its object (\<open>ParseClosure\<close>) is a value of the type \<open>'p\<close>; calling one is the
  argument \<open>call\<close>, and the objects that parse functions change are the field \<open>pc_objects\<close> of the
  context. Members defined in \<open>parse_context.cc\<close> are the record \<open>parse_cc\<close>.
\<close>

section \<open>The context\<close>

definition kSlopBytes :: int where [simp]: "kSlopBytes = 16"

definition kInlinedDepth :: int where [simp]: "kInlinedDepth = 15"

record ('p, 'w) parse_context =
  pc_parser :: "'p option"
  pc_depth :: int
  pc_limit :: int
  pc_start_depth :: int
  pc_last_tag_minus_1 :: "32 word"
  pc_stack :: "int \<rightharpoonup> 'p \<times> int"
  pc_inlined_depth :: int
  pc_objects :: 'w

record ('p, 'w) parse_cc =
  cc_ParseRangeWithLimit :: "byte list \<Rightarrow> int \<Rightarrow> int \<Rightarrow> ('p, 'w) parse_context \<Rightarrow> ((bool \<times> int) \<times> ('p, 'w) parse_context) option"
  cc_ParseEndsInSlopRegion :: "byte list \<Rightarrow> int \<Rightarrow> ('p, 'w) parse_context \<Rightarrow> bool"
  cc_SwitchStack :: "('p, 'w) parse_context \<Rightarrow> ('p, 'w) parse_context"

type_synonym ('p, 'w) parse_call =
  "'p \<Rightarrow> byte list \<Rightarrow> int \<Rightarrow> int \<Rightarrow> ('p, 'w) parse_context \<Rightarrow> (int option \<times> ('p, 'w) parse_context) option"

definition ParseContext :: "int \<Rightarrow> 'w \<Rightarrow> ('p, 'w) parse_context" where
  "ParseContext rec_limit w =
     \<lparr>pc_parser = None, pc_depth = rec_limit, pc_limit = - 1, pc_start_depth = rec_limit, pc_last_tag_minus_1 = 0,
      pc_stack = Map.empty, pc_inlined_depth = max 0 (rec_limit - kInlinedDepth), pc_objects = w\<rparr>"

definition AtLimit :: "('p, 'w) parse_context \<Rightarrow> bool" where
  "AtLimit c \<longleftrightarrow> pc_limit c = 0"

definition CurrentLimit :: "('p, 'w) parse_context \<Rightarrow> int" where
  "CurrentLimit c = pc_limit c"

definition StartParse :: "'p \<Rightarrow> ('p, 'w) parse_context \<Rightarrow> ('p, 'w) parse_context" where
  "StartParse parser c = c\<lparr>pc_parser := Some parser\<rparr>"

definition ValidEnd :: "int \<Rightarrow> ('p, 'w) parse_context \<Rightarrow> bool" where
  "ValidEnd overrun c \<longleftrightarrow> pc_depth c = pc_start_depth c \<and> overrun = 0"

definition EndedOnTag :: "('p, 'w) parse_context \<Rightarrow> bool" where
  "EndedOnTag c \<longleftrightarrow> pc_last_tag_minus_1 c \<noteq> 0"

definition LastTag :: "('p, 'w) parse_context \<Rightarrow> 32 word" where
  "LastTag c = pc_last_tag_minus_1 c + 1"

text \<open>The conversion of a 64-bit size to \<open>int\<close>, in casts, arguments and assignments.\<close>

definition to_int32 :: "int \<Rightarrow> int" where
  "to_int32 n = int32_of (word_of_int n)"

definition ctx_ParseRange ::
  "('p, 'w) parse_cc \<Rightarrow> byte list \<Rightarrow> int \<Rightarrow> int \<Rightarrow> int \<Rightarrow> ('p, 'w) parse_context \<Rightarrow> ((bool \<times> int) \<times> ('p, 'w) parse_context) option" where
  "ctx_ParseRange cc mem begin' end' overrun c = do {
     _ \<leftarrow> GOOGLE_DCHECK (begin' < end');
     _ \<leftarrow> GOOGLE_DCHECK (0 \<le> overrun);
     let size' = end' - begin';
     if to_int32 size' \<le> overrun then Some ((True, to_int32 (overrun - size')), c)
     else cc_ParseRangeWithLimit cc mem (begin' + overrun) end' c }"

section \<open>Calls of parse functions\<close>

definition call_parser :: "('p, 'w) parse_call \<Rightarrow> 'p \<Rightarrow> byte list \<Rightarrow> int \<Rightarrow> int \<Rightarrow> ('p, 'w) parse_context \<Rightarrow>
    (int option \<times> ('p, 'w) parse_context) option" where
  "call_parser call p mem ptr end' c = do {
     _ \<leftarrow> GOOGLE_DCHECK (ptr < end');
     call p mem ptr end' c }"

definition ParseExactRange :: "('p, 'w) parse_call \<Rightarrow> 'p \<Rightarrow> byte list \<Rightarrow> int \<Rightarrow> int \<Rightarrow> ('p, 'w) parse_context \<Rightarrow>
    (bool \<times> ('p, 'w) parse_context) option" where
  "ParseExactRange call parser mem begin' end' c = do {
     let c = c\<lparr>pc_depth := pc_depth c - 1\<rparr>;
     if pc_depth c < 0 then Some (False, c)
     else do {
       let old_limit = pc_limit c;
       let c = c\<lparr>pc_limit := 0\<rparr>;
       (ptr, c) \<leftarrow> (if begin' < end' then call_parser call parser mem begin' end' c else Some (Some begin', c));
       if ptr \<noteq> Some end' \<or> EndedOnTag c then Some (False, c)
       else Some (True, c\<lparr>pc_limit := old_limit, pc_depth := pc_depth c + 1\<rparr>) } }"

text \<open>The first result is the pointer, the second whether the group continues, the third the depth.\<close>

definition ParseGroup :: "('p, 'w) parse_call \<Rightarrow> 32 word \<Rightarrow> 'p \<Rightarrow> byte list \<Rightarrow> int \<Rightarrow> int \<Rightarrow> ('p, 'w) parse_context \<Rightarrow>
    ((int option \<times> bool \<times> int) \<times> ('p, 'w) parse_context) option" where
  "ParseGroup call tag parser mem begin' end' c = do {
     let c = c\<lparr>pc_depth := pc_depth c - 1\<rparr>;
     if pc_depth c < 0 then Some ((None, False, pc_depth c), c)
     else do {
       let depth = pc_depth c;
       (ptr, c) \<leftarrow> (if begin' < end' then call_parser call parser mem begin' end' c else Some (Some begin', c));
       case ptr of
         None \<Rightarrow> Some ((None, False, depth), c)
       | Some q \<Rightarrow>
           if \<not> EndedOnTag c then do {
             _ \<leftarrow> GOOGLE_DCHECK (end' \<le> q);
             Some ((Some q, True, depth), c) }
           else if tag \<noteq> pc_last_tag_minus_1 c \<or> depth \<noteq> pc_depth c then Some ((None, False, depth), c)
           else Some ((Some q, False, depth), c\<lparr>pc_last_tag_minus_1 := 0, pc_depth := pc_depth c + 1\<rparr>) } }"

definition EndGroup :: "32 word \<Rightarrow> ('p, 'w) parse_context \<Rightarrow> ('p, 'w) parse_context option" where
  "EndGroup tag c = do {
     _ \<leftarrow> GOOGLE_DCHECK (tag = 0 \<or> tag AND 7 = 4);
     Some (c\<lparr>pc_last_tag_minus_1 := tag - 1\<rparr>) }"

section \<open>The stack\<close>

text \<open>
  \<open>stack_\<close> points into \<open>inline_stack_\<close> so that the last \<open>kInlinedDepth\<close> indices are those of its
  elements, or to an array of \<open>start_depth_\<close> elements once \<open>SwitchStack\<close> has set
  \<open>inlined_depth_\<close> to \<open>-1\<close>.
\<close>

definition stack_index_ok :: "('p, 'w) parse_context \<Rightarrow> int \<Rightarrow> bool" where
  "stack_index_ok c d \<longleftrightarrow>
     (if pc_inlined_depth c = - 1 then 0 \<le> d else pc_start_depth c - kInlinedDepth \<le> d) \<and> d < pc_start_depth c"

definition stack_set :: "int \<Rightarrow> 'p \<times> int \<Rightarrow> ('p, 'w) parse_context \<Rightarrow> ('p, 'w) parse_context option" where
  "stack_set d s c = (if stack_index_ok c d then Some (c\<lparr>pc_stack := (pc_stack c)(d \<mapsto> s)\<rparr>) else None)"

definition Push :: "('p, 'w) parse_cc \<Rightarrow> 'p \<Rightarrow> int \<Rightarrow> ('p, 'w) parse_context \<Rightarrow> (bool \<times> ('p, 'w) parse_context) option" where
  "Push cc parser delta c = do {
     _ \<leftarrow> GOOGLE_DCHECK (- 1 \<le> delta);
     let c = c\<lparr>pc_depth := pc_depth c - 1\<rparr>;
     if pc_depth c < 0 then Some (False, c)
     else do {
       let c = (if pc_depth c < pc_inlined_depth c then cc_SwitchStack cc c else c);
       c \<leftarrow> stack_set (pc_depth c) (parser, delta) c;
       Some (True, c) } }"

definition Pop :: "('p, 'w) parse_context \<Rightarrow> (('p \<times> int) \<times> ('p, 'w) parse_context) option" where
  "Pop c = do {
     s \<leftarrow> (if stack_index_ok c (pc_depth c) then pc_stack c (pc_depth c) else None);
     Some (s, c\<lparr>pc_depth := pc_depth c + 1\<rparr>) }"

definition StoreAndTailCall :: "('p, 'w) parse_cc \<Rightarrow> ('p, 'w) parse_call \<Rightarrow> byte list \<Rightarrow> int \<Rightarrow> int \<Rightarrow> 'p \<Rightarrow> 'p \<Rightarrow> int \<Rightarrow>
    ('p, 'w) parse_context \<Rightarrow> (int option \<times> ('p, 'w) parse_context) option" where
  "StoreAndTailCall cc call mem ptr end' current_parser child_parser size' c = do {
     let safe_new_limit = size' - (end' - ptr);
     if 2 ^ 31 - 1 < safe_new_limit then Some (None, c)
     else do {
       _ \<leftarrow> GOOGLE_DCHECK (0 < safe_new_limit);
       let new_limit = safe_new_limit;
       if pc_limit c \<noteq> - 1 \<and> pc_limit c < new_limit then Some (None, c)
       else do {
         let delta = (if pc_limit c \<noteq> - 1 then pc_limit c - new_limit else - 1);
         let c = c\<lparr>pc_limit := new_limit\<rparr>;
         (pushed, c) \<leftarrow> Push cc current_parser delta c;
         if \<not> pushed then Some (None, c)
         else do {
           let c = c\<lparr>pc_parser := Some child_parser\<rparr>;
           if ptr < end' then call_parser call child_parser mem ptr end' c else Some (Some ptr, c) } } } }"

definition StoreGroup :: "('p, 'w) parse_cc \<Rightarrow> 'p \<Rightarrow> 'p \<Rightarrow> int \<Rightarrow> 32 word \<Rightarrow> ('p, 'w) parse_context \<Rightarrow>
    (bool \<times> ('p, 'w) parse_context) option" where
  "StoreGroup cc current_parser child_parser depth tag c =
     (if pc_limit c = 0 then Some (False, c)
      else do {
        let c = (if depth = pc_depth c then c\<lparr>pc_parser := Some child_parser\<rparr> else c);
        let c = (if depth < pc_inlined_depth c then cc_SwitchStack cc c else c);
        c \<leftarrow> stack_set depth (current_parser, sint (NOT (drop_bit 3 tag))) c;
        Some (True, c) })"

section \<open>The wire format\<close>

text \<open>The methods of a field parser, which change the objects.\<close>

record ('p, 'w) field_parser =
  fp_AddVarint :: "32 word \<Rightarrow> 64 word \<Rightarrow> 'w \<Rightarrow> 'w"
  fp_AddFixed64 :: "32 word \<Rightarrow> 64 word \<Rightarrow> 'w \<Rightarrow> 'w"
  fp_AddLengthDelimited :: "32 word \<Rightarrow> int \<Rightarrow> 'w \<Rightarrow> 'p \<times> 'w"
  fp_StartGroup :: "32 word \<Rightarrow> 'w \<Rightarrow> 'p \<times> 'w"
  fp_EndGroup :: "32 word \<Rightarrow> 'w \<Rightarrow> 'w"
  fp_AddFixed32 :: "32 word \<Rightarrow> 32 word \<Rightarrow> 'w \<Rightarrow> 'w"

definition UnalignedLoad :: "nat \<Rightarrow> byte list \<Rightarrow> int \<Rightarrow> 'a::len word option" where
  "UnalignedLoad n mem p = do { bs \<leftarrow> memcpy_from mem p n; Some (object_of_bytes bs) }"

definition on_objects :: "('w \<Rightarrow> 'w) \<Rightarrow> ('p, 'w) parse_context \<Rightarrow> ('p, 'w) parse_context" where
  "on_objects f c = c\<lparr>pc_objects := f (pc_objects c)\<rparr>"

definition FieldParser :: "('p, 'w) parse_cc \<Rightarrow> ('p, 'w) parse_call \<Rightarrow> 64 word \<Rightarrow> 'p \<Rightarrow> ('p, 'w) field_parser \<Rightarrow> byte list \<Rightarrow>
    int \<Rightarrow> int \<Rightarrow> ('p, 'w) parse_context \<Rightarrow> ((int option \<times> bool) \<times> ('p, 'w) parse_context) option" where
  "FieldParser cc call tag parent fp mem begin' end' c = do {
     let ptr = begin';
     let number = (ucast (drop_bit 3 tag) :: 32 word);
     if number = 0 then
       (if tag \<noteq> 0 then Some ((None, False), c)
        else do { c \<leftarrow> EndGroup (ucast tag) c; Some ((Some ptr, True), c) })
     else if tag AND 7 = 0 then do {
       (value, ptr) \<leftarrow> Parse64 mem ptr;
       case ptr of
         None \<Rightarrow> Some ((None, False), c)
       | Some q \<Rightarrow> Some ((Some q, False), on_objects (fp_AddVarint fp number value) c) }
     else if tag AND 7 = 1 then do {
       value \<leftarrow> UnalignedLoad 8 mem ptr;
       Some ((Some (ptr + 8), False), on_objects (fp_AddFixed64 fp number value) c) }
     else if tag AND 7 = 2 then do {
       (size', ptr) \<leftarrow> ReadSize mem ptr;
       case ptr of
         None \<Rightarrow> Some ((None, False), c)
       | Some q \<Rightarrow> do {
           size' \<leftarrow> size';
           let (child, w) = fp_AddLengthDelimited fp number size' (pc_objects c);
           let c = c\<lparr>pc_objects := w\<rparr>;
           if end' - q < size' then do {
             (r, c) \<leftarrow> StoreAndTailCall cc call mem q end' parent child size' c;
             Some ((r, True), c) }
           else do {
             let newend = q + size';
             (ok, c) \<leftarrow> ParseExactRange call child mem q newend c;
             Some ((if ok then Some newend else None, False), c) } } }
     else if tag AND 7 = 3 then do {
       let (child, w) = fp_StartGroup fp number (pc_objects c);
       let c = c\<lparr>pc_objects := w\<rparr>;
       ((ptr, continues, depth), c) \<leftarrow> ParseGroup call (ucast tag) child mem ptr end' c;
       case ptr of
         None \<Rightarrow> Some ((None, False), c)
       | Some q \<Rightarrow>
           if continues then do {
             (ok, c) \<leftarrow> StoreGroup cc parent child depth (ucast tag) c;
             Some ((if ok then Some q else None, ok), c) }
           else Some ((Some q, False), c) }
     else if tag AND 7 = 4 then do {
       let c = on_objects (fp_EndGroup fp number) c;
       c \<leftarrow> EndGroup (ucast tag) c;
       Some ((Some ptr, True), c) }
     else if tag AND 7 = 5 then do {
       value \<leftarrow> UnalignedLoad 4 mem ptr;
       Some ((Some (ptr + 4), False), on_objects (fp_AddFixed32 fp number value) c) }
     else Some ((None, False), c) }"

partial_function (option) WireFormatParser :: "('p, 'w) parse_cc \<Rightarrow> ('p, 'w) parse_call \<Rightarrow> 'p \<Rightarrow> ('p, 'w) field_parser \<Rightarrow>
    byte list \<Rightarrow> int \<Rightarrow> int \<Rightarrow> ('p, 'w) parse_context \<Rightarrow> (int option \<times> ('p, 'w) parse_context) option" where
  "WireFormatParser cc call parent fp mem ptr end' c =
     (if ptr < end' then do {
        (tag, q) \<leftarrow> Parse32 mem ptr;
        case q of
          None \<Rightarrow> Some (None, c)
        | Some q \<Rightarrow> do {
            ((r, stop), c) \<leftarrow> FieldParser cc call (ucast tag) parent fp mem q end' c;
            case r of
              None \<Rightarrow> Some (None, c)
            | Some p \<Rightarrow> if stop then Some (Some p, c) else WireFormatParser cc call parent fp mem p end' c } }
      else Some (Some ptr, c))"

section \<open>Chunks without overlap\<close>

record ('p, 'w) eps_parser =
  eps_overrun :: int
  eps_buffer :: "byte list"
  eps_ctx :: "('p, 'w) parse_context"

definition EpsCopyParser :: "'p \<Rightarrow> ('p, 'w) parse_context \<Rightarrow> ('p, 'w) eps_parser" where
  "EpsCopyParser parser c =
     \<lparr>eps_overrun = kSlopBytes, eps_buffer = replicate 32 0, eps_ctx = StartParse parser c\<rparr>"

definition eps_ParseRange :: "('p, 'w) parse_cc \<Rightarrow> byte list \<Rightarrow> int \<Rightarrow> int \<Rightarrow> int \<Rightarrow> ('p, 'w) eps_parser \<Rightarrow>
    (bool \<times> ('p, 'w) eps_parser) option" where
  "eps_ParseRange cc mem begin' end' delta e = do {
     ((res, overrun), c) \<leftarrow> ctx_ParseRange cc mem begin' end' (eps_overrun e) (eps_ctx e);
     overrun \<leftarrow> (if res then Some overrun else c_int (overrun + delta));
     Some (res, e\<lparr>eps_overrun := overrun, eps_ctx := c\<rparr>) }"

text \<open>
  The range that is parsed is either the chunk without its last \<open>kSlopBytes\<close> or a prefix of the patch buffer; the
  bytes after its end are those that \<open>memmove\<close> keeps.
\<close>

definition eps_Parse :: "bool \<Rightarrow> ('p, 'w) parse_cc \<Rightarrow> byte list \<Rightarrow> ('p, 'w) eps_parser \<Rightarrow> (bool \<times> ('p, 'w) eps_parser) option" where
  "eps_Parse ensure_non_negative_skip cc chunk e = do {
     _ \<leftarrow> GOOGLE_DCHECK (chunk \<noteq> []);
     let size' = int (length chunk);
     (ok, from_buffer, e) \<leftarrow>
       (if kSlopBytes < size' then
          (if eps_overrun e = kSlopBytes then Some (True, False, e\<lparr>eps_overrun := 0\<rparr>)
           else do {
             buf \<leftarrow> arr_copy (eps_buffer e) kSlopBytes chunk 0 kSlopBytes;
             (ok, e) \<leftarrow> eps_ParseRange cc buf 0 kSlopBytes 0 (e\<lparr>eps_buffer := buf\<rparr>);
             Some (ok, False, e) })
        else do {
          buf \<leftarrow> arr_copy (eps_buffer e) kSlopBytes chunk 0 size';
          Some (True, True, e\<lparr>eps_buffer := buf\<rparr>) });
     if \<not> ok then Some (False, e)
     else do {
       let mem = (if from_buffer then eps_buffer e else chunk);
       let end' = (if from_buffer then size' else size' - kSlopBytes);
       (ok, e) \<leftarrow> eps_ParseRange cc mem 0 end' (to_int32 (size' - kSlopBytes)) e;
       if \<not> ok then Some (False, e)
       else do {
         slop \<leftarrow> memcpy_from mem end' 16;
         buf \<leftarrow> memcpy_to (eps_buffer e) 0 slop;
         let e = e\<lparr>eps_buffer := buf\<rparr>;
         if ensure_non_negative_skip \<and> cc_ParseEndsInSlopRegion cc (eps_buffer e) (eps_overrun e) (eps_ctx e) then do {
           (res, e) \<leftarrow> eps_ParseRange cc (eps_buffer e) 0 kSlopBytes (to_int32 size') e;
           _ \<leftarrow> GOOGLE_DCHECK (\<not> res);
           Some (False, e) }
         else Some (True, e) } } }"

definition eps_Done :: "('p, 'w) parse_cc \<Rightarrow> ('p, 'w) eps_parser \<Rightarrow> (bool \<times> ('p, 'w) eps_parser) option" where
  "eps_Done cc e = do {
     (ok, e) \<leftarrow> eps_ParseRange cc (eps_buffer e) 0 kSlopBytes 0 e;
     Some (ok \<and> ValidEnd (eps_overrun e) (eps_ctx e), e) }"

definition eps_Skip :: "bool \<Rightarrow> ('p, 'w) eps_parser \<Rightarrow> int option" where
  "eps_Skip ensure_non_negative_skip e = do {
     _ \<leftarrow> GOOGLE_DCHECK (\<not> ensure_non_negative_skip \<or> 0 \<le> eps_overrun e);
     Some (eps_overrun e) }"

end
