(* ===== verification/Wire_Parser.thy ===== *)
theory Wire_Parser
  imports Wire_Format Parse_Context
begin

text \<open>
  The generic parser of \<open>parse_context.h\<close> on the encodings of \<open>wire_format_lite.h\<close>: nested messages
  and groups are reported to the field parsers as they were written, up to the recursion limit
  of the context, and refused beyond it.

  A message is a list of fields. \<open>feed\<close> gives the calls of the field parsers' methods in the order of
  the fields, \<open>parse_fn\<close> the parse functions: those that parse a message with \<open>WireFormatParser\<close> and
  those that take the bytes of a range as they are. The argument of \<open>parse_fn\<close> bounds the nesting of
  calls; the nesting of the message is enough.
\<close>

section \<open>Messages as lists of fields\<close>

datatype wire_field = Varint_field nat "64 word" | Fixed64_field nat "64 word" | Fixed32_field nat "32 word"
  | Bytes_field nat "byte list" | Message_field nat "wire_field list" | Group_field nat "wire_field list"

definition tag_bytes :: "nat \<Rightarrow> WireType \<Rightarrow> byte list" where
  "tag_bytes n t = varint (unat (MakeTag (int n) t))"

fun enc_field :: "wire_field \<Rightarrow> byte list" where
  "enc_field (Varint_field n v) = tag_bytes n WIRETYPE_VARINT @ varint (unat v)"
| "enc_field (Fixed64_field n v) = tag_bytes n WIRETYPE_FIXED64 @ object_bytes v"
| "enc_field (Fixed32_field n v) = tag_bytes n WIRETYPE_FIXED32 @ object_bytes v"
| "enc_field (Bytes_field n bs) = tag_bytes n WIRETYPE_LENGTH_DELIMITED @ varint (length bs) @ bs"
| "enc_field (Message_field n fs) =
     tag_bytes n WIRETYPE_LENGTH_DELIMITED @ varint (length (concat (map enc_field fs))) @ concat (map enc_field fs)"
| "enc_field (Group_field n fs) =
     tag_bytes n WIRETYPE_START_GROUP @ concat (map enc_field fs) @ tag_bytes n WIRETYPE_END_GROUP"

abbreviation enc_fields :: "wire_field list \<Rightarrow> byte list" where
  "enc_fields fs \<equiv> concat (map enc_field fs)"

fun nest :: "wire_field \<Rightarrow> nat" where
  "nest (Bytes_field n bs) = 1"
| "nest (Message_field n fs) = Suc (foldr max (map nest fs) 0)"
| "nest (Group_field n fs) = Suc (foldr max (map nest fs) 0)"
| "nest _ = 0"

abbreviation nest_all :: "wire_field list \<Rightarrow> nat" where
  "nest_all fs \<equiv> foldr max (map nest fs) 0"

definition number_ok :: "nat \<Rightarrow> bool" where
  "number_ok n \<longleftrightarrow> 0 < n \<and> n < 2 ^ 29"

definition size_ok :: "nat \<Rightarrow> bool" where
  "size_ok n \<longleftrightarrow> n < 2 ^ 31 - 270549120"

fun wf_field :: "wire_field \<Rightarrow> bool" where
  "wf_field (Varint_field n v) = number_ok n"
| "wf_field (Fixed64_field n v) = number_ok n"
| "wf_field (Fixed32_field n v) = number_ok n"
| "wf_field (Bytes_field n bs) = (number_ok n \<and> size_ok (length bs))"
| "wf_field (Message_field n fs) = (number_ok n \<and> size_ok (length (enc_fields fs)) \<and> list_all wf_field fs)"
| "wf_field (Group_field n fs) = (number_ok n \<and> list_all wf_field fs)"

text \<open>A scalar field as \<open>WriteToArray\<close> writes it.\<close>

primrec scalar_field :: "nat \<Rightarrow> primitive \<Rightarrow> wire_field" where
  "scalar_field n (Int32 v) = Varint_field n (word_of_int v)"
| "scalar_field n (Int64 v) = Varint_field n (word_of_int v)"
| "scalar_field n (UInt32 v) = Varint_field n (ucast v)"
| "scalar_field n (UInt64 v) = Varint_field n v"
| "scalar_field n (SInt32 v) = Varint_field n (ucast (ZigZagEncode32 v))"
| "scalar_field n (SInt64 v) = Varint_field n (ZigZagEncode64 v)"
| "scalar_field n (Fixed32 v) = Fixed32_field n v"
| "scalar_field n (Fixed64 v) = Fixed64_field n v"
| "scalar_field n (SFixed32 v) = Fixed32_field n (word_of_int v)"
| "scalar_field n (SFixed64 v) = Fixed64_field n (word_of_int v)"
| "scalar_field n (Float v) = Fixed32_field n (EncodeFloat v)"
| "scalar_field n (Double v) = Fixed64_field n (EncodeDouble v)"
| "scalar_field n (Bool v) = Varint_field n (if v then 1 else 0)"
| "scalar_field n (Enum v) = Varint_field n (word_of_int v)"

lemma unat_ucast_32: "unat (ucast (v :: 32 word) :: 64 word) = unat v"
  by transfer simp

lemma ucast_up_down: "(ucast (ucast (v :: 32 word) :: 64 word) :: 32 word) = v"
  by transfer simp

lemma enc_scalar_field: "enc_field (scalar_field n v) = field_bytes (int n) v"
  by (cases v) (simp_all add: field_bytes_def tag_bytes_def unat_ucast_32)

section \<open>The calls a message gives rise to\<close>

fun feed :: "('p \<Rightarrow> ('p, 'w) field_parser) \<Rightarrow> ('p \<Rightarrow> (byte list \<Rightarrow> 'w \<Rightarrow> 'w) option) \<Rightarrow> 'p \<Rightarrow> wire_field \<Rightarrow> 'w \<Rightarrow> 'w option"
and feed_all :: "('p \<Rightarrow> ('p, 'w) field_parser) \<Rightarrow> ('p \<Rightarrow> (byte list \<Rightarrow> 'w \<Rightarrow> 'w) option) \<Rightarrow> 'p \<Rightarrow> wire_field list \<Rightarrow> 'w \<Rightarrow> 'w option"
where
  "feed P lf p (Varint_field n v) w = Some (fp_AddVarint (P p) (of_nat n) v w)"
| "feed P lf p (Fixed64_field n v) w = Some (fp_AddFixed64 (P p) (of_nat n) v w)"
| "feed P lf p (Fixed32_field n v) w = Some (fp_AddFixed32 (P p) (of_nat n) v w)"
| "feed P lf p (Bytes_field n bs) w =
     (let (child, w) = fp_AddLengthDelimited (P p) (of_nat n) (int (length bs)) w in
      case lf child of None \<Rightarrow> None | Some f \<Rightarrow> Some (if bs = [] then w else f bs w))"
| "feed P lf p (Message_field n fs) w =
     (let (child, w) = fp_AddLengthDelimited (P p) (of_nat n) (int (length (enc_fields fs))) w in
      case lf child of None \<Rightarrow> feed_all P lf child fs w | Some f \<Rightarrow> None)"
| "feed P lf p (Group_field n fs) w =
     (let (child, w) = fp_StartGroup (P p) (of_nat n) w in
      case lf child of None \<Rightarrow> map_option (fp_EndGroup (P child) (of_nat n)) (feed_all P lf child fs w) | Some f \<Rightarrow> None)"
| "feed_all P lf p [] w = Some w"
| "feed_all P lf p (f # fs) w = Option.bind (feed P lf p f w) (feed_all P lf p fs)"

primrec parse_fn :: "('p, 'w) parse_cc \<Rightarrow> ('p \<Rightarrow> ('p, 'w) field_parser) \<Rightarrow> ('p \<Rightarrow> (byte list \<Rightarrow> 'w \<Rightarrow> 'w) option) \<Rightarrow> nat \<Rightarrow>
    ('p, 'w) parse_call" where
  "parse_fn cc P lf 0 = (\<lambda>_ _ _ _ _. None)"
| "parse_fn cc P lf (Suc k) = (\<lambda>p mem b e c. case lf p of
     None \<Rightarrow> WireFormatParser cc (parse_fn cc P lf k) p (P p) mem b e c
   | Some f \<Rightarrow> do { bs \<leftarrow> memcpy_from mem b (nat (e - b)); Some (Some e, on_objects (f bs) c) })"

section \<open>Single steps of the parser\<close>

lemma Parse_at:
  assumes "drop p mem = varint n @ rest"
  shows "length (varint n) \<le> 5 \<Longrightarrow> Parse32 mem (int p) = Some (of_nat n, Some (int (p + length (varint n))))"
    and "length (varint n) \<le> 10 \<Longrightarrow> Parse64 mem (int p) = Some (of_nat n, Some (int (p + length (varint n))))"
  using varint_ref_varint [of n 5 rest] varint_ref_varint [of n 10 rest] assms
  by (simp_all add: Parse32_def Parse64_def VarintParse_ref parsed_def)

lemma Parse32_tag:
  "drop p mem = tag_bytes n t @ rest \<Longrightarrow> Parse32 mem (int p) = Some (MakeTag (int n) t, Some (int (p + length (tag_bytes n t))))"
  using Parse_at(1) [of p mem "unat (MakeTag (int n) t)" rest] length_varint_32 [of "MakeTag (int n) t"]
  by (simp add: tag_bytes_def)

lemma UnalignedLoad_at:
  fixes v :: "'a::len word"
  assumes "drop p mem = object_bytes v @ rest" "8 dvd LENGTH('a)" "n = LENGTH('a) div 8"
  shows "UnalignedLoad n mem (int p) = Some v"
proof -
  have "do { x \<leftarrow> UnalignedLoad n mem (int p); Some (x, ()) } = Some (v, ())"
    using ReadLE_at [OF assms(1,2)] assms(3) by (simp add: UnalignedLoad_def)
  then show ?thesis by (auto simp: bind_eq_Some_conv)
qed

lemma tag_parts_64:
  fixes t :: WireType
  assumes "number_ok n"
  defines "tag \<equiv> ucast (MakeTag (int n) t) :: 64 word"
  shows "(ucast (drop_bit 3 tag) :: 32 word) = of_nat n" and "(of_nat n :: 32 word) \<noteq> 0"
    and "tag AND 7 = ucast (wire_type_code t)" and "(ucast tag :: 32 word) = MakeTag (int n) t"
proof -
  have n: "0 < n" "n < 2 ^ 29" using assms(1) by (simp_all add: number_ok_def)
  have u: "unat tag = 8 * n + unat (wire_type_code t)"
    using unat_MakeTag [of "int n" t] n by (simp add: tag_def unat_ucast_32)
  have "unat (drop_bit 3 tag) = n"
    using wire_code_small [of t] by (subst unat_drop_bit_eq, subst drop_bit_eq_div) (simp add: u)
  then show "(ucast (drop_bit 3 tag) :: 32 word) = of_nat n"
    by (metis of_nat_unat)
  have "unat (of_nat n :: 32 word) = n" using n by (intro unat_of_nat_small) simp
  then show "(of_nat n :: 32 word) \<noteq> 0" using n by auto
  have "unat (tag AND 7) = unat (wire_type_code t)"
  proof -
    have "(7 :: 64 word) = mask 3" by (simp add: mask_eq_exp_minus_1)
    then have "unat (tag AND 7) = take_bit 3 (unat tag)" by (metis take_bit_eq_mask unsigned_take_bit_eq)
    then show ?thesis using wire_code_small [of t] by (simp add: u take_bit_eq_mod)
  qed
  then show "tag AND 7 = ucast (wire_type_code t)" by (simp add: word_unat_eq_iff unat_ucast_32)
  show "(ucast tag :: 32 word) = MakeTag (int n) t"
    by (simp add: tag_def ucast_up_down)
qed

lemma wire_codes_64:
  "(ucast (wire_type_code WIRETYPE_VARINT) :: 64 word) = 0"
  "(ucast (wire_type_code WIRETYPE_FIXED64) :: 64 word) = 1"
  "(ucast (wire_type_code WIRETYPE_LENGTH_DELIMITED) :: 64 word) = 2"
  "(ucast (wire_type_code WIRETYPE_START_GROUP) :: 64 word) = 3"
  "(ucast (wire_type_code WIRETYPE_END_GROUP) :: 64 word) = 4"
  "(ucast (wire_type_code WIRETYPE_FIXED32) :: 64 word) = 5"
  by simp_all

lemma tag_not_Nil [simp]: "tag_bytes n t \<noteq> []"
  by (simp add: tag_bytes_def)

lemma enc_field_not_Nil [simp]: "enc_field f \<noteq> []"
  by (cases f) simp_all

lemma before_field: "a + (length (tag_bytes n t) + m) \<le> e \<Longrightarrow> a < e"
  by (cases "tag_bytes n t") auto

lemma group_tags:
  assumes "number_ok n"
  shows "MakeTag (int n) WIRETYPE_END_GROUP - 1 = MakeTag (int n) WIRETYPE_START_GROUP"
    and "MakeTag (int n) WIRETYPE_END_GROUP AND 7 = 4" and "MakeTag (int n) WIRETYPE_START_GROUP \<noteq> 0"
proof -
  have u: "unat (MakeTag (int n) t) = 8 * n + unat (wire_type_code t)" for t
    using unat_MakeTag [of "int n" t] assms by (simp add: number_ok_def)
  then have e: "MakeTag (int n) t = of_nat (8 * n + unat (wire_type_code t))" for t
    by (metis of_nat_unat ucast_id)
  show "MakeTag (int n) WIRETYPE_END_GROUP - 1 = MakeTag (int n) WIRETYPE_START_GROUP"
    by (simp add: e)
  show "MakeTag (int n) WIRETYPE_START_GROUP \<noteq> 0"
    using u [of WIRETYPE_START_GROUP] by (intro notI) simp
  have "(ucast (MakeTag (int n) WIRETYPE_END_GROUP AND 7) :: 64 word) = ucast (4 :: 32 word)"
    using tag_parts_64(3) [OF assms, of WIRETYPE_END_GROUP] by (simp add: unsigned_and_eq)
  then show "MakeTag (int n) WIRETYPE_END_GROUP AND 7 = 4"
    by (metis unat_ucast_32 word_unat_eq_iff)
qed

section \<open>Fields\<close>

lemma WireFormatParser_end: "\<not> ptr < e \<Longrightarrow> WireFormatParser cc call p fp mem ptr e c = Some (Some ptr, c)"
  by (subst WireFormatParser.simps) simp

lemma WireFormatParser_field:
  assumes "drop a mem = tag_bytes n t @ rest" "a < e"
    and "FieldParser cc call (ucast (MakeTag (int n) t)) p fp mem (int (a + length (tag_bytes n t))) (int e) c = Some ((r, stop), c')"
  shows "WireFormatParser cc call p fp mem (int a) (int e) c =
    (case r of None \<Rightarrow> Some (None, c') | Some q \<Rightarrow> if stop then Some (Some q, c') else WireFormatParser cc call p fp mem q (int e) c')"
  by (subst WireFormatParser.simps) (simp add: Parse32_tag [OF assms(1)] assms(2,3) del: of_nat_add)

lemma FieldParser_varint:
  assumes "number_ok n" "drop a mem = varint (unat v) @ rest"
  shows "FieldParser cc call (ucast (MakeTag (int n) WIRETYPE_VARINT)) p fp mem (int a) e c =
    Some ((Some (int (a + length (varint (unat v)))), False), on_objects (fp_AddVarint fp (of_nat n) v) c)"
  using Parse_at(2) [OF assms(2) length_varint_64]
  by (simp add: FieldParser_def Let_def tag_parts_64 [OF assms(1)] wire_codes_64 del: wire_type_code.simps)

lemma FieldParser_fixed64:
  assumes "number_ok n" "drop a mem = object_bytes v @ rest"
  shows "FieldParser cc call (ucast (MakeTag (int n) WIRETYPE_FIXED64)) p fp mem (int a) e c =
    Some ((Some (int (a + length (object_bytes v))), False), on_objects (fp_AddFixed64 fp (of_nat n) v) c)"
  using UnalignedLoad_at [OF assms(2), of 8]
  by (simp add: FieldParser_def Let_def tag_parts_64 [OF assms(1)] wire_codes_64 length_object_bytes del: wire_type_code.simps)

lemma FieldParser_fixed32:
  assumes "number_ok n" "drop a mem = object_bytes v @ rest"
  shows "FieldParser cc call (ucast (MakeTag (int n) WIRETYPE_FIXED32)) p fp mem (int a) e c =
    Some ((Some (int (a + length (object_bytes v))), False), on_objects (fp_AddFixed32 fp (of_nat n) v) c)"
proof -
  have "UnalignedLoad 4 mem (int a) = Some v" by (rule UnalignedLoad_at [OF assms(2)]) simp_all
  moreover have "(5 :: 64 word) \<noteq> 0 \<and> (5 :: 64 word) \<noteq> 1 \<and> (5 :: 64 word) \<noteq> 2 \<and> (5 :: 64 word) \<noteq> 3 \<and> (5 :: 64 word) \<noteq> 4" by simp
  ultimately show ?thesis
    unfolding FieldParser_def Let_def tag_parts_64 [OF assms(1)] wire_codes_64
    by (simp add: length_object_bytes tag_parts_64(2) [OF assms(1)])
qed

lemma FieldParser_end_group:
  assumes "number_ok n"
  shows "FieldParser cc call (ucast (MakeTag (int n) WIRETYPE_END_GROUP)) p fp mem a e c =
    Some ((Some a, True), (on_objects (fp_EndGroup fp (of_nat n)) c)\<lparr>pc_last_tag_minus_1 := MakeTag (int n) WIRETYPE_START_GROUP\<rparr>)"
  by (simp add: FieldParser_def Let_def EndGroup_def tag_parts_64 [OF assms] group_tags [OF assms] wire_codes_64 del: wire_type_code.simps)

lemma FieldParser_delimited:
  assumes "number_ok n" "size_ok m" "drop a mem = varint m @ rest" "a + length (varint m) + m \<le> e"
  shows "FieldParser cc call (ucast (MakeTag (int n) WIRETYPE_LENGTH_DELIMITED)) p fp mem (int a) (int e) c =
    (let (child, w) = fp_AddLengthDelimited fp (of_nat n) (int m) (pc_objects c); q = a + length (varint m) in do {
       (ok, c) \<leftarrow> ParseExactRange call child mem (int q) (int (q + m)) (c\<lparr>pc_objects := w\<rparr>);
       Some ((if ok then Some (int (q + m)) else None, False), c) })"
  using ReadSize_varint [OF assms(3)] assms(2,4)
  by (simp add: FieldParser_def Let_def size_ok_def tag_parts_64 [OF assms(1)] wire_codes_64 ucast_up_down split: prod.split
      cong: if_cong option.case_cong del: wire_type_code.simps)

lemma FieldParser_group:
  assumes "number_ok n"
  shows "FieldParser cc call (ucast (MakeTag (int n) WIRETYPE_START_GROUP)) p fp mem a e c =
    (let (child, w) = fp_StartGroup fp (of_nat n) (pc_objects c) in do {
       ((ptr, continues, depth), c) \<leftarrow> ParseGroup call (MakeTag (int n) WIRETYPE_START_GROUP) child mem a e (c\<lparr>pc_objects := w\<rparr>);
       case ptr of
         None \<Rightarrow> Some ((None, False), c)
       | Some q \<Rightarrow>
           if continues then do {
             (ok, c) \<leftarrow> StoreGroup cc p child depth (MakeTag (int n) WIRETYPE_START_GROUP) c;
             Some ((if ok then Some q else None, ok), c) }
           else Some ((Some q, False), c) })"
  by (simp add: FieldParser_def Let_def tag_parts_64 [OF assms] wire_codes_64 ucast_up_down split: prod.split
      cong: if_cong option.case_cong del: wire_type_code.simps)

section \<open>Ranges and groups\<close>

lemma ParseExactRange_ok:
  assumes "0 < pc_depth c" "pc_last_tag_minus_1 c = 0" "b \<le> e" "b = e \<Longrightarrow> w = pc_objects c"
    and "b < e \<Longrightarrow> call p mem b e (c\<lparr>pc_depth := pc_depth c - 1, pc_limit := 0\<rparr>) =
      Some (Some e, c\<lparr>pc_depth := pc_depth c - 1, pc_limit := 0, pc_objects := w\<rparr>)"
  shows "ParseExactRange call p mem b e c = Some (True, c\<lparr>pc_objects := w\<rparr>)"
  using assms by (cases "b < e") (simp_all add: ParseExactRange_def Let_def call_parser_def EndedOnTag_def)

lemma ParseExactRange_refused:
  assumes "0 < pc_depth c \<Longrightarrow> b < e \<and> (\<exists>c'. call p mem b e (c\<lparr>pc_depth := pc_depth c - 1, pc_limit := 0\<rparr>) = Some (None, c'))"
  shows "\<exists>c'. ParseExactRange call p mem b e c = Some (False, c')"
  using assms by (auto simp: ParseExactRange_def Let_def call_parser_def)

lemma ParseGroup_ok:
  assumes "0 < pc_depth c" "pc_last_tag_minus_1 c = 0" "b < e" "tag \<noteq> 0"
    and "call p mem b e (c\<lparr>pc_depth := pc_depth c - 1\<rparr>) =
      Some (Some q, c\<lparr>pc_depth := pc_depth c - 1, pc_last_tag_minus_1 := tag, pc_objects := w\<rparr>)"
  shows "ParseGroup call tag p mem b e c = Some ((Some q, False, pc_depth c - 1), c\<lparr>pc_objects := w\<rparr>)"
  using assms by (simp add: ParseGroup_def Let_def call_parser_def EndedOnTag_def)

lemma ParseGroup_refused:
  assumes "0 < pc_depth c \<Longrightarrow> b < e \<and> (\<exists>c'. call p mem b e (c\<lparr>pc_depth := pc_depth c - 1\<rparr>) = Some (None, c'))"
  shows "\<exists>d c'. ParseGroup call tag p mem b e c = Some ((None, False, d), c')"
  using assms by (auto simp: ParseGroup_def Let_def call_parser_def)

section \<open>Whole messages\<close>

text \<open>
  Parsing one field, or a list of fields, goes on behind it with the objects of \<open>feed\<close>, or stops with
  \<open>nullptr\<close> when the field is nested more deeply than the context allows.
\<close>

definition goes_on :: "('p, 'w) parse_cc \<Rightarrow> ('p \<Rightarrow> ('p, 'w) field_parser) \<Rightarrow> ('p \<Rightarrow> (byte list \<Rightarrow> 'w \<Rightarrow> 'w) option) \<Rightarrow> nat \<Rightarrow> 'p \<Rightarrow>
    byte list \<Rightarrow> nat \<Rightarrow> nat \<Rightarrow> nat \<Rightarrow> nat \<Rightarrow> 'w \<Rightarrow> ('p, 'w) parse_context \<Rightarrow> bool" where
  "goes_on cc P lf k p mem a n e d w c \<longleftrightarrow>
     (if int d \<le> pc_depth c
      then WireFormatParser cc (parse_fn cc P lf k) p (P p) mem (int a) (int e) c =
        WireFormatParser cc (parse_fn cc P lf k) p (P p) mem (int (a + n)) (int e) (c\<lparr>pc_objects := w\<rparr>)
      else \<exists>c'. WireFormatParser cc (parse_fn cc P lf k) p (P p) mem (int a) (int e) c = Some (None, c'))"

definition field_parsed :: "('p, 'w) parse_cc \<Rightarrow> ('p \<Rightarrow> ('p, 'w) field_parser) \<Rightarrow> ('p \<Rightarrow> (byte list \<Rightarrow> 'w \<Rightarrow> 'w) option) \<Rightarrow> wire_field \<Rightarrow> bool" where
  "field_parsed cc P lf f \<longleftrightarrow> (\<forall>k p mem a e c w rest. wf_field f \<longrightarrow> drop a mem = enc_field f @ rest \<longrightarrow>
     a + length (enc_field f) \<le> e \<longrightarrow> pc_last_tag_minus_1 c = 0 \<longrightarrow> 0 \<le> pc_depth c \<longrightarrow> nest f \<le> k \<longrightarrow> lf p = None \<longrightarrow>
     feed P lf p f (pc_objects c) = Some w \<longrightarrow> goes_on cc P lf k p mem a (length (enc_field f)) e (nest f) w c)"

lemma drop_append_next: "drop a xs = ys @ zs \<Longrightarrow> drop (a + length ys) xs = zs"
  by (metis add.commute append_eq_conv_conj drop_drop)

lemma fields_parsed:
  assumes "\<forall>f \<in> set fs. field_parsed cc P lf f"
  shows "list_all wf_field fs \<Longrightarrow> drop a mem = enc_fields fs @ rest \<Longrightarrow> a + length (enc_fields fs) \<le> e \<Longrightarrow>
    pc_last_tag_minus_1 c = 0 \<Longrightarrow> 0 \<le> pc_depth c \<Longrightarrow> nest_all fs \<le> k \<Longrightarrow> lf p = None \<Longrightarrow>
    feed_all P lf p fs (pc_objects c) = Some w \<Longrightarrow> goes_on cc P lf k p mem a (length (enc_fields fs)) e (nest_all fs) w c"
  using assms
proof (induction fs arbitrary: a c)
  case Nil
  then show ?case by (cases c) (simp add: goes_on_def)
next
  case (Cons f fs)
  let ?n = "length (enc_field f)"
  obtain v where v: "feed P lf p f (pc_objects c) = Some v" "feed_all P lf p fs v = Some w"
    using Cons.prems(8) by (auto simp: bind_eq_Some_conv)
  have at: "drop a mem = enc_field f @ (enc_fields fs @ rest)" using Cons.prems(2) by simp
  have f: "goes_on cc P lf k p mem a ?n e (nest f) v c"
    using Cons.prems v(1) at unfolding field_parsed_def by (fastforce simp: goes_on_def)
  show ?case
  proof (cases "int (nest f) \<le> pc_depth c")
    case True
    have "goes_on cc P lf k p mem (a + ?n) (length (enc_fields fs)) e (nest_all fs) w (c\<lparr>pc_objects := v\<rparr>)"
      using Cons.prems v(2) drop_append_next [OF at] by (intro Cons.IH) auto
    then show ?thesis using f True by (auto simp: goes_on_def add.assoc split: if_splits)
  next
    case False
    then show ?thesis using f by (auto simp: goes_on_def)
  qed
qed

lemma goes_onI:
  assumes "drop a mem = tag_bytes n t @ rest" "a < e"
    and "if int d \<le> pc_depth c
      then FieldParser cc (parse_fn cc P lf k) (ucast (MakeTag (int n) t)) p (P p) mem (int (a + length (tag_bytes n t))) (int e) c =
        Some ((Some (int (a + m)), False), c\<lparr>pc_objects := w\<rparr>)
      else \<exists>c'. FieldParser cc (parse_fn cc P lf k) (ucast (MakeTag (int n) t)) p (P p) mem (int (a + length (tag_bytes n t))) (int e) c =
        Some ((None, False), c')"
  shows "goes_on cc P lf k p mem a m e d w c"
proof (cases "int d \<le> pc_depth c")
  case True
  then have "FieldParser cc (parse_fn cc P lf k) (ucast (MakeTag (int n) t)) p (P p) mem (int (a + length (tag_bytes n t))) (int e) c =
      Some ((Some (int (a + m)), False), c\<lparr>pc_objects := w\<rparr>)" using assms(3) by simp
  from WireFormatParser_field [OF assms(1,2) this] True show ?thesis by (simp add: goes_on_def)
next
  case False
  then obtain c' where "FieldParser cc (parse_fn cc P lf k) (ucast (MakeTag (int n) t)) p (P p) mem (int (a + length (tag_bytes n t))) (int e) c =
      Some ((None, False), c')" using assms(3) by auto
  from WireFormatParser_field [OF assms(1,2) this] False show ?thesis by (simp add: goes_on_def)
qed

lemma parsed_scalar:
  fixes cc :: "('p, 'w) parse_cc"
  shows "field_parsed cc P lf (Varint_field n v)" and "field_parsed cc P lf (Fixed64_field n v)"
    and "field_parsed cc P lf (Fixed32_field n u)"
proof -
  note simps = on_objects_def add.assoc before_field
  have "goes_on cc P lf k p mem a (length (enc_field f)) e (nest f) w c"
    if "f = Varint_field n v \<or> f = Fixed64_field n v \<or> f = Fixed32_field n u" "number_ok n" "drop a mem = enc_field f @ rest"
      "a + length (enc_field f) \<le> e" "0 \<le> pc_depth c" "feed P lf p f (pc_objects c) = Some w"
    for f k p mem a e w rest and c :: "('p, 'w) parse_context"
    using that(1)
  proof (elim disjE)
    assume f: "f = Varint_field n v"
    then have at: "drop a mem = tag_bytes n WIRETYPE_VARINT @ (varint (unat v) @ rest)" using that(3) by simp
    show ?thesis
      using that(4-) f by (intro goes_onI [OF at]) (auto simp: FieldParser_varint [OF that(2) drop_append_next [OF at]] simps simp del: of_nat_add)
  next
    assume f: "f = Fixed64_field n v"
    then have at: "drop a mem = tag_bytes n WIRETYPE_FIXED64 @ (object_bytes v @ rest)" using that(3) by simp
    show ?thesis
      using that(4-) f by (intro goes_onI [OF at]) (auto simp: FieldParser_fixed64 [OF that(2) drop_append_next [OF at]] simps simp del: of_nat_add)
  next
    assume f: "f = Fixed32_field n u"
    then have at: "drop a mem = tag_bytes n WIRETYPE_FIXED32 @ (object_bytes u @ rest)" using that(3) by simp
    show ?thesis
      using that(4-) f by (intro goes_onI [OF at]) (auto simp: FieldParser_fixed32 [OF that(2) drop_append_next [OF at]] simps simp del: of_nat_add)
  qed
  then show "field_parsed cc P lf (Varint_field n v)" "field_parsed cc P lf (Fixed64_field n v)" "field_parsed cc P lf (Fixed32_field n u)"
    unfolding field_parsed_def by (metis wf_field.simps(1), metis wf_field.simps(2), metis wf_field.simps(3))
qed

text \<open>A length-delimited field whose child parses its range, or refuses it.\<close>

lemma delimited_goes_on:
  fixes c v bs p P lf cc k
  defines "d \<equiv> c\<lparr>pc_objects := v, pc_depth := pc_depth c - 1, pc_limit := 0\<rparr>"
  assumes ok: "number_ok n" "size_ok (length bs)" "pc_last_tag_minus_1 c = 0"
    and at: "drop a mem = tag_bytes n WIRETYPE_LENGTH_DELIMITED @ varint (length bs) @ bs @ rest" "q = a + length (tag_bytes n WIRETYPE_LENGTH_DELIMITED) + length (varint (length bs))"
      "q + length bs \<le> e"
    and child: "fp_AddLengthDelimited (P p) (of_nat n) (int (length bs)) (pc_objects c) = (child, v)" "bs = [] \<Longrightarrow> w = v"
    and accept: "bs \<noteq> [] \<Longrightarrow> int m \<le> pc_depth d \<Longrightarrow> parse_fn cc P lf k child mem (int q) (int (q + length bs)) d = Some (Some (int (q + length bs)), d\<lparr>pc_objects := w\<rparr>)"
    and refuse: "\<not> int m \<le> pc_depth d \<Longrightarrow> 0 \<le> pc_depth d \<Longrightarrow> bs \<noteq> [] \<and> (\<exists>c'. parse_fn cc P lf k child mem (int q) (int (q + length bs)) d = Some (None, c'))"
  shows "goes_on cc P lf k p mem a (length (tag_bytes n WIRETYPE_LENGTH_DELIMITED @ varint (length bs) @ bs)) e (Suc m) w c"
proof -
  let ?range = "ParseExactRange (parse_fn cc P lf k) child mem (int q) (int (q + length bs)) (c\<lparr>pc_objects := v\<rparr>)"
  have fp: "FieldParser cc (parse_fn cc P lf k) (ucast (MakeTag (int n) WIRETYPE_LENGTH_DELIMITED)) p (P p) mem
      (int (a + length (tag_bytes n WIRETYPE_LENGTH_DELIMITED))) (int e) c =
    do { (ok, c) \<leftarrow> ?range; Some ((if ok then Some (int (q + length bs)) else None, False), c) }"
    using at(2,3) by (subst FieldParser_delimited [OF ok(1,2) drop_append_next [OF at(1)]]) (simp_all add: child(1) cong: if_cong)
  have "?range = Some (True, c\<lparr>pc_objects := w\<rparr>)" if "int (Suc m) \<le> pc_depth c"
    using ParseExactRange_ok [of "c\<lparr>pc_objects := v\<rparr>" "int q" "int (q + length bs)" w "parse_fn cc P lf k" child mem]
      that ok(3) accept child(2) by (simp add: d_def)
  moreover have "\<exists>c'. ?range = Some (False, c')" if "\<not> int (Suc m) \<le> pc_depth c"
    using that refuse by (intro ParseExactRange_refused) (auto simp: d_def)
  ultimately show ?thesis
    using at by (intro goes_onI [OF at(1)]) (auto simp: fp add.assoc before_field simp del: of_nat_add of_nat_Suc)
qed

lemma group_goes_on:
  fixes c v p P lf cc k
  defines "d \<equiv> c\<lparr>pc_objects := v, pc_depth := pc_depth c - 1\<rparr>"
  assumes n: "number_ok n" "pc_last_tag_minus_1 c = 0"
    and at: "drop a mem = tag_bytes n WIRETYPE_START_GROUP @ rest" "q = a + length (tag_bytes n WIRETYPE_START_GROUP)" "q < e"
    and child: "fp_StartGroup (P p) (of_nat n) (pc_objects c) = (child, v)"
    and accept: "int m \<le> pc_depth d \<Longrightarrow> parse_fn cc P lf k child mem (int q) (int e) d =
      Some (Some (int (q + l)), d\<lparr>pc_objects := w, pc_last_tag_minus_1 := MakeTag (int n) WIRETYPE_START_GROUP\<rparr>)"
    and refuse: "\<not> int m \<le> pc_depth d \<Longrightarrow> 0 \<le> pc_depth d \<Longrightarrow> \<exists>c'. parse_fn cc P lf k child mem (int q) (int e) d = Some (None, c')"
  shows "goes_on cc P lf k p mem a (length (tag_bytes n WIRETYPE_START_GROUP) + l) e (Suc m) w c"
proof -
  let ?tag = "MakeTag (int n) WIRETYPE_START_GROUP"
  let ?group = "ParseGroup (parse_fn cc P lf k) ?tag child mem (int q) (int e) (c\<lparr>pc_objects := v\<rparr>)"
  note fp = FieldParser_group [OF n(1), of cc "parse_fn cc P lf k" p "P p" mem "int q" "int e" c]
  have "?group = Some ((Some (int (q + l)), False, pc_depth c - 1), c\<lparr>pc_objects := w\<rparr>)" if "int (Suc m) \<le> pc_depth c"
    using ParseGroup_ok [of "c\<lparr>pc_objects := v\<rparr>" "int q" "int e" ?tag "parse_fn cc P lf k" child mem "int (q + l)" w]
      that n(2) at(3) accept group_tags(3) [OF n(1)] by (simp add: d_def)
  moreover have "\<exists>d c'. ?group = Some ((None, False, d), c')" if "\<not> int (Suc m) \<le> pc_depth c"
    using that refuse at(3) by (intro ParseGroup_refused) (auto simp: d_def)
  ultimately show ?thesis
    using at fp child by (intro goes_onI [OF at(1)]) (auto simp: Let_def add.assoc simp del: of_nat_add of_nat_Suc)
qed

text \<open>The parser of a group stops behind the end tag.\<close>

lemma group_end:
  assumes "number_ok n" "drop a mem = tag_bytes n WIRETYPE_END_GROUP @ rest" "a < e"
  shows "WireFormatParser cc call p fp mem (int a) (int e) c = Some (Some (int (a + length (tag_bytes n WIRETYPE_END_GROUP))),
    (on_objects (fp_EndGroup fp (of_nat n)) c)\<lparr>pc_last_tag_minus_1 := MakeTag (int n) WIRETYPE_START_GROUP\<rparr>)"
  using WireFormatParser_field [OF assms(2,3) FieldParser_end_group [OF assms(1)]] by simp

lemma parsed_bytes: 
  fixes cc :: "('p, 'w) parse_cc"
  shows "field_parsed cc P lf (Bytes_field n bs)"
  unfolding field_parsed_def
proof (intro allI impI)
  fix k p mem a e w rest and c :: "('p, 'w) parse_context"
  assume wf: "wf_field (Bytes_field n bs)" and at: "drop a mem = enc_field (Bytes_field n bs) @ rest"
    and e: "a + length (enc_field (Bytes_field n bs)) \<le> e" and c: "pc_last_tag_minus_1 c = 0"
    and k: "nest (Bytes_field n bs) \<le> k" and w: "feed P lf p (Bytes_field n bs) (pc_objects c) = Some w"
  define q where "q = a + length (tag_bytes n WIRETYPE_LENGTH_DELIMITED) + length (varint (length bs))"
  obtain k' where k': "k = Suc k'" using k by (cases k) auto
  obtain child v f where v: "fp_AddLengthDelimited (P p) (of_nat n) (int (length bs)) (pc_objects c) = (child, v)"
      "lf child = Some f" "w = (if bs = [] then v else f bs v)"
    using w by (auto simp: Let_def split: prod.splits option.splits)
  have at1: "drop a mem = tag_bytes n WIRETYPE_LENGTH_DELIMITED @ varint (length bs) @ bs @ rest" using at by simp
  have at3: "drop q mem = bs @ rest" using drop_append_next [OF drop_append_next [OF at1]] by (simp add: q_def)
  have "memcpy_from mem (int q) (length bs) = Some bs" if "bs \<noteq> []"
    using memcpy_from_drop [OF at3] at3 that by (cases "q \<le> length mem") auto
  then have "goes_on cc P lf k p mem a (length (tag_bytes n WIRETYPE_LENGTH_DELIMITED @ varint (length bs) @ bs)) e (Suc 0) w c"
    using wf e c v k' by (intro delimited_goes_on [where P = P and p = p, OF _ _ _ at1 q_def _ v(1)]) (simp_all add: q_def on_objects_def)
  then show "goes_on cc P lf k p mem a (length (enc_field (Bytes_field n bs))) e (nest (Bytes_field n bs)) w c" by simp
qed

lemma parsed_message:
  fixes cc :: "('p, 'w) parse_cc"
  assumes "\<forall>f \<in> set fs. field_parsed cc P lf f"
  shows "field_parsed cc P lf (Message_field n fs)"
  unfolding field_parsed_def
proof (intro allI impI)
  fix k p mem a e w rest and c :: "('p, 'w) parse_context"
  let ?f = "Message_field n fs" and ?bs = "enc_fields fs"
  assume wf: "wf_field ?f" and at: "drop a mem = enc_field ?f @ rest" and e: "a + length (enc_field ?f) \<le> e"
    and c: "pc_last_tag_minus_1 c = 0" and k: "nest ?f \<le> k" and w: "feed P lf p ?f (pc_objects c) = Some w"
  define q where "q = a + length (tag_bytes n WIRETYPE_LENGTH_DELIMITED) + length (varint (length ?bs))"
  obtain k' where k': "k = Suc k'" "nest_all fs \<le> k'" using k by (cases k) auto
  obtain child v where v: "fp_AddLengthDelimited (P p) (of_nat n) (int (length ?bs)) (pc_objects c) = (child, v)"
      "lf child = None" "feed_all P lf child fs v = Some w"
    using w by (auto simp: Let_def split: prod.splits option.splits)
  have at1: "drop a mem = tag_bytes n WIRETYPE_LENGTH_DELIMITED @ varint (length ?bs) @ ?bs @ rest" using at by simp
  have at3: "drop q mem = ?bs @ rest" using drop_append_next [OF drop_append_next [OF at1]] by (simp add: q_def)
  define d where "d = c\<lparr>pc_objects := v, pc_depth := pc_depth c - 1, pc_limit := 0\<rparr>"
  have inner: "goes_on cc P lf k' child mem q (length ?bs) (q + length ?bs) (nest_all fs) w d" if "0 \<le> pc_depth d"
    using that wf c k' v by (intro fields_parsed [OF assms _ at3]) (simp_all add: d_def)
  have "goes_on cc P lf k p mem a (length (tag_bytes n WIRETYPE_LENGTH_DELIMITED @ varint (length ?bs) @ ?bs)) e (Suc (nest_all fs)) w c"
  proof (intro delimited_goes_on [where P = P and p = p, OF _ _ _ at1 q_def _ v(1)], fold d_def)
    show "w = v" if "?bs = []" using that v(3) by (cases fs) simp_all
  qed (use wf e c v k' inner in \<open>auto simp: q_def goes_on_def WireFormatParser_end\<close>)
  then show "goes_on cc P lf k p mem a (length (enc_field ?f)) e (nest ?f) w c" by simp
qed

lemma parsed_group:
  fixes cc :: "('p, 'w) parse_cc"
  assumes "\<forall>f \<in> set fs. field_parsed cc P lf f"
  shows "field_parsed cc P lf (Group_field n fs)"
  unfolding field_parsed_def
proof (intro allI impI)
  fix k p mem a e w rest and c :: "('p, 'w) parse_context"
  let ?f = "Group_field n fs" and ?bs = "enc_fields fs" and ?closing = "tag_bytes n WIRETYPE_END_GROUP"
  assume wf: "wf_field ?f" and at: "drop a mem = enc_field ?f @ rest" and e: "a + length (enc_field ?f) \<le> e"
    and c: "pc_last_tag_minus_1 c = 0" and k: "nest ?f \<le> k" and w: "feed P lf p ?f (pc_objects c) = Some w"
  define q where "q = a + length (tag_bytes n WIRETYPE_START_GROUP)"
  obtain k' where k': "k = Suc k'" "nest_all fs \<le> k'" using k by (cases k) auto
  obtain child v u where v: "fp_StartGroup (P p) (of_nat n) (pc_objects c) = (child, v)"
      "lf child = None" "feed_all P lf child fs v = Some u" "w = fp_EndGroup (P child) (of_nat n) u"
    using w by (auto simp: Let_def split: prod.splits option.splits)
  have at1: "drop a mem = tag_bytes n WIRETYPE_START_GROUP @ (?bs @ ?closing @ rest)" using at by simp
  have at2: "drop q mem = ?bs @ (?closing @ rest)" using drop_append_next [OF at1] by (simp add: q_def)
  have q: "q + length ?bs < e" "q < e" using e before_field [of "q + length ?bs" n WIRETYPE_END_GROUP 0 e] by (simp_all add: q_def)
  define d where "d = c\<lparr>pc_objects := v, pc_depth := pc_depth c - 1\<rparr>"
  have inner: "goes_on cc P lf k' child mem q (length ?bs) e (nest_all fs) u d" if "0 \<le> pc_depth d"
    using that wf c k' v q by (intro fields_parsed [OF assms _ at2]) (simp_all add: d_def)
  have stop: "WireFormatParser cc (parse_fn cc P lf k') child (P child) mem (int (q + length ?bs)) (int e) (d\<lparr>pc_objects := u\<rparr>) =
      Some (Some (int (q + length (?bs @ ?closing))), d\<lparr>pc_objects := w, pc_last_tag_minus_1 := MakeTag (int n) WIRETYPE_START_GROUP\<rparr>)"
    using wf by (subst group_end [OF _ drop_append_next [OF at2] q(1)]) (simp_all add: on_objects_def v(4))
  have "goes_on cc P lf k p mem a (length (tag_bytes n WIRETYPE_START_GROUP) + length (?bs @ ?closing)) e (Suc (nest_all fs)) w c"
    by (intro group_goes_on [where P = P and p = p, OF _ c at1 q_def q(2) v(1)], fold d_def)
      (use wf v(2) k'(1) inner stop in \<open>auto simp: goes_on_def\<close>)
  then show "goes_on cc P lf k p mem a (length (enc_field ?f)) e (nest ?f) w c" by simp
qed

lemma all_fields_parsed: "field_parsed cc P lf f"
  by (induction f) (simp_all add: parsed_scalar parsed_bytes parsed_message parsed_group)

text \<open>A client that logs its calls: field 3 holds bytes, every other length-delimited field a message.\<close>

definition log_parser :: "bool \<Rightarrow> (bool, (nat \<times> nat) list) field_parser" where
  "log_parser p =
     \<lparr>fp_AddVarint = (\<lambda>n v w. w @ [(unat n, unat v)]), fp_AddFixed64 = (\<lambda>n v w. w @ [(unat n, unat v)]),
      fp_AddLengthDelimited = (\<lambda>n m w. (n \<noteq> 3, w @ [(unat n, nat m)])), fp_StartGroup = (\<lambda>n w. (True, w @ [(unat n, 3)])),
      fp_EndGroup = (\<lambda>n w. w @ [(unat n, 4)]), fp_AddFixed32 = (\<lambda>n v w. w @ [(unat n, unat v)])\<rparr>"

definition log_leaf :: "bool \<Rightarrow> (byte list \<Rightarrow> (nat \<times> nat) list \<Rightarrow> (nat \<times> nat) list) option" where
  "log_leaf p = (if p then None else Some (\<lambda>bs w. w @ [(0, length bs)]))"

definition log_cc :: "(bool, (nat \<times> nat) list) parse_cc" where
  "log_cc = \<lparr>cc_ParseRangeWithLimit = (\<lambda>_ _ _ _. None), cc_ParseEndsInSlopRegion = (\<lambda>_ _ _. False), cc_SwitchStack = (\<lambda>c. c)\<rparr>"

section \<open>Properties\<close>

text \<open>
  C20: The generic parser reports a message as it was written, to the recursion limit and no
  further. On the encoding of any list of fields, nested messages and groups included, whose
  sizes \<open>ReadSize\<close> can return, \<open>WireFormatParser\<close> makes exactly the calls of the field parsers that
  the fields stand for, in order, reads nothing behind the encoding, returns its end and leaves
  the context as it was; when the fields are nested more deeply than \<open>depth_\<close> allows, it returns
  \<open>nullptr\<close>.
\<close>

theorem wire_parser_roundtrip:
  assumes "list_all wf_field fs" and "lf p = None" and "nest_all fs \<le> k"
    and "pc_last_tag_minus_1 c = 0" and "0 \<le> pc_depth c"
    and "feed_all P lf p fs (pc_objects c) = Some w"
  shows "if int (nest_all fs) \<le> pc_depth c
    then parse_fn cc P lf (Suc k) p (before @ enc_fields fs) (int (length before)) (int (length before + length (enc_fields fs))) c =
      Some (Some (int (length before + length (enc_fields fs))), c\<lparr>pc_objects := w\<rparr>)
    else \<exists>c'. parse_fn cc P lf (Suc k) p (before @ enc_fields fs) (int (length before)) (int (length before + length (enc_fields fs))) c =
      Some (None, c')"
proof -
  have "goes_on cc P lf k p (before @ enc_fields fs) (length before) (length (enc_fields fs))
      (length before + length (enc_fields fs)) (nest_all fs) w c"
    using assms by (intro fields_parsed [where rest = "[]"]) (simp_all add: all_fields_parsed)
  then show ?thesis using assms(2) by (auto simp: goes_on_def WireFormatParser_end)
qed

theorem wire_parser_roundtrip_witness:
  "let fs = [Varint_field 1 150, Message_field 2 [Bytes_field 3 [65, 66]], Group_field 4 [Fixed32_field 5 7]];
       parse = (\<lambda>limit. parse_fn log_cc log_parser log_leaf 3 True (enc_fields fs) 0 (int (length (enc_fields fs))) (ParseContext limit []))
   in parse 2 = Some (Some (int (length (enc_fields fs))),
        (ParseContext 2 [])\<lparr>pc_objects := [(1, 150), (2, 4), (3, 2), (0, 2), (4, 3), (5, 7), (4, 4)]\<rparr>) \<and>
      (\<exists>c'. parse 1 = Some (None, c'))"
proof -
  let ?fs = "[Varint_field 1 150, Message_field 2 [Bytes_field 3 [65, 66]], Group_field 4 [Fixed32_field 5 7]]"
  have len: "length (enc_field (Bytes_field 3 [65, 66])) = 4"
    by (simp add: tag_bytes_def MakeTag_def)
  have fed: "feed_all log_parser log_leaf True ?fs [] = Some [(1, 150), (2, 4), (3, 2), (0, 2), (4, 3), (5, 7), (4, 4)]"
    by (simp add: log_parser_def log_leaf_def len Let_def del: enc_field.simps)
  have ok: "list_all wf_field ?fs" "nest_all ?fs = 2"
    by (simp_all add: number_ok_def size_ok_def len del: enc_field.simps)
  show ?thesis
    using wire_parser_roundtrip [OF ok(1), of log_leaf True 2 "ParseContext 2 []" log_parser _ log_cc "[]"]
      wire_parser_roundtrip [OF ok(1), of log_leaf True 2 "ParseContext 1 []" log_parser _ log_cc "[]"] ok(2) fed
    by (simp add: ParseContext_def log_leaf_def numeral_3_eq_3 numeral_2_eq_2 Let_def del: enc_field.simps parse_fn.simps feed_all.simps)
qed

end
