(* ===== verification/Eps_Copy.thy ===== *)
theory Eps_Copy
  imports Parse_Context
begin

text \<open>
  \<open>EpsCopyParser\<close> parses a stream that arrives in arbitrary chunks as if it had arrived in one piece.

  A parse is a sequence of steps, each of which reads at most \<open>kSlopBytes\<close> bytes, depends on nothing
  but the bytes it consumes and either goes on, ends the parse (on a 0 or end-group tag) or fails.
  \<open>seam_laws\<close> says that \<open>ParseRangeWithLimit\<close> performs all steps that start before the end of its
  range, that the offset it returns, also on a failure, lies between the start of the array and the
  end of the slop bytes, and that \<open>ParseEndsInSlopRegion\<close> tells whether the parse ends in the slop
  bytes, as \<open>parse_context.h\<close> documents. The reference is the parse of the whole stream, \<open>parse_whole\<close>.
\<close>

section \<open>Parses as sequences of steps\<close>

datatype 'c item = Item nat 'c | Stop nat 'c | Bad

datatype 'c outcome = Passed nat 'c | Stopped nat 'c | Broken

datatype 'c verdict = Accepted 'c | Ended nat 'c | Rejected

function items :: "('c \<Rightarrow> byte list \<Rightarrow> 'c item) \<Rightarrow> byte list \<Rightarrow> nat \<Rightarrow> nat \<Rightarrow> 'c \<Rightarrow> 'c outcome" where
  "items step mem p e c =
     (if p < e then
        (case step c (drop p mem) of
           Item n c' \<Rightarrow> if n = 0 then Broken else items step mem (p + n) e c'
         | Stop n c' \<Rightarrow> Stopped (p + n) c'
         | Bad \<Rightarrow> Broken)
      else Passed p c)"
  by pat_completeness auto
termination items
  by (relation "measure (\<lambda>(_, _, p, e, _). e - p)") auto

declare items.simps [simp del]

definition verdict :: "nat \<Rightarrow> 'c outcome \<Rightarrow> 'c verdict" where
  "verdict n r = (case r of
     Passed q c \<Rightarrow> if q = n then Accepted c else Rejected
   | Stopped q c \<Rightarrow> if q \<le> n then Ended q c else Rejected
   | Broken \<Rightarrow> Rejected)"

definition parse_whole :: "('c \<Rightarrow> byte list \<Rightarrow> 'c item) \<Rightarrow> 'c \<Rightarrow> byte list \<Rightarrow> 'c verdict" where
  "parse_whole step c bs = verdict (length bs) (items step (bs @ replicate 16 0) 0 (length bs) c)"

definition step_laws :: "('c \<Rightarrow> byte list \<Rightarrow> 'c item) \<Rightarrow> bool" where
  "step_laws step \<longleftrightarrow>
     (\<forall>c w. 16 \<le> length w \<longrightarrow> step c w = step c (take 16 w)) \<and>
     (\<forall>c w n c'. 16 \<le> length w \<longrightarrow> step c w = Item n c' \<or> step c w = Stop n c' \<longrightarrow>
        1 \<le> n \<and> n \<le> 16 \<and> (\<forall>w'. 16 \<le> length w' \<longrightarrow> take n w' = take n w \<longrightarrow> step c w' = step c w))"

definition range_result :: "nat \<Rightarrow> 'c outcome \<Rightarrow> ((bool \<times> int) \<times> 'c) option \<Rightarrow> bool" where
  "range_result n r res \<longleftrightarrow> (case r of
     Passed q c \<Rightarrow> res = Some ((True, int q - int n), c)
   | Stopped q c \<Rightarrow> res = Some ((False, int q - int n), c)
   | Broken \<Rightarrow> (\<exists>x c. res = Some ((False, x), c) \<and> - int n \<le> x \<and> x \<le> 16))"

definition seam_laws :: "('p, 'w) parse_cc \<Rightarrow> (('p, 'w) parse_context \<Rightarrow> byte list \<Rightarrow> ('p, 'w) parse_context item) \<Rightarrow> bool" where
  "seam_laws cc step \<longleftrightarrow> step_laws step \<and>
     (\<forall>mem b e c. b < e \<longrightarrow> e < 2 ^ 31 \<longrightarrow> e + 16 \<le> length mem \<longrightarrow>
        range_result e (items step mem b e c) (cc_ParseRangeWithLimit cc mem (int b) (int e) c)) \<and>
     (\<forall>buf n c. length buf = 32 \<longrightarrow> n \<le> 16 \<longrightarrow>
        cc_ParseEndsInSlopRegion cc buf (int n) c \<longleftrightarrow>
          (\<exists>q c'. parse_whole step c (drop n (take 16 buf)) = Ended q c'))"

section \<open>Steps over a window\<close>

lemma step_lawsD:
  assumes "step_laws step" and "16 \<le> length w"
  shows "step c w = step c (take 16 w)"
    and "step c w = Item n c' \<or> step c w = Stop n c' \<Longrightarrow> 1 \<le> n \<and> n \<le> 16"
    and "step c w = Item n c' \<or> step c w = Stop n c' \<Longrightarrow> 16 \<le> length w' \<Longrightarrow> take n w' = take n w \<Longrightarrow> step c w' = step c w"
  using assms unfolding step_laws_def by blast+

lemma items_end: "e \<le> p \<Longrightarrow> items step mem p e c = Passed p c"
  by (subst items.simps) simp

lemma items_step:
  assumes laws: "step_laws step" and p: "p < e" "e + 16 \<le> length mem"
  obtains n c' where "step c (drop p mem) = Item n c'" "1 \<le> n" "n \<le> 16" "items step mem p e c = items step mem (p + n) e c'"
  | n c' where "step c (drop p mem) = Stop n c'" "1 \<le> n" "n \<le> 16" "items step mem p e c = Stopped (p + n) c'"
  | "step c (drop p mem) = Bad" "items step mem p e c = Broken"
proof -
  have len: "16 \<le> length (drop p mem)" using p by simp
  show thesis
  proof (cases "step c (drop p mem)")
    case (Item n c')
    then have "1 \<le> n" "n \<le> 16" using step_lawsD(2) [OF laws len] by blast+
    moreover from this have "items step mem p e c = items step mem (p + n) e c'"
      using p(1) Item by (subst items.simps) simp
    ultimately show thesis using Item that(1) by blast
  next
    case (Stop n c')
    then have "1 \<le> n" "n \<le> 16" using step_lawsD(2) [OF laws len] by blast+
    moreover have "items step mem p e c = Stopped (p + n) c'"
      using p(1) Stop by (subst items.simps) simp
    ultimately show thesis using Stop that(2) by blast
  next
    case Bad
    moreover from this have "items step mem p e c = Broken"
      using p(1) by (subst items.simps) simp
    ultimately show thesis using that(3) by blast
  qed
qed

text \<open>Where a sequence of steps can end.\<close>

definition outcome_within :: "nat \<Rightarrow> nat \<Rightarrow> 'c outcome \<Rightarrow> bool" where
  "outcome_within p e r \<longleftrightarrow> (case r of
     Passed q c \<Rightarrow> p \<le> q \<and> e \<le> q \<and> (p < e \<longrightarrow> q \<le> e + 15)
   | Stopped q c \<Rightarrow> p < q \<and> p < e \<and> q \<le> e + 15
   | Broken \<Rightarrow> True)"

lemma items_within:
  assumes laws: "step_laws step" and len: "e + 16 \<le> length mem"
  shows "outcome_within p e (items step mem p e c)"
proof (induction "e - p" arbitrary: p c rule: less_induct)
  case less
  show ?case
  proof (cases "p < e")
    case False
    then show ?thesis by (simp add: items_end outcome_within_def)
  next
    case p: True
    then show ?thesis
    proof (rule items_step [OF laws _ len])
      fix n c' assume n: "1 \<le> n" "n \<le> 16" "items step mem p e c = items step mem (p + n) e c'"
      have "e - (p + n) < e - p" using p n(1) by simp
      then have "outcome_within (p + n) e (items step mem (p + n) e c')" by (rule less.hyps)
      then show ?thesis using n p by (auto simp: outcome_within_def items_end split: outcome.splits)
    qed (use p in \<open>auto simp: outcome_within_def\<close>)
  qed
qed

text \<open>Two ranges, one after the other.\<close>

lemma items_append:
  assumes laws: "step_laws step" and len: "e2 + 16 \<le> length mem" and "e1 \<le> e2"
  shows "items step mem p e2 c = (case items step mem p e1 c of Passed q c' \<Rightarrow> items step mem q e2 c' | r \<Rightarrow> r)"
proof (induction "e1 - p" arbitrary: p c rule: less_induct)
  case less
  show ?case
  proof (cases "p < e1")
    case False
    then show ?thesis by (simp add: items_end)
  next
    case p: True
    have len1: "e1 + 16 \<le> length mem" using assms by simp
    from p show ?thesis
    proof (rule items_step [OF laws _ len1, where c = c])
      fix n c' assume n: "step c (drop p mem) = Item n c'" "1 \<le> n" "items step mem p e1 c = items step mem (p + n) e1 c'"
      have "items step mem p e2 c = items step mem (p + n) e2 c'"
        using p assms(3) n(1,2) by (subst items.simps) simp
      then show ?thesis using less.hyps [of "p + n" c'] p n by simp
    next
      fix n c' assume "step c (drop p mem) = Stop n c'" "items step mem p e1 c = Stopped (p + n) c'"
      then show ?thesis using p assms(3) by (subst items.simps) simp
    next
      assume "step c (drop p mem) = Bad" "items step mem p e1 c = Broken"
      then show ?thesis using p assms(3) by (subst items.simps) simp
    qed
  qed
qed

text \<open>The same bytes at another place.\<close>

primrec shift :: "nat \<Rightarrow> 'c outcome \<Rightarrow> 'c outcome" where
  "shift k (Passed q c) = Passed (q + k) c"
| "shift k (Stopped q c) = Stopped (q + k) c"
| "shift k Broken = Broken"

lemma items_shift:
  assumes laws: "step_laws step" and len: "e + 16 \<le> length mem" "e + k + 16 \<le> length Z"
    and same: "take (e + 16 - p) (drop (p + k) Z) = take (e + 16 - p) (drop p mem)"
  shows "items step Z (p + k) (e + k) c = shift k (items step mem p e c)"
  using same
proof (induction "e - p" arbitrary: p c rule: less_induct)
  case less
  show ?case
  proof (cases "p < e")
    case False
    then show ?thesis by (simp add: items_end)
  next
    case p: True
    have "take 16 (take (e + 16 - p) (drop (p + k) Z)) = take 16 (take (e + 16 - p) (drop p mem))"
      using less.prems by simp
    moreover have "min 16 (e + 16 - p) = 16" using p by simp
    ultimately have "take 16 (drop (p + k) Z) = take 16 (drop p mem)" by (simp only: take_take)
    moreover have "16 \<le> length (drop (p + k) Z)" "16 \<le> length (drop p mem)" using p len by simp_all
    ultimately have st: "step c (drop (p + k) Z) = step c (drop p mem)"
      using step_lawsD(1) [OF laws] by metis
    from p show ?thesis
    proof (rule items_step [OF laws _ len(1), where c = c])
      fix n c' assume n: "step c (drop p mem) = Item n c'" "1 \<le> n" "items step mem p e c = items step mem (p + n) e c'"
      have "items step Z (p + k) (e + k) c = items step Z (p + n + k) (e + k) c'"
        using p n st by (subst items.simps) (simp add: ac_simps)
      moreover have "take (e + 16 - (p + n)) (drop (p + n + k) Z) = take (e + 16 - (p + n)) (drop (p + n) mem)"
      proof -
        have "drop n (take (e + 16 - p) (drop (p + k) Z)) = drop n (take (e + 16 - p) (drop p mem))"
          using less.prems by simp
        then show ?thesis by (simp add: drop_take ac_simps)
      qed
      ultimately show ?thesis using less.hyps [of "p + n" c'] p n by simp
    next
      fix n c' assume "step c (drop p mem) = Stop n c'" "items step mem p e c = Stopped (p + n) c'"
      then show ?thesis using p st by (subst items.simps) simp
    next
      assume "step c (drop p mem) = Bad" "items step mem p e c = Broken"
      then show ?thesis using p st by (subst items.simps) simp
    qed
  qed
qed

text \<open>What follows the stream does not matter for its verdict.\<close>

lemma verdict_step:
  assumes laws: "step_laws step" and g: "16 \<le> length g" "16 \<le> length g'" and p: "p < length bs"
    and s: "step c (drop p (bs @ g)) = Item n c' \<or> step c (drop p (bs @ g)) = Stop n c'" and n: "p + n \<le> length bs"
  shows "step c (drop p (bs @ g')) = step c (drop p (bs @ g))"
proof (rule step_lawsD(3) [OF laws _ s])
  show "take n (drop p (bs @ g')) = take n (drop p (bs @ g))" using n p by simp
qed (use p g in simp_all)

lemma verdict_padding_half:
  assumes laws: "step_laws step" and g: "16 \<le> length g" "16 \<le> length g'"
    and v: "verdict (length bs) (items step (bs @ g) p (length bs) c) = v" "v \<noteq> Rejected"
  shows "verdict (length bs) (items step (bs @ g') p (length bs) c) = v"
  using v(1)
proof (induction "length bs - p" arbitrary: p c rule: less_induct)
  case less
  have len: "length bs + 16 \<le> length (bs @ g)" "length bs + 16 \<le> length (bs @ g')" using g by simp_all
  show ?case
  proof (cases "p < length bs")
    case False
    then show ?thesis using less.prems by (simp add: items_end)
  next
    case p: True
    from p show ?thesis
    proof (rule items_step [OF laws _ len(1), where c = c])
      fix n c' assume n: "step c (drop p (bs @ g)) = Item n c'" "1 \<le> n"
          "items step (bs @ g) p (length bs) c = items step (bs @ g) (p + n) (length bs) c'"
      have le: "p + n \<le> length bs"
      proof (rule ccontr)
        assume "\<not> p + n \<le> length bs"
        then have "v = Rejected" using less.prems n(3) by (simp add: items_end verdict_def)
        then show False using v(2) by simp
      qed
      then have "step c (drop p (bs @ g')) = Item n c'" using verdict_step [OF laws g p] n(1) by metis
      then have "items step (bs @ g') p (length bs) c = items step (bs @ g') (p + n) (length bs) c'"
        using p n(2) by (subst items.simps) simp
      then show ?thesis using less.hyps [of "p + n" c'] less.prems p n by simp
    next
      fix n c' assume n: "step c (drop p (bs @ g)) = Stop n c'" "items step (bs @ g) p (length bs) c = Stopped (p + n) c'"
      have "p + n \<le> length bs" using less.prems n(2) v(2) by (auto simp: verdict_def split: if_splits)
      then have "step c (drop p (bs @ g')) = Stop n c'" using verdict_step [OF laws g p] n(1) by metis
      then have "items step (bs @ g') p (length bs) c = Stopped (p + n) c'"
        using p by (subst items.simps) simp
      then show ?thesis using less.prems n(2) by simp
    next
      assume "items step (bs @ g) p (length bs) c = Broken"
      then show ?thesis using less.prems v(2) by (simp add: verdict_def)
    qed
  qed
qed

lemma verdict_padding:
  assumes "step_laws step" and "16 \<le> length g" and "16 \<le> length g'"
  shows "verdict (length bs) (items step (bs @ g) p (length bs) c) = verdict (length bs) (items step (bs @ g') p (length bs) c)"
  using verdict_padding_half [OF assms refl] verdict_padding_half [OF assms(1,3,2) refl] by metis

section \<open>The patch buffer\<close>

text \<open>
  The stream is \<open>Z\<close>, preceded by the \<open>kSlopBytes\<close> zeros of the initial buffer. After \<open>T\<close> bytes the buffer
  holds the \<open>kSlopBytes\<close> bytes from position \<open>T\<close> on, and the parse stands at \<open>p\<close>, at most
  \<open>kSlopBytes\<close> further.
\<close>

definition eps_at :: "byte list \<Rightarrow> nat \<Rightarrow> nat \<Rightarrow> ('p, 'w) parse_context \<Rightarrow> ('p, 'w) eps_parser \<Rightarrow> bool" where
  "eps_at Z T p c e \<longleftrightarrow> T \<le> p \<and> p \<le> T + 16 \<and> T + 16 \<le> length Z \<and> eps_overrun e = int p - int T \<and> eps_ctx e = c \<and>
     length (eps_buffer e) = 32 \<and> take 16 (eps_buffer e) = take 16 (drop T Z)"

lemma seam_lawsD:
  assumes "seam_laws cc step"
  shows "step_laws step"
    and "b < e \<Longrightarrow> e < 2 ^ 31 \<Longrightarrow> e + 16 \<le> length mem \<Longrightarrow>
      range_result e (items step mem b e c) (cc_ParseRangeWithLimit cc mem (int b) (int e) c)"
    and "length buf = 32 \<Longrightarrow> n \<le> 16 \<Longrightarrow> cc_ParseEndsInSlopRegion cc buf (int n) c \<longleftrightarrow>
      (\<exists>q c'. parse_whole step c (drop n (take 16 buf)) = Ended q c')"
  using assms unfolding seam_laws_def by blast+

lemma to_int32_id [simp]: "- (2 ^ 31) \<le> n \<Longrightarrow> n < 2 ^ 31 \<Longrightarrow> to_int32 n = n"
  by (simp add: to_int32_def int32_of_def signed_of_int signed_take_bit_int_eq_self)

lemma ctx_ParseRange_ok:
  assumes "seam_laws cc step" and "0 < n" and "n < 2 ^ 31" and "n + 16 \<le> length mem" and "k < 2 ^ 31"
  shows "range_result n (items step mem k n c) (ctx_ParseRange cc mem 0 (int n) (int k) c)"
proof (cases "n \<le> k")
  case True
  then show ?thesis using assms(2,3,5) by (simp add: ctx_ParseRange_def items_end range_result_def)
next
  case False
  then show ?thesis using seam_lawsD(2) [OF assms(1), of k n mem c] assms(2-4) by (simp add: ctx_ParseRange_def)
qed

definition eps_result :: "nat \<Rightarrow> int \<Rightarrow> ('p, 'w) parse_context outcome \<Rightarrow> ('p, 'w) eps_parser \<Rightarrow> (bool \<times> ('p, 'w) eps_parser) option \<Rightarrow> bool" where
  "eps_result n delta r e res \<longleftrightarrow> (case r of
     Passed q c \<Rightarrow> res = Some (True, e\<lparr>eps_overrun := int q - int n, eps_ctx := c\<rparr>)
   | Stopped q c \<Rightarrow> res = Some (False, e\<lparr>eps_overrun := int q - int n + delta, eps_ctx := c\<rparr>)
   | Broken \<Rightarrow> (\<exists>e'. res = Some (False, e')))"

text \<open>The new \<open>overrun_\<close> is an \<open>int\<close>: \<open>delta\<close> is small enough or the range ended before its slop bytes.\<close>

lemma eps_ParseRange_ok:
  assumes "seam_laws cc step" and n: "0 < n" "n < 2 ^ 31" "n + 16 \<le> length mem" and k: "eps_overrun e = int k" "k \<le> 16"
    and delta: "- (2 ^ 31) + int n \<le> delta" "delta < 2 ^ 31"
      "delta + 16 < 2 ^ 31 \<or> (\<exists>q\<le>n. \<exists>c. items step mem k n (eps_ctx e) = Stopped q c)"
  shows "eps_result n delta (items step mem k n (eps_ctx e)) e (eps_ParseRange cc mem 0 (int n) delta e)"
proof -
  have within: "outcome_within k n (items step mem k n (eps_ctx e))"
    using items_within [OF seam_lawsD(1) [OF assms(1)]] n(3) by simp
  show ?thesis
    using ctx_ParseRange_ok [OF assms(1) n, of k "eps_ctx e"] k delta within
    by (cases "items step mem k n (eps_ctx e)")
      (auto simp: eps_ParseRange_def range_result_def eps_result_def outcome_within_def split: if_splits)
qed

text \<open>The window of the stream that the buffer with the start of the next chunk shows.\<close>

lemma buffer_window:
  assumes "length buf = 32" and "take 16 buf = take 16 (drop T Z)" and "n \<le> 16" and "T + 16 + n \<le> length Z"
    and "take n (drop (T + 16) Z) = take n chunk" and "n \<le> length chunk"
  obtains buf' where "arr_copy buf 16 chunk 0 (int n) = Some buf'" "length buf' = 32"
    "take (16 + n) buf' = take (16 + n) (drop T Z)"
proof
  let ?b = "take 16 buf @ take n chunk @ drop (16 + n) buf"
  have n16: "nat (16 + int n) = 16 + n" by simp
  show "arr_copy buf 16 chunk 0 (int n) = Some ?b"
    using assms(1,3,6) by (simp add: arr_copy_def n16)
  show "length ?b = 32" using assms(1,3,6) by simp
  have "take (16 + n) ?b = take 16 buf @ take n chunk"
    using assms(1,3,6) by (simp add: take_add)
  also have "\<dots> = take 16 (drop T Z) @ take n (drop 16 (drop T Z))"
    using assms(2,5) by (simp add: add.commute)
  also have "\<dots> = take (16 + n) (drop T Z)" by (simp only: take_add)
  finally show "take (16 + n) ?b = take (16 + n) (drop T Z)" .
qed

text \<open>The last part of \<open>Parse\<close>, once the buffer holds the new slop bytes.\<close>

definition eps_finish :: "bool \<Rightarrow> ('p, 'w) parse_cc \<Rightarrow> int \<Rightarrow> ('p, 'w) eps_parser \<Rightarrow> (bool \<times> ('p, 'w) eps_parser) option" where
  "eps_finish E cc size' e =
     (if E \<and> cc_ParseEndsInSlopRegion cc (eps_buffer e) (eps_overrun e) (eps_ctx e) then do {
        (res, e) \<leftarrow> eps_ParseRange cc (eps_buffer e) 0 kSlopBytes size' e;
        _ \<leftarrow> GOOGLE_DCHECK (\<not> res);
        Some (False, e) }
      else Some (True, e))"

definition eps_step :: "bool \<Rightarrow> ('p, 'w) parse_cc \<Rightarrow> byte list \<Rightarrow> nat \<Rightarrow> nat \<Rightarrow> ('p, 'w) parse_context outcome \<Rightarrow>
    (bool \<times> ('p, 'w) eps_parser) option \<Rightarrow> bool" where
  "eps_step E cc Z T n r res \<longleftrightarrow> (case r of
     Passed q c \<Rightarrow> \<exists>e. eps_at Z (T + n) q c e \<and> res = eps_finish E cc (int n) e
   | Stopped q c \<Rightarrow> \<exists>e. res = Some (False, e) \<and> eps_overrun e = int q - int (T + 16) \<and> eps_ctx e = c
   | Broken \<Rightarrow> \<exists>e. res = Some (False, e))"

text \<open>The second part of \<open>Parse\<close>: the range itself, in \<open>mem\<close>, which shows the stream from position \<open>k\<close> on.\<close>

definition eps_range :: "bool \<Rightarrow> ('p, 'w) parse_cc \<Rightarrow> byte list \<Rightarrow> int \<Rightarrow> int \<Rightarrow> ('p, 'w) eps_parser \<Rightarrow> (bool \<times> ('p, 'w) eps_parser) option" where
  "eps_range E cc mem end' size' e = do {
     (ok, e) \<leftarrow> eps_ParseRange cc mem 0 end' (size' - kSlopBytes) e;
     if \<not> ok then Some (False, e)
     else do {
       slop \<leftarrow> memcpy_from mem end' 16;
       buf \<leftarrow> memcpy_to (eps_buffer e) 0 slop;
       eps_finish E cc size' (e\<lparr>eps_buffer := buf\<rparr>) } }"

lemma eps_Parse_parts:
  "chunk \<noteq> [] \<Longrightarrow> length chunk < 2 ^ 31 \<Longrightarrow> eps_Parse E cc chunk e =
     (if 16 < length chunk then
        (if eps_overrun e = 16 then eps_range E cc chunk (int (length chunk - 16)) (int (length chunk)) (e\<lparr>eps_overrun := 0\<rparr>)
         else do {
           buf \<leftarrow> arr_copy (eps_buffer e) 16 chunk 0 16;
           (ok, e) \<leftarrow> eps_ParseRange cc buf 0 16 0 (e\<lparr>eps_buffer := buf\<rparr>);
           if \<not> ok then Some (False, e) else eps_range E cc chunk (int (length chunk - 16)) (int (length chunk)) e })
      else do {
        buf \<leftarrow> arr_copy (eps_buffer e) 16 chunk 0 (int (length chunk));
        eps_range E cc buf (int (length chunk)) (int (length chunk)) (e\<lparr>eps_buffer := buf\<rparr>) })"
  by (simp add: eps_Parse_def eps_range_def eps_finish_def Let_def of_nat_diff case_prod_unfold cong: if_cong)

lemma memcpy_to_buffer:
  assumes "length buf = 32" and "length slop = 16"
  shows "memcpy_to buf 0 slop = Some (slop @ drop 16 buf)"
  using memcpy_to_put [of buf 0 slop] assms by (simp add: put_bytes_def)

lemma eps_range_ok:
  assumes laws: "seam_laws cc step" and e: "eps_ctx e = c" "length (eps_buffer e) = 32" "eps_overrun e = int k"
    and m: "0 < m" "m + 16 \<le> length mem" "m + j = T + n" "k \<le> m + 16" and n: "m \<le> n" "n < 2 ^ 31" "k \<le> 16"
    and Z: "T + n + 16 \<le> length Z" "take (m + 16 - k) (drop (k + j) Z) = take (m + 16 - k) (drop k mem)"
      "take 16 (drop (m + j) Z) = take 16 (drop m mem)"
  shows "eps_step E cc Z T n (items step Z (k + j) (T + n) c) (eps_range E cc mem (int m) (int n) e)"
proof -
  note sl = seam_lawsD(1) [OF laws]
  have shift: "items step Z (k + j) (T + n) c = shift j (items step mem k m c)"
    using items_shift [OF sl m(2) _ Z(2)] m(3) Z(1) by simp
  have res: "eps_result m (int n - kSlopBytes) (items step mem k m c) e (eps_ParseRange cc mem 0 (int m) (int n - kSlopBytes) e)"
    using eps_ParseRange_ok [OF laws m(1) _ m(2) e(3) n(3), of "int n - kSlopBytes"] e(1) m(1) n(1,2) by simp
  have within: "outcome_within k m (items step mem k m c)" using items_within [OF sl m(2)] .
  show ?thesis
  proof (cases "items step mem k m c")
    case (Passed q c')
    have q: "k \<le> q" "m \<le> q" "q \<le> m + 16" using within Passed m(4) items_end [of m k step mem c]
      by (auto simp: outcome_within_def not_less split: if_splits)
    let ?slop = "take 16 (drop m mem)"
    have slop: "memcpy_from mem (int m) 16 = Some ?slop" "length ?slop = 16"
      using m(2) by (simp_all add: memcpy_from_def)
    let ?e = "e\<lparr>eps_overrun := int q - int m, eps_ctx := c', eps_buffer := ?slop @ drop 16 (eps_buffer e)\<rparr>"
    have "eps_at Z (T + n) (q + j) c' ?e"
      using q m(3) Z(1,3) slop(2) e(2) by (auto simp: eps_at_def)
    moreover have "eps_range E cc mem (int m) (int n) e = eps_finish E cc (int n) ?e"
      using res Passed slop memcpy_to_buffer [OF e(2) slop(2)] by (simp add: eps_result_def eps_range_def)
    ultimately show ?thesis using shift Passed by (auto simp: eps_step_def)
  next
    case (Stopped q c')
    then have "eps_range E cc mem (int m) (int n) e =
        Some (False, e\<lparr>eps_overrun := int q - int m + (int n - 16), eps_ctx := c'\<rparr>)"
      using res by (simp add: eps_result_def eps_range_def)
    then show ?thesis using shift Stopped m(3) by (auto simp: eps_step_def)
  next
    case Broken
    then show ?thesis using res shift by (auto simp: eps_result_def eps_range_def eps_step_def)
  qed
qed

text \<open>Two byte sequences with a window in common agree on every part of it.\<close>

lemma window_part:
  assumes "take w (drop t Z) = take w b" and "i + i' \<le> w"
  shows "take i (drop (i' + t) Z) = take i (drop i' b)"
proof -
  have "drop i' (take (i + i') (take w (drop t Z))) = drop i' (take (i + i') (take w b))"
    using assms(1) by simp
  then show ?thesis using assms(2) by (simp add: drop_take min_def)
qed

lemma chunk_fits:
  assumes "chunk \<noteq> []" and "take (length chunk) (drop (T + 16) Z) = chunk"
  shows "T + length chunk + 16 \<le> length Z"
proof -
  have "length (take (length chunk) (drop (T + 16) Z)) = length chunk" using assms(2) by simp
  moreover have "0 < length chunk" using assms(1) by simp
  ultimately show ?thesis
    by (cases "T + 16 \<le> length Z") (simp_all add: min_def split: if_splits)
qed

text \<open>The three ways through \<open>Parse\<close>: a chunk that fits the buffer, the body of a larger one, and the buffer before that body.\<close>

lemma eps_Parse_small:
  assumes laws: "seam_laws cc step" and at: "eps_at Z T (k + T) c e" and chunk: "chunk \<noteq> []" "length chunk \<le> 16"
    and Z: "take (length chunk) (drop (T + 16) Z) = chunk"
  shows "eps_step E cc Z T (length chunk) (items step Z (k + T) (T + length chunk) c) (eps_Parse E cc chunk e)"
proof -
  let ?n = "length chunk"
  note len = chunk_fits [OF chunk(1) Z]
  have e: "eps_ctx e = c" "eps_overrun e = int k" "k \<le> 16" "length (eps_buffer e) = 32"
      "take 16 (eps_buffer e) = take 16 (drop T Z)"
    using at by (auto simp: eps_at_def)
  obtain b where b: "arr_copy (eps_buffer e) 16 chunk 0 (int ?n) = Some b" "length b = 32"
      "take (16 + ?n) b = take (16 + ?n) (drop T Z)"
    using buffer_window [OF e(4,5), of ?n chunk] chunk len Z by auto
  note window = window_part [OF b(3) [symmetric]]
  have "eps_step E cc Z T ?n (items step Z (k + T) (T + ?n) c) (eps_range E cc b (int ?n) (int ?n) (e\<lparr>eps_buffer := b\<rparr>))"
    by (rule eps_range_ok [OF laws])
      (use e b(2) chunk len window [of "?n + 16 - k" k] window [of 16 ?n] in \<open>auto simp: ac_simps\<close>)
  then show ?thesis using chunk(2) b(1) eps_Parse_parts [OF chunk(1), of E cc e] by simp
qed

lemma eps_range_chunk:
  assumes laws: "seam_laws cc step" and e: "eps_ctx e = c" "length (eps_buffer e) = 32" "eps_overrun e = int i" "i \<le> 16"
    and big: "16 < length chunk" "length chunk < 2 ^ 31" and Z: "take (length chunk) (drop (T + 16) Z) = chunk"
  shows "eps_step E cc Z T (length chunk) (items step Z (i + (T + 16)) (T + length chunk) c)
    (eps_range E cc chunk (int (length chunk - 16)) (int (length chunk)) e)"
proof -
  let ?n = "length chunk"
  have len: "T + ?n + 16 \<le> length Z" using big by (intro chunk_fits [OF _ Z]) auto
  have part: "take j (drop (j' + (T + 16)) Z) = take j (drop j' chunk)" if "j + j' \<le> ?n" for j j'
    using window_part [of ?n "T + 16" Z chunk j j'] Z that by simp
  show ?thesis
    by (rule eps_range_ok [OF laws e(1-3)])
      (use e(4) big len part [of "?n - 16 + 16 - i" i] part [of 16 "?n - 16"] in \<open>auto simp: ac_simps\<close>)
qed

lemma eps_Parse_patch:
  assumes laws: "seam_laws cc step" and at: "eps_at Z T (k + T) c e" and k: "k < 16" and big: "16 < length chunk" "length chunk < 2 ^ 31"
    and Z: "take (length chunk) (drop (T + 16) Z) = chunk"
  shows "eps_step E cc Z T (length chunk) (items step Z (k + T) (T + length chunk) c) (eps_Parse E cc chunk e)"
proof -
  let ?n = "length chunk"
  note sl = seam_lawsD(1) [OF laws]
  have chunk: "chunk \<noteq> []" using big by auto
  note len = chunk_fits [OF chunk Z]
  have e: "eps_ctx e = c" "eps_overrun e = int k" "length (eps_buffer e) = 32"
      "take 16 (eps_buffer e) = take 16 (drop T Z)"
    using at by (auto simp: eps_at_def)
  obtain b where b: "arr_copy (eps_buffer e) 16 chunk 0 16 = Some b" "length b = 32" "take 32 b = take 32 (drop T Z)"
    using buffer_window [OF e(3,4), of 16 chunk] len big window_part [of ?n "T + 16" Z chunk 16 0] Z by auto
  let ?e = "e\<lparr>eps_buffer := b\<rparr>"
  have shift: "items step Z (k + T) (T + 16) c = shift T (items step b k 16 c)"
    using items_shift [OF sl _ _ window_part [OF b(3) [symmetric], of "16 + 16 - k" k], of c] b(2) len big k
    by (simp add: add.commute)
  have all: "items step Z (k + T) (T + ?n) c =
      (case items step Z (k + T) (T + 16) c of Passed q c' \<Rightarrow> items step Z q (T + ?n) c' | r \<Rightarrow> r)"
    using items_append [OF sl, of "T + ?n" Z "T + 16" "k + T" c] big len by simp
  have res: "eps_result 16 0 (items step b k 16 c) ?e (eps_ParseRange cc b 0 16 0 ?e)"
    using eps_ParseRange_ok [OF laws, of 16 b ?e k 0] b(2) e k by simp
  have code: "eps_Parse E cc chunk e = do { (ok, e) \<leftarrow> eps_ParseRange cc b 0 16 0 ?e;
      if \<not> ok then Some (False, e) else eps_range E cc chunk (int (?n - 16)) (int ?n) e }"
    using eps_Parse_parts [OF chunk big(2), of E cc e] big k e(2) b(1) by simp
  show ?thesis
  proof (cases "items step b k 16 c")
    case (Passed q c')
    have "outcome_within k 16 (items step b k 16 c)" using items_within [OF sl] b(2) by simp
    then have "16 \<le> q" "q \<le> 31" using Passed k by (auto simp: outcome_within_def)
    then obtain i where i: "q = i + 16" "i \<le> 16" using le_Suc_ex [of 16 q] by (auto simp: add.commute)
    have "eps_step E cc Z T ?n (items step Z (i + (T + 16)) (T + ?n) c')
        (eps_range E cc chunk (int (?n - 16)) (int ?n) (?e\<lparr>eps_overrun := int i, eps_ctx := c'\<rparr>))"
      using i(2) b(2) by (intro eps_range_chunk [OF laws _ _ _ _ big Z]) auto
    then show ?thesis using res code all shift Passed i(1) by (simp add: eps_result_def ac_simps)
  qed (use res code all shift in \<open>auto simp: eps_result_def eps_step_def\<close>)
qed

lemma eps_Parse_ok:
  assumes laws: "seam_laws cc step" and at: "eps_at Z T p c e" and chunk: "chunk \<noteq> []" "length chunk < 2 ^ 31"
    and Z: "take (length chunk) (drop (T + 16) Z) = chunk"
  shows "eps_step E cc Z T (length chunk) (items step Z p (T + length chunk) c) (eps_Parse E cc chunk e)"
proof -
  obtain k where k: "p = k + T" "k \<le> 16" "eps_overrun e = int k"
    using at le_Suc_ex [of T p] by (auto simp: eps_at_def add.commute)
  note at' = at [unfolded k(1)]
  consider "length chunk \<le> 16" | "16 < length chunk" "k < 16" | "16 < length chunk" "k = 16"
    using k(2) by linarith
  then show ?thesis
  proof cases
    case 1
    then show ?thesis using eps_Parse_small [OF laws at' chunk(1) _ Z] k(1) by simp
  next
    case 2
    then show ?thesis using eps_Parse_patch [OF laws at' _ _ chunk(2) Z] k(1) by simp
  next
    case 3
    then show ?thesis
      using eps_range_chunk [OF laws _ _ _ _ _ chunk(2) Z, of "e\<lparr>eps_overrun := 0\<rparr>" c 0] at k eps_Parse_parts [OF chunk, of E cc e]
      by (simp add: eps_at_def add.commute)
  qed
qed

section \<open>A stream in chunks\<close>

text \<open>Parsing chunk after chunk, with the number of bytes before the last chunk that was parsed.\<close>

primrec eps_run :: "bool \<Rightarrow> ('p, 'w) parse_cc \<Rightarrow> byte list list \<Rightarrow> nat \<Rightarrow> ('p, 'w) eps_parser \<Rightarrow> ((bool \<times> nat) \<times> ('p, 'w) eps_parser) option" where
  "eps_run E cc [] before e = Some ((True, before), e)"
| "eps_run E cc (chunk # chunks) before e = do {
     (ok, e) \<leftarrow> eps_Parse E cc chunk e;
     if ok then eps_run E cc chunks (before + length chunk) e else Some ((False, before), e) }"

definition eps_parse_all :: "bool \<Rightarrow> ('p, 'w) parse_cc \<Rightarrow> byte list list \<Rightarrow> ('p, 'w) eps_parser \<Rightarrow> (bool \<times> ('p, 'w) eps_parser) option" where
  "eps_parse_all E cc chunks e = do {
     ((ok, _), e) \<leftarrow> eps_run E cc chunks 0 e;
     if ok then eps_Done cc e else Some (False, e) }"

text \<open>What is left of the stream in the buffer.\<close>

definition slop_verdict :: "(('p, 'w) parse_context \<Rightarrow> byte list \<Rightarrow> ('p, 'w) parse_context item) \<Rightarrow> byte list \<Rightarrow> nat \<Rightarrow> nat \<Rightarrow>
    ('p, 'w) parse_context \<Rightarrow> ('p, 'w) parse_context verdict" where
  "slop_verdict step Z T p c = verdict (T + 16) (items step (take (T + 16) Z @ replicate 16 0) p (T + 16) c)"

primrec verdict_shift :: "nat \<Rightarrow> 'c verdict \<Rightarrow> 'c verdict" where
  "verdict_shift k (Accepted c) = Accepted c"
| "verdict_shift k (Ended q c) = Ended (q + k) c"
| "verdict_shift k Rejected = Rejected"

lemma verdict_shift_eq: "verdict (n + k) (shift k r) = verdict_shift k (verdict n r)"
  by (cases r) (auto simp: verdict_def)

lemma verdict_shift_Ended: "(\<exists>q c. verdict_shift k v = Ended q c) \<longleftrightarrow> (\<exists>q c. v = Ended q c)"
  by (cases v) auto

lemma buffer_verdict:
  assumes sl: "step_laws step" and at: "eps_at Z T (k + T) c e" and g: "length g = 16"
  shows "verdict_shift T (verdict 16 (items step (take 16 (eps_buffer e) @ g) k 16 c)) = slop_verdict step Z T (k + T) c"
proof -
  have buf: "length (eps_buffer e) = 32" "take 16 (eps_buffer e) = take 16 (drop T Z)" and len: "T + 16 \<le> length Z" and k: "k \<le> 16"
    using at by (auto simp: eps_at_def)
  let ?Z = "take (T + 16) Z @ g"
  have "take (16 + 16 - k) (drop (k + T) ?Z) = take (16 + 16 - k) (drop k (take 16 (eps_buffer e) @ g))"
    using buf len k g by (simp add: drop_take add.commute)
  then have "items step ?Z (k + T) (16 + T) c = shift T (items step (take 16 (eps_buffer e) @ g) k 16 c)"
    using buf len g by (intro items_shift [OF sl]) auto
  then have "verdict (16 + T) (items step ?Z (k + T) (16 + T) c) = verdict_shift T (verdict 16 (items step (take 16 (eps_buffer e) @ g) k 16 c))"
    by (simp add: verdict_shift_eq)
  moreover have "verdict (16 + T) (items step ?Z (k + T) (16 + T) c) = slop_verdict step Z T (k + T) c"
  proof -
    have "length (take (T + 16) Z) = T + 16" using len by simp
    then show ?thesis
      using verdict_padding [OF sl, of g "replicate 16 0" "take (T + 16) Z" "k + T" c] g
      by (simp add: slop_verdict_def add.commute del: length_take)
  qed
  ultimately show ?thesis by simp
qed

lemma ends_in_slop:
  assumes laws: "seam_laws cc step" and at: "eps_at Z T p c e"
  shows "cc_ParseEndsInSlopRegion cc (eps_buffer e) (eps_overrun e) (eps_ctx e) \<longleftrightarrow> (\<exists>q c'. slop_verdict step Z T p c = Ended q c')"
proof -
  note sl = seam_lawsD(1) [OF laws]
  obtain k where k: "p = k + T" "k \<le> 16" "eps_overrun e = int k"
    using at le_Suc_ex [of T p] by (auto simp: eps_at_def add.commute)
  have buf: "length (eps_buffer e) = 32" and c: "eps_ctx e = c" using at by (auto simp: eps_at_def)
  let ?b = "take 16 (eps_buffer e)"
  have "items step (?b @ replicate 16 0) (0 + k) (16 - k + k) c = shift k (items step (drop k ?b @ replicate 16 0) 0 (16 - k) c)"
    using buf k(2) by (intro items_shift [OF sl]) auto
  then have "verdict (16 - k + k) (items step (?b @ replicate 16 0) (0 + k) (16 - k + k) c) = verdict_shift k (parse_whole step c (drop k ?b))"
    using buf k(2) by (simp only: verdict_shift_eq parse_whole_def) simp
  then have "slop_verdict step Z T p c = verdict_shift T (verdict_shift k (parse_whole step c (drop k ?b)))"
    using buffer_verdict [OF sl, of Z T k c e "replicate 16 0"] at k by simp
  then show ?thesis
    using seam_lawsD(3) [OF laws buf k(2)] k(3) c by (simp add: verdict_shift_Ended)
qed

text \<open>The slop bytes as a prefix of the stream.\<close>

lemma slop_prefix:
  assumes sl: "step_laws step" and len: "T + 16 \<le> m" "m + 16 \<le> length Z" and p: "p \<le> T + 16"
    and ended: "slop_verdict step Z T p c = Ended q c'"
  shows "items step Z p m c = Stopped q c'"
proof -
  let ?bs = "take (T + 16) Z"
  have l: "length ?bs = T + 16" using len by simp
  have "verdict (T + 16) (items step (?bs @ drop (T + 16) Z) p (T + 16) c) = Ended q c'"
    using verdict_padding [OF sl, of "drop (T + 16) Z" "replicate 16 0" ?bs p c] ended len
    by (simp add: slop_verdict_def del: append_take_drop_id)
  then have "items step Z p (T + 16) c = Stopped q c'"
    by (auto simp: verdict_def split: outcome.splits if_splits)
  then show ?thesis using items_append [OF sl len(2,1)] by simp
qed

lemma slop_stop:
  assumes sl: "step_laws step" and len: "T + 16 \<le> m" "m + 16 \<le> length Z" and p: "p \<le> T + 16"
    and stop: "items step Z p m c = Stopped q c'" "q \<le> T + 16"
  shows "slop_verdict step Z T p c = Ended q c'"
proof -
  let ?bs = "take (T + 16) Z"
  have l: "length ?bs = T + 16" using len by simp
  have "items step Z p (T + 16) c = Stopped q c'"
  proof (cases "items step Z p (T + 16) c")
    case (Passed r d)
    then have "items step Z r m d = Stopped q c'" using stop(1) items_append [OF sl len(2,1), of p c] by simp
    moreover have "T + 16 \<le> r" using items_within [OF sl, of "T + 16" Z p c] Passed len by (simp add: outcome_within_def)
    ultimately show ?thesis using items_within [OF sl len(2), of r d] stop(2) by (simp add: outcome_within_def)
  qed (use stop(1) items_append [OF sl len(2,1), of p c] in simp_all)
  then have "verdict (T + 16) (items step (?bs @ drop (T + 16) Z) p (T + 16) c) = Ended q c'"
    using stop(2) by (simp add: verdict_def)
  then show ?thesis
    using verdict_padding [OF sl, of "drop (T + 16) Z" "replicate 16 0" ?bs p c] len
    by (simp add: slop_verdict_def del: append_take_drop_id)
qed

text \<open>The part of \<open>Parse\<close> that finishes a parse ending in the slop bytes.\<close>

lemma eps_finish_ok:
  assumes laws: "seam_laws cc step" and at: "eps_at Z T p c e" and e': "slop_verdict step Z T p c = Ended q c'"
    and n: "0 \<le> n" "n < 2 ^ 31"
  shows "\<exists>e'. eps_finish True cc n e = Some (False, e') \<and> eps_overrun e' = int q - int (T + 16) + n \<and> eps_ctx e' = c'"
proof -
  note sl = seam_lawsD(1) [OF laws]
  obtain k where k: "p = k + T" "k \<le> 16" "eps_overrun e = int k"
    using at le_Suc_ex [of T p] by (auto simp: eps_at_def add.commute)
  have buf: "length (eps_buffer e) = 32" and c: "eps_ctx e = c" using at by (auto simp: eps_at_def)
  have "verdict_shift T (verdict 16 (items step (eps_buffer e) k 16 c)) = Ended q c'"
    using buffer_verdict [OF sl, of Z T k c e "drop 16 (eps_buffer e)"] at k(1) e' buf by simp
  then obtain r where r: "items step (eps_buffer e) k 16 c = Stopped r c'" "q = r + T" "r \<le> 16"
    by (cases "items step (eps_buffer e) k 16 c") (auto simp: verdict_def split: if_splits)
  have "eps_result 16 n (items step (eps_buffer e) k 16 c) e (eps_ParseRange cc (eps_buffer e) 0 16 n e)"
    using eps_ParseRange_ok [OF laws, of 16 "eps_buffer e" e k n] buf k(2,3) c r n by auto
  then show ?thesis
    using r ends_in_slop [OF laws at] e' by (simp add: eps_finish_def eps_result_def)
qed

lemma eps_finish_continue:
  assumes "seam_laws cc step" and "eps_at Z T p c e" and "\<not> E \<or> (\<nexists>q c'. slop_verdict step Z T p c = Ended q c')"
  shows "eps_finish E cc n e = Some (True, e)"
  using assms(3) ends_in_slop [OF assms(1,2)] by (auto simp: eps_finish_def)

text \<open>
  The verdict on the whole stream, \<open>m\<close> being its end: a parse of all chunks and \<open>Done\<close> accept exactly
  when it does, with the same context.
\<close>

lemma eps_Done_ok:
  assumes laws: "seam_laws cc step" and at: "eps_at Z T p c e" and v: "slop_verdict step Z T p c = v"
  shows "case v of Accepted c' \<Rightarrow> \<exists>e'. eps_Done cc e = Some (pc_depth c' = pc_start_depth c', e') \<and> eps_ctx e' = c'
    | _ \<Rightarrow> \<exists>e'. eps_Done cc e = Some (False, e')"
proof -
  note sl = seam_lawsD(1) [OF laws]
  obtain k where k: "p = k + T" "k \<le> 16" "eps_overrun e = int k"
    using at le_Suc_ex [of T p] by (auto simp: eps_at_def add.commute)
  have buf: "length (eps_buffer e) = 32" and c: "eps_ctx e = c" using at by (auto simp: eps_at_def)
  have v': "v = verdict_shift T (verdict 16 (items step (eps_buffer e) k 16 c))"
    using buffer_verdict [OF sl, of Z T k c e "drop 16 (eps_buffer e)"] at k(1) v buf by simp
  have res: "eps_result 16 0 (items step (eps_buffer e) k 16 c) e (eps_ParseRange cc (eps_buffer e) 0 16 0 e)"
    using eps_ParseRange_ok [OF laws, of 16 "eps_buffer e" e k 0] buf k(2,3) c by simp
  show ?thesis
    using res v' by (cases "items step (eps_buffer e) k 16 c")
      (auto simp: eps_result_def eps_Done_def verdict_def ValidEnd_def)
qed

text \<open>The rest of the stream, from a state of the parser on.\<close>

definition eps_agrees :: "('p, 'w) parse_cc \<Rightarrow> ('p, 'w) parse_context verdict \<Rightarrow> ((bool \<times> nat) \<times> ('p, 'w) eps_parser) option \<Rightarrow> bool" where
  "eps_agrees cc v res \<longleftrightarrow> (case v of
     Accepted c \<Rightarrow> \<exists>n e e'. res = Some ((True, n), e) \<and> eps_Done cc e = Some (pc_depth c = pc_start_depth c, e') \<and> eps_ctx e' = c
   | _ \<Rightarrow> \<exists>ok n e e'. res = Some ((ok, n), e) \<and> (ok \<longrightarrow> eps_Done cc e = Some (False, e')))"

text \<open>The stream while chunks are still to come: what has been read, the chunks, and sixteen bytes that stand for what follows.\<close>

definition eps_stream :: "byte list \<Rightarrow> nat \<Rightarrow> byte list list \<Rightarrow> bool" where
  "eps_stream Z T chunks \<longleftrightarrow> list_all (\<lambda>x. x \<noteq> [] \<and> length x < 2 ^ 31) chunks \<and> drop (T + 16) Z = concat chunks @ replicate 16 0 \<and>
     length Z = T + 16 + length (concat chunks) + 16"

lemma eps_stream_Cons:
  assumes "eps_stream Z T (x # xs)"
  shows "x \<noteq> []" and "length x < 2 ^ 31" and "take (length x) (drop (T + 16) Z) = x" and "T + 16 + length (concat (x # xs)) + 16 \<le> length Z"
    and "eps_stream Z (T + length x) xs"
proof -
  have dr: "drop (T + 16) Z = concat (x # xs) @ replicate 16 0" using assms by (simp add: eps_stream_def)
  then have "drop (length x) (drop (T + 16) Z) = concat xs @ replicate 16 0" by simp
  then show "eps_stream Z (T + length x) xs" using assms by (simp add: eps_stream_def ac_simps)
  show "take (length x) (drop (T + 16) Z) = x" using dr by simp
qed (use assms in \<open>simp_all add: eps_stream_def\<close>)

text \<open>One chunk of it: the parse of the rest of the stream continues, or the outcome is decided.\<close>

lemma eps_stream_step:
  assumes laws: "seam_laws cc step" and at: "eps_at Z T p c e" and str: "eps_stream Z T (x # xs)"
  shows "eps_step E cc Z T (length x) (items step Z p (T + length x) c) (eps_Parse E cc x e)"
    and "items step Z p (T + length x + 16 + length (concat xs)) c = (case items step Z p (T + length x) c of
      Passed q c' \<Rightarrow> items step Z q (T + length x + 16 + length (concat xs)) c' | r \<Rightarrow> r)"
proof -
  show "eps_step E cc Z T (length x) (items step Z p (T + length x) c) (eps_Parse E cc x e)"
    by (rule eps_Parse_ok [OF laws at eps_stream_Cons(1-3) [OF str]])
qed (use eps_stream_Cons(4) [OF str] in \<open>auto intro!: items_append [OF seam_lawsD(1) [OF laws]]\<close>)

text \<open>An end found in the slop bytes is the end of the whole stream.\<close>

lemma eps_stream_slop:
  assumes laws: "seam_laws cc step" and at: "eps_at Z T p c e" and str: "eps_stream Z T xs"
    and en: "slop_verdict step Z T p c = Ended q c'"
  shows "items step Z p (T + 16 + length (concat xs)) c = Stopped q c'" and "q \<le> T + 16"
proof -
  show "items step Z p (T + 16 + length (concat xs)) c = Stopped q c'"
    using at str by (intro slop_prefix [OF seam_lawsD(1) [OF laws] _ _ _ en]) (auto simp: eps_at_def eps_stream_def)
  show "q \<le> T + 16" using en by (auto simp: slop_verdict_def verdict_def split: outcome.splits if_splits)
qed

lemma eps_run_accept:
  assumes laws: "seam_laws cc step"
  shows "eps_at Z T p c e \<Longrightarrow> eps_stream Z T chunks \<Longrightarrow>
     v = verdict (T + 16 + length (concat chunks)) (items step Z p (T + 16 + length (concat chunks)) c) \<Longrightarrow>
     eps_agrees cc v (eps_run E cc chunks b e)"
proof (induction chunks arbitrary: T p c e b)
  case Nil
  have "take (T + 16) Z @ replicate 16 0 = Z"
    using Nil.prems(2) append_take_drop_id [of "T + 16" Z] by (simp add: eps_stream_def)
  then have "slop_verdict step Z T p c = v" using Nil.prems(3) by (simp add: slop_verdict_def)
  then show ?case
    using eps_Done_ok [OF laws Nil.prems(1)] by (cases v) (auto simp: eps_agrees_def)
next
  case (Cons x xs)
  let ?T = "T + length x"
  let ?m = "?T + 16 + length (concat xs)"
  note step1 = eps_stream_step(1) [OF laws Cons.prems(1,2), of E]
  note str = eps_stream_Cons(5) [OF Cons.prems(2)]
  note split = eps_stream_step(2) [OF laws Cons.prems(1,2)]
  have v: "v = verdict ?m (items step Z p ?m c)" using Cons.prems(3) by (simp add: ac_simps)
  show ?case
  proof (cases "items step Z p ?T c")
    case (Passed q c')
    then obtain e1 where e1: "eps_at Z ?T q c' e1" "eps_Parse E cc x e = eps_finish E cc (int (length x)) e1"
      using step1 by (auto simp: eps_step_def)
    show ?thesis
    proof (cases "E \<and> (\<exists>r d. slop_verdict step Z ?T q c' = Ended r d)")
      case True
      then obtain r d where r: "slop_verdict step Z ?T q c' = Ended r d" by blast
      have "\<forall>d. v \<noteq> Accepted d"
        using eps_stream_slop(1) [OF laws e1(1) str r] v split Passed by (auto simp: verdict_def split: if_splits)
      moreover obtain e2 where "eps_finish True cc (int (length x)) e1 = Some (False, e2)"
        using eps_finish_ok [OF laws e1(1) r, of "int (length x)"] eps_stream_Cons(2) [OF Cons.prems(2)] by auto
      ultimately show ?thesis using True e1(2) by (cases v) (auto simp: eps_agrees_def)
    next
      case False
      then have "eps_Parse E cc x e = Some (True, e1)"
        using e1(2) eps_finish_continue [OF laws e1(1)] by metis
      then show ?thesis using Cons.IH [OF e1(1) str] v split Passed by simp
    qed
  next
    case (Stopped q c')
    then have "\<forall>d. v \<noteq> Accepted d" using v split by (auto simp: verdict_def split: if_splits)
    then show ?thesis using step1 Stopped by (cases v) (auto simp: eps_step_def eps_agrees_def)
  next
    case Broken
    then have "v = Rejected" using v split by (simp add: verdict_def)
    then show ?thesis using step1 Broken by (auto simp: eps_step_def eps_agrees_def)
  qed
qed

lemma eps_run_stop:
  assumes laws: "seam_laws cc step"
  shows "eps_at Z T p c e \<Longrightarrow> eps_stream Z T chunks \<Longrightarrow>
     items step Z p (T + 16 + length (concat chunks)) c = Stopped q c' \<Longrightarrow> q \<le> T + 16 + length (concat chunks) \<Longrightarrow> T + 16 < q \<Longrightarrow>
     \<exists>n e'. eps_run True cc chunks T e = Some ((False, n), e') \<and> eps_ctx e' = c' \<and>
       eps_overrun e' = int q - int (n + 16) \<and> n + 16 < q"
proof (induction chunks arbitrary: T p c e)
  case Nil
  then show ?case by simp
next
  case (Cons x xs)
  let ?T = "T + length x"
  let ?m = "?T + 16 + length (concat xs)"
  note step1 = eps_stream_step(1) [OF laws Cons.prems(1,2), of True]
  note str = eps_stream_Cons(5) [OF Cons.prems(2)]
  note split = eps_stream_step(2) [OF laws Cons.prems(1,2)]
  have stop: "items step Z p ?m c = Stopped q c'" and q: "q \<le> ?m"
    using Cons.prems(3,4) by (simp_all add: ac_simps)
  show ?case
  proof (cases "items step Z p ?T c")
    case (Passed r d)
    then obtain e1 where e1: "eps_at Z ?T r d e1" "eps_Parse True cc x e = eps_finish True cc (int (length x)) e1"
      using step1 by (auto simp: eps_step_def)
    have st: "items step Z r ?m d = Stopped q c'" using stop split Passed by simp
    show ?thesis
    proof (cases "q \<le> ?T + 16")
      case True
      have "slop_verdict step Z ?T r d = Ended q c'"
        using e1(1) str by (intro slop_stop [OF seam_lawsD(1) [OF laws] _ _ _ st True]) (auto simp: eps_at_def eps_stream_def)
      then obtain e2 where "eps_finish True cc (int (length x)) e1 = Some (False, e2)"
          "eps_overrun e2 = int q - int (?T + 16) + int (length x)" "eps_ctx e2 = c'"
        using eps_finish_ok [OF laws e1(1), of q c' "int (length x)"] eps_stream_Cons(2) [OF Cons.prems(2)] by auto
      then show ?thesis using e1(2) Cons.prems(5) by simp
    next
      case False
      then have "\<nexists>q c'. slop_verdict step Z ?T r d = Ended q c'"
        using eps_stream_slop [OF laws e1(1) str] st by (metis outcome.inject(2))
      then have "eps_Parse True cc x e = Some (True, e1)"
        using e1(2) eps_finish_continue [OF laws e1(1)] by metis
      then show ?thesis using Cons.IH [OF e1(1) str st q] False by simp
    qed
  next
    case (Stopped r d)
    then show ?thesis using step1 Cons.prems(5) stop split by (auto simp: eps_step_def)
  next
    case Broken
    then show ?thesis using stop split by simp
  qed
qed

lemma eps_start:
  fixes c :: "('p, 'w) parse_context" and bs :: "byte list" and step :: "('p, 'w) parse_context \<Rightarrow> byte list \<Rightarrow> ('p, 'w) parse_context item"
  defines "Z \<equiv> replicate 16 0 @ bs @ replicate 16 0"
  shows "eps_at Z 0 16 (StartParse parser c) (EpsCopyParser parser c)" and "drop 16 Z = bs @ replicate 16 0"
    and "length Z = 16 + length bs + 16"
    and "step_laws step \<Longrightarrow> items step Z 16 (16 + length bs) d = shift 16 (items step (bs @ replicate 16 0) 0 (length bs) d)"
proof -
  show "step_laws step \<Longrightarrow> items step Z 16 (16 + length bs) d = shift 16 (items step (bs @ replicate 16 0) 0 (length bs) d)"
    using items_shift [of step "length bs" "bs @ replicate 16 0" 16 Z 0 d] by (simp add: Z_def add.commute)
qed (simp_all add: eps_at_def EpsCopyParser_def Z_def)

section \<open>A parser given by its steps\<close>

text \<open>An implementation of the members of \<open>parse_context.cc\<close> from a step function.\<close>

definition cc_of_step :: "(('p, 'w) parse_context \<Rightarrow> byte list \<Rightarrow> ('p, 'w) parse_context item) \<Rightarrow> ('p, 'w) parse_cc" where
  "cc_of_step step =
     \<lparr>cc_ParseRangeWithLimit = (\<lambda>mem b e c. Some (case items step mem (nat b) (nat e) c of
          Passed q c \<Rightarrow> ((True, int q - e), c) | Stopped q c \<Rightarrow> ((False, int q - e), c) | Broken \<Rightarrow> ((False, 0), c))),
      cc_ParseEndsInSlopRegion = (\<lambda>buf n c. case parse_whole step c (drop (nat n) (take 16 buf)) of Ended _ _ \<Rightarrow> True | _ \<Rightarrow> False),
      cc_SwitchStack = (\<lambda>c. c\<lparr>pc_inlined_depth := - 1\<rparr>)\<rparr>"

lemma seam_laws_of_step: "step_laws step \<Longrightarrow> seam_laws (cc_of_step step) step"
  by (auto simp: seam_laws_def cc_of_step_def range_result_def split: outcome.split verdict.splits)

text \<open>Blocks of up to 15 bytes whose first byte is their length; a zero ends the parse.\<close>

definition block_step :: "('p, nat list) parse_context \<Rightarrow> byte list \<Rightarrow> ('p, nat list) parse_context item" where
  "block_step c w =
     (let n = unat (hd w) in
      if n = 0 then Stop 1 (c\<lparr>pc_last_tag_minus_1 := - 1\<rparr>)
      else if 16 \<le> n then Bad
      else Item n (c\<lparr>pc_objects := pc_objects c @ [n]\<rparr>))"

lemma block_step_laws: "step_laws block_step"
proof -
  have hd: "hd w' = hd w" if "16 \<le> length w" "16 \<le> length w'" "1 \<le> n" "take n w' = take n w" for w w' :: "byte list" and n
    using that by (cases w; cases w'; cases n) auto
  have "hd (take 16 w) = hd w" for w :: "byte list" by (cases w) auto
  then have "block_step c w = block_step c (take 16 w)" for c :: "('p, nat list) parse_context" and w
    by (simp add: block_step_def)
  moreover have "1 \<le> n \<and> n \<le> 16" if "block_step c w = Item n c' \<or> block_step c w = Stop n c'" for c c' :: "('p, nat list) parse_context" and w n
    using that by (auto simp: block_step_def Let_def split: if_splits)
  moreover have "block_step c w' = block_step c w"
    if "16 \<le> length w" "16 \<le> length w'" "1 \<le> n" "take n w' = take n w" for c :: "('p, nat list) parse_context" and w w' n
    using hd [OF that] by (simp add: block_step_def)
  ultimately show ?thesis unfolding step_laws_def by blast
qed

section \<open>Properties\<close>

text \<open>
  C19: Chunks do not matter. Whatever non-empty chunks of less than \<open>2 ^ 31\<close> bytes a stream arrives
  in, \<open>Parse\<close> on each and \<open>Done\<close> at the end accept it exactly when a parse of the concatenated bytes
  accepts it and ends at the top level, with the same final context and objects; no call reads outside the buffer and the chunks,
  fails an assertion or overflows \<open>overrun_\<close>.
\<close>

theorem eps_copy_chunks_agree:
  assumes laws: "seam_laws cc step" and chunks: "list_all (\<lambda>x. x \<noteq> [] \<and> length x < 2 ^ 31) chunks"
  shows "case parse_whole step (StartParse parser c) (concat chunks) of
      Accepted c' \<Rightarrow> \<exists>e. eps_parse_all E cc chunks (EpsCopyParser parser c) = Some (pc_depth c' = pc_start_depth c', e) \<and> eps_ctx e = c'
    | _ \<Rightarrow> \<exists>e. eps_parse_all E cc chunks (EpsCopyParser parser c) = Some (False, e)"
proof -
  let ?bs = "concat chunks" and ?c = "StartParse parser c"
  let ?Z = "replicate 16 0 @ ?bs @ replicate 16 0" and ?v = "verdict_shift 16 (parse_whole step ?c ?bs)"
  note start = eps_start [where bs = ?bs]
  have v: "?v = verdict (0 + 16 + length ?bs) (items step ?Z 16 (0 + 16 + length ?bs) ?c)"
    using start(4) [OF seam_lawsD(1) [OF laws], of ?c]
    by (simp add: parse_whole_def verdict_shift_eq add.commute)
  have "eps_agrees cc ?v (eps_run E cc chunks 0 (EpsCopyParser parser c))"
    using start(2,3) chunks by (intro eps_run_accept [OF laws start(1) _ v]) (simp add: eps_stream_def)
  then show ?thesis
    by (cases "parse_whole step ?c ?bs") (auto simp: eps_agrees_def eps_parse_all_def split: if_splits)
qed

theorem eps_copy_chunks_agree_witness:
  "\<exists>e. eps_parse_all False (cc_of_step block_step) [[2], [7, 3, 9], [9, 1]] (EpsCopyParser () (ParseContext 10 [])) = Some (True, e) \<and>
     pc_objects (eps_ctx e) = [2, 3, 1]"
  using eps_copy_chunks_agree [OF seam_laws_of_step [OF block_step_laws], where chunks = "[[2], [7, 3, 9], [9, 1]]" and parser = "()" and c = "ParseContext 10 []" and E = False]
  by (simp add: parse_whole_def items.simps verdict_def block_step_def StartParse_def ParseContext_def) auto

text \<open>
  C21: A parse that ends on a tag leaves the stream behind that tag without backing up. With
  \<open>ensure_non_negative_skip\<close> and chunks of less than \<open>2 ^ 31\<close> bytes, when the parse of the concatenated
  bytes ends after \<open>q\<close> bytes, \<open>Parse\<close> returns false for one of the chunks and \<open>Skip\<close> is the
  non-negative offset from the start of that chunk to \<open>q\<close>.
\<close>

theorem eps_copy_skip_exact:
  assumes laws: "seam_laws cc step" and chunks: "list_all (\<lambda>x. x \<noteq> [] \<and> length x < 2 ^ 31) chunks"
    and ended: "parse_whole step (StartParse parser c) (concat chunks) = Ended q c'"
  shows "\<exists>n e. eps_run True cc chunks 0 (EpsCopyParser parser c) = Some ((False, n), e) \<and> n \<le> q \<and>
    eps_Skip True e = Some (int (q - n)) \<and> eps_ctx e = c'"
proof -
  let ?bs = "concat chunks" and ?c = "StartParse parser c"
  let ?Z = "replicate 16 0 @ ?bs @ replicate 16 0"
  note start = eps_start [where bs = ?bs]
  have it: "items step (?bs @ replicate 16 0) 0 (length ?bs) ?c = Stopped q c'" "q \<le> length ?bs"
    using ended by (auto simp: parse_whole_def verdict_def split: outcome.splits if_splits)
  have "0 < q" using items_within [OF seam_lawsD(1) [OF laws], of "length ?bs" "?bs @ replicate 16 0" 0 ?c] it
    by (simp add: outcome_within_def)
  moreover have "items step ?Z 16 (0 + 16 + length ?bs) ?c = Stopped (q + 16) c'"
    using start(4) [OF seam_lawsD(1) [OF laws], of ?c] it(1) by simp
  ultimately have "\<exists>n e'. eps_run True cc chunks 0 (EpsCopyParser parser c) = Some ((False, n), e') \<and> eps_ctx e' = c' \<and>
      eps_overrun e' = int (q + 16) - int (n + 16) \<and> n + 16 < q + 16"
    using start(2,3) it(2) chunks by (intro eps_run_stop [OF laws start(1)]) (simp_all add: eps_stream_def)
  then show ?thesis by (auto simp: eps_Skip_def of_nat_diff)
qed

theorem eps_copy_skip_exact_witness:
  "\<exists>n e. eps_run True (cc_of_step block_step) [[2], [7, 0, 9], [9, 1]] 0 (EpsCopyParser () (ParseContext 10 [])) = Some ((False, n), e) \<and>
     n \<le> 3 \<and> eps_Skip True e = Some (int (3 - n)) \<and> pc_objects (eps_ctx e) = [2]"
  using eps_copy_skip_exact [OF seam_laws_of_step [OF block_step_laws], where chunks = "[[2], [7, 0, 9], [9, 1]]" and parser = "()" and c = "ParseContext 10 []" and q = 3]
  by (simp add: parse_whole_def items.simps verdict_def block_step_def StartParse_def ParseContext_def) auto

text \<open>
  C28: A large first chunk is skipped. \<open>ParseRange\<close> compares the number of bytes to skip with the
  size of its range cast to \<open>int\<close>, which is negative between \<open>2 ^ 31\<close> and \<open>2 ^ 32\<close>: a fresh parser
  without \<open>ensure_non_negative_skip\<close> answers that a chunk of more than \<open>2 ^ 31 + 16\<close> and less than
  \<open>2 ^ 32 + 16\<close> bytes was parsed, although the context is the initial one and no byte of the chunk was
  looked at, and keeps an offset of \<open>2 ^ 32\<close> minus the size of the range for the chunks to come.
\<close>

theorem large_chunk_skipped:
  assumes "2 ^ 31 + 16 < length chunk" and "length chunk < 2 ^ 32 + 16"
  shows "eps_Parse False cc chunk (EpsCopyParser parser c) =
    Some (True, \<lparr>eps_overrun = 2 ^ 32 - int (length chunk - 16),
      eps_buffer = drop (length chunk - 16) chunk @ replicate 16 0, eps_ctx = StartParse parser c\<rparr>)"
proof -
  let ?s = "int (length chunk) - 16"
  have "to_int32 ?s = ?s - 2 ^ 32"
    using assms sint_wrap [of ?s] by (simp add: to_int32_def)
  moreover have "to_int32 (- ?s) = 2 ^ 32 - ?s"
  proof -
    have "(word_of_int (- ?s) :: 32 word) = word_of_int (2 ^ 32 - ?s)"
      by (simp add: word_of_int_eq_iff take_bit_eq_mod mod_diff_left_eq)
    then have "to_int32 (- ?s) = to_int32 (2 ^ 32 - ?s)" by (simp only: to_int32_def)
    then show ?thesis using assms by simp
  qed
  moreover have "memcpy_from chunk ?s 16 = Some (drop (length chunk - 16) chunk)"
    using assms by (simp add: memcpy_from_def nat_diff_distrib)
  moreover have "memcpy_to (replicate 32 0) 0 (drop (length chunk - 16) chunk) =
      Some (drop (length chunk - 16) chunk @ replicate 16 (0 :: byte))"
    using memcpy_to_buffer [of "replicate 32 0" "drop (length chunk - 16) chunk"] assms by simp
  moreover have "chunk \<noteq> []" using assms(1) by auto
  ultimately show ?thesis
    using assms by (simp add: eps_Parse_def EpsCopyParser_def eps_ParseRange_def ctx_ParseRange_def of_nat_diff)
qed

theorem large_chunk_skipped_witness:
  "\<exists>e. eps_Parse False (cc_of_step block_step) (replicate (2 ^ 31 + 17) 7) (EpsCopyParser () (ParseContext 10 [])) = Some (True, e) \<and>
     eps_overrun e = 2147483647 \<and> eps_ctx e = StartParse () (ParseContext 10 [])"
proof -
  have n: "2 ^ 31 + 16 < length (replicate (2 ^ 31 + 17) (7 :: byte))" "length (replicate (2 ^ 31 + 17) (7 :: byte)) < 2 ^ 32 + 16"
    by (simp_all only: length_replicate) simp_all
  have "(2 :: int) ^ 32 - int (length (replicate (2 ^ 31 + 17) (7 :: byte)) - 16) = 2147483647"
    by (simp only: length_replicate) simp
  then show ?thesis
    using large_chunk_skipped [OF n, of "cc_of_step block_step" "()" "ParseContext 10 []"] by (simp del: replicate.simps length_replicate)
qed

end
