(* ===== verification/Inner_Map.thy ===== *)
theory Inner_Map
  imports Cpp_Prelude
begin

text \<open>
  \<open>Map::InnerMap\<close> of \<open>google/protobuf/map.h\<close>: a chaining hash table in which a bucket whose list
  has become too long shares one ordered tree with its neighbour.

  The table holds untyped pointers (\<open>entry\<close>). Whether a bucket is a list or a tree is decided
  as in the code, by comparing the pointers of the two buckets of a pair. List nodes and trees
  are objects with addresses; they are reachable through the map only, so their part of the
  heap is kept in its record. A dangling or wrongly typed pointer, a failed debug check and a
  double deletion are \<^term>\<open>None\<close>. A \<open>std::set\<close> of key pointers is the list of the nodes in
  ascending order of their keys, and an iterator into it is the node it points to.
  \<open>size_type\<close> is a natural number, with the reduction modulo \<open>2 ^ 64\<close> written out where a result
  could exceed it. Iterators do not record their map: they are used with the map they come from.

  The theories \<open>Inner_Map_Rep\<close>, \<open>Inner_Map_Resize\<close>, \<open>Inner_Map_Ops\<close>, \<open>Inner_Map_Iter\<close>, \<open>Inner_Map_Erase\<close> and
  \<open>Inner_Map_Clear\<close> show that the table represents a finite map, that every operation is defined on it
  and is the operation on the map, and that iteration visits every element once.
\<close>

unbundle bit_operations_syntax

section \<open>State\<close>

datatype entry = Null_entry | Node_entry nat | Tree_entry nat

record ('k, 'v) map_node =
  n_key :: 'k
  n_value :: "'v option"
  n_next :: "nat option"

record ('k, 'v) inner_map =
  im_hasher :: "'k \<Rightarrow> nat"
  im_num_elements :: nat
  im_num_buckets :: nat
  im_seed :: nat
  im_index_of_first_non_null :: nat
  im_table :: "entry list"
  im_nodes :: "nat \<rightharpoonup> ('k, 'v) map_node"
  im_trees :: "nat \<rightharpoonup> nat list"
  im_fresh :: nat

record map_iterator =
  it_node :: "nat option"
  it_bucket :: nat

definition end_iterator :: map_iterator where
  "end_iterator = \<lparr>it_node = None, it_bucket = 0\<rparr>"

definition kMinTableSize :: nat where [simp]: "kMinTableSize = 8"

definition size_t :: "nat \<Rightarrow> nat" where
  "size_t n = n mod 2 ^ 64"

text \<open>\<open>b & ~1\<close> and \<open>b ^ 1\<close>: the even bucket of the pair, and the other bucket of the pair.\<close>

definition even_bucket :: "nat \<Rightarrow> nat" where
  "even_bucket b = 2 * (b div 2)"

definition partner :: "nat \<Rightarrow> nat" where
  "partner b = b XOR 1"

definition as_node :: "entry \<Rightarrow> nat option" where
  "as_node e = (case e of Node_entry p \<Rightarrow> Some p | _ \<Rightarrow> None)"

definition as_tree :: "entry \<Rightarrow> nat option" where
  "as_tree e = (case e of Tree_entry t \<Rightarrow> Some t | _ \<Rightarrow> None)"

definition as_node_or_null :: "entry \<Rightarrow> nat option option" where
  "as_node_or_null e = (case e of Null_entry \<Rightarrow> Some None | Node_entry p \<Rightarrow> Some (Some p) | Tree_entry _ \<Rightarrow> None)"

section \<open>Ordered sets of nodes\<close>

primrec tree_find :: "(nat \<rightharpoonup> ('k::linorder, 'v) map_node) \<Rightarrow> 'k \<Rightarrow> nat list \<Rightarrow> nat option option" where
  "tree_find N k [] = Some None"
| "tree_find N k (p # ps) = do { n \<leftarrow> N p; if n_key n = k then Some (Some p) else tree_find N k ps }"

primrec tree_insert :: "(nat \<rightharpoonup> ('k::linorder, 'v) map_node) \<Rightarrow> nat \<Rightarrow> nat list \<Rightarrow> (nat \<times> nat list) option" where
  "tree_insert N p [] = Some (p, [p])"
| "tree_insert N p (q # qs) = do {
     a \<leftarrow> N p;
     c \<leftarrow> N q;
     if n_key a < n_key c then Some (p, p # q # qs)
     else if n_key c < n_key a then do { (r, qs) \<leftarrow> tree_insert N p qs; Some (r, q # qs) }
     else Some (q, q # qs) }"

primrec tree_erase_key :: "(nat \<rightharpoonup> ('k::linorder, 'v) map_node) \<Rightarrow> 'k \<Rightarrow> nat list \<Rightarrow> nat list option" where
  "tree_erase_key N k [] = Some []"
| "tree_erase_key N k (p # ps) = do {
     n \<leftarrow> N p;
     if n_key n = k then Some ps else do { ps \<leftarrow> tree_erase_key N k ps; Some (p # ps) } }"

section \<open>Buckets\<close>

definition TableEntryIsEmpty :: "entry list \<Rightarrow> nat \<Rightarrow> bool option" where
  "TableEntryIsEmpty table b = do { e \<leftarrow> arr_get table (int b); Some (e = Null_entry) }"

definition TableEntryIsNonEmptyList :: "entry list \<Rightarrow> nat \<Rightarrow> bool option" where
  "TableEntryIsNonEmptyList table b = do {
     e \<leftarrow> arr_get table (int b);
     if e \<noteq> Null_entry then do { e' \<leftarrow> arr_get table (int (partner b)); Some (e \<noteq> e') } else Some False }"

definition TableEntryIsTree :: "entry list \<Rightarrow> nat \<Rightarrow> bool option" where
  "TableEntryIsTree table b = do {
     empty \<leftarrow> TableEntryIsEmpty table b;
     if \<not> empty then do { l \<leftarrow> TableEntryIsNonEmptyList table b; Some (\<not> l) } else Some False }"

definition TableEntryIsList :: "entry list \<Rightarrow> nat \<Rightarrow> bool option" where
  "TableEntryIsList table b = do { t \<leftarrow> TableEntryIsTree table b; Some (\<not> t) }"

definition BucketNumber :: "('k, 'v) inner_map \<Rightarrow> 'k \<Rightarrow> nat" where
  "BucketNumber m k = size_t (im_hasher m k + im_seed m) AND (im_num_buckets m - 1)"

partial_function (option) find_loop :: "(nat \<rightharpoonup> ('k, 'v) map_node) \<Rightarrow> 'k \<Rightarrow> nat \<Rightarrow> nat option option" where
  "find_loop N k p = do {
     n \<leftarrow> N p;
     if n_key n = k then Some (Some p)
     else case n_next n of None \<Rightarrow> Some None | Some q \<Rightarrow> find_loop N k q }"

definition FindHelper :: "('k::linorder, 'v) inner_map \<Rightarrow> 'k \<Rightarrow> (map_iterator \<times> nat) option" where
  "FindHelper m k = do {
     let b = BucketNumber m k;
     l \<leftarrow> TableEntryIsNonEmptyList (im_table m) b;
     if l then do {
       e \<leftarrow> arr_get (im_table m) (int b);
       node \<leftarrow> as_node e;
       r \<leftarrow> find_loop (im_nodes m) k node;
       case r of Some p \<Rightarrow> Some (\<lparr>it_node = Some p, it_bucket = b\<rparr>, b) | None \<Rightarrow> Some (end_iterator, b) }
     else do {
       t \<leftarrow> TableEntryIsTree (im_table m) b;
       if t then do {
         e \<leftarrow> arr_get (im_table m) (int b);
         e' \<leftarrow> arr_get (im_table m) (int (partner b));
         _ \<leftarrow> GOOGLE_DCHECK (e = e');
         let b = even_bucket b;
         e \<leftarrow> arr_get (im_table m) (int b);
         tree \<leftarrow> as_tree e;
         ps \<leftarrow> im_trees m tree;
         r \<leftarrow> tree_find (im_nodes m) k ps;
         case r of
           Some p \<Rightarrow> do { _ \<leftarrow> GOOGLE_DCHECK (b mod 2 = 0); Some (\<lparr>it_node = Some p, it_bucket = b\<rparr>, b) }
         | None \<Rightarrow> Some (end_iterator, b) }
       else Some (end_iterator, b) } }"

definition im_find :: "('k::linorder, 'v) inner_map \<Rightarrow> 'k \<Rightarrow> map_iterator option" where
  "im_find m k = map_option fst (FindHelper m k)"

definition im_contains :: "('k::linorder, 'v) inner_map \<Rightarrow> 'k \<Rightarrow> bool option" where
  "im_contains m k = do { it \<leftarrow> im_find m k; Some (it_node it \<noteq> it_node end_iterator) }"

definition im_size :: "('k, 'v) inner_map \<Rightarrow> nat" where
  "im_size m = im_num_elements m"

definition im_empty :: "('k, 'v) inner_map \<Rightarrow> bool" where
  "im_empty m \<longleftrightarrow> im_size m = 0"

definition im_max_size :: nat where
  "im_max_size = 2 ^ 60"

section \<open>Creation and destruction of objects\<close>

definition CreateEmptyTable :: "nat \<Rightarrow> entry list option" where
  "CreateEmptyTable n = do {
     _ \<leftarrow> GOOGLE_DCHECK (kMinTableSize \<le> n);
     _ \<leftarrow> GOOGLE_DCHECK (n AND (n - 1) = 0);
     Some (replicate n Null_entry) }"

definition TableSize :: "nat \<Rightarrow> nat" where
  "TableSize n = (if n < kMinTableSize then kMinTableSize else n)"

definition DestroyNode :: "nat \<Rightarrow> ('k, 'v) inner_map \<Rightarrow> ('k, 'v) inner_map option" where
  "DestroyNode p m = do { _ \<leftarrow> im_nodes m p; Some (m\<lparr>im_nodes := (im_nodes m)(p := None)\<rparr>) }"

definition DestroyTree :: "nat \<Rightarrow> ('k, 'v) inner_map \<Rightarrow> ('k, 'v) inner_map option" where
  "DestroyTree t m = do { _ \<leftarrow> im_trees m t; Some (m\<lparr>im_trees := (im_trees m)(t := None)\<rparr>) }"

text \<open>The seed depends on the address of the map and on the clock.\<close>

definition InnerMap :: "nat \<Rightarrow> ('k \<Rightarrow> nat) \<Rightarrow> nat \<Rightarrow> ('k, 'v) inner_map option" where
  "InnerMap n hasher seed = do {
     let n = TableSize n;
     table \<leftarrow> CreateEmptyTable n;
     Some \<lparr>im_hasher = hasher, im_num_elements = 0, im_num_buckets = n, im_seed = seed,
       im_index_of_first_non_null = n, im_table = table, im_nodes = Map.empty, im_trees = Map.empty,
       im_fresh = 0\<rparr> }"

section \<open>Insertion\<close>

definition InsertUniqueInList ::
  "nat \<Rightarrow> nat \<Rightarrow> ('k, 'v) inner_map \<Rightarrow> (map_iterator \<times> ('k, 'v) inner_map) option" where
  "InsertUniqueInList b node m = do {
     e \<leftarrow> arr_get (im_table m) (int b);
     next \<leftarrow> as_node_or_null e;
     n \<leftarrow> im_nodes m node;
     table \<leftarrow> arr_set (im_table m) (int b) (Node_entry node);
     Some (\<lparr>it_node = Some node, it_bucket = b\<rparr>,
       m\<lparr>im_nodes := (im_nodes m)(node \<mapsto> n\<lparr>n_next := next\<rparr>), im_table := table\<rparr>) }"

definition InsertUniqueInTree ::
  "nat \<Rightarrow> nat \<Rightarrow> ('k::linorder, 'v) inner_map \<Rightarrow> (map_iterator \<times> ('k, 'v) inner_map) option" where
  "InsertUniqueInTree b node m = do {
     e \<leftarrow> arr_get (im_table m) (int b);
     e' \<leftarrow> arr_get (im_table m) (int (partner b));
     _ \<leftarrow> GOOGLE_DCHECK (e = e');
     n \<leftarrow> im_nodes m node;
     let m = m\<lparr>im_nodes := (im_nodes m)(node \<mapsto> n\<lparr>n_next := None\<rparr>)\<rparr>;
     tree \<leftarrow> as_tree e;
     ps \<leftarrow> im_trees m tree;
     (r, ps) \<leftarrow> tree_insert (im_nodes m) node ps;
     _ \<leftarrow> GOOGLE_DCHECK (even_bucket b mod 2 = 0);
     Some (\<lparr>it_node = Some r, it_bucket = even_bucket b\<rparr>, m\<lparr>im_trees := (im_trees m)(tree \<mapsto> ps)\<rparr>) }"

partial_function (option) copy_list_loop ::
  "nat \<Rightarrow> nat \<Rightarrow> nat option \<Rightarrow> ('k::linorder, 'v) inner_map \<Rightarrow> (nat \<times> ('k, 'v) inner_map) option" where
  "copy_list_loop tree count node m =
     (case node of
        None \<Rightarrow> Some (count, m)
      | Some p \<Rightarrow> do {
          ps \<leftarrow> im_trees m tree;
          (_, ps) \<leftarrow> tree_insert (im_nodes m) p ps;
          n \<leftarrow> im_nodes m p;
          copy_list_loop tree (count + 1) (n_next n)
            (m\<lparr>im_trees := (im_trees m)(tree \<mapsto> ps), im_nodes := (im_nodes m)(p \<mapsto> n\<lparr>n_next := None\<rparr>)\<rparr>) })"

definition CopyListToTree ::
  "nat \<Rightarrow> nat \<Rightarrow> ('k::linorder, 'v) inner_map \<Rightarrow> (nat \<times> ('k, 'v) inner_map) option" where
  "CopyListToTree b tree m = do {
     e \<leftarrow> arr_get (im_table m) (int b);
     node \<leftarrow> as_node_or_null e;
     copy_list_loop tree 0 node m }"

definition TreeConvert :: "nat \<Rightarrow> ('k::linorder, 'v) inner_map \<Rightarrow> ('k, 'v) inner_map option" where
  "TreeConvert b m = do {
     t \<leftarrow> TableEntryIsTree (im_table m) b;
     t' \<leftarrow> TableEntryIsTree (im_table m) (partner b);
     _ \<leftarrow> GOOGLE_DCHECK (\<not> t \<and> \<not> t');
     let tree = im_fresh m;
     let m = m\<lparr>im_trees := (im_trees m)(tree \<mapsto> []), im_fresh := im_fresh m + 1\<rparr>;
     (count, m) \<leftarrow> CopyListToTree b tree m;
     (count', m) \<leftarrow> CopyListToTree (partner b) tree m;
     ps \<leftarrow> im_trees m tree;
     _ \<leftarrow> GOOGLE_DCHECK (count + count' = length ps);
     table \<leftarrow> arr_set (im_table m) (int (partner b)) (Tree_entry tree);
     table \<leftarrow> arr_set table (int b) (Tree_entry tree);
     Some (m\<lparr>im_table := table\<rparr>) }"

partial_function (option) too_long_loop :: "(nat \<rightharpoonup> ('k, 'v) map_node) \<Rightarrow> nat \<Rightarrow> nat \<Rightarrow> nat option" where
  "too_long_loop N count node = do {
     n \<leftarrow> N node;
     case n_next n of None \<Rightarrow> Some (count + 1) | Some next \<Rightarrow> too_long_loop N (count + 1) next }"

definition TableEntryIsTooLong :: "nat \<Rightarrow> ('k, 'v) inner_map \<Rightarrow> bool option" where
  "TableEntryIsTooLong b m = do {
     e \<leftarrow> arr_get (im_table m) (int b);
     node \<leftarrow> as_node e;
     count \<leftarrow> too_long_loop (im_nodes m) 0 node;
     _ \<leftarrow> GOOGLE_DCHECK (count \<le> 8);
     Some (8 \<le> count) }"

definition first_non_null_check :: "('k, 'v) inner_map \<Rightarrow> unit option" where
  "first_non_null_check m =
     (if im_index_of_first_non_null m = im_num_buckets m then Some ()
      else do {
        e \<leftarrow> arr_get (im_table m) (int (im_index_of_first_non_null m));
        GOOGLE_DCHECK (e \<noteq> Null_entry) })"

definition InsertUnique ::
  "nat \<Rightarrow> nat \<Rightarrow> ('k::linorder, 'v) inner_map \<Rightarrow> (map_iterator \<times> ('k, 'v) inner_map) option" where
  "InsertUnique b node m = do {
     _ \<leftarrow> first_non_null_check m;
     n \<leftarrow> im_nodes m node;
     found \<leftarrow> im_find m (n_key n);
     _ \<leftarrow> GOOGLE_DCHECK (it_node found = it_node end_iterator);
     let lower = (\<lambda>(result, m). (result,
           m\<lparr>im_index_of_first_non_null := min (im_index_of_first_non_null m) (it_bucket result)\<rparr>));
     empty \<leftarrow> TableEntryIsEmpty (im_table m) b;
     if empty then map_option lower (InsertUniqueInList b node m)
     else do {
       l \<leftarrow> TableEntryIsNonEmptyList (im_table m) b;
       if l then do {
         long \<leftarrow> TableEntryIsTooLong b m;
         if long then do {
           m \<leftarrow> TreeConvert b m;
           (result, m) \<leftarrow> InsertUniqueInTree b node m;
           _ \<leftarrow> GOOGLE_DCHECK (it_bucket result = even_bucket b);
           Some (lower (result, m)) }
         else InsertUniqueInList b node m }
       else InsertUniqueInTree b node m } }"

section \<open>Resizing\<close>

partial_function (option) transfer_list_loop ::
  "nat \<Rightarrow> ('k::linorder, 'v) inner_map \<Rightarrow> ('k, 'v) inner_map option" where
  "transfer_list_loop node m = do {
     n \<leftarrow> im_nodes m node;
     (_, m) \<leftarrow> InsertUnique (BucketNumber m (n_key n)) node m;
     case n_next n of None \<Rightarrow> Some m | Some next \<Rightarrow> transfer_list_loop next m }"

definition TransferList ::
  "entry list \<Rightarrow> nat \<Rightarrow> ('k::linorder, 'v) inner_map \<Rightarrow> ('k, 'v) inner_map option" where
  "TransferList table index m = do {
     e \<leftarrow> arr_get table (int index);
     node \<leftarrow> as_node e;
     transfer_list_loop node m }"

primrec transfer_tree_loop :: "nat list \<Rightarrow> ('k::linorder, 'v) inner_map \<Rightarrow> ('k, 'v) inner_map option" where
  "transfer_tree_loop [] m = Some m"
| "transfer_tree_loop (p # ps) m = do {
     n \<leftarrow> im_nodes m p;
     (_, m) \<leftarrow> InsertUnique (BucketNumber m (n_key n)) p m;
     transfer_tree_loop ps m }"

definition TransferTree ::
  "entry list \<Rightarrow> nat \<Rightarrow> ('k::linorder, 'v) inner_map \<Rightarrow> ('k, 'v) inner_map option" where
  "TransferTree table index m = do {
     e \<leftarrow> arr_get table (int index);
     tree \<leftarrow> as_tree e;
     ps \<leftarrow> im_trees m tree;
     m \<leftarrow> (if ps = [] then None else transfer_tree_loop ps m);
     DestroyTree tree m }"

function resize_loop ::
  "entry list \<Rightarrow> nat \<Rightarrow> nat \<Rightarrow> ('k::linorder, 'v) inner_map \<Rightarrow> ('k, 'v) inner_map option" where
  "resize_loop old_table old_table_size i m =
     (if i < old_table_size then do {
        l \<leftarrow> TableEntryIsNonEmptyList old_table i;
        if l then do { m \<leftarrow> TransferList old_table i m; resize_loop old_table old_table_size (i + 1) m }
        else do {
          t \<leftarrow> TableEntryIsTree old_table i;
          if t then do { m \<leftarrow> TransferTree old_table i m; resize_loop old_table old_table_size (i + 1 + 1) m }
          else resize_loop old_table old_table_size (i + 1) m } }
      else Some m)"
  by pat_completeness auto
termination resize_loop
  by (relation "measure (\<lambda>(_, old_table_size, i, _). old_table_size - i)") auto
declare resize_loop.simps [simp del]

definition Resize :: "nat \<Rightarrow> ('k::linorder, 'v) inner_map \<Rightarrow> ('k, 'v) inner_map option" where
  "Resize new_num_buckets m = do {
     _ \<leftarrow> GOOGLE_DCHECK (kMinTableSize \<le> new_num_buckets);
     let old_table = im_table m;
     let old_table_size = im_num_buckets m;
     table \<leftarrow> CreateEmptyTable new_num_buckets;
     let start = im_index_of_first_non_null m;
     resize_loop old_table old_table_size start
       (m\<lparr>im_num_buckets := new_num_buckets, im_table := table, im_index_of_first_non_null := new_num_buckets\<rparr>) }"

function shrink_loop :: "nat \<Rightarrow> nat \<Rightarrow> nat \<Rightarrow> nat option" where
  "shrink_loop hypothetical_size hi_cutoff lg2 =
     (if 64 \<le> lg2 then None
      else if size_t (push_bit lg2 hypothetical_size) < hi_cutoff
      then shrink_loop hypothetical_size hi_cutoff (lg2 + 1)
      else Some lg2)"
  by pat_completeness auto
termination shrink_loop
  by (relation "measure (\<lambda>(_, _, lg2). 64 - lg2)") auto
declare shrink_loop.simps [simp del]

definition ResizeIfLoadIsOutOfRange ::
  "nat \<Rightarrow> ('k::linorder, 'v) inner_map \<Rightarrow> (bool \<times> ('k, 'v) inner_map) option" where
  "ResizeIfLoadIsOutOfRange new_size m = do {
     let hi_cutoff = size_t (im_num_buckets m * 12) div 16;
     let lo_cutoff = hi_cutoff div 4;
     if hi_cutoff \<le> new_size then
       (if im_num_buckets m \<le> im_max_size div 2
        then do { m \<leftarrow> Resize (size_t (im_num_buckets m * 2)) m; Some (True, m) }
        else Some (False, m))
     else if new_size \<le> lo_cutoff \<and> kMinTableSize < im_num_buckets m then do {
       let hypothetical_size = size_t (size_t (new_size * 5) div 4 + 1);
       lg2 \<leftarrow> shrink_loop hypothetical_size hi_cutoff 1;
       let new_num_buckets = max kMinTableSize (drop_bit lg2 (im_num_buckets m));
       if new_num_buckets \<noteq> im_num_buckets m
       then do { m \<leftarrow> Resize new_num_buckets m; Some (True, m) }
       else Some (False, m) }
     else Some (False, m) }"

text \<open>
  The two overloads of \<open>insert\<close>: of a key with a value, and of a key whose value is left
  uninitialised (\<^term>\<open>None\<close>).
\<close>

definition im_insert_value ::
  "'k \<Rightarrow> 'v option \<Rightarrow> ('k::linorder, 'v) inner_map \<Rightarrow> ((map_iterator \<times> bool) \<times> ('k, 'v) inner_map) option" where
  "im_insert_value k v m = do {
     p \<leftarrow> FindHelper m k;
     if it_node (fst p) \<noteq> None then Some ((fst p, False), m)
     else do {
       (resized, m) \<leftarrow> ResizeIfLoadIsOutOfRange (im_num_elements m + 1) m;
       p \<leftarrow> (if resized then FindHelper m k else Some p);
       let b = snd p;
       let node = im_fresh m;
       let m = m\<lparr>im_nodes := (im_nodes m)(node \<mapsto> \<lparr>n_key = k, n_value = v, n_next = None\<rparr>), im_fresh := im_fresh m + 1\<rparr>;
       (result, m) \<leftarrow> InsertUnique b node m;
       Some ((result, True), m\<lparr>im_num_elements := im_num_elements m + 1\<rparr>) } }"

definition im_insert ::
  "'k \<Rightarrow> 'v \<Rightarrow> ('k::linorder, 'v) inner_map \<Rightarrow> ((map_iterator \<times> bool) \<times> ('k, 'v) inner_map) option" where
  "im_insert k v m = im_insert_value k (Some v) m"

definition im_insert_key ::
  "'k \<Rightarrow> ('k::linorder, 'v) inner_map \<Rightarrow> ((map_iterator \<times> bool) \<times> ('k, 'v) inner_map) option" where
  "im_insert_key k m = im_insert_value k None m"

text \<open>\<open>operator[]\<close> returns the node whose value it refers to.\<close>

definition im_subscript :: "'v \<Rightarrow> 'k \<Rightarrow> ('k::linorder, 'v) inner_map \<Rightarrow> (nat \<times> ('k, 'v) inner_map) option" where
  "im_subscript null k m = do {
     ((it, _), m) \<leftarrow> im_insert k null m;
     p \<leftarrow> it_node it;
     Some (p, m) }"

section \<open>Iteration\<close>

function search_loop :: "('k, 'v) inner_map \<Rightarrow> nat \<Rightarrow> map_iterator option" where
  "search_loop m i =
     (if i < im_num_buckets m then do {
        l \<leftarrow> TableEntryIsNonEmptyList (im_table m) i;
        if l then do {
          e \<leftarrow> arr_get (im_table m) (int i);
          node \<leftarrow> as_node e;
          Some \<lparr>it_node = Some node, it_bucket = i\<rparr> }
        else do {
          t \<leftarrow> TableEntryIsTree (im_table m) i;
          if t then do {
            e \<leftarrow> arr_get (im_table m) (int i);
            tree \<leftarrow> as_tree e;
            ps \<leftarrow> im_trees m tree;
            _ \<leftarrow> GOOGLE_DCHECK (ps \<noteq> []);
            Some \<lparr>it_node = Some (hd ps), it_bucket = i\<rparr> }
          else search_loop m (i + 1) } }
      else Some \<lparr>it_node = None, it_bucket = i\<rparr>)"
  by pat_completeness auto
termination search_loop
  by (relation "measure (\<lambda>(m, i). im_num_buckets m - i)") auto
declare search_loop.simps [simp del]

definition SearchFrom :: "nat \<Rightarrow> ('k, 'v) inner_map \<Rightarrow> map_iterator option" where
  "SearchFrom start_bucket m = do { _ \<leftarrow> first_non_null_check m; search_loop m start_bucket }"

definition im_begin :: "('k, 'v) inner_map \<Rightarrow> map_iterator option" where
  "im_begin m = SearchFrom (im_index_of_first_non_null m) m"

partial_function (option) list_member_loop :: "(nat \<rightharpoonup> ('k, 'v) map_node) \<Rightarrow> nat \<Rightarrow> nat \<Rightarrow> bool option" where
  "list_member_loop N node l = do {
     n \<leftarrow> N l;
     case n_next n of None \<Rightarrow> Some False | Some l \<Rightarrow> if l = node then Some True else list_member_loop N node l }"

text \<open>The result tells whether the node is in a list; otherwise the node is its own position in the tree.\<close>

definition revalidate_if_necessary ::
  "map_iterator \<Rightarrow> ('k::linorder, 'v) inner_map \<Rightarrow> (bool \<times> map_iterator) option" where
  "revalidate_if_necessary it m = do {
     node \<leftarrow> it_node it;
     let b = it_bucket it AND (im_num_buckets m - 1);
     e \<leftarrow> arr_get (im_table m) (int b);
     if e = Node_entry node then Some (True, it\<lparr>it_bucket := b\<rparr>)
     else do {
       l \<leftarrow> TableEntryIsNonEmptyList (im_table m) b;
       here \<leftarrow> (if l then do { p \<leftarrow> as_node e; list_member_loop (im_nodes m) node p } else Some False);
       if here then Some (True, it\<lparr>it_bucket := b\<rparr>)
       else do {
         n \<leftarrow> im_nodes m node;
         i \<leftarrow> im_find m (n_key n);
         l \<leftarrow> TableEntryIsList (im_table m) (it_bucket i);
         Some (l, it\<lparr>it_bucket := it_bucket i\<rparr>) } } }"

text \<open>The successor of an element in a tree, \<^term>\<open>None\<close> at its end.\<close>

primrec tree_next :: "nat \<Rightarrow> nat list \<Rightarrow> nat option option" where
  "tree_next p [] = None"
| "tree_next p (q # qs) =
     (if q = p then Some (case qs of [] \<Rightarrow> None | r # _ \<Rightarrow> Some r) else tree_next p qs)"

definition im_increment :: "map_iterator \<Rightarrow> ('k::linorder, 'v) inner_map \<Rightarrow> map_iterator option" where
  "im_increment it m = do {
     node \<leftarrow> it_node it;
     n \<leftarrow> im_nodes m node;
     case n_next n of
       Some next \<Rightarrow> Some (it\<lparr>it_node := Some next\<rparr>)
     | None \<Rightarrow> do {
         (is_list, it) \<leftarrow> revalidate_if_necessary it m;
         if is_list then SearchFrom (it_bucket it + 1) m
         else do {
           _ \<leftarrow> GOOGLE_DCHECK (it_bucket it AND 1 = 0);
           e \<leftarrow> arr_get (im_table m) (int (it_bucket it));
           tree \<leftarrow> as_tree e;
           ps \<leftarrow> im_trees m tree;
           r \<leftarrow> tree_next node ps;
           case r of
             None \<Rightarrow> SearchFrom (it_bucket it + 2) m
           | Some p \<Rightarrow> Some (it\<lparr>it_node := Some p\<rparr>) } } }"

section \<open>Removal\<close>

partial_function (option) EraseFromLinkedList ::
  "nat \<Rightarrow> nat \<Rightarrow> ('k, 'v) inner_map \<Rightarrow> (nat option \<times> ('k, 'v) inner_map) option" where
  "EraseFromLinkedList item head m = do {
     n \<leftarrow> im_nodes m head;
     if head = item then Some (n_next n, m)
     else do {
       rest \<leftarrow> n_next n;
       (r, m) \<leftarrow> EraseFromLinkedList item rest m;
       n \<leftarrow> im_nodes m head;
       Some (Some head, m\<lparr>im_nodes := (im_nodes m)(head \<mapsto> n\<lparr>n_next := r\<rparr>)\<rparr>) } }"

function first_non_null_loop :: "entry list \<Rightarrow> nat \<Rightarrow> nat \<Rightarrow> nat option" where
  "first_non_null_loop table num_buckets i =
     (if i < num_buckets then do {
        e \<leftarrow> arr_get table (int i);
        if e = Null_entry then first_non_null_loop table num_buckets (i + 1) else Some i }
      else Some i)"
  by pat_completeness auto
termination first_non_null_loop
  by (relation "measure (\<lambda>(_, n, i). n - i)") auto
declare first_non_null_loop.simps [simp del]

definition entry_of_node :: "nat option \<Rightarrow> entry" where
  "entry_of_node p = (case p of None \<Rightarrow> Null_entry | Some p \<Rightarrow> Node_entry p)"

text \<open>The three parts of \<open>erase\<close>: taking the node out of its list or tree, and the rest.\<close>

definition erase_from_list :: "nat \<Rightarrow> nat \<Rightarrow> ('k, 'v) inner_map \<Rightarrow> (nat \<times> ('k, 'v) inner_map) option" where
  "erase_from_list b item m = do {
     l \<leftarrow> TableEntryIsNonEmptyList (im_table m) b;
     _ \<leftarrow> GOOGLE_DCHECK l;
     e \<leftarrow> arr_get (im_table m) (int b);
     head \<leftarrow> as_node e;
     (head, m) \<leftarrow> EraseFromLinkedList item head m;
     table \<leftarrow> arr_set (im_table m) (int b) (entry_of_node head);
     Some (b, m\<lparr>im_table := table\<rparr>) }"

definition erase_from_tree :: "nat \<Rightarrow> nat \<Rightarrow> ('k::linorder, 'v) inner_map \<Rightarrow> (nat \<times> ('k, 'v) inner_map) option" where
  "erase_from_tree b item m = do {
     t \<leftarrow> TableEntryIsTree (im_table m) b;
     _ \<leftarrow> GOOGLE_DCHECK t;
     e \<leftarrow> arr_get (im_table m) (int b);
     tree \<leftarrow> as_tree e;
     ps \<leftarrow> im_trees m tree;
     n \<leftarrow> im_nodes m item;
     ps \<leftarrow> tree_erase_key (im_nodes m) (n_key n) ps;
     let m = m\<lparr>im_trees := (im_trees m)(tree \<mapsto> ps)\<rparr>;
     if ps = [] then do {
       let b = even_bucket b;
       m \<leftarrow> DestroyTree tree m;
       table \<leftarrow> arr_set (im_table m) (int (b + 1)) Null_entry;
       table \<leftarrow> arr_set table (int b) Null_entry;
       Some (b, m\<lparr>im_table := table\<rparr>) }
     else Some (b, m) }"

definition erase_rest :: "nat \<Rightarrow> nat \<Rightarrow> ('k, 'v) inner_map \<Rightarrow> ('k, 'v) inner_map option" where
  "erase_rest b item m = do {
     m \<leftarrow> DestroyNode item m;
     let m = m\<lparr>im_num_elements := im_num_elements m - 1\<rparr>;
     if b = im_index_of_first_non_null m then do {
       i \<leftarrow> first_non_null_loop (im_table m) (im_num_buckets m) (im_index_of_first_non_null m);
       Some (m\<lparr>im_index_of_first_non_null := i\<rparr>) }
     else Some m }"

definition im_erase :: "map_iterator \<Rightarrow> ('k::linorder, 'v) inner_map \<Rightarrow> ('k, 'v) inner_map option" where
  "im_erase it m = do {
     (is_list, it) \<leftarrow> revalidate_if_necessary it m;
     item \<leftarrow> it_node it;
     (b, m) \<leftarrow> (if is_list then erase_from_list (it_bucket it) item m else erase_from_tree (it_bucket it) item m);
     erase_rest b item m }"

partial_function (option) clear_list_loop :: "nat \<Rightarrow> ('k, 'v) inner_map \<Rightarrow> ('k, 'v) inner_map option" where
  "clear_list_loop node m = do {
     n \<leftarrow> im_nodes m node;
     m \<leftarrow> DestroyNode node m;
     case n_next n of None \<Rightarrow> Some m | Some next \<Rightarrow> clear_list_loop next m }"

primrec clear_tree_loop :: "nat \<Rightarrow> nat list \<Rightarrow> ('k, 'v) inner_map \<Rightarrow> ('k, 'v) inner_map option" where
  "clear_tree_loop tree [] m = Some m"
| "clear_tree_loop tree (p # ps) m = do {
     m \<leftarrow> DestroyNode p (m\<lparr>im_trees := (im_trees m)(tree \<mapsto> ps)\<rparr>);
     clear_tree_loop tree ps m }"

function im_clear_loop :: "nat \<Rightarrow> nat \<Rightarrow> ('k, 'v) inner_map \<Rightarrow> ('k, 'v) inner_map option" where
  "im_clear_loop num_buckets b m =
     (if b < num_buckets then do {
        l \<leftarrow> TableEntryIsNonEmptyList (im_table m) b;
        if l then do {
          e \<leftarrow> arr_get (im_table m) (int b);
          node \<leftarrow> as_node e;
          table \<leftarrow> arr_set (im_table m) (int b) Null_entry;
          m \<leftarrow> clear_list_loop node (m\<lparr>im_table := table\<rparr>);
          im_clear_loop num_buckets (b + 1) m }
        else do {
          t \<leftarrow> TableEntryIsTree (im_table m) b;
          if t then do {
            e \<leftarrow> arr_get (im_table m) (int b);
            e' \<leftarrow> arr_get (im_table m) (int (b + 1));
            _ \<leftarrow> GOOGLE_DCHECK (e = e' \<and> b AND 1 = 0);
            tree \<leftarrow> as_tree e;
            table \<leftarrow> arr_set (im_table m) (int (b + 1)) Null_entry;
            table \<leftarrow> arr_set table (int b) Null_entry;
            ps \<leftarrow> im_trees m tree;
            m \<leftarrow> (if ps = [] then None else clear_tree_loop tree ps (m\<lparr>im_table := table\<rparr>));
            m \<leftarrow> DestroyTree tree m;
            im_clear_loop num_buckets (b + 1 + 1) m }
          else im_clear_loop num_buckets (b + 1) m } }
      else Some m)"
  by pat_completeness auto
termination im_clear_loop
  by (relation "measure (\<lambda>(n, b, _). n - b)") auto
declare im_clear_loop.simps [simp del]

definition im_clear :: "('k, 'v) inner_map \<Rightarrow> ('k, 'v) inner_map option" where
  "im_clear m = do {
     m \<leftarrow> im_clear_loop (im_num_buckets m) 0 m;
     Some (m\<lparr>im_num_elements := 0, im_index_of_first_non_null := im_num_buckets m\<rparr>) }"

end
