(* ===== verification/Inner_Map_Rep.thy ===== *)
theory Inner_Map_Rep
  imports Inner_Map
begin

text \<open>
  The representation of a finite map by the table of \<open>InnerMap\<close>, and the correctness of placing a
  node in it (\<open>InsertUnique\<close>), which may turn two lists into a tree.

  What a bucket holds: a list of nodes, or a tree with its nodes. \<open>im_rep m G\<close> says that the
  table of \<open>m\<close> holds the cells \<open>G\<close>, each node in the bucket of its key; \<open>placed m G\<close> are the nodes
  in the table. Between operations these are all nodes (\<open>im_inv\<close>); while the table is resized,
  some are still outside.
\<close>

section \<open>Representation\<close>

datatype cell = Chain "nat list" | Shared nat "nat list"

primrec cell_nodes :: "cell \<Rightarrow> nat list" where
  "cell_nodes (Chain ps) = ps"
| "cell_nodes (Shared t ps) = ps"

primrec cell_entry :: "cell \<Rightarrow> entry" where
  "cell_entry (Chain ps) = (case ps of [] \<Rightarrow> Null_entry | p # _ \<Rightarrow> Node_entry p)"
| "cell_entry (Shared t ps) = Tree_entry t"

primrec chain :: "(nat \<rightharpoonup> ('k, 'v) map_node) \<Rightarrow> nat list \<Rightarrow> bool" where
  "chain N [] \<longleftrightarrow> True"
| "chain N (p # ps) \<longleftrightarrow>
     (\<exists>n. N p = Some n \<and> n_next n = (case ps of [] \<Rightarrow> None | q # _ \<Rightarrow> Some q)) \<and> chain N ps"

definition key_of :: "('k, 'v) inner_map \<Rightarrow> nat \<Rightarrow> 'k" where
  "key_of m p = n_key (the (im_nodes m p))"

definition cell_ok :: "('k::linorder, 'v) inner_map \<Rightarrow> (nat \<Rightarrow> cell) \<Rightarrow> nat \<Rightarrow> bool" where
  "cell_ok m G b =
     (case G b of
        Chain ps \<Rightarrow> chain (im_nodes m) ps \<and> length ps \<le> 8 \<and> distinct (map (key_of m) ps) \<and>
          (\<forall>p\<in>set ps. BucketNumber m (key_of m p) = b)
      | Shared t ps \<Rightarrow> G (partner b) = Shared t ps \<and> im_trees m t = Some ps \<and> ps \<noteq> [] \<and>
          sorted_wrt (<) (map (key_of m) ps) \<and>
          (\<forall>p\<in>set ps. (\<exists>n. im_nodes m p = Some n \<and> n_next n = None) \<and>
             BucketNumber m (key_of m p) div 2 = b div 2))"

definition table_ok :: "('k::linorder, 'v) inner_map \<Rightarrow> (nat \<Rightarrow> cell) \<Rightarrow> bool" where
  "table_ok m G \<longleftrightarrow>
     (\<exists>j. 3 \<le> j \<and> j \<le> 60 \<and> im_num_buckets m = 2 ^ j) \<and>
     im_table m = map (\<lambda>b. cell_entry (G b)) [0..<im_num_buckets m] \<and>
     (\<forall>b<im_num_buckets m. cell_ok m G b)"

definition index_ok :: "('k, 'v) inner_map \<Rightarrow> bool" where
  "index_ok m \<longleftrightarrow>
     (let i = im_index_of_first_non_null m in
      i \<le> im_num_buckets m \<and> (\<forall>j<i. im_table m ! j = Null_entry) \<and>
      (i < im_num_buckets m \<longrightarrow> im_table m ! i \<noteq> Null_entry))"

definition fresh_ok :: "('k, 'v) inner_map \<Rightarrow> bool" where
  "fresh_ok m \<longleftrightarrow> (\<forall>p\<in>dom (im_nodes m). p < im_fresh m) \<and> (\<forall>t\<in>dom (im_trees m). t < im_fresh m)"

definition im_rep :: "('k::linorder, 'v) inner_map \<Rightarrow> (nat \<Rightarrow> cell) \<Rightarrow> bool" where
  "im_rep m G \<longleftrightarrow> table_ok m G \<and> index_ok m \<and> fresh_ok m"

definition placed :: "('k, 'v) inner_map \<Rightarrow> (nat \<Rightarrow> cell) \<Rightarrow> nat set" where
  "placed m G = (\<Union>b<im_num_buckets m. set (cell_nodes (G b)))"

definition placed_trees :: "('k, 'v) inner_map \<Rightarrow> (nat \<Rightarrow> cell) \<Rightarrow> nat set" where
  "placed_trees m G = {t. \<exists>b<im_num_buckets m. \<exists>ps. G b = Shared t ps}"

section \<open>Bucket arithmetic\<close>

lemma partner_eq: "partner b = (if even b then b + 1 else b - 1)"
  unfolding partner_def by (subst xor_one_eq) simp

lemma partner_partner [simp]: "partner (partner b) = b"
  by (auto simp: partner_eq elim: oddE)

lemma partner_neq [simp]: "partner b \<noteq> b" "b \<noteq> partner b"
  by (auto simp: partner_eq elim: oddE)

lemma partner_div [simp]: "partner b div 2 = b div 2"
  by (auto simp: partner_eq elim: oddE)

lemma same_pair: "a div 2 = b div 2 \<longleftrightarrow> a = b \<or> a = partner b"
  by (auto simp: partner_eq; presburger)

lemma even_bucket_div [simp]: "even_bucket b div 2 = b div 2"
  by (simp add: even_bucket_def)

lemma even_bucket_mod [simp]: "even_bucket b mod 2 = 0"
  by (simp add: even_bucket_def)

lemma even_bucket_cases: "even_bucket b = b \<or> even_bucket b = partner b"
  using same_pair [of "even_bucket b" b] by simp

lemma partner_less: "b < 2 ^ j \<Longrightarrow> 3 \<le> j \<Longrightarrow> partner b < 2 ^ j"
proof -
  assume "b < 2 ^ j" "3 \<le> j"
  then obtain i where "j = Suc i" by (cases j) auto
  then have "b div 2 < 2 ^ i" using \<open>b < 2 ^ j\<close> by (simp add: div_less_iff_less_mult mult.commute)
  then show ?thesis
    using partner_div [of b] \<open>j = Suc i\<close> by (metis div_less_iff_less_mult mult.commute power_Suc zero_less_numeral)
qed

lemma table_mask: "n AND (2 ^ j - 1) = n mod (2 ^ j :: nat)"
  by (metis take_bit_eq_mask mask_nat_def take_bit_eq_mod)

section \<open>Reading the table\<close>

lemma table_okD:
  assumes "table_ok m G"
  shows "im_table m = map (\<lambda>b. cell_entry (G b)) [0..<im_num_buckets m]"
    and "b < im_num_buckets m \<Longrightarrow> cell_ok m G b"
    and "b < im_num_buckets m \<Longrightarrow> partner b < im_num_buckets m"
    and "BucketNumber m k < im_num_buckets m"
    and "even (im_num_buckets m)" and "8 \<le> im_num_buckets m"
proof -
  obtain j where j: "3 \<le> j" "im_num_buckets m = 2 ^ j"
    using assms by (auto simp: table_ok_def)
  show "b < im_num_buckets m \<Longrightarrow> partner b < im_num_buckets m"
    using j partner_less by simp
  show "BucketNumber m k < im_num_buckets m"
    unfolding BucketNumber_def j(2) table_mask by simp
  show "even (im_num_buckets m)"
    using j by (cases j) auto
  show "8 \<le> im_num_buckets m"
    using j power_increasing [of 3 j "2 :: nat"] by simp
qed (use assms in \<open>auto simp: table_ok_def\<close>)

lemma even_bucket_less: "table_ok m G \<Longrightarrow> b < im_num_buckets m \<Longrightarrow> even_bucket b < im_num_buckets m"
  using even_bucket_cases [of b] table_okD(3) by metis

lemma length_table: "table_ok m G \<Longrightarrow> length (im_table m) = im_num_buckets m"
  by (simp add: table_okD(1))

lemma table_nth: "table_ok m G \<Longrightarrow> b < im_num_buckets m \<Longrightarrow> im_table m ! b = cell_entry (G b)"
  by (simp add: table_okD(1))

text \<open>Comparing the two pointers of a pair decides between a list and a tree.\<close>

lemma shared_partner:
  "table_ok m G \<Longrightarrow> b < im_num_buckets m \<Longrightarrow> G b = Shared t ps \<Longrightarrow> G (partner b) = Shared t ps"
  using table_okD(2) [of m G b] by (simp add: cell_ok_def)

lemma chain_defined: "chain N ps \<Longrightarrow> p \<in> set ps \<Longrightarrow> N p \<noteq> None"
  by (induction ps) auto

lemma placed_bucket:
  assumes "table_ok m G" and "b < im_num_buckets m" and "p \<in> set (cell_nodes (G b))"
  shows "BucketNumber m (key_of m p) div 2 = b div 2" and "im_nodes m p \<noteq> None"
    and "G b = Chain ps \<Longrightarrow> BucketNumber m (key_of m p) = b"
  using table_okD(2) [OF assms(1,2)] assms(3) chain_defined [of "im_nodes m"]
  by (auto simp: cell_ok_def split: cell.splits)

lemma chain_not_shared:
  assumes "table_ok m G" and "b < im_num_buckets m" and "G b = Chain ps"
  obtains qs where "G (partner b) = Chain qs"
  using shared_partner [OF assms(1) table_okD(3) [OF assms(1,2)]] assms(3)
  by (cases "G (partner b)") auto

text \<open>A node is in one cell only, and no two nodes have the same key.\<close>

lemma placed_unique:
  assumes t: "table_ok m G" and b: "b < im_num_buckets m" "c < im_num_buckets m"
    and p: "p \<in> set (cell_nodes (G b))" "q \<in> set (cell_nodes (G c))" and k: "key_of m p = key_of m q"
  shows "G b = G c \<and> p = q \<and> b div 2 = c div 2"
proof -
  have pair: "b div 2 = c div 2"
    using placed_bucket(1) [OF t b(1) p(1)] placed_bucket(1) [OF t b(2) p(2)] k by simp
  have same: "G b = G c"
  proof (cases "G b")
    case (Chain ps)
    moreover have "\<exists>qs. G c = Chain qs"
      using chain_not_shared [OF t b(1) Chain] pair same_pair [of c b] Chain by metis
    ultimately show ?thesis
      using placed_bucket(3) [OF t b(1) p(1)] placed_bucket(3) [OF t b(2) p(2)] k by auto
  next
    case (Shared t' ps)
    then show ?thesis using shared_partner [OF t b(1)] pair same_pair [of c b] by metis
  qed
  have "distinct (map (key_of m) (cell_nodes (G b)))"
    using table_okD(2) [OF t b(1)] strict_sorted_iff by (auto simp: cell_ok_def split: cell.splits)
  then have "p = q"
    using p k same by (auto simp: distinct_map inj_on_def)
  then show ?thesis using pair same by simp
qed

lemma TableEntryIsEmpty_eq:
  "table_ok m G \<Longrightarrow> b < im_num_buckets m \<Longrightarrow> TableEntryIsEmpty (im_table m) b = Some (G b = Chain [])"
  by (cases "G b") (auto simp: TableEntryIsEmpty_def table_nth length_table split: list.splits)

lemma chain_heads_differ:
  assumes "table_ok m G" and "b < im_num_buckets m" and "G b = Chain (p # ps)"
  shows "cell_entry (G (partner b)) \<noteq> Node_entry p"
proof
  assume e: "cell_entry (G (partner b)) = Node_entry p"
  obtain qs where "G (partner b) = Chain qs"
    using chain_not_shared [OF assms] .
  with e have q: "G (partner b) = Chain (p # tl qs)"
    by (cases qs) auto
  have "BucketNumber m (key_of m p) = b"
    using placed_bucket(3) [OF assms(1,2)] assms(3) by simp
  moreover have "BucketNumber m (key_of m p) = partner b"
    using placed_bucket(3) [OF assms(1) table_okD(3) [OF assms(1,2)]] q by simp
  ultimately show False using partner_neq by metis
qed

lemma TableEntryIsNonEmptyList_eq:
  assumes "table_ok m G" and "b < im_num_buckets m"
  shows "TableEntryIsNonEmptyList (im_table m) b = Some (case G b of Chain ps \<Rightarrow> ps \<noteq> [] | Shared _ _ \<Rightarrow> False)"
  using assms chain_heads_differ [OF assms] shared_partner [OF assms]
  by (cases "G b")
     (auto simp: TableEntryIsNonEmptyList_def table_nth length_table table_okD(3) split: list.splits)

lemma TableEntryIsTree_eq:
  assumes "table_ok m G" and "b < im_num_buckets m"
  shows "TableEntryIsTree (im_table m) b = Some (case G b of Chain _ \<Rightarrow> False | Shared _ _ \<Rightarrow> True)"
  using assms by (auto simp: TableEntryIsTree_def TableEntryIsEmpty_eq TableEntryIsNonEmptyList_eq split: cell.split)

lemma TableEntryIsList_eq:
  assumes "table_ok m G" and "b < im_num_buckets m"
  shows "TableEntryIsList (im_table m) b = Some (case G b of Chain _ \<Rightarrow> True | Shared _ _ \<Rightarrow> False)"
  using assms by (auto simp: TableEntryIsList_def TableEntryIsTree_eq split: cell.split)

lemmas table_kinds = TableEntryIsEmpty_eq TableEntryIsNonEmptyList_eq TableEntryIsTree_eq TableEntryIsList_eq

section \<open>Finding a key\<close>

lemma find_loop_eq:
  "chain N (p # ps) \<Longrightarrow> find_loop N k p = Some (find (\<lambda>q. n_key (the (N q)) = k) (p # ps))"
proof (induction ps arbitrary: p)
  case Nil
  then show ?case by (subst find_loop.simps) auto
next
  case (Cons q ps)
  then show ?case by (subst find_loop.simps) auto
qed

lemma tree_find_eq:
  "\<forall>p\<in>set ps. N p \<noteq> None \<Longrightarrow> tree_find N k ps = Some (find (\<lambda>q. n_key (the (N q)) = k) ps)"
  by (induction ps) auto

definition home :: "('k, 'v) inner_map \<Rightarrow> (nat \<Rightarrow> cell) \<Rightarrow> 'k \<Rightarrow> nat" where
  "home m G k = (case G (BucketNumber m k) of
     Chain _ \<Rightarrow> BucketNumber m k | Shared _ _ \<Rightarrow> even_bucket (BucketNumber m k))"

definition node_with :: "('k, 'v) inner_map \<Rightarrow> (nat \<Rightarrow> cell) \<Rightarrow> 'k \<Rightarrow> nat option" where
  "node_with m G k = find (\<lambda>p. key_of m p = k) (cell_nodes (G (BucketNumber m k)))"

lemma shared_even:
  "table_ok m G \<Longrightarrow> b < im_num_buckets m \<Longrightarrow> G b = Shared t ps \<Longrightarrow> G (even_bucket b) = Shared t ps"
  using shared_partner even_bucket_cases by metis

lemma FindHelper_eq:
  assumes t: "table_ok m G"
  shows "FindHelper m k = Some (case node_with m G k of
     Some p \<Rightarrow> \<lparr>it_node = Some p, it_bucket = home m G k\<rparr> | None \<Rightarrow> end_iterator, home m G k)"
proof -
  let ?b = "BucketNumber m k"
  note b = table_okD(4) [OF t, of k]
  show ?thesis
  proof (cases "G ?b")
    case (Chain ps)
    then have "chain (im_nodes m) ps"
      using table_okD(2) [OF t b] by (simp add: cell_ok_def)
    with Chain t b show ?thesis
      by (cases ps)
         (simp_all add: FindHelper_def table_kinds table_nth length_table as_node_def find_loop_eq node_with_def home_def
            key_of_def Let_def split: option.split)
  next
    case (Shared tr ps)
    then have "\<forall>p\<in>set ps. im_nodes m p \<noteq> None" "im_trees m tr = Some ps"
      using table_okD(2) [OF t b] by (auto simp: cell_ok_def)
    with Shared t b show ?thesis
      using shared_partner [OF t b Shared] shared_even [OF t b Shared] even_bucket_less [OF t b] table_okD(3) [OF t b]
      by (simp add: FindHelper_def table_kinds table_nth length_table as_tree_def tree_find_eq node_with_def home_def
            key_of_def Let_def split: option.split)
  qed
qed

lemma node_with_Some:
  assumes t: "table_ok m G"
  shows "node_with m G k = Some p \<longleftrightarrow> p \<in> placed m G \<and> key_of m p = k"
proof
  assume "node_with m G k = Some p"
  then have "p \<in> set (cell_nodes (G (BucketNumber m k)))" "key_of m p = k"
    by (auto simp: node_with_def find_Some_iff)
  then show "p \<in> placed m G \<and> key_of m p = k"
    using table_okD(4) [OF t, of k] by (auto simp: placed_def)
next
  assume "p \<in> placed m G \<and> key_of m p = k"
  then obtain b where b: "b < im_num_buckets m" "p \<in> set (cell_nodes (G b))" and k: "key_of m p = k"
    by (auto simp: placed_def)
  let ?b = "BucketNumber m k"
  have "G ?b = G b"
  proof (cases "G b")
    case (Chain ps)
    then show ?thesis using placed_bucket(3) [OF t b] k by simp
  next
    case (Shared tr ps)
    then show ?thesis
      using shared_partner [OF t b(1)] placed_bucket(1) [OF t b] k same_pair [of ?b b] by metis
  qed
  then have mem: "p \<in> set (cell_nodes (G ?b))" using b(2) by simp
  then obtain q where q: "node_with m G k = Some q"
    using k by (cases "node_with m G k") (auto simp: node_with_def find_None_iff)
  then have "q \<in> set (cell_nodes (G ?b))" "key_of m q = k"
    by (auto simp: node_with_def find_Some_iff)
  then show "node_with m G k = Some p"
    using placed_unique [OF t table_okD(4) [OF t] table_okD(4) [OF t], of p k q k] mem k q by simp
qed

lemma node_with_None:
  assumes t: "table_ok m G"
  shows "node_with m G k = None \<longleftrightarrow> (\<forall>p\<in>placed m G. key_of m p \<noteq> k)"
  using node_with_Some [OF t, of k] by (metis not_None_eq option.distinct(1))

lemma home_pair: "home m G k div 2 = BucketNumber m k div 2"
  by (simp add: home_def split: cell.split)

lemma home_less: "table_ok m G \<Longrightarrow> home m G k < im_num_buckets m"
  using table_okD(4) [of m G k] by (auto simp: home_def even_bucket_less split: cell.split)

section \<open>Changing one pair of buckets\<close>

definition same_params :: "('k, 'v) inner_map \<Rightarrow> ('k, 'v) inner_map \<Rightarrow> bool" where
  "same_params m m' \<longleftrightarrow> im_hasher m' = im_hasher m \<and> im_seed m' = im_seed m \<and> im_num_buckets m' = im_num_buckets m"

definition same_kv :: "(nat \<rightharpoonup> ('k, 'v) map_node) \<Rightarrow> (nat \<rightharpoonup> ('k, 'v) map_node) \<Rightarrow> bool" where
  "same_kv N N' \<longleftrightarrow> (\<forall>p. map_option (\<lambda>n. (n_key n, n_value n)) (N' p) = map_option (\<lambda>n. (n_key n, n_value n)) (N p))"

lemma same_kvD: "same_kv N N' \<Longrightarrow> N p = Some n \<Longrightarrow> \<exists>n'. N' p = Some n' \<and> n_key n' = n_key n \<and> n_value n' = n_value n"
  unfolding same_kv_def by (drule spec [of _ p], cases "N' p") auto

lemma same_kv_dom: "same_kv N N' \<Longrightarrow> dom N' = dom N"
proof -
  assume "same_kv N N'"
  then have "N' p = None \<longleftrightarrow> N p = None" for p
    unfolding same_kv_def by (drule_tac spec [of _ p]) (cases "N p"; cases "N' p"; simp)
  then show ?thesis by (auto simp: dom_def)
qed

lemma same_kv_refl [simp]: "same_kv N N"
  by (simp add: same_kv_def)

lemma same_kv_trans: "same_kv N1 N2 \<Longrightarrow> same_kv N2 N3 \<Longrightarrow> same_kv N1 N3"
  by (simp add: same_kv_def)

lemma same_kv_next: "N p = Some n \<Longrightarrow> same_kv N (N(p \<mapsto> n\<lparr>n_next := x\<rparr>))"
  by (auto simp: same_kv_def)

lemma same_kv_key: "same_kv (im_nodes m) (im_nodes m') \<Longrightarrow> im_nodes m p \<noteq> None \<Longrightarrow> key_of m' p = key_of m p"
  using same_kvD [of "im_nodes m" "im_nodes m'" p] by (cases "im_nodes m p") (auto simp: key_of_def)

lemma same_params_bucket: "same_params m m' \<Longrightarrow> BucketNumber m' k = BucketNumber m k"
  by (simp add: same_params_def BucketNumber_def)

lemma chain_cong: "(\<And>p. p \<in> set ps \<Longrightarrow> N' p = N p) \<Longrightarrow> chain N' ps = chain N ps"
  by (induction ps) auto

lemma table_upd:
  "b < n \<Longrightarrow> map (\<lambda>c. cell_entry ((G(b := x)) c)) [0..<n] = (map (\<lambda>c. cell_entry (G c)) [0..<n])[b := cell_entry x]"
  by (rule nth_equalityI) (auto simp: nth_list_update)

lemma other_cells_disjoint:
  assumes "table_ok m G" and "b < im_num_buckets m" and "c < im_num_buckets m" and "b div 2 \<noteq> c div 2"
  shows "set (cell_nodes (G b)) \<inter> set (cell_nodes (G c)) = {}"
  using placed_unique [OF assms(1-3)] assms(4) by blast

lemma table_ok_upd:
  assumes t: "table_ok m G" and b: "b < im_num_buckets m" and same: "same_params m m'"
    and kv: "same_kv (im_nodes m) (im_nodes m')"
    and nodes: "\<And>q. q \<notin> set (cell_nodes (G b)) \<Longrightarrow> q \<notin> set (cell_nodes (G (partner b))) \<Longrightarrow>
      q \<in> placed m G \<Longrightarrow> im_nodes m' q = im_nodes m q"
    and trees: "\<And>tr. tr \<in> placed_trees m G \<Longrightarrow> (\<forall>ps. G b \<noteq> Shared tr ps) \<Longrightarrow> im_trees m' tr = im_trees m tr"
    and cells: "\<And>c. c \<noteq> b \<Longrightarrow> c \<noteq> partner b \<Longrightarrow> G' c = G c"
    and new: "cell_ok m' G' b" "cell_ok m' G' (partner b)"
    and table: "im_table m' = map (\<lambda>b. cell_entry (G' b)) [0..<im_num_buckets m]"
  shows "table_ok m' G'"
proof -
  have nb: "im_num_buckets m' = im_num_buckets m"
    using same by (simp add: same_params_def)
  have "cell_ok m' G' c" if c: "c < im_num_buckets m" for c
  proof (cases "c = b \<or> c = partner b")
    case False
    then have pair: "b div 2 \<noteq> c div 2" "partner b div 2 \<noteq> c div 2"
      using same_pair [of c b] by auto
    have G': "G' c = G c" "G' (partner c) = G (partner c)"
      using cells False partner_partner [of c] partner_partner [of b] by (auto intro!: cells simp del: partner_partner)
    have old: "im_nodes m' p = im_nodes m p" if "p \<in> set (cell_nodes (G c))" for p
      using nodes other_cells_disjoint [OF t b c pair(1)] that c
        other_cells_disjoint [OF t table_okD(3) [OF t b] c pair(2)] by (auto simp: placed_def)
    have keys: "key_of m' p = key_of m p" if "p \<in> set (cell_nodes (G c))" for p
      using old [OF that] by (simp add: key_of_def)
    then have map_keys: "map (key_of m') (cell_nodes (G c)) = map (key_of m) (cell_nodes (G c))"
      by simp
    have keys_ok: "distinct (map (key_of m') (cell_nodes (G c))) = distinct (map (key_of m) (cell_nodes (G c)))"
        "sorted_wrt (<) (map (key_of m') (cell_nodes (G c))) = sorted_wrt (<) (map (key_of m) (cell_nodes (G c)))"
      by (simp_all only: map_keys)
    show ?thesis
    proof (cases "G c")
      case (Chain ps)
      then show ?thesis
        using table_okD(2) [OF t c] G' old keys keys_ok chain_cong [of ps "im_nodes m'" "im_nodes m"]
        by (simp add: cell_ok_def same_params_bucket [OF same])
    next
      case (Shared tr ps)
      have "G b \<noteq> Shared tr qs" for qs
      proof
        assume gb: "G b = Shared tr qs"
        then have "qs = ps" "ps \<noteq> []"
          using table_okD(2) [OF t b] table_okD(2) [OF t c] Shared by (auto simp: cell_ok_def)
        then show False
          using other_cells_disjoint [OF t b c pair(1)] gb Shared by auto
      qed
      then have "im_trees m' tr = im_trees m tr"
        using trees Shared c by (auto simp: placed_trees_def)
      then show ?thesis
        using Shared table_okD(2) [OF t c] G' old keys keys_ok
        by (simp add: cell_ok_def same_params_bucket [OF same])
    qed
  qed (use new in auto)
  then show ?thesis
    using t table nb by (auto simp: table_ok_def)
qed

section \<open>Placing a node\<close>

lemma tree_insert_ok:
  assumes "N p \<noteq> None" and "\<forall>q\<in>set ps. N q \<noteq> None"
    and "sorted_wrt (<) (map (\<lambda>q. n_key (the (N q))) ps)"
    and "\<forall>q\<in>set ps. n_key (the (N q)) \<noteq> n_key (the (N p))"
  shows "\<exists>zs. tree_insert N p ps = Some (p, zs) \<and> sorted_wrt (<) (map (\<lambda>q. n_key (the (N q))) zs) \<and>
    set zs = insert p (set ps) \<and> length zs = Suc (length ps)"
  using assms
proof (induction ps)
  case (Cons q ps)
  then obtain zs where zs: "tree_insert N p ps = Some (p, zs)"
      "sorted_wrt (<) (map (\<lambda>q. n_key (the (N q))) zs)" "set zs = insert p (set ps)" "length zs = Suc (length ps)"
    by auto
  obtain a c where n: "N p = Some a" "N q = Some c"
    using Cons.prems by auto
  show ?case
  proof (cases "n_key a < n_key c")
    case True
    then show ?thesis
      using Cons.prems n by (auto intro: less_trans)
  next
    case False
    with Cons.prems(4) n have "n_key c < n_key a" by auto
    then show ?thesis using Cons.prems n zs by auto
  qed
qed auto

definition clear_next :: "nat set \<Rightarrow> (nat \<rightharpoonup> ('k, 'v) map_node) \<Rightarrow> nat \<rightharpoonup> ('k, 'v) map_node" where
  "clear_next Q N = (\<lambda>p. if p \<in> Q then map_option (\<lambda>n. n\<lparr>n_next := None\<rparr>) (N p) else N p)"

lemma same_kv_clear_next [simp]: "same_kv N (clear_next Q N)"
  by (auto simp: same_kv_def clear_next_def option.map_comp comp_def)

lemma clear_next_empty [simp]: "clear_next {} N = N"
  by (simp add: clear_next_def)

lemma clear_next_step:
  "N p = Some n \<Longrightarrow> p \<notin> Q \<Longrightarrow> clear_next Q (N(p \<mapsto> n\<lparr>n_next := None\<rparr>)) = clear_next (insert p Q) N"
  by (auto simp: clear_next_def)

lemma copy_list_loop_ok:
  assumes "chain (im_nodes m) qs" and "im_trees m t = Some zs" and "sorted_wrt (<) (map (key_of m) zs)"
    and "\<forall>p\<in>set zs. im_nodes m p \<noteq> None" and "distinct (map (key_of m) (zs @ qs))"
  shows "\<exists>zs'. copy_list_loop t c (case qs of [] \<Rightarrow> None | q # _ \<Rightarrow> Some q) m =
      Some (c + length qs, m\<lparr>im_trees := (im_trees m)(t \<mapsto> zs'), im_nodes := clear_next (set qs) (im_nodes m)\<rparr>) \<and>
    sorted_wrt (<) (map (key_of m) zs') \<and> set zs' = set zs \<union> set qs \<and> length zs' = length zs + length qs"
  using assms
proof (induction qs arbitrary: m zs c)
  case Nil
  then show ?case
    by (subst copy_list_loop.simps) (auto simp: map_upd_triv intro!: exI [of _ zs])
next
  case (Cons q qs)
  then obtain n where n: "im_nodes m q = Some n" "n_next n = (case qs of [] \<Rightarrow> None | q # _ \<Rightarrow> Some q)"
    and rest: "chain (im_nodes m) qs" by auto
  have "\<forall>p\<in>set zs. key_of m p \<noteq> key_of m q"
    using Cons.prems(5) by (simp add: image_iff) metis
  then obtain xs where xs: "tree_insert (im_nodes m) q zs = Some (q, xs)" "sorted_wrt (<) (map (key_of m) xs)"
      "set xs = insert q (set zs)" "length xs = Suc (length zs)"
    using tree_insert_ok [of "im_nodes m" q zs] Cons.prems(3,4) n
    unfolding key_of_def [abs_def] by blast
  let ?m = "m\<lparr>im_trees := (im_trees m)(t \<mapsto> xs), im_nodes := (im_nodes m)(q \<mapsto> n\<lparr>n_next := None\<rparr>)\<rparr>"
  have key: "key_of ?m = key_of m"
    using n by (auto simp: key_of_def)
  have q: "q \<notin> set qs" using Cons.prems(5) by auto
  have "chain (im_nodes ?m) qs"
    using rest q by (subst chain_cong [of qs _ "im_nodes m"]) auto
  moreover have "distinct (map (key_of m) (xs @ qs))"
    using Cons.prems(5) xs strict_sorted_iff [of "map (key_of m) xs"] by auto
  moreover have "\<forall>p\<in>set xs. im_nodes ?m p \<noteq> None"
    using xs(3) Cons.prems(4) by auto
  ultimately have "\<exists>zs'. copy_list_loop t (c + 1) (case qs of [] \<Rightarrow> None | q # _ \<Rightarrow> Some q) ?m =
      Some (c + 1 + length qs, ?m\<lparr>im_trees := (im_trees ?m)(t \<mapsto> zs'), im_nodes := clear_next (set qs) (im_nodes ?m)\<rparr>) \<and>
      sorted_wrt (<) (map (key_of m) zs') \<and> set zs' = set xs \<union> set qs \<and> length zs' = length xs + length qs"
    using xs(2) by (intro Cons.IH [of ?m xs "c + 1", unfolded key]) (assumption | simp)+
  then show ?case
    using n xs Cons.prems(2) q
    by (subst copy_list_loop.simps) (auto simp: clear_next_step)
qed

text \<open>
  The effect of placing the node \<open>p\<close>: keys and values stay, nodes and trees that are not in the
  table are not touched.
\<close>

definition placing :: "('k::linorder, 'v) inner_map \<Rightarrow> (nat \<Rightarrow> cell) \<Rightarrow> nat set \<Rightarrow> ('k, 'v) inner_map \<Rightarrow> (nat \<Rightarrow> cell) \<Rightarrow> bool" where
  "placing m G X m' G' \<longleftrightarrow>
     table_ok m' G' \<and> placed m' G' = X \<union> placed m G \<and> same_params m m' \<and>
     im_num_elements m' = im_num_elements m \<and> same_kv (im_nodes m) (im_nodes m') \<and>
     (\<forall>q. q \<notin> X \<union> placed m G \<longrightarrow> im_nodes m' q = im_nodes m q) \<and>
     dom (im_trees m') - placed_trees m' G' = dom (im_trees m) - placed_trees m G \<and>
     (\<forall>t. t \<in> dom (im_trees m) - placed_trees m G \<longrightarrow> im_trees m' t = im_trees m t) \<and>
     (fresh_ok m \<longrightarrow> fresh_ok m') \<and> im_fresh m \<le> im_fresh m'"

lemma placing_trans:
  "placing m G X m1 G1 \<Longrightarrow> placing m1 G1 Y m2 G2 \<Longrightarrow> placing m G (X \<union> Y) m2 G2"
  by (auto simp: placing_def same_params_def intro: same_kv_trans)

text \<open>The counters of the map do not affect what the table represents.\<close>

lemma counters_simps [simp]:
  "key_of (m\<lparr>im_index_of_first_non_null := i\<rparr>) = key_of m" "key_of (m\<lparr>im_num_elements := e\<rparr>) = key_of m"
  "BucketNumber (m\<lparr>im_index_of_first_non_null := i\<rparr>) = BucketNumber m" "BucketNumber (m\<lparr>im_num_elements := e\<rparr>) = BucketNumber m"
  by (auto simp: key_of_def BucketNumber_def)

lemma counters_cell [simp]:
  "cell_ok (m\<lparr>im_index_of_first_non_null := i\<rparr>) G b = cell_ok m G b" "cell_ok (m\<lparr>im_num_elements := e\<rparr>) G b = cell_ok m G b"
  by (cases "G b"; simp add: cell_ok_def)+

lemma counters_table [simp]:
  "table_ok (m\<lparr>im_index_of_first_non_null := i\<rparr>) G = table_ok m G" "table_ok (m\<lparr>im_num_elements := e\<rparr>) G = table_ok m G"
  "placed (m\<lparr>im_index_of_first_non_null := i\<rparr>) G = placed m G" "placed (m\<lparr>im_num_elements := e\<rparr>) G = placed m G"
  "placed_trees (m\<lparr>im_index_of_first_non_null := i\<rparr>) G = placed_trees m G" "placed_trees (m\<lparr>im_num_elements := e\<rparr>) G = placed_trees m G"
  "fresh_ok (m\<lparr>im_index_of_first_non_null := i\<rparr>) = fresh_ok m" "fresh_ok (m\<lparr>im_num_elements := e\<rparr>) = fresh_ok m"
  by (simp_all add: table_ok_def placed_def placed_trees_def fresh_ok_def)

lemma placing_index: "placing m G X m' G' \<Longrightarrow> placing m G X (m'\<lparr>im_index_of_first_non_null := i\<rparr>) G'"
  by (simp add: placing_def same_params_def)

lemma placed_pair:
  assumes "b < im_num_buckets m" and "partner b < im_num_buckets m" and "im_num_buckets m' = im_num_buckets m"
    and "\<And>c. c \<noteq> b \<Longrightarrow> c \<noteq> partner b \<Longrightarrow> G' c = G c"
    and "set (cell_nodes (G' b)) \<union> set (cell_nodes (G' (partner b))) =
      X \<union> (set (cell_nodes (G b)) \<union> set (cell_nodes (G (partner b))))"
  shows "placed m' G' = X \<union> placed m G"
proof -
  have split: "placed m H = set (cell_nodes (H b)) \<union> set (cell_nodes (H (partner b))) \<union>
      (\<Union>c\<in>{..<im_num_buckets m} - {b, partner b}. set (cell_nodes (H c)))" for H
    using assms(1,2) by (auto simp: placed_def)
  have "placed m' G' = placed m G'"
    using assms(3) by (simp add: placed_def)
  moreover have "(\<Union>c\<in>{..<im_num_buckets m} - {b, partner b}. set (cell_nodes (G' c))) =
      (\<Union>c\<in>{..<im_num_buckets m} - {b, partner b}. set (cell_nodes (G c)))"
    using assms(4) by auto
  ultimately show ?thesis
    unfolding split [of G'] split [of G] using assms(5) by auto
qed

lemma placed_in_table: "b < im_num_buckets m \<Longrightarrow> p \<in> set (cell_nodes (G b)) \<Longrightarrow> p \<in> placed m G"
  by (auto simp: placed_def)

text \<open>Nodes outside the table may come and go.\<close>

lemma table_ok_unplaced:
  assumes t: "table_ok m G" and N: "\<And>q. q \<in> placed m G \<Longrightarrow> N q = im_nodes m q"
  shows "table_ok (m\<lparr>im_nodes := N, im_fresh := f\<rparr>) G"
proof -
  let ?m = "m\<lparr>im_nodes := N, im_fresh := f\<rparr>"
  have bucket: "BucketNumber ?m = BucketNumber m" by (auto simp: BucketNumber_def)
  have "cell_ok ?m G b" if b: "b < im_num_buckets m" for b
  proof -
    have same: "im_nodes ?m q = im_nodes m q" "key_of ?m q = key_of m q" if "q \<in> set (cell_nodes (G b))" for q
      using N [of q] placed_in_table [OF b, of q G] that by (simp_all add: key_of_def)
    have mk: "map (key_of ?m) (cell_nodes (G b)) = map (key_of m) (cell_nodes (G b))"
      using same(2) by simp
    have keys_ok: "distinct (map (key_of ?m) (cell_nodes (G b))) = distinct (map (key_of m) (cell_nodes (G b)))"
        "sorted_wrt (<) (map (key_of ?m) (cell_nodes (G b))) = sorted_wrt (<) (map (key_of m) (cell_nodes (G b)))"
      by (simp_all only: mk)
    have ch: "chain (im_nodes ?m) (cell_nodes (G b)) = chain (im_nodes m) (cell_nodes (G b))"
      using same(1) by (rule chain_cong)
    show ?thesis
      using table_okD(2) [OF t b] keys_ok same ch by (cases "G b") (simp_all add: cell_ok_def bucket)
  qed
  then show ?thesis using t by (simp add: table_ok_def)
qed

lemma InsertUniqueInList_ok:
  assumes t: "table_ok m G" and b: "b < im_num_buckets m" and G: "G b = Chain ps" "length ps < 8"
    and p: "im_nodes m p = Some n" "p \<notin> placed m G" "BucketNumber m (n_key n) = b"
    and new: "\<forall>q\<in>placed m G. key_of m q \<noteq> n_key n"
  defines "m' \<equiv> m\<lparr>im_nodes := (im_nodes m)(p \<mapsto> n\<lparr>n_next := case ps of [] \<Rightarrow> None | q # _ \<Rightarrow> Some q\<rparr>),
      im_table := (im_table m)[b := Node_entry p]\<rparr>"
  shows "InsertUniqueInList b p m = Some (\<lparr>it_node = Some p, it_bucket = b\<rparr>, m')"
    and "placing m G {p} m' (G(b := Chain (p # ps)))"
proof -
  show "InsertUniqueInList b p m = Some (\<lparr>it_node = Some p, it_bucket = b\<rparr>, m')"
    using t b G p by (cases ps) (simp_all add: InsertUniqueInList_def table_nth length_table as_node_or_null_def m'_def)
  have keys: "key_of m' = key_of m"
    using p(1) by (auto simp: m'_def key_of_def)
  have same: "same_params m m'"
    by (simp add: m'_def same_params_def)
  have in_table: "q \<in> placed m G" if "q \<in> set ps" for q
    using placed_in_table [of b m q G] b G that by simp
  have old: "chain (im_nodes m) ps" "distinct (map (key_of m) ps)" "\<forall>q\<in>set ps. BucketNumber m (key_of m q) = b"
    using table_okD(2) [OF t b] G(1) by (auto simp: cell_ok_def)
  have kp: "key_of m p = n_key n"
    using p(1) by (simp add: key_of_def)
  have tail: "chain (im_nodes m') ps"
    using old(1) in_table p(2) by (subst chain_cong [of ps _ "im_nodes m"]) (auto simp: m'_def)
  obtain qs where qs: "G (partner b) = Chain qs"
    using chain_not_shared [OF t b G(1)] .
  have other: "p \<notin> set qs"
    using placed_in_table [of "partner b" m p G] table_okD(3) [OF t b] qs p(2) by auto
  have pc: "chain (im_nodes m') qs = chain (im_nodes m) qs"
    using other by (intro chain_cong) (auto simp: m'_def)
  have new': "key_of m p \<notin> key_of m ` set ps"
    using new in_table kp by (metis imageE)
  have "table_ok m' (G(b := Chain (p # ps)))"
  proof (rule table_ok_upd [OF t b same])
    show "same_kv (im_nodes m) (im_nodes m')"
      using p(1) by (simp add: m'_def same_kv_next)
    show "cell_ok m' (G(b := Chain (p # ps))) b"
      using tail G(2) old new' p(3) kp
      by (simp add: cell_ok_def keys same_params_bucket [OF same] o_def) (simp add: m'_def)
    show "cell_ok m' (G(b := Chain (p # ps))) (partner b)"
      using table_okD(2) [OF t table_okD(3) [OF t b]] qs pc
      by (simp add: cell_ok_def keys same_params_bucket [OF same] o_def)
    show "im_table m' = map (\<lambda>c. cell_entry ((G(b := Chain (p # ps))) c)) [0..<im_num_buckets m]"
      unfolding table_upd [OF b] by (simp add: m'_def table_okD(1) [OF t])
  qed (use p(2) in \<open>auto simp: m'_def\<close>)
  moreover have "placed m' (G(b := Chain (p # ps))) = {p} \<union> placed m G"
    using b table_okD(3) [OF t b] G(1) by (intro placed_pair [of b]) (auto simp: m'_def)
  moreover have "placed_trees m' (G(b := Chain (p # ps))) = placed_trees m G"
    using G(1) by (auto simp: placed_trees_def m'_def) (metis cell.distinct(1))
  ultimately show "placing m G {p} m' (G(b := Chain (p # ps)))"
    using p(1) same by (auto simp: placing_def m'_def same_kv_next fresh_ok_def)
qed

text \<open>Both buckets of a pair share a tree; the rest of the table is unchanged.\<close>

definition share :: "nat \<Rightarrow> nat \<Rightarrow> nat list \<Rightarrow> (nat \<Rightarrow> cell) \<Rightarrow> nat \<Rightarrow> cell" where
  "share b t zs G = G(b := Shared t zs, partner b := Shared t zs)"

lemma share_simps [simp]:
  "share b t zs G b = Shared t zs" "share b t zs G (partner b) = Shared t zs"
  "c \<noteq> b \<Longrightarrow> c \<noteq> partner b \<Longrightarrow> share b t zs G c = G c"
  by (simp_all add: share_def)

lemma share_cell_ok:
  assumes "im_trees m t = Some zs" and "zs \<noteq> []" and "sorted_wrt (<) (map (key_of m) zs)"
    and "\<forall>p\<in>set zs. (\<exists>n. im_nodes m p = Some n \<and> n_next n = None) \<and> BucketNumber m (key_of m p) div 2 = b div 2"
  shows "cell_ok m (share b t zs G) b" and "cell_ok m (share b t zs G) (partner b)"
  using assms by (simp_all add: cell_ok_def)

lemma share_table:
  assumes "table_ok m G" and "b < im_num_buckets m"
  shows "map (\<lambda>c. cell_entry (share b t zs G c)) [0..<im_num_buckets m] =
    (im_table m)[b := Tree_entry t, partner b := Tree_entry t]"
  unfolding share_def table_upd [OF table_okD(3) [OF assms]] table_upd [OF assms(2)]
  by (simp add: table_okD(1) [OF assms(1)])

lemma placed_trees_share:
  assumes "b < im_num_buckets m" and "im_num_buckets m' = im_num_buckets m"
    and "\<And>t' ps. G b = Shared t' ps \<Longrightarrow> t' = t" and "\<And>t' ps. G (partner b) = Shared t' ps \<Longrightarrow> t' = t"
  shows "placed_trees m' (share b t zs G) = insert t (placed_trees m G)"
proof -
  have "t' \<in> insert t (placed_trees m G)" if c: "c < im_num_buckets m" "share b t zs G c = Shared t' ps" for c t' ps
    using c by (cases "c = b \<or> c = partner b") (auto simp: placed_trees_def)
  moreover have "\<exists>c<im_num_buckets m. \<exists>qs. share b t zs G c = Shared t' qs"
    if c: "c < im_num_buckets m" "G c = Shared t' ps" for c t' ps
    using c assms(3,4) by (cases "c = b \<or> c = partner b") (auto intro!: exI [of _ c])
  ultimately show ?thesis
    using assms(1,2) by (auto simp: placed_trees_def) (metis share_simps(1))
qed

lemma InsertUniqueInTree_ok:
  assumes t: "table_ok m G" and b: "b < im_num_buckets m" and G: "G b = Shared tr ps"
    and p: "im_nodes m p = Some n" "p \<notin> placed m G" "BucketNumber m (n_key n) div 2 = b div 2"
    and new: "\<forall>q\<in>placed m G. key_of m q \<noteq> n_key n"
  shows "\<exists>zs m'. InsertUniqueInTree b p m = Some (\<lparr>it_node = Some p, it_bucket = even_bucket b\<rparr>, m') \<and>
    placing m G {p} m' (share b tr zs G) \<and> im_table m' = im_table m \<and>
    im_index_of_first_non_null m' = im_index_of_first_non_null m"
proof -
  let ?N = "(im_nodes m)(p \<mapsto> n\<lparr>n_next := None\<rparr>)"
  have old: "im_trees m tr = Some ps" "sorted_wrt (<) (map (key_of m) ps)"
      "\<forall>q\<in>set ps. (\<exists>n. im_nodes m q = Some n \<and> n_next n = None) \<and> BucketNumber m (key_of m q) div 2 = b div 2"
    using table_okD(2) [OF t b] G by (auto simp: cell_ok_def)
  have K: "n_key (the (?N q)) = key_of m q" for q
    using p(1) by (simp add: key_of_def)
  have kp: "key_of m p = n_key n"
    using p(1) by (simp add: key_of_def)
  have in_table: "q \<in> placed m G" if "q \<in> set ps" for q
    using placed_in_table [of b m q G] b G that by simp
  have "?N p \<noteq> None" "\<forall>q\<in>set ps. ?N q \<noteq> None" "\<forall>q\<in>set ps. key_of m q \<noteq> key_of m p"
    using old(3) new in_table kp by auto
  then obtain zs where zs: "tree_insert ?N p ps = Some (p, zs)" "sorted_wrt (<) (map (key_of m) zs)" "set zs = insert p (set ps)"
    using tree_insert_ok [of ?N p ps, unfolded K, OF _ _ old(2)] by blast
  define m' where "m' = m\<lparr>im_nodes := ?N, im_trees := (im_trees m)(tr \<mapsto> zs)\<rparr>"
  have keys: "key_of m' = key_of m"
    using p(1) by (auto simp: m'_def key_of_def)
  have same: "same_params m m'"
    by (simp add: m'_def same_params_def)
  note bp = table_okD(3) [OF t b] and Gp = shared_partner [OF t b G]
  have cells: "cell_ok m' (share b tr zs G) b" "cell_ok m' (share b tr zs G) (partner b)"
  proof -
    have "zs \<noteq> []" using zs(3) by auto
    moreover have "\<forall>q\<in>set zs. (\<exists>n. im_nodes m' q = Some n \<and> n_next n = None) \<and> BucketNumber m' (key_of m' q) div 2 = b div 2"
      using old(3) p kp zs(3) unfolding keys same_params_bucket [OF same] by (auto simp: m'_def)
    ultimately show "cell_ok m' (share b tr zs G) b" "cell_ok m' (share b tr zs G) (partner b)"
      using zs(2) by (auto intro!: share_cell_ok simp: keys) (simp_all add: m'_def)
  qed
  have "im_table m' = map (\<lambda>c. cell_entry (share b tr zs G c)) [0..<im_num_buckets m]"
    unfolding share_table [OF t b] using t b bp G Gp
    by (auto simp: m'_def table_nth length_table nth_list_update intro!: nth_equalityI)
  then have "table_ok m' (share b tr zs G)"
    using p(1,2) G cells
    by (intro table_ok_upd [OF t b same]) (auto simp: m'_def same_kv_next)
  moreover have "placed m' (share b tr zs G) = {p} \<union> placed m G"
    using b bp G Gp zs(3) by (intro placed_pair [of b]) (auto simp: m'_def)
  moreover have "placed_trees m' (share b tr zs G) = insert tr (placed_trees m G)"
    using b G Gp by (intro placed_trees_share) (auto simp: m'_def)
  moreover have "tr \<in> placed_trees m G" "tr \<in> dom (im_trees m)"
    using b G old(1) by (auto simp: placed_trees_def)
  ultimately have "placing m G {p} m' (share b tr zs G)"
    using p(1) same by (auto simp: placing_def m'_def same_kv_next fresh_ok_def)
  moreover have "InsertUniqueInTree b p m = Some (\<lparr>it_node = Some p, it_bucket = even_bucket b\<rparr>, m')"
    using t b bp G Gp p(1) old(1) zs(1)
    by (simp add: InsertUniqueInTree_def table_nth length_table as_tree_def m'_def)
  ultimately show ?thesis by (auto simp: m'_def)
qed

lemma TreeConvert_ok:
  assumes t: "table_ok m G" and fresh: "fresh_ok m" and b: "b < im_num_buckets m" and G: "G b = Chain ps" "ps \<noteq> []"
  shows "\<exists>zs m'. TreeConvert b m = Some m' \<and> placing m G {} m' (share b (im_fresh m) zs G) \<and>
    im_table m' = (im_table m)[b := Tree_entry (im_fresh m), partner b := Tree_entry (im_fresh m)] \<and>
    im_index_of_first_non_null m' = im_index_of_first_non_null m"
proof -
  let ?t = "im_fresh m"
  obtain qs where Gp: "G (partner b) = Chain qs"
    using chain_not_shared [OF t b G(1)] .
  note bp = table_okD(3) [OF t b]
  have old: "chain (im_nodes m) ps" "\<forall>q\<in>set ps. BucketNumber m (key_of m q) = b" "distinct (map (key_of m) ps)"
    using table_okD(2) [OF t b] G(1) by (auto simp: cell_ok_def)
  have oldp: "chain (im_nodes m) qs" "\<forall>q\<in>set qs. BucketNumber m (key_of m q) = partner b" "distinct (map (key_of m) qs)"
    using table_okD(2) [OF t bp] Gp by (auto simp: cell_ok_def)
  have apart: "key_of m ` set ps \<inter> key_of m ` set qs = {}"
  proof -
    have "key_of m p \<noteq> key_of m q" if "p \<in> set ps" "q \<in> set qs" for p q
      using old(2) oldp(2) that partner_neq(1) by metis
    then show ?thesis by blast
  qed
  then have disj: "set ps \<inter> set qs = {}" by auto
  let ?m0 = "m\<lparr>im_trees := (im_trees m)(?t \<mapsto> []), im_fresh := ?t + 1\<rparr>"
  have k0: "key_of ?m0 = key_of m" by (auto simp: key_of_def)
  obtain xs where xs: "copy_list_loop ?t 0 (case ps of [] \<Rightarrow> None | q # _ \<Rightarrow> Some q) ?m0 =
      Some (0 + length ps, ?m0\<lparr>im_trees := (im_trees ?m0)(?t \<mapsto> xs), im_nodes := clear_next (set ps) (im_nodes ?m0)\<rparr>)"
      "sorted_wrt (<) (map (key_of m) xs)" "set xs = set ps" "length xs = length ps"
    using copy_list_loop_ok [of ?m0 ps ?t "[]" 0, unfolded k0] old(1,3) by auto
  let ?m1 = "?m0\<lparr>im_trees := (im_trees ?m0)(?t \<mapsto> xs), im_nodes := clear_next (set ps) (im_nodes ?m0)\<rparr>"
  have k1: "key_of ?m1 = key_of m"
    using old(1) chain_defined by (fastforce simp: key_of_def clear_next_def option.map_sel)
  have "chain (im_nodes ?m1) qs"
    using oldp(1) disj by (subst chain_cong [of qs _ "im_nodes m"]) (auto simp: clear_next_def)
  moreover have "\<forall>p\<in>set xs. im_nodes ?m1 p \<noteq> None"
    using xs(3) old(1) chain_defined by (fastforce simp: clear_next_def)
  moreover have "distinct (map (key_of m) (xs @ qs))"
    using xs(2,3) oldp(3) apart strict_sorted_iff [of "map (key_of m) xs"] by simp
  ultimately obtain zs where zs: "copy_list_loop ?t 0 (case qs of [] \<Rightarrow> None | q # _ \<Rightarrow> Some q) ?m1 =
      Some (0 + length qs, ?m1\<lparr>im_trees := (im_trees ?m1)(?t \<mapsto> zs), im_nodes := clear_next (set qs) (im_nodes ?m1)\<rparr>)"
      "sorted_wrt (<) (map (key_of m) zs)" "set zs = set ps \<union> set qs" "length zs = length ps + length qs"
    using copy_list_loop_ok [of ?m1 qs ?t xs 0, unfolded k1] xs(2-4) by auto
  define m' where "m' = m\<lparr>im_trees := (im_trees m)(?t \<mapsto> zs), im_fresh := ?t + 1,
      im_nodes := clear_next (set zs) (im_nodes m),
      im_table := (im_table m)[b := Tree_entry ?t, partner b := Tree_entry ?t]\<rparr>"
  have cn: "clear_next (set qs) (clear_next (set ps) (im_nodes m)) = clear_next (set zs) (im_nodes m)"
    using zs(3) disj by (auto simp: clear_next_def fun_eq_iff)
  have run: "TreeConvert b m = Some m'"
    using t b bp G Gp xs(1) zs(1,4) cn
    by (cases ps; cases qs)
       (simp_all add: TreeConvert_def CopyListToTree_def table_kinds table_nth length_table as_node_or_null_def m'_def
          list_update_swap Let_def)
  have def: "\<forall>q\<in>set zs. im_nodes m q \<noteq> None"
    using zs(3) old(1) oldp(1) chain_defined by fastforce
  have keys: "key_of m' = key_of m"
    using def by (fastforce simp: m'_def key_of_def clear_next_def option.map_sel)
  have same: "same_params m m'"
    by (simp add: m'_def same_params_def)
  have cells: "cell_ok m' (share b ?t zs G) b" "cell_ok m' (share b ?t zs G) (partner b)"
  proof -
    have "zs \<noteq> []" using zs(3) G(2) by auto
    moreover have "\<forall>q\<in>set zs. (\<exists>n. im_nodes m' q = Some n \<and> n_next n = None) \<and> BucketNumber m' (key_of m' q) div 2 = b div 2"
      using old(2) oldp(2) zs(3) def partner_div [of b] unfolding keys same_params_bucket [OF same]
      by (fastforce simp: m'_def clear_next_def)
    ultimately show "cell_ok m' (share b ?t zs G) b" "cell_ok m' (share b ?t zs G) (partner b)"
      using zs(2) by (auto intro!: share_cell_ok simp: keys) (simp_all add: m'_def)
  qed
  have not_old: "?t \<notin> dom (im_trees m)"
    using fresh by (auto simp: fresh_ok_def)
  have sub: "placed_trees m G \<subseteq> dom (im_trees m)"
    using table_okD(2) [OF t] by (fastforce simp: placed_trees_def cell_ok_def)
  have "table_ok m' (share b ?t zs G)"
  proof (rule table_ok_upd [OF t b same _ _ _ _ cells])
    show "same_kv (im_nodes m) (im_nodes m')" by (simp add: m'_def)
    show "im_nodes m' q = im_nodes m q" if "q \<notin> set (cell_nodes (G b))" "q \<notin> set (cell_nodes (G (partner b)))" for q
      using that zs(3) G Gp by (simp add: m'_def clear_next_def)
    show "im_trees m' tr = im_trees m tr" if "tr \<in> placed_trees m G" for tr
      using that sub not_old by (auto simp: m'_def)
    show "im_table m' = map (\<lambda>c. cell_entry (share b ?t zs G c)) [0..<im_num_buckets m]"
      unfolding share_table [OF t b] by (simp add: m'_def)
  qed simp_all
  moreover have "placed m' (share b ?t zs G) = {} \<union> placed m G"
    using b bp G Gp zs(3) by (intro placed_pair [of b]) (auto simp: m'_def)
  moreover have "placed_trees m' (share b ?t zs G) = insert ?t (placed_trees m G)"
    using b G Gp by (intro placed_trees_share) (auto simp: m'_def)
  moreover have "set zs \<subseteq> placed m G"
    using zs(3) placed_in_table [OF b, of _ G] placed_in_table [OF bp, of _ G] G Gp by auto
  moreover have "fresh_ok m'"
    using fresh by (auto simp: fresh_ok_def m'_def clear_next_def dom_def split: if_splits)
  moreover have "same_kv (im_nodes m) (im_nodes m')" "im_num_elements m' = im_num_elements m" "im_fresh m \<le> im_fresh m'"
    by (simp_all add: m'_def)
  moreover have "im_nodes m' q = im_nodes m q" if "q \<notin> set zs" for q
    using that by (simp add: m'_def clear_next_def)
  moreover have "dom (im_trees m') = insert ?t (dom (im_trees m))" "\<forall>t\<in>dom (im_trees m). im_trees m' t = im_trees m t"
    using not_old by (auto simp: m'_def)
  ultimately have "placing m G {} m' (share b ?t zs G)"
    using same not_old unfolding placing_def by auto
  then show ?thesis using run by (auto simp: m'_def)
qed

lemma first_non_null_check_ok: "table_ok m G \<Longrightarrow> index_ok m \<Longrightarrow> first_non_null_check m = Some ()"
  by (auto simp: first_non_null_check_def index_ok_def length_table Let_def)

lemma too_long_loop_eq: "chain N (p # ps) \<Longrightarrow> too_long_loop N c p = Some (c + length (p # ps))"
proof (induction ps arbitrary: p c)
  case Nil
  then show ?case by (subst too_long_loop.simps) auto
next
  case (Cons q ps)
  then show ?case by (subst too_long_loop.simps) auto
qed

lemma TableEntryIsTooLong_eq:
  assumes "table_ok m G" and "b < im_num_buckets m" and "G b = Chain ps" and "ps \<noteq> []"
  shows "TableEntryIsTooLong b m = Some (length ps = 8)"
  using assms table_okD(2) [OF assms(1,2)]
  by (cases ps) (auto simp: TableEntryIsTooLong_def table_nth length_table as_node_def too_long_loop_eq cell_ok_def)

lemma im_find_eq: "table_ok m G \<Longrightarrow> im_find m k = Some (case node_with m G k of
     Some p \<Rightarrow> \<lparr>it_node = Some p, it_bucket = home m G k\<rparr> | None \<Rightarrow> end_iterator)"
  by (simp add: im_find_def FindHelper_eq)

lemma index_ok_lower:
  assumes "index_ok m" and "length (im_table m) = im_num_buckets m" and "b < im_num_buckets m" and "b' < im_num_buckets m"
    and "e \<noteq> Null_entry" and "e' \<noteq> Null_entry" and "b' = b \<or> im_index_of_first_non_null m \<le> b' \<or> b < b'"
  shows "index_ok (m\<lparr>im_table := (im_table m)[b := e, b' := e'],
    im_index_of_first_non_null := min (im_index_of_first_non_null m) b\<rparr>)"
  using assms by (auto simp: index_ok_def Let_def nth_list_update min_def)

lemma placing_rep: "placing m G X m' G' \<Longrightarrow> fresh_ok m \<Longrightarrow> index_ok m' \<Longrightarrow> im_rep m' G'"
  by (simp add: placing_def im_rep_def)

lemma placed_result:
  assumes "InsertUnique b p m = Some (it, m')" and "it_node it = Some p" and "placing m G {p} m' G'"
    and "fresh_ok m" and "index_ok m'"
  shows "\<exists>it m' G'. InsertUnique b p m = Some (it, m') \<and> it_node it = Some p \<and> placing m G {p} m' G' \<and> im_rep m' G'"
  using assms placing_rep by blast

lemma index_ok_cong:
  "index_ok (m\<lparr>im_table := im_table m', im_index_of_first_non_null := im_index_of_first_non_null m'\<rparr>) \<Longrightarrow>
   im_num_buckets m' = im_num_buckets m \<Longrightarrow> index_ok m'"
  by (simp add: index_ok_def)

lemma InsertUnique_start:
  assumes rep: "im_rep m G" and b: "b < im_num_buckets m" and p: "im_nodes m p = Some n"
    and new: "\<forall>q\<in>placed m G. key_of m q \<noteq> n_key n"
  shows "first_non_null_check m = Some ()" and "im_find m (n_key n) = Some end_iterator"
  using rep first_non_null_check_ok [of m G] node_with_None [of m G "n_key n"] new
  by (auto simp: im_rep_def im_find_eq)

lemma InsertUnique_chain:
  assumes rep: "im_rep m G" and b: "b < im_num_buckets m" and G: "G b = Chain ps" "length ps < 8"
    and p: "im_nodes m p = Some n" "p \<notin> placed m G" "BucketNumber m (n_key n) = b"
    and new: "\<forall>q\<in>placed m G. key_of m q \<noteq> n_key n"
  shows "\<exists>it m' G'. InsertUnique b p m = Some (it, m') \<and> it_node it = Some p \<and> placing m G {p} m' G' \<and> im_rep m' G'"
proof -
  have t: "table_ok m G" and i: "index_ok m" and f: "fresh_ok m"
    using rep by (auto simp: im_rep_def)
  note start = InsertUnique_def InsertUnique_start [OF rep b p(1) new] p(1) table_kinds [OF t b]
  let ?m = "m\<lparr>im_nodes := (im_nodes m)(p \<mapsto> n\<lparr>n_next := case ps of [] \<Rightarrow> None | q # _ \<Rightarrow> Some q\<rparr>),
    im_table := (im_table m)[b := Node_entry p]\<rparr>"
  note ins = InsertUniqueInList_ok [OF t b G p new]
  show ?thesis
  proof (cases "ps = []")
    case True
    let ?m' = "?m\<lparr>im_index_of_first_non_null := min (im_index_of_first_non_null ?m) b\<rparr>"
    have "index_ok ?m'"
      using index_ok_lower [OF i length_table [OF t] b b, of "Node_entry p" "Node_entry p"]
      by - (rule index_ok_cong [where m = m], simp_all)
    moreover have "placing m G {p} ?m' (G(b := Chain (p # ps)))"
      using ins(2) by (rule placing_index)
    moreover have "InsertUnique b p m = Some (\<lparr>it_node = Some p, it_bucket = b\<rparr>, ?m')"
      using ins(1) G(1) True by (simp add: start)
    ultimately show ?thesis
      using f by (intro placed_result) (assumption | simp)+
  next
    case False
    have "index_ok ?m"
      using i b length_table [OF t] False G(1) table_nth [OF t b]
      by (auto simp: index_ok_def Let_def nth_list_update split: list.splits)
    moreover have "InsertUnique b p m = Some (\<lparr>it_node = Some p, it_bucket = b\<rparr>, ?m)"
      using ins(1) G False TableEntryIsTooLong_eq [OF t b G(1) False] by (simp add: start)
    ultimately show ?thesis
      using f ins(2) by (intro placed_result) (assumption | simp)+
  qed
qed

text \<open>A chain of eight nodes becomes a tree, in which the node is inserted.\<close>

lemma convert_and_insert:
  assumes rep: "im_rep m G" and b: "b < im_num_buckets m" and G: "G b = Chain ps" "ps \<noteq> []"
    and p: "im_nodes m p = Some n" "p \<notin> placed m G" "BucketNumber m (n_key n) div 2 = b div 2"
    and new: "\<forall>q\<in>placed m G. key_of m q \<noteq> n_key n"
  shows "\<exists>m1 m' G'. TreeConvert b m = Some m1 \<and>
    InsertUniqueInTree b p m1 = Some (\<lparr>it_node = Some p, it_bucket = even_bucket b\<rparr>, m') \<and> placing m G {p} m' G' \<and>
    im_table m' = (im_table m)[b := Tree_entry (im_fresh m), partner b := Tree_entry (im_fresh m)] \<and>
    im_index_of_first_non_null m' = im_index_of_first_non_null m"
proof -
  have t: "table_ok m G" and f: "fresh_ok m"
    using rep by (auto simp: im_rep_def)
  from TreeConvert_ok [OF t f b G] obtain zs m1 where
    m1: "TreeConvert b m = Some m1" "placing m G {} m1 (share b (im_fresh m) zs G)"
      "im_table m1 = (im_table m)[b := Tree_entry (im_fresh m), partner b := Tree_entry (im_fresh m)]"
      "im_index_of_first_non_null m1 = im_index_of_first_non_null m"
    by blast
  have same1: "same_params m m1" and t1: "table_ok m1 (share b (im_fresh m) zs G)"
    and pl1: "placed m1 (share b (im_fresh m) zs G) = placed m G"
    and kv1: "same_kv (im_nodes m) (im_nodes m1)" and n1: "im_nodes m1 p = Some n"
    using m1(2) p(1,2) by (auto simp: placing_def)
  have new1: "\<forall>q\<in>placed m1 (share b (im_fresh m) zs G). key_of m1 q \<noteq> n_key n"
    using new pl1 same_kv_key [OF kv1] placed_bucket(2) [OF t] by (auto simp: placed_def)
  from InsertUniqueInTree_ok [OF t1 _ _ n1 _ _ new1, of b] obtain ys m' where
    m': "InsertUniqueInTree b p m1 = Some (\<lparr>it_node = Some p, it_bucket = even_bucket b\<rparr>, m')"
      "placing m1 (share b (im_fresh m) zs G) {p} m' (share b (im_fresh m) ys (share b (im_fresh m) zs G))"
      "im_table m' = im_table m1" "im_index_of_first_non_null m' = im_index_of_first_non_null m1"
    using b p(2,3) pl1 same1 same_params_bucket [OF same1] by (auto simp: same_params_def)
  have "placing m G {p} m' (share b (im_fresh m) ys (share b (im_fresh m) zs G))"
    using placing_trans [OF m1(2) m'(2)] by simp
  then show ?thesis
    using m1(1,3,4) m'(1,3,4) by (intro exI [of _ m1] exI [of _ m'] exI) simp
qed

lemma InsertUnique_convert:
  assumes rep: "im_rep m G" and b: "b < im_num_buckets m" and G: "G b = Chain ps" "length ps = 8"
    and p: "im_nodes m p = Some n" "p \<notin> placed m G" "BucketNumber m (n_key n) div 2 = b div 2"
    and new: "\<forall>q\<in>placed m G. key_of m q \<noteq> n_key n"
  shows "\<exists>it m' G'. InsertUnique b p m = Some (it, m') \<and> it_node it = Some p \<and> placing m G {p} m' G' \<and> im_rep m' G'"
proof -
  have t: "table_ok m G" and i: "index_ok m" and f: "fresh_ok m"
    using rep by (auto simp: im_rep_def)
  have ps: "ps \<noteq> []" using G(2) by auto
  let ?t = "Tree_entry (im_fresh m)"
  obtain m1 m' G' where m': "TreeConvert b m = Some m1"
      "InsertUniqueInTree b p m1 = Some (\<lparr>it_node = Some p, it_bucket = even_bucket b\<rparr>, m')" "placing m G {p} m' G'"
      "im_table m' = (im_table m)[b := ?t, partner b := ?t]"
      "im_index_of_first_non_null m' = im_index_of_first_non_null m"
    using convert_and_insert [OF rep b G(1) ps p new] by blast
  let ?m' = "m'\<lparr>im_index_of_first_non_null := min (im_index_of_first_non_null m') (even_bucket b)\<rparr>"
  have swap: "(im_table m)[b := ?t, partner b := ?t] = (im_table m)[even_bucket b := ?t, partner (even_bucket b) := ?t]"
    using even_bucket_cases [of b] by (auto simp: list_update_swap)
  have "even_bucket b < im_num_buckets m" "partner (even_bucket b) < im_num_buckets m"
    "even_bucket b < partner (even_bucket b)"
    using even_bucket_less [OF t b] table_okD(3) [OF t even_bucket_less [OF t b]]
    by (simp_all only: partner_eq) (simp_all add: even_bucket_def)
  then have "index_ok ?m'"
    using index_ok_lower [OF i length_table [OF t], of "even_bucket b" "partner (even_bucket b)" ?t ?t] m'(3-5) swap
    by - (rule index_ok_cong [where m = m], simp_all add: placing_def same_params_def)
  moreover have "placing m G {p} ?m' G'"
    using m'(3) by (rule placing_index)
  moreover have "InsertUnique b p m = Some (\<lparr>it_node = Some p, it_bucket = even_bucket b\<rparr>, ?m')"
    using m'(1,2) G ps TableEntryIsTooLong_eq [OF t b G(1) ps]
    by (simp add: InsertUnique_def InsertUnique_start [OF rep b p(1) new] p(1) table_kinds [OF t b])
  ultimately show ?thesis
    using f by (intro placed_result) (assumption | simp)+
qed

lemma InsertUnique_ok:
  assumes rep: "im_rep m G" and b: "b < im_num_buckets m"
    and p: "im_nodes m p = Some n" "p \<notin> placed m G" "BucketNumber m (n_key n) div 2 = b div 2"
    and chain: "\<And>ps. G b = Chain ps \<Longrightarrow> BucketNumber m (n_key n) = b"
    and new: "\<forall>q\<in>placed m G. key_of m q \<noteq> n_key n"
  shows "\<exists>it m' G'. InsertUnique b p m = Some (it, m') \<and> it_node it = Some p \<and> placing m G {p} m' G' \<and> im_rep m' G'"
proof -
  have t: "table_ok m G" and i: "index_ok m" and f: "fresh_ok m"
    using rep by (auto simp: im_rep_def)
  show ?thesis
  proof (cases "G b")
    case (Shared tr ps)
    from InsertUniqueInTree_ok [OF t b Shared p new] obtain zs m' where
      m': "InsertUniqueInTree b p m = Some (\<lparr>it_node = Some p, it_bucket = even_bucket b\<rparr>, m')"
        "placing m G {p} m' (share b tr zs G)" "im_table m' = im_table m"
        "im_index_of_first_non_null m' = im_index_of_first_non_null m"
      by auto
    then have "index_ok m'"
      using i by (simp add: index_ok_def placing_def same_params_def)
    moreover have "InsertUnique b p m = Some (\<lparr>it_node = Some p, it_bucket = even_bucket b\<rparr>, m')"
      using m'(1) Shared by (simp add: InsertUnique_def InsertUnique_start [OF rep b p(1) new] p(1) table_kinds [OF t b])
    ultimately show ?thesis
      using m'(2) f by (intro placed_result) (assumption | simp)+
  next
    case (Chain ps)
    then have "length ps < 8 \<or> length ps = 8"
      using table_okD(2) [OF t b] by (auto simp: cell_ok_def)
    then show ?thesis
      using InsertUnique_chain [OF rep b Chain _ p(1,2) chain [OF Chain] new] InsertUnique_convert [OF rep b Chain _ p new]
      by blast
  qed
qed

end
