(* ===== verification/Inner_Map_Resize.thy ===== *)
theory Inner_Map_Resize
  imports Inner_Map_Rep
begin

text \<open>
  \<open>Resize\<close> and \<open>ResizeIfLoadIsOutOfRange\<close> of the hash table: every node of the old table is placed in the
  new one (\<open>rehashed\<close>), lists and trees alike, and the loop that computes the new size ends.
\<close>

section \<open>Resizing keeps the contents\<close>

lemma placing_key: "placing m G X m' G' \<Longrightarrow> im_nodes m p \<noteq> None \<Longrightarrow> key_of m' p = key_of m p"
  using same_kv_key by (auto simp: placing_def)

lemma placing_refl: "table_ok m G \<Longrightarrow> placing m G {} m G"
  by (simp add: placing_def same_params_def)

lemma placed_defined: "table_ok m G \<Longrightarrow> p \<in> placed m G \<Longrightarrow> im_nodes m p \<noteq> None"
  using placed_bucket(2) by (fastforce simp: placed_def)

text \<open>The two transfer loops place the nodes of a cell one after the other.\<close>

lemma transfer_ok:
  assumes "im_rep m G" and "\<forall>p\<in>set ps. im_nodes m p \<noteq> None" and "set ps \<inter> placed m G = {}"
    and "distinct (map (key_of m) ps)" and "\<forall>p\<in>set ps. \<forall>q\<in>placed m G. key_of m q \<noteq> key_of m p"
  shows "\<exists>m' G'. transfer_tree_loop ps m = Some m' \<and>
    (chain (im_nodes m) ps \<and> ps \<noteq> [] \<longrightarrow> transfer_list_loop (hd ps) m = Some m') \<and>
    placing m G (set ps) m' G' \<and> im_rep m' G'"
  using assms
proof (induction ps arbitrary: m G)
  case Nil
  then show ?case using placing_refl by (auto simp: im_rep_def)
next
  case (Cons p ps)
  have t: "table_ok m G" using Cons.prems(1) by (simp add: im_rep_def)
  obtain n where n: "im_nodes m p = Some n" using Cons.prems(2) by auto
  then have kp: "key_of m p = n_key n" by (simp add: key_of_def)
  obtain it m1 G1 where m1: "InsertUnique (BucketNumber m (n_key n)) p m = Some (it, m1)"
      "placing m G {p} m1 G1" "im_rep m1 G1"
    using InsertUnique_ok [OF Cons.prems(1) table_okD(4) [OF t], of p n "n_key n"] n kp Cons.prems(3,5) by auto
  have pl: "placed m1 G1 = insert p (placed m G)" and
      frame: "\<And>q. q \<notin> insert p (placed m G) \<Longrightarrow> im_nodes m1 q = im_nodes m q"
    using m1(2) by (auto simp: placing_def)
  have p: "p \<notin> set ps" using Cons.prems(4) by auto
  have ps: "im_nodes m1 q = im_nodes m q" if "q \<in> set ps" for q
  proof -
    have "q \<notin> insert p (placed m G)" using that p Cons.prems(3) by auto
    then show ?thesis by (rule frame)
  qed
  have keys: "key_of m1 q = key_of m q" if "q \<in> set ps \<or> q \<in> placed m1 G1" for q
    using placing_key [OF m1(2)] that Cons.prems(2) pl n placed_defined [OF t] by auto
  have mk: "map (key_of m1) ps = map (key_of m) ps"
    using keys by simp
  have "set ps \<inter> placed m1 G1 = {}" "\<forall>q\<in>set ps. im_nodes m1 q \<noteq> None" "distinct (map (key_of m1) ps)"
    using Cons.prems(2,3,4) pl p ps by (auto simp: mk)
  moreover have "\<forall>q\<in>set ps. \<forall>r\<in>placed m1 G1. key_of m1 r \<noteq> key_of m1 q"
    using Cons.prems(4,5) keys pl by (auto simp: image_iff)
  ultimately obtain m' G' where m': "transfer_tree_loop ps m1 = Some m'"
      "chain (im_nodes m1) ps \<and> ps \<noteq> [] \<longrightarrow> transfer_list_loop (hd ps) m1 = Some m'"
      "placing m1 G1 (set ps) m' G'" "im_rep m' G'"
    using Cons.IH [OF m1(3)] by blast
  have "transfer_list_loop p m = Some m'" if c: "chain (im_nodes m) (p # ps)"
  proof -
    have "chain (im_nodes m1) ps"
      using c ps chain_cong [of ps "im_nodes m1" "im_nodes m"] by auto
    moreover have "n_next n = (case ps of [] \<Rightarrow> None | q # _ \<Rightarrow> Some q)"
      using c n by auto
    ultimately show ?thesis
      using m1(1) n m'(1,2) by (subst transfer_list_loop.simps) (cases ps; auto)
  qed
  moreover have "placing m G (set (p # ps)) m' G'"
    using placing_trans [OF m1(2) m'(3)] by simp
  ultimately show ?case
    using m1(1) n m'(1,4) by auto
qed

text \<open>The state of the resize loop before bucket \<open>i\<close> of the old table.\<close>

definition resizing :: "('k::linorder, 'v) inner_map \<Rightarrow> (nat \<Rightarrow> cell) \<Rightarrow> nat \<Rightarrow> ('k, 'v) inner_map \<Rightarrow> (nat \<Rightarrow> cell) \<Rightarrow> bool" where
  "resizing m0 G0 i m G \<longleftrightarrow>
     im_rep m G \<and> placed m G = (\<Union>j\<in>{..<im_num_buckets m0} \<inter> {..<i}. set (cell_nodes (G0 j))) \<and>
     im_hasher m = im_hasher m0 \<and> im_seed m = im_seed m0 \<and> im_num_elements m = im_num_elements m0 \<and>
     same_kv (im_nodes m0) (im_nodes m) \<and> (\<forall>q. q \<notin> placed m G \<longrightarrow> im_nodes m q = im_nodes m0 q) \<and>
     dom (im_trees m) - placed_trees m G =
       (dom (im_trees m0) - placed_trees m0 G0) \<union> {t. \<exists>j ps. i \<le> j \<and> j < im_num_buckets m0 \<and> G0 j = Shared t ps} \<and>
     (\<forall>t. t \<in> dom (im_trees m) - placed_trees m G \<longrightarrow> im_trees m t = im_trees m0 t) \<and>
     (\<forall>t ps. i < im_num_buckets m0 \<longrightarrow> G0 i = Shared t ps \<longrightarrow> even i) \<and> im_fresh m0 \<le> im_fresh m"

lemma shared_apart:
  assumes "table_ok m G" and "b < im_num_buckets m" and "c < im_num_buckets m" and "G b = Shared t ps" and "G c = Shared t qs"
  shows "b div 2 = c div 2"
  using table_okD(2) [OF assms(1,2)] table_okD(2) [OF assms(1,3)] assms(4,5)
    other_cells_disjoint [OF assms(1-3)] by (auto simp: cell_ok_def)

lemma cell_facts:
  assumes "table_ok m G" and "b < im_num_buckets m"
  shows "distinct (map (key_of m) (cell_nodes (G b)))" and "\<forall>p\<in>set (cell_nodes (G b)). im_nodes m p \<noteq> None"
    and "G b = Chain ps \<Longrightarrow> chain (im_nodes m) ps"
  using table_okD(2) [OF assms] placed_bucket(2) [OF assms] strict_sorted_iff
  by (auto simp: cell_ok_def split: cell.splits)

text \<open>Placing the nodes of one old cell.\<close>

lemma resizing_transfer:
  assumes t0: "table_ok m0 G0" and r: "resizing m0 G0 i m G" and i: "i < im_num_buckets m0"
  shows "\<exists>m' G'. transfer_tree_loop (cell_nodes (G0 i)) m = Some m' \<and>
    (G0 i = Chain (p # ps) \<longrightarrow> transfer_list_loop p m = Some m') \<and>
    placing m G (set (cell_nodes (G0 i))) m' G' \<and> im_rep m' G'"
proof -
  let ?ps = "cell_nodes (G0 i)"
  have pl: "placed m G = (\<Union>j\<in>{..<im_num_buckets m0} \<inter> {..<i}. set (cell_nodes (G0 j)))"
    and kv: "same_kv (im_nodes m0) (im_nodes m)"
    and frame: "\<And>q. q \<notin> placed m G \<Longrightarrow> im_nodes m q = im_nodes m0 q" and rep: "im_rep m G"
    and even: "\<And>t ps. G0 i = Shared t ps \<Longrightarrow> even i"
    using r i by (auto simp: resizing_def)
  have away: "j div 2 = i div 2 \<Longrightarrow> j < i \<Longrightarrow> False" if "G0 i = Shared t qs" for j t qs
    using even [OF that] by presburger
  have key: "key_of m q = key_of m0 q" if "im_nodes m0 q \<noteq> None" for q
    using same_kv_key [OF kv that] .
  have new: "p \<notin> placed m G \<and> (\<forall>q\<in>placed m G. key_of m0 q \<noteq> key_of m0 p)" if p: "p \<in> set ?ps" for p
  proof -
    have "key_of m0 q \<noteq> key_of m0 p" if q: "q \<in> placed m G" for q
    proof
      assume k: "key_of m0 q = key_of m0 p"
      obtain j where j: "j < im_num_buckets m0" "j < i" "q \<in> set (cell_nodes (G0 j))"
        using q pl by auto
      have u: "G0 j = G0 i" "j div 2 = i div 2" "q = p"
        using placed_unique [OF t0 j(1) i j(3) p k] by auto
      show False
      proof (cases "G0 i")
        case (Chain qs)
        then show ?thesis
          using placed_bucket(3) [OF t0 i p] placed_bucket(3) [OF t0 j(1,3)] u j(2) by simp
      next
        case (Shared t qs)
        then show ?thesis using away u(2) j(2) by blast
      qed
    qed
    then show ?thesis by auto
  qed
  have nodes: "im_nodes m p = im_nodes m0 p" if "p \<in> set ?ps" for p
    using frame new [OF that] by simp
  have defined: "\<forall>p\<in>set ?ps. im_nodes m p \<noteq> None"
    using cell_facts(2) [OF t0 i] nodes by simp
  have keys: "\<forall>p\<in>set ?ps. \<forall>q\<in>placed m G. key_of m q \<noteq> key_of m p"
  proof (intro ballI)
    fix p q
    assume pq: "p \<in> set ?ps" "q \<in> placed m G"
    then have "im_nodes m0 q \<noteq> None"
      using placed_defined [of m G q] rep same_kv_dom [OF kv] by (auto simp: im_rep_def)
    then show "key_of m q \<noteq> key_of m p"
      using new [OF pq(1)] pq key cell_facts(2) [OF t0 i] by simp
  qed
  have "map (key_of m) ?ps = map (key_of m0) ?ps"
    using key cell_facts(2) [OF t0 i] by simp
  then have dist: "distinct (map (key_of m) ?ps)"
    using cell_facts(1) [OF t0 i] by metis
  have ch: "chain (im_nodes m) ?ps" if "G0 i = Chain (p # ps)"
    using cell_facts(3) [OF t0 i that] nodes that by (subst chain_cong [of _ _ "im_nodes m0"]) simp_all
  have "set ?ps \<inter> placed m G = {}"
    using new by auto
  then show ?thesis
    using transfer_ok [OF rep defined _ dist keys] ch by fastforce
qed


lemma resizing_step:
  assumes t0: "table_ok m0 G0" and r: "resizing m0 G0 i m G" and i: "i < im_num_buckets m0"
    and pl: "placing m G (set (cell_nodes (G0 i))) m' G'" and rep: "im_rep m' G'" and G0: "G0 i = Chain ps"
  shows "resizing m0 G0 (i + 1) m' G'"
proof -
  have new: "(\<Union>j\<in>{..<im_num_buckets m0} \<inter> {..<i + 1}. set (cell_nodes (G0 j))) = set ps \<union> placed m G"
    using r i G0 by (auto simp: resizing_def less_Suc_eq)
  have ev: "even (i + 1)" if "i + 1 < im_num_buckets m0" "G0 (i + 1) = Shared t qs" for t qs
    using shared_partner [OF t0 that] G0 by (cases "even i") (auto simp: partner_eq)
  have later: "{t. \<exists>j ps. i + 1 \<le> j \<and> j < im_num_buckets m0 \<and> G0 j = Shared t ps} =
      {t. \<exists>j ps. i \<le> j \<and> j < im_num_buckets m0 \<and> G0 j = Shared t ps}"
  proof -
    have "i + 1 \<le> j \<longleftrightarrow> i \<le> j" if "G0 j = Shared t qs" for j t qs
      using that G0 by (cases "j = i") auto
    then show ?thesis by blast
  qed
  have trees: "\<forall>t. t \<in> dom (im_trees m') - placed_trees m' G' \<longrightarrow> im_trees m' t = im_trees m0 t"
    using r pl unfolding resizing_def placing_def by metis
  show ?thesis
    using r pl rep G0 new ev trees unfolding resizing_def later
    by (auto simp: placing_def same_params_def intro: same_kv_trans)
qed

lemma table_ok_tree_gone:
  assumes "table_ok m G" and "t \<notin> placed_trees m G"
  shows "table_ok (m\<lparr>im_trees := (im_trees m)(t := None)\<rparr>) G"
proof -
  let ?m = "m\<lparr>im_trees := (im_trees m)(t := None)\<rparr>"
  have "BucketNumber ?m = BucketNumber m" "key_of ?m = key_of m"
    by (auto simp: BucketNumber_def key_of_def)
  then have "cell_ok ?m G b" if "b < im_num_buckets m" for b
    using table_okD(2) [OF assms(1) that] assms(2) that
    by (cases "G b") (auto simp: cell_ok_def placed_trees_def)
  then show ?thesis using assms(1) by (auto simp: table_ok_def)
qed

lemma resizing_tree_step:
  assumes t0: "table_ok m0 G0" and r: "resizing m0 G0 i m G" and i: "i < im_num_buckets m0"
    and pl: "placing m G (set (cell_nodes (G0 i))) m' G'" and rep: "im_rep m' G'" and G0: "G0 i = Shared t ps"
  shows "im_trees m' t = Some ps" and "resizing m0 G0 (i + 2) (m'\<lparr>im_trees := (im_trees m')(t := None)\<rparr>) G'"
proof -
  let ?m = "m'\<lparr>im_trees := (im_trees m')(t := None)\<rparr>"
  have ev: "even i" and tr1: "t \<in> dom (im_trees m) - placed_trees m G"
    using r i G0 by (auto simp: resizing_def)
  moreover have "im_trees m t = im_trees m0 t"
    using r tr1 unfolding resizing_def by blast
  ultimately have tr: "t \<in> dom (im_trees m) - placed_trees m G" "im_trees m t = im_trees m0 t"
    by auto
  have p: "partner i = i + 1" using ev by (simp add: partner_eq)
  have i1: "i + 1 < im_num_buckets m0" "G0 (i + 1) = Shared t ps"
    using table_okD(3) [OF t0 i] shared_partner [OF t0 i G0] p by auto
  have t': "t \<in> dom (im_trees m') - placed_trees m' G'" "im_trees m' t = im_trees m t"
    using tr pl by (auto simp: placing_def)
  then show "im_trees m' t = Some ps"
    using tr(2) table_okD(2) [OF t0 i] G0 by (simp add: cell_ok_def)
  have rep': "im_rep ?m G'"
    using rep t'(1) table_ok_tree_gone [of m' G' t] by (auto simp: im_rep_def fresh_ok_def index_ok_def)
  have new: "(\<Union>j\<in>{..<im_num_buckets m0} \<inter> {..<i + 2}. set (cell_nodes (G0 j))) = set ps \<union> placed m G"
    using r i1 G0 by (auto simp: resizing_def less_Suc_eq)
  have ev2: "even (i + 2)" using ev by simp
  have later: "{t. \<exists>j ps. i + 2 \<le> j \<and> j < im_num_buckets m0 \<and> G0 j = Shared t ps} =
      {t. \<exists>j ps. i \<le> j \<and> j < im_num_buckets m0 \<and> G0 j = Shared t ps} - {t}"
  proof -
    have "False" if "i + 2 \<le> j" "j < im_num_buckets m0" "G0 j = Shared t qs" for j qs
      using shared_apart [OF t0 i that(2) G0 that(3)] that(1) ev by presburger
    moreover have "i + 2 \<le> j" if "i \<le> j" "G0 j = Shared t' qs" "t' \<noteq> t" for j qs t'
      using that G0 i1(2) by (cases "j = i \<or> j = i + 1") auto
    ultimately have "i + 2 \<le> j \<longleftrightarrow> i \<le> j \<and> t' \<noteq> t" if "j < im_num_buckets m0" "G0 j = Shared t' qs" for j t' qs
      using that by (metis add_leD1)
    then show ?thesis by blast
  qed
  have old: "t \<notin> dom (im_trees m0) - placed_trees m0 G0"
    using i G0 by (auto simp: placed_trees_def)
  have "dom (im_trees ?m) - placed_trees ?m G' = dom (im_trees m') - placed_trees m' G' - {t}"
    by (auto simp: placed_trees_def)
  moreover have "dom (im_trees m') - placed_trees m' G' = dom (im_trees m) - placed_trees m G"
    using pl by (simp add: placing_def)
  ultimately have left: "dom (im_trees ?m) - placed_trees ?m G' = dom (im_trees m) - placed_trees m G - {t}"
    by simp
  then have doms: "dom (im_trees ?m) - placed_trees ?m G' =
      (dom (im_trees m0) - placed_trees m0 G0) \<union> {t. \<exists>j ps. i + 2 \<le> j \<and> j < im_num_buckets m0 \<and> G0 j = Shared t ps}"
    using r old unfolding resizing_def later by auto
  have pl_eq: "placed ?m G' = placed m' G'"
    by (simp add: placed_def)
  have "same_kv (im_nodes m0) (im_nodes m')" "im_fresh m0 \<le> im_fresh m'"
      "im_hasher m' = im_hasher m0" "im_seed m' = im_seed m0" "im_num_elements m' = im_num_elements m0"
    using r pl by (auto simp: placing_def resizing_def same_params_def intro: same_kv_trans)
  moreover have "placed m' G' = set ps \<union> placed m G"
    using pl G0 by (simp add: placing_def)
  moreover have "\<forall>q. q \<notin> placed m' G' \<longrightarrow> im_nodes m' q = im_nodes m0 q"
    using r pl unfolding resizing_def placing_def by simp
  moreover have "\<forall>t'. t' \<in> dom (im_trees ?m) - placed_trees ?m G' \<longrightarrow> im_trees ?m t' = im_trees m0 t'"
  proof (intro allI impI)
    fix t'
    assume a: "t' \<in> dom (im_trees ?m) - placed_trees ?m G'"
    then have "t' \<noteq> t" by auto
    moreover have "t' \<in> dom (im_trees m) - placed_trees m G"
      using a left by auto
    moreover from this have "im_trees m' t' = im_trees m t'" "im_trees m t' = im_trees m0 t'"
      using r pl unfolding resizing_def placing_def by blast+
    ultimately show "im_trees ?m t' = im_trees m0 t'"
      by simp
  qed
  ultimately show "resizing m0 G0 (i + 2) ?m G'"
    unfolding resizing_def pl_eq using rep' new ev2 doms by (intro conjI) (assumption | simp)+
qed


lemma resize_loop_ok:
  assumes "table_ok m0 G0" and "resizing m0 G0 i m G"
  shows "\<exists>m' G' j. resize_loop (im_table m0) (im_num_buckets m0) i m = Some m' \<and>
    im_num_buckets m0 \<le> j \<and> resizing m0 G0 j m' G' \<and> im_num_buckets m' = im_num_buckets m"
  using assms(2)
proof (induction "im_num_buckets m0 - i" arbitrary: i m G rule: less_induct)
  case less
  note t0 = assms(1) and r = less.prems
  show ?case
  proof (cases "i < im_num_buckets m0")
    case False
    then show ?thesis using r by (subst resize_loop.simps) (auto intro!: exI [of _ G] exI [of _ i])
  next
    case i: True
    have dec: "im_num_buckets m0 - (i + 2) < im_num_buckets m0 - i" "im_num_buckets m0 - (i + 1) < im_num_buckets m0 - i"
      using i by auto
    note kinds = table_kinds [OF t0 i] table_nth [OF t0 i] length_table [OF t0]
    show ?thesis
    proof (cases "G0 i")
      case (Shared t ps)
      obtain m1 G1 where m1: "transfer_tree_loop ps m = Some m1" "placing m G (set ps) m1 G1" "im_rep m1 G1"
        using resizing_transfer [OF t0 r i] Shared by auto
      note step = resizing_tree_step [OF t0 r i _ m1(3) Shared, simplified Shared cell_nodes.simps, OF m1(2)]
      have tr: "im_trees m t = Some ps" "ps \<noteq> []"
      proof -
        have mem: "t \<in> dom (im_trees m) - placed_trees m G"
          using r i Shared by (auto simp: resizing_def)
        then have "im_trees m t = im_trees m0 t"
          using r unfolding resizing_def by blast
        then show "im_trees m t = Some ps" "ps \<noteq> []"
          using table_okD(2) [OF t0 i] Shared by (auto simp: cell_ok_def)
      qed
      let ?m = "m1\<lparr>im_trees := (im_trees m1)(t := None)\<rparr>"
      have "TransferTree (im_table m0) i m = Some ?m"
        using i tr m1(1) step(1) Shared by (simp add: TransferTree_def kinds as_tree_def DestroyTree_def)
      moreover obtain m' G' j where "resize_loop (im_table m0) (im_num_buckets m0) (i + 2) ?m = Some m'"
          "im_num_buckets m0 \<le> j" "resizing m0 G0 j m' G'" "im_num_buckets m' = im_num_buckets m"
        using less.hyps [OF dec(1) step(2)] m1(2) by (auto simp: placing_def same_params_def)
      ultimately show ?thesis
        using i Shared by (subst resize_loop.simps) (auto simp: kinds)
    next
      case (Chain ps)
      show ?thesis
      proof (cases ps)
        case Nil
        have rep: "im_rep m G" using r by (simp add: resizing_def)
        then have "placing m G (set (cell_nodes (G0 i))) m G"
          using Chain Nil placing_refl [of m G] by (simp add: im_rep_def)
        from less.hyps [OF dec(2) resizing_step [OF t0 r i this rep Chain]] show ?thesis
          using i Chain Nil by (subst resize_loop.simps) (auto simp: kinds)
      next
        case (Cons p qs)
        obtain m1 G1 where m1: "transfer_list_loop p m = Some m1"
            "placing m G (set (cell_nodes (G0 i))) m1 G1" "im_rep m1 G1"
          using resizing_transfer [OF t0 r i, of p qs] Chain Cons by auto
        then have "TransferList (im_table m0) i m = Some m1"
          using i Chain Cons by (simp add: TransferList_def kinds as_node_def)
        moreover obtain m' G' j where "resize_loop (im_table m0) (im_num_buckets m0) (i + 1) m1 = Some m'"
            "im_num_buckets m0 \<le> j" "resizing m0 G0 j m' G'" "im_num_buckets m' = im_num_buckets m"
          using less.hyps [OF dec(2) resizing_step [OF t0 r i m1(2,3) Chain]] i m1(2) by (auto simp: placing_def same_params_def)
        ultimately show ?thesis
          using i Chain Cons by (subst resize_loop.simps) (auto simp: kinds)
      qed
    qed
  qed
qed

text \<open>The effect of resizing: the same nodes in another table.\<close>

definition rehashed :: "('k::linorder, 'v) inner_map \<Rightarrow> (nat \<Rightarrow> cell) \<Rightarrow> ('k, 'v) inner_map \<Rightarrow> (nat \<Rightarrow> cell) \<Rightarrow> bool" where
  "rehashed m G m' G' \<longleftrightarrow>
     im_rep m' G' \<and> placed m' G' = placed m G \<and> im_hasher m' = im_hasher m \<and> im_seed m' = im_seed m \<and>
     im_num_elements m' = im_num_elements m \<and> same_kv (im_nodes m) (im_nodes m') \<and>
     dom (im_trees m') - placed_trees m' G' = dom (im_trees m) - placed_trees m G \<and> im_fresh m \<le> im_fresh m'"

lemma CreateEmptyTable_ok: "3 \<le> j \<Longrightarrow> CreateEmptyTable (2 ^ j) = Some (replicate (2 ^ j) Null_entry)"
proof -
  assume "3 \<le> j"
  then have "8 \<le> (2 :: nat) ^ j"
    using power_increasing [of 3 j "2 :: nat"] by simp
  moreover have "(2 ^ j :: nat) AND (2 ^ j - 1) = 0"
    unfolding table_mask by simp
  ultimately show ?thesis
    unfolding CreateEmptyTable_def by (simp only: kMinTableSize_def GOOGLE_DCHECK_True bind.bind_lunit simp_thms)
qed

lemma Resize_ok:
  assumes rep: "im_rep m G" and j: "3 \<le> j" "j \<le> 60"
  shows "\<exists>m' G'. Resize (2 ^ j) m = Some m' \<and> rehashed m G m' G' \<and> im_num_buckets m' = 2 ^ j"
proof -
  have t: "table_ok m G" and i: "index_ok m" and f: "fresh_ok m"
    using rep by (auto simp: im_rep_def)
  let ?i = "im_index_of_first_non_null m"
  let ?m = "m\<lparr>im_num_buckets := 2 ^ j, im_table := replicate (2 ^ j) Null_entry, im_index_of_first_non_null := 2 ^ j\<rparr>"
  have "table_ok ?m (\<lambda>_. Chain [])"
    using j by (auto simp: table_ok_def cell_ok_def map_replicate_const)
  then have rep0: "im_rep ?m (\<lambda>_. Chain [])"
    using f by (auto simp: im_rep_def index_ok_def fresh_ok_def)
  have low: "G c = Chain []" if "c < ?i" for c
    using i that table_nth [OF t, of c]
    by (cases "G c") (auto simp: index_ok_def Let_def split: list.splits)
  have start: "even ?i" if s: "?i < im_num_buckets m" "G ?i = Shared t' ps" for t' ps
    using shared_partner [OF t s] low [of "?i - 1"] by (cases "even ?i") (auto simp: partner_eq odd_pos)
  have sub: "placed_trees m G \<subseteq> dom (im_trees m)"
    using table_okD(2) [OF t] by (fastforce simp: placed_trees_def cell_ok_def)
  have later: "{t. \<exists>j ps. ?i \<le> j \<and> j < im_num_buckets m \<and> G j = Shared t ps} = placed_trees m G"
    using low by (auto simp: placed_trees_def) (metis cell.distinct(1) not_le)
  have none: "placed_trees ?m (\<lambda>_. Chain []) = {}" "placed ?m (\<lambda>_. Chain []) = {}"
    by (auto simp: placed_trees_def placed_def)
  have "resizing m G ?i ?m (\<lambda>_. Chain [])"
    unfolding resizing_def none later using rep0 low sub start by auto
  from resize_loop_ok [OF t this] obtain m' G' k where
    m': "resize_loop (im_table m) (im_num_buckets m) ?i ?m = Some m'" "im_num_buckets m \<le> k"
      "resizing m G k m' G'" "im_num_buckets m' = 2 ^ j"
    by auto
  have all: "{..<im_num_buckets m} \<inter> {..<k} = {..<im_num_buckets m}"
    and rest: "{t. \<exists>j ps. k \<le> j \<and> j < im_num_buckets m \<and> G j = Shared t ps} = {}"
    using m'(2) by auto
  have "rehashed m G m' G'"
    using m'(3) unfolding resizing_def rehashed_def all rest by (auto simp: placed_def)
  moreover have "Resize (2 ^ j) m = Some m'"
    using m'(1) CreateEmptyTable_ok [OF j(1)] power_increasing [OF j(1), of "2 :: nat"]
    by (simp add: Resize_def)
  ultimately show ?thesis using m'(4) by blast
qed


section \<open>The load of the table\<close>

lemma rehashed_refl: "im_rep m G \<Longrightarrow> rehashed m G m G"
  by (simp add: rehashed_def)

lemma shrink_loop_ok:
  assumes "0 < h" and "c \<le> 2 ^ 60" and "h * 2 ^ lg < 2 ^ 62"
  shows "\<exists>j. shrink_loop h c lg = Some j"
  using assms(3)
proof (induction "64 - lg" arbitrary: lg rule: less_induct)
  case less
  have "(2 :: nat) ^ lg \<le> h * 2 ^ lg" using assms(1) by simp
  then have "(2 :: nat) ^ lg < 2 ^ 62" using less.prems by (rule le_less_trans)
  then have lg: "lg < 62" by (rule power_less_imp_less_exp [rotated]) simp
  have s: "size_t (push_bit lg h) = h * 2 ^ lg"
    using less.prems by (simp add: size_t_def push_bit_eq_mult)
  show ?case
  proof (cases "h * 2 ^ lg < c")
    case True
    then have "h * 2 ^ (lg + 1) < 2 ^ 62" using assms(2) by simp
    then show ?thesis
      using less.hyps [of "lg + 1"] lg True s by (subst shrink_loop.simps) auto
  next
    case False
    then show ?thesis using lg s by (subst shrink_loop.simps) auto
  qed
qed

lemma drop_bit_power: "max 8 (drop_bit j (2 ^ e :: nat)) = 2 ^ max 3 (e - j)"
proof (cases "j \<le> e")
  case True
  then have "drop_bit j (2 ^ e :: nat) = 2 ^ (e - j)"
    by (simp add: drop_bit_eq_div power_diff)
  moreover have "max (2 ^ 3) (2 ^ (e - j)) = (2 :: nat) ^ max 3 (e - j)"
    by (rule max_of_mono) (simp add: monoI)
  ultimately show ?thesis by simp
next
  case False
  then have "(2 :: nat) ^ e < 2 ^ j" by simp
  then have "drop_bit j (2 ^ e :: nat) = 0"
    by (simp add: drop_bit_eq_div)
  with False show ?thesis by (simp add: max_def)
qed

lemma ResizeIfLoadIsOutOfRange_ok:
  assumes rep: "im_rep m G"
  shows "\<exists>r m' G'. ResizeIfLoadIsOutOfRange n m = Some (r, m') \<and> rehashed m G m' G' \<and> (\<not> r \<longrightarrow> m' = m \<and> G' = G)"
proof -
  obtain e where e: "3 \<le> e" "e \<le> 60" "im_num_buckets m = 2 ^ e"
    using rep by (auto simp: im_rep_def table_ok_def)
  have "(2 :: nat) ^ e \<le> 2 ^ 60" using e(2) by (rule power_increasing) simp
  then have hi: "size_t (im_num_buckets m * 12) = 2 ^ e * 12" "2 ^ e * 12 div 16 \<le> (2 :: nat) ^ 60"
    using e(3) by (simp_all add: size_t_def)
  define hi_cutoff where "hi_cutoff = (2 :: nat) ^ e * 12 div 16"
  have grow: "\<exists>m' G'. Resize (size_t (im_num_buckets m * 2)) m = Some m' \<and> rehashed m G m' G'"
    if "im_num_buckets m \<le> im_max_size div 2"
  proof -
    have "(2 :: nat) ^ e \<le> 2 ^ 59" using that e(3) by (simp add: im_max_size_def)
    then have "e \<le> 59" by (rule power_le_imp_le_exp [rotated]) simp
    moreover have "size_t (im_num_buckets m * 2) = 2 ^ (e + 1)"
      using \<open>(2 :: nat) ^ e \<le> 2 ^ 59\<close> e(3) by (simp add: size_t_def)
    ultimately show ?thesis using Resize_ok [OF rep, of "e + 1"] e by auto
  qed
  have shrink: "\<exists>j. shrink_loop (size_t (size_t (n * 5) div 4 + 1)) hi_cutoff 1 = Some j" if "n \<le> hi_cutoff div 4"
  proof -
    have "n \<le> 2 ^ 58" using that hi(2) by (simp add: hi_cutoff_def)
    then have "size_t (size_t (n * 5) div 4 + 1) = n * 5 div 4 + 1" "n * 5 div 4 + 1 < 2 ^ 61"
      by (simp_all add: size_t_def)
    then show ?thesis using shrink_loop_ok [of "n * 5 div 4 + 1" hi_cutoff 1] hi(2) by (simp add: hi_cutoff_def)
  qed
  have small: "\<exists>m' G'. Resize (max kMinTableSize (drop_bit j (im_num_buckets m))) m = Some m' \<and> rehashed m G m' G'" for j
  proof -
    have "max 3 (e - j) \<le> 60" using e(2) by simp
    then show ?thesis using Resize_ok [OF rep, of "max 3 (e - j)"] e(3) drop_bit_power [of j e] by auto
  qed
  note unfold = ResizeIfLoadIsOutOfRange_def hi(1) hi_cutoff_def [symmetric]
  consider "hi_cutoff \<le> n" | "\<not> hi_cutoff \<le> n" "n \<le> hi_cutoff div 4" "kMinTableSize < im_num_buckets m"
    | "\<not> hi_cutoff \<le> n" "\<not> (n \<le> hi_cutoff div 4 \<and> kMinTableSize < im_num_buckets m)"
    by blast
  then show ?thesis
  proof cases
    case 1
    show ?thesis
    proof (cases "im_num_buckets m \<le> im_max_size div 2")
      case True
      with grow obtain m' G' where r: "Resize (size_t (im_num_buckets m * 2)) m = Some m'" "rehashed m G m' G'"
        by blast
      then have "ResizeIfLoadIsOutOfRange n m = Some (True, m')"
        using 1 True by (simp add: unfold Let_def)
      then show ?thesis using r(2) by blast
    next
      case False
      then show ?thesis using 1 rehashed_refl [OF rep] by (auto simp: unfold Let_def)
    qed
  next
    case 2
    then obtain j where "shrink_loop (size_t (size_t (n * 5) div 4 + 1)) hi_cutoff 1 = Some j"
      using shrink by blast
    note sh = this
    show ?thesis
    proof (cases "max kMinTableSize (drop_bit j (im_num_buckets m)) = im_num_buckets m")
      case True
      then show ?thesis using 2 sh rehashed_refl [OF rep] by (auto simp: unfold Let_def)
    next
      case False
      obtain m' G' where r: "Resize (max kMinTableSize (drop_bit j (im_num_buckets m))) m = Some m'" "rehashed m G m' G'"
        using small by blast
      then have "ResizeIfLoadIsOutOfRange n m = Some (True, m')"
        using 2 sh False by (simp add: unfold Let_def)
      then show ?thesis using r(2) by blast
    qed
  next
    case 3
    then show ?thesis using rehashed_refl [OF rep] by (auto simp: unfold Let_def)
  qed
qed

end
