(* ===== verification/Inner_Map_Ops.thy ===== *)
theory Inner_Map_Ops
  imports Inner_Map_Resize
begin

text \<open>
  The invariant of the hash table between operations (\<open>im_inv\<close>), the finite map it stands for
  (\<open>im_shows\<close>), and the correctness of creation, lookup and insertion.
\<close>

section \<open>The map that a table represents\<close>

definition im_inv :: "('k::linorder, 'v) inner_map \<Rightarrow> (nat \<Rightarrow> cell) \<Rightarrow> bool" where
  "im_inv m G \<longleftrightarrow> im_rep m G \<and> placed m G = dom (im_nodes m) \<and> placed_trees m G = dom (im_trees m) \<and>
     im_num_elements m = card (dom (im_nodes m))"

definition im_shows :: "('k::linorder, 'v) inner_map \<Rightarrow> ('k \<rightharpoonup> 'v option) \<Rightarrow> bool" where
  "im_shows m M \<longleftrightarrow> (\<exists>G. im_inv m G) \<and>
     (\<forall>k v. M k = Some v \<longleftrightarrow> (\<exists>p n. im_nodes m p = Some n \<and> n_key n = k \<and> n_value n = v))"

lemma im_showsI: "im_inv m G \<Longrightarrow>
     (\<And>k v. M k = Some v \<longleftrightarrow> (\<exists>p n. im_nodes m p = Some n \<and> n_key n = k \<and> n_value n = v)) \<Longrightarrow> im_shows m M"
  by (auto simp: im_shows_def)

lemma im_invD: "im_inv m G \<Longrightarrow> table_ok m G" "im_inv m G \<Longrightarrow> im_rep m G"
  by (auto simp: im_inv_def im_rep_def)

lemma key_injective:
  assumes "im_inv m G" and "im_nodes m p = Some n" and "im_nodes m q = Some n'" and "n_key n = n_key n'"
  shows "p = q"
proof -
  have "p \<in> placed m G" "q \<in> placed m G" "key_of m p = key_of m q"
    using assms by (auto simp: im_inv_def key_of_def)
  then show ?thesis
    using node_with_Some [OF im_invD(1) [OF assms(1)]] by (metis option.inject)
qed

lemma node_with_shows:
  assumes "im_inv m G" and "im_shows m M"
  shows "node_with m G k = Some p \<longleftrightarrow> (\<exists>n. im_nodes m p = Some n \<and> n_key n = k)"
    and "node_with m G k = None \<longleftrightarrow> M k = None"
proof -
  have t: "table_ok m G" using assms(1) by (rule im_invD)
  show 1: "node_with m G k = Some p \<longleftrightarrow> (\<exists>n. im_nodes m p = Some n \<and> n_key n = k)" for p
    using node_with_Some [OF t, of k p] assms(1) by (auto simp: im_inv_def key_of_def)
  have "(\<exists>v. M k = Some v) \<longleftrightarrow> (\<exists>p n. im_nodes m p = Some n \<and> n_key n = k)"
    using assms(2) by (auto simp: im_shows_def)
  then show "node_with m G k = None \<longleftrightarrow> M k = None"
    using 1 by (metis not_None_eq)
qed

section \<open>Creation, lookup and insertion\<close>

lemma InnerMap_ok:
  assumes "3 \<le> j" and "j \<le> 60"
  shows "\<exists>m. InnerMap (2 ^ j) h s = Some m \<and> im_shows m Map.empty"
    and "\<exists>m. InnerMap 0 h s = Some m \<and> im_shows m Map.empty"
proof -
  have new: "im_shows \<lparr>im_hasher = h, im_num_elements = 0, im_num_buckets = 2 ^ j, im_seed = s,
       im_index_of_first_non_null = 2 ^ j, im_table = replicate (2 ^ j) Null_entry, im_nodes = Map.empty,
       im_trees = Map.empty, im_fresh = 0\<rparr> Map.empty" if "3 \<le> j" "j \<le> 60" for j
    using that
    by (intro im_showsI [where G = "\<lambda>_. Chain []"])
       (auto simp: im_inv_def im_rep_def table_ok_def cell_ok_def index_ok_def fresh_ok_def placed_def placed_trees_def map_replicate_const)
  have "8 \<le> (2 :: nat) ^ j"
    using power_increasing [OF assms(1), of "2 :: nat"] by simp
  then show "\<exists>m. InnerMap (2 ^ j) h s = Some m \<and> im_shows m Map.empty"
    using CreateEmptyTable_ok [OF assms(1)] new [OF assms] by (simp add: InnerMap_def TableSize_def Let_def)
  show "\<exists>m. InnerMap 0 h s = Some m \<and> im_shows m Map.empty"
    using CreateEmptyTable_ok [of 3] new [of 3] by (simp add: InnerMap_def TableSize_def Let_def)
qed

lemma im_find_ok:
  assumes "im_shows m M"
  shows "\<exists>it. im_find m k = Some it \<and>
    (case M k of None \<Rightarrow> it_node it = None
     | Some v \<Rightarrow> \<exists>p n. it_node it = Some p \<and> im_nodes m p = Some n \<and> n_key n = k \<and> n_value n = v)"
proof -
  obtain G where G: "im_inv m G" using assms by (auto simp: im_shows_def)
  note nw = node_with_shows [OF G assms, of k]
  show ?thesis
  proof (cases "node_with m G k")
    case None
    then show ?thesis using nw(2) by (simp add: im_find_eq [OF im_invD(1) [OF G]] end_iterator_def)
  next
    case (Some p)
    then obtain n where n: "im_nodes m p = Some n" "n_key n = k"
      using nw(1) by auto
    then have "M k = Some (n_value n)"
      using assms by (auto simp: im_shows_def)
    then show ?thesis using n Some by (simp add: im_find_eq [OF im_invD(1) [OF G]])
  qed
qed

lemma im_contains_ok: "im_shows m M \<Longrightarrow> im_contains m k = Some (M k \<noteq> None)"
  using im_find_ok [of m M k] by (auto simp: im_contains_def end_iterator_def split: option.splits)

lemma rehashed_inv: "rehashed m G m' G' \<Longrightarrow> im_inv m G \<Longrightarrow> im_inv m' G'"
proof -
  assume r: "rehashed m G m' G'" and i: "im_inv m G"
  have t: "table_ok m' G'" and kv: "same_kv (im_nodes m) (im_nodes m')"
    using r by (auto simp: rehashed_def im_rep_def)
  have "placed_trees m' G' \<subseteq> dom (im_trees m')"
    using table_okD(2) [OF t] by (fastforce simp: placed_trees_def cell_ok_def)
  then show ?thesis
    using r i same_kv_dom [OF kv] by (auto simp: rehashed_def im_inv_def)
qed

lemma same_kv_shows:
  assumes "same_kv N N'"
  shows "(\<exists>p n. N' p = Some n \<and> n_key n = k \<and> n_value n = v) \<longleftrightarrow> (\<exists>p n. N p = Some n \<and> n_key n = k \<and> n_value n = v)"
proof -
  have "same_kv N' N" using assms by (simp add: same_kv_def)
  then show ?thesis
    using same_kvD [OF assms] same_kvD [of N' N] by blast
qed

lemma rehashed_shows: "rehashed m G m' G' \<Longrightarrow> im_inv m G \<Longrightarrow> im_shows m M \<Longrightarrow> im_shows m' M"
  using rehashed_inv [of m G m' G'] same_kv_shows [of "im_nodes m" "im_nodes m'"]
  by (intro im_showsI [of m' G']) (auto simp: im_shows_def rehashed_def)

definition keeps_nodes :: "('k, 'v) inner_map \<Rightarrow> ('k, 'v) inner_map \<Rightarrow> bool" where
  "keeps_nodes m m' \<longleftrightarrow> (\<forall>p n. im_nodes m p = Some n \<longrightarrow>
     (\<exists>n'. im_nodes m' p = Some n' \<and> n_key n' = n_key n \<and> n_value n' = n_value n))"

text \<open>A new node, placed in the bucket that was found for its key.\<close>

text \<open>A new node that no bucket holds yet.\<close>

definition with_new_node :: "'k \<Rightarrow> 'v option \<Rightarrow> ('k, 'v) inner_map \<Rightarrow> ('k, 'v) inner_map" where
  "with_new_node k v m = m\<lparr>im_nodes := (im_nodes m)(im_fresh m \<mapsto> \<lparr>n_key = k, n_value = v, n_next = None\<rparr>), im_fresh := im_fresh m + 1\<rparr>"

lemma with_new_node_params:
  "BucketNumber (with_new_node k v m) = BucketNumber m" "im_num_buckets (with_new_node k v m) = im_num_buckets m"
  "placed (with_new_node k v m) G = placed m G" "placed_trees (with_new_node k v m) G = placed_trees m G"
  by (auto simp: with_new_node_def BucketNumber_def placed_def placed_trees_def)

lemma with_new_node_rep:
  assumes G: "im_inv m G" and M: "im_shows m M" "M k = None"
  shows "im_rep (with_new_node k v m) G" and "\<forall>q\<in>placed m G. key_of (with_new_node k v m) q \<noteq> k"
    and "im_fresh m \<notin> dom (im_nodes m)"
proof -
  have t: "table_ok m G" and f: "fresh_ok m" and i: "index_ok m"
    using G by (auto simp: im_inv_def im_rep_def)
  show out: "im_fresh m \<notin> dom (im_nodes m)"
    using f by (auto simp: fresh_ok_def)
  have "table_ok (with_new_node k v m) G"
    unfolding with_new_node_def using G out by (intro table_ok_unplaced [OF t]) (auto simp: im_inv_def)
  then show "im_rep (with_new_node k v m) G"
    using f i by (auto simp: im_rep_def fresh_ok_def index_ok_def with_new_node_def intro: less_SucI)
  have "node_with m G k = None"
    using node_with_shows(2) [OF G M(1)] M(2) by simp
  then show "\<forall>q\<in>placed m G. key_of (with_new_node k v m) q \<noteq> k"
    using node_with_None [OF t] G out by (auto simp: im_inv_def key_of_def with_new_node_def)
qed

lemma placing_new_node:
  assumes G: "im_inv m G" and M: "im_shows m M" "M k = None"
    and pl: "placing (with_new_node k v m) G {im_fresh m} m' G'" and rep: "im_rep m' G'"
  shows "im_shows (m'\<lparr>im_num_elements := im_num_elements m' + 1\<rparr>) (M(k \<mapsto> v))"
proof -
  let ?p = "im_fresh m" and ?m1 = "with_new_node k v m"
  note out = with_new_node_rep(3) [OF G M]
  have f: "fresh_ok m" using G by (auto simp: im_inv_def im_rep_def)
  have kv: "same_kv (im_nodes ?m1) (im_nodes m')" and pl': "placed m' G' = insert ?p (placed m G)"
    using pl by (auto simp: placing_def with_new_node_params)
  have dom: "dom (im_nodes m') = insert ?p (dom (im_nodes m))"
    using same_kv_dom [OF kv] by (auto simp: with_new_node_def)
  have "finite (dom (im_nodes m))"
    by (rule finite_subset [of _ "{..<im_fresh m}"]) (use f in \<open>auto simp: fresh_ok_def\<close>)
  then have card: "card (dom (im_nodes m')) = card (dom (im_nodes m)) + 1" "placed m' G' = dom (im_nodes m')"
    using dom out pl' G by (simp_all add: im_inv_def)
  have sub: "placed_trees m' G' \<subseteq> dom (im_trees m')"
    using pl table_okD(2) [of m' G'] by (fastforce simp: placing_def placed_trees_def cell_ok_def)
  have inv: "im_inv (m'\<lparr>im_num_elements := im_num_elements m' + 1\<rparr>) G'"
    using pl rep G card with_new_node_params(4) [of k v m G] sub
    by (auto simp: im_inv_def im_rep_def index_ok_def placing_def with_new_node_def)
  have shows_m: "M k' = Some v' \<longleftrightarrow> (\<exists>p n. im_nodes m p = Some n \<and> n_key n = k' \<and> n_value n = v')" for k' v'
    using M(1) by (auto simp: im_shows_def)
  have "(M(k \<mapsto> v)) k' = Some v' \<longleftrightarrow> (\<exists>p n. im_nodes ?m1 p = Some n \<and> n_key n = k' \<and> n_value n = v')" for k' v'
    using shows_m [of k' v'] M(2) shows_m [of k] out by (auto simp: with_new_node_def) (metis domIff option.distinct(1))+
  then show ?thesis
    using same_kv_shows [OF kv] by (intro im_showsI [OF inv]) simp
qed

lemma insert_new:
  fixes v :: "'v option" and m :: "('k::linorder, 'v) inner_map"
  assumes G: "im_inv m G" and M: "im_shows m M" "M k = None"
  defines "m1 \<equiv> m\<lparr>im_nodes := (im_nodes m)(im_fresh m \<mapsto> \<lparr>n_key = k, n_value = v, n_next = None\<rparr>), im_fresh := im_fresh m + 1\<rparr>"
  shows "\<exists>it m'. InsertUnique (home m G k) (im_fresh m) m1 = Some (it, m') \<and> it_node it = Some (im_fresh m) \<and>
    im_shows (m'\<lparr>im_num_elements := im_num_elements m' + 1\<rparr>) (M(k \<mapsto> v)) \<and> keeps_nodes m m' \<and>
    (\<exists>n. im_nodes m' (im_fresh m) = Some n \<and> n_key n = k \<and> n_value n = v)"
proof -
  let ?p = "im_fresh m"
  have m1: "m1 = with_new_node k v m" by (simp add: m1_def with_new_node_def)
  note new = with_new_node_rep(1,2) [OF G M, where v = v, folded m1] with_new_node_rep(3) [OF G M] and params = with_new_node_params [of k v m, folded m1]
  have t: "table_ok m G" using G by (auto simp: im_inv_def im_rep_def)
  have chain: "BucketNumber m1 k = home m G k" if "G (home m G k) = Chain ps" for ps
    using that t table_okD(4) [OF t, of k] shared_even [OF t] by (auto simp: home_def params split: cell.splits)
  obtain it m' G' where ins: "InsertUnique (home m G k) ?p m1 = Some (it, m')" "it_node it = Some ?p"
      "placing m1 G {?p} m' G'" "im_rep m' G'"
    using InsertUnique_ok [OF new(1), of "home m G k" ?p "\<lparr>n_key = k, n_value = v, n_next = None\<rparr>"]
      home_less [OF t, of k] home_pair [of m G k] params new(2,3) G chain
    by (auto simp: m1_def im_inv_def)
  have kv: "same_kv (im_nodes m1) (im_nodes m')" using ins(3) by (simp add: placing_def)
  have "keeps_nodes m m'"
    unfolding keeps_nodes_def
  proof (intro allI impI)
    fix q n
    assume q: "im_nodes m q = Some n"
    then have "q \<noteq> ?p" using new(3) by auto
    then show "\<exists>n'. im_nodes m' q = Some n' \<and> n_key n' = n_key n \<and> n_value n' = n_value n"
      using q by (intro same_kvD [OF kv]) (simp add: m1_def)
  qed
  moreover have "\<exists>n. im_nodes m' ?p = Some n \<and> n_key n = k \<and> n_value n = v"
    using same_kvD [OF kv, of ?p] by (simp add: m1_def)
  ultimately show ?thesis
    using ins(1,2) placing_new_node [OF G M ins(3) [unfolded m1] ins(4)] by blast
qed


lemma keeps_nodes_trans: "keeps_nodes m1 m2 \<Longrightarrow> keeps_nodes m2 m3 \<Longrightarrow> keeps_nodes m1 m3"
  unfolding keeps_nodes_def by (metis)

lemma rehashed_keeps: "rehashed m G m' G' \<Longrightarrow> keeps_nodes m m'"
  using same_kvD by (fastforce simp: rehashed_def keeps_nodes_def)

text \<open>
  \<open>insert\<close> finds the element of a key or adds one; elements that were there keep their
  addresses, keys and values.
\<close>

lemma im_insert_value_ok:
  assumes M: "im_shows m M"
  shows "\<exists>it m'. im_insert_value k v m = Some ((it, M k = None), m') \<and>
    im_shows m' (if M k = None then M(k \<mapsto> v) else M) \<and> keeps_nodes m m' \<and>
    (\<exists>p n. it_node it = Some p \<and> im_nodes m' p = Some n \<and> n_key n = k \<and>
      n_value n = (case M k of None \<Rightarrow> v | Some w \<Rightarrow> w))"
proof -
  obtain G where G: "im_inv m G" using M by (auto simp: im_shows_def)
  note t = im_invD(1) [OF G]
  show ?thesis
  proof (cases "M k")
    case (Some w)
    then obtain p where p: "node_with m G k = Some p"
      using node_with_shows(2) [OF G M, of k] by auto
    then obtain n where n: "im_nodes m p = Some n" "n_key n = k"
      using node_with_shows(1) [OF G M] by auto
    then have "M k = Some (n_value n)"
      using M unfolding im_shows_def by blast
    then have "n_value n = w"
      using Some by simp
    then show ?thesis
      using p n Some M by (simp add: im_insert_value_def FindHelper_eq [OF t] keeps_nodes_def)
  next
    case None
    then have nw: "node_with m G k = None"
      using node_with_shows(2) [OF G M] by simp
    obtain r m1 G1 where r: "ResizeIfLoadIsOutOfRange (im_num_elements m + 1) m = Some (r, m1)" "rehashed m G m1 G1"
        "\<not> r \<longrightarrow> m1 = m \<and> G1 = G"
      using ResizeIfLoadIsOutOfRange_ok [OF im_invD(2) [OF G]] by blast
    have G1: "im_inv m1 G1" and M1: "im_shows m1 M"
      using rehashed_inv [OF r(2) G] rehashed_shows [OF r(2) G M] .
    have found: "(if r then FindHelper m1 k else Some (end_iterator, home m G k)) = Some (end_iterator, home m1 G1 k)"
      using r(3) node_with_shows(2) [OF G1 M1, of k] None by (simp add: FindHelper_eq [OF im_invD(1) [OF G1]])
    from insert_new [OF G1 M1 None, of v] obtain it m2 where
      ins: "InsertUnique (home m1 G1 k) (im_fresh m1)
          (m1\<lparr>im_nodes := (im_nodes m1)(im_fresh m1 \<mapsto> \<lparr>n_key = k, n_value = v, n_next = None\<rparr>), im_fresh := im_fresh m1 + 1\<rparr>) =
          Some (it, m2)" "it_node it = Some (im_fresh m1)"
        "im_shows (m2\<lparr>im_num_elements := im_num_elements m2 + 1\<rparr>) (M(k \<mapsto> v))" "keeps_nodes m1 m2"
        "\<exists>n. im_nodes m2 (im_fresh m1) = Some n \<and> n_key n = k \<and> n_value n = v"
      by blast
    have "im_insert_value k v m = Some ((it, True), m2\<lparr>im_num_elements := im_num_elements m2 + 1\<rparr>)"
      using r(1) found ins(1) nw by (cases r) (simp_all add: im_insert_value_def FindHelper_eq [OF t] Let_def end_iterator_def)
    moreover have "keeps_nodes m (m2\<lparr>im_num_elements := im_num_elements m2 + 1\<rparr>)"
      using keeps_nodes_trans [OF rehashed_keeps [OF r(2)] ins(4)] by (simp add: keeps_nodes_def)
    ultimately show ?thesis
      using ins(2,3,5) None by simp
  qed
qed

end
