(* ===== verification/Inner_Map_Iter.thy ===== *)
theory Inner_Map_Iter
  imports Inner_Map_Ops
begin

text \<open>
  Iterators of the hash table: \<open>begin\<close> and \<open>++\<close> pass the nodes in the order of the buckets
  (\<open>items_from\<close>), each once, also when the bucket index of an iterator is out of date.
\<close>

section \<open>Iterators find their bucket again\<close>

lemma list_member_loop_eq: "chain N (q # ps) \<Longrightarrow> list_member_loop N p q = Some (p \<in> set ps)"
proof (induction ps arbitrary: q)
  case Nil
  then show ?case by (subst list_member_loop.simps) auto
next
  case (Cons r ps)
  then show ?case by (subst list_member_loop.simps) auto
qed

lemma home_of_chain: "table_ok m G \<Longrightarrow> b < im_num_buckets m \<Longrightarrow> G b = Chain ps \<Longrightarrow> p \<in> set ps \<Longrightarrow> home m G (key_of m p) = b"
  using placed_bucket(3) [of m G b p] by (simp add: home_def)

lemma revalidate_ok:
  assumes t: "table_ok m G" and p: "p \<in> placed m G" "it_node it = Some p"
  defines "h \<equiv> home m G (key_of m p)"
  shows "revalidate_if_necessary it m = Some (case G h of Chain _ \<Rightarrow> True | Shared _ _ \<Rightarrow> False, it\<lparr>it_bucket := h\<rparr>)"
proof -
  define b where "b = it_bucket it AND (im_num_buckets m - 1)"
  have b: "b < im_num_buckets m"
  proof -
    obtain j where "im_num_buckets m = 2 ^ j" using t by (auto simp: table_ok_def)
    then show ?thesis unfolding b_def by (simp only: table_mask) simp
  qed
  have nw: "node_with m G (key_of m p) = Some p"
    using node_with_Some [OF t] p(1) by simp
  obtain n where n: "im_nodes m p = Some n"
    using placed_defined [OF t p(1)] by auto
  then have k: "n_key n = key_of m p" by (simp add: key_of_def)
  note kinds = table_kinds [OF t b] table_nth [OF t b] length_table [OF t]
  note start = revalidate_if_necessary_def p(2) b_def [symmetric, unfolded One_nat_def] Let_def
  have hl: "h < im_num_buckets m" using home_less [OF t] by (simp add: h_def)
  have found: "im_find m (n_key n) = Some \<lparr>it_node = Some p, it_bucket = h\<rparr>"
    "TableEntryIsList (im_table m) h = Some (case G h of Chain _ \<Rightarrow> True | Shared _ _ \<Rightarrow> False)"
    using nw k table_kinds(4) [OF t hl] by (simp_all add: im_find_eq [OF t] h_def)
  show ?thesis
  proof (cases "G b")
    case (Shared tr ps)
    then show ?thesis using b n found by (simp add: start kinds)
  next
    case (Chain ps)
    show ?thesis
    proof (cases ps)
      case Nil
      then show ?thesis using Chain b n found by (simp add: start kinds)
    next
      case (Cons q qs)
      have ch: "chain (im_nodes m) (q # qs)"
        using cell_facts(3) [OF t b Chain] Cons by simp
      show ?thesis
      proof (cases "p \<in> set ps")
        case True
        then have "h = b" using home_of_chain [OF t b Chain] by (simp add: h_def)
        then show ?thesis
          using True Chain Cons b n list_member_loop_eq [OF ch, of p]
          by (auto simp: start kinds as_node_def)
      next
        case False
        then show ?thesis
          using Chain Cons b n found list_member_loop_eq [OF ch, of p]
          by (auto simp: start kinds as_node_def)
      qed
    qed
  qed
qed

section \<open>The order of iteration\<close>

definition cell_items :: "(nat \<Rightarrow> cell) \<Rightarrow> nat \<Rightarrow> nat list" where
  "cell_items G b = (case G b of Chain ps \<Rightarrow> ps | Shared _ ps \<Rightarrow> if even b then ps else [])"

definition items_from :: "('k, 'v) inner_map \<Rightarrow> (nat \<Rightarrow> cell) \<Rightarrow> nat \<Rightarrow> nat list" where
  "items_from m G i = concat (map (cell_items G) [i..<im_num_buckets m])"

definition hd_option :: "'a list \<Rightarrow> 'a option" where
  "hd_option xs = (case xs of [] \<Rightarrow> None | x # _ \<Rightarrow> Some x)"

lemma hd_option_simps [simp]: "hd_option [] = None" "hd_option (x # xs) = Some x"
  by (simp_all add: hd_option_def)

lemma items_from_step: "i < im_num_buckets m \<Longrightarrow> items_from m G i = cell_items G i @ items_from m G (i + 1)"
  by (simp add: items_from_def upt_conv_Cons)

lemma items_from_end: "im_num_buckets m \<le> i \<Longrightarrow> items_from m G i = []"
  by (simp add: items_from_def)

lemma set_items:
  assumes t: "table_ok m G"
  shows "set (items_from m G 0) = placed m G"
proof -
  have "p \<in> set (items_from m G 0)" if "b < im_num_buckets m" "p \<in> set (cell_nodes (G b))" for b p
  proof (cases "G b")
    case (Chain ps)
    then show ?thesis using that by (auto simp: items_from_def cell_items_def intro!: bexI [of _ b])
  next
    case (Shared tr ps)
    have "even (even_bucket b)" by (simp add: even_bucket_def)
    then show ?thesis
      using that Shared shared_even [OF t that(1) Shared] even_bucket_less [OF t that(1)]
      by (auto simp: items_from_def cell_items_def intro!: bexI [of _ "even_bucket b"])
  qed
  moreover have "set (cell_items G b) \<subseteq> set (cell_nodes (G b))" for b
    by (cases "G b") (auto simp: cell_items_def)
  ultimately show ?thesis
    by (fastforce simp: placed_def items_from_def)
qed

lemma distinct_items:
  assumes t: "table_ok m G"
  shows "distinct (items_from m G i)"
proof (induction "im_num_buckets m - i" arbitrary: i)
  case 0
  then show ?case by (simp add: items_from_end)
next
  case (Suc d)
  then have i: "i < im_num_buckets m" by simp
  have one: "distinct (cell_items G i)"
    using cell_facts(1) [OF t i] by (cases "G i") (auto simp: cell_items_def distinct_map)
  have "p \<notin> set (items_from m G (i + 1))" if p: "p \<in> set (cell_items G i)" for p
  proof
    assume "p \<in> set (items_from m G (i + 1))"
    then obtain c where c: "i < c" "c < im_num_buckets m" "p \<in> set (cell_items G c)"
      by (auto simp: items_from_def Suc_le_eq)
    have pn: "p \<in> set (cell_nodes (G i))" "p \<in> set (cell_nodes (G c))"
      using p c(3) by (cases "G i"; cases "G c"; auto simp: cell_items_def split: if_splits)+
    have u: "G i = G c" "i div 2 = c div 2"
      using placed_unique [OF t i c(2) pn] by auto
    show False
    proof (cases "G i")
      case (Chain ps)
      then show ?thesis using placed_bucket(3) [OF t i pn(1)] placed_bucket(3) [OF t c(2) pn(2)] u c(1) by simp
    next
      case (Shared tr ps)
      then have "even i" "even c"
        using p c(3) u by (auto simp: cell_items_def split: if_splits)
      then show ?thesis using u(2) c(1) by presburger
    qed
  qed
  then show ?case
    using one Suc.hyps(1) [of "i + 1"] Suc.hyps(2) items_from_step [OF i] by auto
qed

lemma search_loop_ok:
  assumes t: "table_ok m G" and "\<And>tr ps. i < im_num_buckets m \<Longrightarrow> G i = Shared tr ps \<Longrightarrow> even i"
  shows "\<exists>it. search_loop m i = Some it \<and> it_node it = hd_option (items_from m G i)"
  using assms(2)
proof (induction "im_num_buckets m - i" arbitrary: i)
  case 0
  then show ?case by (subst search_loop.simps) (auto simp: items_from_end)
next
  case (Suc d)
  then have i: "i < im_num_buckets m" by simp
  note kinds = table_kinds [OF t i] table_nth [OF t i] length_table [OF t] items_from_step [OF i]
  show ?case
  proof (cases "G i")
    case (Shared tr ps)
    then have "even i" using Suc.prems i by blast
    moreover have "im_trees m tr = Some ps" "ps \<noteq> []"
      using table_okD(2) [OF t i] Shared by (auto simp: cell_ok_def)
    ultimately show ?thesis
      using Shared i by (subst search_loop.simps) (cases ps; simp add: kinds as_tree_def cell_items_def)
  next
    case (Chain ps)
    show ?thesis
    proof (cases ps)
      case Nil
      have "even (i + 1)" if "i + 1 < im_num_buckets m" "G (i + 1) = Shared tr qs" for tr qs
        using shared_partner [OF t that] Chain by (cases "even i") (auto simp: partner_eq)
      then obtain it where "search_loop m (i + 1) = Some it" "it_node it = hd_option (items_from m G (i + 1))"
        using Suc.hyps(1) [of "i + 1"] Suc.hyps(2) Suc_diff_Suc [OF i] by auto
      then show ?thesis
        using Chain Nil i by (subst search_loop.simps) (simp add: kinds cell_items_def)
    next
      case (Cons p qs)
      then show ?thesis
        using Chain i by (subst search_loop.simps) (simp add: kinds as_node_def cell_items_def)
    qed
  qed
qed


lemma SearchFrom_ok:
  assumes "im_rep m G" and "\<And>tr ps. i < im_num_buckets m \<Longrightarrow> G i = Shared tr ps \<Longrightarrow> even i"
  shows "\<exists>it. SearchFrom i m = Some it \<and> it_node it = hd_option (items_from m G i)"
  using assms search_loop_ok [of m G i] first_non_null_check_ok [of m G] by (auto simp: SearchFrom_def im_rep_def)

lemma below_first:
  assumes "table_ok m G" and "index_ok m" and "c < im_index_of_first_non_null m"
  shows "G c = Chain []"
  using assms(2,3) table_nth [OF assms(1), of c]
  by (cases "G c") (auto simp: index_ok_def Let_def split: list.splits)

lemma items_from_first:
  assumes "table_ok m G" and "index_ok m"
  shows "items_from m G (im_index_of_first_non_null m) = items_from m G 0"
proof -
  let ?i = "im_index_of_first_non_null m"
  have "?i \<le> im_num_buckets m" using assms(2) by (simp add: index_ok_def Let_def)
  then have "[0..<im_num_buckets m] = [0..<?i] @ [?i..<im_num_buckets m]"
    using upt_add_eq_append [of 0 ?i "im_num_buckets m - ?i"] by simp
  moreover have "concat (map (cell_items G) [0..<?i]) = []"
    using below_first [OF assms] by (auto simp: cell_items_def)
  ultimately show ?thesis by (simp add: items_from_def)
qed

lemma first_even:
  assumes "table_ok m G" and "index_ok m"
    and "im_index_of_first_non_null m < im_num_buckets m" and "G (im_index_of_first_non_null m) = Shared tr ps"
  shows "even (im_index_of_first_non_null m)"
  using shared_partner [OF assms(1,3,4)] below_first [OF assms(1,2), of "im_index_of_first_non_null m - 1"]
  by (cases "even (im_index_of_first_non_null m)") (auto simp: partner_eq odd_pos)

lemma im_begin_ok: "im_rep m G \<Longrightarrow> \<exists>it. im_begin m = Some it \<and> it_node it = hd_option (items_from m G 0)"
  using SearchFrom_ok [of m G "im_index_of_first_non_null m"] first_even [of m G] items_from_first [of m G]
  by (auto simp: im_begin_def im_rep_def)

lemma tree_next_eq: "distinct (xs @ p # ys) \<Longrightarrow> tree_next p (xs @ p # ys) = Some (hd_option ys)"
  by (induction xs) (auto simp: hd_option_def split: list.split)

lemma chain_next: "chain N (xs @ p # ys) \<Longrightarrow> \<exists>n. N p = Some n \<and> n_next n = hd_option ys"
  by (induction xs) (auto simp: hd_option_def)

text \<open>The items of the home bucket of a node, with what comes before and after.\<close>

lemma items_split:
  assumes "h < im_num_buckets m"
  shows "items_from m G 0 = concat (map (cell_items G) [0..<h]) @ cell_items G h @ items_from m G (h + 1)"
proof -
  have "[0..<im_num_buckets m] = [0..<h] @ h # [h + 1..<im_num_buckets m]"
    using assms upt_add_eq_append [of 0 h "im_num_buckets m - h"] by (simp add: upt_conv_Cons)
  then show ?thesis by (simp add: items_from_def)
qed

lemma find_mem: "find P xs = Some x \<Longrightarrow> x \<in> set xs"
  by (induction xs) (auto split: if_splits)

lemma home_items:
  assumes t: "table_ok m G" and p: "p \<in> placed m G"
  shows "p \<in> set (cell_items G (home m G (key_of m p)))"
proof -
  let ?b = "BucketNumber m (key_of m p)"
  have "node_with m G (key_of m p) = Some p"
    using node_with_Some [OF t] p by simp
  then have mem: "p \<in> set (cell_nodes (G ?b))"
    by (simp add: node_with_def find_mem)
  have "even (even_bucket ?b)" by (simp add: even_bucket_def)
  then show ?thesis
    using mem shared_even [OF t table_okD(4) [OF t]] by (cases "G ?b") (auto simp: home_def cell_items_def)
qed

lemma same_split: "distinct (xs @ p # ys) \<Longrightarrow> xs @ p # ys = us @ p # vs \<Longrightarrow> ys = vs"
proof (induction xs arbitrary: us)
  case Nil
  then show ?case by (cases us) auto
next
  case (Cons x xs)
  show ?case
  proof (cases us)
    case Nil
    then show ?thesis using Cons.prems by auto
  next
    case (Cons u us')
    have "distinct (xs @ p # ys)" using Cons.prems(1) by simp
    moreover have "xs @ p # ys = us' @ p # vs" using Cons.prems(2) \<open>us = u # us'\<close> by simp
    ultimately show ?thesis by (rule Cons.IH)
  qed
qed

lemma im_increment_ok:
  assumes rep: "im_rep m G" and it: "it_node it = Some p" and items: "items_from m G 0 = xs @ p # ys"
  shows "\<exists>it'. im_increment it m = Some it' \<and> it_node it' = hd_option ys"
proof -
  have t: "table_ok m G" using rep by (simp add: im_rep_def)
  have p: "p \<in> placed m G" using set_items [OF t] items by auto
  define h where "h = home m G (key_of m p)"
  have h: "h < im_num_buckets m" using home_less [OF t] by (simp add: h_def)
  obtain us vs where uv: "cell_items G h = us @ p # vs"
    using home_items [OF t p] by (auto simp: h_def dest: split_list)
  have "xs @ p # ys = (concat (map (cell_items G) [0..<h]) @ us) @ p # vs @ items_from m G (h + 1)"
    using items items_split [OF h, of G] uv by simp
  moreover have "distinct (xs @ p # ys)"
    using distinct_items [OF t, of 0] items by metis
  ultimately have ys: "ys = vs @ items_from m G (h + 1)"
    using same_split by metis
  obtain n where n: "im_nodes m p = Some n" using placed_defined [OF t p] by auto
  note reval = revalidate_ok [OF t p it, folded h_def]
  note kinds = table_nth [OF t h] length_table [OF t] im_increment_def it n
  show ?thesis
  proof (cases "G h")
    case (Chain ps)
    then have ps: "ps = us @ p # vs" using uv by (simp add: cell_items_def)
    have next_n: "n_next n = hd_option vs"
      using chain_next [of "im_nodes m" us p vs] cell_facts(3) [OF t h Chain] ps n by auto
    show ?thesis
    proof (cases vs)
      case Nil
      have "even (h + 1)" if "h + 1 < im_num_buckets m" "G (h + 1) = Shared tr qs" for tr qs
        using shared_partner [OF t that] Chain by (cases "even h") (auto simp: partner_eq)
      then show ?thesis
        using SearchFrom_ok [OF rep, of "h + 1"] Nil next_n ys Chain reval by (auto simp: kinds)
    next
      case (Cons q qs)
      then show ?thesis using next_n ys by (simp add: kinds)
    qed
  next
    case (Shared tr ps)
    have ev: "even h" and ps: "ps = us @ p # vs" using uv Shared by (auto simp: cell_items_def split: if_splits)
    have cell: "im_trees m tr = Some ps" "n_next n = None"
      using table_okD(2) [OF t h] Shared ps n by (auto simp: cell_ok_def)
    have "distinct ps"
      using cell_facts(1) [OF t h] Shared by (simp add: distinct_map)
    then have tn: "tree_next p ps = Some (hd_option vs)" using tree_next_eq ps by simp
    have other: "h + 1 < im_num_buckets m" "G (h + 1) = Shared tr ps"
      using table_okD(3) [OF t h] shared_partner [OF t h Shared] ev by (auto simp: partner_eq)
    have skip: "items_from m G (h + 1) = items_from m G (h + 2)"
      using items_from_step [OF other(1), of G] other(2) ev by (simp add: cell_items_def)
    have "h AND 1 = 0" using ev by (simp add: and_one_eq even_iff_mod_2_eq_zero)
    note kinds = kinds this [unfolded One_nat_def] ev [unfolded even_iff_mod_2_eq_zero]
    show ?thesis
    proof (cases vs)
      case Nil
      have "even (h + 2)" using ev by simp
      then show ?thesis
        using SearchFrom_ok [OF rep, of "h + 2"] Nil cell ys skip Shared reval tn h by (auto simp: kinds as_tree_def)
    next
      case (Cons q qs)
      then show ?thesis using cell ys Shared reval tn h by (simp add: kinds as_tree_def)
    qed
  qed
qed

text \<open>A loop over all elements, as in the copy constructor of \<open>Map\<close>.\<close>

partial_function (option) im_visit :: "map_iterator \<Rightarrow> ('k::linorder, 'v) inner_map \<Rightarrow> nat list option" where
  "im_visit it m =
     (case it_node it of
        None \<Rightarrow> Some []
      | Some p \<Rightarrow> do { it \<leftarrow> im_increment it m; ps \<leftarrow> im_visit it m; Some (p # ps) })"

lemma im_visit_ok:
  assumes rep: "im_rep m G" and "items_from m G 0 = xs @ ys" and "it_node it = hd_option ys"
  shows "im_visit it m = Some ys"
  using assms(2,3)
proof (induction ys arbitrary: xs it)
  case Nil
  then show ?case by (subst im_visit.simps) simp
next
  case (Cons y ys)
  obtain it' where "im_increment it m = Some it'" "it_node it' = hd_option ys"
    using im_increment_ok [OF rep, of it y xs ys] Cons.prems by auto
  then show ?case
    using Cons.IH [of "xs @ [y]" it'] Cons.prems by (subst im_visit.simps) simp
qed

end
