(* ===== verification/Inner_Map_Erase.thy ===== *)
theory Inner_Map_Erase
  imports Inner_Map_Iter
begin

text \<open>
  Removal of an element from the hash table: the node leaves its list or tree, an empty tree is
  destroyed, and the index of the first non-empty bucket is brought up to date.
\<close>

section \<open>Removing an element\<close>

lemma chain_Cons: "chain N (p # ps) \<longleftrightarrow> (\<exists>n. N p = Some n \<and> n_next n = hd_option ps) \<and> chain N ps"
  by (simp add: hd_option_def)

lemma EraseFromLinkedList_ok:
  assumes "chain (im_nodes m) (q # ps)" and "distinct (q # ps)" and "p \<in> set (q # ps)"
  shows "\<exists>N'. EraseFromLinkedList p q m = Some (hd_option (remove1 p (q # ps)), m\<lparr>im_nodes := N'\<rparr>) \<and>
    chain N' (remove1 p (q # ps)) \<and> same_kv (im_nodes m) N' \<and> (\<forall>r. r \<notin> set (q # ps) \<longrightarrow> N' r = im_nodes m r)"
  using assms
proof (induction ps arbitrary: q)
  case Nil
  then show ?case by (subst EraseFromLinkedList.simps) (auto intro!: exI [of _ "im_nodes m"])
next
  case (Cons r ps)
  then obtain n where n: "im_nodes m q = Some n" "n_next n = Some r" and rest: "chain (im_nodes m) (r # ps)"
    by auto
  show ?case
  proof (cases "q = p")
    case True
    then show ?thesis
      using n rest Cons.prems(2) by (subst EraseFromLinkedList.simps) (auto intro!: exI [of _ "im_nodes m"])
  next
    case False
    then obtain N' where N': "EraseFromLinkedList p r m = Some (hd_option (remove1 p (r # ps)), m\<lparr>im_nodes := N'\<rparr>)"
        "chain N' (remove1 p (r # ps))" "same_kv (im_nodes m) N'" "\<forall>x. x \<notin> set (r # ps) \<longrightarrow> N' x = im_nodes m x"
      using Cons.IH [OF rest] Cons.prems(2,3) by auto
    let ?N = "N'(q \<mapsto> n\<lparr>n_next := hd_option (remove1 p (r # ps))\<rparr>)"
    have q: "N' q = Some n" using N'(4) n(1) Cons.prems(2) by simp
    have "q \<notin> set (remove1 p (r # ps))"
      using Cons.prems(2) by (intro notin_set_remove1) simp
    then have "chain ?N (remove1 p (r # ps)) = chain N' (remove1 p (r # ps))"
      by (intro chain_cong) auto
    then have "chain ?N (remove1 p (r # ps))"
      using N'(2) by (simp only:)
    moreover have "remove1 p (q # r # ps) = q # remove1 p (r # ps)" using False by simp
    ultimately have "chain ?N (remove1 p (q # r # ps))"
      by (simp only: chain_Cons) auto
    moreover have "same_kv (im_nodes m) ?N"
      using same_kv_trans [OF N'(3)] same_kv_next [of N' q n] q by blast
    moreover have "EraseFromLinkedList p q m = Some (hd_option (remove1 p (q # r # ps)), m\<lparr>im_nodes := ?N\<rparr>)"
      using N'(1) n q False by (subst EraseFromLinkedList.simps) simp
    moreover have "\<forall>x. x \<notin> set (q # r # ps) \<longrightarrow> ?N x = im_nodes m x"
      using N'(4) by simp
    ultimately show ?thesis by (intro exI [of _ ?N] conjI)
  qed
qed

lemma tree_erase_key_eq:
  assumes "\<forall>q\<in>set ps. N q \<noteq> None" and "distinct (map (\<lambda>q. n_key (the (N q))) ps)" and "p \<in> set ps"
  shows "tree_erase_key N (n_key (the (N p))) ps = Some (remove1 p ps)"
  using assms by (induction ps) auto

lemma table_ok_node_gone:
  assumes t: "table_ok m G" and p: "p \<notin> placed m G"
  shows "table_ok (m\<lparr>im_nodes := (im_nodes m)(p := None)\<rparr>) G"
proof -
  have "table_ok (m\<lparr>im_nodes := (im_nodes m)(p := None), im_fresh := im_fresh m\<rparr>) G"
    by (rule table_ok_unplaced [OF t]) (use p in auto)
  then show ?thesis by simp
qed

lemma first_non_null_loop_ok:
  assumes "i \<le> n" and "length T = n"
  shows "\<exists>j. first_non_null_loop T n i = Some j \<and> i \<le> j \<and> j \<le> n \<and> (\<forall>c. i \<le> c \<and> c < j \<longrightarrow> T ! c = Null_entry) \<and>
    (j < n \<longrightarrow> T ! j \<noteq> Null_entry)"
  using assms(1)
proof (induction "n - i" arbitrary: i)
  case 0
  then show ?case by (subst first_non_null_loop.simps) auto
next
  case (Suc d)
  then have i: "i < n" by simp
  show ?case
  proof (cases "T ! i = Null_entry")
    case True
    obtain j where "first_non_null_loop T n (i + 1) = Some j" "i + 1 \<le> j" "j \<le> n"
        "\<forall>c. i + 1 \<le> c \<and> c < j \<longrightarrow> T ! c = Null_entry" "j < n \<longrightarrow> T ! j \<noteq> Null_entry"
      using Suc.hyps(1) [of "i + 1"] Suc.hyps(2) Suc_diff_Suc [OF i] i by auto
    moreover from this have "T ! c = Null_entry" if "i \<le> c" "c < j" for c
      using that True by (cases "c = i") auto
    ultimately show ?thesis
      using True i assms(2) by (subst first_non_null_loop.simps) auto
  next
    case False
    then show ?thesis using i assms(2) by (subst first_non_null_loop.simps) auto
  qed
qed

text \<open>The index of the first bucket after an element of bucket \<open>b\<close> has been removed.\<close>

lemma index_after_erase:
  assumes old: "index_ok m" and len: "length (im_table m') = im_num_buckets m'" "im_num_buckets m' = im_num_buckets m"
    and same: "im_index_of_first_non_null m' = im_index_of_first_non_null m"
    and b: "im_index_of_first_non_null m \<le> b" "b < im_num_buckets m"
    and table: "\<And>c. c < b \<Longrightarrow> im_table m' ! c = im_table m ! c"
  shows "\<exists>m''. (if b = im_index_of_first_non_null m' then do {
       i \<leftarrow> first_non_null_loop (im_table m') (im_num_buckets m') (im_index_of_first_non_null m');
       Some (m'\<lparr>im_index_of_first_non_null := i\<rparr>) }
     else Some m') = Some m'' \<and> index_ok m'' \<and> (\<exists>i. m'' = m'\<lparr>im_index_of_first_non_null := i\<rparr>)"
proof (cases "b = im_index_of_first_non_null m'")
  case True
  then have eq: "im_index_of_first_non_null m = b" using same by simp
  obtain j where j: "first_non_null_loop (im_table m') (im_num_buckets m') b = Some j" "b \<le> j" "j \<le> im_num_buckets m'"
      "\<forall>c. b \<le> c \<and> c < j \<longrightarrow> im_table m' ! c = Null_entry" "j < im_num_buckets m' \<longrightarrow> im_table m' ! j \<noteq> Null_entry"
    using first_non_null_loop_ok [OF _ len(1), of b] b len by auto
  have "im_table m' ! c = Null_entry" if "c < j" for c
    using that old table eq j(4) by (cases "c < b") (auto simp: index_ok_def Let_def)
  then show ?thesis
    using True j by (auto simp: index_ok_def Let_def)
next
  case False
  then have "im_index_of_first_non_null m < b" using b same by simp
  then have "index_ok m'"
    using old table b len same by (auto simp: index_ok_def Let_def)
  then show ?thesis using False by (auto intro!: exI [of _ "im_index_of_first_non_null m'"])
qed


lemma items_remove:
  assumes t: "table_ok m G" and h: "h < im_num_buckets m" and p: "p \<in> set (cell_items G h)"
    and nb: "im_num_buckets m' = im_num_buckets m"
    and cells: "\<And>c. c \<noteq> h \<Longrightarrow> cell_items G' c = cell_items G c" "cell_items G' h = remove1 p (cell_items G h)"
  shows "items_from m' G' 0 = remove1 p (items_from m G 0)"
proof -
  let ?low = "concat (map (cell_items G) [0..<h])"
  have "distinct (?low @ cell_items G h @ items_from m G (h + 1))"
    using distinct_items [OF t, of 0] items_split [OF h, of G] by metis
  then have "p \<notin> set ?low" using p by auto
  then have rem: "remove1 p (items_from m G 0) = ?low @ remove1 p (cell_items G h) @ items_from m G (h + 1)"
    unfolding items_split [OF h] using p by (simp only: remove1_append if_not_P if_P if_False if_True)
  have "items_from m' G' (h + 1) = items_from m G (h + 1)" "concat (map (cell_items G') [0..<h]) = ?low"
    using cells(1) by (auto simp: items_from_def nb intro!: arg_cong [of _ _ concat] map_cong)
  then show ?thesis
    using items_split [of h m' G'] h nb cells(2) rem by simp
qed

definition erased :: "('k::linorder, 'v) inner_map \<Rightarrow> (nat \<Rightarrow> cell) \<Rightarrow> nat \<Rightarrow> ('k, 'v) inner_map \<Rightarrow> (nat \<Rightarrow> cell) \<Rightarrow> bool" where
  "erased m G p m' G' \<longleftrightarrow>
     im_inv m' G' \<and> items_from m' G' 0 = remove1 p (items_from m G 0) \<and> im_nodes m' p = None \<and>
     same_kv ((im_nodes m)(p := None)) (im_nodes m') \<and> im_hasher m' = im_hasher m"


text \<open>The table after the node has left bucket \<open>h\<close>, before it is destroyed.\<close>

definition cut_out :: "('k::linorder, 'v) inner_map \<Rightarrow> (nat \<Rightarrow> cell) \<Rightarrow> nat \<Rightarrow> nat \<Rightarrow> ('k, 'v) inner_map \<Rightarrow> (nat \<Rightarrow> cell) \<Rightarrow> bool" where
  "cut_out m G h p m1 G1 \<longleftrightarrow>
     table_ok m1 G1 \<and> placed m1 G1 = placed m G - {p} \<and> same_params m m1 \<and> same_kv (im_nodes m) (im_nodes m1) \<and>
     placed_trees m1 G1 = dom (im_trees m1) \<and> dom (im_trees m1) \<subseteq> dom (im_trees m) \<and>
     im_num_elements m1 = im_num_elements m \<and> im_fresh m1 = im_fresh m \<and>
     im_index_of_first_non_null m1 = im_index_of_first_non_null m \<and>
     (\<forall>c<h. im_table m1 ! c = im_table m ! c) \<and> items_from m1 G1 0 = remove1 p (items_from m G 0)"

lemma cut_outI:
  assumes t: "table_ok m G" and h: "h < im_num_buckets m" and p: "p \<in> set (cell_items G h)" and m1: "table_ok m1 G1"
    and same: "same_params m m1" "same_kv (im_nodes m) (im_nodes m1)" "im_num_elements m1 = im_num_elements m"
      "im_fresh m1 = im_fresh m" "im_index_of_first_non_null m1 = im_index_of_first_non_null m"
    and trees: "placed_trees m1 G1 = dom (im_trees m1)" "dom (im_trees m1) \<subseteq> dom (im_trees m)"
    and table: "\<And>c. c < h \<Longrightarrow> im_table m1 ! c = im_table m ! c"
    and nodes: "\<And>c. c < im_num_buckets m \<Longrightarrow> set (cell_nodes (G1 c)) = set (cell_nodes (G c)) - {p}"
    and items: "\<And>c. c \<noteq> h \<Longrightarrow> cell_items G1 c = cell_items G c" "cell_items G1 h = remove1 p (cell_items G h)"
  shows "cut_out m G h p m1 G1"
proof -
  have nb: "im_num_buckets m1 = im_num_buckets m" using same(1) by (simp add: same_params_def)
  have "placed m1 G1 = placed m G - {p}" using nodes by (auto simp: placed_def nb)
  moreover have "items_from m1 G1 0 = remove1 p (items_from m G 0)"
    by (rule items_remove [OF t h p nb items])
  ultimately show ?thesis using m1 same trees table by (simp add: cut_out_def)
qed

lemma placed_home_unique:
  assumes t: "table_ok m G" and h: "h < im_num_buckets m" and G: "G h = Chain ps" "p \<in> set ps"
    and c: "c < im_num_buckets m" "p \<in> set (cell_nodes (G c))"
  shows "c = h"
proof -
  have "BucketNumber m (key_of m p) = h" using table_okD(2) [OF t h] G by (auto simp: cell_ok_def)
  moreover have "G c = Chain ps" using placed_unique [OF t h c(1), of p p] c(2) G by auto
  ultimately show ?thesis using placed_bucket(3) [OF t c(1,2)] by simp
qed

text \<open>A list that has become shorter.\<close>

lemma shorter_chain_ok:
  assumes t: "table_ok m G" and h: "h < im_num_buckets m" "G h = Chain ps"
    and qs: "set qs \<subseteq> set ps" "length qs \<le> length ps" "distinct qs"
    and N: "chain N' qs" "same_kv (im_nodes m) N'" "\<forall>r. r \<notin> set ps \<longrightarrow> N' r = im_nodes m r"
  defines "m1 \<equiv> m\<lparr>im_nodes := N', im_table := (im_table m)[h := entry_of_node (hd_option qs)]\<rparr>"
  shows "table_ok m1 (G(h := Chain qs))"
proof -
  let ?G = "G(h := Chain qs)"
  have cell: "chain (im_nodes m) ps" "length ps \<le> 8" "distinct (map (key_of m) ps)" "\<forall>r\<in>set ps. BucketNumber m (key_of m r) = h"
    using table_okD(2) [OF t h(1)] h(2) by (auto simp: cell_ok_def)
  have same: "same_params m m1" by (simp add: m1_def same_params_def)
  have key: "key_of m1 r = key_of m r" if "im_nodes m r \<noteq> None" for r
    using same_kv_key [of m m1 r] N(2) that by (simp add: m1_def)
  have keysmap: "map (key_of m1) xs = map (key_of m) xs" if "set xs \<subseteq> dom (im_nodes m)" for xs
    using that key by (auto intro!: map_cong)
  have inplace: "set qs \<subseteq> dom (im_nodes m)" using chain_defined [OF cell(1)] qs(1) by blast
  obtain rs where rs: "G (partner h) = Chain rs" using chain_not_shared [OF t h] .
  have pl: "partner h < im_num_buckets m" using table_okD(3) [OF t h(1)] .
  have old: "chain (im_nodes m) rs" "length rs \<le> 8" "distinct (map (key_of m) rs)" "\<forall>r\<in>set rs. BucketNumber m (key_of m r) = partner h"
    using table_okD(2) [OF t pl] rs by (auto simp: cell_ok_def)
  have disj: "set ps \<inter> set rs = {}" using cell(4) old(4) partner_neq(1) [of h] by (metis disjoint_iff)
  have "distinct (map (key_of m) qs)"
    using cell(3) qs(1,3) by (auto simp: distinct_map intro: inj_on_subset)
  then have "distinct (map (key_of m1) qs)" by (simp only: keysmap [OF inplace])
  then have cell1: "cell_ok m1 ?G h"
    using N(1) qs(1,2) cell(2,4) key inplace
    by (auto simp: cell_ok_def same_params_bucket [OF same] subset_iff domIff) (simp add: m1_def)
  have def: "set rs \<subseteq> dom (im_nodes m)" using chain_defined [OF old(1)] by auto
  have "chain (im_nodes m1) rs = chain (im_nodes m) rs"
    using N(3) disj by (intro chain_cong) (auto simp: m1_def)
  moreover have "distinct (map (key_of m1) rs)" using old(3) by (simp only: keysmap [OF def])
  ultimately have cell2: "cell_ok m1 ?G (partner h)"
    using rs old key def by (auto simp: cell_ok_def same_params_bucket [OF same])
  have entry: "entry_of_node (hd_option xs) = cell_entry (Chain xs)" for xs
    by (cases xs) (simp_all add: entry_of_node_def)
  show ?thesis
  proof (rule table_ok_upd [OF t h(1) same _ _ _ _ cell1 cell2])
    show "same_kv (im_nodes m) (im_nodes m1)" using N(2) by (simp add: m1_def)
    show "im_nodes m1 r = im_nodes m r" if "r \<notin> set (cell_nodes (G h))" for r
      using N(3) that h(2) by (simp add: m1_def)
    show "im_table m1 = map (\<lambda>b. cell_entry (?G b)) [0..<im_num_buckets m]"
      unfolding table_upd [OF h(1)] by (simp add: m1_def entry table_okD(1) [OF t] del: cell_entry.simps)
  qed (simp_all add: m1_def)
qed

lemma erase_list_ok:
  assumes inv: "im_inv m G" and h: "h < im_num_buckets m" and G: "G h = Chain ps" "p \<in> set ps"
  shows "\<exists>m1 G1. erase_from_list h p m = Some (h, m1) \<and> cut_out m G h p m1 G1"
proof -
  have t: "table_ok m G" using im_invD(1) [OF inv] .
  obtain q qs where ps: "ps = q # qs" using G(2) by (cases ps) auto
  let ?ps = "remove1 p ps"
  have cell: "chain (im_nodes m) ps" "distinct (map (key_of m) ps)"
    using table_okD(2) [OF t h] G(1) by (auto simp: cell_ok_def)
  have dist: "distinct ps" using cell(2) by (simp add: distinct_map)
  then have sub: "set ?ps = set ps - {p}" by simp
  obtain N' where N': "EraseFromLinkedList p q m = Some (hd_option ?ps, m\<lparr>im_nodes := N'\<rparr>)"
      "chain N' ?ps" "same_kv (im_nodes m) N'" "\<forall>r. r \<notin> set ps \<longrightarrow> N' r = im_nodes m r"
    using EraseFromLinkedList_ok [of m q qs p] cell(1) dist G(2) ps by auto
  let ?G = "G(h := Chain ?ps)"
  define m1 where "m1 = m\<lparr>im_nodes := N', im_table := (im_table m)[h := entry_of_node (hd_option ?ps)]\<rparr>"
  have run: "erase_from_list h p m = Some (h, m1)"
    using N'(1) h G(1) ps
    by (simp add: erase_from_list_def table_kinds [OF t h] table_nth [OF t h] length_table [OF t] as_node_def m1_def)
  have t1: "table_ok m1 ?G"
    unfolding m1_def using sub dist by (intro shorter_chain_ok [OF t h G(1) _ _ _ N'(2-4)]) (auto simp: length_remove1)
  have nodes: "set (cell_nodes (?G c)) = set (cell_nodes (G c)) - {p}" if "c < im_num_buckets m" for c
    using placed_home_unique [OF t h G that] sub G(1) by (cases "c = h") auto
  have "placed_trees m1 ?G = placed_trees m G"
    using G(1) by (auto simp: placed_trees_def m1_def) (metis cell.distinct(1))
  then have trees: "placed_trees m1 ?G = dom (im_trees m1)" using inv by (simp add: m1_def im_inv_def)
  have "cut_out m G h p m1 ?G"
    by (rule cut_outI [OF t h _ t1]) (use G trees N'(3) nodes in \<open>auto simp: m1_def cell_items_def same_params_def\<close>)
  then show ?thesis using run by blast
qed

text \<open>The tree of a pair of buckets.\<close>

lemma shared_tree:
  assumes t: "table_ok m G" and h: "h < im_num_buckets m" "even h" and G: "G h = Shared tr ps" "p \<in> set ps"
  shows "im_trees m tr = Some ps" and "sorted_wrt (<) (map (key_of m) ps)" and "distinct ps"
    and "\<forall>r\<in>set ps. (\<exists>n. im_nodes m r = Some n \<and> n_next n = None) \<and> BucketNumber m (key_of m r) div 2 = h div 2"
    and "partner h = h + 1" and "even_bucket h = h" and "h + 1 < im_num_buckets m" and "G (h + 1) = Shared tr ps"
    and "c < im_num_buckets m \<Longrightarrow> c \<noteq> h \<Longrightarrow> c \<noteq> h + 1 \<Longrightarrow> p \<notin> set (cell_nodes (G c))"
    and "\<exists>n. im_nodes m p = Some n \<and> tree_erase_key (im_nodes m) (n_key n) ps = Some (remove1 p ps)"
proof -
  show cell: "im_trees m tr = Some ps" "sorted_wrt (<) (map (key_of m) ps)"
      "\<forall>r\<in>set ps. (\<exists>n. im_nodes m r = Some n \<and> n_next n = None) \<and> BucketNumber m (key_of m r) div 2 = h div 2"
    using table_okD(2) [OF t h(1)] G(1) by (auto simp: cell_ok_def)
  have dist: "distinct (map (key_of m) ps)" using cell(2) strict_sorted_iff by auto
  then show "distinct ps" by (simp add: distinct_map)
  show ph: "partner h = h + 1" "even_bucket h = h" using h(2) by (auto simp: partner_eq even_bucket_def)
  show "h + 1 < im_num_buckets m" "G (h + 1) = Shared tr ps"
    using table_okD(3) [OF t h(1)] shared_partner [OF t h(1) G(1)] ph by auto
  show "p \<notin> set (cell_nodes (G c))" if "c < im_num_buckets m" "c \<noteq> h" "c \<noteq> h + 1"
  proof
    assume a: "p \<in> set (cell_nodes (G c))"
    have "c div 2 = h div 2" using placed_unique [OF t h(1) that(1), of p p] a G by auto
    then show False using same_pair [of c h] ph that by simp
  qed
  obtain n where n: "im_nodes m p = Some n" using cell(3) G(2) by auto
  then show "\<exists>n. im_nodes m p = Some n \<and> tree_erase_key (im_nodes m) (n_key n) ps = Some (remove1 p ps)"
    using tree_erase_key_eq [of ps "im_nodes m" p] cell(3) dist G(2) by (auto simp: key_of_def [abs_def])
qed

lemma sorted_wrt_remove1: "sorted_wrt P xs \<Longrightarrow> sorted_wrt P (remove1 x xs)"
proof (induction xs)
  case (Cons a as)
  then show ?case using notin_set_remove1 set_remove1_subset [of x as] by auto
qed simp

lemma erase_tree_smaller:
  assumes inv: "im_inv m G" and h: "h < im_num_buckets m" "even h" and G: "G h = Shared tr ps" "p \<in> set ps"
    and ne: "remove1 p ps \<noteq> []"
  shows "\<exists>m1 G1. erase_from_tree h p m = Some (h, m1) \<and> cut_out m G h p m1 G1"
proof -
  have t: "table_ok m G" using im_invD(1) [OF inv] .
  let ?ps = "remove1 p ps"
  let ?G = "share h tr ?ps G"
  note tree = shared_tree [OF t h G]
  note cell = tree(1,2,4) and ph = tree(5,6) and h1 = tree(7,8)
  have sub: "set ?ps = set ps - {p}" using tree(3) by simp
  obtain n where n: "im_nodes m p = Some n" "tree_erase_key (im_nodes m) (n_key n) ps = Some ?ps" using tree(10) by blast
  define m1 where "m1 = m\<lparr>im_trees := (im_trees m)(tr \<mapsto> ?ps)\<rparr>"
  have run: "erase_from_tree h p m = Some (h, m1)"
    using ne h(1) cell(1)
    by (auto simp: erase_from_tree_def table_kinds [OF t h(1)] table_nth [OF t h(1)] length_table [OF t] G(1) as_tree_def cell(1)
        n m1_def Let_def)
  have same: "same_params m m1" "key_of m1 = key_of m" "BucketNumber m1 = BucketNumber m"
    by (auto simp: m1_def same_params_def key_of_def BucketNumber_def)
  have "sorted_wrt (<) (map (key_of m) ?ps)"
    using cell(2) by (simp add: sorted_wrt_map sorted_wrt_remove1)
  then have cells: "cell_ok m1 ?G h" "cell_ok m1 ?G (partner h)"
    using cell(3) ne sub same(2,3) by (auto intro!: share_cell_ok simp: m1_def)
  have "im_table m1 = map (\<lambda>c. cell_entry (?G c)) [0..<im_num_buckets m]"
    unfolding share_table [OF t h(1)] using h1 G(1) t h(1) ph
    by (auto simp: m1_def table_nth length_table nth_list_update intro!: nth_equalityI)
  then have t1: "table_ok m1 ?G"
    using cells G(1) by (intro table_ok_upd [OF t h(1) same(1)]) (auto simp: m1_def)
  have nodes: "set (cell_nodes (?G c)) = set (cell_nodes (G c)) - {p}" if "c < im_num_buckets m" for c
    using tree(9) [OF that] sub G(1) h1(2) ph by (cases "c = h"; cases "c = h + 1") (auto simp: share_def)
  have items: "cell_items ?G c = cell_items G c" if "c \<noteq> h" for c
    using that h1(2) ph h(2) by (cases "c = h + 1") (auto simp: cell_items_def share_def)
  have "placed_trees m1 ?G = insert tr (placed_trees m G)"
    using h(1) G(1) h1(2) ph by (intro placed_trees_share) (auto simp: m1_def)
  then have trees: "placed_trees m1 ?G = dom (im_trees m1)" using inv by (simp add: m1_def im_inv_def)
  have "cut_out m G h p m1 ?G"
    by (rule cut_outI [OF t h(1) _ t1 same(1) _ _ _ _ trees _ _ nodes items])
      (use G h(2) cell(1) in \<open>auto simp: m1_def cell_items_def\<close>)
  then show ?thesis using run by blast
qed

lemma erase_tree_last:
  assumes inv: "im_inv m G" and h: "h < im_num_buckets m" "even h" and G: "G h = Shared tr ps" "p \<in> set ps"
    and emp: "remove1 p ps = []"
  shows "\<exists>m1 G1. erase_from_tree h p m = Some (h, m1) \<and> cut_out m G h p m1 G1"
proof -
  have t: "table_ok m G" using im_invD(1) [OF inv] .
  note tree = shared_tree [OF t h G]
  note ph = tree(5,6) and h1 = tree(7,8)
  have ps: "ps = [p]" using emp G(2) tree(3) by (cases ps) (auto split: if_splits)
  obtain n where n: "im_nodes m p = Some n" "tree_erase_key (im_nodes m) (n_key n) ps = Some []" using tree(10) emp by auto
  define m1 where "m1 = m\<lparr>im_trees := (im_trees m)(tr := None), im_table := (im_table m)[h + 1 := Null_entry, h := Null_entry]\<rparr>"
  define G1 where "G1 = G(h + 1 := Chain [], h := Chain [])"
  have "arr_set (im_table m) (1 + int h) Null_entry = Some ((im_table m)[Suc h := Null_entry])"
    using arr_set_int [of "im_table m" "Suc h" Null_entry] h1(1) length_table [OF t] by simp
  then have run: "erase_from_tree h p m = Some (h, m1)"
    using h(1) h1(1) tree(1) ph ps n
    by (auto simp: erase_from_tree_def table_kinds [OF t h(1)] table_nth [OF t h(1)] length_table [OF t] G(1) as_tree_def
        m1_def Let_def DestroyTree_def)
  have same: "same_params m m1" "key_of m1 = key_of m" "BucketNumber m1 = BucketNumber m"
    by (auto simp: m1_def same_params_def key_of_def BucketNumber_def)
  have cells: "cell_ok m1 G1 h" "cell_ok m1 G1 (partner h)"
    using ph by (auto simp: cell_ok_def G1_def)
  have tab: "im_table m1 = map (\<lambda>c. cell_entry (G1 c)) [0..<im_num_buckets m]"
    unfolding G1_def table_upd [OF h(1)] table_upd [OF h1(1)] by (simp add: m1_def table_okD(1) [OF t])
  have t1: "table_ok m1 G1"
    using cells tab G(1) ph by (intro table_ok_upd [OF t h(1) same(1)]) (auto simp: m1_def G1_def)
  have nodes: "set (cell_nodes (G1 c)) = set (cell_nodes (G c)) - {p}" if "c < im_num_buckets m" for c
    using tree(9) [OF that] G(1) h1(2) ps by (cases "c = h"; cases "c = h + 1") (auto simp: G1_def)
  have "c = h \<or> c = h + 1" if "c < im_num_buckets m" "G c = Shared tr qs" for c qs
    using shared_apart [OF t h(1) that(1) G(1) that(2)] same_pair [of c h] ph by auto
  then have "G1 c = Shared t' qs \<longleftrightarrow> G c = Shared t' qs \<and> t' \<noteq> tr" if "c < im_num_buckets m" for c t' qs
    using that G(1) h1(2) by (cases "c = h \<or> c = h + 1") (auto simp: G1_def)
  then have "placed_trees m1 G1 = placed_trees m G - {tr}"
    unfolding placed_trees_def m1_def by auto
  then have trees: "placed_trees m1 G1 = dom (im_trees m1)" using inv by (auto simp: m1_def im_inv_def)
  have items: "cell_items G1 c = cell_items G c" if "c \<noteq> h" for c
    using that h1(2) h(2) by (cases "c = h + 1") (auto simp: cell_items_def G1_def)
  have "cut_out m G h p m1 G1"
    by (rule cut_outI [OF t h(1) _ t1 same(1) _ _ _ _ trees _ _ nodes items])
      (use G h(2) ps in \<open>auto simp: m1_def G1_def cell_items_def\<close>)
  then show ?thesis using run by blast
qed

text \<open>The end of \<open>erase\<close>, common to lists and trees.\<close>

lemma erase_finish:
  assumes inv: "im_inv m G" and p: "p \<in> placed m G"
    and cut: "cut_out m G h p m1 G1" and h: "h < im_num_buckets m" "im_table m ! h \<noteq> Null_entry"
  shows "\<exists>m'. erase_rest h p m1 = Some m' \<and> erased m G p m' G1"
proof -
  have m1: "table_ok m1 G1" "placed m1 G1 = placed m G - {p}" "same_params m m1" "same_kv (im_nodes m) (im_nodes m1)"
      "placed_trees m1 G1 = dom (im_trees m1)" "dom (im_trees m1) \<subseteq> dom (im_trees m)"
      "im_num_elements m1 = im_num_elements m" "im_fresh m1 = im_fresh m"
      "im_index_of_first_non_null m1 = im_index_of_first_non_null m"
    and table: "\<And>c. c < h \<Longrightarrow> im_table m1 ! c = im_table m ! c"
    and items: "items_from m1 G1 0 = remove1 p (items_from m G 0)"
    using cut by (simp_all add: cut_out_def)
  have t: "table_ok m G" and i: "index_ok m" and f: "fresh_ok m"
    using inv by (auto simp: im_inv_def im_rep_def)
  let ?m2 = "m1\<lparr>im_nodes := (im_nodes m1)(p := None)\<rparr>"
  let ?m3 = "?m2\<lparr>im_num_elements := im_num_elements ?m2 - 1\<rparr>"
  have t3: "table_ok ?m3 G1"
    using table_ok_node_gone [OF m1(1), of p] m1(2) by simp
  have nb: "im_num_buckets m1 = im_num_buckets m" using m1(3) by (simp add: same_params_def)
  have dom: "dom (im_nodes m1) = dom (im_nodes m)" using same_kv_dom [OF m1(4)] .
  have pdef: "im_nodes m1 p \<noteq> None" using dom p inv by (auto simp: im_inv_def)
  have le: "im_index_of_first_non_null m \<le> h"
    using i h by (auto simp: index_ok_def Let_def not_le [symmetric])
  have len: "length (im_table ?m3) = im_num_buckets ?m3"
    using length_table [OF t3] .
  obtain m' j where m': "(if h = im_index_of_first_non_null ?m3 then do {
       i \<leftarrow> first_non_null_loop (im_table ?m3) (im_num_buckets ?m3) (im_index_of_first_non_null ?m3);
       Some (?m3\<lparr>im_index_of_first_non_null := i\<rparr>) }
     else Some ?m3) = Some m'" "index_ok m'" "m' = ?m3\<lparr>im_index_of_first_non_null := j\<rparr>"
    using index_after_erase [OF i len _ _ le h(1)] nb m1(9) table by auto
  have fin: "finite (dom (im_nodes m))"
    by (rule finite_subset [of _ "{..<im_fresh m}"]) (use f in \<open>auto simp: fresh_ok_def\<close>)
  have "fresh_ok m'"
  proof -
    have "t < im_fresh m" if "t \<in> dom (im_trees m1)" for t
      using f subsetD [OF m1(6) that] by (simp add: fresh_ok_def)
    then show ?thesis using f dom m1(8) unfolding m'(3) fresh_ok_def by auto
  qed
  then have "im_rep m' G1"
    using t3 m'(2) unfolding m'(3) im_rep_def by simp
  moreover have "placed m' G1 = dom (im_nodes m')" "placed_trees m' G1 = dom (im_trees m')"
    using m1(2,5) dom inv unfolding m'(3) by (auto simp: placed_def placed_trees_def im_inv_def)
  moreover have "im_num_elements m' = card (dom (im_nodes m'))"
    using inv dom fin p m1(7) unfolding m'(3) by (auto simp: im_inv_def card_Diff_singleton)
  ultimately have "im_inv m' G1"
    by (simp add: im_inv_def)
  moreover have "same_kv ((im_nodes m)(p := None)) (im_nodes m')"
    using m1(4) unfolding m'(3) same_kv_def by simp
  moreover have "items_from m' G1 0 = items_from m1 G1 0"
    unfolding m'(3) by (simp add: items_from_def)
  ultimately have "erased m G p m' G1"
    using items m1(3) unfolding erased_def m'(3) same_params_def by simp
  moreover have "DestroyNode p m1 = Some ?m2"
    using pdef by (auto simp: DestroyNode_def)
  ultimately show ?thesis
    using m'(1) unfolding erase_rest_def by (simp only: Let_def bind.bind_lunit) blast
qed


lemma im_erase_ok:
  assumes inv: "im_inv m G" and p: "p \<in> dom (im_nodes m)" "it_node it = Some p"
  shows "\<exists>m' G'. im_erase it m = Some m' \<and> erased m G p m' G'"
proof -
  have t: "table_ok m G" using im_invD(1) [OF inv] .
  have pl: "p \<in> placed m G" using inv p(1) by (simp add: im_inv_def)
  define h where "h = home m G (key_of m p)"
  have h: "h < im_num_buckets m" using home_less [OF t] by (simp add: h_def)
  have mem: "p \<in> set (cell_items G h)" using home_items [OF t pl] by (simp add: h_def)
  have reval: "revalidate_if_necessary it m = Some (case G h of Chain _ \<Rightarrow> True | Shared _ _ \<Rightarrow> False, it\<lparr>it_bucket := h\<rparr>)"
    using revalidate_ok [OF t pl p(2)] by (simp add: h_def)
  have head: "im_table m ! h \<noteq> Null_entry"
    using mem table_nth [OF t h] by (cases "G h") (auto simp: cell_items_def split: list.splits)
  show ?thesis
  proof (cases "G h")
    case (Chain ps)
    then have "p \<in> set ps" using mem by (auto simp: cell_items_def)
    from erase_list_ok [OF inv h Chain this] obtain m1 G1 where
      m1: "erase_from_list h p m = Some (h, m1)" "cut_out m G h p m1 G1" by blast
    have "\<exists>m'. erase_rest h p m1 = Some m' \<and> erased m G p m' G1" by (rule erase_finish [OF inv pl m1(2) h head])
    then show ?thesis using m1(1) reval Chain p(2) by (auto simp: im_erase_def)
  next
    case (Shared tr ps)
    then have "p \<in> set ps" "even h" using mem by (auto simp: cell_items_def split: if_splits)
    from erase_tree_smaller [OF inv h this(2) Shared this(1)] erase_tree_last [OF inv h this(2) Shared this(1)]
    obtain m1 G1 where m1: "erase_from_tree h p m = Some (h, m1)" "cut_out m G h p m1 G1" by blast
    have "\<exists>m'. erase_rest h p m1 = Some m' \<and> erased m G p m' G1" by (rule erase_finish [OF inv pl m1(2) h head])
    then show ?thesis using m1(1) reval Shared p(2) by (auto simp: im_erase_def)
  qed
qed

end
