(* ===== verification/Inner_Map_Clear.thy ===== *)
theory Inner_Map_Clear
  imports Inner_Map_Erase
begin

text \<open>
  Removal of all elements of the hash table: every node and every tree is destroyed once.
\<close>

section \<open>Removing all elements\<close>

lemma clear_list_loop_ok:
  "chain (im_nodes m) (p # ps) \<Longrightarrow> distinct (p # ps) \<Longrightarrow>
     clear_list_loop p m = Some (m\<lparr>im_nodes := im_nodes m |` (- set (p # ps))\<rparr>)"
proof (induction ps arbitrary: p m)
  case Nil
  then show ?case
    by (subst clear_list_loop.simps) (auto simp: DestroyNode_def restrict_map_def fun_eq_iff)
next
  case (Cons q ps)
  let ?m = "m\<lparr>im_nodes := (im_nodes m)(p := None)\<rparr>"
  obtain n where n: "im_nodes m p = Some n" "n_next n = Some q"
    using Cons.prems(1) by auto
  have "chain (im_nodes ?m) (q # ps) = chain (im_nodes m) (q # ps)"
    using Cons.prems(2) by (intro chain_cong) auto
  then have "chain (im_nodes ?m) (q # ps)" using Cons.prems(1) by simp
  then have "clear_list_loop q ?m = Some (?m\<lparr>im_nodes := im_nodes ?m |` (- set (q # ps))\<rparr>)"
    by (rule Cons.IH) (use Cons.prems(2) in simp)
  moreover have "im_nodes ?m |` (- set (q # ps)) = im_nodes m |` (- set (p # q # ps))"
    by (auto simp: restrict_map_def fun_eq_iff)
  ultimately show ?case
    using n by (subst clear_list_loop.simps) (simp add: DestroyNode_def)
qed

lemma clear_tree_loop_ok:
  "\<forall>p\<in>set ps. im_nodes m p \<noteq> None \<Longrightarrow> distinct ps \<Longrightarrow> ps \<noteq> [] \<Longrightarrow>
     clear_tree_loop t ps m = Some (m\<lparr>im_nodes := im_nodes m |` (- set ps), im_trees := (im_trees m)(t \<mapsto> [])\<rparr>)"
proof (induction ps arbitrary: m)
  case (Cons p ps)
  let ?m = "m\<lparr>im_trees := (im_trees m)(t \<mapsto> ps), im_nodes := (im_nodes m)(p := None)\<rparr>"
  have step: "clear_tree_loop t (p # ps) m = clear_tree_loop t ps ?m"
    using Cons.prems(1) by (auto simp: DestroyNode_def)
  show ?case
  proof (cases "ps = []")
    case True
    then show ?thesis unfolding step by (auto simp: restrict_map_def fun_eq_iff)
  next
    case False
    have "\<forall>q\<in>set ps. im_nodes ?m q \<noteq> None" using Cons.prems(1,2) by auto
    then have "clear_tree_loop t ps ?m =
        Some (?m\<lparr>im_nodes := im_nodes ?m |` (- set ps), im_trees := (im_trees ?m)(t \<mapsto> [])\<rparr>)"
      by (rule Cons.IH) (use Cons.prems(2) False in simp_all)
    moreover have "im_nodes ?m |` (- set ps) = im_nodes m |` (- set (p # ps))"
      by (auto simp: restrict_map_def fun_eq_iff)
    moreover have "(im_trees ?m)(t \<mapsto> []) = (im_trees m)(t \<mapsto> [])" by simp
    ultimately have "clear_tree_loop t ps ?m =
        Some (?m\<lparr>im_nodes := im_nodes m |` (- set (p # ps)), im_trees := (im_trees m)(t \<mapsto> [])\<rparr>)"
      by (simp only:)
    moreover have "?m\<lparr>im_nodes := N, im_trees := T\<rparr> = m\<lparr>im_nodes := N, im_trees := T\<rparr>" for N T by simp
    ultimately show ?thesis by (simp only: step)
  qed
qed simp

text \<open>The map before bucket \<open>i\<close> is cleared: the cells below are empty, the others as they were.\<close>

definition cells_from :: "nat \<Rightarrow> (nat \<Rightarrow> cell) \<Rightarrow> nat \<Rightarrow> cell" where
  "cells_from i G = (\<lambda>c. if c < i then Chain [] else G c)"

definition clearing :: "('k::linorder, 'v) inner_map \<Rightarrow> (nat \<Rightarrow> cell) \<Rightarrow> nat \<Rightarrow> ('k, 'v) inner_map \<Rightarrow> bool" where
  "clearing m0 G i m \<longleftrightarrow> table_ok m (cells_from i G) \<and> placed m (cells_from i G) = dom (im_nodes m) \<and>
     placed_trees m (cells_from i G) = dom (im_trees m) \<and> same_params m0 m \<and>
     (\<forall>tr ps. i < im_num_buckets m0 \<longrightarrow> G i = Shared tr ps \<longrightarrow> even i)"

lemma restrict_cell:
  assumes t: "table_ok m G" and b: "b < im_num_buckets m" and disj: "set (cell_nodes (G b)) \<inter> X = {}"
    and same: "\<And>q. q \<notin> X \<Longrightarrow> im_nodes m' q = im_nodes m q" "same_params m m'"
    and trees: "\<And>tr ps. G b = Shared tr ps \<Longrightarrow> im_trees m' tr = im_trees m tr"
    and G': "G' b = G b" "\<And>tr ps. G b = Shared tr ps \<Longrightarrow> G' (partner b) = G (partner b)"
  shows "cell_ok m' G' b"
proof -
  have same': "im_nodes m' q = im_nodes m q" "key_of m' q = key_of m q" if "q \<in> set (cell_nodes (G b))" for q
  proof -
    have "q \<notin> X" using that disj by auto
    then show "im_nodes m' q = im_nodes m q" by (rule same(1))
    then show "key_of m' q = key_of m q" by (simp add: key_of_def)
  qed
  have mk: "map (key_of m') (cell_nodes (G b)) = map (key_of m) (cell_nodes (G b))"
    using same'(2) by simp
  have keys_ok: "distinct (map (key_of m') (cell_nodes (G b))) = distinct (map (key_of m) (cell_nodes (G b)))"
      "sorted_wrt (<) (map (key_of m') (cell_nodes (G b))) = sorted_wrt (<) (map (key_of m) (cell_nodes (G b)))"
    by (simp_all only: mk)
  have ch: "chain (im_nodes m') (cell_nodes (G b)) = chain (im_nodes m) (cell_nodes (G b))"
    using same'(1) by (rule chain_cong)
  show ?thesis
    using table_okD(2) [OF t b] keys_ok same' ch trees G'
    by (cases "G b") (simp_all add: cell_ok_def same_params_bucket [OF same(2)])
qed


lemma table_cells_from:
  assumes "im_table m = map (\<lambda>c. cell_entry (cells_from i G c)) [0..<n]" and "i < n"
  shows "(im_table m)[i := Null_entry] = map (\<lambda>c. cell_entry (cells_from (i + 1) G c)) [0..<n]"
  using assms by (auto simp: cells_from_def nth_list_update less_Suc_eq intro!: nth_equalityI)

lemma cells_from_step: "G i = Chain [] \<Longrightarrow> cells_from (i + 1) G = cells_from i G"
  by (auto simp: cells_from_def less_Suc_eq)

lemma clearing_even:
  assumes t: "table_ok m (cells_from i G)" and i: "i < im_num_buckets m" and G: "G i = Chain ps"
    and i1: "i + 1 < im_num_buckets m" "G (i + 1) = Shared tr qs"
  shows "even (i + 1)"
  using shared_partner [OF t i1(1)] G i1(2) by (cases "even i") (auto simp: cells_from_def partner_eq)

text \<open>Dropping the nodes of one list.\<close>

lemma clearing_list:
  assumes c: "clearing m0 G i m" and i: "i < im_num_buckets m0" and G: "G i = Chain ps"
  defines "m' \<equiv> m\<lparr>im_table := (im_table m)[i := Null_entry], im_nodes := im_nodes m |` (- set ps)\<rparr>"
  shows "clearing m0 G (i + 1) m'"
proof -
  let ?G = "cells_from i G" and ?G' = "cells_from (i + 1) G"
  have t: "table_ok m ?G" and pl: "placed m ?G = dom (im_nodes m)" and tr: "placed_trees m ?G = dom (im_trees m)"
    and par: "same_params m0 m"
    using c by (auto simp: clearing_def)
  have nb: "im_num_buckets m = im_num_buckets m0" using par by (simp add: same_params_def)
  have im: "i < im_num_buckets m" using i nb by simp
  have Gi: "?G i = Chain ps" using G by (simp add: cells_from_def)
  have same: "same_params m m'" by (simp add: m'_def same_params_def)
  have apart: "set (cell_nodes (?G b)) \<inter> set ps = {}" if b: "b < im_num_buckets m" "b \<noteq> i" for b
  proof (rule ccontr)
    assume "set (cell_nodes (?G b)) \<inter> set ps \<noteq> {}"
    then obtain q where q: "q \<in> set (cell_nodes (?G b))" "q \<in> set ps" by auto
    then have "?G b = ?G i" using placed_unique [OF t b(1) im, of q q] Gi by simp
    then show False
      using placed_bucket(3) [OF t b(1) q(1)] placed_bucket(3) [OF t im, of q] Gi q(2) b(2) by simp
  qed
  have "cell_ok m' ?G' b" if b: "b < im_num_buckets m" for b
  proof (cases "b \<le> i")
    case True
    then show ?thesis by (simp add: cell_ok_def cells_from_def)
  next
    case False
    show ?thesis
    proof (rule restrict_cell [OF t b apart])
      show "?G' (partner b) = ?G (partner b)" if "?G b = Shared tr' qs" for tr' qs
        using shared_partner [OF t b that] Gi by (auto simp: cells_from_def less_Suc_eq split: if_splits)
    qed (use False b in \<open>auto simp: m'_def cells_from_def same_params_def restrict_map_def\<close>)
  qed
  moreover have "im_table m' = map (\<lambda>c. cell_entry (?G' c)) [0..<im_num_buckets m']"
    using table_cells_from [OF table_okD(1) [OF t] im] by (simp add: m'_def)
  ultimately have "table_ok m' ?G'"
    using t by (simp add: table_ok_def m'_def)
  moreover have "placed m' ?G' = dom (im_nodes m')"
  proof -
    have "set (cell_nodes (?G' b)) = set (cell_nodes (?G b)) - set ps" if "b < im_num_buckets m" for b
      using apart [OF that] Gi by (cases "b = i") (auto simp: cells_from_def)
    then have "placed m' ?G' = placed m ?G - set ps"
      by (auto simp: placed_def m'_def)
    then show ?thesis using pl by (auto simp: m'_def)
  qed
  moreover have "placed_trees m' ?G' = dom (im_trees m')"
  proof -
    have "?G' b = Shared tr' qs \<longleftrightarrow> ?G b = Shared tr' qs" for b tr' qs
      using G by (auto simp: cells_from_def less_Suc_eq)
    then show ?thesis using tr by (simp add: placed_trees_def m'_def)
  qed
  moreover have "same_params m0 m'"
    using par by (simp add: m'_def same_params_def)
  ultimately show ?thesis
    using clearing_even [OF t im G] nb by (auto simp: clearing_def)
qed

lemma clearing_tree:
  assumes c: "clearing m0 G i m" and i: "i < im_num_buckets m0" and G: "G i = Shared tr ps"
  defines "m' \<equiv> m\<lparr>im_table := (im_table m)[i + 1 := Null_entry, i := Null_entry],
    im_nodes := im_nodes m |` (- set ps), im_trees := (im_trees m)(tr := None)\<rparr>"
  shows "clearing m0 G (i + 2) m'"
proof -
  let ?G = "cells_from i G" and ?G' = "cells_from (i + 2) G"
  have t: "table_ok m ?G" and pl: "placed m ?G = dom (im_nodes m)" and trs: "placed_trees m ?G = dom (im_trees m)"
    and par: "same_params m0 m" and ev: "even i"
    using c i G by (auto simp: clearing_def)
  have nb: "im_num_buckets m = im_num_buckets m0" using par by (simp add: same_params_def)
  have im: "i < im_num_buckets m" using i nb by simp
  have Gi: "?G i = Shared tr ps" using G by (simp add: cells_from_def)
  have Gi1: "i + 1 < im_num_buckets m" "?G (i + 1) = Shared tr ps"
    using table_okD(3) [OF t im] shared_partner [OF t im Gi] ev by (auto simp: partner_eq)
  have apart: "set (cell_nodes (?G b)) \<inter> set ps = {}" "?G b \<noteq> Shared tr qs" if b: "b < im_num_buckets m" "b \<noteq> i" "b \<noteq> i + 1" for b qs
  proof -
    have pair: "i div 2 \<noteq> b div 2"
      using same_pair [of b i] b ev by (auto simp: partner_eq)
    show "set (cell_nodes (?G b)) \<inter> set ps = {}"
      using other_cells_disjoint [OF t im b(1) pair] Gi by auto
    show "?G b \<noteq> Shared tr qs"
      using shared_apart [OF t im b(1) Gi] pair by auto
  qed
  have "cell_ok m' ?G' b" if b: "b < im_num_buckets m" for b
  proof (cases "b < i + 2")
    case True
    then show ?thesis by (simp add: cell_ok_def cells_from_def)
  next
    case False
    then have ne: "b \<noteq> i" "b \<noteq> i + 1" by auto
    show ?thesis
    proof (rule restrict_cell [OF t b apart(1) [OF b ne]])
      show "?G' (partner b) = ?G (partner b)" if "?G b = Shared tr' qs" for tr' qs
      proof -
        have "i + 2 \<le> partner b" using False ev by (auto simp: partner_eq) presburger
        then show ?thesis by (simp add: cells_from_def)
      qed
      show "im_trees m' tr' = im_trees m tr'" if "?G b = Shared tr' qs" for tr' qs
        using apart(2) [OF b ne] that by (auto simp: m'_def)
    qed (use False b in \<open>auto simp: m'_def cells_from_def same_params_def restrict_map_def\<close>)
  qed
  moreover have "im_table m' = map (\<lambda>c. cell_entry (?G' c)) [0..<im_num_buckets m']"
    using table_okD(1) [OF t] im Gi1(1)
    by (auto simp: m'_def cells_from_def nth_list_update less_Suc_eq intro!: nth_equalityI)
  ultimately have "table_ok m' ?G'"
    using t by (simp add: table_ok_def m'_def)
  moreover have "placed m' ?G' = dom (im_nodes m')"
  proof -
    have "set (cell_nodes (?G' b)) = set (cell_nodes (?G b)) - set ps" if "b < im_num_buckets m" for b
    proof (cases "b = i \<or> b = i + 1")
      case True
      then show ?thesis using Gi Gi1(2) by (auto simp: cells_from_def)
    next
      case False
      then show ?thesis using apart(1) [OF that] by (cases "b < i") (auto simp: cells_from_def)
    qed
    then have "placed m' ?G' = placed m ?G - set ps"
      by (auto simp: placed_def m'_def)
    then show ?thesis using pl by (auto simp: m'_def)
  qed
  moreover have "placed_trees m' ?G' = dom (im_trees m')"
  proof -
    have "?G' b = Shared tr' qs \<longleftrightarrow> ?G b = Shared tr' qs \<and> tr' \<noteq> tr" if "b < im_num_buckets m" for b tr' qs
    proof (cases "b = i \<or> b = i + 1")
      case True
      then show ?thesis using Gi Gi1(2) by (auto simp: cells_from_def)
    next
      case False
      then show ?thesis using apart(2) [OF that] by (cases "b < i") (auto simp: cells_from_def)
    qed
    then have "placed_trees m' ?G' = placed_trees m ?G - {tr}"
      by (auto simp: placed_trees_def m'_def)
    then show ?thesis using trs by (auto simp: m'_def)
  qed
  moreover have "same_params m0 m'"
    using par by (simp add: m'_def same_params_def)
  moreover have "even (i + 2)" using ev by simp
  ultimately show ?thesis by (auto simp: clearing_def)
qed

lemma im_clear_loop_ok:
  assumes "clearing m0 G i m"
  shows "\<exists>m' j. im_clear_loop (im_num_buckets m0) i m = Some m' \<and> im_num_buckets m0 \<le> j \<and> clearing m0 G j m'"
  using assms
proof (induction "im_num_buckets m0 - i" arbitrary: i m rule: less_induct)
  case less
  note c = less.prems
  show ?case
  proof (cases "i < im_num_buckets m0")
    case False
    then show ?thesis using c by (subst im_clear_loop.simps) (auto intro!: exI [of _ i])
  next
    case i: True
    have t: "table_ok m (cells_from i G)" and nb: "im_num_buckets m = im_num_buckets m0"
      and ev: "\<And>tr ps. G i = Shared tr ps \<Longrightarrow> even i"
      using c i by (auto simp: clearing_def same_params_def)
    have im: "i < im_num_buckets m" using i nb by simp
    have Gi: "cells_from i G i = G i" by (simp add: cells_from_def)
    have dec: "im_num_buckets m0 - (i + 2) < im_num_buckets m0 - i" "im_num_buckets m0 - (i + 1) < im_num_buckets m0 - i"
      using i by auto
    note kinds = table_kinds [OF t im] table_nth [OF t im] length_table [OF t] Gi
    show ?thesis
    proof (cases "G i")
      case (Chain ps)
      from less.hyps [OF dec(2) clearing_list [OF c i Chain]] obtain m' j where
        nx: "im_clear_loop (im_num_buckets m0) (i + 1)
            (m\<lparr>im_table := (im_table m)[i := Null_entry], im_nodes := im_nodes m |` (- set ps)\<rparr>) = Some m'"
          "im_num_buckets m0 \<le> j" "clearing m0 G j m'"
        by blast
      show ?thesis
      proof (cases ps)
        case Nil
        have "m\<lparr>im_table := (im_table m)[i := Null_entry], im_nodes := im_nodes m |` (- set ps)\<rparr> = m"
          using Nil Chain kinds(5,7) im list_update_id [of "im_table m" i] by (simp add: restrict_map_def)
        then show ?thesis
          using nx Chain Nil i im by (subst im_clear_loop.simps) (auto simp: kinds)
      next
        case (Cons p qs)
        have "distinct ps" "chain (im_nodes m) ps"
          using cell_facts(1,3) [OF t im] Chain Gi by (auto simp: distinct_map)
        then have "clear_list_loop p (m\<lparr>im_table := (im_table m)[i := Null_entry]\<rparr>) =
            Some (m\<lparr>im_table := (im_table m)[i := Null_entry], im_nodes := im_nodes m |` (- set ps)\<rparr>)"
          using clear_list_loop_ok [of "m\<lparr>im_table := (im_table m)[i := Null_entry]\<rparr>" p qs] Cons by simp
        then show ?thesis
          using nx Chain Cons i im by (subst im_clear_loop.simps) (auto simp: kinds as_node_def)
      qed
    next
      case (Shared tr ps)
      from less.hyps [OF dec(1) clearing_tree [OF c i Shared]] obtain m' j where
        nx: "im_clear_loop (im_num_buckets m0) (i + 2)
            (m\<lparr>im_table := (im_table m)[i + 1 := Null_entry, i := Null_entry],
              im_nodes := im_nodes m |` (- set ps), im_trees := (im_trees m)(tr := None)\<rparr>) = Some m'"
          "im_num_buckets m0 \<le> j" "clearing m0 G j m'"
        by blast
      have cell: "im_trees m tr = Some ps" "ps \<noteq> []" "distinct ps" "\<forall>p\<in>set ps. im_nodes m p \<noteq> None"
        using table_okD(2) [OF t im] cell_facts(1,2) [OF t im] Shared Gi by (auto simp: cell_ok_def distinct_map)
      have e: "even i" using ev Shared .
      have i1: "i + 1 < im_num_buckets m" "cells_from i G (i + 1) = Shared tr ps"
        using table_okD(3) [OF t im] shared_partner [OF t im] Gi Shared e by (auto simp: partner_eq)
      let ?T = "(im_table m)[i + 1 := Null_entry, i := Null_entry]"
      have "clear_tree_loop tr ps (m\<lparr>im_table := ?T\<rparr>) =
          Some (m\<lparr>im_table := ?T, im_nodes := im_nodes m |` (- set ps), im_trees := (im_trees m)(tr \<mapsto> [])\<rparr>)"
        using clear_tree_loop_ok [of ps "m\<lparr>im_table := ?T\<rparr>" tr] cell by simp
      moreover have "i AND 1 = 0" using e by (simp add: and_one_eq even_iff_mod_2_eq_zero)
      moreover have "arr_get (im_table m) (1 + int i) = Some (Tree_entry tr)"
          "arr_set (im_table m) (1 + int i) Null_entry = Some ((im_table m)[Suc i := Null_entry])"
        using arr_get_int [of "im_table m" "Suc i"] arr_set_int [of "im_table m" "Suc i" Null_entry] i1
          table_nth [OF t i1(1)] length_table [OF t] by simp_all
      ultimately show ?thesis
        using nx Shared i im cell(1,2)
        by (subst im_clear_loop.simps) (auto simp: kinds as_tree_def DestroyTree_def)
    qed
  qed
qed

lemma im_clear_ok:
  assumes inv: "im_inv m G"
  shows "\<exists>m'. im_clear m = Some m' \<and> im_shows m' Map.empty \<and> im_nodes m' = Map.empty \<and> im_trees m' = Map.empty"
proof -
  have G0: "cells_from 0 G = G" by (simp add: cells_from_def)
  have "clearing m G 0 m"
    using inv by (auto simp: clearing_def im_inv_def im_rep_def same_params_def G0)
  from im_clear_loop_ok [OF this] obtain m' j where
    m': "im_clear_loop (im_num_buckets m) 0 m = Some m'" "im_num_buckets m \<le> j" "clearing m G j m'"
    by blast
  have t: "table_ok m' (cells_from j G)" and nb: "im_num_buckets m' = im_num_buckets m"
    using m'(3) by (auto simp: clearing_def same_params_def)
  have none: "cells_from j G b = Chain []" if "b < im_num_buckets m'" for b
    using that m'(2) nb by (simp add: cells_from_def)
  have "placed m' (cells_from j G) = {}" "placed_trees m' (cells_from j G) = {}"
    using none by (auto simp: placed_def placed_trees_def)
  then have "dom (im_nodes m') = {}" "dom (im_trees m') = {}"
    using m'(3) by (simp_all add: clearing_def)
  then have empty: "im_nodes m' = Map.empty" "im_trees m' = Map.empty"
    by (simp_all only: dom_eq_empty_conv)
  let ?m = "m'\<lparr>im_num_elements := 0, im_index_of_first_non_null := im_num_buckets m'\<rparr>"
  have "im_inv ?m (cells_from j G)"
    using t none empty table_nth [OF t]
    by (auto simp: im_inv_def im_rep_def index_ok_def fresh_ok_def placed_def placed_trees_def)
  then have "im_shows ?m Map.empty"
    by (rule im_showsI) (simp add: empty)
  then show ?thesis using m'(1) empty by (simp add: im_clear_def)
qed

end
