(* ===== verification/Proto_Map.thy ===== *)
theory Proto_Map
  imports Inner_Map_Clear
begin

text \<open>
  The class \<open>Map\<close> of \<open>google/protobuf/map.h\<close> and \<open>MapFieldLite\<close> of \<open>map_field_lite.h\<close>: a hash
  table (theory \<open>Inner_Map\<close>) whose elements hold pointers to key-value pairs that the map
  allocates and, unless they live in an arena, deletes.

  The pairs of a map are kept in its record (\<open>pm_pairs\<close>, by address). What the class template
  takes from its value type is the record \<open>value_ops\<close>: the value of \<open>T()\<close>, and for a generated enum
  type the conversion from \<open>int\<close>. References and iterators to elements are the addresses of
  the pairs and the iterators of the table.

  The lemmas show that a \<open>Map\<close> behaves as a finite map, that its iterators pass every pair once
  and that no pair is leaked or deleted twice.
\<close>

section \<open>State\<close>

record 't value_ops =
  vo_default :: 't
  vo_of_enum :: "(int \<Rightarrow> 't) option"

record ('k, 't) proto_map =
  pm_arena :: "nat option"
  pm_default_enum_value :: int
  pm_elements :: "('k, nat option) inner_map"
  pm_pairs :: "nat \<rightharpoonup> 'k \<times> 't"
  pm_fresh :: nat

definition Map_Init :: "nat option \<Rightarrow> int \<Rightarrow> ('k \<Rightarrow> nat) \<Rightarrow> nat \<Rightarrow> ('k, 't) proto_map option" where
  "Map_Init arena default_enum_value hasher seed = do {
     elements \<leftarrow> InnerMap 0 hasher seed;
     Some \<lparr>pm_arena = arena, pm_default_enum_value = default_enum_value, pm_elements = elements,
       pm_pairs = Map.empty, pm_fresh = 0\<rparr> }"

definition Map_new :: "nat option \<Rightarrow> ('k \<Rightarrow> nat) \<Rightarrow> nat \<Rightarrow> ('k, 't) proto_map option" where
  "Map_new arena hasher seed = Map_Init arena 0 hasher seed"

section \<open>Iterators, capacity and lookup\<close>

definition Map_deref :: "map_iterator \<Rightarrow> ('k, 't) proto_map \<Rightarrow> ('k \<times> 't) option" where
  "Map_deref it pm = do {
     p \<leftarrow> it_node it;
     n \<leftarrow> im_nodes (pm_elements pm) p;
     v \<leftarrow> n_value n;
     a \<leftarrow> v;
     pm_pairs pm a }"

definition Map_begin :: "('k, 't) proto_map \<Rightarrow> map_iterator option" where
  "Map_begin pm = im_begin (pm_elements pm)"

definition Map_increment :: "map_iterator \<Rightarrow> ('k::linorder, 't) proto_map \<Rightarrow> map_iterator option" where
  "Map_increment it pm = im_increment it (pm_elements pm)"

definition Map_size :: "('k, 't) proto_map \<Rightarrow> nat" where
  "Map_size pm = im_size (pm_elements pm)"

definition Map_empty :: "('k, 't) proto_map \<Rightarrow> bool" where
  "Map_empty pm \<longleftrightarrow> Map_size pm = 0"

definition Map_find :: "'k \<Rightarrow> ('k::linorder, 't) proto_map \<Rightarrow> map_iterator option" where
  "Map_find k pm = im_find (pm_elements pm) k"

definition Map_contains :: "'k \<Rightarrow> ('k::linorder, 't) proto_map \<Rightarrow> bool option" where
  "Map_contains k pm = im_contains (pm_elements pm) k"

text \<open>\<open>GOOGLE_CHECK\<close> aborts the program, in all builds.\<close>

definition GOOGLE_CHECK :: "bool \<Rightarrow> unit option" where
  "GOOGLE_CHECK b = (if b then Some () else None)"

definition Map_at :: "'k \<Rightarrow> ('k::linorder, 't) proto_map \<Rightarrow> 't option" where
  "Map_at k pm = do {
     it \<leftarrow> Map_find k pm;
     _ \<leftarrow> GOOGLE_CHECK (it_node it \<noteq> it_node end_iterator);
     (_, t) \<leftarrow> Map_deref it pm;
     Some t }"

definition Map_count :: "'k \<Rightarrow> ('k::linorder, 't) proto_map \<Rightarrow> nat option" where
  "Map_count k pm = do {
     it \<leftarrow> Map_find k pm;
     if it_node it = it_node end_iterator then Some 0
     else do {
       (k', _) \<leftarrow> Map_deref it pm;
       _ \<leftarrow> GOOGLE_DCHECK (k = k');
       Some 1 } }"

definition Map_equal_range :: "'k \<Rightarrow> ('k::linorder, 't) proto_map \<Rightarrow> (map_iterator \<times> map_iterator) option" where
  "Map_equal_range k pm = do {
     it \<leftarrow> Map_find k pm;
     if it_node it = it_node end_iterator then Some (it, it)
     else do { it' \<leftarrow> Map_increment it pm; Some (it, it') } }"

section \<open>Insertion\<close>

definition CreateValueTypeInternal :: "'k \<times> 't \<Rightarrow> ('k, 't) proto_map \<Rightarrow> nat \<times> ('k, 't) proto_map" where
  "CreateValueTypeInternal kt pm =
     (pm_fresh pm, pm\<lparr>pm_pairs := (pm_pairs pm)(pm_fresh pm \<mapsto> kt), pm_fresh := pm_fresh pm + 1\<rparr>)"

definition set_node_value :: "nat \<Rightarrow> nat option \<Rightarrow> ('k, nat option) inner_map \<Rightarrow> ('k, nat option) inner_map option" where
  "set_node_value p v m = do {
     n \<leftarrow> im_nodes m p;
     Some (m\<lparr>im_nodes := (im_nodes m)(p \<mapsto> n\<lparr>n_value := Some v\<rparr>)\<rparr>) }"

definition MapValueInitializer :: "'t value_ops \<Rightarrow> int \<Rightarrow> 't \<Rightarrow> 't" where
  "MapValueInitializer ops default_enum_value t =
     (case vo_of_enum ops of Some cast \<Rightarrow> cast default_enum_value | None \<Rightarrow> t)"

text \<open>\<open>operator[]\<close> returns the address of the pair whose \<open>second\<close> it refers to.\<close>

definition Map_subscript :: "'t value_ops \<Rightarrow> 'k \<Rightarrow> ('k::linorder, 't) proto_map \<Rightarrow> (nat \<times> ('k, 't) proto_map) option" where
  "Map_subscript ops k pm = do {
     (p, m) \<leftarrow> im_subscript None k (pm_elements pm);
     n \<leftarrow> im_nodes m p;
     v \<leftarrow> n_value n;
     case v of
       Some a \<Rightarrow> Some (a, pm\<lparr>pm_elements := m\<rparr>)
     | None \<Rightarrow> do {
         let (a, pm) = CreateValueTypeInternal (k, vo_default ops) (pm\<lparr>pm_elements := m\<rparr>);
         m \<leftarrow> set_node_value p (Some a) (pm_elements pm);
         (k', t) \<leftarrow> pm_pairs pm a;
         Some (a, pm\<lparr>pm_elements := m,
           pm_pairs := (pm_pairs pm)(a \<mapsto> (k', MapValueInitializer ops (pm_default_enum_value pm) t))\<rparr>) } }"

text \<open>\<open>map[k] = t\<close>.\<close>

definition Map_store :: "'t value_ops \<Rightarrow> 'k \<Rightarrow> 't \<Rightarrow> ('k::linorder, 't) proto_map \<Rightarrow> ('k, 't) proto_map option" where
  "Map_store ops k t pm = do {
     (a, pm) \<leftarrow> Map_subscript ops k pm;
     (k', _) \<leftarrow> pm_pairs pm a;
     Some (pm\<lparr>pm_pairs := (pm_pairs pm)(a \<mapsto> (k', t))\<rparr>) }"

definition Map_insert :: "'k \<times> 't \<Rightarrow> ('k::linorder, 't) proto_map \<Rightarrow> ((map_iterator \<times> bool) \<times> ('k, 't) proto_map) option" where
  "Map_insert kt pm = do {
     ((it, inserted), m) \<leftarrow> im_insert_key (fst kt) (pm_elements pm);
     let pm = pm\<lparr>pm_elements := m\<rparr>;
     if inserted then do {
       let (a, pm) = CreateValueTypeInternal kt pm;
       p \<leftarrow> it_node it;
       m \<leftarrow> set_node_value p (Some a) (pm_elements pm);
       Some ((it, inserted), pm\<lparr>pm_elements := m\<rparr>) }
     else Some ((it, inserted), pm) }"

primrec Map_insert_range :: "'t value_ops \<Rightarrow> ('k \<times> 't) list \<Rightarrow> ('k::linorder, 't) proto_map \<Rightarrow> ('k, 't) proto_map option" where
  "Map_insert_range ops [] pm = Some pm"
| "Map_insert_range ops (kt # kts) pm = do {
     exist_it \<leftarrow> Map_find (fst kt) pm;
     pm \<leftarrow> (if it_node exist_it = it_node end_iterator then Map_store ops (fst kt) (snd kt) pm else Some pm);
     Map_insert_range ops kts pm }"

text \<open>The pairs between two iterators of a map, as a loop over them reads them.\<close>

partial_function (option) Map_range :: "map_iterator \<Rightarrow> map_iterator \<Rightarrow> ('k::linorder, 't) proto_map \<Rightarrow> ('k \<times> 't) list option" where
  "Map_range it end pm =
     (if it_node it = it_node end then Some []
      else do {
        kt \<leftarrow> Map_deref it pm;
        it \<leftarrow> Map_increment it pm;
        kts \<leftarrow> Map_range it end pm;
        Some (kt # kts) })"

definition Map_all :: "('k::linorder, 't) proto_map \<Rightarrow> ('k \<times> 't) list option" where
  "Map_all pm = do { it \<leftarrow> Map_begin pm; Map_range it end_iterator pm }"

section \<open>Removal\<close>

definition delete_pair :: "map_iterator \<Rightarrow> ('k, 't) proto_map \<Rightarrow> ('k, 't) proto_map option" where
  "delete_pair it pm = do {
     p \<leftarrow> it_node it;
     n \<leftarrow> im_nodes (pm_elements pm) p;
     v \<leftarrow> n_value n;
     a \<leftarrow> v;
     _ \<leftarrow> pm_pairs pm a;
     Some (pm\<lparr>pm_pairs := (pm_pairs pm)(a := None)\<rparr>) }"

definition Map_erase :: "map_iterator \<Rightarrow> ('k::linorder, 't) proto_map \<Rightarrow> (map_iterator \<times> ('k, 't) proto_map) option" where
  "Map_erase pos pm = do {
     pm \<leftarrow> (if pm_arena pm = None then delete_pair pos pm else Some pm);
     pos' \<leftarrow> Map_increment pos pm;
     m \<leftarrow> im_erase pos (pm_elements pm);
     Some (pos', pm\<lparr>pm_elements := m\<rparr>) }"

definition Map_erase_key :: "'k \<Rightarrow> ('k::linorder, 't) proto_map \<Rightarrow> (nat \<times> ('k, 't) proto_map) option" where
  "Map_erase_key k pm = do {
     it \<leftarrow> Map_find k pm;
     if it_node it = it_node end_iterator then Some (0, pm)
     else do { (_, pm) \<leftarrow> Map_erase it pm; Some (1, pm) } }"

partial_function (option) Map_erase_range ::
  "map_iterator \<Rightarrow> map_iterator \<Rightarrow> ('k::linorder, 't) proto_map \<Rightarrow> ('k, 't) proto_map option" where
  "Map_erase_range first end pm =
     (if it_node first \<noteq> it_node end then do {
        (first, pm) \<leftarrow> Map_erase first pm;
        Map_erase_range first end pm }
      else Some pm)"

definition Map_clear :: "('k::linorder, 't) proto_map \<Rightarrow> ('k, 't) proto_map option" where
  "Map_clear pm = do { it \<leftarrow> Map_begin pm; Map_erase_range it end_iterator pm }"

text \<open>The destructor; what is left of the map is what it has leaked.\<close>

definition Map_destroy :: "('k::linorder, 't) proto_map \<Rightarrow> ('k, 't) proto_map option" where
  "Map_destroy pm = do {
     pm \<leftarrow> Map_clear pm;
     if pm_arena pm = None then do { m \<leftarrow> im_clear (pm_elements pm); Some (pm\<lparr>pm_elements := m\<rparr>) } else Some pm }"

section \<open>Copying, moving and swapping\<close>

definition Map_copy :: "'t value_ops \<Rightarrow> ('k \<Rightarrow> nat) \<Rightarrow> nat \<Rightarrow> ('k::linorder, 't) proto_map \<Rightarrow> ('k, 't) proto_map option" where
  "Map_copy ops hasher seed other = do {
     pm \<leftarrow> Map_Init None (pm_default_enum_value other) hasher seed;
     kts \<leftarrow> Map_all other;
     Map_insert_range ops kts pm }"

definition Map_from_range :: "'t value_ops \<Rightarrow> ('k \<Rightarrow> nat) \<Rightarrow> nat \<Rightarrow> ('k \<times> 't) list \<Rightarrow> ('k::linorder, 't) proto_map option" where
  "Map_from_range ops hasher seed kts = do {
     pm \<leftarrow> Map_Init None 0 hasher seed;
     Map_insert_range ops kts pm }"

text \<open>Assignment of another object; an assignment to itself does nothing.\<close>

definition Map_assign :: "'t value_ops \<Rightarrow> ('k::linorder, 't) proto_map \<Rightarrow> ('k, 't) proto_map \<Rightarrow> ('k, 't) proto_map option" where
  "Map_assign ops pm other = do {
     pm \<leftarrow> Map_clear pm;
     kts \<leftarrow> Map_all other;
     Map_insert_range ops kts pm }"

text \<open>
  Swapping two objects. The temporary copy of the slow path has a seed of its own and is
  destroyed at the end.
\<close>

definition Map_swap :: "'t value_ops \<Rightarrow> ('k \<Rightarrow> nat) \<Rightarrow> nat \<Rightarrow> ('k::linorder, 't) proto_map \<Rightarrow> ('k, 't) proto_map \<Rightarrow>
    (('k, 't) proto_map \<times> ('k, 't) proto_map) option" where
  "Map_swap ops hasher seed pm other =
     (if pm_arena pm = pm_arena other
      then Some (other, pm)
      else do {
        copy \<leftarrow> Map_copy ops hasher seed pm;
        pm \<leftarrow> Map_assign ops pm other;
        other \<leftarrow> Map_assign ops other copy;
        _ \<leftarrow> Map_destroy copy;
        Some (pm, other) })"

definition Map_move :: "'t value_ops \<Rightarrow> ('k \<Rightarrow> nat) \<Rightarrow> nat \<Rightarrow> nat \<Rightarrow> ('k::linorder, 't) proto_map \<Rightarrow>
    (('k, 't) proto_map \<times> ('k, 't) proto_map) option" where
  "Map_move ops hasher seed seed' other = do {
     pm \<leftarrow> Map_new None hasher seed;
     if pm_arena other \<noteq> None then do { pm \<leftarrow> Map_assign ops pm other; Some (pm, other) }
     else Map_swap ops hasher seed' pm other }"

definition Map_move_assign :: "'t value_ops \<Rightarrow> ('k \<Rightarrow> nat) \<Rightarrow> nat \<Rightarrow> ('k::linorder, 't) proto_map \<Rightarrow> ('k, 't) proto_map \<Rightarrow>
    (('k, 't) proto_map \<times> ('k, 't) proto_map) option" where
  "Map_move_assign ops hasher seed pm other =
     (if pm_arena pm \<noteq> pm_arena other
      then do { pm \<leftarrow> Map_assign ops pm other; Some (pm, other) }
      else Map_swap ops hasher seed pm other)"

section \<open>Map fields of messages\<close>

record ('k, 't) MapFieldLite =
  mf_arena :: "nat option"
  mf_map :: "('k, 't) proto_map"

definition MapFieldLite_new :: "int \<Rightarrow> nat option \<Rightarrow> ('k \<Rightarrow> nat) \<Rightarrow> nat \<Rightarrow> ('k, 't) MapFieldLite option" where
  "MapFieldLite_new default_enum_value arena hasher seed = do {
     pm \<leftarrow> Map_new arena hasher seed;
     Some \<lparr>mf_arena = arena, mf_map = pm\<lparr>pm_default_enum_value := default_enum_value\<rparr>\<rparr> }"

definition MapFieldLite_size :: "('k, 't) MapFieldLite \<Rightarrow> int" where
  "MapFieldLite_size mf = sint (word_of_nat (Map_size (mf_map mf)) :: 32 word)"

definition MapFieldLite_Clear :: "('k::linorder, 't) MapFieldLite \<Rightarrow> ('k, 't) MapFieldLite option" where
  "MapFieldLite_Clear mf = do { pm \<leftarrow> Map_clear (mf_map mf); Some (mf\<lparr>mf_map := pm\<rparr>) }"

primrec store_all :: "'t value_ops \<Rightarrow> ('k \<times> 't) list \<Rightarrow> ('k::linorder, 't) proto_map \<Rightarrow> ('k, 't) proto_map option" where
  "store_all ops [] pm = Some pm"
| "store_all ops (kt # kts) pm = do { pm \<leftarrow> Map_store ops (fst kt) (snd kt) pm; store_all ops kts pm }"

definition MapFieldLite_MergeFrom ::
  "'t value_ops \<Rightarrow> ('k::linorder, 't) MapFieldLite \<Rightarrow> ('k, 't) MapFieldLite \<Rightarrow> ('k, 't) MapFieldLite option" where
  "MapFieldLite_MergeFrom ops other mf = do {
     kts \<leftarrow> Map_all (mf_map other);
     pm \<leftarrow> store_all ops kts (mf_map mf);
     Some (mf\<lparr>mf_map := pm\<rparr>) }"

definition MapFieldLite_Swap ::
  "'t value_ops \<Rightarrow> ('k \<Rightarrow> nat) \<Rightarrow> nat \<Rightarrow> ('k::linorder, 't) MapFieldLite \<Rightarrow> ('k, 't) MapFieldLite \<Rightarrow>
    (('k, 't) MapFieldLite \<times> ('k, 't) MapFieldLite) option" where
  "MapFieldLite_Swap ops hasher seed mf other = do {
     (pm, pm') \<leftarrow> Map_swap ops hasher seed (mf_map mf) (mf_map other);
     Some (mf\<lparr>mf_map := pm\<rparr>, other\<lparr>mf_map := pm'\<rparr>) }"

definition AllAreInitialized :: "('t \<Rightarrow> bool) \<Rightarrow> ('k::linorder, 't) proto_map \<Rightarrow> bool option" where
  "AllAreInitialized is_initialized pm = do { kts \<leftarrow> Map_all pm; Some (list_all (is_initialized \<circ> snd) kts) }"

end
