(* ===== verification/Proto_Map_Laws.thy ===== *)
theory Proto_Map_Laws
  imports Proto_Map
begin

text \<open>
  The abstract contents of a \<open>Map\<close> and the correctness of its operations. \<open>pm_shows pm M\<close> says that
  \<open>pm\<close> is well formed and holds the finite map \<open>M\<close>: every element of the hash table points to a
  pair with its key, and off an arena the map owns no other pair.
\<close>

section \<open>Contents\<close>

definition pm_pair :: "('k, 't) proto_map \<Rightarrow> nat \<Rightarrow> ('k \<times> 't) option" where
  "pm_pair pm p = Map_deref \<lparr>it_node = Some p, it_bucket = 0\<rparr> pm"

definition pm_inv :: "('k::linorder, 't) proto_map \<Rightarrow> (nat \<Rightarrow> cell) \<Rightarrow> bool" where
  "pm_inv pm G \<longleftrightarrow> im_inv (pm_elements pm) G \<and>
     (\<forall>p n. im_nodes (pm_elements pm) p = Some n \<longrightarrow>
       (\<exists>a t. n_value n = Some (Some a) \<and> pm_pairs pm a = Some (n_key n, t))) \<and>
     (pm_arena pm = None \<longrightarrow>
       (\<forall>a kt. pm_pairs pm a = Some kt \<longrightarrow> (\<exists>p n. im_nodes (pm_elements pm) p = Some n \<and> n_value n = Some (Some a)))) \<and>
     (\<forall>a kt. pm_pairs pm a = Some kt \<longrightarrow> a < pm_fresh pm)"

definition pm_holds :: "('k, 't) proto_map \<Rightarrow> ('k \<rightharpoonup> 't) \<Rightarrow> bool" where
  "pm_holds pm M \<longleftrightarrow> (\<forall>k t. M k = Some t \<longleftrightarrow> (\<exists>p. pm_pair pm p = Some (k, t)))"

definition pm_shows :: "('k::linorder, 't) proto_map \<Rightarrow> ('k \<rightharpoonup> 't) \<Rightarrow> bool" where
  "pm_shows pm M \<longleftrightarrow> (\<exists>G. pm_inv pm G) \<and> pm_holds pm M"

definition same_owner :: "('k, 't) proto_map \<Rightarrow> ('k, 't) proto_map \<Rightarrow> bool" where
  "same_owner pm pm' \<longleftrightarrow> pm_arena pm' = pm_arena pm \<and> pm_default_enum_value pm' = pm_default_enum_value pm"

text \<open>The element of a key stays where it is, and so does its pair.\<close>

definition keeps_element :: "'k \<Rightarrow> ('k, 't) proto_map \<Rightarrow> ('k, 't) proto_map \<Rightarrow> bool" where
  "keeps_element k pm pm' \<longleftrightarrow>
     (\<forall>p n. im_nodes (pm_elements pm) p = Some n \<and> n_key n = k \<longrightarrow>
       (\<exists>n'. im_nodes (pm_elements pm') p = Some n' \<and> n_key n' = k \<and> n_value n' = n_value n))"

lemma keeps_element_refl [simp]: "keeps_element k pm pm"
  by (simp add: keeps_element_def)

lemma keeps_element_trans: "keeps_element k a b \<Longrightarrow> keeps_element k b c \<Longrightarrow> keeps_element k a c"
  unfolding keeps_element_def by metis

lemma same_owner_trans: "same_owner a b \<Longrightarrow> same_owner b c \<Longrightarrow> same_owner a c"
  by (simp add: same_owner_def)

lemma same_owner_refl [simp]: "same_owner a a"
  by (simp add: same_owner_def)

lemma pm_pair_eq: "pm_pair pm p = Some kt \<longleftrightarrow>
     (\<exists>n a. im_nodes (pm_elements pm) p = Some n \<and> n_value n = Some (Some a) \<and> pm_pairs pm a = Some kt)"
  by (auto simp: pm_pair_def Map_deref_def bind_eq_Some_conv)

lemma Map_deref_eq: "it_node it = Some p \<Longrightarrow> Map_deref it pm = pm_pair pm p"
  by (simp add: pm_pair_def Map_deref_def)

lemma pm_invD:
  assumes "pm_inv pm G" and "im_nodes (pm_elements pm) p = Some n"
  shows "\<exists>a t. n_value n = Some (Some a) \<and> pm_pairs pm a = Some (n_key n, t) \<and> pm_pair pm p = Some (n_key n, t)"
proof -
  obtain a t where at: "n_value n = Some (Some a)" "pm_pairs pm a = Some (n_key n, t)"
    using assms unfolding pm_inv_def by blast
  then have "pm_pair pm p = Some (n_key n, t)" using assms(2) by (simp add: pm_pair_eq)
  with at show ?thesis by blast
qed

lemma pm_inv_owned:
  "pm_inv pm G \<Longrightarrow> pm_arena pm = None \<Longrightarrow> pm_pairs pm a = Some kt \<Longrightarrow>
     \<exists>p n. im_nodes (pm_elements pm) p = Some n \<and> n_value n = Some (Some a)"
  unfolding pm_inv_def by blast

lemma pm_inv_fresh: "pm_inv pm G \<Longrightarrow> pm_pairs pm a = Some kt \<Longrightarrow> a < pm_fresh pm"
  unfolding pm_inv_def by blast

lemma pm_inv_table: "pm_inv pm G \<Longrightarrow> im_inv (pm_elements pm) G"
  unfolding pm_inv_def by blast

lemma pm_pair_key:
  assumes "pm_inv pm G" and "pm_pair pm p = Some (k, t)"
  shows "\<exists>n. im_nodes (pm_elements pm) p = Some n \<and> n_key n = k"
  using assms pm_invD [OF assms(1)] by (fastforce simp: pm_pair_eq)

lemma pm_pair_injective:
  assumes "pm_inv pm G" and "pm_pair pm p = Some (k, t)" and "pm_pair pm q = Some (k, t')"
  shows "p = q"
  using pm_pair_key [OF assms(1,2)] pm_pair_key [OF assms(1,3)] key_injective assms(1)
  unfolding pm_inv_def by metis

text \<open>The table underneath holds the addresses of the pairs.\<close>

lemma im_contents:
  assumes "im_inv m G"
  shows "\<exists>A. im_shows m A"
proof -
  define Q where "Q k v \<longleftrightarrow> (\<exists>p n. im_nodes m p = Some n \<and> n_key n = k \<and> n_value n = v)" for k v
  define A where "A k = (if \<exists>v. Q k v then Some (SOME v. Q k v) else None)" for k
  have fn: "v = v'" if "Q k v" "Q k v'" for k v v'
    using that key_injective [OF assms] by (fastforce simp: Q_def)
  have "A k = Some v \<longleftrightarrow> Q k v" for k v
    using someI_ex [of "Q k"] fn by (auto simp: A_def)
  then show ?thesis
    using im_showsI [OF assms, of A] by (auto simp: Q_def)
qed

lemma contents_agree:
  assumes inv: "pm_inv pm G" and M: "pm_holds pm M" and A: "im_shows (pm_elements pm) A"
  shows "A k = None \<longleftrightarrow> M k = None"
proof -
  have "(\<exists>v. A k = Some v) \<longleftrightarrow> (\<exists>p n. im_nodes (pm_elements pm) p = Some n \<and> n_key n = k)"
    using A by (auto simp: im_shows_def)
  moreover have "(\<exists>t. M k = Some t) \<longleftrightarrow> (\<exists>p n. im_nodes (pm_elements pm) p = Some n \<and> n_key n = k)"
    using M pm_pair_key [OF inv] pm_invD [OF inv] unfolding pm_holds_def by metis
  ultimately show ?thesis by (metis not_None_eq)
qed

lemma pm_showsE:
  assumes "pm_shows pm M"
  obtains G A where "pm_inv pm G" "pm_holds pm M" "im_shows (pm_elements pm) A"
    "\<forall>k. A k = None \<longleftrightarrow> M k = None"
proof -
  obtain G where G: "pm_inv pm G" "pm_holds pm M" using assms by (auto simp: pm_shows_def)
  then have "im_inv (pm_elements pm) G" by (simp add: pm_inv_def)
  moreover obtain A where "im_shows (pm_elements pm) A" using im_contents [OF calculation] ..
  ultimately show ?thesis using that [of G A] G contents_agree [OF G] by blast
qed


section \<open>Lookup\<close>

lemma Map_find_ok:
  assumes "pm_shows pm M"
  shows "\<exists>it. Map_find k pm = Some it \<and>
    (case M k of None \<Rightarrow> it_node it = None | Some t \<Rightarrow> \<exists>p. it_node it = Some p \<and> pm_pair pm p = Some (k, t))"
proof -
  obtain G A where G: "pm_inv pm G" "pm_holds pm M" "im_shows (pm_elements pm) A" "\<forall>k. A k = None \<longleftrightarrow> M k = None"
    using assms by (rule pm_showsE)
  obtain it where it: "im_find (pm_elements pm) k = Some it"
      "case A k of None \<Rightarrow> it_node it = None
       | Some v \<Rightarrow> \<exists>p n. it_node it = Some p \<and> im_nodes (pm_elements pm) p = Some n \<and> n_key n = k \<and> n_value n = v"
    using im_find_ok [OF G(3), of k] by blast
  show ?thesis
  proof (cases "A k")
    case None
    moreover from this have "M k = None" using G(4) by simp
    ultimately show ?thesis using it by (simp add: Map_find_def)
  next
    case (Some v)
    then obtain p n where p: "it_node it = Some p" "im_nodes (pm_elements pm) p = Some n" "n_key n = k"
      using it(2) by auto
    then obtain t where t: "pm_pair pm p = Some (k, t)" using pm_invD [OF G(1)] by metis
    then have "M k = Some t" using G(2) unfolding pm_holds_def by blast
    then show ?thesis using it(1) p(1) t by (simp add: Map_find_def)
  qed
qed

lemma Map_contains_ok: "pm_shows pm M \<Longrightarrow> Map_contains k pm = Some (M k \<noteq> None)"
proof -
  assume "pm_shows pm M"
  then obtain G A where "pm_inv pm G" "pm_holds pm M" "im_shows (pm_elements pm) A" "\<forall>k. A k = None \<longleftrightarrow> M k = None"
    by (rule pm_showsE)
  then show ?thesis using im_contains_ok [of "pm_elements pm" A k] by (simp add: Map_contains_def)
qed

lemma Map_at_ok: "pm_shows pm M \<Longrightarrow> Map_at k pm = M k"
  using Map_find_ok [of pm M k] by (auto simp: Map_at_def GOOGLE_CHECK_def end_iterator_def Map_deref_eq split: option.splits)

lemma Map_count_ok: "pm_shows pm M \<Longrightarrow> Map_count k pm = Some (if M k = None then 0 else 1)"
  using Map_find_ok [of pm M k] by (auto simp: Map_count_def end_iterator_def Map_deref_eq split: option.splits)

section \<open>Insertion\<close>

text \<open>Changing the value of one element keeps the structure of the table.\<close>

lemma set_node_value_inv:
  assumes inv: "im_inv m G" and n: "im_nodes m p = Some n"
  shows "im_inv (m\<lparr>im_nodes := (im_nodes m)(p \<mapsto> n\<lparr>n_value := v\<rparr>)\<rparr>) G"
proof -
  let ?m = "m\<lparr>im_nodes := (im_nodes m)(p \<mapsto> n\<lparr>n_value := v\<rparr>)\<rparr>"
  have key: "key_of ?m = key_of m" using n by (auto simp: key_of_def)
  have bn: "BucketNumber ?m = BucketNumber m" by (auto simp: BucketNumber_def)
  have links: "(\<exists>n'. im_nodes ?m q = Some n' \<and> n_next n' = x) = (\<exists>n'. im_nodes m q = Some n' \<and> n_next n' = x)" for q x
    using n by auto
  have ch: "chain (im_nodes ?m) ps = chain (im_nodes m) ps" for ps
    using n by (induction ps) auto
  have trees: "im_trees ?m = im_trees m" by simp
  have "cell_ok ?m G b = cell_ok m G b" for b
    by (simp only: cell_ok_def key bn links ch trees)
  then have "table_ok ?m G" using inv by (simp add: im_inv_def im_rep_def table_ok_def)
  moreover have "index_ok ?m = index_ok m" by (simp add: index_ok_def)
  moreover have "placed ?m G = placed m G" "placed_trees ?m G = placed_trees m G"
    by (simp_all add: placed_def placed_trees_def)
  moreover have "dom (im_nodes ?m) = dom (im_nodes m)" using n by auto
  ultimately show ?thesis
    using inv by (simp add: im_inv_def im_rep_def fresh_ok_def)
qed

text \<open>The elements of a table after one is added.\<close>

lemma added_nodes:
  assumes A: "im_shows m A" "im_shows m' (A(k \<mapsto> v))" "A k = None" and keep: "keeps_nodes m m'"
    and p: "im_nodes m' p = Some n" "n_key n = k" and q: "im_nodes m' q = Some nq" "q \<noteq> p"
  shows "\<exists>n0. im_nodes m q = Some n0 \<and> n_key n0 = n_key nq \<and> n_value n0 = n_value nq"
proof -
  obtain G' where G': "im_inv m' G'" using A(2) by (auto simp: im_shows_def)
  have ne: "n_key nq \<noteq> k" using key_injective [OF G' p(1) q(1)] p(2) q(2) by auto
  have "(A(k \<mapsto> v)) (n_key nq) = Some (n_value nq)"
    using A(2) q(1) unfolding im_shows_def by blast
  then have "A (n_key nq) = Some (n_value nq)" using ne by simp
  then obtain r n0 where r: "im_nodes m r = Some n0" "n_key n0 = n_key nq" "n_value n0 = n_value nq"
    using A(1) unfolding im_shows_def by blast
  then obtain n1 where "im_nodes m' r = Some n1" "n_key n1 = n_key nq"
    using keep unfolding keeps_nodes_def by metis
  then have "r = q" using key_injective [OF G' _ q(1)] by blast
  then show ?thesis using r by blast
qed


text \<open>A new pair, attached to the element that was added for its key.\<close>

lemma attach_pair:
  fixes t :: 't and pm :: "('k::linorder, 't) proto_map"
  assumes inv: "pm_inv pm G" and M: "pm_holds pm M" "M k = None"
    and A: "im_shows (pm_elements pm) A" "im_shows m' (A(k \<mapsto> v))" and keep: "keeps_nodes (pm_elements pm) m'"
    and p: "im_nodes m' p = Some n" "n_key n = k"
  defines "pm' \<equiv> pm\<lparr>pm_pairs := (pm_pairs pm)(pm_fresh pm \<mapsto> (k, t)), pm_fresh := pm_fresh pm + 1,
    pm_elements := m'\<lparr>im_nodes := (im_nodes m')(p \<mapsto> n\<lparr>n_value := Some (Some (pm_fresh pm))\<rparr>)\<rparr>\<rparr>"
  shows "pm_shows pm' (M(k \<mapsto> t))" and "pm_pair pm' p = Some (k, t)" and "keeps_element k' pm pm'"
proof -
  let ?a = "pm_fresh pm" and ?N = "im_nodes (pm_elements pm)"
  have Ak: "A k = None" using contents_agree [OF inv M(1) A(1)] M(2) by simp
  obtain G' where G': "im_inv m' G'" using A(2) by (auto simp: im_shows_def)
  have new: "?a \<notin> dom (pm_pairs pm)" using pm_inv_fresh [OF inv, of ?a] by auto
  note old = added_nodes [OF A Ak keep p]
  have pnew: "?N p = None"
  proof (rule ccontr)
    assume "?N p \<noteq> None"
    then obtain n0 where n0: "?N p = Some n0" by auto
    then have "n_key n0 = k" using keep p unfolding keeps_nodes_def by force
    then obtain u where "pm_pair pm p = Some (k, u)" using pm_invD [OF inv n0] by metis
    then have "M k = Some u" using M(1) unfolding pm_holds_def by blast
    then show False using M(2) by simp
  qed
  show pair: "pm_pair pm' p = Some (k, t)" by (simp add: pm_pair_eq pm'_def)
  show "keeps_element k' pm pm'"
    unfolding keeps_element_def
  proof (intro allI impI)
    fix q nq assume q: "?N q = Some nq \<and> n_key nq = k'"
    then have "q \<noteq> p" using pnew by auto
    moreover obtain n' where "im_nodes m' q = Some n'" "n_key n' = n_key nq" "n_value n' = n_value nq"
      using keep q unfolding keeps_nodes_def by blast
    ultimately show "\<exists>n'. im_nodes (pm_elements pm') q = Some n' \<and> n_key n' = k' \<and> n_value n' = n_value nq"
      using q by (simp add: pm'_def)
  qed
  have other: "pm_pair pm' q = pm_pair pm q" if "q \<noteq> p" for q
  proof (cases "im_nodes m' q")
    case None
    then have "?N q = None" using keep unfolding keeps_nodes_def by (metis not_None_eq option.distinct(1))
    then show ?thesis using None that by (simp add: pm_pair_def Map_deref_def pm'_def)
  next
    case (Some nq)
    then obtain n0 where n0: "?N q = Some n0" "n_key n0 = n_key nq" "n_value n0 = n_value nq"
      using old [OF Some \<open>q \<noteq> p\<close>] by blast
    obtain a u where "n_value n0 = Some (Some a)" "pm_pairs pm a = Some (n_key n0, u)"
      using pm_invD [OF inv n0(1)] by blast
    moreover from this have "a \<noteq> ?a" using new by auto
    ultimately show ?thesis using Some n0 that by (simp add: pm_pair_def Map_deref_def pm'_def)
  qed
  have "pm_inv pm' G'"
    unfolding pm_inv_def
  proof (intro conjI allI impI)
    show "im_inv (pm_elements pm') G'" using set_node_value_inv [OF G' p(1)] by (simp add: pm'_def)
  next
    fix q nq assume q: "im_nodes (pm_elements pm') q = Some nq"
    show "\<exists>a u. n_value nq = Some (Some a) \<and> pm_pairs pm' a = Some (n_key nq, u)"
    proof (cases "q = p")
      case True
      then show ?thesis using q p by (auto simp: pm'_def)
    next
      case False
      then have q': "im_nodes m' q = Some nq" using q by (simp add: pm'_def)
      then obtain n0 where n0: "?N q = Some n0" "n_key n0 = n_key nq" "n_value n0 = n_value nq"
        using old False by blast
      obtain a u where "n_value n0 = Some (Some a)" "pm_pairs pm a = Some (n_key n0, u)"
        using pm_invD [OF inv n0(1)] by blast
      moreover from this have "a \<noteq> ?a" using new by auto
      ultimately show ?thesis using n0 by (auto simp: pm'_def)
    qed
  next
    fix a kt assume own: "pm_arena pm' = None" and a: "pm_pairs pm' a = Some kt"
    show "\<exists>q nq. im_nodes (pm_elements pm') q = Some nq \<and> n_value nq = Some (Some a)"
    proof (cases "a = ?a")
      case True
      then show ?thesis by (auto simp: pm'_def)
    next
      case False
      then obtain q n0 where "?N q = Some n0" "n_value n0 = Some (Some a)"
        using pm_inv_owned [OF inv, of a] own a unfolding pm'_def by auto
      moreover from this have "q \<noteq> p" using pnew by auto
      ultimately show ?thesis using keep unfolding keeps_nodes_def by (fastforce simp: pm'_def)
    qed
  next
    fix a kt assume "pm_pairs pm' a = Some kt"
    then show "a < pm_fresh pm'"
      using pm_inv_fresh [OF inv, of a] by (cases "a = ?a") (auto simp: pm'_def)
  qed
  moreover have "pm_holds pm' (M(k \<mapsto> t))"
  proof -
    have "pm_pair pm p = None" using pnew by (simp add: pm_pair_def Map_deref_def)
    then have "(\<exists>q. pm_pair pm' q = Some (k', t')) \<longleftrightarrow> (k', t') = (k, t) \<or> (\<exists>q. pm_pair pm q = Some (k', t'))" for k' t'
      using pair other by (metis option.distinct(1) option.inject)
    moreover have "\<nexists>q. pm_pair pm q = Some (k, t')" for t'
      using M unfolding pm_holds_def by (metis option.distinct(1))
    ultimately show ?thesis using M(1) unfolding pm_holds_def by (metis fun_upd_apply option.inject prod.inject)
  qed
  ultimately show "pm_shows pm' (M(k \<mapsto> t))" by (auto simp: pm_shows_def)
qed


lemma keep_elements:
  assumes inv: "pm_inv pm G" and M: "pm_holds pm M" and A: "im_shows (pm_elements pm) A" "im_shows m' A"
    and keep: "keeps_nodes (pm_elements pm) m'"
  shows "pm_shows (pm\<lparr>pm_elements := m'\<rparr>) M" and "pm_pair (pm\<lparr>pm_elements := m'\<rparr>) = pm_pair pm"
    and "keeps_element k pm (pm\<lparr>pm_elements := m'\<rparr>)"
proof -
  let ?N = "im_nodes (pm_elements pm)" and ?pm = "pm\<lparr>pm_elements := m'\<rparr>"
  obtain G' where G': "im_inv m' G'" using A(2) by (auto simp: im_shows_def)
  have old: "\<exists>n0. ?N q = Some n0 \<and> n_key n0 = n_key nq \<and> n_value n0 = n_value nq" if q: "im_nodes m' q = Some nq" for q nq
  proof -
    have "A (n_key nq) = Some (n_value nq)" using A(2) q unfolding im_shows_def by blast
    then obtain r n0 where r: "?N r = Some n0" "n_key n0 = n_key nq" "n_value n0 = n_value nq"
      using A(1) unfolding im_shows_def by blast
    then obtain n1 where "im_nodes m' r = Some n1" "n_key n1 = n_key nq"
      using keep unfolding keeps_nodes_def by metis
    then have "r = q" using key_injective [OF G' _ q] by blast
    then show ?thesis using r by blast
  qed
  show "keeps_element k pm (pm\<lparr>pm_elements := m'\<rparr>)"
    using keep by (auto simp: keeps_element_def keeps_nodes_def)
  show pair: "pm_pair ?pm = pm_pair pm"
  proof
    fix q
    show "pm_pair ?pm q = pm_pair pm q"
    proof (cases "im_nodes m' q")
      case None
      then have "?N q = None" using keep unfolding keeps_nodes_def by (metis not_None_eq option.distinct(1))
      then show ?thesis using None by (simp add: pm_pair_def Map_deref_def)
    next
      case (Some nq)
      then show ?thesis using old [OF Some] by (auto simp: pm_pair_def Map_deref_def)
    qed
  qed
  have "pm_inv ?pm G'"
    unfolding pm_inv_def
  proof (intro conjI allI impI)
    fix q nq assume "im_nodes (pm_elements ?pm) q = Some nq"
    then obtain n0 where n0: "?N q = Some n0" "n_key n0 = n_key nq" "n_value n0 = n_value nq" using old by auto
    then show "\<exists>a u. n_value nq = Some (Some a) \<and> pm_pairs ?pm a = Some (n_key nq, u)"
      using pm_invD [OF inv n0(1)] by auto
  next
    fix a kt assume own: "pm_arena ?pm = None" and a: "pm_pairs ?pm a = Some kt"
    then obtain q n0 where "?N q = Some n0" "n_value n0 = Some (Some a)"
      using pm_inv_owned [OF inv, of a] by auto
    then show "\<exists>q nq. im_nodes (pm_elements ?pm) q = Some nq \<and> n_value nq = Some (Some a)"
      using keep unfolding keeps_nodes_def by fastforce
  qed (use G' pm_inv_fresh [OF inv] in simp_all)
  then show "pm_shows ?pm M" using M pair by (auto simp: pm_shows_def pm_holds_def)
qed

lemma Map_insert_ok:
  assumes "pm_shows pm M"
  shows "\<exists>it pm'. Map_insert (k, t) pm = Some ((it, M k = None), pm') \<and>
    pm_shows pm' (if M k = None then M(k \<mapsto> t) else M) \<and> same_owner pm pm' \<and> (\<forall>k'. keeps_element k' pm pm') \<and>
    (\<exists>p. it_node it = Some p \<and> pm_pair pm' p = Some (k, case M k of None \<Rightarrow> t | Some u \<Rightarrow> u))"
proof -
  obtain G A where G: "pm_inv pm G" "pm_holds pm M" "im_shows (pm_elements pm) A" "\<forall>k. A k = None \<longleftrightarrow> M k = None"
    using assms by (rule pm_showsE) blast
  obtain it m' p n where ins: "im_insert_value k None (pm_elements pm) = Some ((it, A k = None), m')"
      "im_shows m' (if A k = None then A(k \<mapsto> None) else A)" "keeps_nodes (pm_elements pm) m'"
      "it_node it = Some p" "im_nodes m' p = Some n" "n_key n = k"
    using im_insert_value_ok [OF G(3), of k None] by blast
  show ?thesis
  proof (cases "M k")
    case None
    then have Ak: "A k = None" using G(4) by simp
    have "im_shows m' (A(k \<mapsto> None))" using ins(2) Ak by simp
    note new = attach_pair [OF G(1,2) None G(3) this ins(3,5,6)]
    show ?thesis
      using new [where t = t] None Ak ins(1,4,5)
      by (auto simp: Map_insert_def im_insert_key_def CreateValueTypeInternal_def set_node_value_def same_owner_def)
  next
    case (Some u)
    then have Ak: "A k \<noteq> None" using G(4) by (metis option.distinct(1))
    then have "im_shows m' A" using ins(2) by (simp only: if_False)
    note keep = keep_elements [OF G(1,2,3) this ins(3)]
    obtain G' where G': "pm_inv (pm\<lparr>pm_elements := m'\<rparr>) G'" using keep(1) by (auto simp: pm_shows_def)
    then obtain u' where u': "pm_pair (pm\<lparr>pm_elements := m'\<rparr>) p = Some (k, u')"
      using pm_invD [OF G', of p n] ins(5,6) by auto
    then have "M k = Some u'" using keep(1) unfolding pm_shows_def pm_holds_def by blast
    then show ?thesis
      using keep(1,3) Some Ak ins(1,4) u' by (auto simp: Map_insert_def im_insert_key_def same_owner_def)
  qed
qed

definition initial_value :: "'t value_ops \<Rightarrow> ('k, 't) proto_map \<Rightarrow> 't" where
  "initial_value ops pm = MapValueInitializer ops (pm_default_enum_value pm) (vo_default ops)"

lemma pm_updates_order: "pm\<lparr>pm_fresh := f, pm_elements := e, pm_pairs := P\<rparr> = pm\<lparr>pm_pairs := P, pm_fresh := f, pm_elements := e\<rparr>"
  by (cases pm) simp

text \<open>\<open>operator[]\<close> adds a pair with the initial value where the key is missing, and finds it otherwise.\<close>

lemma Map_subscript_ok:
  assumes "pm_shows pm M"
  shows "\<exists>a pm' p n. Map_subscript ops k pm = Some (a, pm') \<and>
    pm_shows pm' (if M k = None then M(k \<mapsto> initial_value ops pm) else M) \<and> same_owner pm pm' \<and>
    (\<forall>k'. keeps_element k' pm pm') \<and> im_nodes (pm_elements pm') p = Some n \<and> n_key n = k \<and> n_value n = Some (Some a)"
proof -
  obtain G A where G: "pm_inv pm G" "pm_holds pm M" "im_shows (pm_elements pm) A" "\<forall>k. A k = None \<longleftrightarrow> M k = None"
    using assms by (rule pm_showsE) blast
  obtain it m' p n where ins: "im_insert_value k (Some None) (pm_elements pm) = Some ((it, A k = None), m')"
      "im_shows m' (if A k = None then A(k \<mapsto> Some None) else A)" "keeps_nodes (pm_elements pm) m'"
      "it_node it = Some p" "im_nodes m' p = Some n" "n_key n = k" "n_value n = (case A k of None \<Rightarrow> Some None | Some w \<Rightarrow> w)"
    using im_insert_value_ok [OF G(3), of k "Some None"] by blast
  have sub: "im_subscript None k (pm_elements pm) = Some (p, m')"
    using ins(1,4) by (simp add: im_subscript_def im_insert_def)
  show ?thesis
  proof (cases "M k")
    case None
    then have Ak: "A k = None" using G(4) by simp
    have "im_shows m' (A(k \<mapsto> Some None))" using ins(2) Ak by simp
    note new = attach_pair [OF G(1,2) None G(3) this ins(3,5,6)]
    show ?thesis
      using new(1,3) [where t = "initial_value ops pm"] None Ak ins(5,6,7) sub
      by (auto simp: Map_subscript_def CreateValueTypeInternal_def set_node_value_def same_owner_def initial_value_def pm_updates_order)
  next
    case (Some u)
    then have Ak: "A k \<noteq> None" using G(4) by (metis option.distinct(1))
    then have "im_shows m' A" using ins(2) by (simp only: if_False)
    note keep = keep_elements [OF G(1,2,3) this ins(3)]
    obtain G' where G': "pm_inv (pm\<lparr>pm_elements := m'\<rparr>) G'" using keep(1) by (auto simp: pm_shows_def)
    then obtain a where "n_value n = Some (Some a)"
      using pm_invD [OF G', of p n] ins(5) by auto
    then show ?thesis
      using keep(1,3) Some ins(5,6) sub
      by (intro exI [of _ a] exI [of _ "pm\<lparr>pm_elements := m'\<rparr>"] exI [of _ p] exI [of _ n])
         (simp add: Map_subscript_def same_owner_def)
  qed
qed


lemma Map_store_ok:
  assumes "pm_shows pm M"
  shows "\<exists>pm'. Map_store ops k t pm = Some pm' \<and> pm_shows pm' (M(k \<mapsto> t)) \<and> same_owner pm pm' \<and>
    (\<forall>k'. keeps_element k' pm pm')"
proof -
  obtain a pm1 p n where sub: "Map_subscript ops k pm = Some (a, pm1)"
      "pm_shows pm1 (if M k = None then M(k \<mapsto> initial_value ops pm) else M)" "same_owner pm pm1" "\<forall>k'. keeps_element k' pm pm1"
      "im_nodes (pm_elements pm1) p = Some n" "n_key n = k" "n_value n = Some (Some a)"
    using Map_subscript_ok [OF assms, of ops k] by blast
  define M1 where "M1 = (if M k = None then M(k \<mapsto> initial_value ops pm) else M)"
  obtain G where G: "pm_inv pm1 G" "pm_holds pm1 M1" using sub(2) by (auto simp: pm_shows_def M1_def)
  obtain u where u: "pm_pairs pm1 a = Some (k, u)" "pm_pair pm1 p = Some (k, u)"
    using pm_invD [OF G(1) sub(5)] sub(6,7) by auto
  let ?pm = "pm1\<lparr>pm_pairs := (pm_pairs pm1)(a \<mapsto> (k, t))\<rparr>"
  have same: "q = p" if "im_nodes (pm_elements pm1) q = Some nq" "n_value nq = Some (Some a)" for q nq
  proof -
    have "n_key nq = k" using pm_invD [OF G(1) that(1)] that(2) u(1) by auto
    then show ?thesis using key_injective [of "pm_elements pm1" G q nq p n] G(1) that(1) sub(5,6) by (auto simp: pm_inv_def)
  qed
  have "pm_inv ?pm G"
    unfolding pm_inv_def
  proof (intro conjI allI impI)
    fix q nq assume q: "im_nodes (pm_elements ?pm) q = Some nq"
    then show "\<exists>b v. n_value nq = Some (Some b) \<and> pm_pairs ?pm b = Some (n_key nq, v)"
      using pm_invD [OF G(1), of q nq] u(1) by (cases "n_value nq = Some (Some a)") auto
  qed (use pm_inv_table [OF G(1)] pm_inv_owned [OF G(1)] pm_inv_fresh [OF G(1)] u(1) in \<open>auto split: if_splits\<close>)
  moreover have "pm_holds ?pm (M(k \<mapsto> t))"
  proof -
    have pair: "pm_pair ?pm q = (if q = p then Some (k, t) else pm_pair pm1 q)" for q
    proof (cases "im_nodes (pm_elements pm1) q")
      case None
      then show ?thesis using sub(5) by (auto simp: pm_pair_def Map_deref_def)
    next
      case (Some nq)
      then show ?thesis
        using same [OF Some] pm_invD [OF G(1) Some] sub(5,7) by (auto simp: pm_pair_def Map_deref_def)
    qed
    have keys: "q = p" if "pm_pair pm1 q = Some (k, v)" for q v
      using pm_pair_injective [OF G(1) that u(2)] .
    have "(\<exists>q. pm_pair ?pm q = Some (k', v)) \<longleftrightarrow> (if k' = k then v = t else \<exists>q. pm_pair pm1 q = Some (k', v))" for k' v
    proof (cases "k' = k")
      case True
      then show ?thesis using keys by (metis pair option.inject prod.inject)
    next
      case False
      have "pm_pair ?pm p \<noteq> Some (k', v)" "pm_pair pm1 p \<noteq> Some (k', v)" using False u(2) pair [of p] by auto
      then show ?thesis using False pair by metis
    qed
    moreover have "M1 k' = M k'" if "k' \<noteq> k" for k' using that by (simp add: M1_def)
    ultimately show ?thesis
      using G(2) unfolding pm_holds_def by (metis fun_upd_apply option.inject)
  qed
  ultimately have "pm_shows ?pm (M(k \<mapsto> t))" by (auto simp: pm_shows_def)
  then show ?thesis using sub(1,3,4) u(1) by (auto simp: Map_store_def same_owner_def keeps_element_def)
qed

lemma Map_insert_range_ok:
  "pm_shows pm M \<Longrightarrow> \<exists>pm'. Map_insert_range ops kts pm = Some pm' \<and> pm_shows pm' (map_of kts ++ M) \<and> same_owner pm pm'"
proof (induction kts arbitrary: pm M)
  case (Cons kt kts)
  obtain k t where kt: "kt = (k, t)" by (cases kt)
  obtain it where it: "Map_find k pm = Some it" "it_node it = None \<longleftrightarrow> M k = None"
    using Map_find_ok [OF Cons.prems, of k] by (auto split: option.splits)
  obtain pm1 M1 where one: "(if it_node it = it_node end_iterator then Map_store ops k t pm else Some pm) = Some pm1"
      "pm_shows pm1 M1" "same_owner pm pm1" "M1 = (if M k = None then M(k \<mapsto> t) else M)"
    using Map_store_ok [OF Cons.prems, of ops k t] Cons.prems it(2)
    by (cases "M k = None") (auto simp: end_iterator_def)
  obtain pm2 where "Map_insert_range ops kts pm1 = Some pm2" "pm_shows pm2 (map_of kts ++ M1)" "same_owner pm1 pm2"
    using Cons.IH [OF one(2)] by blast
  moreover have "map_of kts ++ M1 = map_of (kt # kts) ++ M"
    using one(4) kt by (auto simp: fun_eq_iff map_add_def split: option.splits)
  moreover have "Map_insert_range ops (kt # kts) pm = Map_insert_range ops kts pm1"
    using one(1) it(1) kt by (auto split: if_splits)
  ultimately show ?case using same_owner_trans [OF one(3)] by metis
qed simp

end
