(* ===== verification/Proto_Map_Iter.thy ===== *)
theory Proto_Map_Iter
  imports Proto_Map_Laws
begin

text \<open>
  Iteration over a \<open>Map\<close>, removal of its elements, and the operations built on them: \<open>clear\<close>, the
  destructor, copying, assignment, moving and swapping.
\<close>

section \<open>Iteration\<close>

lemma items_nodes:
  assumes "pm_inv pm G"
  shows "set (items_from (pm_elements pm) G 0) = dom (im_nodes (pm_elements pm))"
    and "distinct (items_from (pm_elements pm) G 0)"
proof -
  note inv = pm_inv_table [OF assms]
  show "distinct (items_from (pm_elements pm) G 0)" using inv by (rule distinct_items [OF im_invD(1)])
  show "set (items_from (pm_elements pm) G 0) = dom (im_nodes (pm_elements pm))"
    unfolding set_items [OF im_invD(1) [OF inv]] using inv by (simp add: im_inv_def)
qed

lemma Map_range_ok:
  assumes inv: "pm_inv pm G" and "items_from (pm_elements pm) G 0 = xs @ ys" and "it_node it = hd_option ys"
  shows "Map_range it end_iterator pm = Some (map (\<lambda>p. the (pm_pair pm p)) ys)"
  using assms(2,3)
proof (induction ys arbitrary: xs it)
  case Nil
  then show ?case by (subst Map_range.simps) (simp add: end_iterator_def)
next
  case (Cons y ys)
  have y: "it_node it = Some y" using Cons.prems(2) by simp
  obtain it' where it': "im_increment it (pm_elements pm) = Some it'" "it_node it' = hd_option ys"
    using im_increment_ok [OF im_invD(2) [OF pm_inv_table [OF inv]] y Cons.prems(1)] by blast
  have "y \<in> dom (im_nodes (pm_elements pm))" using items_nodes(1) [OF inv] Cons.prems(1) by auto
  then obtain kt where kt: "pm_pair pm y = Some kt" using pm_invD [OF inv] by blast
  have "Map_range it' end_iterator pm = Some (map (\<lambda>p. the (pm_pair pm p)) ys)"
    by (rule Cons.IH [of "xs @ [y]"]) (use Cons.prems(1) it'(2) in simp_all)
  then show ?case
    using y it'(1) kt by (subst Map_range.simps) (simp add: end_iterator_def Map_deref_eq Map_increment_def)
qed

lemma distinct_pairs:
  assumes inv: "pm_inv pm G" and sub: "set ps \<subseteq> dom (im_nodes (pm_elements pm))" and "distinct ps"
  shows "distinct (map fst (map (\<lambda>p. the (pm_pair pm p)) ps))"
proof -
  have "inj_on (\<lambda>p. fst (the (pm_pair pm p))) (set ps)"
  proof (rule inj_onI)
    fix p q assume pq: "p \<in> set ps" "q \<in> set ps" "fst (the (pm_pair pm p)) = fst (the (pm_pair pm q))"
    then obtain n n' where n: "im_nodes (pm_elements pm) p = Some n" "im_nodes (pm_elements pm) q = Some n'"
      using sub by blast
    then have "n_key n = n_key n'" using pq(3) pm_invD [OF inv n(1)] pm_invD [OF inv n(2)] by auto
    then show "p = q" using key_injective [OF pm_inv_table [OF inv] n] by simp
  qed
  then show ?thesis using assms(3) by (simp add: distinct_map comp_def)
qed

text \<open>A loop from \<open>begin()\<close> to \<open>end()\<close> reads every pair once.\<close>

lemma Map_all_ok:
  assumes "pm_shows pm M"
  shows "\<exists>kts. Map_all pm = Some kts \<and> map_of kts = M \<and> distinct (map fst kts)"
proof -
  obtain G where G: "pm_inv pm G" "pm_holds pm M" using assms by (auto simp: pm_shows_def)
  let ?ps = "items_from (pm_elements pm) G 0"
  let ?kts = "map (\<lambda>p. the (pm_pair pm p)) ?ps"
  obtain it where it: "im_begin (pm_elements pm) = Some it" "it_node it = hd_option ?ps"
    using im_begin_ok [OF im_invD(2) [OF pm_inv_table [OF G(1)]]] by blast
  have all: "Map_all pm = Some ?kts"
    using it Map_range_ok [OF G(1), of "[]" ?ps it] by (simp add: Map_all_def Map_begin_def)
  have dist: "distinct (map fst ?kts)"
    using distinct_pairs [OF G(1)] items_nodes [OF G(1)] by blast
  have "(k, t) \<in> set ?kts \<longleftrightarrow> (\<exists>p. pm_pair pm p = Some (k, t))" for k t
  proof
    assume "(k, t) \<in> set ?kts"
    then obtain p where "p \<in> set ?ps" "the (pm_pair pm p) = (k, t)" by (auto simp del: split_paired_All)
    then have "p \<in> dom (im_nodes (pm_elements pm))" "the (pm_pair pm p) = (k, t)"
      using items_nodes(1) [OF G(1)] by simp_all
    then show "\<exists>p. pm_pair pm p = Some (k, t)" using pm_invD [OF G(1)] by fastforce
  next
    assume "\<exists>p. pm_pair pm p = Some (k, t)"
    then obtain p where p: "pm_pair pm p = Some (k, t)" ..
    then have "p \<in> set ?ps" using pm_pair_key [OF G(1) p] items_nodes(1) [OF G(1)] by auto
    then show "(k, t) \<in> set ?kts" using p by force
  qed
  then have "map_of ?kts k = Some t \<longleftrightarrow> M k = Some t" for k t
    using G(2) map_of_eq_Some_iff [OF dist] by (simp add: pm_holds_def)
  then have "map_of ?kts = M" by (intro ext) (metis not_None_eq)
  then show ?thesis using all dist by blast
qed

section \<open>Removal\<close>

lemma same_kv_lookup:
  assumes "same_kv N N'" and "N' p = Some n"
  shows "\<exists>n0. N p = Some n0 \<and> n_key n0 = n_key n \<and> n_value n0 = n_value n"
  using same_kvD [of N' N p n] assms by (auto simp: same_kv_def)

lemma Map_erase_ok:
  assumes inv: "pm_inv pm G" and M: "pm_holds pm M" and items: "items_from (pm_elements pm) G 0 = xs @ p # ys"
    and pos: "it_node pos = Some p" and pair: "pm_pair pm p = Some (k, t)"
  shows "\<exists>pos' pm' G'. Map_erase pos pm = Some (pos', pm') \<and> it_node pos' = hd_option ys \<and> pm_inv pm' G' \<and>
    pm_holds pm' (M(k := None)) \<and> items_from (pm_elements pm') G' 0 = xs @ ys \<and> same_owner pm pm' \<and>
    (\<forall>k'. k' \<noteq> k \<longrightarrow> keeps_element k' pm pm')"
proof -
  let ?m = "pm_elements pm"
  note table = pm_inv_table [OF inv]
  have dist: "distinct (xs @ p # ys)" using items_nodes(2) [OF inv] items by simp
  have dom: "p \<in> dom (im_nodes ?m)" using items_nodes(1) [OF inv] items by auto
  obtain n a where n: "im_nodes ?m p = Some n" "n_key n = k" "n_value n = Some (Some a)" "pm_pairs pm a = Some (k, t)"
    using pair dom pm_invD [OF inv] by (fastforce simp: pm_pair_eq)
  obtain pos' where pos': "im_increment pos ?m = Some pos'" "it_node pos' = hd_option ys"
    using im_increment_ok [OF im_invD(2) [OF table] pos items] by blast
  obtain m' G' where m': "im_erase pos ?m = Some m'" "erased ?m G p m' G'"
    using im_erase_ok [OF table dom pos] by blast
  have er: "im_inv m' G'" "items_from m' G' 0 = xs @ ys" "im_nodes m' p = None"
      "same_kv ((im_nodes ?m)(p := None)) (im_nodes m')"
    using m'(2) items dist by (auto simp: erased_def remove1_append)
  define pm1 where "pm1 = (if pm_arena pm = None then pm\<lparr>pm_pairs := (pm_pairs pm)(a := None)\<rparr> else pm)"
  define pm' where "pm' = pm1\<lparr>pm_elements := m'\<rparr>"
  have code: "Map_erase pos pm = Some (pos', pm')"
    using pos pos'(1) m'(1) n by (simp add: Map_erase_def delete_pair_def Map_increment_def pm1_def pm'_def)
  have addr: "q = p" if "im_nodes ?m q = Some nq" "n_value nq = Some (Some a)" for q nq
    using pm_invD [OF inv that(1)] that n key_injective [OF table that(1) n(1)] by auto
  have old: "\<exists>n0. im_nodes ?m q = Some n0 \<and> n_key n0 = n_key nq \<and> n_value n0 = n_value nq \<and> q \<noteq> p"
    if "im_nodes m' q = Some nq" for q nq
    using same_kv_lookup [OF er(4) that] by (auto split: if_splits)
  have pairs: "pm_pairs pm' b = pm_pairs pm b" if "b \<noteq> a" for b
    using that by (simp add: pm'_def pm1_def)
  have pp: "pm_pair pm' q = (if q = p then None else pm_pair pm q)" for q
  proof (cases "im_nodes m' q")
    case None
    then have "im_nodes ?m q = None \<or> q = p"
      using same_kv_dom [OF er(4)] by (metis domIff fun_upd_apply)
    then show ?thesis using None by (auto simp: pm_pair_def Map_deref_def pm'_def)
  next
    case (Some nq)
    then obtain n0 where n0: "im_nodes ?m q = Some n0" "n_key n0 = n_key nq" "n_value n0 = n_value nq" "q \<noteq> p"
      using old by blast
    obtain b u where b: "n_value n0 = Some (Some b)" "pm_pairs pm b = Some (n_key n0, u)"
      using pm_invD [OF inv n0(1)] by blast
    then have "b \<noteq> a" using addr n0(1,4) by auto
    moreover have "n_value nq = Some (Some b)" using n0(3) b(1) by simp
    ultimately show ?thesis
      using Some n0(1,4) b pairs by (simp add: pm_pair_def Map_deref_def pm'_def)
  qed
  have "pm_inv pm' G'"
    unfolding pm_inv_def
  proof (intro conjI allI impI)
    fix q nq assume "im_nodes (pm_elements pm') q = Some nq"
    then obtain n0 where n0: "im_nodes ?m q = Some n0" "n_key n0 = n_key nq" "n_value n0 = n_value nq" "q \<noteq> p"
      using old by (auto simp: pm'_def)
    obtain b u where b: "n_value n0 = Some (Some b)" "pm_pairs pm b = Some (n_key n0, u)"
      using pm_invD [OF inv n0(1)] by blast
    then have "b \<noteq> a" using addr n0(1,4) by auto
    then show "\<exists>b u. n_value nq = Some (Some b) \<and> pm_pairs pm' b = Some (n_key nq, u)"
      using b n0 pairs by auto
  next
    fix b kt assume own: "pm_arena pm' = None" and b: "pm_pairs pm' b = Some kt"
    have own': "pm_arena pm = None" using own by (simp add: pm'_def pm1_def split: if_splits)
    then have ba: "b \<noteq> a" "pm_pairs pm b = Some kt" using b by (auto simp: pm'_def pm1_def split: if_splits)
    then obtain q n0 where q: "im_nodes ?m q = Some n0" "n_value n0 = Some (Some b)"
      using pm_inv_owned [OF inv own'] by blast
    then have "q \<noteq> p" using n ba by auto
    then have "((im_nodes ?m)(p := None)) q = Some n0" using q by simp
    then show "\<exists>q nq. im_nodes (pm_elements pm') q = Some nq \<and> n_value nq = Some (Some b)"
      using same_kvD [OF er(4)] q(2) by (fastforce simp: pm'_def)
  next
    fix b kt assume "pm_pairs pm' b = Some kt"
    then show "b < pm_fresh pm'"
      using pm_inv_fresh [OF inv, of b] n(4) pm_inv_fresh [OF inv n(4)] by (auto simp: pm'_def pm1_def split: if_splits)
  qed (use er(1) in \<open>simp add: pm'_def\<close>)
  moreover have "pm_holds pm' (M(k := None))"
    unfolding pm_holds_def
  proof (intro allI)
    fix k' t'
    show "(M(k := None)) k' = Some t' \<longleftrightarrow> (\<exists>q. pm_pair pm' q = Some (k', t'))"
    proof (cases "k' = k")
      case True
      then show ?thesis using pm_pair_injective [OF inv _ pair] by (auto simp: pp)
    next
      case False
      then have "(\<exists>q. pm_pair pm' q = Some (k', t')) \<longleftrightarrow> (\<exists>q. pm_pair pm q = Some (k', t'))"
        using pair by (metis pp option.distinct(1) option.inject prod.inject)
      then show ?thesis using M False by (simp add: pm_holds_def)
    qed
  qed
  moreover have "same_owner pm pm'" by (simp add: same_owner_def pm'_def pm1_def)
  moreover have "keeps_element k' pm pm'" if "k' \<noteq> k" for k'
    unfolding keeps_element_def
  proof (intro allI impI)
    fix q nq assume q: "im_nodes ?m q = Some nq \<and> n_key nq = k'"
    then have "((im_nodes ?m)(p := None)) q = Some nq" using that n(1,2) by auto
    from same_kvD [OF er(4) this] show "\<exists>n'. im_nodes (pm_elements pm') q = Some n' \<and> n_key n' = k' \<and> n_value n' = n_value nq"
      using q by (auto simp: pm'_def)
  qed
  ultimately show ?thesis
    using code pos'(2) er(2) by (intro exI [of _ pos'] exI [of _ pm'] exI [of _ G']) (simp add: pm'_def)
qed


lemma Map_erase_key_ok:
  assumes "pm_shows pm M"
  shows "\<exists>pm'. Map_erase_key k pm = Some (if M k = None then 0 else 1, pm') \<and> pm_shows pm' (M(k := None)) \<and> same_owner pm pm' \<and>
    (\<forall>k'. k' \<noteq> k \<longrightarrow> keeps_element k' pm pm')"
proof -
  obtain G where G: "pm_inv pm G" "pm_holds pm M" using assms by (auto simp: pm_shows_def)
  obtain it where it: "Map_find k pm = Some it"
      "case M k of None \<Rightarrow> it_node it = None | Some t \<Rightarrow> \<exists>p. it_node it = Some p \<and> pm_pair pm p = Some (k, t)"
    using Map_find_ok [OF assms, of k] by blast
  show ?thesis
  proof (cases "M k")
    case None
    then have "M(k := None) = M" by auto
    then show ?thesis using None it assms by (simp add: Map_erase_key_def end_iterator_def)
  next
    case (Some t)
    then obtain p where p: "it_node it = Some p" "pm_pair pm p = Some (k, t)" using it(2) by auto
    then have "p \<in> set (items_from (pm_elements pm) G 0)"
      using pm_pair_key [OF G(1) p(2)] items_nodes(1) [OF G(1)] by auto
    then obtain xs ys where "items_from (pm_elements pm) G 0 = xs @ p # ys" by (auto dest: split_list)
    from Map_erase_ok [OF G this p] show ?thesis
      using it(1) p(1) Some by (auto simp: Map_erase_key_def end_iterator_def pm_shows_def)
  qed
qed

text \<open>Erasing from an element on to the end.\<close>

lemma Map_erase_range_ok:
  assumes "pm_inv pm G" and "pm_holds pm M" and "items_from (pm_elements pm) G 0 = xs @ ys" and "it_node it = hd_option ys"
  shows "\<exists>pm' G' M'. Map_erase_range it end_iterator pm = Some pm' \<and> pm_inv pm' G' \<and> pm_holds pm' M' \<and>
    items_from (pm_elements pm') G' 0 = xs \<and> same_owner pm pm'"
  using assms
proof (induction ys arbitrary: pm G M it)
  case Nil
  then show ?case by (subst Map_erase_range.simps) (auto simp: end_iterator_def)
next
  case (Cons y ys)
  have y: "it_node it = Some y" using Cons.prems(4) by simp
  have "y \<in> dom (im_nodes (pm_elements pm))" using items_nodes(1) [OF Cons.prems(1)] Cons.prems(3) by auto
  then obtain k t where "pm_pair pm y = Some (k, t)" using pm_invD [OF Cons.prems(1)] by blast
  from Map_erase_ok [OF Cons.prems(1-3) y this] obtain it' pm1 G1 where
    e: "Map_erase it pm = Some (it', pm1)" "it_node it' = hd_option ys" "pm_inv pm1 G1" "pm_holds pm1 (M(k := None))"
      "items_from (pm_elements pm1) G1 0 = xs @ ys" "same_owner pm pm1"
    by blast
  from Cons.IH [OF e(3-5) e(2)] obtain pm' G' M' where
    r: "Map_erase_range it' end_iterator pm1 = Some pm'" "pm_inv pm' G'" "pm_holds pm' M'"
      "items_from (pm_elements pm') G' 0 = xs" "same_owner pm1 pm'"
    by blast
  have "Map_erase_range it end_iterator pm = Some pm'"
    using y e(1) r(1) by (subst Map_erase_range.simps) (simp add: end_iterator_def)
  then show ?case using r(2-4) same_owner_trans [OF e(6) r(5)] by blast
qed

lemma Map_clear_ok:
  assumes "pm_shows pm M"
  shows "\<exists>pm'. Map_clear pm = Some pm' \<and> pm_shows pm' Map.empty \<and> same_owner pm pm' \<and>
    im_nodes (pm_elements pm') = Map.empty \<and> (pm_arena pm = None \<longrightarrow> pm_pairs pm' = Map.empty)"
proof -
  obtain G where G: "pm_inv pm G" "pm_holds pm M" using assms by (auto simp: pm_shows_def)
  let ?ps = "items_from (pm_elements pm) G 0"
  obtain it where it: "im_begin (pm_elements pm) = Some it" "it_node it = hd_option ?ps"
    using im_begin_ok [OF im_invD(2) [OF pm_inv_table [OF G(1)]]] by blast
  obtain pm' G' M' where r: "Map_erase_range it end_iterator pm = Some pm'" "pm_inv pm' G'" "pm_holds pm' M'"
      "items_from (pm_elements pm') G' 0 = []" "same_owner pm pm'"
    using Map_erase_range_ok [OF G, of "[]" ?ps it] it(2) by auto
  have none: "im_nodes (pm_elements pm') = Map.empty"
    using items_nodes(1) [OF r(2)] r(4) by (simp flip: dom_eq_empty_conv)
  have "pm_holds pm' Map.empty"
    using none by (simp add: pm_holds_def pm_pair_def Map_deref_def)
  moreover have "pm_pairs pm' = Map.empty" if "pm_arena pm = None"
  proof
    fix a
    show "pm_pairs pm' a = None"
      using pm_inv_owned [OF r(2), of a] that r(5) none by (cases "pm_pairs pm' a") (auto simp: same_owner_def)
  qed
  ultimately show ?thesis
    using r it(1) none by (auto simp: Map_clear_def Map_begin_def pm_shows_def)
qed

text \<open>The destructor frees every pair, node and tree of a map that is not on an arena.\<close>

lemma Map_destroy_ok:
  assumes "pm_shows pm M"
  shows "\<exists>pm'. Map_destroy pm = Some pm' \<and>
    (pm_arena pm = None \<longrightarrow> pm_pairs pm' = Map.empty \<and> im_nodes (pm_elements pm') = Map.empty \<and> im_trees (pm_elements pm') = Map.empty)"
proof -
  obtain pm1 where c: "Map_clear pm = Some pm1" "pm_shows pm1 Map.empty" "same_owner pm pm1"
      "pm_arena pm = None \<longrightarrow> pm_pairs pm1 = Map.empty"
    using Map_clear_ok [OF assms] by metis
  then obtain G where "im_inv (pm_elements pm1) G" using pm_inv_table unfolding pm_shows_def by blast
  from im_clear_ok [OF this] obtain m where "im_clear (pm_elements pm1) = Some m" "im_nodes m = Map.empty" "im_trees m = Map.empty"
    by blast
  then show ?thesis using c by (cases "pm_arena pm") (simp_all add: Map_destroy_def same_owner_def)
qed

lemma Map_size_ok:
  assumes "pm_shows pm M"
  shows "Map_size pm = card (dom M)" and "finite (dom M)"
proof -
  obtain G where G: "pm_inv pm G" "pm_holds pm M" using assms by (auto simp: pm_shows_def)
  let ?ps = "items_from (pm_elements pm) G 0"
  let ?kts = "map (\<lambda>p. the (pm_pair pm p)) ?ps"
  obtain it where it: "im_begin (pm_elements pm) = Some it" "it_node it = hd_option ?ps"
    using im_begin_ok [OF im_invD(2) [OF pm_inv_table [OF G(1)]]] by blast
  have "Map_all pm = Some ?kts"
    using it Map_range_ok [OF G(1), of "[]" ?ps it] by (simp add: Map_all_def Map_begin_def)
  then have kts: "map_of ?kts = M" "distinct (map fst ?kts)" using Map_all_ok [OF assms] by auto
  then have "dom M = set (map fst ?kts)" by (metis dom_map_of_conv_image_fst set_map)
  then show "finite (dom M)" by simp
  have "card (dom M) = length ?ps"
    unfolding \<open>dom M = _\<close> distinct_card [OF kts(2)] by simp
  moreover have "length ?ps = card (dom (im_nodes (pm_elements pm)))"
    using distinct_card [OF items_nodes(2) [OF G(1)]] items_nodes(1) [OF G(1)] by simp
  ultimately show "Map_size pm = card (dom M)"
    using pm_inv_table [OF G(1)] by (simp add: Map_size_def im_size_def im_inv_def)
qed

section \<open>Copying, moving and swapping\<close>

lemma Map_Init_ok:
  "\<exists>pm::('k::linorder, 't) proto_map. Map_Init arena d h s = Some pm \<and> pm_shows pm Map.empty \<and> pm_arena pm = arena \<and> pm_default_enum_value pm = d"
proof -
  obtain m :: "('k, nat option) inner_map" where m: "InnerMap 0 h s = Some m" "im_shows m Map.empty"
    using InnerMap_ok(2) [of 3] by auto
  then obtain G where "im_inv m G" by (auto simp: im_shows_def)
  moreover have none: "im_nodes m p = None" for p
    using m(2) by (cases "im_nodes m p") (auto simp: im_shows_def)
  ultimately have "pm_inv \<lparr>pm_arena = arena, pm_default_enum_value = d, pm_elements = m, pm_pairs = Map.empty, pm_fresh = 0\<rparr> G"
    by (simp add: pm_inv_def)
  then show ?thesis
    using m(1) none by (auto simp: Map_Init_def pm_shows_def pm_holds_def pm_pair_def Map_deref_def)
qed

lemma Map_copy_ok:
  fixes other :: "('k::linorder, 't) proto_map"
  assumes "pm_shows other M"
  shows "\<exists>pm. Map_copy ops h s other = Some pm \<and> pm_shows pm M \<and> pm_arena pm = None \<and>
    pm_default_enum_value pm = pm_default_enum_value other"
proof -
  obtain pm0 :: "('k, 't) proto_map" where pm0: "Map_Init None (pm_default_enum_value other) h s = Some pm0" "pm_shows pm0 Map.empty" "pm_arena pm0 = None"
      "pm_default_enum_value pm0 = pm_default_enum_value other"
    using Map_Init_ok by blast
  obtain kts where kts: "Map_all other = Some kts" "map_of kts = M" using Map_all_ok [OF assms] by blast
  obtain pm where "Map_insert_range ops kts pm0 = Some pm" "pm_shows pm (map_of kts ++ Map.empty)" "same_owner pm0 pm"
    using Map_insert_range_ok [OF pm0(2)] by blast
  then show ?thesis using pm0 kts by (auto simp: Map_copy_def same_owner_def)
qed

lemma Map_assign_ok:
  assumes "pm_shows pm M" and "pm_shows other N"
  shows "\<exists>pm'. Map_assign ops pm other = Some pm' \<and> pm_shows pm' N \<and> same_owner pm pm'"
proof -
  obtain pm1 where pm1: "Map_clear pm = Some pm1" "pm_shows pm1 Map.empty" "same_owner pm pm1"
    using Map_clear_ok [OF assms(1)] by blast
  obtain kts where kts: "Map_all other = Some kts" "map_of kts = N" using Map_all_ok [OF assms(2)] by blast
  obtain pm' where pm': "Map_insert_range ops kts pm1 = Some pm'" "pm_shows pm' (map_of kts ++ Map.empty)" "same_owner pm1 pm'"
    using Map_insert_range_ok [OF pm1(2)] by blast
  then show ?thesis using pm1 kts same_owner_trans [OF pm1(3) pm'(3)] by (auto simp: Map_assign_def)
qed

lemma Map_swap_ok:
  assumes "pm_shows pm M" and "pm_shows other N"
  shows "\<exists>pm' other'. Map_swap ops h s pm other = Some (pm', other') \<and> pm_shows pm' N \<and> pm_shows other' M \<and>
    pm_arena pm' = pm_arena pm \<and> pm_arena other' = pm_arena other"
proof (cases "pm_arena pm = pm_arena other")
  case True
  then show ?thesis using assms by (auto simp: Map_swap_def)
next
  case False
  obtain c where c: "Map_copy ops h s pm = Some c" "pm_shows c M" using Map_copy_ok [OF assms(1)] by blast
  obtain pm' where pm': "Map_assign ops pm other = Some pm'" "pm_shows pm' N" "same_owner pm pm'"
    using Map_assign_ok [OF assms] by blast
  obtain o' where o': "Map_assign ops other c = Some o'" "pm_shows o' M" "same_owner other o'"
    using Map_assign_ok [OF assms(2) c(2)] by blast
  obtain d where "Map_destroy c = Some d" using Map_destroy_ok [OF c(2)] by blast
  then show ?thesis using False c pm' o' by (auto simp: Map_swap_def same_owner_def)
qed

lemma Map_move_assign_ok:
  assumes "pm_shows pm M" and "pm_shows other N"
  shows "\<exists>pm' other'. Map_move_assign ops h s pm other = Some (pm', other') \<and> pm_shows pm' N \<and> (\<exists>N'. pm_shows other' N')"
  using Map_swap_ok [OF assms, of ops h s] Map_assign_ok [OF assms, of ops] assms
  by (cases "pm_arena pm = pm_arena other") (auto simp: Map_move_assign_def)

lemma Map_move_ok:
  fixes other :: "('k::linorder, 't) proto_map"
  assumes "pm_shows other N"
  shows "\<exists>pm' other'. Map_move ops h s s' other = Some (pm', other') \<and> pm_shows pm' N \<and> (\<exists>N'. pm_shows other' N')"
proof -
  obtain pm :: "('k, 't) proto_map" where pm: "Map_new None h s = Some pm" "pm_shows pm Map.empty"
    using Map_Init_ok [of None 0 h s] by (auto simp: Map_new_def)
  show ?thesis
    using Map_swap_ok [OF pm(2) assms, of ops h s'] Map_assign_ok [OF pm(2) assms, of ops] assms pm(1)
    by (cases "pm_arena other") (auto simp: Map_move_def)
qed

end
