(* ===== verification/Map_Container.thy ===== *)
theory Map_Container
  imports Cpp_Prelude "HOL-Library.Multiset"
begin

text \<open>
  The interface of a container that holds a finite map: it executes commands that change the
  map, looks keys up and lists its entries. \<open>map_container\<close> states what a client relies on, and
  \<open>stable_container\<close> adds that an element keeps its place until a command removes it.
\<close>

lemma map_of_rev:
  assumes "distinct (map fst kts)"
  shows "map_of (rev kts) = map_of kts"
proof
  fix k
  have "distinct (map fst (rev kts))" using assms by (simp flip: rev_map)
  then have "map_of (rev kts) k = Some t \<longleftrightarrow> map_of kts k = Some t" for t
    using map_of_eq_Some_iff [of "rev kts"] map_of_eq_Some_iff [OF assms] by simp
  then show "map_of (rev kts) k = map_of kts k" by (metis not_None_eq)
qed

locale map_container =
  fixes represents :: "'s \<Rightarrow> ('k \<rightharpoonup> 't) \<Rightarrow> bool"
    and exec :: "'c \<Rightarrow> 's \<Rightarrow> 's option"
    and spec :: "'c \<Rightarrow> ('k \<rightharpoonup> 't) \<Rightarrow> 'k \<rightharpoonup> 't"
    and lookup :: "'k \<Rightarrow> 's \<Rightarrow> 't option"
    and entries :: "'s \<Rightarrow> ('k \<times> 't) list option"
  assumes exec_ok: "represents s M \<Longrightarrow> \<exists>s'. exec c s = Some s' \<and> represents s' (spec c M)"
    and lookup_ok: "represents s M \<Longrightarrow> lookup k s = M k"
    and entries_ok: "represents s M \<Longrightarrow> \<exists>kts. entries s = Some kts \<and> map_of kts = M \<and> distinct (map fst kts)"
begin

lemma run_ok: "represents s M \<Longrightarrow> \<exists>s'. insert_all exec cs s = Some s' \<and> represents s' (fold spec cs M)"
proof (induction cs arbitrary: s M)
  case (Cons c cs)
  obtain s1 where "exec c s = Some s1" "represents s1 (spec c M)" using exec_ok [OF Cons.prems] by blast
  then show ?case using Cons.IH [of s1 "spec c M"] by simp
qed simp

lemma represents_unique: "represents s M \<Longrightarrow> represents s N \<Longrightarrow> M = N"
  using lookup_ok by (metis ext)

text \<open>What an iteration passes depends on the map alone, up to the order.\<close>

lemma entries_permuted:
  assumes "represents s M" and "represents s' M"
  shows "\<exists>xs ys. entries s = Some xs \<and> entries s' = Some ys \<and> mset xs = mset ys"
proof -
  obtain xs ys where e: "entries s = Some xs" "map_of xs = M" "distinct (map fst xs)"
      "entries s' = Some ys" "map_of ys = M" "distinct (map fst ys)"
    using entries_ok [OF assms(1)] entries_ok [OF assms(2)] by blast
  have "set xs = set ys"
    using map_of_eq_Some_iff [OF e(3)] map_of_eq_Some_iff [OF e(6)] e(2,5) by (auto simp: set_eq_iff)
  then have "mset xs = mset ys"
    using e(3,6) set_eq_iff_mset_eq_distinct [of xs ys] by (auto simp: distinct_map)
  then show ?thesis using e by blast
qed

end

locale stable_container = map_container +
  fixes removes :: "'c \<Rightarrow> 'k \<Rightarrow> bool"
    and keeps :: "'k \<Rightarrow> 's \<Rightarrow> 's \<Rightarrow> bool"
  assumes keeps_exec: "represents s M \<Longrightarrow> exec c s = Some s' \<Longrightarrow> \<not> removes c k \<Longrightarrow> keeps k s s'"
    and keeps_refl: "keeps k s s"
    and keeps_trans: "keeps k s s' \<Longrightarrow> keeps k s' s'' \<Longrightarrow> keeps k s s''"
begin

lemma keeps_run:
  "represents s M \<Longrightarrow> list_all (\<lambda>c. \<not> removes c k) cs \<Longrightarrow> insert_all exec cs s = Some s' \<Longrightarrow> keeps k s s'"
proof (induction cs arbitrary: s M)
  case Nil
  then show ?case using keeps_refl by simp
next
  case (Cons c cs)
  obtain s1 where s1: "exec c s = Some s1" "represents s1 (spec c M)" using exec_ok [OF Cons.prems(1)] by blast
  have "keeps k s s1" using keeps_exec [OF Cons.prems(1) s1(1)] Cons.prems(2) by simp
  moreover have "keeps k s1 s'" using Cons.IH [OF s1(2)] Cons.prems(2,3) s1(1) by simp
  ultimately show ?case by (rule keeps_trans)
qed

end

end
