(* ===== verification/Proto_Map_Spec.thy ===== *)
theory Proto_Map_Spec
  imports Proto_Map_Iter Map_Container
begin

text \<open>
  The properties of \<open>Map\<close> and \<open>MapFieldLite\<close>: any sequence of commands from an empty map is
  defined and has the effect of the corresponding functions on finite maps.
\<close>

section \<open>Commands\<close>

datatype ('k, 't) map_cmd = MInsert 'k 't | MStore 'k 't | MErase 'k | MClear

primrec Map_exec :: "'t value_ops \<Rightarrow> ('k, 't) map_cmd \<Rightarrow> ('k::linorder, 't) proto_map \<Rightarrow> ('k, 't) proto_map option" where
  "Map_exec ops (MInsert k t) pm = map_option snd (Map_insert (k, t) pm)"
| "Map_exec ops (MStore k t) pm = Map_store ops k t pm"
| "Map_exec ops (MErase k) pm = map_option snd (Map_erase_key k pm)"
| "Map_exec ops MClear pm = Map_clear pm"

primrec map_cmd_spec :: "('k, 't) map_cmd \<Rightarrow> ('k \<rightharpoonup> 't) \<Rightarrow> 'k \<rightharpoonup> 't" where
  "map_cmd_spec (MInsert k t) M = (if M k = None then M(k \<mapsto> t) else M)"
| "map_cmd_spec (MStore k t) M = M(k \<mapsto> t)"
| "map_cmd_spec (MErase k) M = M(k := None)"
| "map_cmd_spec MClear M = Map.empty"

primrec map_cmd_removes :: "('k, 't) map_cmd \<Rightarrow> 'k \<Rightarrow> bool" where
  "map_cmd_removes (MInsert k t) k' = False"
| "map_cmd_removes (MStore k t) k' = False"
| "map_cmd_removes (MErase k) k' = (k = k')"
| "map_cmd_removes MClear k' = True"

text \<open>A new map after a sequence of commands, and the finite map it should hold.\<close>

definition Map_after ::
  "'t value_ops \<Rightarrow> nat option \<Rightarrow> ('k \<Rightarrow> nat) \<Rightarrow> nat \<Rightarrow> ('k, 't) map_cmd list \<Rightarrow> ('k::linorder, 't) proto_map option" where
  "Map_after ops arena hasher seed cs = do {
     pm \<leftarrow> Map_new arena hasher seed;
     insert_all (Map_exec ops) cs pm }"

definition map_spec :: "('k, 't) map_cmd list \<Rightarrow> 'k \<rightharpoonup> 't" where
  "map_spec cs = fold map_cmd_spec cs Map.empty"

lemma Map_exec_ok:
  assumes "pm_shows pm M"
  shows "\<exists>pm'. Map_exec ops c pm = Some pm' \<and> pm_shows pm' (map_cmd_spec c M) \<and> same_owner pm pm' \<and>
    (\<forall>k. \<not> map_cmd_removes c k \<longrightarrow> keeps_element k pm pm')"
proof (cases c)
  case (MInsert k t)
  then show ?thesis using Map_insert_ok [OF assms, of k t] by force
next
  case (MStore k t)
  then show ?thesis using Map_store_ok [OF assms, of ops k t] by auto
next
  case (MErase k)
  obtain pm' where "Map_erase_key k pm = Some (if M k = None then 0 else 1, pm')" "pm_shows pm' (M(k := None))"
      "same_owner pm pm'" "\<forall>k'. k' \<noteq> k \<longrightarrow> keeps_element k' pm pm'"
    using Map_erase_key_ok [OF assms, of k] by blast
  then show ?thesis using MErase by auto
next
  case MClear
  obtain pm' where "Map_clear pm = Some pm'" "pm_shows pm' Map.empty" "same_owner pm pm'"
    using Map_clear_ok [OF assms] by metis
  then show ?thesis using MClear by auto
qed

interpretation pmc: stable_container pm_shows "Map_exec ops" map_cmd_spec Map_at Map_all map_cmd_removes keeps_element
  for ops :: "'t value_ops"
proof unfold_locales
  fix pm pm' pm'' :: "('k::linorder, 't) proto_map" and M c k
  show "\<exists>pm'. Map_exec ops c pm = Some pm' \<and> pm_shows pm' (map_cmd_spec c M)" if "pm_shows pm M"
    using Map_exec_ok [OF that, of ops c] by metis
  show "Map_at k pm = M k" if "pm_shows pm M"
    using that by (rule Map_at_ok)
  show "\<exists>kts. Map_all pm = Some kts \<and> map_of kts = M \<and> distinct (map fst kts)" if "pm_shows pm M"
    using that by (rule Map_all_ok)
  show "keeps_element k pm pm'" if "pm_shows pm M" "Map_exec ops c pm = Some pm'" "\<not> map_cmd_removes c k"
    using that Map_exec_ok [of pm M ops c] by auto
  show "keeps_element k pm pm''" if "keeps_element k pm pm'" "keeps_element k pm' pm''"
    using that by (rule keeps_element_trans)
qed simp

lemma Map_after_ok:
  "\<exists>pm. Map_after ops arena h s cs = Some pm \<and> pm_shows pm (map_spec cs) \<and> pm_arena pm = arena"
proof -
  have run: "\<exists>pm'. insert_all (Map_exec ops) cs pm = Some pm' \<and> pm_shows pm' (fold map_cmd_spec cs M) \<and> pm_arena pm' = pm_arena pm"
    if "pm_shows pm M" for pm :: "('a::linorder, 'b) proto_map" and M
    using that
  proof (induction cs arbitrary: pm M)
    case (Cons c cs)
    obtain pm1 where one: "Map_exec ops c pm = Some pm1" "pm_shows pm1 (map_cmd_spec c M)" "same_owner pm pm1"
      using Map_exec_ok [OF Cons.prems, of ops c] by metis
    from Cons.IH [OF one(2)] show ?case using one(1,3) by (simp add: same_owner_def)
  qed simp
  obtain pm :: "('a, 'b) proto_map" where "Map_new arena h s = Some pm" "pm_shows pm Map.empty" "pm_arena pm = arena"
    using Map_Init_ok [of arena 0 h s] by (auto simp: Map_new_def)
  then show ?thesis using run [of pm Map.empty] by (simp add: Map_after_def map_spec_def)
qed

section \<open>Properties\<close>

text \<open>
  C13: Any sequence of \<open>insert\<close>, \<open>operator[]\<close> with assignment, \<open>erase\<close> and \<open>clear\<close> on a new \<open>Map\<close>
  runs to its end whatever the hash function, the seed and the arena, and then \<open>at\<close>, \<open>contains\<close>,
  \<open>count\<close> and \<open>size\<close> answer as the finite map with the same history. \<open>at\<close> aborts exactly for a
  missing key.
\<close>

theorem map_refines_finite_map:
  "\<exists>pm. Map_after ops arena h s cs = Some pm \<and> Map_at k pm = map_spec cs k \<and>
     Map_contains k pm = Some (map_spec cs k \<noteq> None) \<and> Map_count k pm = Some (if map_spec cs k = None then 0 else 1) \<and>
     Map_size pm = card (dom (map_spec cs))"
proof -
  obtain pm where pm: "Map_after ops arena h s cs = Some pm" "pm_shows pm (map_spec cs)"
    using Map_after_ok by metis
  then show ?thesis
    using pmc.lookup_ok [OF pm(2)] Map_contains_ok [OF pm(2)] Map_count_ok [OF pm(2)] Map_size_ok(1) [OF pm(2)] by simp
qed

text \<open>
  C15: A loop over a \<open>Map\<close> passes every entry exactly once. Two maps with histories of the same
  effect, in different arenas and with different hash functions and seeds, give the same
  entries up to their order.
\<close>

theorem map_iterations_agree:
  "map_spec cs = map_spec cs' \<Longrightarrow>
   \<exists>pm pm' xs ys. Map_after ops arena h s cs = Some pm \<and> Map_after ops arena' h' s' cs' = Some pm' \<and>
     Map_all pm = Some xs \<and> Map_all pm' = Some ys \<and> mset xs = mset ys \<and> map_of xs = map_spec cs \<and> distinct (map fst xs)"
proof -
  assume eq: "map_spec cs = map_spec cs'"
  obtain pm pm' where pm: "Map_after ops arena h s cs = Some pm" "pm_shows pm (map_spec cs)"
      "Map_after ops arena' h' s' cs' = Some pm'" "pm_shows pm' (map_spec cs)"
    using Map_after_ok [of ops arena h s cs] Map_after_ok [of ops arena' h' s' cs'] eq by metis
  obtain xs ys where "Map_all pm = Some xs" "Map_all pm' = Some ys" "mset xs = mset ys"
    using pmc.entries_permuted [OF pm(2,4)] by metis
  moreover from this have "map_of xs = map_spec cs" "distinct (map fst xs)"
    using pmc.entries_ok [OF pm(2)] by auto
  ultimately show ?thesis using pm(1,3) by metis
qed

theorem map_iterations_agree_witness:
  "\<exists>pm pm' xs ys. Map_after \<lparr>vo_default = 0, vo_of_enum = None\<rparr> None id 3 [MStore (1 :: nat) (5 :: nat), MStore 9 6] = Some pm \<and>
     Map_after \<lparr>vo_default = 0, vo_of_enum = None\<rparr> (Some 7) (\<lambda>_. 0) 4 [MInsert 9 6, MStore 2 8, MInsert 1 5, MErase 2] = Some pm' \<and>
     Map_all pm = Some xs \<and> Map_all pm' = Some ys \<and> mset xs = mset ys \<and>
     map_of xs = map_spec [MStore 1 5, MStore 9 6] \<and> distinct (map fst xs)"
  by (rule map_iterations_agree) (auto simp: map_spec_def fun_eq_iff)

text \<open>
  C16: The destructor of a map that is not on an arena, after any sequence of commands, deletes
  every pair, every node and every tree, and each of them once.
\<close>

theorem map_destructor_no_leak:
  "\<exists>pm pm'. Map_after ops None h s cs = Some pm \<and> Map_destroy pm = Some pm' \<and>
     pm_pairs pm' = Map.empty \<and> im_nodes (pm_elements pm') = Map.empty \<and> im_trees (pm_elements pm') = Map.empty"
proof -
  obtain pm where pm: "Map_after ops None h s cs = Some pm" "pm_shows pm (map_spec cs)" "pm_arena pm = None"
    using Map_after_ok by metis
  from Map_destroy_ok [OF pm(2)] show ?thesis using pm(1,3) by metis
qed


text \<open>
  C14: Iterators and references stay valid: an iterator to the element of a key, obtained at any
  time, still gives that key and its current value after any further commands that do not
  remove it, however often they resize the table or turn lists into trees.
\<close>

theorem map_iterators_stay_valid:
  assumes "map_spec cs k \<noteq> None" and "list_all (\<lambda>c. \<not> map_cmd_removes c k) cs'"
  shows "\<exists>pm it pm' t. Map_after ops arena h s cs = Some pm \<and> Map_find k pm = Some it \<and>
    insert_all (Map_exec ops) cs' pm = Some pm' \<and> map_spec (cs @ cs') k = Some t \<and> Map_deref it pm' = Some (k, t)"
proof -
  obtain pm where pm: "Map_after ops arena h s cs = Some pm" "pm_shows pm (map_spec cs)"
    using Map_after_ok by metis
  obtain it p u where it: "Map_find k pm = Some it" "it_node it = Some p" "pm_pair pm p = Some (k, u)"
    using Map_find_ok [OF pm(2), of k] assms(1) by (auto split: option.splits)
  obtain pm' where pm': "insert_all (Map_exec ops) cs' pm = Some pm'" "pm_shows pm' (map_spec (cs @ cs'))"
    using pmc.run_ok [OF pm(2), of ops cs'] by (auto simp: map_spec_def)
  obtain G G' where G: "pm_inv pm G" and G': "pm_inv pm' G'" "pm_holds pm' (map_spec (cs @ cs'))"
    using pm(2) pm'(2) by (auto simp: pm_shows_def)
  obtain n where n: "im_nodes (pm_elements pm) p = Some n" "n_key n = k" using pm_pair_key [OF G it(3)] by blast
  have "keeps_element k pm pm'" using pmc.keeps_run [OF pm(2) assms(2) pm'(1)] .
  then obtain n' where n': "im_nodes (pm_elements pm') p = Some n'" "n_key n' = k"
    using n unfolding keeps_element_def by blast
  then obtain t where t: "pm_pair pm' p = Some (k, t)" using pm_invD [OF G'(1) n'(1)] by auto
  then have "map_spec (cs @ cs') k = Some t" using G'(2) unfolding pm_holds_def by blast
  then show ?thesis using pm(1) it(1,2) pm'(1) t by (auto simp: Map_deref_eq)
qed

theorem map_iterators_stay_valid_witness:
  "\<exists>pm it pm' t. Map_after \<lparr>vo_default = 0, vo_of_enum = None\<rparr> None id 3 [MStore (1 :: nat) (5 :: nat)] = Some pm \<and>
     Map_find 1 pm = Some it \<and> insert_all (Map_exec \<lparr>vo_default = 0, vo_of_enum = None\<rparr>) [MStore 9 6, MErase 9, MStore 1 7] pm = Some pm' \<and>
     map_spec ([MStore 1 5] @ [MStore 9 6, MErase 9, MStore 1 7]) (1 :: nat) = Some t \<and> Map_deref it pm' = Some (1, t)"
  by (rule map_iterators_stay_valid) (simp_all add: map_spec_def)

text \<open>The pointer type under which each bucket is read.\<close>

definition bucket_well_typed :: "('k, 'v) inner_map \<Rightarrow> nat \<Rightarrow> bool" where
  "bucket_well_typed m b =
     (case (TableEntryIsNonEmptyList (im_table m) b, TableEntryIsTree (im_table m) b, arr_get (im_table m) (int b)) of
        (Some l, Some t, Some e) \<Rightarrow>
          (l \<longrightarrow> (case e of Node_entry p \<Rightarrow> im_nodes m p \<noteq> None | _ \<Rightarrow> False)) \<and>
          (t \<longrightarrow> (case e of Tree_entry r \<Rightarrow> im_trees m r \<noteq> None | _ \<Rightarrow> False)) \<and>
          (\<not> l \<and> \<not> t \<longrightarrow> e = Null_entry)
      | _ \<Rightarrow> False)"

definition table_well_typed :: "('k, 'v) inner_map \<Rightarrow> bool" where
  "table_well_typed m = (length (im_table m) = im_num_buckets m \<and> list_all (bucket_well_typed m) [0..<im_num_buckets m])"

lemma table_ok_well_typed: "table_ok m G \<Longrightarrow> table_well_typed m"
proof -
  assume t: "table_ok m G"
  have "bucket_well_typed m b" if b: "b < im_num_buckets m" for b
    using table_kinds [OF t b] table_nth [OF t b] length_table [OF t] table_okD(2) [OF t b] b
    by (cases "G b") (auto simp: bucket_well_typed_def cell_ok_def split: list.splits)
  then show ?thesis using length_table [OF t] by (simp add: table_well_typed_def list_all_iff)
qed

text \<open>
  C17: The table holds untyped pointers, and whether one is read as a list node or as a tree is
  decided by comparing the two buckets of a pair. After any sequence of commands every bucket
  that is taken for a list points to a live node, and every bucket taken for a tree to a
  live tree.
\<close>

theorem map_table_well_typed:
  "\<exists>pm. Map_after ops arena h s cs = Some pm \<and> table_well_typed (pm_elements pm)"
proof -
  obtain pm where pm: "Map_after ops arena h s cs = Some pm" "pm_shows pm (map_spec cs)"
    using Map_after_ok by metis
  then obtain G where "im_inv (pm_elements pm) G" using pm_inv_table unfolding pm_shows_def by blast
  then show ?thesis using pm(1) table_ok_well_typed [OF im_invD(1)] by blast
qed

text \<open>
  \<open>swap\<close> exchanges the contents of two maps, by exchanging their tables when they are on the
  same arena and by copying otherwise; each map stays on its arena, and off an arena the
  destructor still frees everything.
\<close>

theorem map_swap_exchanges:
  "\<exists>pm other pm' other'. Map_after ops arena h s cs = Some pm \<and> Map_after ops arena' h' s' cs' = Some other \<and>
     Map_swap ops h s'' pm other = Some (pm', other') \<and> Map_at k pm' = map_spec cs' k \<and> Map_at k other' = map_spec cs k \<and>
     pm_arena pm' = arena \<and> pm_arena other' = arena' \<and> (\<exists>d d'. Map_destroy pm' = Some d \<and> Map_destroy other' = Some d')"
proof -
  obtain pm other where pm: "Map_after ops arena h s cs = Some pm" "pm_shows pm (map_spec cs)" "pm_arena pm = arena"
      "Map_after ops arena' h' s' cs' = Some other" "pm_shows other (map_spec cs')" "pm_arena other = arena'"
    using Map_after_ok [of ops arena h s cs] Map_after_ok [of ops arena' h' s' cs'] by metis
  obtain pm' other' where sw: "Map_swap ops h s'' pm other = Some (pm', other')" "pm_shows pm' (map_spec cs')"
      "pm_shows other' (map_spec cs)" "pm_arena pm' = pm_arena pm" "pm_arena other' = pm_arena other"
    using Map_swap_ok [OF pm(2,5)] by metis
  obtain d d' where "Map_destroy pm' = Some d" "Map_destroy other' = Some d'"
    using Map_destroy_ok [OF sw(2)] Map_destroy_ok [OF sw(3)] by metis
  then show ?thesis using pm sw pmc.lookup_ok by (metis (no_types))
qed

lemma store_all_ok:
  "pm_shows pm M \<Longrightarrow> \<exists>pm'. store_all ops kts pm = Some pm' \<and> pm_shows pm' (M ++ map_of (rev kts)) \<and> same_owner pm pm'"
proof (induction kts arbitrary: pm M)
  case (Cons kt kts)
  obtain k t where kt: "kt = (k, t)" by (cases kt)
  obtain pm1 where one: "Map_store ops k t pm = Some pm1" "pm_shows pm1 (M(k \<mapsto> t))" "same_owner pm pm1"
    using Map_store_ok [OF Cons.prems, of ops k t] by metis
  obtain pm2 where two: "store_all ops kts pm1 = Some pm2" "pm_shows pm2 (M(k \<mapsto> t) ++ map_of (rev kts))" "same_owner pm1 pm2"
    using Cons.IH [OF one(2)] by metis
  have "M(k \<mapsto> t) ++ map_of (rev kts) = M ++ map_of (rev (kt # kts))"
    by (auto simp: kt map_add_def fun_eq_iff split: option.splits)
  then show ?case using one(1) two(1,2) kt same_owner_trans [OF one(3) two(3)] by (metis fst_conv snd_conv store_all.simps(2) bind.bind_lunit)
qed simp

text \<open>
  \<open>MapFieldLite::MergeFrom\<close> adds the entries of the other field and overwrites those it
  shares; the other field is only read.
\<close>

theorem map_field_merge_overrides:
  "\<exists>pm other mf. Map_after ops arena h s cs = Some pm \<and> Map_after ops arena' h' s' cs' = Some other \<and>
     MapFieldLite_MergeFrom ops \<lparr>mf_arena = arena', mf_map = other\<rparr> \<lparr>mf_arena = arena, mf_map = pm\<rparr> = Some mf \<and>
     Map_at k (mf_map mf) = (map_spec cs ++ map_spec cs') k"
proof -
  obtain pm other where pm: "Map_after ops arena h s cs = Some pm" "pm_shows pm (map_spec cs)"
      "Map_after ops arena' h' s' cs' = Some other" "pm_shows other (map_spec cs')"
    using Map_after_ok [of ops arena h s cs] Map_after_ok [of ops arena' h' s' cs'] by metis
  obtain kts where kts: "Map_all other = Some kts" "map_of kts = map_spec cs'" "distinct (map fst kts)"
    using pmc.entries_ok [OF pm(4)] by metis
  obtain pm' where "store_all ops kts pm = Some pm'" "pm_shows pm' (map_spec cs ++ map_of (rev kts))"
    using store_all_ok [OF pm(2)] by metis
  then show ?thesis
    using pm kts pmc.lookup_ok by (auto simp: MapFieldLite_MergeFrom_def map_of_rev)
qed

section \<open>Further operations\<close>

text \<open>The range of a key holds its pair and nothing else.\<close>

lemma Map_equal_range_ok:
  assumes "pm_shows pm M"
  shows "\<exists>it it'. Map_equal_range k pm = Some (it, it') \<and>
    Map_range it it' pm = Some (case M k of None \<Rightarrow> [] | Some t \<Rightarrow> [(k, t)])"
proof -
  obtain G where G: "pm_inv pm G" using assms by (auto simp: pm_shows_def)
  obtain it where it: "Map_find k pm = Some it"
      "case M k of None \<Rightarrow> it_node it = None | Some t \<Rightarrow> \<exists>p. it_node it = Some p \<and> pm_pair pm p = Some (k, t)"
    using Map_find_ok [OF assms, of k] by blast
  show ?thesis
  proof (cases "M k")
    case None
    then show ?thesis
      using it by (intro exI [of _ it]) (simp add: Map_equal_range_def end_iterator_def Map_range.simps)
  next
    case (Some t)
    then obtain p where p: "it_node it = Some p" "pm_pair pm p = Some (k, t)" using it(2) by auto
    then have "p \<in> set (items_from (pm_elements pm) G 0)"
      using pm_pair_key [OF G p(2)] items_nodes(1) [OF G] by auto
    then obtain xs ys where items: "items_from (pm_elements pm) G 0 = xs @ p # ys" by (auto dest: split_list)
    obtain it' where it': "im_increment it (pm_elements pm) = Some it'" "it_node it' = hd_option ys"
      using im_increment_ok [OF im_invD(2) [OF pm_inv_table [OF G]] p(1) items] by blast
    have "it_node it' \<noteq> Some p"
      using it'(2) items_nodes(2) [OF G] items by (cases ys) auto
    then have "Map_range it it' pm = Some [(k, t)]"
      using p it'(1) Map_range.simps [of it' it' pm]
      by (subst Map_range.simps) (auto simp: Map_deref_eq Map_increment_def)
    then show ?thesis
      using it(1) p(1) it'(1) Some by (simp add: Map_equal_range_def end_iterator_def Map_increment_def)
  qed
qed

lemma Map_from_range_ok:
  "\<exists>pm. Map_from_range ops h s kts = Some pm \<and> pm_shows pm (map_of kts)"
proof -
  obtain pm :: "('a::linorder, 'b) proto_map" where "Map_Init None 0 h s = Some pm" "pm_shows pm Map.empty"
    using Map_Init_ok [of None 0 h s] by metis
  then show ?thesis using Map_insert_range_ok [of pm Map.empty ops kts] by (auto simp: Map_from_range_def)
qed

lemma AllAreInitialized_ok:
  assumes "pm_shows pm M"
  shows "AllAreInitialized f pm = Some (\<forall>t\<in>ran M. f t)"
proof -
  obtain kts where kts: "Map_all pm = Some kts" "map_of kts = M" "distinct (map fst kts)"
    using pmc.entries_ok [OF assms] by metis
  then have "ran M = snd ` set kts" using ran_distinct [OF kts(3)] by simp
  then show ?thesis using kts(1) by (auto simp: AllAreInitialized_def list_all_iff)
qed

text \<open>
  The default for enum values follows the elements when two maps on one arena are swapped,
  and stays with the map otherwise.
\<close>

lemma Map_swap_default_enum:
  assumes "pm_shows pm M" and "pm_shows other N" and "Map_swap ops h s pm other = Some (pm', other')"
  shows "pm_default_enum_value pm' =
    (if pm_arena pm = pm_arena other then pm_default_enum_value other else pm_default_enum_value pm)"
proof (cases "pm_arena pm = pm_arena other")
  case True
  then show ?thesis using assms(3) by (simp add: Map_swap_def)
next
  case False
  have "same_owner pm pm'"
    using Map_assign_ok [OF assms(1,2), of ops] assms(3) False by (auto simp: Map_swap_def bind_eq_Some_conv)
  then show ?thesis using False by (simp add: same_owner_def)
qed

end
