(* ===== verification/Grpc_Ops.thy ===== *)
theory Grpc_Ops
  imports Varint "HOL-Library.Char_ord" "HOL-Library.List_Lexorder"
begin

text \<open>
  \<open>grpcpp/impl/codegen/call_op_set.h\<close>: the operations of a call, the sets in which they are handed to
  the gRPC core and the completion of such a set.

  A member of a set is a value of the datatype \<open>call_op\<close>, a set the list of its members in the order of
  the template's parameters. Pointers to objects of the caller (metadata, messages) are the
  objects, read when the set is built; nothing runs between that and the batch in which they are
  sent. The model is that of a call without interceptors: \<open>InterceptorsListEmpty\<close> holds, and the hook
  points that only interceptors see are left out.

  A failed \<open>GPR_CODEGEN_ASSERT\<close> and a \<open>Pluck\<close> that never returns have the value \<^term>\<open>None\<close>. The core (its
  batches, its completion queue), the call hook and the serialisation of messages are arguments.
\<close>

section \<open>Status and metadata\<close>

datatype StatusCode = GRPC_STATUS_OK | GRPC_STATUS_CANCELLED | GRPC_STATUS_UNKNOWN | GRPC_STATUS_INVALID_ARGUMENT
  | GRPC_STATUS_DEADLINE_EXCEEDED | GRPC_STATUS_NOT_FOUND | GRPC_STATUS_ALREADY_EXISTS | GRPC_STATUS_PERMISSION_DENIED
  | GRPC_STATUS_UNAUTHENTICATED | GRPC_STATUS_RESOURCE_EXHAUSTED | GRPC_STATUS_FAILED_PRECONDITION | GRPC_STATUS_ABORTED
  | GRPC_STATUS_OUT_OF_RANGE | GRPC_STATUS_UNIMPLEMENTED | GRPC_STATUS_INTERNAL | GRPC_STATUS_UNAVAILABLE
  | GRPC_STATUS_DATA_LOSS

record Status =
  st_code :: StatusCode
  st_message :: string
  st_details :: string

definition Status_new :: Status where
  "Status_new = \<lparr>st_code = GRPC_STATUS_OK, st_message = '''', st_details = ''''\<rparr>"

definition Status_with :: "StatusCode \<Rightarrow> string \<Rightarrow> Status" where
  "Status_with code error_message = \<lparr>st_code = code, st_message = error_message, st_details = ''''\<rparr>"

definition Status_ok :: "Status \<Rightarrow> bool" where
  "Status_ok s \<longleftrightarrow> st_code s = GRPC_STATUS_OK"

type_synonym metadata = "(string \<times> string) list"

definition kBinaryErrorDetailsKey :: string where
  "kBinaryErrorDetailsKey = ''grpc-status-details-bin''"

text \<open>The array of no entries is \<open>nullptr\<close>.\<close>

definition FillMetadataArray :: "metadata \<Rightarrow> string \<Rightarrow> metadata" where
  "FillMetadataArray metadata optional_error_details =
     metadata @ (if optional_error_details = '''' then [] else [(kBinaryErrorDetailsKey, optional_error_details)])"

text \<open>
  \<open>MetadataMap\<close>: the array the core fills, and the map made of it on the first request. A multimap is the
  list of its entries in order.
\<close>

record metadata_map =
  mm_filled :: bool
  mm_arr :: metadata
  mm_map :: metadata

definition MetadataMap :: metadata_map where
  "MetadataMap = \<lparr>mm_filled = False, mm_arr = [], mm_map = []\<rparr>"

definition multimap_insert :: "string \<times> string \<Rightarrow> metadata \<Rightarrow> metadata" where
  "multimap_insert e xs = takeWhile (\<lambda>x. fst x \<le> fst e) xs @ e # dropWhile (\<lambda>x. fst x \<le> fst e) xs"

definition mm_FillMap :: "metadata_map \<Rightarrow> metadata_map" where
  "mm_FillMap m = (if mm_filled m then m
     else m\<lparr>mm_filled := True, mm_map := foldl (\<lambda>xs e. multimap_insert e xs) (mm_map m) (mm_arr m)\<rparr>)"

definition mm_Reset :: "metadata_map \<Rightarrow> metadata_map" where
  "mm_Reset m = m\<lparr>mm_filled := False, mm_map := [], mm_arr := []\<rparr>"

text \<open>\<open>strncmp\<close> of a slice and a C string, up to the length of the slice.\<close>

definition strncmp_eq :: "string \<Rightarrow> string \<Rightarrow> nat \<Rightarrow> bool" where
  "strncmp_eq s t n = (let cut = (\<lambda>x. takeWhile (\<lambda>c. c \<noteq> CHR 0x00) (take n x)) in cut s = cut t)"

definition mm_GetBinaryErrorDetails :: "metadata_map \<Rightarrow> string" where
  "mm_GetBinaryErrorDetails m =
     (case (if mm_filled m then find (\<lambda>(k, v). k = kBinaryErrorDetailsKey) (mm_map m)
            else find (\<lambda>(k, v). strncmp_eq k kBinaryErrorDetailsKey (length k)) (mm_arr m)) of
        None \<Rightarrow> ''''
      | Some (k, v) \<Rightarrow> v)"

section \<open>Write options\<close>

record WriteOptions =
  wo_flags :: "32 word"
  wo_last_message :: bool

definition GRPC_WRITE_BUFFER_HINT :: "32 word" where "GRPC_WRITE_BUFFER_HINT = 1"

definition GRPC_WRITE_NO_COMPRESS :: "32 word" where "GRPC_WRITE_NO_COMPRESS = 2"

definition GRPC_WRITE_THROUGH :: "32 word" where "GRPC_WRITE_THROUGH = 4"

definition WriteOptions_new :: WriteOptions where
  "WriteOptions_new = \<lparr>wo_flags = 0, wo_last_message = False\<rparr>"

definition wo_Clear :: "WriteOptions \<Rightarrow> WriteOptions" where
  "wo_Clear o' = o'\<lparr>wo_flags := 0\<rparr>"

definition SetBit :: "32 word \<Rightarrow> WriteOptions \<Rightarrow> WriteOptions" where
  "SetBit mask' o' = o'\<lparr>wo_flags := wo_flags o' OR mask'\<rparr>"

definition ClearBit :: "32 word \<Rightarrow> WriteOptions \<Rightarrow> WriteOptions" where
  "ClearBit mask' o' = o'\<lparr>wo_flags := wo_flags o' AND NOT mask'\<rparr>"

definition GetBit :: "32 word \<Rightarrow> WriteOptions \<Rightarrow> bool" where
  "GetBit mask' o' \<longleftrightarrow> wo_flags o' AND mask' \<noteq> 0"

definition set_no_compression :: "WriteOptions \<Rightarrow> WriteOptions" where
  "set_no_compression = SetBit GRPC_WRITE_NO_COMPRESS"

definition clear_no_compression :: "WriteOptions \<Rightarrow> WriteOptions" where
  "clear_no_compression = ClearBit GRPC_WRITE_NO_COMPRESS"

definition get_no_compression :: "WriteOptions \<Rightarrow> bool" where
  "get_no_compression = GetBit GRPC_WRITE_NO_COMPRESS"

definition set_buffer_hint :: "WriteOptions \<Rightarrow> WriteOptions" where
  "set_buffer_hint = SetBit GRPC_WRITE_BUFFER_HINT"

definition clear_buffer_hint :: "WriteOptions \<Rightarrow> WriteOptions" where
  "clear_buffer_hint = ClearBit GRPC_WRITE_BUFFER_HINT"

definition get_buffer_hint :: "WriteOptions \<Rightarrow> bool" where
  "get_buffer_hint = GetBit GRPC_WRITE_BUFFER_HINT"

definition set_corked :: "WriteOptions \<Rightarrow> WriteOptions" where
  "set_corked = SetBit GRPC_WRITE_BUFFER_HINT"

definition clear_corked :: "WriteOptions \<Rightarrow> WriteOptions" where
  "clear_corked = ClearBit GRPC_WRITE_BUFFER_HINT"

definition is_corked :: "WriteOptions \<Rightarrow> bool" where
  "is_corked = GetBit GRPC_WRITE_BUFFER_HINT"

definition set_last_message :: "WriteOptions \<Rightarrow> WriteOptions" where
  "set_last_message o' = o'\<lparr>wo_last_message := True\<rparr>"

definition clear_last_message :: "WriteOptions \<Rightarrow> WriteOptions" where
  "clear_last_message o' = o'\<lparr>wo_last_message := False\<rparr>"

definition set_write_through :: "WriteOptions \<Rightarrow> WriteOptions" where
  "set_write_through = SetBit GRPC_WRITE_THROUGH"

definition is_write_through :: "WriteOptions \<Rightarrow> bool" where
  "is_write_through = GetBit GRPC_WRITE_THROUGH"

text \<open>The assignment operator copies the flags and leaves \<open>last_message_\<close> of the target alone.\<close>

definition WriteOptions_assign :: "WriteOptions \<Rightarrow> WriteOptions \<Rightarrow> WriteOptions" where
  "WriteOptions_assign rhs o' = o'\<lparr>wo_flags := wo_flags rhs\<rparr>"

section \<open>The operations of a call\<close>

text \<open>What the core receives, and what it fills in when a batch completes.\<close>

datatype grpc_op =
    GRPC_OP_SEND_INITIAL_METADATA "32 word" metadata "int option"
  | GRPC_OP_SEND_MESSAGE "32 word" "byte list option"
  | GRPC_OP_SEND_CLOSE_FROM_CLIENT
  | GRPC_OP_SEND_STATUS_FROM_SERVER metadata StatusCode "string option"
  | GRPC_OP_RECV_INITIAL_METADATA
  | GRPC_OP_RECV_MESSAGE
  | GRPC_OP_RECV_STATUS_ON_CLIENT

record core_event =
  ev_success :: bool
  ev_message :: "byte list option"
  ev_status_code :: StatusCode
  ev_error_message :: string
  ev_trailing_metadata :: metadata
  ev_debug_error_string :: "string option"

record ('r, 'w) codec =
  codec_Serialize :: "'w \<Rightarrow> Status \<times> byte list option"
  codec_Deserialize :: "byte list \<Rightarrow> Status \<times> 'r"

record send_initial_metadata_op =
  sim_hijacked :: bool
  sim_send :: bool
  sim_flags :: "32 word"
  sim_metadata_map :: metadata
  sim_initial_metadata :: metadata
  sim_compression_level :: "int option"

definition CallOpSendInitialMetadata :: send_initial_metadata_op where
  "CallOpSendInitialMetadata =
     \<lparr>sim_hijacked = False, sim_send = False, sim_flags = 0, sim_metadata_map = [], sim_initial_metadata = [],
      sim_compression_level = None\<rparr>"

definition sim_SendInitialMetadata :: "metadata \<Rightarrow> 32 word \<Rightarrow> send_initial_metadata_op \<Rightarrow> send_initial_metadata_op" where
  "sim_SendInitialMetadata metadata flags op =
     op\<lparr>sim_compression_level := None, sim_send := True, sim_flags := flags, sim_metadata_map := metadata\<rparr>"

definition sim_set_compression_level :: "int \<Rightarrow> send_initial_metadata_op \<Rightarrow> send_initial_metadata_op" where
  "sim_set_compression_level level op = op\<lparr>sim_compression_level := Some level\<rparr>"

definition sim_AddOp :: "send_initial_metadata_op \<Rightarrow> grpc_op option \<times> send_initial_metadata_op" where
  "sim_AddOp op =
     (if \<not> sim_send op \<or> sim_hijacked op then (None, op)
      else let arr = FillMetadataArray (sim_metadata_map op) '''' in
        (Some (GRPC_OP_SEND_INITIAL_METADATA (sim_flags op) arr (sim_compression_level op)), op\<lparr>sim_initial_metadata := arr\<rparr>))"

definition sim_FinishOp :: "send_initial_metadata_op \<Rightarrow> send_initial_metadata_op" where
  "sim_FinishOp op =
     (if \<not> sim_send op \<or> sim_hijacked op then op else op\<lparr>sim_initial_metadata := [], sim_send := False\<rparr>)"

text \<open>Sending a message: \<open>som_serializer\<close> tells whether the function object is set.\<close>

record 'w send_message_op =
  som_msg :: "'w option"
  som_hijacked :: bool
  som_failed_send :: bool
  som_send_buf :: "byte list option"
  som_write_options :: WriteOptions
  som_serializer :: bool

definition CallOpSendMessage :: "'w send_message_op" where
  "CallOpSendMessage =
     \<lparr>som_msg = None, som_hijacked = False, som_failed_send = False, som_send_buf = None,
      som_write_options = WriteOptions_new, som_serializer = False\<rparr>"

definition som_serialize :: "('r, 'w) codec \<Rightarrow> 'w \<Rightarrow> 'w send_message_op \<Rightarrow> Status \<times> 'w send_message_op" where
  "som_serialize cd message op =
     (let (result, buf) = codec_Serialize cd message in (result, op\<lparr>som_send_buf := buf\<rparr>))"

definition som_SendMessage :: "('r, 'w) codec \<Rightarrow> 'w \<Rightarrow> WriteOptions \<Rightarrow> 'w send_message_op \<Rightarrow> Status \<times> 'w send_message_op" where
  "som_SendMessage cd message options op =
     (let op = op\<lparr>som_write_options := WriteOptions_assign options (som_write_options op), som_serializer := True\<rparr> in
      if som_msg op = None then
        let (result, op) = som_serialize cd message op in (result, op\<lparr>som_serializer := False\<rparr>)
      else (Status_new, op))"

definition som_SendMessagePtr :: "('r, 'w) codec \<Rightarrow> 'w \<Rightarrow> WriteOptions \<Rightarrow> 'w send_message_op \<Rightarrow> Status \<times> 'w send_message_op" where
  "som_SendMessagePtr cd message options op = som_SendMessage cd message options (op\<lparr>som_msg := Some message\<rparr>)"

definition som_AddOp :: "('r, 'w) codec \<Rightarrow> 'w send_message_op \<Rightarrow> (grpc_op option \<times> 'w send_message_op) option" where
  "som_AddOp cd op =
     (if som_msg op = None \<and> som_send_buf op = None then Some (None, op)
      else if som_hijacked op then Some (None, op\<lparr>som_serializer := False\<rparr>)
      else do {
        op \<leftarrow> (case som_msg op of
            None \<Rightarrow> Some op
          | Some m \<Rightarrow> do {
              _ \<leftarrow> GOOGLE_DCHECK (som_serializer op);
              let (result, op) = som_serialize cd m op;
              _ \<leftarrow> GOOGLE_DCHECK (Status_ok result);
              Some op });
        Some (Some (GRPC_OP_SEND_MESSAGE (wo_flags (som_write_options op)) (som_send_buf op)),
              op\<lparr>som_serializer := False, som_write_options := wo_Clear (som_write_options op)\<rparr>) })"

definition som_FinishOp :: "'w send_message_op \<Rightarrow> bool \<Rightarrow> 'w send_message_op \<times> bool" where
  "som_FinishOp op status =
     (if som_msg op = None \<and> som_send_buf op = None then (op, status)
      else if som_hijacked op \<and> som_failed_send op then (op, False)
      else if \<not> status then (op\<lparr>som_failed_send := True\<rparr>, status)
      else (op, status))"

definition som_SetFinishInterceptionHookPoint :: "'w send_message_op \<Rightarrow> 'w send_message_op" where
  "som_SetFinishInterceptionHookPoint op = op\<lparr>som_send_buf := None, som_msg := None\<rparr>"

text \<open>Receiving a message: \<open>rmo_message\<close> tells whether there is an object for it, \<open>rmo_object\<close> is the object.\<close>

record 'r recv_message_op =
  rmo_got_message :: bool
  rmo_message :: bool
  rmo_object :: "'r option"
  rmo_recv_buf :: "byte list option"
  rmo_allow_not_getting_message :: bool
  rmo_hijacked :: bool

definition CallOpRecvMessage :: "'r recv_message_op" where
  "CallOpRecvMessage =
     \<lparr>rmo_got_message = False, rmo_message = False, rmo_object = None, rmo_recv_buf = None,
      rmo_allow_not_getting_message = False, rmo_hijacked = False\<rparr>"

definition rmo_RecvMessage :: "'r recv_message_op \<Rightarrow> 'r recv_message_op" where
  "rmo_RecvMessage op = op\<lparr>rmo_message := True\<rparr>"

definition rmo_AllowNoMessage :: "'r recv_message_op \<Rightarrow> 'r recv_message_op" where
  "rmo_AllowNoMessage op = op\<lparr>rmo_allow_not_getting_message := True\<rparr>"

definition rmo_AddOp :: "'r recv_message_op \<Rightarrow> grpc_op option" where
  "rmo_AddOp op = (if \<not> rmo_message op \<or> rmo_hijacked op then None else Some GRPC_OP_RECV_MESSAGE)"

definition rmo_FinishOp :: "('r, 'w) codec \<Rightarrow> 'r recv_message_op \<Rightarrow> bool \<Rightarrow> 'r recv_message_op \<times> bool" where
  "rmo_FinishOp cd op status =
     (if \<not> rmo_message op \<or> rmo_hijacked op then (op, status)
      else let (op, status) =
        (case rmo_recv_buf op of
           Some buf \<Rightarrow>
             if status then
               let (result, object) = codec_Deserialize cd buf; ok = Status_ok result in
                 (op\<lparr>rmo_object := Some object, rmo_got_message := ok, rmo_recv_buf := None\<rparr>, ok)
             else (op\<lparr>rmo_got_message := False, rmo_recv_buf := None\<rparr>, status)
         | None \<Rightarrow>
             (op\<lparr>rmo_got_message := False\<rparr>, if rmo_allow_not_getting_message op then status else False))
      in (op\<lparr>rmo_message := False\<rparr>, status))"

text \<open>The generic form differs in \<open>got_message\<close>: it is set also when the message cannot be deserialised.\<close>

definition grm_FinishOp :: "('r, 'w) codec \<Rightarrow> 'r recv_message_op \<Rightarrow> bool \<Rightarrow> 'r recv_message_op \<times> bool" where
  "grm_FinishOp cd op status =
     (if \<not> rmo_message op \<or> rmo_hijacked op then (op, status)
      else let (op, status) =
        (case rmo_recv_buf op of
           Some buf \<Rightarrow>
             if status then
               let (result, object) = codec_Deserialize cd buf in
                 (op\<lparr>rmo_object := Some object, rmo_got_message := True, rmo_recv_buf := None\<rparr>, Status_ok result)
             else (op\<lparr>rmo_got_message := False, rmo_recv_buf := None\<rparr>, status)
         | None \<Rightarrow>
             (op\<lparr>rmo_got_message := False\<rparr>, if rmo_allow_not_getting_message op then status else False))
      in (op\<lparr>rmo_message := False\<rparr>, status))"

record client_send_close_op =
  csc_hijacked :: bool
  csc_send :: bool

definition CallOpClientSendClose :: client_send_close_op where
  "CallOpClientSendClose = \<lparr>csc_hijacked = False, csc_send = False\<rparr>"

definition csc_ClientSendClose :: "client_send_close_op \<Rightarrow> client_send_close_op" where
  "csc_ClientSendClose op = op\<lparr>csc_send := True\<rparr>"

definition csc_AddOp :: "client_send_close_op \<Rightarrow> grpc_op option" where
  "csc_AddOp op = (if \<not> csc_send op \<or> csc_hijacked op then None else Some GRPC_OP_SEND_CLOSE_FROM_CLIENT)"

definition csc_FinishOp :: "client_send_close_op \<Rightarrow> client_send_close_op" where
  "csc_FinishOp op = op\<lparr>csc_send := False\<rparr>"

record server_send_status_op =
  sss_hijacked :: bool
  sss_send_status_available :: bool
  sss_send_status_code :: StatusCode
  sss_send_error_details :: string
  sss_send_error_message :: string
  sss_metadata_map :: metadata
  sss_trailing_metadata :: metadata

definition CallOpServerSendStatus :: server_send_status_op where
  "CallOpServerSendStatus =
     \<lparr>sss_hijacked = False, sss_send_status_available = False, sss_send_status_code = GRPC_STATUS_OK, sss_send_error_details = '''',
      sss_send_error_message = '''', sss_metadata_map = [], sss_trailing_metadata = []\<rparr>"

definition sss_ServerSendStatus :: "metadata \<Rightarrow> Status \<Rightarrow> server_send_status_op \<Rightarrow> server_send_status_op" where
  "sss_ServerSendStatus trailing_metadata status op =
     op\<lparr>sss_send_error_details := st_details status, sss_metadata_map := trailing_metadata, sss_send_status_available := True,
       sss_send_status_code := st_code status, sss_send_error_message := st_message status\<rparr>"

definition sss_AddOp :: "server_send_status_op \<Rightarrow> grpc_op option \<times> server_send_status_op" where
  "sss_AddOp op =
     (if \<not> sss_send_status_available op \<or> sss_hijacked op then (None, op)
      else let arr = FillMetadataArray (sss_metadata_map op) (sss_send_error_details op) in
        (Some (GRPC_OP_SEND_STATUS_FROM_SERVER arr (sss_send_status_code op)
           (if sss_send_error_message op = '''' then None else Some (sss_send_error_message op))),
         op\<lparr>sss_trailing_metadata := arr\<rparr>))"

definition sss_FinishOp :: "server_send_status_op \<Rightarrow> server_send_status_op" where
  "sss_FinishOp op =
     (if \<not> sss_send_status_available op \<or> sss_hijacked op then op
      else op\<lparr>sss_trailing_metadata := [], sss_send_status_available := False\<rparr>)"

text \<open>\<open>rim_metadata_map\<close> and \<open>crs_recv_status\<close> tell whether the pointers to the objects of the client are set.\<close>

record recv_initial_metadata_op =
  rim_hijacked :: bool
  rim_metadata_map :: bool

definition CallOpRecvInitialMetadata :: recv_initial_metadata_op where
  "CallOpRecvInitialMetadata = \<lparr>rim_hijacked = False, rim_metadata_map = False\<rparr>"

definition rim_RecvInitialMetadata :: "recv_initial_metadata_op \<Rightarrow> recv_initial_metadata_op" where
  "rim_RecvInitialMetadata op = op\<lparr>rim_metadata_map := True\<rparr>"

definition rim_AddOp :: "recv_initial_metadata_op \<Rightarrow> grpc_op option" where
  "rim_AddOp op = (if \<not> rim_metadata_map op \<or> rim_hijacked op then None else Some GRPC_OP_RECV_INITIAL_METADATA)"

definition rim_SetFinishInterceptionHookPoint :: "recv_initial_metadata_op \<Rightarrow> recv_initial_metadata_op" where
  "rim_SetFinishInterceptionHookPoint op = op\<lparr>rim_metadata_map := False\<rparr>"

record client_recv_status_op =
  crs_hijacked :: bool
  crs_recv_status :: bool
  crs_status :: Status
  crs_metadata_map :: metadata_map
  crs_status_code :: StatusCode
  crs_error_message :: string
  crs_debug_error_string :: "string option"
  crs_context_debug_error_string :: string

definition CallOpClientRecvStatus :: client_recv_status_op where
  "CallOpClientRecvStatus =
     \<lparr>crs_hijacked = False, crs_recv_status = False, crs_status = Status_new, crs_metadata_map = MetadataMap,
      crs_status_code = GRPC_STATUS_OK, crs_error_message = '''', crs_debug_error_string = None,
      crs_context_debug_error_string = ''''\<rparr>"

definition crs_ClientRecvStatus :: "client_recv_status_op \<Rightarrow> client_recv_status_op" where
  "crs_ClientRecvStatus op = op\<lparr>crs_recv_status := True, crs_error_message := ''''\<rparr>"

definition crs_AddOp :: "client_recv_status_op \<Rightarrow> grpc_op option" where
  "crs_AddOp op = (if \<not> crs_recv_status op \<or> crs_hijacked op then None else Some GRPC_OP_RECV_STATUS_ON_CLIENT)"

definition crs_FinishOp :: "client_recv_status_op \<Rightarrow> client_recv_status_op" where
  "crs_FinishOp op =
     (if \<not> crs_recv_status op \<or> crs_hijacked op then op
      else op\<lparr>crs_status := \<lparr>st_code = crs_status_code op, st_message = crs_error_message op,
                st_details = mm_GetBinaryErrorDetails (crs_metadata_map op)\<rparr>,
        crs_context_debug_error_string := (case crs_debug_error_string op of None \<Rightarrow> '''' | Some d \<Rightarrow> d)\<rparr>)"

definition crs_SetFinishInterceptionHookPoint :: "client_recv_status_op \<Rightarrow> client_recv_status_op" where
  "crs_SetFinishInterceptionHookPoint op = op\<lparr>crs_recv_status := False\<rparr>"

section \<open>Sets of operations\<close>

datatype ('r, 'w) call_op = CallNoOp
  | Send_initial_metadata send_initial_metadata_op
  | Send_message "'w send_message_op"
  | Recv_message "'r recv_message_op"
  | Generic_recv_message "'r recv_message_op"
  | Client_send_close client_send_close_op
  | Server_send_status server_send_status_op
  | Recv_initial_metadata recv_initial_metadata_op
  | Client_recv_status client_recv_status_op

primrec AddOp :: "('r, 'w) codec \<Rightarrow> ('r, 'w) call_op \<Rightarrow> (grpc_op option \<times> ('r, 'w) call_op) option" where
  "AddOp cd CallNoOp = Some (None, CallNoOp)"
| "AddOp cd (Send_initial_metadata op) = Some (map_prod id Send_initial_metadata (sim_AddOp op))"
| "AddOp cd (Send_message op) = map_option (map_prod id Send_message) (som_AddOp cd op)"
| "AddOp cd (Recv_message op) = Some (rmo_AddOp op, Recv_message op)"
| "AddOp cd (Generic_recv_message op) = Some (rmo_AddOp op, Generic_recv_message op)"
| "AddOp cd (Client_send_close op) = Some (csc_AddOp op, Client_send_close op)"
| "AddOp cd (Server_send_status op) = Some (map_prod id Server_send_status (sss_AddOp op))"
| "AddOp cd (Recv_initial_metadata op) = Some (rim_AddOp op, Recv_initial_metadata op)"
| "AddOp cd (Client_recv_status op) = Some (crs_AddOp op, Client_recv_status op)"

primrec FinishOp :: "('r, 'w) codec \<Rightarrow> ('r, 'w) call_op \<Rightarrow> bool \<Rightarrow> ('r, 'w) call_op \<times> bool" where
  "FinishOp cd CallNoOp status = (CallNoOp, status)"
| "FinishOp cd (Send_initial_metadata op) status = (Send_initial_metadata (sim_FinishOp op), status)"
| "FinishOp cd (Send_message op) status = map_prod Send_message id (som_FinishOp op status)"
| "FinishOp cd (Recv_message op) status = map_prod Recv_message id (rmo_FinishOp cd op status)"
| "FinishOp cd (Generic_recv_message op) status = map_prod Generic_recv_message id (grm_FinishOp cd op status)"
| "FinishOp cd (Client_send_close op) status = (Client_send_close (csc_FinishOp op), status)"
| "FinishOp cd (Server_send_status op) status = (Server_send_status (sss_FinishOp op), status)"
| "FinishOp cd (Recv_initial_metadata op) status = (Recv_initial_metadata op, status)"
| "FinishOp cd (Client_recv_status op) status = (Client_recv_status (crs_FinishOp op), status)"

primrec SetFinishInterceptionHookPoint :: "('r, 'w) call_op \<Rightarrow> ('r, 'w) call_op" where
  "SetFinishInterceptionHookPoint CallNoOp = CallNoOp"
| "SetFinishInterceptionHookPoint (Send_initial_metadata op) = Send_initial_metadata op"
| "SetFinishInterceptionHookPoint (Send_message op) = Send_message (som_SetFinishInterceptionHookPoint op)"
| "SetFinishInterceptionHookPoint (Recv_message op) = Recv_message op"
| "SetFinishInterceptionHookPoint (Generic_recv_message op) = Generic_recv_message op"
| "SetFinishInterceptionHookPoint (Client_send_close op) = Client_send_close op"
| "SetFinishInterceptionHookPoint (Server_send_status op) = Server_send_status op"
| "SetFinishInterceptionHookPoint (Recv_initial_metadata op) = Recv_initial_metadata (rim_SetFinishInterceptionHookPoint op)"
| "SetFinishInterceptionHookPoint (Client_recv_status op) = Client_recv_status (crs_SetFinishInterceptionHookPoint op)"

text \<open>What the core stores through the pointers of a batch before it reports the completion.\<close>

primrec core_fills :: "core_event \<Rightarrow> ('r, 'w) call_op \<Rightarrow> ('r, 'w) call_op" where
  "core_fills ev CallNoOp = CallNoOp"
| "core_fills ev (Send_initial_metadata op) = Send_initial_metadata op"
| "core_fills ev (Send_message op) = Send_message op"
| "core_fills ev (Recv_message op) =
     Recv_message (if rmo_AddOp op = None then op else op\<lparr>rmo_recv_buf := ev_message ev\<rparr>)"
| "core_fills ev (Generic_recv_message op) =
     Generic_recv_message (if rmo_AddOp op = None then op else op\<lparr>rmo_recv_buf := ev_message ev\<rparr>)"
| "core_fills ev (Client_send_close op) = Client_send_close op"
| "core_fills ev (Server_send_status op) = Server_send_status op"
| "core_fills ev (Recv_initial_metadata op) = Recv_initial_metadata op"
| "core_fills ev (Client_recv_status op) = Client_recv_status (if crs_AddOp op = None then op
     else op\<lparr>crs_status_code := ev_status_code ev, crs_error_message := ev_error_message ev,
       crs_metadata_map := (crs_metadata_map op)\<lparr>mm_arr := ev_trailing_metadata ev\<rparr>,
       crs_debug_error_string := ev_debug_error_string ev\<rparr>)"

record ('r, 'w) call_op_set =
  cos_ops :: "('r, 'w) call_op list"
  cos_done_intercepting :: bool
  cos_saved_status :: bool

definition CallOpSet :: "('r, 'w) call_op list \<Rightarrow> ('r, 'w) call_op_set" where
  "CallOpSet ops = \<lparr>cos_ops = ops, cos_done_intercepting = False, cos_saved_status = False\<rparr>"

primrec AddOps :: "('r, 'w) codec \<Rightarrow> ('r, 'w) call_op list \<Rightarrow> (grpc_op list \<times> ('r, 'w) call_op list) option" where
  "AddOps cd [] = Some ([], [])"
| "AddOps cd (op # ops) = do {
     (g, op) \<leftarrow> AddOp cd op;
     (gs, ops) \<leftarrow> AddOps cd ops;
     Some ((case g of None \<Rightarrow> gs | Some g \<Rightarrow> g # gs), op # ops) }"

primrec FinishOps :: "('r, 'w) codec \<Rightarrow> ('r, 'w) call_op list \<Rightarrow> bool \<Rightarrow> ('r, 'w) call_op list \<times> bool" where
  "FinishOps cd [] status = ([], status)"
| "FinishOps cd (op # ops) status =
     (let (op, status) = FinishOp cd op status; (ops, status) = FinishOps cd ops status in (op # ops, status))"

text \<open>
  A call: the state of the core, the operations started so far and the batches that have not
  completed, with their tags.
\<close>

record 'x grpc_call =
  call_core :: 'x
  call_history :: "grpc_op list"
  call_outstanding :: "(nat \<times> grpc_op list) list"
  call_max_receive_message_size :: int

record ('r, 'w, 'x) grpc_core =
  core_start_batch :: "nat \<Rightarrow> grpc_op list \<Rightarrow> 'x grpc_call \<Rightarrow> bool \<times> 'x"
  core_pluck :: "nat \<Rightarrow> 'x \<Rightarrow> core_event \<times> 'x"
  core_PerformOpsOnCall :: "(('r, 'w) call_op_set \<times> 'x grpc_call \<Rightarrow> (('r, 'w) call_op_set \<times> 'x grpc_call) option) \<Rightarrow>
     ('r, 'w) call_op_set \<times> 'x grpc_call \<Rightarrow> (('r, 'w) call_op_set \<times> 'x grpc_call) option"

definition start_batch :: "('r, 'w, 'x) grpc_core \<Rightarrow> nat \<Rightarrow> grpc_op list \<Rightarrow> 'x grpc_call \<Rightarrow> 'x grpc_call option" where
  "start_batch core tag ops call = do {
     let (ok, x) = core_start_batch core tag ops call;
     _ \<leftarrow> GOOGLE_DCHECK ok;
     Some (call\<lparr>call_core := x, call_history := call_history call @ ops,
       call_outstanding := call_outstanding call @ [(tag, ops)]\<rparr>) }"

definition ContinueFillOpsAfterInterception :: "('r, 'w) codec \<Rightarrow> ('r, 'w, 'x) grpc_core \<Rightarrow> nat \<Rightarrow>
    ('r, 'w) call_op_set \<times> 'x grpc_call \<Rightarrow> (('r, 'w) call_op_set \<times> 'x grpc_call) option" where
  "ContinueFillOpsAfterInterception cd core tag = (\<lambda>(s, call). do {
     (gs, ops) \<leftarrow> AddOps cd (cos_ops s);
     call \<leftarrow> start_batch core tag gs call;
     Some (s\<lparr>cos_ops := ops\<rparr>, call) })"

definition FillOps :: "('r, 'w) codec \<Rightarrow> ('r, 'w, 'x) grpc_core \<Rightarrow> nat \<Rightarrow>
    ('r, 'w) call_op_set \<times> 'x grpc_call \<Rightarrow> (('r, 'w) call_op_set \<times> 'x grpc_call) option" where
  "FillOps cd core tag = (\<lambda>(s, call). ContinueFillOpsAfterInterception cd core tag (s\<lparr>cos_done_intercepting := False\<rparr>, call))"

definition FinalizeResult :: "('r, 'w) codec \<Rightarrow> bool \<Rightarrow> ('r, 'w) call_op_set \<Rightarrow> (bool \<times> bool) \<times> ('r, 'w) call_op_set" where
  "FinalizeResult cd status s =
     (if cos_done_intercepting s then ((True, cos_saved_status s), s)
      else let (ops, status) = FinishOps cd (cos_ops s) status in
        ((True, status), s\<lparr>cos_ops := map SetFinishInterceptionHookPoint ops, cos_saved_status := status\<rparr>))"

definition PerformOps :: "('r, 'w) codec \<Rightarrow> ('r, 'w, 'x) grpc_core \<Rightarrow> nat \<Rightarrow> ('r, 'w) call_op_set \<Rightarrow> 'x grpc_call \<Rightarrow>
    (('r, 'w) call_op_set \<times> 'x grpc_call) option" where
  "PerformOps cd core tag s call = core_PerformOpsOnCall core (FillOps cd core tag) (s, call)"

text \<open>Plucking a tag for which no batch is outstanding waits forever.\<close>

definition complete_batch :: "nat \<Rightarrow> (nat \<times> grpc_op list) list \<Rightarrow> (nat \<times> grpc_op list) list" where
  "complete_batch tag bs = takeWhile (\<lambda>b. fst b \<noteq> tag) bs @ tl (dropWhile (\<lambda>b. fst b \<noteq> tag) bs)"

partial_function (option) Pluck :: "('r, 'w) codec \<Rightarrow> ('r, 'w, 'x) grpc_core \<Rightarrow> nat \<Rightarrow> ('r, 'w) call_op_set \<Rightarrow> 'x grpc_call \<Rightarrow>
    (bool \<times> ('r, 'w) call_op_set \<times> 'x grpc_call) option" where
  "Pluck cd core tag s call =
     (if \<not> list_ex (\<lambda>b. fst b = tag) (call_outstanding call) then None
      else let (ev, x) = core_pluck core tag (call_core call);
        call = call\<lparr>call_core := x, call_outstanding := complete_batch tag (call_outstanding call)\<rparr>;
        ((finished, ok), s) = FinalizeResult cd (ev_success ev) (s\<lparr>cos_ops := map (core_fills ev) (cos_ops s)\<rparr>)
      in if finished then Some (ok, s, call) else Pluck cd core tag s call)"

end
