(* ===== verification/Grpc_Streams.thy ===== *)
theory Grpc_Streams
  imports Grpc_Ops
begin

text \<open>
  The server side of \<open>grpcpp/impl/codegen/sync_stream.h\<close> and the method handlers of
  \<open>method_handler_impl.h\<close>, which run the functions of a service. The stream that the proxy's service
  reads and writes is a \<open>ServerReaderWriter\<close> made by a \<open>BidiStreamingHandler\<close>.

  A function of a service is a value of the datatype \<open>service\<close>: the calls it makes on its stream,
  each followed by what it does with the result, up to the value it returns or an exception. The
  calls of a stream are the record \<open>streamer\<close>; \<open>'s\<close> is the type of the streamer's own members.
\<close>

section \<open>Members of a set\<close>

fun on_send_initial_metadata :: "(send_initial_metadata_op \<Rightarrow> send_initial_metadata_op) \<Rightarrow> ('r, 'w) call_op \<Rightarrow> ('r, 'w) call_op" where
  "on_send_initial_metadata f (Send_initial_metadata op) = Send_initial_metadata (f op)"
| "on_send_initial_metadata f op = op"

fun on_server_send_status :: "(server_send_status_op \<Rightarrow> server_send_status_op) \<Rightarrow> ('r, 'w) call_op \<Rightarrow> ('r, 'w) call_op" where
  "on_server_send_status f (Server_send_status op) = Server_send_status (f op)"
| "on_server_send_status f op = op"

definition on_ops :: "(('r, 'w) call_op \<Rightarrow> ('r, 'w) call_op) \<Rightarrow> ('r, 'w) call_op_set \<Rightarrow> ('r, 'w) call_op_set" where
  "on_ops f s = s\<lparr>cos_ops := map f (cos_ops s)\<rparr>"

fun send_message_in :: "('r, 'w) codec \<Rightarrow> 'w \<Rightarrow> WriteOptions \<Rightarrow> ('r, 'w) call_op list \<Rightarrow> Status \<times> ('r, 'w) call_op list" where
  "send_message_in cd message options [] = (Status_new, [])"
| "send_message_in cd message options (Send_message op # ops) =
     (let (status, op) = som_SendMessagePtr cd message options op in (status, Send_message op # ops))"
| "send_message_in cd message options (op # ops) =
     (let (status, ops) = send_message_in cd message options ops in (status, op # ops))"

definition set_SendMessagePtr :: "('r, 'w) codec \<Rightarrow> 'w \<Rightarrow> WriteOptions \<Rightarrow> ('r, 'w) call_op_set \<Rightarrow> Status \<times> ('r, 'w) call_op_set" where
  "set_SendMessagePtr cd message options s =
     (let (status, ops) = send_message_in cd message options (cos_ops s) in (status, s\<lparr>cos_ops := ops\<rparr>))"

fun received :: "('r, 'w) call_op list \<Rightarrow> bool \<times> 'r option" where
  "received (Recv_message op # ops) = (rmo_got_message op, rmo_object op)"
| "received (op # ops) = received ops"
| "received [] = (False, None)"

section \<open>The server's side of a call\<close>

record ('r, 'w) server_context =
  ctx_sent_initial_metadata :: bool
  ctx_initial_metadata :: metadata
  ctx_trailing_metadata :: metadata
  ctx_compression_level_set :: bool
  ctx_compression_level :: int
  ctx_pending_ops :: "('r, 'w) call_op_set"
  ctx_has_pending_ops :: bool

definition initial_metadata_flags :: "('r, 'w) server_context \<Rightarrow> 32 word" where
  "initial_metadata_flags ctx = 0"

definition ctx_set_compression_level :: "int \<Rightarrow> ('r, 'w) server_context \<Rightarrow> ('r, 'w) server_context" where
  "ctx_set_compression_level level ctx = ctx\<lparr>ctx_compression_level_set := True, ctx_compression_level := level\<rparr>"

record ('r, 'w, 'x) server =
  srv_ctx :: "('r, 'w) server_context"
  srv_call :: "'x grpc_call"

text \<open>The set in the context and a set on the stack are different objects and so have different tags.\<close>

definition pending_tag :: nat where "pending_tag = 0"

definition local_tag :: nat where "local_tag = 1"

text \<open>The statements that put the initial metadata of the context into a set.\<close>

definition send_metadata_of :: "('r, 'w) server_context \<Rightarrow> ('r, 'w) call_op_set \<Rightarrow> ('r, 'w) call_op_set" where
  "send_metadata_of ctx ops =
     (let ops = on_ops (on_send_initial_metadata (sim_SendInitialMetadata (ctx_initial_metadata ctx) (initial_metadata_flags ctx))) ops in
      if ctx_compression_level_set ctx
      then on_ops (on_send_initial_metadata (sim_set_compression_level (ctx_compression_level ctx))) ops else ops)"

definition ServerReader_SendInitialMetadata :: "('r, 'w) codec \<Rightarrow> ('r, 'w, 'x) grpc_core \<Rightarrow> ('r, 'w, 'x) server \<Rightarrow> ('r, 'w, 'x) server option" where
  "ServerReader_SendInitialMetadata cd core st = do {
     _ \<leftarrow> GOOGLE_DCHECK (\<not> ctx_sent_initial_metadata (srv_ctx st));
     let ops = send_metadata_of (srv_ctx st) (CallOpSet [Send_initial_metadata CallOpSendInitialMetadata]);
     let st = st\<lparr>srv_ctx := (srv_ctx st)\<lparr>ctx_sent_initial_metadata := True\<rparr>\<rparr>;
     (ops, call) \<leftarrow> PerformOps cd core local_tag ops (srv_call st);
     (_, _, call) \<leftarrow> Pluck cd core local_tag ops call;
     Some (st\<lparr>srv_call := call\<rparr>) }"

definition ServerReader_NextMessageSize :: "('r, 'w, 'x) server \<Rightarrow> bool \<times> 32 word" where
  "ServerReader_NextMessageSize st = (True, word_of_int (call_max_receive_message_size (srv_call st)))"

definition ServerReader_Read :: "('r, 'w) codec \<Rightarrow> ('r, 'w, 'x) grpc_core \<Rightarrow> ('r, 'w, 'x) server \<Rightarrow> ('r option \<times> ('r, 'w, 'x) server) option" where
  "ServerReader_Read cd core st = do {
     let ops = CallOpSet [Recv_message (rmo_RecvMessage CallOpRecvMessage)];
     (ops, call) \<leftarrow> PerformOps cd core local_tag ops (srv_call st);
     (ok, ops, call) \<leftarrow> Pluck cd core local_tag ops call;
     let (got_message, msg) = received (cos_ops ops);
     Some (if ok \<and> got_message then msg else None, st\<lparr>srv_call := call\<rparr>) }"

definition ServerWriter_SendInitialMetadata :: "('r, 'w) codec \<Rightarrow> ('r, 'w, 'x) grpc_core \<Rightarrow> ('r, 'w, 'x) server \<Rightarrow> ('r, 'w, 'x) server option" where
  "ServerWriter_SendInitialMetadata cd core st = do {
     _ \<leftarrow> GOOGLE_DCHECK (\<not> ctx_sent_initial_metadata (srv_ctx st));
     let ops = send_metadata_of (srv_ctx st) (CallOpSet [Send_initial_metadata CallOpSendInitialMetadata]);
     let st = st\<lparr>srv_ctx := (srv_ctx st)\<lparr>ctx_sent_initial_metadata := True\<rparr>\<rparr>;
     (ops, call) \<leftarrow> PerformOps cd core local_tag ops (srv_call st);
     (_, _, call) \<leftarrow> Pluck cd core local_tag ops call;
     Some (st\<lparr>srv_call := call\<rparr>) }"

definition ServerWriter_Write :: "('r, 'w) codec \<Rightarrow> ('r, 'w, 'x) grpc_core \<Rightarrow> 'w \<Rightarrow> WriteOptions \<Rightarrow> ('r, 'w, 'x) server \<Rightarrow>
    (bool \<times> ('r, 'w, 'x) server) option" where
  "ServerWriter_Write cd core msg options st = do {
     let options = (if wo_last_message options then set_buffer_hint options else options);
     let ctx = srv_ctx st;
     let (status, ops) = set_SendMessagePtr cd msg options (ctx_pending_ops ctx);
     if \<not> Status_ok status then Some (False, st\<lparr>srv_ctx := ctx\<lparr>ctx_pending_ops := ops\<rparr>\<rparr>)
     else do {
       let (ops, ctx) = (if \<not> ctx_sent_initial_metadata ctx
         then (send_metadata_of ctx ops, ctx\<lparr>ctx_sent_initial_metadata := True\<rparr>) else (ops, ctx));
       (ops, call) \<leftarrow> PerformOps cd core pending_tag ops (srv_call st);
       if wo_last_message options
       then Some (True, \<lparr>srv_ctx = ctx\<lparr>ctx_pending_ops := ops, ctx_has_pending_ops := True\<rparr>, srv_call = call\<rparr>)
       else do {
         let ctx = ctx\<lparr>ctx_has_pending_ops := False\<rparr>;
         (ok, ops, call) \<leftarrow> Pluck cd core pending_tag ops call;
         Some (ok, \<lparr>srv_ctx = ctx\<lparr>ctx_pending_ops := ops\<rparr>, srv_call = call\<rparr>) } } }"

section \<open>Streams that read and write\<close>

definition body_SendInitialMetadata :: "('r, 'w) codec \<Rightarrow> ('r, 'w, 'x) grpc_core \<Rightarrow> ('r, 'w, 'x) server \<Rightarrow> ('r, 'w, 'x) server option" where
  "body_SendInitialMetadata cd core st = do {
     _ \<leftarrow> GOOGLE_DCHECK (\<not> ctx_sent_initial_metadata (srv_ctx st));
     let ops = send_metadata_of (srv_ctx st) (CallOpSet [Send_initial_metadata CallOpSendInitialMetadata]);
     let st = st\<lparr>srv_ctx := (srv_ctx st)\<lparr>ctx_sent_initial_metadata := True\<rparr>\<rparr>;
     (ops, call) \<leftarrow> PerformOps cd core local_tag ops (srv_call st);
     (_, _, call) \<leftarrow> Pluck cd core local_tag ops call;
     Some (st\<lparr>srv_call := call\<rparr>) }"

definition body_NextMessageSize :: "('r, 'w, 'x) server \<Rightarrow> bool \<times> 32 word" where
  "body_NextMessageSize st = (True, word_of_int (call_max_receive_message_size (srv_call st)))"

definition body_Read :: "('r, 'w) codec \<Rightarrow> ('r, 'w, 'x) grpc_core \<Rightarrow> ('r, 'w, 'x) server \<Rightarrow> ('r option \<times> ('r, 'w, 'x) server) option" where
  "body_Read cd core st = do {
     let ops = CallOpSet [Recv_message (rmo_RecvMessage CallOpRecvMessage)];
     (ops, call) \<leftarrow> PerformOps cd core local_tag ops (srv_call st);
     (ok, ops, call) \<leftarrow> Pluck cd core local_tag ops call;
     let (got_message, msg) = received (cos_ops ops);
     Some (if ok \<and> got_message then msg else None, st\<lparr>srv_call := call\<rparr>) }"

definition body_Write :: "('r, 'w) codec \<Rightarrow> ('r, 'w, 'x) grpc_core \<Rightarrow> 'w \<Rightarrow> WriteOptions \<Rightarrow> ('r, 'w, 'x) server \<Rightarrow>
    (bool \<times> ('r, 'w, 'x) server) option" where
  "body_Write cd core msg options st = do {
     let options = (if wo_last_message options then set_buffer_hint options else options);
     let ctx = srv_ctx st;
     let (status, ops) = set_SendMessagePtr cd msg options (ctx_pending_ops ctx);
     if \<not> Status_ok status then Some (False, st\<lparr>srv_ctx := ctx\<lparr>ctx_pending_ops := ops\<rparr>\<rparr>)
     else do {
       let (ops, ctx) = (if \<not> ctx_sent_initial_metadata ctx
         then (send_metadata_of ctx ops, ctx\<lparr>ctx_sent_initial_metadata := True\<rparr>) else (ops, ctx));
       (ops, call) \<leftarrow> PerformOps cd core pending_tag ops (srv_call st);
       if wo_last_message options
       then Some (True, \<lparr>srv_ctx = ctx\<lparr>ctx_pending_ops := ops, ctx_has_pending_ops := True\<rparr>, srv_call = call\<rparr>)
       else do {
         let ctx = ctx\<lparr>ctx_has_pending_ops := False\<rparr>;
         (ok, ops, call) \<leftarrow> Pluck cd core pending_tag ops call;
         Some (ok, \<lparr>srv_ctx = ctx\<lparr>ctx_pending_ops := ops\<rparr>, srv_call = call\<rparr>) } } }"

record ('s, 'r, 'w, 'x) streamer =
  str_SendInitialMetadata :: "'s \<times> ('r, 'w, 'x) server \<Rightarrow> ('s \<times> ('r, 'w, 'x) server) option"
  str_Read :: "'s \<times> ('r, 'w, 'x) server \<Rightarrow> ('r option \<times> 's \<times> ('r, 'w, 'x) server) option"
  str_Write :: "'w \<Rightarrow> WriteOptions \<Rightarrow> 's \<times> ('r, 'w, 'x) server \<Rightarrow> (bool \<times> 's \<times> ('r, 'w, 'x) server) option"

definition on_server :: "('a \<Rightarrow> ('b \<times> 'a) option) \<Rightarrow> 's \<times> 'a \<Rightarrow> ('b \<times> 's \<times> 'a) option" where
  "on_server f = (\<lambda>(s, st). do { (r, st) \<leftarrow> f st; Some (r, s, st) })"

definition on_server_void :: "('a \<Rightarrow> 'a option) \<Rightarrow> 's \<times> 'a \<Rightarrow> ('s \<times> 'a) option" where
  "on_server_void f = (\<lambda>(s, st). do { st \<leftarrow> f st; Some (s, st) })"

definition ServerReaderWriter :: "('r, 'w) codec \<Rightarrow> ('r, 'w, 'x) grpc_core \<Rightarrow> (unit, 'r, 'w, 'x) streamer" where
  "ServerReaderWriter cd core =
     \<lparr>str_SendInitialMetadata = on_server_void (body_SendInitialMetadata cd core),
      str_Read = on_server (body_Read cd core),
      str_Write = (\<lambda>msg options. on_server (body_Write cd core msg options))\<rparr>"

record unary_flags =
  us_read_done :: bool
  us_write_done :: bool

definition unary_Read :: "('r, 'w) codec \<Rightarrow> ('r, 'w, 'x) grpc_core \<Rightarrow> unary_flags \<times> ('r, 'w, 'x) server \<Rightarrow>
    ('r option \<times> unary_flags \<times> ('r, 'w, 'x) server) option" where
  "unary_Read cd core = (\<lambda>(s, st).
     if us_read_done s then Some (None, s, st)
     else on_server (body_Read cd core) (s\<lparr>us_read_done := True\<rparr>, st))"

definition unary_Write :: "('r, 'w) codec \<Rightarrow> ('r, 'w, 'x) grpc_core \<Rightarrow> 'w \<Rightarrow> WriteOptions \<Rightarrow> unary_flags \<times> ('r, 'w, 'x) server \<Rightarrow>
    (bool \<times> unary_flags \<times> ('r, 'w, 'x) server) option" where
  "unary_Write cd core response options = (\<lambda>(s, st).
     if us_write_done s \<or> \<not> us_read_done s then Some (False, s, st)
     else on_server (body_Write cd core response options) (s\<lparr>us_write_done := True\<rparr>, st))"

definition ServerUnaryStreamer :: "('r, 'w) codec \<Rightarrow> ('r, 'w, 'x) grpc_core \<Rightarrow> (unary_flags, 'r, 'w, 'x) streamer" where
  "ServerUnaryStreamer cd core =
     \<lparr>str_SendInitialMetadata = on_server_void (body_SendInitialMetadata cd core),
      str_Read = unary_Read cd core, str_Write = unary_Write cd core\<rparr>"

definition ServerUnaryStreamer_new :: unary_flags where
  "ServerUnaryStreamer_new = \<lparr>us_read_done = False, us_write_done = False\<rparr>"

text \<open>The only member of a split streamer is \<open>read_done_\<close>.\<close>

definition split_Read :: "('r, 'w) codec \<Rightarrow> ('r, 'w, 'x) grpc_core \<Rightarrow> bool \<times> ('r, 'w, 'x) server \<Rightarrow>
    ('r option \<times> bool \<times> ('r, 'w, 'x) server) option" where
  "split_Read cd core = (\<lambda>(read_done, st).
     if read_done then Some (None, read_done, st) else on_server (body_Read cd core) (True, st))"

definition split_Write :: "('r, 'w) codec \<Rightarrow> ('r, 'w, 'x) grpc_core \<Rightarrow> 'w \<Rightarrow> WriteOptions \<Rightarrow> bool \<times> ('r, 'w, 'x) server \<Rightarrow>
    (bool \<times> bool \<times> ('r, 'w, 'x) server) option" where
  "split_Write cd core response options = (\<lambda>(read_done, st).
     if \<not> read_done then Some (False, read_done, st) else on_server (body_Write cd core response options) (read_done, st))"

definition ServerSplitStreamer :: "('r, 'w) codec \<Rightarrow> ('r, 'w, 'x) grpc_core \<Rightarrow> (bool, 'r, 'w, 'x) streamer" where
  "ServerSplitStreamer cd core =
     \<lparr>str_SendInitialMetadata = on_server_void (body_SendInitialMetadata cd core),
      str_Read = split_Read cd core, str_Write = split_Write cd core\<rparr>"

text \<open>A reader has no \<open>Write\<close> and a writer no \<open>Read\<close>: a service cannot call them.\<close>

definition ServerReader :: "('r, 'w) codec \<Rightarrow> ('r, 'w, 'x) grpc_core \<Rightarrow> (unit, 'r, 'w, 'x) streamer" where
  "ServerReader cd core =
     \<lparr>str_SendInitialMetadata = on_server_void (ServerReader_SendInitialMetadata cd core),
      str_Read = on_server (ServerReader_Read cd core), str_Write = (\<lambda>_ _ _. None)\<rparr>"

definition ServerWriter :: "('r, 'w) codec \<Rightarrow> ('r, 'w, 'x) grpc_core \<Rightarrow> (unit, 'r, 'w, 'x) streamer" where
  "ServerWriter cd core =
     \<lparr>str_SendInitialMetadata = on_server_void (ServerWriter_SendInitialMetadata cd core),
      str_Read = (\<lambda>_. None), str_Write = (\<lambda>msg options. on_server (ServerWriter_Write cd core msg options))\<rparr>"

section \<open>Functions of a service\<close>

datatype ('r, 'w, 'a) service = Return 'a | Throw
  | Do_SendInitialMetadata "('r, 'w, 'a) service"
  | Do_Read "'r option \<Rightarrow> ('r, 'w, 'a) service"
  | Do_Write 'w WriteOptions "bool \<Rightarrow> ('r, 'w, 'a) service"

text \<open>The second result is the trace of the calls of \<open>Write\<close>, with the streamer's members at the time of the call.\<close>

primrec run_service :: "('s, 'r, 'w, 'x) streamer \<Rightarrow> ('r, 'w, 'a) service \<Rightarrow> 's \<times> ('r, 'w, 'x) server \<Rightarrow>
    ('a option \<times> ('s \<times> 'w \<times> WriteOptions) list \<times> 's \<times> ('r, 'w, 'x) server) option" where
  "run_service str (Return a) st = Some (Some a, [], st)"
| "run_service str Throw st = Some (None, [], st)"
| "run_service str (Do_SendInitialMetadata k) st = do {
     st \<leftarrow> str_SendInitialMetadata str st;
     run_service str k st }"
| "run_service str (Do_Read k) st = do {
     (msg, st) \<leftarrow> str_Read str st;
     run_service str (k msg) st }"
| "run_service str (Do_Write msg options k) st = do {
     (ok, st') \<leftarrow> str_Write str msg options st;
     (a, ws, st'') \<leftarrow> run_service str (k ok) st';
     Some (a, (fst st, msg, options) # ws, st'') }"

definition unexpected_error :: Status where
  "unexpected_error = Status_with GRPC_STATUS_UNKNOWN ''Unexpected error in RPC handling''"

definition CatchingFunctionHandler :: "Status option \<Rightarrow> Status" where
  "CatchingFunctionHandler r = (case r of Some status \<Rightarrow> status | None \<Rightarrow> unexpected_error)"

section \<open>Method handlers\<close>

definition with_status :: "('r, 'w) server_context \<Rightarrow> Status \<Rightarrow> ('r, 'w) call_op_set \<Rightarrow> ('r, 'w) call_op_set" where
  "with_status ctx status = on_ops (on_server_send_status (sss_ServerSendStatus (ctx_trailing_metadata ctx) status))"

definition rpc_RunHandler :: "('r, 'w) codec \<Rightarrow> ('r, 'w, 'x) grpc_core \<Rightarrow> ('r \<Rightarrow> Status option \<times> 'w) \<Rightarrow> 'r \<Rightarrow> 'w \<Rightarrow> Status \<Rightarrow>
    ('r, 'w, 'x) server \<Rightarrow> ('r, 'w, 'x) server option" where
  "rpc_RunHandler cd core func request rsp status st = do {
     let ctx = srv_ctx st;
     let (status, rsp) = (if Status_ok status then map_prod CatchingFunctionHandler id (func request) else (status, rsp));
     _ \<leftarrow> GOOGLE_DCHECK (\<not> ctx_sent_initial_metadata ctx);
     let ops = send_metadata_of ctx (CallOpSet [Send_initial_metadata CallOpSendInitialMetadata, Send_message CallOpSendMessage,
       Server_send_status CallOpServerSendStatus]);
     let (status, ops) = (if Status_ok status then set_SendMessagePtr cd rsp WriteOptions_new ops else (status, ops));
     let ops = with_status ctx status ops;
     (ops, call) \<leftarrow> PerformOps cd core local_tag ops (srv_call st);
     (_, _, call) \<leftarrow> Pluck cd core local_tag ops call;
     Some (st\<lparr>srv_call := call\<rparr>) }"

definition rpc_Deserialize :: "('r, 'w) codec \<Rightarrow> byte list \<Rightarrow> 'r option \<times> Status" where
  "rpc_Deserialize cd req =
     (let (status, request) = codec_Deserialize cd req in (if Status_ok status then Some request else None, status))"

definition client_streaming_RunHandler :: "('r, 'w) codec \<Rightarrow> ('r, 'w, 'x) grpc_core \<Rightarrow> ('r, 'w, Status \<times> 'w) service \<Rightarrow>
    'w \<Rightarrow> ('r, 'w, 'x) server \<Rightarrow> ('r, 'w, 'x) server option" where
  "client_streaming_RunHandler cd core func rsp st = do {
     (r, _, _, st) \<leftarrow> run_service (ServerReader cd core) func ((), st);
     let ctx = srv_ctx st;
     let status = CatchingFunctionHandler (map_option fst r);
     let rsp = (case r of Some (_, w) \<Rightarrow> w | None \<Rightarrow> rsp);
     let ops = CallOpSet [Send_initial_metadata CallOpSendInitialMetadata, Send_message CallOpSendMessage,
       Server_send_status CallOpServerSendStatus];
     let ops = (if \<not> ctx_sent_initial_metadata ctx then send_metadata_of ctx ops else ops);
     let (status, ops) = (if Status_ok status then set_SendMessagePtr cd rsp WriteOptions_new ops else (status, ops));
     let ops = with_status ctx status ops;
     (ops, call) \<leftarrow> PerformOps cd core local_tag ops (srv_call st);
     (_, _, call) \<leftarrow> Pluck cd core local_tag ops call;
     Some (st\<lparr>srv_call := call\<rparr>) }"

text \<open>The end of the handlers of streams: the status goes out before a held-back message is awaited.\<close>

definition finish_stream :: "('r, 'w) codec \<Rightarrow> ('r, 'w, 'x) grpc_core \<Rightarrow> ('r, 'w) call_op_set \<Rightarrow> ('r, 'w, 'x) server \<Rightarrow>
    ('r, 'w, 'x) server option" where
  "finish_stream cd core ops st = do {
     let ctx = srv_ctx st;
     (ops, call) \<leftarrow> PerformOps cd core local_tag ops (srv_call st);
     (ctx, call) \<leftarrow> (if ctx_has_pending_ops ctx then do {
         (_, pending, call) \<leftarrow> Pluck cd core pending_tag (ctx_pending_ops ctx) call;
         Some (ctx\<lparr>ctx_pending_ops := pending\<rparr>, call) }
       else Some (ctx, call));
     (_, _, call) \<leftarrow> Pluck cd core local_tag ops call;
     Some \<lparr>srv_ctx = ctx, srv_call = call\<rparr> }"

definition server_streaming_RunHandler :: "('r, 'w) codec \<Rightarrow> ('r, 'w, 'x) grpc_core \<Rightarrow> ('r \<Rightarrow> ('r, 'w, Status) service) \<Rightarrow> 'r \<Rightarrow> Status \<Rightarrow>
    ('r, 'w, 'x) server \<Rightarrow> ('r, 'w, 'x) server option" where
  "server_streaming_RunHandler cd core func request status st = do {
     (status, st) \<leftarrow> (if Status_ok status then do {
         (r, _, _, st) \<leftarrow> run_service (ServerWriter cd core) (func request) ((), st);
         Some (CatchingFunctionHandler r, st) }
       else Some (status, st));
     let ctx = srv_ctx st;
     let ops = CallOpSet [Send_initial_metadata CallOpSendInitialMetadata, Server_send_status CallOpServerSendStatus];
     let ops = (if \<not> ctx_sent_initial_metadata ctx then send_metadata_of ctx ops else ops);
     finish_stream cd core (with_status ctx status ops) st }"

definition server_streaming_Deserialize :: "('r, 'w) codec \<Rightarrow> byte list \<Rightarrow> 'r option \<times> Status" where
  "server_streaming_Deserialize cd req =
     (let (status, request) = codec_Deserialize cd req in (if Status_ok status then Some request else None, status))"

definition no_response :: Status where
  "no_response = Status_with GRPC_STATUS_INTERNAL ''Service did not provide response message''"

definition bidi_RunHandler :: "('r, 'w) codec \<Rightarrow> ('r, 'w, 'x) grpc_core \<Rightarrow> ('s, 'r, 'w, 'x) streamer \<Rightarrow> 's \<Rightarrow> bool \<Rightarrow>
    ('r, 'w, Status) service \<Rightarrow> ('r, 'w, 'x) server \<Rightarrow> (('s \<times> 'w \<times> WriteOptions) list \<times> ('r, 'w, 'x) server) option" where
  "bidi_RunHandler cd core str stream write_needed func st = do {
     (r, ws, _, st) \<leftarrow> run_service str func (stream, st);
     let ctx = srv_ctx st;
     let status = CatchingFunctionHandler r;
     let ops = CallOpSet [Send_initial_metadata CallOpSendInitialMetadata, Server_send_status CallOpServerSendStatus];
     let (ops, status) = (if \<not> ctx_sent_initial_metadata ctx
       then (send_metadata_of ctx ops, if write_needed \<and> Status_ok status then no_response else status)
       else (ops, status));
     st \<leftarrow> finish_stream cd core (with_status ctx status ops) st;
     Some (ws, st) }"

definition BidiStreamingHandler :: "('r, 'w) codec \<Rightarrow> ('r, 'w, 'x) grpc_core \<Rightarrow> ('r, 'w, Status) service \<Rightarrow> ('r, 'w, 'x) server \<Rightarrow>
    ((unit \<times> 'w \<times> WriteOptions) list \<times> ('r, 'w, 'x) server) option" where
  "BidiStreamingHandler cd core = bidi_RunHandler cd core (ServerReaderWriter cd core) () False"

definition StreamedUnaryHandler :: "('r, 'w) codec \<Rightarrow> ('r, 'w, 'x) grpc_core \<Rightarrow> ('r, 'w, Status) service \<Rightarrow> ('r, 'w, 'x) server \<Rightarrow>
    ((unary_flags \<times> 'w \<times> WriteOptions) list \<times> ('r, 'w, 'x) server) option" where
  "StreamedUnaryHandler cd core = bidi_RunHandler cd core (ServerUnaryStreamer cd core) ServerUnaryStreamer_new True"

definition SplitServerStreamingHandler :: "('r, 'w) codec \<Rightarrow> ('r, 'w, 'x) grpc_core \<Rightarrow> ('r, 'w, Status) service \<Rightarrow> ('r, 'w, 'x) server \<Rightarrow>
    ((bool \<times> 'w \<times> WriteOptions) list \<times> ('r, 'w, 'x) server) option" where
  "SplitServerStreamingHandler cd core = bidi_RunHandler cd core (ServerSplitStreamer cd core) False False"

definition error_FillOps :: "StatusCode \<Rightarrow> ('r, 'w) server_context \<Rightarrow> ('r, 'w) call_op_set \<Rightarrow> ('r, 'w) call_op_set \<times> ('r, 'w) server_context" where
  "error_FillOps code ctx ops =
     (let status = Status_with code '''';
        (ops, ctx) = (if \<not> ctx_sent_initial_metadata ctx
          then (send_metadata_of ctx ops, ctx\<lparr>ctx_sent_initial_metadata := True\<rparr>) else (ops, ctx))
      in (with_status ctx status ops, ctx))"

definition error_RunHandler :: "('r, 'w) codec \<Rightarrow> ('r, 'w, 'x) grpc_core \<Rightarrow> StatusCode \<Rightarrow> ('r, 'w, 'x) server \<Rightarrow> ('r, 'w, 'x) server option" where
  "error_RunHandler cd core code st = do {
     let (ops, ctx) = error_FillOps code (srv_ctx st)
       (CallOpSet [Send_initial_metadata CallOpSendInitialMetadata, Server_send_status CallOpServerSendStatus]);
     (ops, call) \<leftarrow> PerformOps cd core local_tag ops (srv_call st);
     (_, _, call) \<leftarrow> Pluck cd core local_tag ops call;
     Some \<lparr>srv_ctx = ctx, srv_call = call\<rparr> }"

end
