(* ===== verification/Grpc_Protocol.thy ===== *)
theory Grpc_Protocol
  imports Grpc_Streams
begin

text \<open>
  What the handlers of \<open>method_handler_impl.h\<close> send: for every function of a service that uses its
  stream as documented, the initial metadata once and first, the messages in the order they were
  written, the status once and last, and every batch completes.

  The locale \<open>server_streamer\<close> is what a handler relies on of the stream it gives to the service. It is
  interpreted on \<open>ServerReaderWriter\<close>, \<open>ServerUnaryStreamer\<close> and \<open>ServerSplitStreamer\<close>.
\<close>

section \<open>What the core accepts\<close>

text \<open>
  The order of the operations that send, and that no two operations of the same kind are in flight,
  as \<open>grpc/grpc.h\<close> documents for \<open>grpc_call_start_batch\<close>.
\<close>

datatype phase = Idle | Opened | Closed

fun next_phase :: "phase \<Rightarrow> grpc_op \<Rightarrow> phase option" where
  "next_phase p GRPC_OP_RECV_MESSAGE = Some p"
| "next_phase Idle (GRPC_OP_SEND_INITIAL_METADATA f m l) = Some Opened"
| "next_phase Opened (GRPC_OP_SEND_MESSAGE f b) = Some Opened"
| "next_phase Opened (GRPC_OP_SEND_STATUS_FROM_SERVER m c d) = Some Closed"
| "next_phase _ _ = None"

primrec phases :: "phase \<Rightarrow> grpc_op list \<Rightarrow> phase option" where
  "phases p [] = Some p"
| "phases p (op # ops) = Option.bind (next_phase p op) (\<lambda>p. phases p ops)"

primrec op_kind :: "grpc_op \<Rightarrow> nat" where
  "op_kind (GRPC_OP_SEND_INITIAL_METADATA f m l) = 0"
| "op_kind (GRPC_OP_SEND_MESSAGE f b) = 1"
| "op_kind GRPC_OP_SEND_CLOSE_FROM_CLIENT = 2"
| "op_kind (GRPC_OP_SEND_STATUS_FROM_SERVER m c d) = 3"
| "op_kind GRPC_OP_RECV_INITIAL_METADATA = 4"
| "op_kind GRPC_OP_RECV_MESSAGE = 5"
| "op_kind GRPC_OP_RECV_STATUS_ON_CLIENT = 6"

definition legal_batch :: "'x grpc_call \<Rightarrow> grpc_op list \<Rightarrow> bool" where
  "legal_batch call ops \<longleftrightarrow> phases Idle (call_history call @ ops) \<noteq> None \<and>
     list_all (\<lambda>op. list_all (\<lambda>b. op_kind op \<notin> set (map op_kind (snd b))) (call_outstanding call)) ops"

definition core_laws :: "('r, 'w, 'x) grpc_core \<Rightarrow> bool" where
  "core_laws core \<longleftrightarrow> (\<forall>f s. core_PerformOpsOnCall core f s = f s) \<and>
     (\<forall>tag ops call. legal_batch call ops \<longrightarrow> fst (core_start_batch core tag ops call))"

definition codec_total :: "('r, 'w) codec \<Rightarrow> bool" where
  "codec_total cd \<longleftrightarrow> (\<forall>m. Status_ok (fst (codec_Serialize cd m)))"

section \<open>One batch\<close>

lemma phases_append: "phases p (xs @ ys) = Option.bind (phases p xs) (\<lambda>p. phases p ys)"
  by (induction xs arbitrary: p) (simp_all split: Option.bind_split)

lemma PerformOps_ok:
  assumes "core_laws core" "AddOps cd (cos_ops s) = Some (gs, ops)" "legal_batch call gs"
  shows "\<exists>x. PerformOps cd core tag s call = Some (s\<lparr>cos_ops := ops, cos_done_intercepting := False\<rparr>,
    call\<lparr>call_core := x, call_history := call_history call @ gs, call_outstanding := call_outstanding call @ [(tag, gs)]\<rparr>)"
proof -
  obtain ok x where x: "core_start_batch core tag gs call = (ok, x)" by (cases "core_start_batch core tag gs call")
  then have "ok" using assms(1,3) unfolding core_laws_def by (metis fst_conv)
  then show ?thesis
    using assms(1,2) x by (auto simp: PerformOps_def core_laws_def FillOps_def ContinueFillOpsAfterInterception_def start_batch_def)
qed

definition finalized :: "('r, 'w) codec \<Rightarrow> core_event \<Rightarrow> ('r, 'w) call_op_set \<Rightarrow> (bool \<times> bool) \<times> ('r, 'w) call_op_set" where
  "finalized cd ev s = FinalizeResult cd (ev_success ev) (s\<lparr>cos_ops := map (core_fills ev) (cos_ops s)\<rparr>)"

lemma Pluck_ok:
  assumes "list_ex (\<lambda>b. fst b = tag) (call_outstanding call)"
  shows "\<exists>ev x. Pluck cd core tag s call = Some (snd (fst (finalized cd ev s)), snd (finalized cd ev s),
    call\<lparr>call_core := x, call_outstanding := complete_batch tag (call_outstanding call)\<rparr>)"
proof -
  obtain ev x where ev: "core_pluck core tag (call_core call) = (ev, x)" by (cases "core_pluck core tag (call_core call)")
  have "fst (fst (finalized cd ev s))"
    by (simp add: finalized_def FinalizeResult_def Let_def split: prod.split)
  then obtain ok t where "finalized cd ev s = ((True, ok), t)" by (cases "finalized cd ev s") auto
  then have "Pluck cd core tag s call = Some (ok, t, call\<lparr>call_core := x, call_outstanding := complete_batch tag (call_outstanding call)\<rparr>)"
    using assms ev by (subst Pluck.simps) (simp add: finalized_def Let_def)
  then show ?thesis using \<open>finalized cd ev s = ((True, ok), t)\<close> by (intro exI [of _ ev] exI [of _ x]) simp
qed

definition sends :: "grpc_op list \<Rightarrow> grpc_op list" where
  "sends ops = filter (\<lambda>op. op \<noteq> GRPC_OP_RECV_MESSAGE) ops"

lemma sends_append [simp]: "sends (xs @ ys) = sends xs @ sends ys"
  by (simp add: sends_def)

lemma sends_simps [simp]: "sends [] = []" "op_kind op \<noteq> 5 \<Longrightarrow> sends (op # ops) = op # sends ops"
  "sends (GRPC_OP_RECV_MESSAGE # ops) = sends ops"
  by (auto simp: sends_def)

lemma phases_sends: "phases p ops = phases p (sends ops)"
proof (induction ops arbitrary: p)
  case (Cons op ops)
  then show ?case by (cases op) (simp_all cong: Option.bind_cong)
qed simp

section \<open>The state of the server between two calls of the service\<close>

definition metadata_op :: "('r, 'w) server_context \<Rightarrow> grpc_op" where
  "metadata_op ctx = GRPC_OP_SEND_INITIAL_METADATA 0 (ctx_initial_metadata ctx)
     (if ctx_compression_level_set ctx then Some (ctx_compression_level ctx) else None)"

definition write_op :: "('r, 'w) codec \<Rightarrow> 'w \<times> WriteOptions \<Rightarrow> grpc_op" where
  "write_op cd = (\<lambda>(m, o'). GRPC_OP_SEND_MESSAGE (wo_flags (if wo_last_message o' then set_buffer_hint o' else o')) (snd (codec_Serialize cd m)))"

definition status_op :: "('r, 'w) server_context \<Rightarrow> Status \<Rightarrow> grpc_op" where
  "status_op ctx status = GRPC_OP_SEND_STATUS_FROM_SERVER (FillMetadataArray (ctx_trailing_metadata ctx) (st_details status)) (st_code status)
     (if st_message status = '''' then None else Some (st_message status))"

definition idle_pending :: "('r, 'w) call_op_set \<Rightarrow> bool" where
  "idle_pending s \<longleftrightarrow> (\<exists>i m. cos_ops s = [Send_initial_metadata i, Send_message m] \<and> \<not> sim_send i \<and> \<not> sim_hijacked i \<and>
     som_msg m = None \<and> som_send_buf m = None \<and> \<not> som_hijacked m)"

definition message_op :: "grpc_op \<Rightarrow> bool" where
  "message_op op \<longleftrightarrow> op_kind op = 1"

definition serving :: "('r, 'w, 'x) server \<Rightarrow> grpc_op list \<Rightarrow> bool" where
  "serving st ms \<longleftrightarrow> (let ctx = srv_ctx st; call = srv_call st in
     sends (call_history call) = (if ctx_sent_initial_metadata ctx then metadata_op ctx # ms else []) \<and>
     (\<not> ctx_sent_initial_metadata ctx \<longrightarrow> ms = []) \<and> list_all message_op ms \<and>
     (if ctx_has_pending_ops ctx
      then ctx_sent_initial_metadata ctx \<and> (\<exists>gs. call_outstanding call = [(pending_tag, gs)] \<and> set (map op_kind gs) \<subseteq> {0, 1})
      else call_outstanding call = [] \<and> idle_pending (ctx_pending_ops ctx)))"

definition same_data :: "('r, 'w) server_context \<Rightarrow> ('r, 'w) server_context \<Rightarrow> bool" where
  "same_data c d \<longleftrightarrow> ctx_initial_metadata d = ctx_initial_metadata c \<and> ctx_trailing_metadata d = ctx_trailing_metadata c \<and>
     ctx_compression_level_set d = ctx_compression_level_set c \<and> ctx_compression_level d = ctx_compression_level c"

lemma same_data_trans: "same_data c d \<Longrightarrow> same_data d e \<Longrightarrow> same_data c e"
  by (simp add: same_data_def)

lemma same_data_ops: "same_data c d \<Longrightarrow> metadata_op d = metadata_op c \<and> status_op d = status_op c"
  by (auto simp: same_data_def metadata_op_def status_op_def)

lemma phases_messages: "list_all message_op ms \<Longrightarrow> phases Opened ms = Some Opened"
proof (induction ms)
  case (Cons m ms)
  then show ?case by (cases m) (simp_all add: message_op_def)
qed simp

lemma serving_phase:
  "serving st ms \<Longrightarrow> phases Idle (call_history (srv_call st)) = Some (if ctx_sent_initial_metadata (srv_ctx st) then Opened else Idle)"
  by (subst phases_sends) (auto simp: serving_def Let_def metadata_op_def phases_messages)

section \<open>The calls of a stream\<close>

lemma complete_only [simp]: "complete_batch tag [(tag, gs)] = []"
  by (simp add: complete_batch_def)

lemma complete_second [simp]: "complete_batch local_tag [(pending_tag, gs), (local_tag, hs)] = [(pending_tag, gs)]"
  "complete_batch pending_tag [(pending_tag, gs), (local_tag, hs)] = [(local_tag, hs)]"
  by (simp_all add: complete_batch_def local_tag_def pending_tag_def)

text \<open>A batch of a set on the stack, plucked before anything else happens.\<close>

lemma local_batch:
  assumes "core_laws core" "AddOps cd (cos_ops s) = Some (gs, ops)" "legal_batch call gs"
    and "call_outstanding call = [] \<or> (\<exists>hs. call_outstanding call = [(pending_tag, hs)])"
  obtains s1 c1 ok s2 x where "PerformOps cd core local_tag s call = Some (s1, c1)"
    "Pluck cd core local_tag s1 c1 = Some (ok, s2, call\<lparr>call_core := x, call_history := call_history call @ gs\<rparr>)"
proof -
  let ?call = "\<lambda>x. call\<lparr>call_core := x, call_history := call_history call @ gs, call_outstanding := call_outstanding call @ [(local_tag, gs)]\<rparr>"
  obtain s1 x where x: "PerformOps cd core local_tag s call = Some (s1, ?call x)" using PerformOps_ok [OF assms(1-3)] by blast
  have out: "complete_batch local_tag (call_outstanding call @ [(local_tag, gs)]) = call_outstanding call"
    using assms(4) by auto
  obtain ok s2 y where "Pluck cd core local_tag s1 (?call x) =
      Some (ok, s2, (?call x)\<lparr>call_core := y, call_outstanding := complete_batch local_tag (call_outstanding (?call x))\<rparr>)"
    using Pluck_ok [of local_tag "?call x" cd core s1] by auto
  then have "Pluck cd core local_tag s1 (?call x) = Some (ok, s2, call\<lparr>call_core := y, call_history := call_history call @ gs\<rparr>)"
    using out by (cases call) simp
  then show thesis using x that by blast
qed

lemma serving_outstanding: "serving st ms \<Longrightarrow> call_outstanding (srv_call st) = [] \<or> (\<exists>hs. call_outstanding (srv_call st) = [(pending_tag, hs)])"
  by (auto simp: serving_def Let_def split: if_splits)


lemmas metadata_simps = send_metadata_of_def on_ops_def CallOpSet_def CallOpSendInitialMetadata_def sim_SendInitialMetadata_def
  sim_set_compression_level_def sim_AddOp_def FillMetadataArray_def metadata_op_def initial_metadata_flags_def Let_def

lemmas status_simps = with_status_def CallOpServerSendStatus_def sss_ServerSendStatus_def sss_AddOp_def status_op_def

lemma metadata_batch:
  "\<exists>ops. AddOps cd (cos_ops (send_metadata_of ctx (CallOpSet [Send_initial_metadata CallOpSendInitialMetadata]))) = Some ([metadata_op ctx], ops)"
  by (simp add: metadata_simps)

lemma status_batch:
  "\<exists>ops. AddOps cd (cos_ops (with_status ctx status (send_metadata_of ctx
      (CallOpSet [Send_initial_metadata CallOpSendInitialMetadata, Server_send_status CallOpServerSendStatus])))) =
    Some ([metadata_op ctx, status_op ctx status], ops)"
  "\<exists>ops. AddOps cd (cos_ops (with_status ctx status
      (CallOpSet [Send_initial_metadata CallOpSendInitialMetadata, Server_send_status CallOpServerSendStatus]))) =
    Some ([status_op ctx status], ops)"
  by (simp_all add: metadata_simps status_simps)

lemma read_batch:
  "\<exists>ops. AddOps cd (cos_ops (CallOpSet [Recv_message (rmo_RecvMessage CallOpRecvMessage)])) = Some ([GRPC_OP_RECV_MESSAGE], ops)"
  by (simp add: CallOpSet_def rmo_RecvMessage_def CallOpRecvMessage_def rmo_AddOp_def)

text \<open>The set of the context between two writes.\<close>

lemma write_batch:
  assumes "idle_pending s" "codec_total cd"
  shows "\<exists>s1. set_SendMessagePtr cd m o' s = (Status_new, s1) \<and>
    (\<exists>ops. AddOps cd (cos_ops s1) = Some ([GRPC_OP_SEND_MESSAGE (wo_flags o') (snd (codec_Serialize cd m))], ops) \<and>
      (\<forall>t ev. cos_ops t = ops \<and> \<not> cos_done_intercepting t \<longrightarrow> idle_pending (snd (finalized cd ev t)))) \<and>
    (\<exists>ops. AddOps cd (cos_ops (send_metadata_of ctx s1)) =
        Some ([metadata_op ctx, GRPC_OP_SEND_MESSAGE (wo_flags o') (snd (codec_Serialize cd m))], ops) \<and>
      (\<forall>t ev. cos_ops t = ops \<and> \<not> cos_done_intercepting t \<longrightarrow> idle_pending (snd (finalized cd ev t))))"
proof -
  obtain i msg where s: "cos_ops s = [Send_initial_metadata i, Send_message msg]" "\<not> sim_send i" "\<not> sim_hijacked i"
      "som_msg msg = None" "som_send_buf msg = None" "\<not> som_hijacked msg"
    using assms(1) by (auto simp: idle_pending_def)
  obtain r b where r: "codec_Serialize cd m = (r, b)" "Status_ok r"
    using assms(2) by (cases "codec_Serialize cd m") (auto simp: codec_total_def dest: spec [of _ m])
  let ?msg = "msg\<lparr>som_msg := Some m, som_write_options := WriteOptions_assign o' (som_write_options msg), som_serializer := True\<rparr>"
  have "set_SendMessagePtr cd m o' s = (Status_new, s\<lparr>cos_ops := [Send_initial_metadata i, Send_message ?msg]\<rparr>)"
    using s(1) by (simp add: set_SendMessagePtr_def som_SendMessagePtr_def som_SendMessage_def Let_def)
  moreover have "\<exists>msg'. som_AddOp cd ?msg = Some (Some (GRPC_OP_SEND_MESSAGE (wo_flags o') b), msg') \<and> \<not> som_hijacked msg'"
    using s(6) r by (simp add: som_AddOp_def som_serialize_def WriteOptions_assign_def)
  moreover have "idle_pending (snd (finalized cd ev t))"
    if "cos_ops t = [Send_initial_metadata i', Send_message msg']" "\<not> cos_done_intercepting t" "\<not> sim_hijacked i'" "\<not> som_hijacked msg'" for t ev i' msg'
    using that by (auto simp: finalized_def FinalizeResult_def Let_def idle_pending_def sim_FinishOp_def som_FinishOp_def
        som_SetFinishInterceptionHookPoint_def split: prod.splits if_splits)
  ultimately show ?thesis
    using s(2,3) r by (auto simp: metadata_simps)
qed

lemma last_message_hint [simp]: "wo_last_message (set_buffer_hint o') = wo_last_message o'"
  by (simp add: set_buffer_hint_def SetBit_def)

lemma body_SendInitialMetadata_ok:
  assumes laws: "core_laws core" and sv: "serving st ms" and "\<not> ctx_sent_initial_metadata (srv_ctx st)"
  shows "\<exists>st'. body_SendInitialMetadata cd core st = Some st' \<and> serving st' ms \<and> same_data (srv_ctx st) (srv_ctx st') \<and>
    ctx_sent_initial_metadata (srv_ctx st') \<and> \<not> ctx_has_pending_ops (srv_ctx st')"
proof -
  have ms: "ms = []" "sends (call_history (srv_call st)) = []" and idle: "\<not> ctx_has_pending_ops (srv_ctx st)" "call_outstanding (srv_call st) = []"
    using sv assms(3) by (auto simp: serving_def Let_def split: if_splits)
  let ?s = "send_metadata_of (srv_ctx st) (CallOpSet [Send_initial_metadata CallOpSendInitialMetadata])"
  obtain ops where ops: "AddOps cd (cos_ops ?s) = Some ([metadata_op (srv_ctx st)], ops)" using metadata_batch by blast
  have legal: "legal_batch (srv_call st) [metadata_op (srv_ctx st)]"
    using serving_phase [OF sv] assms(3) idle(2) by (simp add: legal_batch_def phases_append metadata_op_def)
  obtain s1 c1 ok s2 x where "PerformOps cd core local_tag ?s (srv_call st) = Some (s1, c1)"
      "Pluck cd core local_tag s1 c1 = Some (ok, s2, (srv_call st)\<lparr>call_core := x, call_history := call_history (srv_call st) @ [metadata_op (srv_ctx st)]\<rparr>)"
    by (rule local_batch [OF laws ops legal serving_outstanding [OF sv]])
  then have "body_SendInitialMetadata cd core st = Some (st\<lparr>srv_ctx := (srv_ctx st)\<lparr>ctx_sent_initial_metadata := True\<rparr>,
      srv_call := (srv_call st)\<lparr>call_core := x, call_history := call_history (srv_call st) @ [metadata_op (srv_ctx st)]\<rparr>\<rparr>)"
    using assms(3) by (simp add: body_SendInitialMetadata_def Let_def)
  then show ?thesis
    using sv ms idle by (auto simp: serving_def Let_def same_data_def metadata_op_def)
qed

lemma body_Read_ok:
  assumes laws: "core_laws core" and sv: "serving st ms"
  shows "\<exists>r st'. body_Read cd core st = Some (r, st') \<and> serving st' ms \<and> srv_ctx st' = srv_ctx st"
proof -
  let ?s = "CallOpSet [Recv_message (rmo_RecvMessage CallOpRecvMessage)]"
  obtain ops where ops: "AddOps cd (cos_ops ?s) = Some ([GRPC_OP_RECV_MESSAGE], ops)" using read_batch by blast
  have legal: "legal_batch (srv_call st) [GRPC_OP_RECV_MESSAGE]"
    using serving_phase [OF sv] sv by (auto simp: legal_batch_def phases_append serving_def Let_def split: if_splits)
  obtain s1 c1 ok s2 x where "PerformOps cd core local_tag ?s (srv_call st) = Some (s1, c1)"
      "Pluck cd core local_tag s1 c1 = Some (ok, s2, (srv_call st)\<lparr>call_core := x, call_history := call_history (srv_call st) @ [GRPC_OP_RECV_MESSAGE]\<rparr>)"
    by (rule local_batch [OF laws ops legal serving_outstanding [OF sv]])
  then have "\<exists>r. body_Read cd core st = Some (r, st\<lparr>srv_call := (srv_call st)\<lparr>call_core := x, call_history := call_history (srv_call st) @ [GRPC_OP_RECV_MESSAGE]\<rparr>\<rparr>)"
    (is "\<exists>r. _ = Some (r, ?st)")
    by (cases "received (cos_ops s2)") (simp add: body_Read_def Let_def)
  moreover have "serving ?st ms" using sv by (auto simp: serving_def Let_def split: if_splits)
  moreover have "srv_ctx ?st = srv_ctx st" by simp
  ultimately show ?thesis by blast
qed

lemma body_Write_ok:
  assumes laws: "core_laws core" "codec_total cd" and sv: "serving st ms" and "\<not> ctx_has_pending_ops (srv_ctx st)"
  shows "\<exists>b st'. body_Write cd core m o' st = Some (b, st') \<and> serving st' (ms @ [write_op cd (m, o')]) \<and> same_data (srv_ctx st) (srv_ctx st') \<and>
    ctx_sent_initial_metadata (srv_ctx st') \<and> ctx_has_pending_ops (srv_ctx st') = wo_last_message o'"
proof -
  let ?o = "if wo_last_message o' then set_buffer_hint o' else o'" and ?ctx = "srv_ctx st" and ?call = "srv_call st"
  let ?sent = "ctx_sent_initial_metadata ?ctx"
  have idle: "idle_pending (ctx_pending_ops ?ctx)" "call_outstanding ?call = []" using sv assms(4) by (simp_all add: serving_def Let_def)
  obtain s1 where s1: "set_SendMessagePtr cd m ?o (ctx_pending_ops ?ctx) = (Status_new, s1)"
      "\<exists>ops. AddOps cd (cos_ops s1) = Some ([write_op cd (m, o')], ops) \<and>
        (\<forall>t ev. cos_ops t = ops \<and> \<not> cos_done_intercepting t \<longrightarrow> idle_pending (snd (finalized cd ev t)))"
      "\<exists>ops. AddOps cd (cos_ops (send_metadata_of ?ctx s1)) = Some ([metadata_op ?ctx, write_op cd (m, o')], ops) \<and>
        (\<forall>t ev. cos_ops t = ops \<and> \<not> cos_done_intercepting t \<longrightarrow> idle_pending (snd (finalized cd ev t)))"
    using write_batch [OF idle(1) laws(2), of m ?o ?ctx] by (auto simp: write_op_def)
  define s2 where "s2 = (if ?sent then s1 else send_metadata_of ?ctx s1)"
  define gs where "gs = (if ?sent then [] else [metadata_op ?ctx]) @ [write_op cd (m, o')]"
  obtain ops where ops: "AddOps cd (cos_ops s2) = Some (gs, ops)"
      "\<And>t ev. cos_ops t = ops \<Longrightarrow> \<not> cos_done_intercepting t \<Longrightarrow> idle_pending (snd (finalized cd ev t))"
    using s1(2,3) unfolding s2_def gs_def by (cases ?sent) auto
  have legal: "legal_batch ?call gs"
    using serving_phase [OF sv] idle(2) by (simp add: legal_batch_def phases_append gs_def metadata_op_def write_op_def)
  have kinds: "set (map op_kind gs) \<subseteq> {0, 1}" "sends gs = gs" by (simp_all add: gs_def metadata_op_def write_op_def)
  let ?s = "s2\<lparr>cos_ops := ops, cos_done_intercepting := False\<rparr>"
  obtain x where x: "PerformOps cd core pending_tag s2 ?call = Some (?s,
      ?call\<lparr>call_core := x, call_history := call_history ?call @ gs, call_outstanding := [(pending_tag, gs)]\<rparr>)" (is "_ = Some (?s, ?c)")
    using PerformOps_ok [OF laws(1) ops(1) legal, of pending_tag] idle(2) by auto
  define d where "d = (if ?sent then ?ctx else ?ctx\<lparr>ctx_sent_initial_metadata := True\<rparr>)"
  have d: "ctx_sent_initial_metadata d" "same_data ?ctx d" by (simp_all add: d_def same_data_def)
  have body: "body_Write cd core m o' st = do {
      (ops, call) \<leftarrow> PerformOps cd core pending_tag s2 ?call;
      if wo_last_message o' then Some (True, \<lparr>srv_ctx = d\<lparr>ctx_pending_ops := ops, ctx_has_pending_ops := True\<rparr>, srv_call = call\<rparr>)
      else do {
        (ok, ops, call) \<leftarrow> Pluck cd core pending_tag ops call;
        Some (ok, \<lparr>srv_ctx = d\<lparr>ctx_has_pending_ops := False, ctx_pending_ops := ops\<rparr>, srv_call = call\<rparr>) } }"
    using s1(1) by (cases ?sent) (simp_all add: d_def body_Write_def Let_def s2_def Status_new_def Status_ok_def)
  have hist: "sends (call_history ?call @ gs) = metadata_op ?ctx # ms @ [write_op cd (m, o')]"
    using sv kinds(2) by (auto simp: serving_def Let_def gs_def split: if_splits)
  have msgs: "list_all message_op (ms @ [write_op cd (m, o')])" using sv by (simp add: serving_def Let_def message_op_def write_op_def)
  show ?thesis
  proof (cases "wo_last_message o'")
    case True
    then have "body_Write cd core m o' st = Some (True, \<lparr>srv_ctx = d\<lparr>ctx_pending_ops := ?s, ctx_has_pending_ops := True\<rparr>, srv_call = ?c\<rparr>)"
      using x body by simp
    then show ?thesis using True hist msgs kinds(1) d by (auto simp: serving_def Let_def same_data_def metadata_op_def)
  next
    case False
    then obtain ok ev y where "Pluck cd core pending_tag ?s ?c =
        Some (ok, snd (finalized cd ev ?s), ?c\<lparr>call_core := y, call_outstanding := []\<rparr>)"
      using Pluck_ok [of pending_tag ?c cd core ?s] by auto
    then have "body_Write cd core m o' st = Some (ok, \<lparr>srv_ctx = d\<lparr>ctx_has_pending_ops := False, ctx_pending_ops := snd (finalized cd ev ?s)\<rparr>,
        srv_call = ?c\<lparr>call_core := y, call_outstanding := []\<rparr>\<rparr>)"
      using False x body by simp
    then show ?thesis using False hist msgs ops(2) [of ?s] d by (auto simp: serving_def Let_def same_data_def metadata_op_def)
  qed
qed

text \<open>The end of a handler: the status is sent, a held-back message is awaited.\<close>

lemma finish_stream_ok:
  assumes laws: "core_laws core" and sv: "serving st ms" and ops: "AddOps cd (cos_ops s) = Some (gs, ops)" and legal: "legal_batch (srv_call st) gs"
  shows "\<exists>st'. finish_stream cd core s st = Some st' \<and> call_outstanding (srv_call st') = [] \<and>
    call_history (srv_call st') = call_history (srv_call st) @ gs"
proof -
  let ?call = "srv_call st" and ?ctx = "srv_ctx st"
  obtain s1 x where p: "PerformOps cd core local_tag s ?call = Some (s1,
      ?call\<lparr>call_core := x, call_history := call_history ?call @ gs, call_outstanding := call_outstanding ?call @ [(local_tag, gs)]\<rparr>)"
    using PerformOps_ok [OF laws ops legal] by blast
  have last: "\<exists>ok s2 y. Pluck cd core local_tag s1 (?call\<lparr>call_core := x', call_history := h, call_outstanding := [(local_tag, gs)]\<rparr>) =
      Some (ok, s2, ?call\<lparr>call_core := y, call_history := h, call_outstanding := []\<rparr>)" for x' h
    using Pluck_ok [of local_tag "?call\<lparr>call_core := x', call_history := h, call_outstanding := [(local_tag, gs)]\<rparr>" cd core s1] by (cases ?call) auto
  show ?thesis
  proof (cases "ctx_has_pending_ops ?ctx")
    case False
    then have "call_outstanding ?call = []" using sv by (simp add: serving_def Let_def)
    then show ?thesis using p last [where x' = x and h = "call_history ?call @ gs"] False by (auto simp: finish_stream_def Let_def)
  next
    case True
    then obtain hs where hs: "call_outstanding ?call = [(pending_tag, hs)]" using sv by (auto simp: serving_def Let_def)
    obtain ok pend y where "Pluck cd core pending_tag (ctx_pending_ops ?ctx)
        (?call\<lparr>call_core := x, call_history := call_history ?call @ gs, call_outstanding := [(pending_tag, hs), (local_tag, gs)]\<rparr>) =
        Some (ok, pend, ?call\<lparr>call_core := y, call_history := call_history ?call @ gs, call_outstanding := [(local_tag, gs)]\<rparr>)"
      using Pluck_ok [of pending_tag "?call\<lparr>call_core := x, call_history := call_history ?call @ gs,
        call_outstanding := [(pending_tag, hs), (local_tag, gs)]\<rparr>" cd core "ctx_pending_ops ?ctx"] by (cases ?call) auto
    then show ?thesis using p hs last [where x' = y and h = "call_history ?call @ gs"] True by (auto simp: finish_stream_def Let_def)
  qed
qed

lemma status_ok:
  assumes laws: "core_laws core" and sv: "serving st ms"
  defines "s \<equiv> CallOpSet [Send_initial_metadata CallOpSendInitialMetadata, Server_send_status CallOpServerSendStatus]"
  shows "\<exists>st'. finish_stream cd core (with_status (srv_ctx st) status
      (if \<not> ctx_sent_initial_metadata (srv_ctx st) then send_metadata_of (srv_ctx st) s else s)) st = Some st' \<and>
    call_outstanding (srv_call st') = [] \<and> sends (call_history (srv_call st')) = metadata_op (srv_ctx st) # ms @ [status_op (srv_ctx st) status]"
proof -
  let ?ctx = "srv_ctx st" and ?sent = "ctx_sent_initial_metadata (srv_ctx st)"
  let ?gs = "(if ?sent then [] else [metadata_op ?ctx]) @ [status_op ?ctx status]"
  have legal: "legal_batch (srv_call st) ?gs"
    using serving_phase [OF sv] sv by (auto simp: legal_batch_def phases_append metadata_op_def status_op_def serving_def Let_def split: if_splits)
  obtain ops where "AddOps cd (cos_ops (with_status ?ctx status (if \<not> ?sent then send_metadata_of ?ctx s else s))) = Some (?gs, ops)"
    using status_batch [of cd ?ctx status] by (cases ?sent) (auto simp: s_def)
  from finish_stream_ok [OF laws sv this legal] show ?thesis
    using sv by (auto simp: serving_def Let_def metadata_op_def status_op_def split: if_splits)
qed

section \<open>Services that use their stream as documented\<close>

text \<open>
  The initial metadata is not sent by hand after it has gone out, and nothing is written after a
  message that was marked as the last. The arguments tell what may have happened so far.
\<close>

primrec polite :: "bool \<Rightarrow> bool \<Rightarrow> ('r, 'w, 'a) service \<Rightarrow> bool" where
  "polite sent last_written (Return a) = True"
| "polite sent last_written Throw = True"
| "polite sent last_written (Do_SendInitialMetadata k) = (\<not> sent \<and> polite True last_written k)"
| "polite sent last_written (Do_Read k) = (\<forall>msg. polite sent last_written (k msg))"
| "polite sent last_written (Do_Write m o' k) = (\<not> last_written \<and> (\<forall>ok. polite True (wo_last_message o') (k ok)))"

text \<open>
  What a handler relies on of a stream. \<open>taken\<close> tells from the streamer's members whether a write
  reaches the call; one that does not returns false and has no effect.
\<close>

locale server_streamer =
  fixes str :: "('r, 'w) codec \<Rightarrow> ('r, 'w, 'x) grpc_core \<Rightarrow> ('s, 'r, 'w, 'x) streamer" and taken :: "'s \<Rightarrow> bool"
  assumes send_law: "core_laws core \<Longrightarrow> serving st ms \<Longrightarrow> \<not> ctx_sent_initial_metadata (srv_ctx st) \<Longrightarrow>
      \<exists>st'. str_SendInitialMetadata (str cd core) (s, st) = Some (s, st') \<and> serving st' ms \<and> same_data (srv_ctx st) (srv_ctx st') \<and>
        ctx_sent_initial_metadata (srv_ctx st') \<and> \<not> ctx_has_pending_ops (srv_ctx st')"
    and read_law: "core_laws core \<Longrightarrow> serving st ms \<Longrightarrow>
      \<exists>r s' st'. str_Read (str cd core) (s, st) = Some (r, s', st') \<and> serving st' ms \<and> srv_ctx st' = srv_ctx st"
    and write_law: "core_laws core \<Longrightarrow> codec_total cd \<Longrightarrow> serving st ms \<Longrightarrow> \<not> ctx_has_pending_ops (srv_ctx st) \<Longrightarrow> taken s \<Longrightarrow>
      \<exists>b s' st'. str_Write (str cd core) m o' (s, st) = Some (b, s', st') \<and> serving st' (ms @ [write_op cd (m, o')]) \<and>
        same_data (srv_ctx st) (srv_ctx st') \<and> ctx_sent_initial_metadata (srv_ctx st') \<and>
        ctx_has_pending_ops (srv_ctx st') = wo_last_message o'"
    and refuse_law: "\<not> taken s \<Longrightarrow> str_Write (str cd core) m o' (s, st) = Some (False, s, st)"
begin

lemma run_service_ok:
  assumes laws: "core_laws core" "codec_total cd"
  assumes "serving st ms" "polite sent last_written func"
    "ctx_sent_initial_metadata (srv_ctx st) \<longrightarrow> sent" "ctx_has_pending_ops (srv_ctx st) \<longrightarrow> last_written"
  shows "\<exists>r ws s' st'. run_service (str cd core) func (s, st) = Some (r, ws, s', st') \<and>
    serving st' (ms @ map (write_op cd \<circ> snd) (filter (taken \<circ> fst) ws)) \<and> same_data (srv_ctx st) (srv_ctx st')"
  using assms(3-)
proof (induction func arbitrary: sent last_written s st ms)
  case (Return a)
  then show ?case by (simp add: same_data_def)
next
  case Throw
  then show ?case by (simp add: same_data_def)
next
  case (Do_SendInitialMetadata k)
  then obtain st1 where st1: "str_SendInitialMetadata (str cd core) (s, st) = Some (s, st1)" "serving st1 ms" "same_data (srv_ctx st) (srv_ctx st1)"
      "\<not> ctx_has_pending_ops (srv_ctx st1)"
    using send_law [OF laws(1), of st ms cd s] by auto
  then show ?case
    using Do_SendInitialMetadata.IH [OF st1(2), of True last_written s] Do_SendInitialMetadata.prems(2) by (simp add: same_data_def)
next
  case (Do_Read k)
  then obtain r s1 st1 where st1: "str_Read (str cd core) (s, st) = Some (r, s1, st1)" "serving st1 ms" "srv_ctx st1 = srv_ctx st"
    using read_law [OF laws(1), of st ms cd s] by blast
  moreover have "polite sent last_written (k r)" using Do_Read.prems(2) by simp
  ultimately show ?case using Do_Read.IH [OF rangeI st1(2)] Do_Read.prems(3,4) by simp
next
  case (Do_Write m o' k)
  then have idle: "\<not> ctx_has_pending_ops (srv_ctx st)" and k: "\<And>ok. polite True (wo_last_message o') (k ok)" by auto
  show ?case
  proof (cases "taken s")
    case True
    then obtain b s1 st1 where st1: "str_Write (str cd core) m o' (s, st) = Some (b, s1, st1)" "serving st1 (ms @ [write_op cd (m, o')])"
        "same_data (srv_ctx st) (srv_ctx st1)" "ctx_has_pending_ops (srv_ctx st1) = wo_last_message o'"
      using write_law [OF laws Do_Write.prems(1) idle] by blast
    obtain r ws s2 st2 where "run_service (str cd core) (k b) (s1, st1) = Some (r, ws, s2, st2)" "same_data (srv_ctx st1) (srv_ctx st2)"
        "serving st2 ((ms @ [write_op cd (m, o')]) @ map (write_op cd \<circ> snd) (filter (taken \<circ> fst) ws))"
      using Do_Write.IH [OF rangeI st1(2) k] st1(4) by blast
    then show ?thesis using st1(1) True same_data_trans [OF st1(3)] by (simp add: comp_def)
  next
    case False
    obtain r ws s2 st2 where "run_service (str cd core) (k False) (s, st) = Some (r, ws, s2, st2)" "same_data (srv_ctx st) (srv_ctx st2)"
        "serving st2 (ms @ map (write_op cd \<circ> snd) (filter (taken \<circ> fst) ws))"
      using Do_Write.IH [OF rangeI Do_Write.prems(1) k] idle by blast
    then show ?thesis using refuse_law [OF False] False by (simp add: comp_def)
  qed
qed

text \<open>The whole handler.\<close>

lemma RunHandler_ok:
  assumes laws: "core_laws core" "codec_total cd" and sv: "serving st []" "\<not> ctx_sent_initial_metadata (srv_ctx st)"
    and polite: "polite False False func"
  shows "\<exists>r ws s' st1 st'. run_service (str cd core) func (s, st) = Some (r, ws, s', st1) \<and>
    bidi_RunHandler cd core (str cd core) s write_needed func st = Some (ws, st') \<and> call_outstanding (srv_call st') = [] \<and>
    sends (call_history (srv_call st')) = metadata_op (srv_ctx st) # map (write_op cd \<circ> snd) (filter (taken \<circ> fst) ws) @
      [status_op (srv_ctx st) (if write_needed \<and> \<not> ctx_sent_initial_metadata (srv_ctx st1) \<and> Status_ok (CatchingFunctionHandler r)
         then no_response else CatchingFunctionHandler r)]"
proof -
  have "\<not> ctx_has_pending_ops (srv_ctx st)" using sv by (auto simp: serving_def Let_def split: if_splits)
  then obtain r ws s' st1 where run: "run_service (str cd core) func (s, st) = Some (r, ws, s', st1)"
      and sv1: "serving st1 (map (write_op cd \<circ> snd) (filter (taken \<circ> fst) ws))" and data: "same_data (srv_ctx st) (srv_ctx st1)"
    using run_service_ok [OF laws sv(1) polite, of s] sv(2) by auto
  let ?status = "if write_needed \<and> \<not> ctx_sent_initial_metadata (srv_ctx st1) \<and> Status_ok (CatchingFunctionHandler r)
    then no_response else CatchingFunctionHandler r"
  from status_ok [OF laws(1) sv1, of cd ?status] show ?thesis
    using run same_data_ops [OF data]
    by (cases "ctx_sent_initial_metadata (srv_ctx st1)") (auto simp: bidi_RunHandler_def Let_def)
qed

end

lemma on_server_Some: "f st = Some (r, st') \<Longrightarrow> on_server f (s, st) = Some (r, s, st')"
  by (simp add: on_server_def)

lemma on_server_void_Some: "f st = Some st' \<Longrightarrow> on_server_void f (s, st) = Some (s, st')"
  by (simp add: on_server_void_def)

lemma on_server_unit: "on_server f ((), st) = Some (r, (), st') \<longleftrightarrow> f st = Some (r, st')"
  by (auto simp: on_server_def bind_eq_Some_conv)

text \<open>The calls as the streamers forward them.\<close>

lemma stream_SendInitialMetadata_ok:
  assumes "core_laws core" "serving st ms" "\<not> ctx_sent_initial_metadata (srv_ctx st)"
  shows "\<exists>st'. on_server_void (body_SendInitialMetadata cd core) (s, st) = Some (s, st') \<and> serving st' ms \<and>
    same_data (srv_ctx st) (srv_ctx st') \<and> ctx_sent_initial_metadata (srv_ctx st') \<and> \<not> ctx_has_pending_ops (srv_ctx st')"
  using body_SendInitialMetadata_ok [OF assms, of cd] on_server_void_Some by fast

lemma stream_Read_ok:
  assumes "core_laws core" "serving st ms"
  shows "\<exists>r s' st'. on_server (body_Read cd core) (s, st) = Some (r, s', st') \<and> serving st' ms \<and> srv_ctx st' = srv_ctx st"
  using body_Read_ok [OF assms, of cd] on_server_Some by fast

lemma stream_Write_ok:
  assumes "core_laws core" "codec_total cd" "serving st ms" "\<not> ctx_has_pending_ops (srv_ctx st)"
  shows "\<exists>b s' st'. on_server (body_Write cd core m o') (s, st) = Some (b, s', st') \<and> serving st' (ms @ [write_op cd (m, o')]) \<and>
    same_data (srv_ctx st) (srv_ctx st') \<and> ctx_sent_initial_metadata (srv_ctx st') \<and> ctx_has_pending_ops (srv_ctx st') = wo_last_message o'"
  using body_Write_ok [OF assms, of m o'] on_server_Some by fast

interpretation reader_writer: server_streamer ServerReaderWriter "\<lambda>_. True"
  by unfold_locales (simp_all add: ServerReaderWriter_def stream_SendInitialMetadata_ok on_server_unit body_Read_ok body_Write_ok)

interpretation unary: server_streamer ServerUnaryStreamer "\<lambda>s. us_read_done s \<and> \<not> us_write_done s"
  by unfold_locales (auto simp: ServerUnaryStreamer_def unary_Read_def unary_Write_def stream_SendInitialMetadata_ok stream_Read_ok stream_Write_ok)

interpretation split: server_streamer ServerSplitStreamer "\<lambda>read_done. read_done"
  by unfold_locales (auto simp: ServerSplitStreamer_def split_Read_def split_Write_def stream_SendInitialMetadata_ok stream_Read_ok stream_Write_ok)

section \<open>A call before its handler runs\<close>

definition fresh_server :: "('r, 'w, 'x) server \<Rightarrow> bool" where
  "fresh_server st \<longleftrightarrow> \<not> ctx_sent_initial_metadata (srv_ctx st) \<and> \<not> ctx_has_pending_ops (srv_ctx st) \<and>
     ctx_pending_ops (srv_ctx st) = CallOpSet [Send_initial_metadata CallOpSendInitialMetadata, Send_message CallOpSendMessage] \<and>
     call_history (srv_call st) = [] \<and> call_outstanding (srv_call st) = []"

lemma fresh_serving: "fresh_server st \<Longrightarrow> serving st [] \<and> \<not> ctx_sent_initial_metadata (srv_ctx st)"
  by (simp add: fresh_server_def serving_def Let_def idle_pending_def CallOpSet_def CallOpSendInitialMetadata_def CallOpSendMessage_def)

text \<open>A core that accepts what is legal and reports success, and messages that are their own bytes.\<close>

definition demo_core :: "(byte list, byte list, unit) grpc_core" where
  "demo_core = \<lparr>core_start_batch = (\<lambda>tag ops call. (legal_batch call ops, ())),
     core_pluck = (\<lambda>tag x. (\<lparr>ev_success = True, ev_message = Some [1], ev_status_code = GRPC_STATUS_OK, ev_error_message = '''',
       ev_trailing_metadata = [], ev_debug_error_string = None\<rparr>, x)),
     core_PerformOpsOnCall = (\<lambda>f. f)\<rparr>"

definition demo_codec :: "(byte list, byte list) codec" where
  "demo_codec = \<lparr>codec_Serialize = (\<lambda>m. (Status_new, Some m)), codec_Deserialize = (\<lambda>bs. (Status_new, bs))\<rparr>"

definition demo_server :: "(byte list, byte list, unit) server" where
  "demo_server =
     \<lparr>srv_ctx = \<lparr>ctx_sent_initial_metadata = False, ctx_initial_metadata = [(''k'', ''v'')], ctx_trailing_metadata = [],
        ctx_compression_level_set = False, ctx_compression_level = 0,
        ctx_pending_ops = CallOpSet [Send_initial_metadata CallOpSendInitialMetadata, Send_message CallOpSendMessage],
        ctx_has_pending_ops = False\<rparr>,
      srv_call = \<lparr>call_core = (), call_history = [], call_outstanding = [], call_max_receive_message_size = - 1\<rparr>\<rparr>"

lemma demo_laws: "core_laws demo_core" "codec_total demo_codec" "fresh_server demo_server"
  by (simp_all add: core_laws_def demo_core_def codec_total_def demo_codec_def Status_new_def Status_ok_def fresh_server_def demo_server_def)

text \<open>The separate readers and writers repeat the code of the combined stream.\<close>

lemma plain_streams:
  "ServerReader_SendInitialMetadata = body_SendInitialMetadata" "ServerReader_Read = body_Read"
  "ServerReader_NextMessageSize = body_NextMessageSize"
  "ServerWriter_SendInitialMetadata = body_SendInitialMetadata" "ServerWriter_Write = body_Write"
  by (simp_all add: fun_eq_iff ServerReader_SendInitialMetadata_def body_SendInitialMetadata_def ServerReader_Read_def body_Read_def
      ServerReader_NextMessageSize_def body_NextMessageSize_def ServerWriter_SendInitialMetadata_def ServerWriter_Write_def body_Write_def)

text \<open>A unary method: everything goes out in one batch, a message only with the status \<open>OK\<close>.\<close>

lemma rpc_handler_ok:
  fixes func :: "'r \<Rightarrow> Status option \<times> 'w" and status :: Status and request :: 'r
  assumes laws: "core_laws core" "codec_total cd" and fresh: "fresh_server st"
  defines "status' \<equiv> if Status_ok status then CatchingFunctionHandler (fst (func request)) else status"
  shows "\<exists>st'. rpc_RunHandler cd core func request rsp status st = Some st' \<and> call_outstanding (srv_call st') = [] \<and>
    call_history (srv_call st') = metadata_op (srv_ctx st) #
      (if Status_ok status' then [GRPC_OP_SEND_MESSAGE 0 (snd (codec_Serialize cd (snd (func request))))] else []) @
      [status_op (srv_ctx st) (if Status_ok status' then Status_new else status')]"
proof -
  let ?ctx = "srv_ctx st" and ?w = "if Status_ok status then snd (func request) else rsp"
  let ?gs = "metadata_op ?ctx # (if Status_ok status' then [GRPC_OP_SEND_MESSAGE 0 (snd (codec_Serialize cd (snd (func request))))] else []) @
      [status_op ?ctx (if Status_ok status' then Status_new else status')]"
  define s where "s = send_metadata_of ?ctx (CallOpSet [Send_initial_metadata CallOpSendInitialMetadata, Send_message CallOpSendMessage,
    Server_send_status CallOpServerSendStatus])"
  define t where "t = (if Status_ok status' then set_SendMessagePtr cd ?w WriteOptions_new s else (status', s))"
  have w: "Status_ok status' \<Longrightarrow> ?w = snd (func request)" by (simp add: status'_def split: if_splits)
  have new: "Status_ok Status_new" by (simp add: Status_ok_def Status_new_def)
  have ser: "Status_ok (fst (codec_Serialize cd m))" for m using laws(2) by (simp add: codec_total_def)
  have st: "fst t = (if Status_ok status' then Status_new else status')"
    by (simp add: t_def s_def metadata_simps set_SendMessagePtr_def som_SendMessagePtr_def som_SendMessage_def CallOpSendMessage_def)
  have "\<exists>ops. AddOps cd (cos_ops (with_status ?ctx (fst t) (snd t))) = Some (?gs, ops)"
    using w ser [of "snd (func request)"] unfolding st
    by (auto simp: t_def s_def metadata_simps status_simps set_SendMessagePtr_def som_SendMessagePtr_def som_SendMessage_def
        CallOpSendMessage_def som_AddOp_def som_serialize_def WriteOptions_assign_def WriteOptions_new_def split: prod.splits)
  then obtain ops where ops: "AddOps cd (cos_ops (with_status ?ctx (fst t) (snd t))) = Some (?gs, ops)" by blast
  have call: "call_history (srv_call st) = []" "call_outstanding (srv_call st) = []" "\<not> ctx_sent_initial_metadata ?ctx"
    using fresh by (simp_all add: fresh_server_def)
  have legal: "legal_batch (srv_call st) ?gs"
    using call by (simp add: legal_batch_def metadata_op_def status_op_def)
  obtain s1 c1 ok s2 x where "PerformOps cd core local_tag (with_status ?ctx (fst t) (snd t)) (srv_call st) = Some (s1, c1)"
      "Pluck cd core local_tag s1 c1 = Some (ok, s2, (srv_call st)\<lparr>call_core := x, call_history := call_history (srv_call st) @ ?gs\<rparr>)"
    by (rule local_batch [OF laws(1) ops legal]) (simp_all add: call)
  then have "rpc_RunHandler cd core func request rsp status st =
      Some (st\<lparr>srv_call := (srv_call st)\<lparr>call_core := x, call_history := call_history (srv_call st) @ ?gs\<rparr>\<rparr>)"
    using call(3) by (cases "Status_ok status"; cases "func request"; cases t)
      (auto simp: rpc_RunHandler_def Let_def s_def [symmetric] t_def status'_def split: prod.splits if_splits)
  then show ?thesis using call by simp
qed

text \<open>A streamed unary method writes at most once.\<close>

lemma unary_writes:
  "run_service (ServerUnaryStreamer cd core) func (s, st) = Some (r, ws, s', st') \<Longrightarrow>
     length (filter ((\<lambda>s. us_read_done s \<and> \<not> us_write_done s) \<circ> fst) ws) \<le> (if us_write_done s then 0 else 1)"
proof (induction func arbitrary: s st ws)
  case (Do_SendInitialMetadata k)
  then obtain s1 st1 where "str_SendInitialMetadata (ServerUnaryStreamer cd core) (s, st) = Some (s1, st1)"
      "run_service (ServerUnaryStreamer cd core) k (s1, st1) = Some (r, ws, s', st')"
    by (auto simp: bind_eq_Some_conv)
  moreover from this have "s1 = s" by (auto simp: ServerUnaryStreamer_def on_server_void_def bind_eq_Some_conv)
  ultimately show ?case using Do_SendInitialMetadata.IH [of s1 st1 ws] by simp
next
  case (Do_Read k)
  then obtain msg s1 st1 where "str_Read (ServerUnaryStreamer cd core) (s, st) = Some (msg, s1, st1)"
      "run_service (ServerUnaryStreamer cd core) (k msg) (s1, st1) = Some (r, ws, s', st')"
    by (auto simp: bind_eq_Some_conv)
  moreover from this have "us_write_done s1 = us_write_done s"
    by (auto simp: ServerUnaryStreamer_def unary_Read_def on_server_def bind_eq_Some_conv split: if_splits)
  ultimately show ?case using Do_Read.IH [OF rangeI, of msg s1 st1 ws] by simp
next
  case (Do_Write m o' k)
  then obtain ok s1 st1 vs where w: "str_Write (ServerUnaryStreamer cd core) m o' (s, st) = Some (ok, s1, st1)"
      "run_service (ServerUnaryStreamer cd core) (k ok) (s1, st1) = Some (r, vs, s', st')" "ws = (s, m, o') # vs"
    by (auto simp: bind_eq_Some_conv)
  have "us_write_done s1 = (us_write_done s \<or> us_read_done s \<and> \<not> us_write_done s)"
    using w(1) by (auto simp: ServerUnaryStreamer_def unary_Write_def on_server_def bind_eq_Some_conv split: if_splits)
  then show ?case using Do_Write.IH [OF rangeI w(2)] w(3) by (auto split: if_splits)
qed simp_all

section \<open>Properties\<close>

text \<open>
  C18: The handler of a bidirectional stream, as the proxy's service uses it, sends a well-formed
  answer whatever the service does. For every service function that uses its stream as documented, with a
  core that accepts legal batches, the handler returns, no assertion fails, every batch it
  started has completed, and the operations sent are the initial metadata once, the messages in
  the order they were written, and the status the function returned, or \<open>UNKNOWN\<close> after an
  exception, once and last.
\<close>

theorem bidi_handler_protocol:
  assumes "core_laws core" and "codec_total cd" and "fresh_server st" and "polite False False func"
  shows "\<exists>r ws st1 st'. run_service (ServerReaderWriter cd core) func ((), st) = Some (r, ws, (), st1) \<and>
    BidiStreamingHandler cd core func st = Some (ws, st') \<and> call_outstanding (srv_call st') = [] \<and>
    sends (call_history (srv_call st')) =
      metadata_op (srv_ctx st) # map (write_op cd \<circ> snd) ws @ [status_op (srv_ctx st) (CatchingFunctionHandler r)]"
  using reader_writer.RunHandler_ok [OF assms(1,2) conjunct1 conjunct2 assms(4), OF fresh_serving fresh_serving, OF assms(3) assms(3), of "()" False]
  by (simp add: BidiStreamingHandler_def comp_def)

theorem bidi_handler_protocol_witness:
  "\<exists>st'. BidiStreamingHandler demo_codec demo_core
      (Do_Read (\<lambda>_. Do_Write [7] WriteOptions_new (\<lambda>_. Do_Write [8] (set_last_message WriteOptions_new) (\<lambda>_. Throw)))) demo_server =
      Some ([((), [7], WriteOptions_new), ((), [8], set_last_message WriteOptions_new)], st') \<and>
    sends (call_history (srv_call st')) = [GRPC_OP_SEND_INITIAL_METADATA 0 [(''k'', ''v'')] None, GRPC_OP_SEND_MESSAGE 0 (Some [7]),
      GRPC_OP_SEND_MESSAGE 1 (Some [8]), GRPC_OP_SEND_STATUS_FROM_SERVER [] GRPC_STATUS_UNKNOWN (Some ''Unexpected error in RPC handling'')]"
proof -
  let ?func = "Do_Read (\<lambda>_. Do_Write [7] WriteOptions_new (\<lambda>_. Do_Write [8] (set_last_message WriteOptions_new) (\<lambda>_. Throw)))
    :: (byte list, byte list, Status) service"
  have "polite False False ?func" by (simp add: WriteOptions_new_def)
  from bidi_handler_protocol [OF demo_laws this] obtain r ws st1 st' where
    w: "run_service (ServerReaderWriter demo_codec demo_core) ?func ((), demo_server) = Some (r, ws, (), st1)"
      "BidiStreamingHandler demo_codec demo_core ?func demo_server = Some (ws, st')"
      "sends (call_history (srv_call st')) =
        metadata_op (srv_ctx demo_server) # map (write_op demo_codec \<circ> snd) ws @ [status_op (srv_ctx demo_server) (CatchingFunctionHandler r)]"
    by blast
  have "r = None" "ws = [((), [7], WriteOptions_new), ((), [8], set_last_message WriteOptions_new)]"
    using w(1) by (auto simp: bind_eq_Some_conv)
  then show ?thesis
    using w(2,3) by (simp add: metadata_op_def write_op_def status_op_def demo_server_def demo_codec_def CatchingFunctionHandler_def
        unexpected_error_def Status_with_def FillMetadataArray_def WriteOptions_new_def set_last_message_def set_buffer_hint_def
        SetBit_def GRPC_WRITE_BUFFER_HINT_def)
qed

text \<open>
  C22: A streamed unary method answers with at most one message. For every function that uses its
  stream as documented (the initial metadata sent at most once and not after a message, nothing written
  after a last message), the handler returns with every batch completed, and between the initial
  metadata and the status at most one message was sent, the first one written after the request was read.
\<close>

theorem streamed_unary_at_most_one:
  assumes "core_laws core" and "codec_total cd" and "fresh_server st" and "polite False False func"
  shows "\<exists>ws ms status st'. StreamedUnaryHandler cd core func st = Some (ws, st') \<and> call_outstanding (srv_call st') = [] \<and>
    sends (call_history (srv_call st')) = metadata_op (srv_ctx st) # map (write_op cd \<circ> snd) ms @ [status_op (srv_ctx st) status] \<and>
    ms = filter (\<lambda>w. us_read_done (fst w) \<and> \<not> us_write_done (fst w)) ws \<and> length ms \<le> 1"
proof -
  have sv: "serving st []" "\<not> ctx_sent_initial_metadata (srv_ctx st)" using fresh_serving [OF assms(3)] by simp_all
  obtain r ws s' st1 st' status where
    h: "run_service (ServerUnaryStreamer cd core) func (ServerUnaryStreamer_new, st) = Some (r, ws, s', st1)"
      "StreamedUnaryHandler cd core func st = Some (ws, st')" "call_outstanding (srv_call st') = []"
      "sends (call_history (srv_call st')) = metadata_op (srv_ctx st) #
        map (write_op cd \<circ> snd) (filter ((\<lambda>s. us_read_done s \<and> \<not> us_write_done s) \<circ> fst) ws) @ [status_op (srv_ctx st) status]"
    using unary.RunHandler_ok [OF assms(1,2) sv assms(4), of ServerUnaryStreamer_new True] unfolding StreamedUnaryHandler_def by blast
  have "length (filter ((\<lambda>s. us_read_done s \<and> \<not> us_write_done s) \<circ> fst) ws) \<le> 1"
    using unary_writes [OF h(1)] by (simp add: ServerUnaryStreamer_new_def)
  then show ?thesis using h(2-4) by (auto simp: comp_def)
qed

theorem streamed_unary_at_most_one_witness:
  "\<exists>ws ms status st'. StreamedUnaryHandler demo_codec demo_core
      (Do_Read (\<lambda>_. Do_Write [7] WriteOptions_new (\<lambda>_. Do_Write [8] WriteOptions_new (\<lambda>_. Return Status_new)))) demo_server = Some (ws, st') \<and>
    sends (call_history (srv_call st')) =
      metadata_op (srv_ctx demo_server) # map (write_op demo_codec \<circ> snd) ms @ [status_op (srv_ctx demo_server) status] \<and>
    ms = filter (\<lambda>w. us_read_done (fst w) \<and> \<not> us_write_done (fst w)) ws \<and> length ms \<le> 1"
proof -
  let ?func = "Do_Read (\<lambda>_. Do_Write [7] WriteOptions_new (\<lambda>_. Do_Write [8] WriteOptions_new (\<lambda>_. Return Status_new)))
    :: (byte list, byte list, Status) service"
  have "polite False False ?func" by (simp add: WriteOptions_new_def)
  from streamed_unary_at_most_one [OF demo_laws this] show ?thesis by blast
qed

text \<open>
  C23: A streamed unary method can report success without a response. The handler means to fail
  a function that returns \<open>OK\<close> and never wrote, but tests whether the initial metadata went out: a
  function that reads the request and returns \<open>OK\<close> gets the status \<open>INTERNAL\<close>, one that also calls
  \<open>SendInitialMetadata\<close> gets \<open>OK\<close>, and no message is sent in either case.
\<close>

theorem streamed_unary_ok_without_response:
  assumes laws: "core_laws core" "codec_total cd" and fresh: "fresh_server st"
  shows "(\<exists>st'. StreamedUnaryHandler cd core (Do_Read (\<lambda>_. Return Status_new)) st = Some ([], st') \<and>
      sends (call_history (srv_call st')) = [metadata_op (srv_ctx st), status_op (srv_ctx st) no_response]) \<and>
    (\<exists>st'. StreamedUnaryHandler cd core (Do_Read (\<lambda>_. Do_SendInitialMetadata (Return Status_new))) st = Some ([], st') \<and>
      sends (call_history (srv_call st')) = [metadata_op (srv_ctx st), status_op (srv_ctx st) Status_new])"
proof -
  have sv: "serving st []" "\<not> ctx_sent_initial_metadata (srv_ctx st)" using fresh_serving [OF fresh] by simp_all
  obtain r s1 st1 where rd: "str_Read (ServerUnaryStreamer cd core) (ServerUnaryStreamer_new, st) = Some (r, s1, st1)"
      "serving st1 []" "srv_ctx st1 = srv_ctx st"
    using unary.read_law [OF laws(1) sv(1), of cd ServerUnaryStreamer_new] by blast
  obtain st2 where si: "str_SendInitialMetadata (ServerUnaryStreamer cd core) (s1, st1) = Some (s1, st2)"
      "ctx_sent_initial_metadata (srv_ctx st2)"
    using unary.send_law [OF laws(1) rd(2), of cd s1] sv(2) rd(3) by auto
  have ok: "Status_ok Status_new" "CatchingFunctionHandler (Some Status_new) = Status_new"
    by (simp_all add: Status_ok_def Status_new_def CatchingFunctionHandler_def)
  show ?thesis
    using unary.RunHandler_ok [OF laws sv, of "Do_Read (\<lambda>_. Return Status_new)" ServerUnaryStreamer_new True]
      unary.RunHandler_ok [OF laws sv, of "Do_Read (\<lambda>_. Do_SendInitialMetadata (Return Status_new))" ServerUnaryStreamer_new True]
      rd(1,3) si sv(2) ok
    by (simp add: StreamedUnaryHandler_def) auto
qed

theorem streamed_unary_ok_without_response_witness:
  "\<exists>st'. StreamedUnaryHandler demo_codec demo_core (Do_Read (\<lambda>_. Do_SendInitialMetadata (Return Status_new))) demo_server = Some ([], st') \<and>
     sends (call_history (srv_call st')) =
       [GRPC_OP_SEND_INITIAL_METADATA 0 [(''k'', ''v'')] None, GRPC_OP_SEND_STATUS_FROM_SERVER [] GRPC_STATUS_OK None]"
  using streamed_unary_ok_without_response [OF demo_laws]
  by (simp add: metadata_op_def status_op_def demo_server_def FillMetadataArray_def Status_new_def)

text \<open>
  The error details a client receives: before the map is filled, the lookup takes any entry whose key is a
  prefix of \<open>grpc-status-details-bin\<close>.
\<close>

lemma binary_error_details_prefix:
  "mm_GetBinaryErrorDetails (MetadataMap\<lparr>mm_arr := [(''grpc-status'', ''7'')]\<rparr>) = ''7''"
  "mm_GetBinaryErrorDetails (mm_FillMap (MetadataMap\<lparr>mm_arr := [(''grpc-status'', ''7'')]\<rparr>)) = ''''"
  by (simp_all add: mm_GetBinaryErrorDetails_def MetadataMap_def mm_FillMap_def multimap_insert_def strncmp_eq_def
      kBinaryErrorDetailsKey_def Let_def)

end
