(* ===== verification/Spec2Isabelle.thy ===== *)
theory Spec2Isabelle
  imports Coffee_System Ta_Safety Repeated_Ptr_Field Wire_Parser Eps_Copy Proto_Map_Spec Grpc_Protocol
begin

text \<open>
  A verification library for the TrustForge system, which runs Hyperledger Fabric chaincode as
  a WebAssembly module inside an OP-TEE trusted application (TA).

  \<^bold>\<open>The program.\<close> An invocation starts on the Fabric peer, where the chaincode wrapper
  (\<open>src/chaincode.go\<close>) sends it over a gRPC stream to the proxy in the normal world of the board
  (\<open>src/fixed-proxy/main.cpp\<close>). The proxy packs the function name and the arguments into a
  shared buffer and invokes commands of the TA (\<open>src/wrapper_ta/ta\<close>). \<open>RUN_WASM\<close> loads the
  module and steps it once; whenever the module asks for a key of the ledger or stores one, the
  step ends, the request travels back through proxy and wrapper to the ledger, and
  \<open>RESUME_WASM\<close> steps the module again with the answer. The module is the coffee-tracking
  chaincode (\<open>src/wrapper_ta/chaincode/coffee_chaincode_wasm.c\<close>), which calls the natives of
  \<open>chaincode_native_functions.c\<close>. The messages on the stream are protocol buffers; the
  headers of that library are part of the repository (\<open>src/fixed-proxy/include\<close>).

  \<^bold>\<open>Theories about the system.\<close>
  \<^item> \<open>TA_Prelude\<close>: C strings, bounded writes into C objects, linear memory, decimal numerals.
  \<^item> \<open>Comm_Structs\<close>: constants, structs and session of the headers under \<open>ta/include\<close>. The locale
    \<open>string_field\<close> is the interface of a fixed-size string field; it is interpreted on the key,
    value, argument, response and acknowledgement fields.
  \<^item> \<open>Native_Functions\<close>: each import of \<open>chaincode_native_functions.c\<close>; memory safety for any
    arguments of the module but two, which overrun their objects.
  \<^item> \<open>Coffee_Util\<close>, \<open>Coffee_Chaincode\<close>: the freestanding routines and the state machine of the
    chaincode. The locale \<open>coffee_imports\<close> is what the chaincode relies on of its imports; the
    interpretation \<open>ni\<close> shows that the natives provide it.
  \<^item> \<open>Wamr_Runtime\<close>, \<open>Ta_Main\<close>: \<open>wasm.c\<close> and \<open>main.c\<close>, one definition per entry point and command.
  \<^item> \<open>Ta_Safety\<close>: the TA under any sequence of commands and any module; reachable states and
    their invariant by rule induction, the states the invariant excludes, memory that is never
    released.
  \<^item> \<open>Coffee_Refinement\<close>: \<open>RUN_WASM\<close> and \<open>RESUME_WASM\<close> refine an abstract resumable machine, which
    answers within three moves.
  \<^item> \<open>Fixed_Proxy\<close>, \<open>Go_Wrapper\<close>: \<open>main.cpp\<close> and \<open>chaincode.go\<close>.
  \<^item> \<open>Coffee_System\<close>: the composition. The locale \<open>tee_device\<close> is what the proxy relies on of the
    device, \<open>tee_service\<close> extends it to whole transactions; the interpretation \<open>svc\<close> shows that
    the TA with the coffee module provides both.
  \<^item> This theory: the properties of whole transactions.

  \<^bold>\<open>Theories about the message library.\<close>
  \<^item> \<open>Cpp_Prelude\<close>: signed arithmetic, debug checks, arrays; the locale \<open>back_insertable\<close> for
    operations that append to a container.
  \<^item> \<open>Repeated_Field\<close>, \<open>Repeated_Ptr_Field\<close>: the two containers of \<open>repeated_field.h\<close>; any
    sequence of operations refines the operations on lists, and the container of owned objects
    frees each object exactly once. \<open>back_insertable\<close> is interpreted on \<open>Add\<close> and
    \<open>AddAlreadyReserved\<close>; the locale \<open>merging_handler\<close> (objects that can be merged) on strings.
  \<^item> \<open>Varint\<close>, \<open>Coded_Stream\<close>: \<open>io/coded_stream.h\<close>; the writers, parsers, size computations and
    fast paths against one reference encoding.
  \<^item> \<open>Wire_Format\<close>: \<open>wire_format_lite.h\<close> and \<open>wire_format_lite_inl.h\<close>; round trips of all scalar
    types, fast readers and writers against the plain ones, message set items.
  \<^item> \<open>Parse_Context\<close>: the definitions of \<open>parse_context.h\<close>, the parser that works across the seams of
    its input. \<open>Eps_Copy\<close>: a stream in chunks of less than \<open>2 ^ 31\<close> bytes is parsed as the
    concatenated bytes are; a larger one can be skipped, since sizes are cast to \<open>int\<close> (\<open>to_int32\<close>).
    \<open>Wire_Parser\<close>: the generic parser reports nested fields as they were written, up to the
    recursion limit.
  \<^item> \<open>Inner_Map\<close>: the definitions of the hash table of \<open>map.h\<close>, whose long buckets become trees.
    \<open>Inner_Map_Rep\<close>, \<open>Inner_Map_Resize\<close>, \<open>Inner_Map_Ops\<close>, \<open>Inner_Map_Iter\<close>, \<open>Inner_Map_Erase\<close> and
    \<open>Inner_Map_Clear\<close>: its representation invariant, and that every operation is defined and has
    its effect on the finite map the table stands for.
  \<^item> \<open>Proto_Map\<close>, \<open>Proto_Map_Laws\<close>, \<open>Proto_Map_Iter\<close>, \<open>Proto_Map_Spec\<close>: the class \<open>Map\<close> over that table and
    \<open>MapFieldLite\<close> of \<open>map_field_lite.h\<close>. \<open>Map_Container\<close> has the interface of a container that holds a
    finite map (locales \<open>map_container\<close> and \<open>stable_container\<close>); the interpretation \<open>pmc\<close> shows that
    \<open>Map\<close> provides it.

  \<^bold>\<open>Theories about the transport.\<close>
  \<^item> \<open>Grpc_Ops\<close>: \<open>call_op_set.h\<close>, the operations of a gRPC call, their batches and completion.
  \<^item> \<open>Grpc_Streams\<close>: the server streams of \<open>sync_stream.h\<close>, one of which the proxy's service reads and
    writes, and the handlers of \<open>method_handler_impl.h\<close> that run a service's functions.
  \<^item> \<open>Grpc_Protocol\<close>: what the handlers send, for every function of a service. The locale
    \<open>server_streamer\<close> is what a handler relies on of a stream; it is interpreted on the three streams
    that read and write.

  \<^bold>\<open>Conventions.\<close> An operation that C or C++ leaves undefined (an access outside an object, a null
  dereference, a signed overflow) and a failed debug check have the value \<^term>\<open>None\<close>; hence
  \<open>f x = Some y\<close> also says that none of this happens. Errors the code reports are values of
  their own. Loops whose end is not evident from the code are \<open>partial_function (option)\<close>; that
  they end is part of each theorem that gives their result, and \<open>invoke_loop_terminates\<close> states
  it for the wrapper. Loops with a counter recurse on the number of iterations the code itself
  computes. The only fuel is that of \<open>parse_fn\<close> in \<open>Wire_Parser\<close>, a bound on nested calls of parse
  functions; the nesting of the message is enough.

  \<^bold>\<open>Parameters.\<close> Code outside the repository is an argument of the definitions: the WAMR API and
  its memory (\<open>wamr_api\<close>, \<open>wamr_mem\<close>), \<open>TEE_Malloc\<close>, the digest operations, the TEE client API, the
  gRPC stream, the host's files and allocator, the Fabric stub, the bodies of \<open>repeated_field.cc\<close>
  (\<open>rpf_cc\<close>), \<open>coded_stream.cc\<close> (\<open>input_cc\<close>, \<open>output_cc\<close>) and \<open>parse_context.cc\<close> (\<open>parse_cc\<close>),
  generated messages, and the gRPC core (\<open>grpc_core\<close>) with the messages' serialisation (\<open>codec\<close>). What the
  theorems need of them are named predicates (\<open>wamr_mem_laws\<close>, \<open>engine_confined\<close>,
  \<open>wamr_runs_coffee\<close>, \<open>ledger_laws\<close>, \<open>input_cc_laws\<close>, \<open>output_cc_laws\<close>, \<open>seam_laws\<close>,
  \<open>core_laws\<close>, \<open>codec_total\<close>), each with a concrete
  instance in a witness.

  \<^bold>\<open>Not modelled.\<close> Log output and time stamps; the construction of the gRPC server in \<open>run_server\<close>
  and \<open>main\<close>; interceptors, the client side and the asynchronous and callback interfaces of gRPC,
  which the proxy does not use (its own model reaches the transport through the parameter
  \<open>grpc_stream\<close>); the headers of the message library that only declare members defined in
  source files outside the repository (descriptors, reflection, extension sets, the compiler);
  generated code for types the system does not send; build files and documents.
\<close>

section \<open>Ledger laws\<close>

text \<open>
  What the round trips need of the ledger: reads do not fail, a write does not fail, and a
  read after a write sees it at its key and nowhere else.
\<close>

definition ledger_laws :: "'l shim_stub \<Rightarrow> bool" where
  "ledger_laws stub \<longleftrightarrow>
     (\<forall>k l. \<exists>v. stub_GetState stub k l = Inr v) \<and>
     (\<forall>k v l. \<exists>l'. stub_PutState stub k v l = Inr l' \<and>
        (\<forall>k'. stub_GetState stub k' l' = (if k' = k then Inr (Some v) else stub_GetState stub k' l)))"

lemma ledger_put:
  assumes "ledger_laws stub"
  obtains l' where "stub_PutState stub k v l = Inr l'" and "stub_GetState stub k l' = Inr (Some v)"
  using assms unfolding ledger_laws_def by metis

lemma map_stub_laws: "ledger_laws map_stub"
  by (auto simp: ledger_laws_def map_stub_def)

lemma tx_create_new:
  assumes "stub_GetState stub k l = Inr None" and "stub_PutState stub k v l = Inr l'" and "k \<noteq> []"
  shows "coffee_tx stub ''create'' k v l = (Shim_Success ''OK'', l')"
  using assms by (simp add: coffee_tx_def visible_value_def coffee_put_def)

lemma tx_query_found:
  assumes "stub_GetState stub k l = Inr (Some v)" and "nul_free v" and "v \<noteq> []" and "length v < 256"
  shows "coffee_tx stub ''query'' k a l = (Shim_Success v, l)"
  using assms by (simp add: coffee_tx_def visible_value_def)

lemma tx_create_exists:
  assumes "stub_GetState stub k l = Inr (Some v)" and "nul_free v" and "v \<noteq> []" and "length v < 256" and "k \<noteq> []"
  shows "coffee_tx stub ''create'' k a l = (Shim_Success ''EXIST'', l)"
  using assms by (simp add: coffee_tx_def visible_value_def)

lemma atoul_dec_str [simp]: "atoul (dec_str n) = word_of_nat n"
proof -
  have "takeWhile is_digit (dec_str n) = dec_str n"
    using dec_str_digits [of n] by (simp only: takeWhile_eq_all_conv)
  from arg_cong [OF this, of "\<lambda>s. word_of_nat (dec_val s) :: u32"] show ?thesis
    unfolding atoul_def by (simp only: dec_val_dec_str)
qed

lemma tx_add:
  assumes "stub_GetState stub k l = Inr (Some (dec_str n))" and "n < 2 ^ 32"
    and "stub_PutState stub k (dec_str ((n + m) mod 2 ^ 32)) l = Inr l'"
  shows "coffee_tx stub ''add'' k (dec_str m) l = (Shim_Success ''OK'', l')"
proof -
  have "length (dec_str n) < 256"
    using length_dec_str [of n 10] assms(2) by simp
  moreover have "unat (word_of_nat n + word_of_nat m :: u32) = (n + m) mod 2 ^ 32"
    by (simp flip: of_nat_add add: unat_of_nat)
  ultimately show ?thesis
    using assms by (simp add: coffee_tx_def visible_value_def coffee_put_def Let_def)
qed

lemma visible_arg_id [simp]: "nul_free s \<Longrightarrow> length s < 64 \<Longrightarrow> visible_arg s = s"
  by (simp add: visible_arg_def)

section \<open>End-to-end properties\<close>



text \<open>
  C6: Create, query and create again through the whole system. For a new non-empty key and a
  non-empty value that fit their fields, create answers \<open>OK\<close>, query returns exactly the
  value that was stored, and a second create answers \<open>EXIST\<close> and leaves the ledger alone.
\<close>

theorem create_query_roundtrip:
  assumes "coffee_platform T A L M" and "\<forall>r. request_ok A L M os r" and "proxy_idle ctx"
    and "ledger_laws stub" and "stub_GetState stub k l = Inr None"
    and "nul_free k" and "k \<noteq> []" and "length k < 64" and "nul_free v" and "v \<noteq> []" and "length v < 64"
  shows "\<exists>ctx' l'. run_transactions T os stub
       [coffee_request aot ''create'' [k, v], coffee_request aot ''query'' [k], coffee_request aot ''create'' [k, w]] ctx l =
     Some ([Shim_Success ''OK'', Shim_Success v, Shim_Success ''EXIST''], ctx', l') \<and>
     stub_PutState stub k v l = Inr l'"
proof -
  obtain l' where l': "stub_PutState stub k v l = Inr l'" "stub_GetState stub k l' = Inr (Some v)"
    using ledger_put [OF assms(4)] by blast
  let ?rs = "[coffee_request aot ''create'' [k, v], coffee_request aot ''query'' [k], coffee_request aot ''create'' [k, w]]"
  have "spec_transactions stub ?rs l = ([Shim_Success ''OK'', Shim_Success v, Shim_Success ''EXIST''], l')"
    using assms(5-11) l'
    by (simp add: coffee_request_def tx_of_def arg_at_def tx_create_new tx_query_found tx_create_exists)
  with transactions_run [OF assms(1) _ assms(3), of os ?rs stub l] assms(2) l'(1) show ?thesis by auto
qed

theorem create_query_roundtrip_witness:
  "\<exists>ctx' l'. run_transactions demo_teec demo_os map_stub
       [coffee_request ''c.aot'' ''create'' [''ann'', ''5''], coffee_request ''c.aot'' ''query'' [''ann''], coffee_request ''c.aot'' ''create'' [''ann'', ''7'']]
       demo_ctx Map.empty =
     Some ([Shim_Success ''OK'', Shim_Success ''5'', Shim_Success ''EXIST''], ctx', l') \<and>
     stub_PutState map_stub ''ann'' ''5'' Map.empty = Inr l'"
  using create_query_roundtrip [OF demo_platform _ demo_ctx_idle map_stub_laws, of demo_os "''ann''" Map.empty "''5''" "''c.aot''" "''7''"]
  by (simp add: demo_request_ok map_stub_def)

text \<open>
  C7: Adding through the whole system. After a create with the decimal numeral of \<open>n\<close>, an
  add of the numeral of \<open>m\<close> and a query return the canonical decimal numeral of
  \<open>(n + m) mod 2 ^ 32\<close>: the chaincode counts in the 32-bit \<open>unsigned long\<close> of its target,
  so a count that would pass \<open>2 ^ 32\<close> wraps around.
\<close>

theorem add_counts_modulo_2_32:
  assumes "coffee_platform T A L M" and "\<forall>r. request_ok A L M os r" and "proxy_idle ctx"
    and "ledger_laws stub" and "stub_GetState stub k l = Inr None"
    and "nul_free k" and "k \<noteq> []" and "length k < 64" and "n < 2 ^ 32" and "m < 10 ^ 63"
  shows "\<exists>ctx' l'. run_transactions T os stub
       [coffee_request aot ''create'' [k, dec_str n], coffee_request aot ''add'' [k, dec_str m],
        coffee_request aot ''query'' [k]] ctx l =
     Some ([Shim_Success ''OK'', Shim_Success ''OK'', Shim_Success (dec_str ((n + m) mod 2 ^ 32))], ctx', l')"
proof -
  let ?sum = "(n + m) mod 2 ^ 32"
  obtain l1 where l1: "stub_PutState stub k (dec_str n) l = Inr l1" "stub_GetState stub k l1 = Inr (Some (dec_str n))"
    using ledger_put [OF assms(4)] by blast
  obtain l2 where l2: "stub_PutState stub k (dec_str ?sum) l1 = Inr l2" "stub_GetState stub k l2 = Inr (Some (dec_str ?sum))"
    using ledger_put [OF assms(4)] by blast
  have "?sum < 10 ^ 10" by (rule less_le_trans [OF mod_less_divisor]) simp_all
  then have len: "length (dec_str n) < 64" "length (dec_str m) < 64" "length (dec_str ?sum) < 256"
    using length_dec_str [of n 10] length_dec_str [of m 63] length_dec_str [of ?sum 10] assms(9,10) by simp_all
  let ?rs = "[coffee_request aot ''create'' [k, dec_str n], coffee_request aot ''add'' [k, dec_str m],
        coffee_request aot ''query'' [k]]"
  have "tx_of stub ''create'' [k, dec_str n] l = (Shim_Success ''OK'', l1)"
    using assms(5-8) l1 len by (simp add: tx_of_def arg_at_def tx_create_new)
  moreover have "tx_of stub ''add'' [k, dec_str m] l1 = (Shim_Success ''OK'', l2)"
    using assms(6-8) tx_add [OF l1(2) assms(9) l2(1)] len by (simp add: tx_of_def arg_at_def)
  moreover have "tx_of stub ''query'' [k] l2 = (Shim_Success (dec_str ?sum), l2)"
    using assms(6-8) tx_query_found [OF l2(2)] len by (simp add: tx_of_def arg_at_def)
  ultimately have "spec_transactions stub ?rs l =
      ([Shim_Success ''OK'', Shim_Success ''OK'', Shim_Success (dec_str ?sum)], l2)"
    by (simp add: coffee_request_def)
  with transactions_run [OF assms(1) _ assms(3), of os ?rs stub l] assms(2) show ?thesis by auto
qed

theorem add_counts_modulo_2_32_witness:
  "\<exists>ctx' l'. run_transactions demo_teec demo_os map_stub
       [coffee_request ''c.aot'' ''create'' [''ann'', dec_str 4294967295],
        coffee_request ''c.aot'' ''add'' [''ann'', dec_str 3], coffee_request ''c.aot'' ''query'' [''ann'']]
       demo_ctx Map.empty =
     Some ([Shim_Success ''OK'', Shim_Success ''OK'', Shim_Success (dec_str 2)], ctx', l')"
  using add_counts_modulo_2_32 [OF demo_platform _ demo_ctx_idle map_stub_laws, of demo_os "''ann''" Map.empty
      4294967295 3 "''c.aot''"]
  by (simp add: demo_request_ok map_stub_def)

text \<open>
  C29: A stored value of 256 bytes or more is invisible to the chaincode: the proxy delivers
  the empty string instead, so create takes the key for a new one and overwrites the value,
  and query answers \<open>NOTFOUND\<close>.
\<close>

theorem oversized_value_overwritten:
  assumes "coffee_platform T A L M" and "\<forall>r. request_ok A L M os r" and "proxy_idle ctx"
    and "stub_GetState stub k l = Inr (Some b)" and "256 \<le> length b"
    and "stub_PutState stub k v l = Inr l'"
    and "nul_free k" and "k \<noteq> []" and "length k < 64" and "nul_free v" and "length v < 64"
  shows "\<exists>ctx'. run_transactions T os stub
       [coffee_request aot ''query'' [k], coffee_request aot ''create'' [k, v]] ctx l =
     Some ([Shim_Success ''NOTFOUND'', Shim_Success ''OK''], ctx', l')"
proof -
  let ?rs = "[coffee_request aot ''query'' [k], coffee_request aot ''create'' [k, v]]"
  have "spec_transactions stub ?rs l = ([Shim_Success ''NOTFOUND'', Shim_Success ''OK''], l')"
    using assms(4-11)
    by (simp add: coffee_request_def tx_of_def arg_at_def coffee_tx_def visible_value_def coffee_put_def Let_def)
  with transactions_run [OF assms(1) _ assms(3), of os ?rs stub l] assms(2) show ?thesis by auto
qed

theorem oversized_value_overwritten_witness:
  "\<exists>ctx'. run_transactions demo_teec demo_os map_stub
       [coffee_request ''c.aot'' ''query'' [''ann''], coffee_request ''c.aot'' ''create'' [''ann'', ''5'']]
       demo_ctx [''ann'' \<mapsto> replicate 300 (CHR ''9'')] =
     Some ([Shim_Success ''NOTFOUND'', Shim_Success ''OK''], ctx', [''ann'' \<mapsto> ''5''])"
  using oversized_value_overwritten [OF demo_platform _ demo_ctx_idle, of demo_os map_stub "''ann''"
      "[''ann'' \<mapsto> replicate 300 (CHR ''9'')]" "replicate 300 (CHR ''9'')" "''5''" "[''ann'' \<mapsto> ''5'']" "''c.aot''"]
  by (simp add: demo_request_ok map_stub_def)

text \<open>
  C35: Create with an empty key neither stores anything nor reports an error: the chaincode
  leaves its state machine before the first step (the length of the key is the result it
  tests), and the client receives \<open>NO_RESPONSE\<close> with a success status.
\<close>

theorem create_empty_key_no_response:
  assumes "coffee_platform T A L M" and "\<forall>r. request_ok A L M os r" and "proxy_idle ctx"
    and "stub_GetState stub [] l = Inr v"
  shows "\<exists>ctx'. run_transactions T os stub [coffee_request aot ''create'' [[], w]] ctx l =
     Some ([Shim_Success ''NO_RESPONSE''], ctx', l)"
proof -
  let ?rs = "[coffee_request aot ''create'' [[], w]]"
  have "spec_transactions stub ?rs l = ([Shim_Success ''NO_RESPONSE''], l)"
    using assms(4) by (simp add: coffee_request_def tx_of_def arg_at_def coffee_tx_def)
  with transactions_run [OF assms(1) _ assms(3), of os ?rs stub l] assms(2) show ?thesis by auto
qed

theorem create_empty_key_no_response_witness:
  "\<exists>ctx'. run_transactions demo_teec demo_os map_stub [coffee_request ''c.aot'' ''create'' [[], ''5'']] demo_ctx Map.empty =
     Some ([Shim_Success ''NO_RESPONSE''], ctx', Map.empty)"
  by (rule create_empty_key_no_response [OF demo_platform _ demo_ctx_idle, of demo_os map_stub Map.empty None])
    (simp_all add: demo_request_ok map_stub_def)

section \<open>Properties of the two worlds together\<close>

text \<open>
  C9: The arguments arrive. Packing a function name and any arguments into the shared buffer never
  leaves the buffer, and what the TA then receives are ten terminated rows: row 0 is the function
  name, row \<open>j\<close> is argument \<open>j\<close>, each cut to its first 63 bytes by the proxy itself; rows without an
  argument are empty, arguments after the ninth are dropped and the rest of the session is unchanged.
\<close>

theorem arguments_arrive:
  assumes "wf_session sc" and "j < 10"
  shows "\<exists>buf. pack_invocation f args (replicate max_size NUL) = Some buf \<and> length buf = max_size \<and>
     receive_arguments buf sc = Some (sc\<lparr>sc_args := buf\<rparr>) \<and>
     cstr (arg_row (sc\<lparr>sc_args := buf\<rparr>) j) = take 63 (cstr (arg_at j (f # args)))"
proof -
  let ?xs = "f # take 9 args"
  define buf where "buf = concat (map (cfield 64) ?xs) @ replicate (64 * (9 - length args)) NUL"
  have len: "length buf = 640" by (simp add: buf_def length_rows del: length_concat)
  have "cstr (drop (64 * j) buf) = take 63 (cstr (arg_at j ?xs))"
    using cstr_rows [OF buf_def, of j] by (simp add: visible_arg_def)
  moreover have "arg_at j ?xs = arg_at j (f # args)" using assms(2) by (cases j) (auto simp: arg_at_def)
  ultimately have "cstr (arg_row (sc\<lparr>sc_args := buf\<rparr>) j) = take 63 (cstr (arg_at j (f # args)))"
    by (simp add: arg_row_def mult.commute)
  then show ?thesis
    using receive_arguments_640 [of buf sc] len assms(1) pack_invocation_rows [of f args] by (simp add: buf_def)
qed

theorem arguments_arrive_witness:
  "\<exists>buf. pack_invocation ''add'' [replicate 70 CHR ''k'', ''5''] (replicate max_size NUL) = Some buf \<and> length buf = max_size \<and>
     receive_arguments buf zero_session = Some (zero_session\<lparr>sc_args := buf\<rparr>) \<and>
     cstr (arg_row (zero_session\<lparr>sc_args := buf\<rparr>) 1) = replicate 63 CHR ''k''"
  using arguments_arrive [of zero_session 1 "''add''" "[replicate 70 CHR ''k'', ''5'']"] zero_session_ok(1)
  by (simp add: arg_at_def cstr_def del: replicate.simps)

text \<open>
  C34: \<open>RUN_WASM\<close> does not reset the session's response. When a session that has answered once is
  used again for \<open>create\<close> with an empty key, for which the chaincode stops without an answer, \<open>RUN_WASM\<close>
  passes on the chaincode's request for the empty key and the \<open>RESUME_WASM\<close> that follows hands the
  previous invocation's response to the host as the answer to the new one.
\<close>

theorem stale_response_replayed:
  assumes "wamr_runs_coffee A L" and "wamr_loads_coffee A L (p_buffer (par0 ps))"
    and "malloc_ok M (ta_allocs ta) (unat (ta_heap_size ta)) (length (p_buffer (par0 ps)))"
    and "ta_sess ta = Some sc" and "session_inv sc" and "sc_pending_type sc = 0"
    and "sc_has_response sc \<noteq> 0" and "cstr (sc_response sc) = m" and "m \<noteq> []"
    and "640 \<le> length (p_buffer (par2 ps))" and "p_buffer (par2 ps) ! 639 = NUL"
    and "arg_of (p_buffer (par2 ps)) 0 = ''create''" and "arg_of (p_buffer (par2 ps)) 1 = []"
    and "320 \<le> length (p_buffer (par2 qs))" and "terminated (drop 64 (p_buffer (par2 qs)))"
  shows "\<exists>ta1 ta2. TA_InvokeCommandEntryPoint A M COMMAND_RUN_WASM run_param_types ps ta =
       Some (TEE_SUCCESS, encode_request (Get_state []) ps, ta1) \<and>
     TA_InvokeCommandEntryPoint A M COMMAND_RESUME_WASM resume_param_types qs ta1 =
       Some (TEE_SUCCESS, encode_request (Response m) qs, ta2)"
proof -
  let ?s = "spec_start (p_buffer (par2 ps)) (last_response sc)"
  have d: "spec_dispatch ?s = (Get_state [], ?s\<lparr>sp_phase := Dead\<rparr>)"
    using assms(12,13) by (simp add: spec_dispatch_def spec_start_def)
  have "sc_has_response sc \<noteq> 0 \<longrightarrow> cstr (sc_response sc) \<noteq> []" using assms(8,9) by simp
  from run_coffee [OF assms(1-6) this assms(10,11)] d
  obtain ta1 where r: "run_wasm A M ps ta = Some (TEE_SUCCESS, encode_request (Get_state []) ps, ta1)"
    "coffee_rel L (?s\<lparr>sp_phase := Dead\<rparr>) ta1" by auto
  moreover have "spec_resume (?s\<lparr>sp_phase := Dead\<rparr>) u = (Response m, ?s\<lparr>sp_phase := Dead\<rparr>)" for u
    using assms(7,8) by (simp add: spec_resume_def spec_start_def last_response_def)
  ultimately show ?thesis
    using resume_coffee [OF assms(1) r(2) assms(14,15)] unfolding invoke_run invoke_resume by auto
qed

definition answered_session :: session where
  "answered_session = zero_session\<lparr>sc_response := cfield 256 ''OK'', sc_has_response := 1\<rparr>"

theorem stale_response_replayed_witness:
  "\<exists>ta1 ta2. TA_InvokeCommandEntryPoint demo_wamr (\<lambda>_ _. True) COMMAND_RUN_WASM run_param_types
       (demo_params (cfield 64 ''create'' @ replicate 576 NUL)) (demo_ta\<lparr>ta_sess := Some answered_session\<rparr>) =
       Some (TEE_SUCCESS, encode_request (Get_state []) (demo_params (cfield 64 ''create'' @ replicate 576 NUL)), ta1) \<and>
     TA_InvokeCommandEntryPoint demo_wamr (\<lambda>_ _. True) COMMAND_RESUME_WASM resume_param_types
       (demo_params (replicate 640 NUL)) ta1 =
       Some (TEE_SUCCESS, encode_request (Response ''OK'') (demo_params (replicate 640 NUL)), ta2)"
proof (rule stale_response_replayed [OF demo_runs demo_loads, where sc = answered_session])
  show "session_inv answered_session" "sc_pending_type answered_session = 0"
    "sc_has_response answered_session \<noteq> 0" "cstr (sc_response answered_session) = ''OK''"
    by (simp_all add: answered_session_def session_inv_def wf_session_def zero_session_def cstr_cfield_short)
qed (simp_all add: malloc_ok_def demo_params_def demo_ta_def nth_append arg_of_def cfield_short cstr_append_terminated)

end
